(* ===== verification/Prelude.thy ===== *)
theory Prelude
  imports Complex_Main "HOL-Library.Multiset" "HOL-Library.Sublist"
begin

text \<open>
  Shared vocabulary of the development: the JavaScript values and library routines the source uses
  (instants, JSON values, truthiness, string tests, the stable \<open>Array.prototype.sort\<close>), and the
  generic lemmas about them.

  \<^item> A \<open>Date\<close> that is valid is the number of milliseconds since the epoch, an \<open>int\<close>; a nullable
    column is an \<open>option\<close>.
  \<^item> Text is a list of characters, one per UTF-16 code unit (only the first 256 code units exist in
    \<^typ>\<open>char\<close>).
  \<^item> \<open>localeCompare\<close> is the collation of the host and a parameter everywhere; what the code needs of
    it is that it is a consistent comparator, the locale \<open>comparator\<close> below. \<open>sort()\<close> without a
    comparator compares code units, \<open>code_unit_cmp\<close>, which is an instance.
\<close>

named_theorems js_simps \<open>unfoldings of the JavaScript routines\<close>

type_synonym ms = int
type_synonym 'a cmp = "'a \<Rightarrow> 'a \<Rightarrow> int"

section \<open>Values\<close>

text \<open>A parsed JSON value; an object lists its (distinct) keys in insertion order.\<close>

datatype json =
    JNull
  | JBool bool
  | JNum rat
  | JStr string
  | JArr "json list"
  | JObj "(string \<times> json) list"

text \<open>Reading a property of a value that may be missing, null or not an object: such a read
  finds nothing (\<open>undefined\<close>).\<close>

fun json_field :: "json option \<Rightarrow> string \<Rightarrow> json option" where
  "json_field (Some (JObj kvs)) k = map_of kvs k"
| "json_field _ k = None"

fun is_json_object :: "json option \<Rightarrow> bool" where
  "is_json_object (Some (JObj kvs)) = True"
| "is_json_object _ = False"

text \<open>A nullable string is truthy when it is neither null nor empty.\<close>

definition truthy :: "string option \<Rightarrow> bool" where
  [js_simps]: "truthy s = (case s of None \<Rightarrow> False | Some t \<Rightarrow> t \<noteq> [])"

text \<open>\<open>a || b\<close> on nullable text.\<close>

definition str_or :: "string option \<Rightarrow> string \<Rightarrow> string" where
  [js_simps]: "str_or s d = (case s of None \<Rightarrow> d | Some t \<Rightarrow> if t = [] then d else t)"

definition starts_with :: "string \<Rightarrow> string \<Rightarrow> bool" where
  [js_simps]: "starts_with s p = prefix p s"

definition ends_with :: "string \<Rightarrow> string \<Rightarrow> bool" where
  [js_simps]: "ends_with s p = suffix p s"

definition str_includes :: "string \<Rightarrow> string \<Rightarrow> bool" where
  [js_simps]: "str_includes s p = (p \<in> set (sublists s))"

text \<open>Lower case on the ASCII letters, which is what the compared vocabularies consist of.\<close>

definition lower_char :: "char \<Rightarrow> char" where
  "lower_char c = (let n = (of_char c :: nat) in if 65 \<le> n \<and> n \<le> 90 then char_of (n + 32) else c)"

definition to_lower :: "string \<Rightarrow> string" where
  "to_lower s = map lower_char s"

definition is_space :: "char \<Rightarrow> bool" where
  "is_space c = (let n = (of_char c :: nat) in n = 32 \<or> (9 \<le> n \<and> n \<le> 13) \<or> n = 160)"

definition trim :: "string \<Rightarrow> string" where
  "trim s = rev (dropWhile is_space (rev (dropWhile is_space s)))"

text \<open>\<open>s.split(c)\<close> at a character.\<close>

fun split_on :: "char \<Rightarrow> string \<Rightarrow> string list" where
  "split_on c [] = [[]]"
| "split_on c (d # s) =
     (if d = c then [] # split_on c s
      else (case split_on c s of [] \<Rightarrow> [[d]] | t # ts \<Rightarrow> (d # t) # ts))"

text \<open>\<open>s.split('::')\<close>.\<close>

fun split_colons :: "string \<Rightarrow> string list" where
  "split_colons (c # d # s) =
     (if c = CHR '':'' \<and> d = CHR '':'' then [] # split_colons s
      else (case split_colons (d # s) of [] \<Rightarrow> [[c]] | t # ts \<Rightarrow> (c # t) # ts))"
| "split_colons s = [s]"

section \<open>First occurrence lists: \<open>new Set(...)\<close> and \<open>new Map(...)\<close>\<close>

text \<open>A \<open>Set\<close> iterates its values in the order of their first insertion.\<close>

fun dedup :: "'a list \<Rightarrow> 'a list" where
  "dedup [] = []"
| "dedup (x # xs) = x # filter (\<lambda>y. y \<noteq> x) (dedup xs)"

lemma set_dedup [simp]: "set (dedup xs) = set xs"
  by (induction xs) auto

lemma distinct_dedup [simp]: "distinct (dedup xs)"
  by (induction xs) auto

lemma dedup_distinct [simp]: "distinct xs \<Longrightarrow> dedup xs = xs"
proof (induction xs)
  case (Cons x xs)
  then have "filter (\<lambda>y. y \<noteq> x) xs = xs" by (intro filter_True) auto
  with Cons show ?case by simp
qed simp

text \<open>\<open>new Map(entries)\<close>: the last entry of a key wins.\<close>

definition map_of_last :: "('k \<times> 'v) list \<Rightarrow> 'k \<Rightarrow> 'v option" where
  [js_simps]: "map_of_last kvs k = map_of (rev kvs) k"

lemma map_of_last_SomeD: "map_of_last kvs k = Some v \<Longrightarrow> (k, v) \<in> set kvs"
  unfolding map_of_last_def by (drule map_of_SomeD) simp

lemma map_of_last_None: "map_of_last kvs k = None \<longleftrightarrow> k \<notin> fst ` set kvs"
  by (simp add: map_of_last_def map_of_eq_None_iff)

text \<open>\<open>Array.prototype.find\<close>.\<close>

lemma find_SomeD: "find P xs = Some x \<Longrightarrow> x \<in> set xs \<and> P x"
  by (induction xs) (auto split: if_splits)

lemma find_eq_NoneD: "find P xs = None \<Longrightarrow> x \<in> set xs \<Longrightarrow> \<not> P x"
  by (induction xs) (auto split: if_splits)

section \<open>The stable sort\<close>

fun insert_cmp :: "'a cmp \<Rightarrow> 'a \<Rightarrow> 'a list \<Rightarrow> 'a list" where
  "insert_cmp cmp x [] = [x]"
| "insert_cmp cmp x (y # ys) = (if cmp x y \<le> 0 then x # y # ys else y # insert_cmp cmp x ys)"

definition js_sort :: "'a cmp \<Rightarrow> 'a list \<Rightarrow> 'a list" where
  "js_sort cmp xs = foldr (insert_cmp cmp) xs []"

lemma js_sort_Nil [simp]: "js_sort cmp [] = []"
  by (simp add: js_sort_def)

lemma js_sort_Cons [simp]: "js_sort cmp (x # xs) = insert_cmp cmp x (js_sort cmp xs)"
  by (simp add: js_sort_def)

lemma mset_insert_cmp [simp]: "mset (insert_cmp cmp x xs) = add_mset x (mset xs)"
  by (induction xs) auto

lemma mset_js_sort [simp]: "mset (js_sort cmp xs) = mset xs"
  by (induction xs) auto

lemma set_insert_cmp [simp]: "set (insert_cmp cmp x xs) = insert x (set xs)"
  by (induction xs) auto

lemma set_js_sort [simp]: "set (js_sort cmp xs) = set xs"
  by (induction xs) auto

lemma length_js_sort [simp]: "length (js_sort cmp xs) = length xs"
  by (metis mset_js_sort size_mset)

lemma distinct_js_sort [simp]: "distinct (js_sort cmp xs) = distinct xs"
  by (metis mset_eq_imp_distinct_iff mset_js_sort)

lemma js_sort_eq_Nil [simp]: "js_sort cmp xs = [] \<longleftrightarrow> xs = []"
  by (metis length_0_conv length_js_sort)

lemma js_sort_eq_Cons_in: "js_sort cmp xs = y # ys \<Longrightarrow> y \<in> set xs"
  by (metis list.set_intros(1) set_js_sort)

locale comparator =
  fixes cmp :: "'a cmp"
  assumes cmp_refl: "cmp x x = 0"
    and cmp_anti: "sgn (cmp y x) = - sgn (cmp x y)"
    and cmp_trans: "cmp x y \<le> 0 \<Longrightarrow> cmp y z \<le> 0 \<Longrightarrow> cmp x z \<le> 0"
begin

lemma cmp_total: "cmp x y \<le> 0 \<or> cmp y x \<le> 0"
  using cmp_anti [of y x] by (auto simp: sgn_if split: if_splits)

lemma cmp_gt: "\<not> cmp x y \<le> 0 \<Longrightarrow> cmp y x < 0"
  using cmp_anti [of y x] by (auto simp: sgn_if split: if_splits)

lemma sorted_insert_cmp:
  "sorted_wrt (\<lambda>a b. cmp a b \<le> 0) xs \<Longrightarrow> sorted_wrt (\<lambda>a b. cmp a b \<le> 0) (insert_cmp cmp x xs)"
proof (induction xs)
  case (Cons y ys)
  then show ?case
    using cmp_gt [of x y] by (fastforce intro: cmp_trans)
qed simp

lemma sorted_js_sort: "sorted_wrt (\<lambda>a b. cmp a b \<le> 0) (js_sort cmp xs)"
  by (induction xs) (auto intro: sorted_insert_cmp)

lemma js_sort_hd_least:
  assumes "js_sort cmp xs = y # ys" and "x \<in> set xs"
  shows "cmp y x \<le> 0"
proof -
  have "sorted_wrt (\<lambda>a b. cmp a b \<le> 0) (y # ys)"
    using sorted_js_sort [of xs] assms(1) by simp
  moreover have "x \<in> set (y # ys)"
    using assms by (metis set_js_sort)
  ultimately show ?thesis by (auto simp: cmp_refl)
qed

lemma js_sort_sorted_id: "sorted_wrt (\<lambda>a b. cmp a b \<le> 0) xs \<Longrightarrow> js_sort cmp xs = xs"
proof (induction xs)
  case (Cons x xs)
  then show ?case by (cases xs) auto
qed simp

end

text \<open>Comparing first by one key and then, on a tie, by another: \<open>a - b || c.localeCompare(d)\<close>.\<close>

definition then_cmp :: "'a cmp \<Rightarrow> 'a cmp \<Rightarrow> 'a cmp" where
  "then_cmp c d x y = (if c x y \<noteq> 0 then c x y else d x y)"

definition key_cmp :: "('a \<Rightarrow> 'b) \<Rightarrow> 'b cmp \<Rightarrow> 'a cmp" where
  "key_cmp f c x y = c (f x) (f y)"

definition num_cmp :: "int cmp" where
  "num_cmp x y = x - y"

definition desc_cmp :: "'a cmp \<Rightarrow> 'a cmp" where
  "desc_cmp c x y = c y x"

lemma comparator_num: "comparator num_cmp"
  by unfold_locales (auto simp: num_cmp_def sgn_if)

lemma comparator_key: "comparator c \<Longrightarrow> comparator (key_cmp f c)"
  unfolding comparator_def key_cmp_def by blast

lemma comparator_desc: "comparator c \<Longrightarrow> comparator (desc_cmp c)"
  unfolding comparator_def desc_cmp_def by blast

lemma comparator_then:
  assumes "comparator c" and "comparator d"
  shows "comparator (then_cmp c d)"
proof -
  note c = comparator.cmp_refl [OF assms(1)] comparator.cmp_anti [OF assms(1)]
  note d = comparator.cmp_refl [OF assms(2)] comparator.cmp_anti [OF assms(2)]
  have sign0: "c x y = 0 \<longleftrightarrow> c y x = 0" for x y
    using c(2) [of x y] by (auto simp: sgn_if split: if_splits)
  show ?thesis
  proof
    fix x y z
    show "then_cmp c d x x = 0" using c d by (simp add: then_cmp_def)
    show "sgn (then_cmp c d y x) = - sgn (then_cmp c d x y)"
      using c(2) [of y x] d(2) [of y x] sign0 [of x y] by (simp add: then_cmp_def)
    assume le: "then_cmp c d x y \<le> 0" "then_cmp c d y z \<le> 0"
    then have "c x y \<le> 0" "c y z \<le> 0" by (auto simp: then_cmp_def split: if_splits)
    then have cxz: "c x z \<le> 0" by (rule comparator.cmp_trans [OF assms(1)])
    show "then_cmp c d x z \<le> 0"
    proof (cases "c x z = 0")
      case True
      then have "c z x = 0" using sign0 by blast
      then have "c z y \<le> 0" "c y x \<le> 0"
        using \<open>c x y \<le> 0\<close> \<open>c y z \<le> 0\<close> comparator.cmp_trans [OF assms(1)]
        by (metis order_refl)+
      then have "c x y = 0" "c y z = 0"
        using \<open>c x y \<le> 0\<close> \<open>c y z \<le> 0\<close> c(2) [of x y] c(2) [of y z]
        by (auto simp: sgn_if split: if_splits)
      with le have "d x y \<le> 0" "d y z \<le> 0" by (auto simp: then_cmp_def)
      with True show ?thesis
        by (simp add: then_cmp_def comparator.cmp_trans [OF assms(2)])
    next
      case False
      with cxz show ?thesis by (simp add: then_cmp_def)
    qed
  qed
qed

text \<open>Code-unit order.\<close>

fun code_unit_cmp :: "string cmp" where
  "code_unit_cmp [] [] = 0"
| "code_unit_cmp [] (y # ys) = - 1"
| "code_unit_cmp (x # xs) [] = 1"
| "code_unit_cmp (x # xs) (y # ys) =
     (if (of_char x :: nat) = of_char y then code_unit_cmp xs ys
      else if (of_char x :: nat) < of_char y then - 1 else 1)"

lemma code_unit_cmp_refl: "code_unit_cmp x x = 0"
  by (induction x) auto

lemma code_unit_cmp_anti: "code_unit_cmp y x = - code_unit_cmp x y"
  by (induction x y rule: code_unit_cmp.induct) auto

lemma code_unit_cmp_eq0: "code_unit_cmp x y = 0 \<longleftrightarrow> x = y"
  by (induction x y rule: code_unit_cmp.induct) auto

lemma code_unit_cmp_trans:
  "code_unit_cmp x y \<le> 0 \<Longrightarrow> code_unit_cmp y z \<le> 0 \<Longrightarrow> code_unit_cmp x z \<le> 0"
proof (induction x y arbitrary: z rule: code_unit_cmp.induct)
  case (2 y ys)
  then show ?case by (cases z) auto
next
  case (4 x xs y ys)
  then show ?case by (cases z) (auto split: if_splits)
qed auto

interpretation code_unit: comparator code_unit_cmp
proof
  fix x y z :: string
  show "code_unit_cmp x x = 0" by (rule code_unit_cmp_refl)
  show "sgn (code_unit_cmp y x) = - sgn (code_unit_cmp x y)"
    by (subst code_unit_cmp_anti) simp
  show "code_unit_cmp x y \<le> 0 \<Longrightarrow> code_unit_cmp y z \<le> 0 \<Longrightarrow> code_unit_cmp x z \<le> 0"
    by (rule code_unit_cmp_trans)
qed

interpretation numeric: comparator num_cmp
  by (rule comparator_num)

end
