(* ===== verification/Score_Authority.thy ===== *)
theory Score_Authority
  imports Prelude
begin

text \<open>
  Which score of a job is in force: the newest legacy event (\<open>resolveScoreAuthority\<close>), or the staged
  pair of an Aim and an Experience result with the artifacts they bind
  (\<open>resolveStagedScoreAuthority\<close>), both of src/lib/scoreAuthority.ts, and the selection of jobs whose
  scores predate the current prompt (src/lib/scoringFreshness.ts).

  \<open>staleAt\<close> is a nullable instant. \<open>inputBindings\<close> is an unknown JSON value; \<open>undefined\<close> is the
  absent value of \<open>json option\<close> and JSON null is \<open>Some JNull\<close>. The display fields (compensation and
  travel text) are not part of the record.
\<close>

section \<open>Events and bundles\<close>

definition LEGACY_SCORE_EVENT_TYPES :: "string list" where
  "LEGACY_SCORE_EVENT_TYPES = [''standard'', ''ae_fit'']"

definition STAGED_SCORE_EVENT_TYPES :: "string list" where
  "STAGED_SCORE_EVENT_TYPES = [''aim_fit'', ''experience_fit'']"

definition DUPLICATE_MERGE_SCORE_EVENT_TYPES :: "string list" where
  "DUPLICATE_MERGE_SCORE_EVENT_TYPES = [''duplicate_merge_aim'', ''duplicate_merge_experience'']"

definition AUTHORITATIVE_SCORE_EVENT_TYPES :: "string list" where
  "AUTHORITATIVE_SCORE_EVENT_TYPES =
     LEGACY_SCORE_EVENT_TYPES @ STAGED_SCORE_EVENT_TYPES @ DUPLICATE_MERGE_SCORE_EVENT_TYPES"

datatype authority_state = Current | StaleReplayNeeded | Unscored

record score_event =
  se_evaluationType :: string
  se_staleAt :: "ms option"
  se_staleReason :: "string option"
  se_id :: string
  se_schemaVersion :: "string option"
  se_passed :: bool
  se_inputBindingsCurrent :: "bool option"
  se_sourceAimEventId :: "string option"
  se_cleanedJdArtifactId :: "string option"
  se_aimFactualExtractionId :: "string option"
  se_semanticResultHash :: "string option"
  se_aimFitScore :: "int option"
  se_experienceFitScore :: "int option"
  se_inputBindings :: "json option"

record bound_artifact =
  ba_id :: string
  ba_hash :: string
  ba_staleAt :: "ms option"

record score_bundle =
  sb_legacy :: "score_event option"
  sb_aim :: "score_event option"
  sb_experience :: "score_event option"
  sb_cleanedArtifact :: "bound_artifact option"
  sb_aimExtraction :: "bound_artifact option"

datatype authority_mode = ModeUnscored | ModeLegacy | ModeStaged

record staged_authority =
  sa_mode :: authority_mode
  sa_aimAuthorityState :: authority_state
  sa_experienceAuthorityState :: authority_state
  sa_currentAim :: "score_event option"
  sa_staleAim :: "score_event option"
  sa_currentExperience :: "score_event option"
  sa_staleExperience :: "score_event option"
  sa_currentLegacy :: "score_event option"
  sa_staleScoreReason :: "string option"
  sa_aimInputVersionDrifted :: bool
  sa_experienceInputVersionDrifted :: bool

record legacy_authority =
  la_scoreAuthorityState :: authority_state
  la_currentScore :: "score_event option"
  la_staleScore :: "score_event option"
  la_staleScoreReason :: "string option"

section \<open>Legacy authority\<close>

definition is_legacy_event :: "score_event \<Rightarrow> bool" where
  "is_legacy_event e \<longleftrightarrow> se_evaluationType e \<in> set LEGACY_SCORE_EVENT_TYPES"

definition resolveScoreAuthority :: "score_event list \<Rightarrow> legacy_authority" where
  "resolveScoreAuthority newestFirstEvents =
     (case find is_legacy_event newestFirstEvents of
        None \<Rightarrow> \<lparr>la_scoreAuthorityState = Unscored, la_currentScore = None, la_staleScore = None,
                 la_staleScoreReason = None\<rparr>
      | Some newest \<Rightarrow>
          if se_staleAt newest \<noteq> None
          then \<lparr>la_scoreAuthorityState = StaleReplayNeeded, la_currentScore = None,
                la_staleScore = Some newest,
                la_staleScoreReason = Some (str_or (se_staleReason newest)
                  ''The newest score was invalidated and must be replayed.'')\<rparr>
          else \<lparr>la_scoreAuthorityState = Current, la_currentScore = Some newest,
                la_staleScore = None, la_staleScoreReason = None\<rparr>)"

definition scoreInvalidationReason :: "string list \<Rightarrow> string" where
  "scoreInvalidationReason changedFields =
     (let fields = js_sort code_unit_cmp (dedup changedFields)
      in ''job-input-edited:'' @
         (if fields \<noteq> [] then concat (tl (concat (map (\<lambda>f. ['','', f]) fields))) else ''forced_rescore''))"

definition scoringInputMutationPolicy :: "bool \<Rightarrow> bool \<Rightarrow> bool \<Rightarrow> bool \<times> bool" where
  "scoringInputMutationPolicy scoringInputChanged forceRescore skipRescore =
     (let shouldQueueRescore = (scoringInputChanged \<or> forceRescore) \<and> \<not> skipRescore
      in (shouldQueueRescore, shouldQueueRescore))"

section \<open>Staged authority\<close>

text \<open>\<open>===\<close> between values read from JSON and nullable columns. Two objects that were parsed
  separately are never identical.\<close>

fun strict_eq_nullable :: "json option \<Rightarrow> string option \<Rightarrow> bool" where
  "strict_eq_nullable (Some (JStr s)) (Some t) = (s = t)"
| "strict_eq_nullable (Some JNull) None = True"
| "strict_eq_nullable _ _ = False"

fun strict_eq :: "json option \<Rightarrow> json option \<Rightarrow> bool" where
  "strict_eq (Some (JStr s)) (Some (JStr t)) = (s = t)"
| "strict_eq (Some (JNum m)) (Some (JNum n)) = (m = n)"
| "strict_eq (Some (JBool a)) (Some (JBool b)) = (a = b)"
| "strict_eq (Some JNull) (Some JNull) = True"
| "strict_eq None None = True"
| "strict_eq _ _ = False"

definition objectValue :: "json option \<Rightarrow> json option" where
  "objectValue v = (if is_json_object v then v else None)"

definition mergedAim :: "score_event \<Rightarrow> bool" where
  "mergedAim a \<longleftrightarrow> se_evaluationType a = ''duplicate_merge_aim''"

definition mergedExperience :: "score_event \<Rightarrow> bool" where
  "mergedExperience e \<longleftrightarrow> se_evaluationType e = ''duplicate_merge_experience''"

definition artifactCurrent :: "score_bundle \<Rightarrow> score_event \<Rightarrow> bool" where
  "artifactCurrent b a \<longleftrightarrow>
     se_staleAt a = None
     \<and> (case sb_cleanedArtifact b of
          None \<Rightarrow> False
        | Some art \<Rightarrow> ba_staleAt art = None \<and> se_cleanedJdArtifactId a = Some (ba_id art))"

text \<open>A version 2 Experience result binds the factual extraction, the semantic hash and the source
  description of the Aim result.\<close>

definition experienceBindsV2 :: "score_bundle \<Rightarrow> score_event \<Rightarrow> score_event \<Rightarrow> bool" where
  "experienceBindsV2 b a e \<longleftrightarrow>
     (let aimSourceJdHash = json_field (objectValue (json_field (objectValue (se_inputBindings a)) ''source''))
            ''sourceJdHash'';
          experienceInput = objectValue (se_inputBindings e)
      in se_schemaVersion a = Some ''career-dashboard-aim-result-v2''
         \<and> truthy (se_aimFactualExtractionId a)
         \<and> se_aimFactualExtractionId e = se_aimFactualExtractionId a
         \<and> (case sb_aimExtraction b of
              None \<Rightarrow> False
            | Some x \<Rightarrow> ba_staleAt x = None
                \<and> se_aimFactualExtractionId a = Some (ba_id x)
                \<and> aimSourceJdHash = Some (JStr (ba_hash x)))
         \<and> strict_eq_nullable (json_field experienceInput ''aimSemanticResultHash'')
             (se_semanticResultHash a)
         \<and> strict_eq (json_field experienceInput ''sourceJdHash'') aimSourceJdHash)"

definition experienceBindsV1 :: "score_bundle \<Rightarrow> score_event \<Rightarrow> score_event \<Rightarrow> bool" where
  "experienceBindsV1 b a e \<longleftrightarrow>
     artifactCurrent b a
     \<and> (case sb_cleanedArtifact b of
          None \<Rightarrow> False
        | Some art \<Rightarrow> se_cleanedJdArtifactId e = Some (ba_id art))"

definition experienceCurrent :: "score_bundle \<Rightarrow> score_event \<Rightarrow> score_event \<Rightarrow> bool" where
  "experienceCurrent b a e \<longleftrightarrow>
     se_staleAt e = None
     \<and> (mergedExperience e
        \<or> (se_staleAt a = None
           \<and> se_passed a
           \<and> se_sourceAimEventId e = Some (se_id a)
           \<and> (if se_schemaVersion e = Some ''career-dashboard-experience-result-v2''
              then experienceBindsV2 b a e
              else experienceBindsV1 b a e)))"

definition resolveStagedScoreAuthority :: "score_bundle \<Rightarrow> staged_authority" where
  "resolveStagedScoreAuthority b =
     (case sb_aim b of
        None \<Rightarrow>
          (let legacy = resolveScoreAuthority (case sb_legacy b of None \<Rightarrow> [] | Some e \<Rightarrow> [e])
           in \<lparr>sa_mode = (if sb_legacy b \<noteq> None then ModeLegacy else ModeUnscored),
               sa_aimAuthorityState = la_scoreAuthorityState legacy,
               sa_experienceAuthorityState = Unscored,
               sa_currentAim = None, sa_staleAim = None,
               sa_currentExperience = None, sa_staleExperience = None,
               sa_currentLegacy = la_currentScore legacy,
               sa_staleScoreReason = la_staleScoreReason legacy,
               sa_aimInputVersionDrifted = False, sa_experienceInputVersionDrifted = False\<rparr>)
      | Some a \<Rightarrow>
          (let aimCurrent = (se_staleAt a = None);
               expCurrent = (case sb_experience b of None \<Rightarrow> False | Some e \<Rightarrow> experienceCurrent b a e)
           in \<lparr>sa_mode = ModeStaged,
               sa_aimAuthorityState = (if aimCurrent then Current else StaleReplayNeeded),
               sa_experienceAuthorityState =
                 (case sb_experience b of None \<Rightarrow> Unscored
                  | Some _ \<Rightarrow> if expCurrent then Current else StaleReplayNeeded),
               sa_currentAim = (if aimCurrent then Some a else None),
               sa_staleAim = (if aimCurrent then None else Some a),
               sa_currentExperience = (if expCurrent then sb_experience b else None),
               sa_staleExperience = (if expCurrent then None else sb_experience b),
               sa_currentLegacy = None,
               sa_staleScoreReason =
                 (if \<not> aimCurrent
                  then Some (str_or (se_staleReason a)
                    ''The newest Aim result was invalidated and must be replayed.'')
                  else case sb_experience b of
                    Some e \<Rightarrow> if \<not> expCurrent
                      then Some (str_or (se_staleReason e)
                        ''The newest Experience result is stale or does not bind the current Aim artifact.'')
                      else None
                  | None \<Rightarrow> None),
               sa_aimInputVersionDrifted =
                 (if mergedAim a then False else se_inputBindingsCurrent a = Some False),
               sa_experienceInputVersionDrifted =
                 (case sb_experience b of None \<Rightarrow> False
                  | Some e \<Rightarrow> if mergedExperience e then False
                      else se_inputBindingsCurrent e = Some False)\<rparr>))"

section \<open>Prompt freshness\<close>

record version_event =
  ve_jobId :: string
  ve_promptVersion :: string
  ve_staleAt :: "ms option"

fun usable_versions ::
  "version_event list \<Rightarrow> string set \<Rightarrow> (string \<rightharpoonup> string) \<Rightarrow> (string \<rightharpoonup> string)" where
  "usable_versions [] observed versions = versions"
| "usable_versions (event # events) observed versions =
     (if ve_jobId event \<in> observed then usable_versions events observed versions
      else usable_versions events (insert (ve_jobId event) observed)
        (if ve_staleAt event = None then versions(ve_jobId event \<mapsto> ve_promptVersion event)
         else versions))"

definition latestUsablePromptVersions :: "version_event list \<Rightarrow> (string \<rightharpoonup> string)" where
  "latestUsablePromptVersions newestFirstEvents = usable_versions newestFirstEvents {} Map.empty"

record version_candidate =
  vc_id :: string
  vc_passReason :: "string option"
  vc_tailoringStaged :: bool

definition isExplicitUserPromotion :: "string option \<Rightarrow> bool" where
  "isExplicitUserPromotion reason \<longleftrightarrow> str_includes (to_lower (str_or reason [])) ''promoted by user''"

definition staleActiveScoreIds ::
  "version_candidate list \<Rightarrow> (string \<rightharpoonup> string) \<Rightarrow> string \<Rightarrow> string list" where
  "staleActiveScoreIds candidates latest currentPromptVersion =
     map vc_id (filter (\<lambda>job. latest (vc_id job) \<noteq> Some currentPromptVersion)
       (filter (\<lambda>job. \<not> isExplicitUserPromotion (vc_passReason job))
         (filter (\<lambda>job. \<not> vc_tailoringStaged job) candidates)))"

text \<open>The title pattern: one of the phrases, between word boundaries, in any case.\<close>

definition is_word_char :: "char \<Rightarrow> bool" where
  "is_word_char c = (let n = (of_char c :: nat) in
     (48 \<le> n \<and> n \<le> 57) \<or> (65 \<le> n \<and> n \<le> 90) \<or> (97 \<le> n \<and> n \<le> 122) \<or> n = 95)"

fun phrase_at_start :: "string list \<Rightarrow> string \<Rightarrow> bool" where
  "phrase_at_start phrases s =
     (\<exists>p \<in> set phrases. prefix p s
        \<and> (case drop (length p) s of [] \<Rightarrow> True | c # _ \<Rightarrow> \<not> is_word_char c))"

fun phrase_search :: "string list \<Rightarrow> bool \<Rightarrow> string \<Rightarrow> bool" where
  "phrase_search phrases boundary [] = False"
| "phrase_search phrases boundary (c # s) =
     ((boundary \<and> phrase_at_start phrases (c # s)) \<or> phrase_search phrases (\<not> is_word_char c) s)"

definition RECOVERABLE_TARGET_TITLE :: "string \<Rightarrow> bool" where
  "RECOVERABLE_TARGET_TITLE title =
     phrase_search [''account executive'', ''account director'', ''account manager'',
       ''customer success'', ''client success'', ''channel'', ''partner'', ''partners'',
       ''partnership'', ''partnerships'', ''territory'', ''regional sales'', ''district sales'',
       ''sales manager'', ''field sales'', ''business development'', ''client partner'',
       ''commercial''] True (to_lower title)"

record provenance =
  pv_promptVersion :: string
  pv_passed :: bool
  pv_createdAt :: ms
  pv_staleAt :: "ms option"

record recovery_candidate =
  rc_id :: string
  rc_title :: string
  rc_aimFitScore :: "int option"
  rc_reqFitScore :: "int option"
  rc_localFilterPasses :: bool

definition num_or_zero :: "int option \<Rightarrow> int" where
  "num_or_zero v = (case v of None \<Rightarrow> 0 | Some n \<Rightarrow> n)"

definition recovery_cmp :: "string cmp \<Rightarrow> recovery_candidate cmp" where
  "recovery_cmp loc =
     then_cmp (desc_cmp (key_cmp (\<lambda>j. if RECOVERABLE_TARGET_TITLE (rc_title j) then 1 else 0) num_cmp))
       (then_cmp (desc_cmp (key_cmp (\<lambda>j. num_or_zero (rc_reqFitScore j)) num_cmp))
         (then_cmp (desc_cmp (key_cmp (\<lambda>j. num_or_zero (rc_aimFitScore j)) num_cmp))
           (key_cmp rc_id loc)))"

definition recovery_eligible ::
  "(string \<rightharpoonup> provenance) \<Rightarrow> string \<Rightarrow> ms \<Rightarrow> recovery_candidate \<Rightarrow> bool" where
  "recovery_eligible latest currentPromptVersion cutoff job \<longleftrightarrow>
     rc_localFilterPasses job
     \<and> (case latest (rc_id job) of
          None \<Rightarrow> False
        | Some event \<Rightarrow> pv_staleAt event = None \<and> \<not> pv_passed event
            \<and> pv_promptVersion event \<noteq> currentPromptVersion \<and> cutoff \<le> pv_createdAt event)
     \<and> (RECOVERABLE_TARGET_TITLE (rc_title job)
        \<or> 65 \<le> num_or_zero (rc_aimFitScore job)
        \<or> 70 \<le> num_or_zero (rc_reqFitScore job))"

definition recentDismissedRecoveryIds ::
  "string cmp \<Rightarrow> recovery_candidate list \<Rightarrow> (string \<rightharpoonup> provenance) \<Rightarrow> string \<Rightarrow> ms \<Rightarrow> rat
     \<Rightarrow> string list" where
  "recentDismissedRecoveryIds loc candidates latest currentPromptVersion cutoff limit =
     (let boundedLimit = nat (max 0 \<lfloor>limit\<rfloor>)
      in map rc_id (take boundedLimit (js_sort (recovery_cmp loc)
           (filter (recovery_eligible latest currentPromptVersion cutoff) candidates))))"

datatype count_error = CandidateCountInvalid | BatchSizeInvalid

definition projectedNativeReplayBatchCount :: "rat \<Rightarrow> rat \<Rightarrow> count_error + int" where
  "projectedNativeReplayBatchCount candidateCount batchSize =
     (if of_int \<lfloor>candidateCount\<rfloor> \<noteq> candidateCount \<or> candidateCount < 0 then Inl CandidateCountInvalid
      else if of_int \<lfloor>batchSize\<rfloor> \<noteq> batchSize \<or> batchSize \<le> 0 then Inl BatchSizeInvalid
      else Inr \<lceil>candidateCount / batchSize\<rceil>)"

section \<open>Lemmas\<close>

lemma usable_versions_spec:
  "usable_versions events observed versions j =
     (if j \<in> observed then versions j
      else case find (\<lambda>e. ve_jobId e = j) events of
             None \<Rightarrow> versions j
           | Some e \<Rightarrow> if ve_staleAt e = None then Some (ve_promptVersion e) else versions j)"
  by (induction events observed versions rule: usable_versions.induct) (auto split: option.splits)

lemmas staged_simps = resolveStagedScoreAuthority_def Let_def

lemma staged_experience_current:
  assumes "sa_currentExperience (resolveStagedScoreAuthority b) = Some e"
  obtains a where "sb_aim b = Some a" and "sb_experience b = Some e" and "experienceCurrent b a e"
  using assms by (auto simp: staged_simps split: option.splits if_splits)

section \<open>Properties\<close>

text \<open>The version 1 binding: both results name the description artifact in force.\<close>

lemma bindsV1_artifact:
  assumes "experienceBindsV1 b a e"
  shows "\<exists>art. sb_cleanedArtifact b = Some art \<and> ba_staleAt art = None
    \<and> se_cleanedJdArtifactId a = Some (ba_id art) \<and> se_cleanedJdArtifactId e = Some (ba_id art)"
  using assms by (auto simp: experienceBindsV1_def artifactCurrent_def split: option.splits)

lemma objectValue_field: "json_field (objectValue v) k = json_field v k"
  by (cases "(v, k)" rule: json_field.cases) (simp_all add: objectValue_def)

lemma strict_eq_text: "strict_eq v (Some (JStr s)) \<longleftrightarrow> v = Some (JStr s)"
  by (cases "(v, Some (JStr s))" rule: strict_eq.cases) auto

text \<open>The version 2 binding: both results name the factual extraction in force, both were computed from
  the description it was made from, and the Experience result from the content of this Aim result.\<close>

lemma bindsV2_extraction:
  assumes "experienceBindsV2 b a e"
  shows "se_schemaVersion a = Some ''career-dashboard-aim-result-v2'' \<and> (\<exists>x. sb_aimExtraction b = Some x
    \<and> ba_staleAt x = None \<and> se_aimFactualExtractionId a = Some (ba_id x) \<and> se_aimFactualExtractionId e = Some (ba_id x)
    \<and> json_field (json_field (se_inputBindings a) ''source'') ''sourceJdHash'' = Some (JStr (ba_hash x))
    \<and> json_field (se_inputBindings e) ''sourceJdHash'' = Some (JStr (ba_hash x))
    \<and> json_field (se_inputBindings e) ''aimSemanticResultHash''
        = Some (case se_semanticResultHash a of None \<Rightarrow> JNull | Some h \<Rightarrow> JStr h))"
proof -
  have hash: "strict_eq_nullable v w \<Longrightarrow> v = Some (case w of None \<Rightarrow> JNull | Some h \<Rightarrow> JStr h)" for v w
    by (cases "(v, w)" rule: strict_eq_nullable.cases) auto
  show ?thesis
    using assms hash
    by (auto simp: experienceBindsV2_def objectValue_field strict_eq_text Let_def split: option.splits)
qed

text \<open>C8. An Experience score in force that does not record a confirmed merge of two cards hangs on the Aim
  result in force: neither was invalidated, that Aim result passed, and the Experience result names it as its
  source. A version 2 result binds the factual extraction in force, which both results name and which is not
  stale, the hash of the description that extraction, the Aim result and the Experience result were made from, and
  the semantic hash of the Aim result; an earlier one binds the description artifact in force, not stale, which
  both results name.\<close>

theorem current_experience_is_bound:
  assumes "sa_currentExperience (resolveStagedScoreAuthority b) = Some e" and "\<not> mergedExperience e"
  shows "se_staleAt e = None
    \<and> (\<exists>a. sb_aim b = Some a \<and> sa_currentAim (resolveStagedScoreAuthority b) = Some a \<and> se_staleAt a = None
         \<and> se_passed a \<and> se_sourceAimEventId e = Some (se_id a)
         \<and> (if se_schemaVersion e = Some ''career-dashboard-experience-result-v2''
            then se_schemaVersion a = Some ''career-dashboard-aim-result-v2'' \<and> (\<exists>x. sb_aimExtraction b = Some x
                \<and> ba_staleAt x = None \<and> se_aimFactualExtractionId a = Some (ba_id x) \<and> se_aimFactualExtractionId e = Some (ba_id x)
                \<and> json_field (json_field (se_inputBindings a) ''source'') ''sourceJdHash'' = Some (JStr (ba_hash x))
                \<and> json_field (se_inputBindings e) ''sourceJdHash'' = Some (JStr (ba_hash x))
                \<and> json_field (se_inputBindings e) ''aimSemanticResultHash''
                    = Some (case se_semanticResultHash a of None \<Rightarrow> JNull | Some h \<Rightarrow> JStr h))
            else (\<exists>art. sb_cleanedArtifact b = Some art \<and> ba_staleAt art = None
                \<and> se_cleanedJdArtifactId a = Some (ba_id art) \<and> se_cleanedJdArtifactId e = Some (ba_id art))))"
proof -
  obtain a where a: "sb_aim b = Some a" and e: "sb_experience b = Some e"
    and cur: "experienceCurrent b a e"
    using assms(1) by (rule staged_experience_current)
  have aim: "se_staleAt a = None \<Longrightarrow> sa_currentAim (resolveStagedScoreAuthority b) = Some a"
    using a by (simp add: staged_simps)
  have bound: "se_staleAt e = None" "se_staleAt a = None" "se_passed a" "se_sourceAimEventId e = Some (se_id a)"
    "if se_schemaVersion e = Some ''career-dashboard-experience-result-v2'' then experienceBindsV2 b a e
     else experienceBindsV1 b a e"
    using cur assms(2) by (simp_all add: experienceCurrent_def)
  show ?thesis
    using a aim bound bindsV1_artifact [of b a e] bindsV2_extraction [of b a e] by (simp split: if_split_asm)
qed

text \<open>A staged pair for the witness.\<close>

definition sample_aim :: score_event where
  "sample_aim = \<lparr>se_evaluationType = ''aim_fit'', se_staleAt = None, se_staleReason = None,
     se_id = ''a1'', se_schemaVersion = None, se_passed = True, se_inputBindingsCurrent = Some False,
     se_sourceAimEventId = None, se_cleanedJdArtifactId = Some ''art'',
     se_aimFactualExtractionId = None, se_semanticResultHash = None, se_aimFitScore = Some 72,
     se_experienceFitScore = None, se_inputBindings = None\<rparr>"

definition sample_experience :: score_event where
  "sample_experience = sample_aim\<lparr>se_evaluationType := ''experience_fit'', se_id := ''e1'',
     se_sourceAimEventId := Some ''a1'', se_experienceFitScore := Some 80\<rparr>"

definition sample_bundle :: score_bundle where
  "sample_bundle = \<lparr>sb_legacy = None, sb_aim = Some sample_aim, sb_experience = Some sample_experience,
     sb_cleanedArtifact = Some \<lparr>ba_id = ''art'', ba_hash = ''h'', ba_staleAt = None\<rparr>,
     sb_aimExtraction = None\<rparr>"

theorem current_experience_is_bound_witness:
  "sa_currentExperience (resolveStagedScoreAuthority sample_bundle) = Some sample_experience
   \<and> se_staleAt sample_experience = None \<and> \<not> mergedExperience sample_experience
   \<and> se_sourceAimEventId sample_experience = Some (se_id sample_aim)"
proof -
  have c: "sa_currentExperience (resolveStagedScoreAuthority sample_bundle) = Some sample_experience"
    by (simp add: staged_simps sample_bundle_def experienceCurrent_def experienceBindsV1_def
        artifactCurrent_def sample_experience_def sample_aim_def)
  have m: "\<not> mergedExperience sample_experience"
    by (simp add: mergedExperience_def sample_experience_def)
  show ?thesis
    using current_experience_is_bound [OF c m] c m by (auto simp: sample_bundle_def)
qed

text \<open>A change of the scoring input versions never moves authority. Whatever the recorded version
  comparison of the Aim and the Experience event says, the authority states, the events in force and
  the reason for a replay stay the same; only the informational drift flags may change.\<close>

theorem version_drift_is_informational:
  fixes b :: score_bundle and va ve :: "bool option"
  defines "b' \<equiv> b\<lparr>sb_aim := map_option (se_inputBindingsCurrent_update (\<lambda>_. va)) (sb_aim b),
                  sb_experience := map_option (se_inputBindingsCurrent_update (\<lambda>_. ve)) (sb_experience b)\<rparr>"
  shows "sa_mode (resolveStagedScoreAuthority b') = sa_mode (resolveStagedScoreAuthority b)
    \<and> sa_aimAuthorityState (resolveStagedScoreAuthority b')
        = sa_aimAuthorityState (resolveStagedScoreAuthority b)
    \<and> sa_experienceAuthorityState (resolveStagedScoreAuthority b')
        = sa_experienceAuthorityState (resolveStagedScoreAuthority b)
    \<and> map_option se_id (sa_currentAim (resolveStagedScoreAuthority b'))
        = map_option se_id (sa_currentAim (resolveStagedScoreAuthority b))
    \<and> map_option se_id (sa_currentExperience (resolveStagedScoreAuthority b'))
        = map_option se_id (sa_currentExperience (resolveStagedScoreAuthority b))
    \<and> sa_staleScoreReason (resolveStagedScoreAuthority b')
        = sa_staleScoreReason (resolveStagedScoreAuthority b)"
proof -
  have cur: "experienceCurrent b' (a\<lparr>se_inputBindingsCurrent := va\<rparr>) (e\<lparr>se_inputBindingsCurrent := ve\<rparr>)
      = experienceCurrent b a e" for a e
    unfolding b'_def experienceCurrent_def experienceBindsV1_def experienceBindsV2_def
      artifactCurrent_def mergedExperience_def
    by (simp cong: option.case_cong)
  have leg: "sb_legacy b' = sb_legacy b" by (simp add: b'_def)
  show ?thesis
  proof (cases "sb_aim b")
    case None
    then have "sb_aim b' = None" by (simp add: b'_def)
    with None leg show ?thesis by (simp add: staged_simps)
  next
    case (Some a)
    then have a': "sb_aim b' = Some (a\<lparr>se_inputBindingsCurrent := va\<rparr>)" by (simp add: b'_def)
    show ?thesis
    proof (cases "sb_experience b")
      case None
      then have "sb_experience b' = None" by (simp add: b'_def)
      with None Some a' show ?thesis by (simp add: staged_simps)
    next
      case (Some e)
      then have "sb_experience b' = Some (e\<lparr>se_inputBindingsCurrent := ve\<rparr>)" by (simp add: b'_def)
      with Some \<open>sb_aim b = Some a\<close> a' show ?thesis by (simp add: staged_simps cur)
    qed
  qed
qed

text \<open>An invalidated newest score suppresses every older one. The prompt version a job is
  credited with is that of its newest event, and only if that event was not invalidated: older events
  of the job are never consulted.\<close>

theorem stale_newest_suppresses_older:
  "latestUsablePromptVersions events j =
     (case find (\<lambda>e. ve_jobId e = j) events of
        None \<Rightarrow> None
      | Some e \<Rightarrow> if ve_staleAt e = None then Some (ve_promptVersion e) else None)"
  by (simp add: latestUsablePromptVersions_def usable_versions_spec split: option.split)

end
