(* ===== verification/Sql.thy ===== *)
theory Sql
  imports Prelude
begin

text \<open>
  The filters the source hands to its database, under the three-valued logic of SQL: a test on a
  NULL column is unknown, \<open>NOT\<close> of unknown is unknown, and a row is selected only when the whole
  filter is true. A truth value is a \<open>bool option\<close>, \<open>None\<close> being unknown.
\<close>

type_synonym tv = "bool option"

named_theorems sql_simps \<open>unfoldings of the SQL filters\<close>

definition selected :: "tv \<Rightarrow> bool" where
  "selected t \<longleftrightarrow> t = Some True"

fun tv_not :: "tv \<Rightarrow> tv" where
  "tv_not None = None"
| "tv_not (Some b) = Some (\<not> b)"

fun tv_and :: "tv \<Rightarrow> tv \<Rightarrow> tv" where
  "tv_and (Some False) _ = Some False"
| "tv_and (Some True) t = t"
| "tv_and None (Some False) = Some False"
| "tv_and None _ = None"

fun tv_or :: "tv \<Rightarrow> tv \<Rightarrow> tv" where
  "tv_or (Some True) _ = Some True"
| "tv_or (Some False) t = t"
| "tv_or None (Some True) = Some True"
| "tv_or None _ = None"

definition tv_all :: "tv list \<Rightarrow> tv" where
  "tv_all ts = foldr tv_and ts (Some True)"

definition tv_any :: "tv list \<Rightarrow> tv" where
  "tv_any ts = foldr tv_or ts (Some False)"

text \<open>Tests on a nullable column: equality, membership, prefix (\<open>LIKE 'p%'\<close>), order, and the two
  null tests, which are never unknown. A filter for null equality is \<open>IS NULL\<close>.\<close>

definition sql_eq :: "'a option \<Rightarrow> 'a \<Rightarrow> tv" where
  "sql_eq c v = map_option (\<lambda>x. x = v) c"

definition sql_in :: "'a option \<Rightarrow> 'a list \<Rightarrow> tv" where
  "sql_in c vs = map_option (\<lambda>x. x \<in> set vs) c"

definition sql_like_prefix :: "string option \<Rightarrow> string \<Rightarrow> tv" where
  "sql_like_prefix c p = map_option (\<lambda>x. starts_with x p) c"

definition sql_ilike_prefix :: "string option \<Rightarrow> string \<Rightarrow> tv" where
  "sql_ilike_prefix c p = map_option (\<lambda>x. starts_with (to_lower x) (to_lower p)) c"

definition sql_cmp :: "('a \<Rightarrow> bool) \<Rightarrow> 'a option \<Rightarrow> tv" where
  "sql_cmp P c = map_option P c"

definition sql_is_null :: "'a option \<Rightarrow> tv" where
  "sql_is_null c = Some (c = None)"

definition sql_not_null :: "'a option \<Rightarrow> tv" where
  "sql_not_null c = Some (c \<noteq> None)"

lemma selected_and [sql_simps]: "selected (tv_and s t) \<longleftrightarrow> selected s \<and> selected t"
  by (cases "(s, t)" rule: tv_and.cases) (auto simp: selected_def)

lemma selected_or [sql_simps]: "selected (tv_or s t) \<longleftrightarrow> selected s \<or> selected t"
  by (cases "(s, t)" rule: tv_or.cases) (auto simp: selected_def)

lemma selected_all [sql_simps]: "selected (tv_all ts) \<longleftrightarrow> (\<forall>t \<in> set ts. selected t)"
  by (induction ts) (auto simp: tv_all_def selected_and, auto simp: selected_def)

lemma selected_any [sql_simps]: "selected (tv_any ts) \<longleftrightarrow> (\<exists>t \<in> set ts. selected t)"
  by (induction ts) (auto simp: tv_any_def selected_or, auto simp: selected_def)

text \<open>A negation selects a row only when the negated filter is false, not merely untrue.\<close>

definition refuted :: "tv \<Rightarrow> bool" where
  "refuted t \<longleftrightarrow> t = Some False"

lemma selected_not [sql_simps]: "selected (tv_not t) \<longleftrightarrow> refuted t"
  by (cases t) (auto simp: selected_def refuted_def)

lemma refuted_not [sql_simps]: "refuted (tv_not t) \<longleftrightarrow> selected t"
  by (cases t) (auto simp: selected_def refuted_def)

lemma refuted_and [sql_simps]: "refuted (tv_and s t) \<longleftrightarrow> refuted s \<or> refuted t"
  by (cases "(s, t)" rule: tv_and.cases) (auto simp: refuted_def)

lemma refuted_or [sql_simps]: "refuted (tv_or s t) \<longleftrightarrow> refuted s \<and> refuted t"
  by (cases "(s, t)" rule: tv_or.cases) (auto simp: refuted_def)

lemma refuted_any [sql_simps]: "refuted (tv_any ts) \<longleftrightarrow> (\<forall>t \<in> set ts. refuted t)"
  by (induction ts) (auto simp: tv_any_def refuted_or, auto simp: refuted_def)

lemma refuted_all [sql_simps]: "refuted (tv_all ts) \<longleftrightarrow> (\<exists>t \<in> set ts. refuted t)"
  by (induction ts) (auto simp: tv_all_def refuted_and, auto simp: refuted_def)

lemma selected_Some [sql_simps]: "selected (Some b) \<longleftrightarrow> b"
  by (simp add: selected_def)

lemma refuted_Some [sql_simps]: "refuted (Some b) \<longleftrightarrow> \<not> b"
  by (simp add: refuted_def)

lemma selected_tests [sql_simps]:
  "selected (sql_eq c v) \<longleftrightarrow> c = Some v"
  "selected (sql_in c vs) \<longleftrightarrow> (\<exists>x \<in> set vs. c = Some x)"
  "selected (sql_like_prefix s p) \<longleftrightarrow> (\<exists>x. s = Some x \<and> starts_with x p)"
  "selected (sql_ilike_prefix s p) \<longleftrightarrow> (\<exists>x. s = Some x \<and> starts_with (to_lower x) (to_lower p))"
  "selected (sql_cmp P d) \<longleftrightarrow> (\<exists>x. d = Some x \<and> P x)"
  "selected (sql_is_null c) \<longleftrightarrow> c = None"
  "selected (sql_not_null c) \<longleftrightarrow> c \<noteq> None"
  by (cases c; cases s; cases d;
      auto simp: selected_def sql_eq_def sql_in_def sql_like_prefix_def sql_ilike_prefix_def
        sql_cmp_def sql_is_null_def sql_not_null_def)+

lemma refuted_tests [sql_simps]:
  "refuted (sql_eq c v) \<longleftrightarrow> (\<exists>x. c = Some x \<and> x \<noteq> v)"
  "refuted (sql_in c vs) \<longleftrightarrow> (\<exists>x. c = Some x \<and> x \<notin> set vs)"
  "refuted (sql_like_prefix s p) \<longleftrightarrow> (\<exists>x. s = Some x \<and> \<not> starts_with x p)"
  "refuted (sql_ilike_prefix s p) \<longleftrightarrow> (\<exists>x. s = Some x \<and> \<not> starts_with (to_lower x) (to_lower p))"
  "refuted (sql_cmp P d) \<longleftrightarrow> (\<exists>x. d = Some x \<and> \<not> P x)"
  "refuted (sql_is_null c) \<longleftrightarrow> c \<noteq> None"
  "refuted (sql_not_null c) \<longleftrightarrow> c = None"
  by (cases c; cases s; cases d;
      auto simp: refuted_def sql_eq_def sql_in_def sql_like_prefix_def sql_ilike_prefix_def
        sql_cmp_def sql_is_null_def sql_not_null_def)+

end
