(* ===== verification/Lifecycle_Intent.thy ===== *)
theory Lifecycle_Intent
  imports Prelude
begin

text \<open>
  The last explicit decision of the user on a job (src/lib/userLifecycleAuthority.ts), the automated
  dismissal of failures nobody looked at for ten days (src/lib/failureQueueRetentionPolicy.ts) and
  the score floor of the Experience queue (src/lib/scoringLifecyclePolicy.ts).

  \<open>occurredAt\<close> is a \<open>Date\<close> or text. The reading of text as a date, \<open>new Date(text)\<close>, is the
  parameter \<open>date_of\<close> (\<open>None\<close> for an invalid date); the collation is the parameter \<open>loc\<close>.
\<close>

section \<open>Events and their time\<close>

datatype occurred = OccDate "ms option" | OccText string

datatype event_time = Unreadable | At ms

record lifecycle_event =
  le_id :: string
  le_eventType :: string
  le_occurredAt :: occurred
  le_details :: "json option"

definition FINAL_USER_LIFECYCLE_EVENT_TYPES :: "string list" where
  "FINAL_USER_LIFECYCLE_EVENT_TYPES = [''user_promote'', ''user_reject'', ''user_lifecycle'']"

definition USER_LIFECYCLE_INTENT_EVENT_TYPES :: "string list" where
  "USER_LIFECYCLE_INTENT_EVENT_TYPES = FINAL_USER_LIFECYCLE_EVENT_TYPES @ [''user_rescore'']"

lemmas intent_types = USER_LIFECYCLE_INTENT_EVENT_TYPES_def FINAL_USER_LIFECYCLE_EVENT_TYPES_def

datatype intent_kind = KNone | KRescore | KFinal

record user_intent =
  ui_kind :: intent_kind
  ui_eventId :: "string option"
  ui_expectedStatus :: "string option"
  ui_expectedTailoringStaged :: "bool option"

definition detailsRecord :: "json option \<Rightarrow> json option" where
  "detailsRecord v = (if is_json_object v then v else Some (JObj []))"

text \<open>An unreadable instant counts as minus infinity.\<close>

definition timestamp :: "(string \<Rightarrow> ms option) \<Rightarrow> occurred \<Rightarrow> event_time" where
  "timestamp date_of occ =
     (case (case occ of OccDate d \<Rightarrow> d | OccText s \<Rightarrow> date_of s) of
        Some t \<Rightarrow> At t
      | None \<Rightarrow> Unreadable)"

text \<open>The sign of \<open>x - y\<close>. Two unreadable instants give \<open>NaN\<close>, which is falsy like zero.\<close>

fun time_diff :: "event_time cmp" where
  "time_diff Unreadable Unreadable = 0"
| "time_diff Unreadable (At _) = - 1"
| "time_diff (At _) Unreadable = 1"
| "time_diff (At x) (At y) = x - y"

lemma comparator_time_diff: "comparator time_diff"
proof
  fix x y z
  show "time_diff x x = 0" by (cases x) auto
  show "sgn (time_diff y x) = - sgn (time_diff x y)"
    by (cases x; cases y) (auto simp: sgn_if)
  show "time_diff x y \<le> 0 \<Longrightarrow> time_diff y z \<le> 0 \<Longrightarrow> time_diff x z \<le> 0"
    by (cases x; cases y; cases z) auto
qed

lemma time_diff_gt_trans: "time_diff a b \<le> 0 \<Longrightarrow> 0 < time_diff c b \<Longrightarrow> 0 < time_diff c a"
  by (cases a; cases b; cases c) auto

definition event_time :: "(string \<Rightarrow> ms option) \<Rightarrow> lifecycle_event \<Rightarrow> event_time" where
  "event_time date_of e = timestamp date_of (le_occurredAt e)"

text \<open>Newest first; among events of one instant the larger id first.\<close>

definition newest_first ::
  "(string \<Rightarrow> ms option) \<Rightarrow> string cmp \<Rightarrow> lifecycle_event cmp" where
  "newest_first date_of loc =
     then_cmp (desc_cmp (key_cmp (event_time date_of) time_diff)) (desc_cmp (key_cmp le_id loc))"

lemma comparator_newest_first: "comparator loc \<Longrightarrow> comparator (newest_first date_of loc)"
  unfolding newest_first_def
  by (intro comparator_then comparator_desc comparator_key comparator_time_diff)

definition latest_event ::
  "(string \<Rightarrow> ms option) \<Rightarrow> string cmp \<Rightarrow> lifecycle_event list \<Rightarrow> lifecycle_event option" where
  "latest_event date_of loc events =
     (case js_sort (newest_first date_of loc) events of [] \<Rightarrow> None | e # _ \<Rightarrow> Some e)"

lemma latest_event_None [simp]: "latest_event date_of loc events = None \<longleftrightarrow> events = []"
  by (simp add: latest_event_def split: list.split) (metis js_sort_eq_Nil list.discI)

lemma latest_event_in: "latest_event date_of loc events = Some e \<Longrightarrow> e \<in> set events"
  by (auto simp: latest_event_def split: list.splits dest: js_sort_eq_Cons_in)

lemma latest_event_newest:
  assumes "comparator loc" and "latest_event date_of loc events = Some e" and "x \<in> set events"
  shows "time_diff (event_time date_of x) (event_time date_of e) \<le> 0"
proof -
  obtain es where "js_sort (newest_first date_of loc) events = e # es"
    using assms(2) by (auto simp: latest_event_def split: list.splits)
  then have "newest_first date_of loc e x \<le> 0"
    using comparator.js_sort_hd_least [OF comparator_newest_first [OF assms(1)]] assms(3) by blast
  then show ?thesis
    by (auto simp: newest_first_def then_cmp_def desc_cmp_def key_cmp_def split: if_splits)
qed

section \<open>The latest intent\<close>

definition is_intent_event :: "lifecycle_event \<Rightarrow> bool" where
  "is_intent_event e \<longleftrightarrow> le_eventType e \<in> set USER_LIFECYCLE_INTENT_EVENT_TYPES"

definition no_intent :: user_intent where
  "no_intent = \<lparr>ui_kind = KNone, ui_eventId = None, ui_expectedStatus = None,
     ui_expectedTailoringStaged = None\<rparr>"

definition expected_status_of :: "lifecycle_event \<Rightarrow> string option" where
  "expected_status_of e =
     (let details = detailsRecord (le_details e) in
      case json_field details ''nextStatus'' of
        Some (JStr s) \<Rightarrow> Some s
      | _ \<Rightarrow> (case json_field details ''status'' of
                Some (JStr s) \<Rightarrow> Some s
              | _ \<Rightarrow> if le_eventType e = ''user_promote'' then Some ''inbox'' else None))"

definition expected_tailoring_of :: "lifecycle_event \<Rightarrow> bool option" where
  "expected_tailoring_of e =
     (case json_field (detailsRecord (le_details e)) ''nextTailoringStaged'' of
        Some (JBool b) \<Rightarrow> Some b
      | _ \<Rightarrow> None)"

definition latestUserLifecycleIntent ::
  "(string \<Rightarrow> ms option) \<Rightarrow> string cmp \<Rightarrow> lifecycle_event list \<Rightarrow> user_intent" where
  "latestUserLifecycleIntent date_of loc events =
     (case latest_event date_of loc (filter is_intent_event events) of
        None \<Rightarrow> no_intent
      | Some latest \<Rightarrow>
          if le_eventType latest = ''user_rescore''
          then \<lparr>ui_kind = KRescore, ui_eventId = Some (le_id latest), ui_expectedStatus = None,
                ui_expectedTailoringStaged = None\<rparr>
          else \<lparr>ui_kind = KFinal, ui_eventId = Some (le_id latest),
                ui_expectedStatus = expected_status_of latest,
                ui_expectedTailoringStaged = expected_tailoring_of latest\<rparr>)"

section \<open>Drift between the intent and the state of the job\<close>

definition AUTOMATED_SUPERSEDING_STATUSES :: "string list" where
  "AUTOMATED_SUPERSEDING_STATUSES = [''expired'', ''cooldown'', ''archived'']"

datatype intent_drift = Matches | Unknown | Superseded | Contradicted

definition userLifecycleIntentDrift :: "user_intent \<Rightarrow> string \<Rightarrow> bool \<Rightarrow> intent_drift" where
  "userLifecycleIntentDrift intent status tailoringStaged =
     (if ui_kind intent \<noteq> KFinal then Unknown
      else if ui_expectedStatus intent = None \<and> ui_expectedTailoringStaged intent = None then Unknown
      else
        let statusMatches = (ui_expectedStatus intent = None \<or> ui_expectedStatus intent = Some status);
            tailoringMatches = (ui_expectedTailoringStaged intent = None
              \<or> ui_expectedTailoringStaged intent = Some tailoringStaged)
        in if statusMatches \<and> tailoringMatches then Matches
           else if status \<in> set AUTOMATED_SUPERSEDING_STATUSES then Superseded
           else Contradicted)"

definition finalUserLifecycleIntentMatchesState :: "user_intent \<Rightarrow> string \<Rightarrow> bool \<Rightarrow> bool" where
  "finalUserLifecycleIntentMatchesState intent status tailoringStaged
     \<longleftrightarrow> userLifecycleIntentDrift intent status tailoringStaged = Matches"

lemma drift_cases:
  "userLifecycleIntentDrift i s t = Contradicted \<Longrightarrow> ui_kind i = KFinal"
  "userLifecycleIntentDrift i s t = Matches \<Longrightarrow> ui_kind i = KFinal"
  "userLifecycleIntentDrift i s t = Superseded \<Longrightarrow> s \<in> set AUTOMATED_SUPERSEDING_STATUSES"
  by (auto simp: userLifecycleIntentDrift_def Let_def split: if_splits)

lemma latest_intent_final:
  assumes "ui_kind (latestUserLifecycleIntent date_of loc events) = KFinal"
  obtains e where "latest_event date_of loc (filter is_intent_event events) = Some e"
    and "le_eventType e \<in> set FINAL_USER_LIFECYCLE_EVENT_TYPES"
    and "ui_eventId (latestUserLifecycleIntent date_of loc events) = Some (le_id e)"
proof -
  obtain e where e: "latest_event date_of loc (filter is_intent_event events) = Some e"
    and "le_eventType e \<noteq> ''user_rescore''"
    using assms
    by (auto simp: latestUserLifecycleIntent_def no_intent_def split: option.splits if_splits)
  moreover have "is_intent_event e" using latest_event_in [OF e] by simp
  ultimately show thesis
    using that by (auto simp: is_intent_event_def intent_types latestUserLifecycleIntent_def)
qed

section \<open>Retention of the failure queues\<close>

definition FAILURE_QUEUE_RETENTION_MS :: ms where
  "FAILURE_QUEUE_RETENTION_MS = 10 * 24 * 60 * 60 * 1000"

definition FAILURE_QUEUE_EXPIRATION_EVENT_TYPE :: string where
  "FAILURE_QUEUE_EXPIRATION_EVENT_TYPE = ''failure_queue_expired''"

datatype retention_category = RJdFailed | RScoringFailed

record retention_entry =
  re_id :: string
  re_category :: retention_category
  re_failedAt :: ms

record user_activity =
  ua_jobId :: "string option"
  ua_occurredAt :: ms

text \<open>The map of the latest activity per job, built by the loop over the activity.\<close>

fun latest_activity :: "user_activity list \<Rightarrow> (string \<rightharpoonup> ms) \<Rightarrow> (string \<rightharpoonup> ms)" where
  "latest_activity [] m = m"
| "latest_activity (event # events) m =
     latest_activity events
       (case ua_jobId event of
          None \<Rightarrow> m
        | Some [] \<Rightarrow> m
        | Some j \<Rightarrow> m(j \<mapsto> (case m j of None \<Rightarrow> ua_occurredAt event
                               | Some t \<Rightarrow> max t (ua_occurredAt event))))"

definition expiredFailureQueueEntries ::
  "retention_entry list \<Rightarrow> user_activity list \<Rightarrow> ms \<Rightarrow> retention_entry list" where
  "expiredFailureQueueEntries entries userActivity now =
     (let cutoff = now - FAILURE_QUEUE_RETENTION_MS;
          latest = latest_activity userActivity Map.empty
      in filter (\<lambda>entry. re_failedAt entry \<le> cutoff
           \<and> (case latest (re_id entry) of None \<Rightarrow> True | Some t \<Rightarrow> t < re_failedAt entry)) entries)"

lemma latest_activity_lt:
  assumes "j \<noteq> []"
  shows "(case latest_activity events m j of None \<Rightarrow> True | Some t \<Rightarrow> t < x)
    \<longleftrightarrow> (case m j of None \<Rightarrow> True | Some t \<Rightarrow> t < x)
      \<and> (\<forall>e \<in> set events. ua_jobId e = Some j \<longrightarrow> ua_occurredAt e < x)"
proof (induction events arbitrary: m)
  case (Cons e es)
  show ?case
    unfolding latest_activity.simps Cons.IH
    using assms by (auto split: option.splits list.splits)
qed simp

definition is_machine_expiration :: "lifecycle_event \<Rightarrow> bool" where
  "is_machine_expiration e \<longleftrightarrow>
     le_eventType e = FAILURE_QUEUE_EXPIRATION_EVENT_TYPE
     \<and> (let details = detailsRecord (le_details e) in
        json_field details ''actor'' = Some (JStr ''machine'')
        \<and> json_field details ''route'' = Some (JStr ''failure_queue_retention'')
        \<and> json_field details ''nextStatus'' = Some (JStr ''dismissed''))"

record disposition =
  dp_eventId :: string
  dp_expectedStatus :: string

definition failureQueueExpirationDisposition ::
  "(string \<Rightarrow> ms option) \<Rightarrow> string cmp \<Rightarrow> lifecycle_event list \<Rightarrow> disposition option" where
  "failureQueueExpirationDisposition date_of loc events =
     (let latestUser = latest_event date_of loc (filter is_intent_event events);
          latestExpiration = latest_event date_of loc (filter is_machine_expiration events)
      in case latestExpiration of
           None \<Rightarrow> None
         | Some x \<Rightarrow>
             (case latestUser of
                Some u \<Rightarrow>
                  if time_diff (event_time date_of x) (event_time date_of u) \<le> 0 then None
                  else Some \<lparr>dp_eventId = le_id x, dp_expectedStatus = ''dismissed''\<rparr>
              | None \<Rightarrow> Some \<lparr>dp_eventId = le_id x, dp_expectedStatus = ''dismissed''\<rparr>))"

section \<open>The floor of the Experience queue\<close>

definition AIM_EXPERIENCE_QUEUE_MINIMUM_SCORE :: int where
  "AIM_EXPERIENCE_QUEUE_MINIMUM_SCORE = 60"

definition aimAdvancesToExperienceQueue :: "string \<Rightarrow> int option \<Rightarrow> bool" where
  "aimAdvancesToExperienceQueue variant score \<longleftrightarrow>
     variant = ''scored_survivor''
     \<and> (case score of None \<Rightarrow> False | Some s \<Rightarrow> AIM_EXPERIENCE_QUEUE_MINIMUM_SCORE \<le> s)"

text \<open>A sample record of the retention job, used by the witness below.\<close>

definition expiration_example :: lifecycle_event where
  "expiration_example = \<lparr>le_id = ''x'', le_eventType = ''failure_queue_expired'',
     le_occurredAt = OccDate (Some 7),
     le_details = Some (JObj [(''actor'', JStr ''machine''), (''route'', JStr ''failure_queue_retention''),
       (''nextStatus'', JStr ''dismissed'')])\<rparr>"

section \<open>Properties\<close>

text \<open>The latest user intent is none exactly when the job carries no intent event; otherwise it
  is taken from an intent event of the job than which no intent event of the job is newer, whatever
  the order in which the events are stored.\<close>

theorem latest_intent_is_newest:
  assumes "comparator loc"
  shows "(ui_kind (latestUserLifecycleIntent date_of loc events) = KNone
            \<longleftrightarrow> (\<forall>e \<in> set events. \<not> is_intent_event e))
       \<and> (ui_kind (latestUserLifecycleIntent date_of loc events) \<noteq> KNone \<longrightarrow>
            (\<exists>e \<in> set events. is_intent_event e
               \<and> ui_eventId (latestUserLifecycleIntent date_of loc events) = Some (le_id e)
               \<and> (ui_kind (latestUserLifecycleIntent date_of loc events) = KRescore
                    \<longleftrightarrow> le_eventType e = ''user_rescore'')
               \<and> (\<forall>x \<in> set events. is_intent_event x \<longrightarrow>
                    time_diff (event_time date_of x) (event_time date_of e) \<le> 0)))"
proof (cases "latest_event date_of loc (filter is_intent_event events)")
  case None
  then show ?thesis
    by (auto simp: latestUserLifecycleIntent_def no_intent_def filter_empty_conv
        simp del: latest_event_None dest: latest_event_None [THEN iffD1])
next
  case (Some e)
  from latest_event_in [OF Some] have e: "e \<in> set events" "is_intent_event e" by auto
  from latest_event_newest [OF assms Some]
  have "\<forall>x \<in> set events. is_intent_event x \<longrightarrow>
          time_diff (event_time date_of x) (event_time date_of e) \<le> 0" by simp
  with e Some show ?thesis
    by (auto simp: latestUserLifecycleIntent_def)
qed

theorem latest_intent_is_newest_witness:
  "comparator code_unit_cmp
   \<and> ui_kind (latestUserLifecycleIntent (\<lambda>_. None) code_unit_cmp
       [\<lparr>le_id = ''a'', le_eventType = ''user_promote'', le_occurredAt = OccDate (Some 5), le_details = None\<rparr>,
        \<lparr>le_id = ''b'', le_eventType = ''user_rescore'', le_occurredAt = OccDate (Some 9), le_details = None\<rparr>])
       = KRescore"
  using latest_intent_is_newest [OF code_unit.comparator_axioms,
      where date_of = "\<lambda>_. None" and events =
       "[\<lparr>le_id = ''a'', le_eventType = ''user_promote'', le_occurredAt = OccDate (Some 5), le_details = None\<rparr>,
        \<lparr>le_id = ''b'', le_eventType = ''user_rescore'', le_occurredAt = OccDate (Some 9), le_details = None\<rparr>]"]
  by (auto simp: is_intent_event_def intent_types event_time_def timestamp_def
      code_unit.comparator_axioms)

text \<open>C1. The automated dismissal of an ignored failure holds only while it is strictly newer than
  every decision of the user: any later (or simultaneous) user action takes the authority back. It
  always stems from an event that a machine wrote on the retention route.\<close>

theorem expiration_yields_to_user:
  assumes "comparator loc"
    and "failureQueueExpirationDisposition date_of loc events = Some d"
  shows "dp_expectedStatus d = ''dismissed''
    \<and> (\<exists>x \<in> set events. is_machine_expiration x \<and> dp_eventId d = le_id x
         \<and> (\<forall>u \<in> set events. is_intent_event u \<longrightarrow>
              0 < time_diff (event_time date_of x) (event_time date_of u)))"
proof -
  obtain x where x: "latest_event date_of loc (filter is_machine_expiration events) = Some x"
    and d: "d = \<lparr>dp_eventId = le_id x, dp_expectedStatus = ''dismissed''\<rparr>"
    and u: "\<And>u. latest_event date_of loc (filter is_intent_event events) = Some u
              \<Longrightarrow> 0 < time_diff (event_time date_of x) (event_time date_of u)"
    using assms(2) unfolding failureQueueExpirationDisposition_def Let_def
    by (auto split: option.splits if_splits)
  from latest_event_in [OF x] have mem: "x \<in> set events" "is_machine_expiration x" by auto
  have "0 < time_diff (event_time date_of x) (event_time date_of e)"
    if e: "e \<in> set events" "is_intent_event e" for e
  proof -
    obtain u0 where u0: "latest_event date_of loc (filter is_intent_event events) = Some u0"
      using e by (cases "latest_event date_of loc (filter is_intent_event events)")
        (auto simp: filter_empty_conv)
    show ?thesis
      using latest_event_newest [OF assms(1) u0, of e] u [OF u0] e time_diff_gt_trans by simp
  qed
  with mem d show ?thesis by auto
qed

theorem expiration_yields_to_user_witness:
  "comparator code_unit_cmp
   \<and> failureQueueExpirationDisposition (\<lambda>_. None) code_unit_cmp [expiration_example]
       = Some \<lparr>dp_eventId = ''x'', dp_expectedStatus = ''dismissed''\<rparr>
   \<and> is_machine_expiration expiration_example"
proof -
  have d: "failureQueueExpirationDisposition (\<lambda>_. None) code_unit_cmp [expiration_example]
      = Some \<lparr>dp_eventId = ''x'', dp_expectedStatus = ''dismissed''\<rparr>"
    by code_simp
  show ?thesis
    using expiration_yields_to_user [OF code_unit.comparator_axioms d] d
    by (auto simp: code_unit.comparator_axioms)
qed

text \<open>A failed queue entry is dismissed automatically exactly when its failure is at least ten
  days old and the user did nothing about that job at or after the failure; activity before the
  failure does not protect it. The order of the entries is kept.\<close>

theorem expired_entries_exact:
  assumes "\<forall>e \<in> set entries. re_id e \<noteq> []"
  shows "expiredFailureQueueEntries entries activity now =
    filter (\<lambda>e. re_failedAt e + FAILURE_QUEUE_RETENTION_MS \<le> now
       \<and> \<not> (\<exists>a \<in> set activity. ua_jobId a = Some (re_id e) \<and> re_failedAt e \<le> ua_occurredAt a))
      entries"
  unfolding expiredFailureQueueEntries_def Let_def
proof (rule filter_cong [OF refl])
  fix e assume "e \<in> set entries"
  with assms have "re_id e \<noteq> []" by blast
  then show "(re_failedAt e \<le> now - FAILURE_QUEUE_RETENTION_MS
        \<and> (case latest_activity activity Map.empty (re_id e) of None \<Rightarrow> True
             | Some t \<Rightarrow> t < re_failedAt e))
      = (re_failedAt e + FAILURE_QUEUE_RETENTION_MS \<le> now
        \<and> \<not> (\<exists>a \<in> set activity. ua_jobId a = Some (re_id e) \<and> re_failedAt e \<le> ua_occurredAt a))"
    by (subst latest_activity_lt) (auto simp: algebra_simps not_le)
qed

theorem expired_entries_exact_witness:
  "expiredFailureQueueEntries [\<lparr>re_id = ''j'', re_category = RJdFailed, re_failedAt = 0\<rparr>]
       [\<lparr>ua_jobId = Some ''j'', ua_occurredAt = - 1\<rparr>] 864000000
     = [\<lparr>re_id = ''j'', re_category = RJdFailed, re_failedAt = 0\<rparr>]"
  by (subst expired_entries_exact) (auto simp: FAILURE_QUEUE_RETENTION_MS_def)

end
