(* ===== verification/Operational_Queue.thy ===== *)
theory Operational_Queue
  imports Sql Lifecycle_Intent
begin

text \<open>
  The six work queues the dashboard shows (src/lib/operationalQueue.ts) and the eligibility filters
  of manual scoring (src/lib/manualScoringEligibility.ts), as filters over a row of the Job table.
\<close>

section \<open>The row\<close>

record job_row =
  j_id :: string
  j_status :: string
  j_scoringStatus :: string
  j_tailoringStaged :: bool
  j_jdBatchId :: "string option"
  j_batchJobId :: "string option"
  j_afBatchId :: "string option"
  j_scoreAttempts :: int
  j_scoreError :: "string option"
  j_passReason :: "string option"
  j_fitCategory :: string
  j_aimFitScore :: "int option"
  j_reqFitScore :: "int option"
  j_eventTypes :: "string list" \<comment> \<open>the event types of the row's pipeline events\<close>

datatype queue_category = NeedsJd | LocalScoring | JdFailed | ScoringFailed | AimFit | ExperienceFit

definition OPERATIONAL_QUEUE_CATEGORIES :: "queue_category list" where
  "OPERATIONAL_QUEUE_CATEGORIES =
     [NeedsJd, LocalScoring, JdFailed, ScoringFailed, AimFit, ExperienceFit]"

definition ACTIVE_SCORING_STATUSES :: "string list" where
  "ACTIVE_SCORING_STATUSES = [''pending_af'', ''inbox'']"

definition STANDARDIZED_DOWNSTREAM_FAILURE_PREFIXES :: "string list" where
  "STANDARDIZED_DOWNSTREAM_FAILURE_PREFIXES =
     [''JD recovery rejected:'', ''Aim Fit could not score this job:'',
      ''Experience Fit could not score this job:'']"

definition LEGACY_JD_FAILURE_REASONS :: "string list" where
  "LEGACY_JD_FAILURE_REASONS =
     [''JD recovery failed after 3 attempts. Manual review required.'',
      ''JD enrichment never ran: the provider request budget refused every attempt.'',
      ''JD recovery failed. Manual review required.'',
      ''Failed to fetch JD after 3 attempts. Needs manual review.'',
      ''Error calling Jina. Manual review required.'']"

definition LOCAL_SCORING_TERMINAL_ATTEMPTS :: int where
  "LOCAL_SCORING_TERMINAL_ATTEMPTS = 3"

definition isRawLocalTerminalFailure :: "string \<Rightarrow> int \<Rightarrow> string option \<Rightarrow> bool" where
  "isRawLocalTerminalFailure scoringStatus scoreAttempts scoreError \<longleftrightarrow>
     scoringStatus = ''failed''
     \<and> LOCAL_SCORING_TERMINAL_ATTEMPTS \<le> scoreAttempts
     \<and> (case scoreError of
          None \<Rightarrow> False
        | Some e \<Rightarrow> \<not> (\<exists>p \<in> set STANDARDIZED_DOWNSTREAM_FAILURE_PREFIXES. starts_with e p))"

section \<open>Eligibility of manual scoring\<close>

datatype manual_stage = AimStage | ExperienceStage

definition USER_EVENT_TYPES :: "string list" where
  "USER_EVENT_TYPES = [''user_promote'', ''user_reject'', ''user_lifecycle'']"

definition some_event :: "job_row \<Rightarrow> string list \<Rightarrow> tv" where
  "some_event j types = Some (\<exists>t \<in> set (j_eventTypes j). t \<in> set types)"

definition EXPLICIT_RESCORE_EVENT :: "job_row \<Rightarrow> tv" where
  "EXPLICIT_RESCORE_EVENT j = some_event j [''user_rescore'']"

definition manualScoringStatusWhere :: "manual_stage \<Rightarrow> job_row \<Rightarrow> tv" where
  "manualScoringStatusWhere stage j =
     (case stage of
        AimStage \<Rightarrow>
          tv_all [sql_eq (Some (j_status j)) ''pending_af'',
            tv_any [
              tv_all [tv_not (sql_eq (Some (j_fitCategory j)) ''promoted''),
                tv_any [sql_is_null (j_passReason j),
                        tv_not (sql_ilike_prefix (j_passReason j) ''Promoted by user:'')],
                tv_not (some_event j USER_EVENT_TYPES)],
              EXPLICIT_RESCORE_EVENT j]]
      | ExperienceStage \<Rightarrow>
          tv_all [sql_eq (Some (j_status j)) ''pending_af'',
            tv_any [tv_not (some_event j USER_EVENT_TYPES), EXPLICIT_RESCORE_EVENT j]])"

section \<open>The queues\<close>

definition activeJob :: "job_row \<Rightarrow> tv" where
  "activeJob j = tv_all [sql_in (Some (j_status j)) ACTIVE_SCORING_STATUSES,
     sql_eq (Some (j_tailoringStaged j)) False]"

definition currentSuppressionIdWhere :: "string list \<Rightarrow> job_row \<Rightarrow> tv option" where
  "currentSuppressionIdWhere suppressed j =
     (if suppressed \<noteq> [] then Some (sql_in (Some (j_id j)) suppressed) else None)"

definition jdFailureReasons :: "job_row \<Rightarrow> tv list" where
  "jdFailureReasons j =
     [sql_like_prefix (j_scoreError j) (STANDARDIZED_DOWNSTREAM_FAILURE_PREFIXES ! 0),
      tv_all [sql_in (j_passReason j) LEGACY_JD_FAILURE_REASONS,
        tv_any [sql_is_null (j_scoreError j),
          tv_all (map (\<lambda>p. tv_not (sql_like_prefix (j_scoreError j) p))
            (tl STANDARDIZED_DOWNSTREAM_FAILURE_PREFIXES))]],
      tv_all [sql_cmp (\<lambda>n. LOCAL_SCORING_TERMINAL_ATTEMPTS \<le> n) (Some (j_scoreAttempts j)),
        sql_not_null (j_scoreError j),
        tv_not (tv_any (map (\<lambda>p. sql_like_prefix (j_scoreError j) p)
          STANDARDIZED_DOWNSTREAM_FAILURE_PREFIXES))]]"

definition operationalQueueWhere :: "queue_category \<Rightarrow> string list \<Rightarrow> job_row \<Rightarrow> tv" where
  "operationalQueueWhere category suppressed j =
     (case category of
        NeedsJd \<Rightarrow>
          tv_all [activeJob j,
            tv_any [sql_eq (Some (j_scoringStatus j)) ''needs_jd'', sql_not_null (j_jdBatchId j)]]
      | LocalScoring \<Rightarrow>
          tv_all [activeJob j, sql_in (Some (j_scoringStatus j)) [''queued'', ''scoring''],
            sql_is_null (j_jdBatchId j)]
      | JdFailed \<Rightarrow>
          tv_all ([activeJob j, sql_eq (Some (j_scoringStatus j)) ''failed'']
            @ (if suppressed \<noteq> [] then [tv_not (sql_in (Some (j_id j)) suppressed)] else [])
            @ [tv_any (jdFailureReasons j)])
      | ScoringFailed \<Rightarrow>
          tv_all [activeJob j,
            tv_any ([tv_all [sql_eq (Some (j_scoringStatus j)) ''failed'',
                tv_any (map (\<lambda>p. sql_like_prefix (j_scoreError j) p)
                  (tl STANDARDIZED_DOWNSTREAM_FAILURE_PREFIXES))]]
              @ (case currentSuppressionIdWhere suppressed j of None \<Rightarrow> [] | Some w \<Rightarrow> [w]))]
      | AimFit \<Rightarrow>
          tv_all ([manualScoringStatusWhere AimStage j, sql_eq (Some (j_scoringStatus j)) ''scored'',
            sql_is_null (j_jdBatchId j), sql_is_null (j_batchJobId j), sql_is_null (j_afBatchId j),
            sql_eq (Some (j_tailoringStaged j)) False, sql_is_null (j_aimFitScore j)]
            @ (if suppressed \<noteq> [] then [tv_not (sql_in (Some (j_id j)) suppressed)] else []))
      | ExperienceFit \<Rightarrow>
          tv_all [manualScoringStatusWhere ExperienceStage j,
            sql_eq (Some (j_scoringStatus j)) ''scored'',
            sql_eq (Some (j_tailoringStaged j)) False, sql_not_null (j_aimFitScore j),
            sql_is_null (j_reqFitScore j)])"

definition operationalPartitionScopeWhere :: "string list \<Rightarrow> job_row \<Rightarrow> tv" where
  "operationalPartitionScopeWhere suppressed j =
     (let inboxWork = [sql_in (Some (j_scoringStatus j)) [''needs_jd'', ''queued'', ''scoring'', ''failed''],
            sql_not_null (j_jdBatchId j)]
            @ (case currentSuppressionIdWhere suppressed j of None \<Rightarrow> [] | Some w \<Rightarrow> [w])
      in tv_all [sql_eq (Some (j_tailoringStaged j)) False,
           tv_any [sql_eq (Some (j_status j)) ''pending_af'',
             tv_all [sql_eq (Some (j_status j)) ''inbox'', tv_any inboxWork]]])"

section \<open>Inspection of the partition\<close>

record partition_inspection =
  pi_scopedJobCount :: nat
  pi_noCategoryJobIds :: "string list"
  pi_multipleCategoryJobs :: "(string \<times> queue_category list) list"
  pi_categoryCounts :: "queue_category \<Rightarrow> nat"

text \<open>\<open>memberships\<close> holds the scoped jobs; the loops append each category to the jobs it lists.\<close>

fun add_members ::
  "queue_category \<Rightarrow> string list \<Rightarrow> (string \<rightharpoonup> queue_category list) \<Rightarrow> (string \<rightharpoonup> queue_category list)" where
  "add_members c [] m = m"
| "add_members c (j # js) m =
     add_members c js (case m j of None \<Rightarrow> m | Some cs \<Rightarrow> m(j \<mapsto> cs @ [c]))"

fun add_categories ::
  "(queue_category \<Rightarrow> string list) \<Rightarrow> queue_category list \<Rightarrow> (string \<rightharpoonup> queue_category list)
     \<Rightarrow> (string \<rightharpoonup> queue_category list)" where
  "add_categories ids [] m = m"
| "add_categories ids (c # cs) m = add_categories ids cs (add_members c (ids c) m)"

definition inspectOperationalPartition ::
  "string cmp \<Rightarrow> string list \<Rightarrow> (queue_category \<Rightarrow> string list) \<Rightarrow> partition_inspection" where
  "inspectOperationalPartition loc scopedJobIds categoryJobIds =
     (let memberships = add_categories categoryJobIds OPERATIONAL_QUEUE_CATEGORIES
            (\<lambda>j. if j \<in> set scopedJobIds then Some [] else None);
          entries = map (\<lambda>j. (j, the (memberships j))) (dedup scopedJobIds)
      in \<lparr>pi_scopedJobCount = length scopedJobIds,
          pi_noCategoryJobIds = js_sort code_unit_cmp (map fst (filter (\<lambda>(j, cs). cs = []) entries)),
          pi_multipleCategoryJobs =
            js_sort (key_cmp fst loc) (filter (\<lambda>(j, cs). 1 < length cs) entries),
          pi_categoryCounts = (\<lambda>c. length (categoryJobIds c))\<rparr>)"

section \<open>Lemmas\<close>

lemmas queue_defs = operationalQueueWhere_def activeJob_def currentSuppressionIdWhere_def
  jdFailureReasons_def manualScoringStatusWhere_def EXPLICIT_RESCORE_EVENT_def some_event_def
  ACTIVE_SCORING_STATUSES_def STANDARDIZED_DOWNSTREAM_FAILURE_PREFIXES_def

lemma failure_prefixes_exclusive:
  "starts_with e ''JD recovery rejected:'' \<Longrightarrow> \<not> starts_with e ''Aim Fit could not score this job:''"
  "starts_with e ''JD recovery rejected:'' \<Longrightarrow> \<not> starts_with e ''Experience Fit could not score this job:''"
  by (auto simp: starts_with_def prefix_def)

lemma add_members_Some:
  "add_members c js m j = map_option (\<lambda>cs. cs @ replicate (count_list js j) c) (m j)"
  by (induction c js m rule: add_members.induct)
    (auto simp: replicate_app_Cons_same option.map_ident split: option.splits)

lemma add_categories_Some:
  "add_categories ids cs m j =
     map_option (\<lambda>ds. ds @ concat (map (\<lambda>c. replicate (count_list (ids c) j) c) cs)) (m j)"
proof (induction cs arbitrary: m)
  case (Cons c cs)
  show ?case
    unfolding add_categories.simps Cons.IH add_members_Some
    by (simp add: option.map_comp comp_def)
qed (simp add: option.map_ident)

definition categories_of :: "(queue_category \<Rightarrow> string list) \<Rightarrow> string \<Rightarrow> queue_category list" where
  "categories_of ids j = concat (map (\<lambda>c. replicate (count_list (ids c) j) c) OPERATIONAL_QUEUE_CATEGORIES)"

lemma categories_of_Nil: "categories_of ids j = [] \<longleftrightarrow> (\<forall>c. j \<notin> set (ids c))"
proof -
  have all: "set OPERATIONAL_QUEUE_CATEGORIES = UNIV"
    using queue_category.exhaust by (auto simp: OPERATIONAL_QUEUE_CATEGORIES_def)
  show ?thesis
    unfolding categories_of_def concat_eq_Nil_conv
    by (auto simp: all count_list_0_iff)
qed

lemma count_filter_length: "distinct ids \<Longrightarrow> count_list ids j = (if j \<in> set ids then 1 else 0)"
  by (induction ids) auto

lemma concat_replicate_0_1:
  "concat (map (\<lambda>c. replicate (if P c then 1 else 0) c) cs) = filter P cs"
  by (induction cs) auto

lemma categories_of_distinct:
  "(\<And>c. distinct (ids c)) \<Longrightarrow>
     categories_of ids j = filter (\<lambda>c. j \<in> set (ids c)) OPERATIONAL_QUEUE_CATEGORIES"
  using concat_replicate_0_1 [of "\<lambda>c. j \<in> set (ids c)"]
  by (simp add: categories_of_def count_filter_length)

lemma all_categories: "set OPERATIONAL_QUEUE_CATEGORIES = UNIV"
  using queue_category.exhaust by (auto simp: OPERATIONAL_QUEUE_CATEGORIES_def)

lemma distinct_categories: "distinct OPERATIONAL_QUEUE_CATEGORIES"
  by (simp add: OPERATIONAL_QUEUE_CATEGORIES_def)

lemma inspected_members:
  "j \<in> set scoped \<Longrightarrow>
     add_categories ids OPERATIONAL_QUEUE_CATEGORIES
       (\<lambda>j. if j \<in> set scoped then Some [] else None) j = Some (categories_of ids j)"
  by (simp add: add_categories_Some categories_of_def)

lemma inspected_none:
  "j \<in> set (pi_noCategoryJobIds (inspectOperationalPartition loc scoped ids))
     \<longleftrightarrow> j \<in> set scoped \<and> (\<forall>c. j \<notin> set (ids c))"
  unfolding inspectOperationalPartition_def Let_def
  by (auto simp: inspected_members categories_of_Nil [symmetric] image_iff)

lemma inspected_multiple:
  "(j, cs) \<in> set (pi_multipleCategoryJobs (inspectOperationalPartition loc scoped ids))
     \<longleftrightarrow> j \<in> set scoped \<and> cs = categories_of ids j \<and> 1 < length cs"
  unfolding inspectOperationalPartition_def Let_def
  by (auto simp: inspected_members image_iff)

section \<open>Properties\<close>

text \<open>C9. The queues do not overlap: a job that no description batch holds and whose current Aim
  result is not suppressed is selected by at most one of the six queue filters.\<close>

theorem queues_disjoint:
  assumes "j_jdBatchId j = None" and "j_id j \<notin> set suppressed"
    and "selected (operationalQueueWhere c suppressed j)"
    and "selected (operationalQueueWhere d suppressed j)"
  shows "c = d"
  using assms
  by (cases c; cases d)
    (auto simp: queue_defs sql_simps failure_prefixes_exclusive split: if_splits)

text \<open>A job in the Aim Fit queue: pending, locally scored, never passed on.\<close>

definition sample_job :: job_row where
  "sample_job = \<lparr>j_id = ''j1'', j_status = ''pending_af'', j_scoringStatus = ''scored'',
     j_tailoringStaged = False, j_jdBatchId = None, j_batchJobId = None, j_afBatchId = None,
     j_scoreAttempts = 0, j_scoreError = None, j_passReason = None, j_fitCategory = ''good'',
     j_aimFitScore = None, j_reqFitScore = None, j_eventTypes = []\<rparr>"

theorem queues_disjoint_witness:
  "j_jdBatchId sample_job = None \<and> j_id sample_job \<notin> set [''j2'']
   \<and> {c. selected (operationalQueueWhere c [''j2''] sample_job)} = {AimFit}"
proof -
  have s: "selected (operationalQueueWhere AimFit [''j2''] sample_job)"
    by (simp add: queue_defs sql_simps sample_job_def)
  have h: "j_jdBatchId sample_job = None" "j_id sample_job \<notin> set [''j2'']"
    by (simp_all add: sample_job_def)
  show ?thesis using queues_disjoint [OF h _ s] s h by blast
qed

text \<open>Work waiting for a description or for local scoring is never lost from view: every
  unstaged job of the partition scope whose scoring status is \<open>needs_jd\<close>, \<open>queued\<close> or
  \<open>scoring\<close> is selected by exactly one of the two pre-scoring queues, and a local failure that
  exhausted its attempts is selected by the description-failure queue unless it is suppressed.\<close>

theorem waiting_work_is_visible:
  assumes "selected (operationalPartitionScopeWhere suppressed j)"
  shows "(j_scoringStatus j \<in> {''needs_jd'', ''queued'', ''scoring''} \<longrightarrow>
            selected (operationalQueueWhere NeedsJd suppressed j)
              \<noteq> selected (operationalQueueWhere LocalScoring suppressed j))
       \<and> (isRawLocalTerminalFailure (j_scoringStatus j) (j_scoreAttempts j) (j_scoreError j)
            \<and> j_id j \<notin> set suppressed \<longrightarrow> selected (operationalQueueWhere JdFailed suppressed j))"
  using assms
  by (auto simp: operationalPartitionScopeWhere_def queue_defs sql_simps Let_def
      isRawLocalTerminalFailure_def split: if_splits option.splits)

theorem waiting_work_is_visible_witness:
  "selected (operationalPartitionScopeWhere [] (sample_job\<lparr>j_scoringStatus := ''queued''\<rparr>))
   \<and> selected (operationalQueueWhere LocalScoring [] (sample_job\<lparr>j_scoringStatus := ''queued''\<rparr>))"
proof -
  have s: "selected (operationalPartitionScopeWhere [] (sample_job\<lparr>j_scoringStatus := ''queued''\<rparr>))"
    by (simp add: operationalPartitionScopeWhere_def sql_simps sample_job_def Let_def
        currentSuppressionIdWhere_def)
  have n: "\<not> selected (operationalQueueWhere NeedsJd [] (sample_job\<lparr>j_scoringStatus := ''queued''\<rparr>))"
    by (simp add: queue_defs sql_simps sample_job_def)
  show ?thesis using waiting_work_is_visible [OF s] s n by (simp add: sample_job_def)
qed

text \<open>The eligibility filters mean what they intend although they run under SQL's three-valued
  logic: in particular a job whose pass reason is NULL stays eligible for Aim Fit, and only a pass
  reason that does begin with the promotion marker, a promoted category or an explicit user decision
  excludes it, unless the user asked for a rescore.\<close>

theorem manual_eligibility_exact:
  "(selected (manualScoringStatusWhere AimStage j) \<longleftrightarrow>
      j_status j = ''pending_af''
      \<and> ((j_fitCategory j \<noteq> ''promoted''
          \<and> \<not> (\<exists>r. j_passReason j = Some r \<and> starts_with (to_lower r) (to_lower ''Promoted by user:''))
          \<and> set (j_eventTypes j) \<inter> set USER_EVENT_TYPES = {})
         \<or> ''user_rescore'' \<in> set (j_eventTypes j)))
   \<and> (selected (manualScoringStatusWhere ExperienceStage j) \<longleftrightarrow>
      j_status j = ''pending_af''
      \<and> (set (j_eventTypes j) \<inter> set USER_EVENT_TYPES = {} \<or> ''user_rescore'' \<in> set (j_eventTypes j)))"
  by (cases "j_passReason j")
    (auto simp: manualScoringStatusWhere_def some_event_def EXPLICIT_RESCORE_EVENT_def sql_simps)

text \<open>The inspection of the partition is exact: it lists a job as uncategorised just when the
  job is in scope and in no queue, and as multiply categorised just when it is in scope and the
  queues list it more than once, together with the queues that do, in their display order.\<close>

theorem partition_inspection_exact:
  "(j \<in> set (pi_noCategoryJobIds (inspectOperationalPartition loc scoped ids))
      \<longleftrightarrow> j \<in> set scoped \<and> (\<forall>c. j \<notin> set (ids c)))
   \<and> ((j, cs) \<in> set (pi_multipleCategoryJobs (inspectOperationalPartition loc scoped ids))
      \<longleftrightarrow> j \<in> set scoped \<and> cs = categories_of ids j \<and> 1 < length cs)"
  by (simp add: inspected_none inspected_multiple)

end
