(* ===== verification/Manual_Import.thy ===== *)
theory Manual_Import
  imports Sql
begin

text \<open>
  The policy for jobs the user imported (\<open>src/lib/manualImportPolicy.ts\<close>): which rows they are, as a
  test and as a database filter, and what automation may write on them.
\<close>

definition MANUAL_IMPORT_SOURCE :: string where
  "MANUAL_IMPORT_SOURCE = ''Manual Import''"

definition isManualImportSource :: "string option \<Rightarrow> bool" where
  "isManualImportSource source \<longleftrightarrow> source = Some MANUAL_IMPORT_SOURCE"

definition automatedLifecycleIsProtected :: "string option \<Rightarrow> bool" where
  "automatedLifecycleIsProtected source = isManualImportSource source"

definition nonManualImportSourceWhere :: "string option \<Rightarrow> tv" where
  "nonManualImportSourceWhere source =
     tv_any [sql_is_null source, tv_not (sql_eq source MANUAL_IMPORT_SOURCE)]"

text \<open>The filter needs its null arm: a row without a source is not a manual import, but the negated
  equality alone would leave it out.\<close>

lemma nonManualImport_exact: "selected (nonManualImportSourceWhere source) \<longleftrightarrow> \<not> isManualImportSource source"
  by (cases source) (auto simp: nonManualImportSourceWhere_def isManualImportSource_def sql_simps)

record informational_update =
  iu_scoringStatus :: string
  iu_batchJobId :: "string option"
  iu_jdBatchId :: "string option"
  iu_scoreAttempts :: nat
  iu_scoreError :: "string option"
  iu_fitScore :: "int option"
  iu_fitCategory :: string
  iu_fitRationale :: string
  iu_passReason :: "string option"

definition manualImportInformationalScoringUpdate :: "string \<Rightarrow> informational_update" where
  "manualImportInformationalScoringUpdate reason =
     \<lparr>iu_scoringStatus = ''scored'', iu_batchJobId = None, iu_jdBatchId = None, iu_scoreAttempts = 0,
      iu_scoreError = None, iu_fitScore = None, iu_fitCategory = ''manual'',
      iu_fitRationale = ''Manual Import protection: '' @ reason, iu_passReason = None\<rparr>"

end
