(* ===== verification/Lifecycle_Invariant.thy ===== *)
theory Lifecycle_Invariant
  imports Score_Authority Operational_Queue Manual_Import
begin

text \<open>
  The consistency of a job's lifecycle with whoever may decide it (src/lib/jobLifecycleInvariant.ts):
  the pure inspection of one job and the assertion a transaction runs over the jobs it touched.

  Parameters: the collation \<open>loc\<close> and the date reader \<open>date_of\<close> (see the theory
  \<open>Lifecycle_Intent\<close>), and \<open>other_reason\<close>, the verdict of the title pre-filter and of the
  metadata gate on a stored reason (both of which are large keyword tables).
\<close>

section \<open>Snapshots and violations\<close>

definition PROTECTED_TERMINAL_STATUSES :: "string list" where
  "PROTECTED_TERMINAL_STATUSES =
     [''applied'', ''interviewing'', ''expired'', ''archived'', ''cooldown'']"

definition CLOSED_POSTING_REASON :: string where
  "CLOSED_POSTING_REASON = ''Expired (posting closed)''"

definition LEGACY_LOCAL_PREFIXES :: "string list" where
  "LEGACY_LOCAL_PREFIXES =
     [''Locally triaged out:'', ''Available job information is not in English'',
      ''Job posting is closed.'', CLOSED_POSTING_REASON]"

definition MAX_DIAGNOSTICS :: nat where
  "MAX_DIAGNOSTICS = 20"

datatype authority_kind = AuthAim | AuthExperience | AuthLegacy | AuthStale | AuthNone

fun kind_text :: "authority_kind \<Rightarrow> string" where
  "kind_text AuthAim = ''aim''"
| "kind_text AuthExperience = ''experience''"
| "kind_text AuthLegacy = ''legacy''"
| "kind_text AuthStale = ''stale''"
| "kind_text AuthNone = ''none''"

record lifecycle_authority =
  lau_kind :: authority_kind
  lau_eventId :: "string option"
  lau_passed :: "bool option"
  lau_score :: "int option"

record lifecycle_snapshot =
  ls_id :: string
  ls_status :: string
  ls_scoringStatus :: string
  ls_source :: "string option"
  ls_tailoringStaged :: bool
  ls_aimFitScore :: "int option"
  ls_reqFitScore :: "int option"
  ls_passReason :: "string option"
  ls_userIntent :: user_intent
  ls_automatedDisposition :: "disposition option"
  ls_rawScoreEventCount :: nat
  ls_inOperationalScope :: bool
  ls_operationalCategories :: "queue_category list"
  ls_authority :: lifecycle_authority
  ls_legacyLocalDecision :: bool
  ls_legacyLocalReasonRecognized :: bool

record proposed_state =
  ps_status :: string
  ps_scoringStatus :: string
  ps_tailoringStaged :: bool
  ps_aimFitScore :: "int option"
  ps_reqFitScore :: "int option"

record violation_diagnostics =
  vd_passReason :: "string option"
  vd_legacyLocalReasonRecognized :: bool
  vd_rawScoreEventCount :: nat

record lifecycle_violation =
  lv_jobId :: string
  lv_invariant :: string
  lv_authorityEventId :: "string option"
  lv_diagnostics :: "violation_diagnostics option"
  lv_proposedState :: proposed_state

definition violation :: "lifecycle_snapshot \<Rightarrow> string \<Rightarrow> string option \<Rightarrow> lifecycle_violation" where
  "violation s name eventId =
     \<lparr>lv_jobId = ls_id s, lv_invariant = name, lv_authorityEventId = eventId,
      lv_diagnostics = Some \<lparr>vd_passReason = ls_passReason s,
        vd_legacyLocalReasonRecognized = ls_legacyLocalReasonRecognized s,
        vd_rawScoreEventCount = ls_rawScoreEventCount s\<rparr>,
      lv_proposedState = \<lparr>ps_status = ls_status s, ps_scoringStatus = ls_scoringStatus s,
        ps_tailoringStaged = ls_tailoringStaged s, ps_aimFitScore = ls_aimFitScore s,
        ps_reqFitScore = ls_reqFitScore s\<rparr>\<rparr>"

text \<open>The default of the third argument: the event of the score authority.\<close>

definition score_violation :: "lifecycle_snapshot \<Rightarrow> string \<Rightarrow> lifecycle_violation" where
  "score_violation s name = violation s name (lau_eventId (ls_authority s))"

section \<open>Inspection of one job\<close>

definition expectedStatus :: "lifecycle_authority \<Rightarrow> string option" where
  "expectedStatus a =
     (if lau_kind a = AuthExperience
      then Some (if lau_passed a = Some True then ''inbox'' else ''dismissed'')
      else if lau_kind a = AuthLegacy
      then Some (if lau_passed a = Some True then ''inbox'' else ''dismissed'')
      else if lau_kind a \<noteq> AuthAim then None
      else Some (if lau_passed a = Some True
           \<and> (case lau_score a of None \<Rightarrow> False | Some n \<Rightarrow> AIM_EXPERIENCE_QUEUE_MINIMUM_SCORE \<le> n)
         then ''pending_af'' else ''dismissed''))"

definition structural_violations :: "lifecycle_snapshot \<Rightarrow> lifecycle_violation list" where
  "structural_violations s =
     (if ls_status s = ''pending_af'' \<and> ls_scoringStatus s = ''skipped''
      then [score_violation s ''pending_af_cannot_be_skipped''] else [])
     @ (if ls_status s = ''pending_af'' \<and> ls_reqFitScore s \<noteq> None
        then [score_violation s ''pending_af_cannot_retain_experience_score''] else [])
     @ (if ls_inOperationalScope s \<and> length (ls_operationalCategories s) = 0
        then [score_violation s ''active_job_has_no_operational_queue''] else [])
     @ (if ls_inOperationalScope s \<and> 1 < length (ls_operationalCategories s)
        then [score_violation s ''active_job_has_multiple_operational_queues''] else [])"

definition inspectJobLifecycleInvariant :: "lifecycle_snapshot \<Rightarrow> lifecycle_violation list" where
  "inspectJobLifecycleInvariant s =
     (if structural_violations s \<noteq> [] then structural_violations s
      else if map_option dp_expectedStatus (ls_automatedDisposition s) = Some (ls_status s) then []
      else if ui_kind (ls_userIntent s) = KFinal
      then (if userLifecycleIntentDrift (ls_userIntent s) (ls_status s) (ls_tailoringStaged s)
               = Contradicted
            then [violation s ''latest_user_lifecycle_intent_does_not_match_state''
                    (ui_eventId (ls_userIntent s))]
            else [])
      else if ls_source s = Some MANUAL_IMPORT_SOURCE \<or> ls_tailoringStaged s then []
      else if ls_status s \<in> set PROTECTED_TERMINAL_STATUSES then []
      else (case expectedStatus (ls_authority s) of
          Some projected \<Rightarrow>
            if ls_status s \<noteq> projected
            then [score_violation s (''current_'' @ kind_text (lau_kind (ls_authority s))
                    @ ''_authority_requires_'' @ projected)]
            else []
        | None \<Rightarrow>
            if ls_legacyLocalDecision s
            then (if 0 < ls_rawScoreEventCount s
                  then [score_violation s ''legacy_local_fallback_requires_no_score_event'']
                  else if \<not> ls_legacyLocalReasonRecognized s
                  then [score_violation s ''legacy_local_fallback_requires_recognized_machine_reason'']
                  else [])
            else []))"

section \<open>The assertion over a transaction\<close>

record lifecycle_job =
  lj_row :: job_row
  lj_source :: "string option"
  lj_pipelineEvents :: "lifecycle_event list"
  lj_scoreEventCount :: nat
  lj_bundle :: "score_bundle option" \<comment> \<open>the latest score events, when the job has any\<close>

text \<open>\<open>JobLifecycleInvariantError\<close> keeps the first violations only.\<close>

datatype lifecycle_error = LifecycleInvariantError "lifecycle_violation list"

definition lifecycleInvariantError :: "lifecycle_violation list \<Rightarrow> lifecycle_error" where
  "lifecycleInvariantError vs = LifecycleInvariantError (take MAX_DIAGNOSTICS vs)"

definition recognizedLegacyLocalReason ::
  "(lifecycle_job \<Rightarrow> string \<Rightarrow> bool) \<Rightarrow> lifecycle_job \<Rightarrow> bool" where
  "recognizedLegacyLocalReason other_reason job =
     (case j_passReason (lj_row job) of
        None \<Rightarrow> False
      | Some reason \<Rightarrow> reason \<noteq> []
          \<and> ((\<exists>p \<in> set LEGACY_LOCAL_PREFIXES. starts_with reason p) \<or> other_reason job reason))"

definition missing_violation :: "string \<Rightarrow> lifecycle_violation" where
  "missing_violation i =
     \<lparr>lv_jobId = i, lv_invariant = ''affected_job_missing'', lv_authorityEventId = None,
      lv_diagnostics = None,
      lv_proposedState = \<lparr>ps_status = ''missing'', ps_scoringStatus = ''missing'',
        ps_tailoringStaged = False, ps_aimFitScore = None, ps_reqFitScore = None\<rparr>\<rparr>"

text \<open>\<open>bundle?.experience?.id || bundle?.aim?.id || bundle?.legacy?.id || null\<close>\<close>

definition id_or :: "score_event option \<Rightarrow> string option \<Rightarrow> string option" where
  "id_or e rest = (case e of None \<Rightarrow> rest | Some x \<Rightarrow> if se_id x = [] then rest else Some (se_id x))"

definition jobAuthority :: "score_bundle option \<Rightarrow> lifecycle_authority" where
  "jobAuthority bundle =
     (case bundle of
        None \<Rightarrow> \<lparr>lau_kind = AuthNone, lau_eventId = None, lau_passed = None, lau_score = None\<rparr>
      | Some b \<Rightarrow>
          let resolved = resolveStagedScoreAuthority b in
          case sa_currentExperience resolved of
            Some e \<Rightarrow> \<lparr>lau_kind = AuthExperience, lau_eventId = Some (se_id e),
              lau_passed = Some (se_passed e), lau_score = se_experienceFitScore e\<rparr>
          | None \<Rightarrow>
          (case sa_currentAim resolved of
            Some a \<Rightarrow> \<lparr>lau_kind = AuthAim, lau_eventId = Some (se_id a),
              lau_passed = Some (se_passed a), lau_score = se_aimFitScore a\<rparr>
          | None \<Rightarrow>
          (case sa_currentLegacy resolved of
            Some l \<Rightarrow> \<lparr>lau_kind = AuthLegacy, lau_eventId = Some (se_id l),
              lau_passed = Some (se_passed l), lau_score = se_aimFitScore l\<rparr>
          | None \<Rightarrow>
            if sa_aimAuthorityState resolved = StaleReplayNeeded
               \<or> sa_experienceAuthorityState resolved = StaleReplayNeeded
            then \<lparr>lau_kind = AuthStale,
                  lau_eventId = id_or (sb_experience b) (id_or (sb_aim b) (id_or (sb_legacy b) None)),
                  lau_passed = None, lau_score = None\<rparr>
            else \<lparr>lau_kind = AuthNone, lau_eventId = None, lau_passed = None, lau_score = None\<rparr>)))"

definition scoped_ids :: "lifecycle_job list \<Rightarrow> string list \<Rightarrow> string list \<Rightarrow> string list" where
  "scoped_ids db suppressed jobIds =
     map (j_id \<circ> lj_row) (filter (\<lambda>job. j_id (lj_row job) \<in> set jobIds
       \<and> selected (operationalPartitionScopeWhere suppressed (lj_row job))) db)"

definition category_ids ::
  "lifecycle_job list \<Rightarrow> string list \<Rightarrow> string list \<Rightarrow> queue_category \<Rightarrow> string list" where
  "category_ids db suppressed jobIds c =
     map (j_id \<circ> lj_row) (filter (\<lambda>job. j_id (lj_row job) \<in> set jobIds
       \<and> selected (operationalQueueWhere c suppressed (lj_row job))) db)"

text \<open>The queues the driver attributes to a job: from the inspected partition when that lists the
  job, otherwise from the plain memberships.\<close>

definition driver_categories ::
  "string cmp \<Rightarrow> lifecycle_job list \<Rightarrow> string list \<Rightarrow> string list \<Rightarrow> string \<Rightarrow> queue_category list" where
  "driver_categories loc db suppressed jobIds i =
     (let ids = category_ids db suppressed jobIds;
          partition = inspectOperationalPartition loc (dedup (scoped_ids db suppressed jobIds)) ids;
          memberships = add_categories ids OPERATIONAL_QUEUE_CATEGORIES
            (\<lambda>j. if j \<in> set jobIds then Some [] else None)
      in case map_of_last (pi_multipleCategoryJobs partition) i of
           Some cs \<Rightarrow> cs
         | None \<Rightarrow> if i \<in> set (pi_noCategoryJobIds partition) then []
                   else (case memberships i of None \<Rightarrow> [] | Some cs \<Rightarrow> cs))"

definition job_snapshot ::
  "(string \<Rightarrow> ms option) \<Rightarrow> string cmp \<Rightarrow> (lifecycle_job \<Rightarrow> string \<Rightarrow> bool) \<Rightarrow> lifecycle_job list
     \<Rightarrow> string list \<Rightarrow> string list \<Rightarrow> lifecycle_job \<Rightarrow> lifecycle_snapshot" where
  "job_snapshot date_of loc other_reason db suppressed jobIds job =
     (let r = lj_row job in
      \<lparr>ls_id = j_id r, ls_status = j_status r, ls_scoringStatus = j_scoringStatus r,
       ls_source = lj_source job, ls_tailoringStaged = j_tailoringStaged r,
       ls_aimFitScore = j_aimFitScore r, ls_reqFitScore = j_reqFitScore r,
       ls_passReason = j_passReason r,
       ls_userIntent = latestUserLifecycleIntent date_of loc (lj_pipelineEvents job),
       ls_automatedDisposition =
         failureQueueExpirationDisposition date_of loc (lj_pipelineEvents job),
       ls_rawScoreEventCount = lj_scoreEventCount job,
       ls_inOperationalScope = (j_id r \<in> set (scoped_ids db suppressed jobIds)),
       ls_operationalCategories = driver_categories loc db suppressed jobIds (j_id r),
       ls_authority = jobAuthority (lj_bundle job),
       ls_legacyLocalDecision = (j_status r = ''dismissed'' \<and> j_scoringStatus r = ''skipped''),
       ls_legacyLocalReasonRecognized = recognizedLegacyLocalReason other_reason job\<rparr>)"

definition assertJobLifecycleInvariants ::
  "(string \<Rightarrow> ms option) \<Rightarrow> string cmp \<Rightarrow> (lifecycle_job \<Rightarrow> string \<Rightarrow> bool) \<Rightarrow> lifecycle_job list
     \<Rightarrow> string list \<Rightarrow> string list \<Rightarrow> lifecycle_error + unit" where
  "assertJobLifecycleInvariants date_of loc other_reason db suppressed affectedJobIds =
     (let jobIds = js_sort code_unit_cmp (dedup (filter (\<lambda>i. i \<noteq> []) affectedJobIds)) in
      if jobIds = [] then Inr ()
      else
        let jobs = filter (\<lambda>job. j_id (lj_row job) \<in> set jobIds) db;
            missing = filter (\<lambda>i. i \<notin> (j_id \<circ> lj_row) ` set jobs) jobIds
        in if missing \<noteq> [] then Inl (lifecycleInvariantError (map missing_violation missing))
           else
             let violations = concat (map (\<lambda>job. inspectJobLifecycleInvariant
                   (job_snapshot date_of loc other_reason db suppressed jobIds job)) jobs)
             in if violations \<noteq> [] then Inl (lifecycleInvariantError violations) else Inr ())"

section \<open>Lemmas\<close>

lemma distinct_category_ids:
  "distinct (map (j_id \<circ> lj_row) db) \<Longrightarrow> distinct (category_ids db suppressed jobIds c)"
  unfolding category_ids_def by (rule distinct_map_filter)

lemma driver_categories_of:
  assumes "i \<in> set jobIds"
  shows "driver_categories loc db suppressed jobIds i = categories_of (category_ids db suppressed jobIds) i"
proof (cases "map_of_last (pi_multipleCategoryJobs (inspectOperationalPartition loc
    (dedup (scoped_ids db suppressed jobIds)) (category_ids db suppressed jobIds))) i")
  case None
  then show ?thesis
    using assms
    by (auto simp: driver_categories_def Let_def inspected_none categories_of_Nil [symmetric]
        inspected_members)
next
  case (Some cs)
  with map_of_last_SomeD [OF Some] show ?thesis
    by (simp add: driver_categories_def Let_def inspected_multiple)
qed

lemma in_category_ids:
  assumes "distinct (map (j_id \<circ> lj_row) db)" and "job \<in> set db"
  shows "j_id (lj_row job) \<in> set (category_ids db suppressed jobIds c) \<longleftrightarrow>
     j_id (lj_row job) \<in> set jobIds \<and> selected (operationalQueueWhere c suppressed (lj_row job))"
proof -
  have "inj_on (j_id \<circ> lj_row) (set db)"
    using assms(1) by (simp add: distinct_map)
  then have "x \<in> set db \<Longrightarrow> j_id (lj_row x) = j_id (lj_row job) \<Longrightarrow> x = job" for x
    using assms(2) inj_onD [of "j_id \<circ> lj_row" "set db" x job] by simp
  then show ?thesis using assms(2) by (auto simp: category_ids_def)
qed

lemma in_scoped_ids:
  "job \<in> set db \<Longrightarrow> j_id (lj_row job) \<in> set jobIds \<Longrightarrow>
     selected (operationalPartitionScopeWhere suppressed (lj_row job)) \<Longrightarrow>
     j_id (lj_row job) \<in> set (scoped_ids db suppressed jobIds)"
  by (force simp: scoped_ids_def)

lemma driver_categories_selected:
  assumes "distinct (map (j_id \<circ> lj_row) db)" and "job \<in> set db" and "j_id (lj_row job) \<in> set jobIds"
  shows "driver_categories loc db suppressed jobIds (j_id (lj_row job))
    = filter (\<lambda>c. selected (operationalQueueWhere c suppressed (lj_row job))) OPERATIONAL_QUEUE_CATEGORIES"
  using assms
  by (simp add: driver_categories_of categories_of_distinct distinct_category_ids in_category_ids)

lemma structural_violations_Nil:
  "structural_violations s = [] \<longleftrightarrow>
     (ls_status s = ''pending_af'' \<longrightarrow> ls_scoringStatus s \<noteq> ''skipped'' \<and> ls_reqFitScore s = None)
     \<and> (ls_inOperationalScope s \<longrightarrow> length (ls_operationalCategories s) = 1)"
proof -
  have "length xs = 1 \<longleftrightarrow> length xs \<noteq> 0 \<and> \<not> 1 < length xs" for xs :: "queue_category list"
    by arith
  then show ?thesis unfolding structural_violations_def append_is_Nil_conv by (simp split: if_split)
qed

lemma inspected_structure:
  "inspectJobLifecycleInvariant s = [] \<Longrightarrow> structural_violations s = []"
  by (simp add: inspectJobLifecycleInvariant_def split: if_splits)

lemma assertion_accepts:
  assumes "assertJobLifecycleInvariants date_of loc other db suppressed affected = Inr ()"
    and "job \<in> set db" and "j_id (lj_row job) \<in> set affected" and "j_id (lj_row job) \<noteq> []"
  shows "\<exists>jobIds. set jobIds = {i \<in> set affected. i \<noteq> []}
    \<and> inspectJobLifecycleInvariant (job_snapshot date_of loc other db suppressed jobIds job) = []"
proof -
  define jobIds where "jobIds = js_sort code_unit_cmp (dedup (filter (\<lambda>i. i \<noteq> []) affected))"
  have ids: "set jobIds = {i \<in> set affected. i \<noteq> []}" by (auto simp: jobIds_def)
  then have "jobIds \<noteq> []" using assms(3,4) by (metis (mono_tags, lifting) empty_iff empty_set mem_Collect_eq)
  then have "concat (map (\<lambda>job. inspectJobLifecycleInvariant
      (job_snapshot date_of loc other db suppressed jobIds job))
      (filter (\<lambda>job. j_id (lj_row job) \<in> set jobIds) db)) = []"
    using assms(1) unfolding assertJobLifecycleInvariants_def jobIds_def [symmetric] Let_def
    by (simp split: if_splits)
  with ids assms show ?thesis by (intro exI [of _ jobIds]) simp
qed

section \<open>Properties\<close>

text \<open>C12. A transaction that passes the assertion leaves every job it touched with an exclusive
  place: each affected job in the partition scope is selected by exactly one of the six queue
  filters, as the database evaluates them.\<close>

theorem accepted_jobs_have_one_queue:
  assumes "assertJobLifecycleInvariants date_of loc other db suppressed affected = Inr ()"
    and "distinct (map (j_id \<circ> lj_row) db)" and "job \<in> set db"
    and "j_id (lj_row job) \<in> set affected" and "j_id (lj_row job) \<noteq> []"
    and "selected (operationalPartitionScopeWhere suppressed (lj_row job))"
  shows "\<exists>!c. selected (operationalQueueWhere c suppressed (lj_row job))"
proof -
  obtain jobIds where ids: "set jobIds = {i \<in> set affected. i \<noteq> []}"
    and "inspectJobLifecycleInvariant (job_snapshot date_of loc other db suppressed jobIds job) = []"
    using assertion_accepts [OF assms(1,3-5)] by blast
  from inspected_structure [OF this(2)] ids assms structural_violations_Nil
  have "length (driver_categories loc db suppressed jobIds (j_id (lj_row job))) = 1"
    by (simp add: job_snapshot_def Let_def in_scoped_ids)
  then have "length (filter (\<lambda>c. selected (operationalQueueWhere c suppressed (lj_row job)))
      OPERATIONAL_QUEUE_CATEGORIES) = 1"
    using ids assms by (simp add: driver_categories_selected)
  then obtain c where "filter (\<lambda>c. selected (operationalQueueWhere c suppressed (lj_row job)))
      OPERATIONAL_QUEUE_CATEGORIES = [c]" by (auto simp: length_Suc_conv)
  then have "set (filter (\<lambda>c. selected (operationalQueueWhere c suppressed (lj_row job)))
      OPERATIONAL_QUEUE_CATEGORIES) = {c}" by simp
  then have "selected (operationalQueueWhere d suppressed (lj_row job)) \<longleftrightarrow> d = c" for d
    by (auto simp: all_categories)
  then show ?thesis by auto
qed

definition sample_lifecycle_job :: lifecycle_job where
  "sample_lifecycle_job = \<lparr>lj_row = sample_job, lj_source = Some ''board'', lj_pipelineEvents = [],
     lj_scoreEventCount = 0, lj_bundle = None\<rparr>"

theorem accepted_jobs_have_one_queue_witness:
  "\<exists>!c. selected (operationalQueueWhere c [] (lj_row sample_lifecycle_job))"
proof (rule accepted_jobs_have_one_queue)
  let ?db = "[sample_lifecycle_job]"
  have d: "driver_categories code_unit_cmp ?db [] [''j1''] ''j1'' = [AimFit]"
    using driver_categories_selected [of ?db sample_lifecycle_job "[''j1'']"]
    by (simp add: sample_lifecycle_job_def sample_job_def OPERATIONAL_QUEUE_CATEGORIES_def
        queue_defs sql_simps)
  show "assertJobLifecycleInvariants (\<lambda>t. None) code_unit_cmp (\<lambda>j r. False) ?db [] [''j1''] = Inr ()"
    using d
    by (simp add: assertJobLifecycleInvariants_def Let_def job_snapshot_def inspectJobLifecycleInvariant_def
        structural_violations_def sample_lifecycle_job_def sample_job_def jobAuthority_def
        expectedStatus_def latestUserLifecycleIntent_def no_intent_def latest_event_def
        failureQueueExpirationDisposition_def)
qed (simp_all add: sample_lifecycle_job_def sample_job_def operationalPartitionScopeWhere_def sql_simps
    Let_def currentSuppressionIdWhere_def)

end
