(* ===== verification/Canonical_Json.thy ===== *)
theory Canonical_Json
  imports Prelude
begin

text \<open>
  The canonical serialisation behind every content hash of the application
  (src/lib/scoringCanonicalJson.ts). The text of a number (\<open>Number.prototype.toString\<close>) is the
  parameter \<open>num\<close>, the digest of \<open>node:crypto\<close> the parameter \<open>sha\<close>. A value of type \<^typ>\<open>json\<close> is
  plain JSON by construction, so of the checks only the one on the object keys can fail.
\<close>

section \<open>Text\<close>

datatype text_error = ContainsNul | SpanInvalid | SpanExceedsSource | QuoteMismatch

text \<open>\<open>normalizeScoringText\<close>: NUL is refused and every line end becomes a line feed. Text of the
  modelled code units has no surrogates, and NFC leaves it unchanged.\<close>

fun line_feeds :: "string \<Rightarrow> string" where
  "line_feeds [] = []"
| "line_feeds (c # s) =
     (if c = CHR 0x0D
      then CHR 0x0A # (case s of [] \<Rightarrow> [] | d # t \<Rightarrow>
             if d = CHR 0x0A then line_feeds t else line_feeds s)
      else c # line_feeds s)"

definition normalizeScoringText :: "string \<Rightarrow> text_error + string" where
  "normalizeScoringText value =
     (if CHR 0x00 \<in> set value then Inl ContainsNul else Inr (line_feeds value))"

definition codePointSlice :: "string \<Rightarrow> int \<Rightarrow> int \<Rightarrow> text_error + string" where
  "codePointSlice value start stop =
     (if start < 0 \<or> stop < start then Inl SpanInvalid
      else Inr (take (nat stop - nat start) (drop (nat start) value)))"

definition assertExactCodePointQuote :: "string \<Rightarrow> int \<Rightarrow> int \<Rightarrow> string \<Rightarrow> text_error + unit" where
  "assertExactCodePointQuote source start stop exactQuote =
     (case normalizeScoringText source of
        Inl e \<Rightarrow> Inl e
      | Inr normalized \<Rightarrow>
          if int (length normalized) < stop then Inl SpanExceedsSource
          else (case codePointSlice normalized start stop of
                  Inl e \<Rightarrow> Inl e
                | Inr text \<Rightarrow> if text \<noteq> exactQuote then Inl QuoteMismatch else Inr ()))"

section \<open>Serialisation\<close>

definition hex_digit :: "nat \<Rightarrow> char" where
  "hex_digit n = ''0123456789abcdef'' ! n"

text \<open>\<open>JSON.stringify\<close> on one character of a string.\<close>

definition quote_char :: "char \<Rightarrow> string" where
  "quote_char c =
     (if c = CHR 0x22 then [CHR 0x5C, CHR 0x22]
      else if c = CHR 0x5C then [CHR 0x5C, CHR 0x5C]
      else if c = CHR 0x08 then CHR 0x5C # ''b''
      else if c = CHR 0x09 then CHR 0x5C # ''t''
      else if c = CHR 0x0A then CHR 0x5C # ''n''
      else if c = CHR 0x0C then CHR 0x5C # ''f''
      else if c = CHR 0x0D then CHR 0x5C # ''r''
      else if (of_char c :: nat) < 32
      then CHR 0x5C # ''u00'' @ [hex_digit (of_char c div 16), hex_digit (of_char c mod 16)]
      else [c])"

definition quote_string :: "string \<Rightarrow> string" where
  "quote_string s = [CHR 0x22] @ concat (map quote_char s) @ [CHR 0x22]"

fun join :: "string \<Rightarrow> string list \<Rightarrow> string" where
  "join sep [] = []"
| "join sep [x] = x"
| "join sep (x # y # ys) = x @ sep @ join sep (y # ys)"

text \<open>The members of an object are written in the code-unit order of their keys.\<close>

definition sort_members :: "(string \<times> 'a) list \<Rightarrow> (string \<times> 'a) list" where
  "sort_members kvs = js_sort (key_cmp fst code_unit_cmp) kvs"

function encode :: "(rat \<Rightarrow> string) \<Rightarrow> json \<Rightarrow> string" where
  "encode num JNull = ''null''"
| "encode num (JBool b) = (if b then ''true'' else ''false'')"
| "encode num (JNum n) = num n"
| "encode num (JStr s) = quote_string s"
| "encode num (JArr xs) = ''['' @ join '','' (map (encode num) xs) @ '']''"
| "encode num (JObj kvs) =
     ''{'' @ join '','' (map (\<lambda>(k, v). quote_string k @ '':'' @ encode num v) (sort_members kvs)) @ ''}''"
  by pat_completeness auto
termination
proof (relation "measure (size \<circ> snd)", goal_cases)
  case (2 num xs x)
  then show ?case by (induction xs) auto
next
  case (3 num kvs kv k v)
  then have "(k, v) \<in> set kvs" by (metis set_js_sort sort_members_def)
  then have "size v < size_list (size_prod (\<lambda>x. 0) size) kvs"
    by (induction kvs) auto
  then show ?case by simp
qed auto

function keys_valid :: "json \<Rightarrow> bool" where
  "keys_valid (JArr xs) = list_all keys_valid xs"
| "keys_valid (JObj kvs) =
     list_all (\<lambda>(k, v). (case normalizeScoringText k of Inl _ \<Rightarrow> False | Inr _ \<Rightarrow> True) \<and> keys_valid v) kvs"
| "keys_valid JNull = True"
| "keys_valid (JBool b) = True"
| "keys_valid (JNum n) = True"
| "keys_valid (JStr s) = True"
  by pat_completeness auto
termination
proof (relation "measure size", goal_cases)
  case (2 xs x)
  then show ?case by (induction xs) auto
next
  case (3 kvs kv k v)
  then have "(k, v) \<in> set kvs" by simp
  then have "size v < size_list (size_prod (\<lambda>x. 0) size) kvs"
    by (induction kvs) auto
  then show ?case by simp
qed auto

definition canonicalJson :: "(rat \<Rightarrow> string) \<Rightarrow> json \<Rightarrow> text_error + string" where
  "canonicalJson num value = (if keys_valid value then Inr (encode num value) else Inl ContainsNul)"

definition canonicalJsonSha256 ::
  "(string \<Rightarrow> string) \<Rightarrow> (rat \<Rightarrow> string) \<Rightarrow> json \<Rightarrow> text_error + string" where
  "canonicalJsonSha256 sha num value = map_sum id sha (canonicalJson num value)"

function integer_json :: "json \<Rightarrow> bool" where
  "integer_json (JNum n) = (of_int \<lfloor>n\<rfloor> = n \<and> \<bar>n\<bar> \<le> 9007199254740991)"
| "integer_json (JArr xs) = list_all integer_json xs"
| "integer_json (JObj kvs) = list_all (\<lambda>(k, v). integer_json v) kvs"
| "integer_json JNull = True"
| "integer_json (JBool b) = True"
| "integer_json (JStr s) = True"
  by pat_completeness auto
termination
proof (relation "measure size", goal_cases)
  case (2 xs x)
  then show ?case by (induction xs) auto
next
  case (3 kvs kv k v)
  then have "(k, v) \<in> set kvs" by simp
  then have "size v < size_list (size_prod (\<lambda>x. 0) size) kvs"
    by (induction kvs) auto
  then show ?case by simp
qed auto

section \<open>The encoding determines the value up to the order of members\<close>

text \<open>The value with the members of every object in key order.\<close>

function canon :: "json \<Rightarrow> json" where
  "canon (JArr xs) = JArr (map canon xs)"
| "canon (JObj kvs) = JObj (map (\<lambda>(k, v). (k, canon v)) (sort_members kvs))"
| "canon JNull = JNull"
| "canon (JBool b) = JBool b"
| "canon (JNum n) = JNum n"
| "canon (JStr s) = JStr s"
  by pat_completeness auto
termination
proof (relation "measure size", goal_cases)
  case (2 xs x)
  then show ?case by (induction xs) auto
next
  case (3 kvs kv k v)
  then have "(k, v) \<in> set kvs" by (metis set_js_sort sort_members_def)
  then have "size v < size_list (size_prod (\<lambda>x. 0) size) kvs"
    by (induction kvs) auto
  then show ?case by simp
qed auto

fun plain :: "(rat \<Rightarrow> string) \<Rightarrow> json \<Rightarrow> string"
  and plain_items :: "(rat \<Rightarrow> string) \<Rightarrow> json list \<Rightarrow> string"
  and plain_members :: "(rat \<Rightarrow> string) \<Rightarrow> (string \<times> json) list \<Rightarrow> string" where
  "plain num JNull = ''null''"
| "plain num (JBool b) = (if b then ''true'' else ''false'')"
| "plain num (JNum n) = num n"
| "plain num (JStr s) = quote_string s"
| "plain num (JArr xs) = ''['' @ plain_items num xs"
| "plain num (JObj kvs) = ''{'' @ plain_members num kvs"
| "plain_items num [] = '']''"
| "plain_items num [x] = plain num x @ '']''"
| "plain_items num (x # y # ys) = plain num x @ '','' @ plain_items num (y # ys)"
| "plain_members num [] = ''}''"
| "plain_members num [(k, v)] = quote_string k @ '':'' @ plain num v @ ''}''"
| "plain_members num ((k, v) # m # ms) =
     quote_string k @ '':'' @ plain num v @ '','' @ plain_members num (m # ms)"

lemma plain_items_join: "plain_items num xs = join '','' (map (plain num) xs) @ '']''"
  by (induction xs rule: induct_list012) auto

lemma plain_members_join:
  "plain_members num kvs =
     join '','' (map (\<lambda>(k, v). quote_string k @ '':'' @ plain num v) kvs) @ ''}''"
  by (induction kvs rule: induct_list012) auto

lemma encode_plain: "encode num j = plain num (canon j)"
proof (induction num j rule: encode.induct)
  case (5 num xs)
  then have "map (encode num) xs = map (plain num) (map canon xs)" by simp
  then show ?case by (simp only: encode.simps canon.simps plain.simps plain_items_join append_assoc)
next
  case (6 num kvs)
  then have "map (\<lambda>(k, v). quote_string k @ '':'' @ encode num v) (sort_members kvs)
      = map (\<lambda>(k, v). quote_string k @ '':'' @ plain num v)
          (map (\<lambda>(k, v). (k, canon v)) (sort_members kvs))"
    by auto
  then show ?case by (simp only: encode.simps canon.simps plain.simps plain_members_join append_assoc)
qed auto

text \<open>The documented form of a number: not empty, made of digits, sign, point and exponent, and
  different for different numbers.\<close>

definition number_char :: "char \<Rightarrow> bool" where
  "number_char c \<longleftrightarrow> c \<in> set ''0123456789+-.e''"

definition number_text :: "(rat \<Rightarrow> string) \<Rightarrow> bool" where
  "number_text num \<longleftrightarrow> inj num \<and> (\<forall>n. num n \<noteq> [] \<and> list_all number_char (num n))"

definition stops :: "string \<Rightarrow> bool" where
  "stops r \<longleftrightarrow> (case r of [] \<Rightarrow> True | c # _ \<Rightarrow> c \<in> set '',]}'')"

lemma append_span:
  "list_all P xs \<Longrightarrow> list_all P ys \<Longrightarrow> (case r of [] \<Rightarrow> True | c # _ \<Rightarrow> \<not> P c) \<Longrightarrow>
   (case s of [] \<Rightarrow> True | c # _ \<Rightarrow> \<not> P c) \<Longrightarrow> xs @ r = ys @ s \<Longrightarrow> xs = ys \<and> r = s"
proof (induction xs arbitrary: ys)
  case Nil
  then show ?case by (cases ys) auto
next
  case (Cons x xs)
  then show ?case by (cases ys) auto
qed

lemma stops_not_number:
  assumes "stops t"
  shows "case t of [] \<Rightarrow> True | c # _ \<Rightarrow> \<not> number_char c"
proof (cases t)
  case (Cons c u)
  have "\<forall>c \<in> set '',]}''. \<not> number_char c" by (simp add: number_char_def)
  with Cons assms show ?thesis by (auto simp: stops_def)
qed simp

lemma number_cancel:
  assumes "number_text num" and "num m @ r = num n @ s" and "stops r" and "stops s"
  shows "m = n \<and> r = s"
proof -
  have "list_all number_char (num m)" "list_all number_char (num n)"
    using assms(1) by (simp_all add: number_text_def)
  then have "num m = num n \<and> r = s"
    using append_span [OF _ _ stops_not_number stops_not_number] assms(2-4) by blast
  then show ?thesis using assms(1) by (auto simp: number_text_def dest: injD)
qed

definition hex_value :: "char \<Rightarrow> nat" where
  "hex_value d = length (takeWhile (\<lambda>e. e \<noteq> d) ''0123456789abcdef'')"

lemma hex_value_digit: "n < 16 \<Longrightarrow> hex_value (hex_digit n) = n"
  by (auto simp: less_Suc_eq numeral_nat hex_digit_def hex_value_def)

text \<open>Reading one quoted character back, which shows that no code is a prefix of another.\<close>

definition read_char :: "string \<Rightarrow> char \<times> string" where
  "read_char s =
     (if hd s \<noteq> CHR 0x5C then (hd s, tl s)
      else let d = hd (tl s); r = tl (tl s) in
        if d = CHR ''b'' then (CHR 0x08, r)
        else if d = CHR ''t'' then (CHR 0x09, r)
        else if d = CHR ''n'' then (CHR 0x0A, r)
        else if d = CHR ''f'' then (CHR 0x0C, r)
        else if d = CHR ''r'' then (CHR 0x0D, r)
        else if d = CHR ''u''
        then (char_of (hex_value (r ! 2) * 16 + hex_value (r ! 3)), drop 4 r)
        else (d, r))"

lemma read_quote_char: "read_char (quote_char c @ x) = (c, x)"
proof -
  have "(of_char c :: nat) < 32 \<Longrightarrow> (of_char c :: nat) div 16 < 16"
    "(of_char c :: nat) mod 16 < 16" by simp_all
  then show ?thesis by (simp add: quote_char_def read_char_def Let_def hex_value_digit)
qed

lemma quote_char_cancel: "quote_char c @ x = quote_char d @ y \<Longrightarrow> c = d \<and> x = y"
  by (metis read_quote_char prod.inject)

lemma quote_char_neq_quote: "quote_char c @ x \<noteq> CHR 0x22 # y"
  by (simp add: quote_char_def)

lemma quote_body_cancel:
  "concat (map quote_char s) @ CHR 0x22 # x = concat (map quote_char t) @ CHR 0x22 # y
     \<Longrightarrow> s = t \<and> x = y"
proof (induction s arbitrary: t)
  case Nil
  then show ?case
    using quote_char_neq_quote [symmetric] by (cases t) auto
next
  case (Cons c s)
  show ?case
  proof (cases t)
    case Nil
    with Cons.prems show ?thesis using quote_char_neq_quote by simp
  next
    case t: (Cons d u)
    with Cons.prems have "quote_char c @ concat (map quote_char s) @ CHR 0x22 # x
        = quote_char d @ concat (map quote_char u) @ CHR 0x22 # y" by simp
    from quote_char_cancel [OF this] Cons.IH [of u] t show ?thesis by simp
  qed
qed

lemma quote_string_cancel: "quote_string s @ x = quote_string t @ y \<Longrightarrow> s = t \<and> x = y"
  using quote_body_cancel [of s x t y] by (simp add: quote_string_def)

text \<open>The first character tells the kind of a value.\<close>

definition head_kind :: "char \<Rightarrow> nat" where
  "head_kind c =
     (if c = CHR ''n'' then 0 else if c = CHR ''t'' \<or> c = CHR ''f'' then 1
      else if number_char c then 2 else if c = CHR 0x22 then 3
      else if c = CHR ''['' then 4 else if c = CHR ''{'' then 5 else 6)"

fun json_kind :: "json \<Rightarrow> nat" where
  "json_kind JNull = 0"
| "json_kind (JBool b) = 1"
| "json_kind (JNum n) = 2"
| "json_kind (JStr s) = 3"
| "json_kind (JArr xs) = 4"
| "json_kind (JObj kvs) = 5"

lemma plain_head:
  assumes "number_text num"
  shows "plain num j \<noteq> [] \<and> head_kind (hd (plain num j)) = json_kind j"
proof (cases j)
  case (JNum n)
  have "num n \<noteq> [] \<and> number_char (hd (num n))"
    using assms by (metis hd_in_set list.pred_set number_text_def)
  then have "num n \<noteq> [] \<and> head_kind (hd (num n)) = 2"
    by (auto simp: head_kind_def number_char_def)
  with JNum show ?thesis by simp
qed (auto simp: head_kind_def number_char_def quote_string_def)

lemma plain_kind:
  assumes "number_text num" and "plain num a @ r = plain num b @ s"
  shows "json_kind a = json_kind b"
  using plain_head [OF assms(1), of a] plain_head [OF assms(1), of b] assms(2)
  by (metis hd_append2)

lemma plain_not_closing:
  assumes "number_text num"
  shows "plain num a @ r \<noteq> CHR '']'' # s" and "plain num a @ r \<noteq> CHR ''}'' # s"
proof -
  have "head_kind (CHR '']'') = 6" "head_kind (CHR ''}'') = 6" "json_kind a < 6"
    by (cases a; simp add: head_kind_def number_char_def)+
  then show "plain num a @ r \<noteq> CHR '']'' # s" and "plain num a @ r \<noteq> CHR ''}'' # s"
    using plain_head [OF assms, of a] by (metis hd_append2 less_irrefl list.sel(1))+
qed

lemma quote_string_not_closing: "quote_string k @ r \<noteq> CHR ''}'' # s"
  by (simp add: quote_string_def)

lemma plain_cancel:
  shows "number_text num \<Longrightarrow> plain num a @ r = plain num b @ s \<Longrightarrow> stops r \<Longrightarrow> stops s
      \<Longrightarrow> a = b \<and> r = s"
    and "number_text num \<Longrightarrow> plain_items num xs @ r = plain_items num ys @ s \<Longrightarrow> xs = ys \<and> r = s"
    and "number_text num \<Longrightarrow> plain_members num kvs @ r = plain_members num lvs @ s
      \<Longrightarrow> kvs = lvs \<and> r = s"
proof (induction num a and num xs and num kvs arbitrary: b r s and ys r s and lvs r s
    rule: plain_plain_items_plain_members.induct)
  case (1 num)
  from plain_kind [OF 1(1,2)] have "b = JNull" by (cases b) simp_all
  with 1 show ?case by simp
next
  case (2 num b')
  from plain_kind [OF 2(1,2)] obtain x where b: "b = JBool x" by (cases b) simp_all
  with 2 show ?case by (cases b'; cases x) simp_all
next
  case (3 num n)
  from plain_kind [OF 3(1,2)] obtain x where b: "b = JNum x" by (cases b) simp_all
  with 3 number_cancel [OF 3(1), of n r x s] show ?case by simp
next
  case (4 num t)
  from plain_kind [OF 4(1,2)] obtain x where b: "b = JStr x" by (cases b) simp_all
  with 4 quote_string_cancel [of t r x s] show ?case by simp
next
  case (5 num xs)
  from plain_kind [OF 5(2,3)] obtain x where b: "b = JArr x" by (cases b) simp_all
  with 5(1) [OF 5(2), of r x s] 5(3) show ?case by simp
next
  case (6 num kvs)
  from plain_kind [OF 6(2,3)] obtain x where b: "b = JObj x" by (cases b) simp_all
  with 6(1) [OF 6(2), of r x s] 6(3) show ?case by simp
next
  case (7 num)
  have "plain num y @ t \<noteq> CHR '']'' # r" for y t
    using plain_not_closing(1) [OF 7(1)] .
  from this [symmetric] 7(2) show ?case by (cases ys rule: remdups_adj.cases) simp_all
next
  case (8 num x)
  have no: "plain num x @ t \<noteq> CHR '']'' # u" for t u
    using plain_not_closing(1) [OF 8(2)] .
  have IH: "plain num x @ t = plain num b @ u \<Longrightarrow> stops t \<Longrightarrow> stops u \<Longrightarrow> x = b \<and> t = u" for b t u
    using 8(1) [OF 8(2)] .
  show ?case
  proof (cases ys rule: remdups_adj.cases)
    case 1
    with 8(3) no show ?thesis by simp
  next
    case (2 y)
    with 8(3) IH [of "'']'' @ r" y "'']'' @ s"] show ?thesis by (simp add: stops_def)
  next
    case (3 y z zs)
    with 8(3) IH [of "'']'' @ r" y "'','' @ plain_items num (z # zs) @ s"] show ?thesis
      by (simp add: stops_def)
  qed
next
  case (9 num x x' xs')
  have no: "plain num x @ t \<noteq> CHR '']'' # u" for t u
    using plain_not_closing(1) [OF 9(3)] .
  have IH: "plain num x @ t = plain num b @ u \<Longrightarrow> stops t \<Longrightarrow> stops u \<Longrightarrow> x = b \<and> t = u" for b t u
    using 9(1) [OF 9(3)] .
  show ?case
  proof (cases ys rule: remdups_adj.cases)
    case 1
    with 9(4) no show ?thesis by simp
  next
    case (2 y)
    with 9(4) IH [of "'','' @ plain_items num (x' # xs') @ r" y "'']'' @ s"] show ?thesis
      by (simp add: stops_def)
  next
    case (3 y z zs)
    with 9(4) IH [of "'','' @ plain_items num (x' # xs') @ r" y "'','' @ plain_items num (z # zs) @ s"]
    have "x = y" "plain_items num (x' # xs') @ r = plain_items num (z # zs) @ s"
      by (simp_all add: stops_def)
    moreover from 9(2) [OF 9(3) this(2)] have "x' # xs' = z # zs \<and> r = s" .
    ultimately show ?thesis using 3 by simp
  qed
next
  case (10 num)
  then show ?case by (cases lvs rule: remdups_adj.cases) (auto simp: quote_string_def)
next
  case (11 num k v)
  have no: "quote_string k @ t \<noteq> CHR ''}'' # u" for t u
    by (rule quote_string_not_closing)
  have IH: "plain num v @ t = plain num b @ u \<Longrightarrow> stops t \<Longrightarrow> stops u \<Longrightarrow> v = b \<and> t = u" for b t u
    using 11(1) [OF 11(2)] .
  show ?case
  proof (cases lvs rule: remdups_adj.cases)
    case 1
    with 11(3) no show ?thesis by simp
  next
    case (2 m)
    obtain k' w where m: "m = (k', w)" by (cases m)
    with 11(3) 2 have "k = k'" "plain num v @ ''}'' @ r = plain num w @ ''}'' @ s"
      using quote_string_cancel [of k "CHR '':'' # plain num v @ ''}'' @ r" k'] by simp_all
    with IH [of "''}'' @ r" w "''}'' @ s"] 2 m show ?thesis by (simp add: stops_def)
  next
    case (3 m m' ms)
    obtain k' w where m: "m = (k', w)" by (cases m)
    with 11(3) 3 have "plain num v @ ''}'' @ r = plain num w @ '','' @ plain_members num (m' # ms) @ s"
      using quote_string_cancel [of k "CHR '':'' # plain num v @ ''}'' @ r" k'] by simp
    with IH [of "''}'' @ r" w "'','' @ plain_members num (m' # ms) @ s"] show ?thesis
      by (simp add: stops_def)
  qed
next
  case (12 num k v n ns)
  let ?t = "'','' @ plain_members num (n # ns) @ r"
  have no: "quote_string k @ t \<noteq> CHR ''}'' # u" for t u
    by (rule quote_string_not_closing)
  have IH: "plain num v @ t = plain num b @ u \<Longrightarrow> stops t \<Longrightarrow> stops u \<Longrightarrow> v = b \<and> t = u" for b t u
    using 12(1) [OF 12(3)] .
  show ?case
  proof (cases lvs rule: remdups_adj.cases)
    case 1
    with 12(4) no show ?thesis by simp
  next
    case (2 m)
    obtain k' w where m: "m = (k', w)" by (cases m)
    with 12(4) 2 have "plain num v @ ?t = plain num w @ ''}'' @ s"
      using quote_string_cancel [of k "CHR '':'' # plain num v @ ?t" k'] by simp
    with IH [of ?t w "''}'' @ s"] show ?thesis by (simp add: stops_def)
  next
    case (3 m m' ms)
    obtain k' w where m: "m = (k', w)" by (cases m)
    with 12(4) 3 have "k = k'" "plain num v @ ?t = plain num w @ '','' @ plain_members num (m' # ms) @ s"
      using quote_string_cancel [of k "CHR '':'' # plain num v @ ?t" k'] by simp_all
    moreover from this(2) IH [of ?t w "'','' @ plain_members num (m' # ms) @ s"]
    have "v = w" "plain_members num (n # ns) @ r = plain_members num (m' # ms) @ s"
      by (simp_all add: stops_def)
    moreover from 12(2) [OF 12(3) this(2)] have "n # ns = m' # ms \<and> r = s" .
    ultimately show ?thesis using 3 m by simp
  qed
qed

section \<open>Members in any order\<close>

text \<open>Two lists of members with distinct keys that hold the same members sort to the same list.\<close>

lemma sorted_keys_unique:
  assumes "sorted_wrt (\<lambda>a b. key_cmp fst code_unit_cmp a b \<le> 0) xs"
    and "sorted_wrt (\<lambda>a b. key_cmp fst code_unit_cmp a b \<le> 0) ys"
    and "distinct (map fst xs)" and "mset xs = mset ys"
  shows "xs = ys"
  using assms
proof (induction xs arbitrary: ys)
  case (Cons x xs)
  then obtain y zs where ys: "ys = y # zs" by (cases ys) auto
  have "x \<in> set ys" "y \<in> set (x # xs)"
    using Cons.prems(4) ys by (metis list.set_intros(1) mset_eq_setD)+
  then have "code_unit_cmp (fst x) (fst y) \<le> 0" "code_unit_cmp (fst y) (fst x) \<le> 0"
    using Cons.prems(1,2) ys by (auto simp: key_cmp_def code_unit_cmp_refl)
  then have "fst x = fst y"
    using code_unit_cmp_anti [of "fst x" "fst y"] by (simp add: code_unit_cmp_eq0 [symmetric])
  then have "x = y"
    using \<open>y \<in> set (x # xs)\<close> Cons.prems(3) by force
  with Cons ys show ?case by simp
qed simp

lemma sort_members_unique:
  assumes "mset kvs = mset lvs" and "distinct (map fst kvs)"
  shows "sort_members kvs = sort_members lvs"
proof (rule sorted_keys_unique)
  show "mset (sort_members kvs) = mset (sort_members lvs)"
    using assms(1) by (simp add: sort_members_def)
  have "mset (map fst (sort_members kvs)) = mset (map fst kvs)"
    by (simp add: sort_members_def)
  then show "distinct (map fst (sort_members kvs))"
    using assms(2) by (metis mset_eq_imp_distinct_iff)
qed (auto simp: sort_members_def
  intro: comparator.sorted_js_sort comparator_key code_unit.comparator_axioms)

text \<open>Hashing is independent of the insertion order of members: two objects holding the
  same members under distinct keys have the same canonical text, hence the same digest.\<close>

theorem canonical_text_order_free:
  assumes "mset kvs = mset lvs" and "distinct (map fst kvs)"
  shows "canonicalJsonSha256 sha num (JObj kvs) = canonicalJsonSha256 sha num (JObj lvs)"
proof -
  have "list_all P kvs \<longleftrightarrow> list_all P lvs" for P
    using mset_eq_setD [OF assms(1)] by (simp add: list.pred_set)
  then show ?thesis
    using sort_members_unique [OF assms]
    by (simp only: canonicalJsonSha256_def canonicalJson_def keys_valid.simps encode.simps)
qed

theorem canonical_text_order_free_witness:
  "canonicalJsonSha256 id (\<lambda>n. ''1'') (JObj [(''b'', JNull), (''a'', JNum 1)])
     = canonicalJsonSha256 id (\<lambda>n. ''1'') (JObj [(''a'', JNum 1), (''b'', JNull)])"
  by (rule canonical_text_order_free) simp_all

text \<open>C10. Canonical text identifies its value: when numbers print as documented (distinct
  numbers print differently, in digits, sign, point and exponent), two values have the same text
  exactly when they are equal once the members of every object are put in key order.\<close>

theorem canonical_text_injective:
  assumes "number_text num"
  shows "encode num a = encode num b \<longleftrightarrow> canon a = canon b"
  using plain_cancel(1) [OF assms, of "canon a" "[]" "canon b" "[]"]
  by (auto simp: encode_plain stops_def)

text \<open>A way of printing numbers that satisfies the hypothesis.\<close>

definition fraction_text :: "rat \<Rightarrow> string" where
  "fraction_text q =
     (if fst (quotient_of q) < 0 then CHR ''-'' else CHR ''+'')
       # replicate (nat \<bar>fst (quotient_of q)\<bar>) CHR ''1'' @ CHR ''.''
       # replicate (nat (snd (quotient_of q))) CHR ''1''"

lemma fraction_text_number_text: "number_text fraction_text"
proof -
  have "inj fraction_text"
  proof (rule injI)
    fix p q assume eq: "fraction_text p = fraction_text q"
    obtain a b c d where pq: "quotient_of p = (a, b)" "quotient_of q = (c, d)" by fastforce
    have pos: "b > 0" "d > 0" using pq quotient_of_denom_pos by blast+
    from eq pq have "replicate (nat \<bar>a\<bar>) CHR ''1'' @ CHR ''.'' # replicate (nat b) CHR ''1''
        = replicate (nat \<bar>c\<bar>) CHR ''1'' @ CHR ''.'' # replicate (nat d) CHR ''1''"
      by (simp add: fraction_text_def)
    then have "replicate (nat \<bar>a\<bar>) CHR ''1'' = replicate (nat \<bar>c\<bar>) CHR ''1''
        \<and> CHR ''.'' # replicate (nat b) CHR ''1'' = CHR ''.'' # replicate (nat d) CHR ''1''"
      by (intro append_span [of "\<lambda>e. e = CHR ''1''"]) (simp_all add: list.pred_set)
    then have "nat \<bar>a\<bar> = nat \<bar>c\<bar>" "nat b = nat d"
      by (metis length_replicate, metis length_replicate list.inject)
    moreover have "a < 0 \<longleftrightarrow> c < 0"
      using eq pq by (simp add: fraction_text_def split: if_splits)
    ultimately have "quotient_of p = quotient_of q" using pq pos by auto
    then show "p = q" by (rule quotient_of_inject)
  qed
  then show ?thesis
    by (auto simp: number_text_def fraction_text_def number_char_def list.pred_set)
qed

theorem canonical_text_injective_witness:
  "encode fraction_text (JArr [JObj [(''b'', JNull), (''a'', JNum 1)]])
     = encode fraction_text (JArr [JObj [(''a'', JNum 1), (''b'', JNull)]])"
  by (subst canonical_text_injective [OF fraction_text_number_text])
    (simp add: sort_members_def key_cmp_def)

end
