(* ===== verification/Reconciliation.thy ===== *)
theory Reconciliation
  imports Lifecycle_Invariant Canonical_Json
begin

text \<open>
  The planner that repairs contradictory lifecycles
  (src/lib/lifecycleContradictionReconciliation.ts): per job it authorises one transition from the
  recorded evidence, or refuses with the reasons. The digest \<open>sha\<close>, the printing of numbers
  \<open>num\<close>, the date reader and the collation are parameters.
\<close>

section \<open>Evidence and plans\<close>

datatype reconciliation_action =
  ExperienceQueue | AimQueue | LegacyLocalDismissal | ManualImportTailoring | AimFloorDismissal

record reconciliation_spec =
  rs_id :: string
  rs_label :: string
  rs_action :: reconciliation_action

record current_fields =
  cf_id :: string
  cf_title :: string
  cf_company :: string
  cf_location :: "string option"
  cf_source :: "string option"
  cf_status :: string
  cf_scoringStatus :: string
  cf_scoreAttempts :: int
  cf_scoreError :: "string option"
  cf_fitScore :: "int option"
  cf_fitCategory :: string
  cf_fitRationale :: "string option"
  cf_passReason :: "string option"
  cf_tailoringStaged :: bool
  cf_aimFitScore :: "int option"
  cf_reqFitScore :: "int option"
  cf_reqFitRationale :: "string option"
  cf_batchJobId :: "string option"
  cf_jdBatchId :: "string option"
  cf_afBatchId :: "string option"
  cf_experienceStatus :: string
  cf_updatedAt :: string

record rec_score_event =
  rv_id :: string
  rv_evaluationType :: string
  rv_passed :: bool
  rv_aimFitScore :: "int option"
  rv_experienceFitScore :: "int option"
  rv_decisionCode :: "string option"
  rv_lifecycleProjection :: "string option"
  rv_staleAt :: "string option"
  rv_createdAt :: string

record rec_authority =
  ra_mode :: string
  ra_aimState :: string
  ra_experienceState :: string
  ra_currentAim :: "rec_score_event option"
  ra_currentExperience :: "rec_score_event option"
  ra_currentLegacy :: "rec_score_event option"
  ra_staleAim :: "rec_score_event option"
  ra_staleExperience :: "rec_score_event option"
  ra_staleReason :: "string option"

record user_event =
  ue_id :: string
  ue_eventType :: string
  ue_occurredAt :: string
  ue_details :: json

type_synonym target = "(string \<times> json) list" \<comment> \<open>columns and their new values\<close>

record rec_evidence =
  ev_current :: current_fields
  ev_inputFingerprint :: string
  ev_userEvents :: "user_event list"
  ev_rawScoreEventIds :: "string list"
  ev_leasedBatchItemIds :: "string list"
  ev_scoreAuthority :: rec_authority
  ev_manualImportTarget :: "target option"

datatype plan_disposition = Ready | Noop | Blocked | Missing

datatype plan_authority_kind = ByScoreEvent | ByLegacyLocalMachine | ByManualImportPolicy | ByNone

record plan_authority =
  pa_kind :: plan_authority_kind
  pa_eventId :: "string option"
  pa_reason :: string

record plan_evidence =
  pe_userEventIds :: "string list"
  pe_rawScoreEventIds :: "string list"
  pe_leasedBatchItemIds :: "string list"
  pe_aimAuthorityState :: string
  pe_experienceAuthorityState :: string

record rec_plan =
  rp_id :: string
  rp_label :: string
  rp_requestedAction :: reconciliation_action
  rp_disposition :: plan_disposition
  rp_authority :: plan_authority
  rp_blockers :: "string list"
  rp_current :: "current_fields option"
  rp_target :: "target option"
  rp_changedFields :: "string list"
  rp_guardHash :: "string option"
  rp_evidence :: "plan_evidence option"

section \<open>JSON of the evidence\<close>

definition json_text :: "string option \<Rightarrow> json" where
  "json_text v = (case v of None \<Rightarrow> JNull | Some s \<Rightarrow> JStr s)"

definition json_int :: "int option \<Rightarrow> json" where
  "json_int v = (case v of None \<Rightarrow> JNull | Some n \<Rightarrow> JNum (of_int n))"

lemma json_text_eq [simp]:
  "json_text v = JNull \<longleftrightarrow> v = None" "json_text v = json_text w \<longleftrightarrow> v = w"
  "json_text None = JNull" "json_text (Some s) = JStr s"
  by (auto simp: json_text_def split: option.splits)

lemma json_int_eq [simp]:
  "json_int v = JNull \<longleftrightarrow> v = None" "json_int v = json_int w \<longleftrightarrow> v = w"
  "json_int None = JNull" "json_int (Some n) = JNum (of_int n)"
  by (auto simp: json_int_def split: option.splits)

definition fields_json :: "current_fields \<Rightarrow> (string \<times> json) list" where
  "fields_json c =
     [(''id'', JStr (cf_id c)), (''title'', JStr (cf_title c)), (''company'', JStr (cf_company c)),
      (''location'', json_text (cf_location c)), (''source'', json_text (cf_source c)),
      (''status'', JStr (cf_status c)), (''scoringStatus'', JStr (cf_scoringStatus c)),
      (''scoreAttempts'', JNum (of_int (cf_scoreAttempts c))),
      (''scoreError'', json_text (cf_scoreError c)), (''fitScore'', json_int (cf_fitScore c)),
      (''fitCategory'', JStr (cf_fitCategory c)), (''fitRationale'', json_text (cf_fitRationale c)),
      (''passReason'', json_text (cf_passReason c)),
      (''tailoringStaged'', JBool (cf_tailoringStaged c)),
      (''aimFitScore'', json_int (cf_aimFitScore c)), (''reqFitScore'', json_int (cf_reqFitScore c)),
      (''reqFitRationale'', json_text (cf_reqFitRationale c)),
      (''batchJobId'', json_text (cf_batchJobId c)), (''jdBatchId'', json_text (cf_jdBatchId c)),
      (''afBatchId'', json_text (cf_afBatchId c)),
      (''experienceStatus'', JStr (cf_experienceStatus c)), (''updatedAt'', JStr (cf_updatedAt c))]"

definition score_event_json :: "rec_score_event option \<Rightarrow> json" where
  "score_event_json v = (case v of None \<Rightarrow> JNull | Some e \<Rightarrow> JObj
     [(''id'', JStr (rv_id e)), (''evaluationType'', JStr (rv_evaluationType e)),
      (''passed'', JBool (rv_passed e)), (''aimFitScore'', json_int (rv_aimFitScore e)),
      (''experienceFitScore'', json_int (rv_experienceFitScore e)),
      (''decisionCode'', json_text (rv_decisionCode e)),
      (''lifecycleProjection'', json_text (rv_lifecycleProjection e)),
      (''staleAt'', json_text (rv_staleAt e)), (''createdAt'', JStr (rv_createdAt e))])"

definition authority_json :: "rec_authority \<Rightarrow> json" where
  "authority_json a = JObj
     [(''mode'', JStr (ra_mode a)), (''aimState'', JStr (ra_aimState a)),
      (''experienceState'', JStr (ra_experienceState a)),
      (''currentAim'', score_event_json (ra_currentAim a)),
      (''currentExperience'', score_event_json (ra_currentExperience a)),
      (''currentLegacy'', score_event_json (ra_currentLegacy a)),
      (''staleAim'', score_event_json (ra_staleAim a)),
      (''staleExperience'', score_event_json (ra_staleExperience a)),
      (''staleReason'', json_text (ra_staleReason a))]"

definition user_event_json :: "user_event \<Rightarrow> json" where
  "user_event_json e = JObj
     [(''id'', JStr (ue_id e)), (''eventType'', JStr (ue_eventType e)),
      (''occurredAt'', JStr (ue_occurredAt e)), (''details'', ue_details e)]"

definition evidence_json :: "rec_evidence \<Rightarrow> json" where
  "evidence_json ev = JObj
     [(''cohort'', JStr ''contradictory-lifecycle-v1''),
      (''current'', JObj (fields_json (ev_current ev))),
      (''inputFingerprint'', JStr (ev_inputFingerprint ev)),
      (''userEvents'', JArr (map user_event_json (ev_userEvents ev))),
      (''rawScoreEventIds'', JArr (map JStr (js_sort code_unit_cmp (ev_rawScoreEventIds ev)))),
      (''leasedBatchItemIds'', JArr (map JStr (js_sort code_unit_cmp (ev_leasedBatchItemIds ev)))),
      (''scoreAuthority'', authority_json (ev_scoreAuthority ev)),
      (''manualImportTarget'',
        case ev_manualImportTarget ev of None \<Rightarrow> JNull | Some t \<Rightarrow> JObj t)]"

definition lifecycleReconciliationGuardHash ::
  "(string \<Rightarrow> string) \<Rightarrow> (rat \<Rightarrow> string) \<Rightarrow> rec_evidence \<Rightarrow> text_error + string" where
  "lifecycleReconciliationGuardHash sha num ev = canonicalJsonSha256 sha num (evidence_json ev)"

section \<open>Plans\<close>

definition MACHINE_LOCAL_REJECTION_PREFIXES :: "string list" where
  "MACHINE_LOCAL_REJECTION_PREFIXES =
     [''Locally triaged out:'', ''Available job information is not in English'',
      ''Job location is outside'']"

definition isMachineLocalRejection :: "string option \<Rightarrow> bool" where
  "isMachineLocalRejection reason =
     (case reason of None \<Rightarrow> False
      | Some r \<Rightarrow> r \<noteq> [] \<and> (\<exists>p \<in> set MACHINE_LOCAL_REJECTION_PREFIXES. starts_with r p))"

text \<open>\<open>current[key]\<close>: a column that is not among the current fields is \<open>undefined\<close> and
  never equals a value of the target.\<close>

definition changedFields :: "current_fields \<Rightarrow> target \<Rightarrow> string list" where
  "changedFields c t =
     js_sort code_unit_cmp (map fst (filter (\<lambda>(k, v). map_of (fields_json c) k \<noteq> Some v) t))"

definition plan_of ::
  "string \<Rightarrow> reconciliation_spec \<Rightarrow> rec_evidence \<Rightarrow> plan_disposition \<Rightarrow> plan_authority \<Rightarrow> string list
     \<Rightarrow> target option \<Rightarrow> string list \<Rightarrow> rec_plan" where
  "plan_of hash spec ev d a blockers t changes =
     \<lparr>rp_id = rs_id spec, rp_label = rs_label spec, rp_requestedAction = rs_action spec,
      rp_disposition = d, rp_authority = a, rp_blockers = blockers,
      rp_current = Some (ev_current ev), rp_target = t, rp_changedFields = changes,
      rp_guardHash = Some hash,
      rp_evidence = Some \<lparr>pe_userEventIds = map ue_id (ev_userEvents ev),
        pe_rawScoreEventIds = ev_rawScoreEventIds ev,
        pe_leasedBatchItemIds = ev_leasedBatchItemIds ev,
        pe_aimAuthorityState = ra_aimState (ev_scoreAuthority ev),
        pe_experienceAuthorityState = ra_experienceState (ev_scoreAuthority ev)\<rparr>\<rparr>"

definition blockedPlan :: "string \<Rightarrow> reconciliation_spec \<Rightarrow> rec_evidence \<Rightarrow> string list \<Rightarrow> rec_plan" where
  "blockedPlan hash spec ev blockers =
     plan_of hash spec ev Blocked
       \<lparr>pa_kind = ByNone, pa_eventId = None,
        pa_reason = ''Evidence does not authorize the requested transition.''\<rparr> blockers None []"

definition authorizedPlan ::
  "string \<Rightarrow> reconciliation_spec \<Rightarrow> rec_evidence \<Rightarrow> plan_authority \<Rightarrow> target \<Rightarrow> rec_plan" where
  "authorizedPlan hash spec ev a t =
     (let changes = changedFields (ev_current ev) t in
      plan_of hash spec ev (if changes = [] then Noop else Ready) a [] (Some t) changes)"

definition missingPlan :: "reconciliation_spec \<Rightarrow> rec_plan" where
  "missingPlan spec =
     \<lparr>rp_id = rs_id spec, rp_label = rs_label spec, rp_requestedAction = rs_action spec,
      rp_disposition = Missing,
      rp_authority = \<lparr>pa_kind = ByNone, pa_eventId = None,
        pa_reason = ''The deterministic cohort ID was not found.''\<rparr>,
      rp_blockers = [''job_not_found''], rp_current = None, rp_target = None,
      rp_changedFields = [], rp_guardHash = None, rp_evidence = None\<rparr>"

definition lifecycle_event_of :: "user_event \<Rightarrow> lifecycle_event" where
  "lifecycle_event_of e = \<lparr>le_id = ue_id e, le_eventType = ue_eventType e,
     le_occurredAt = OccText (ue_occurredAt e), le_details = Some (ue_details e)\<rparr>"

definition common_blockers ::
  "(string \<Rightarrow> ms option) \<Rightarrow> string cmp \<Rightarrow> reconciliation_spec \<Rightarrow> rec_evidence \<Rightarrow> string list" where
  "common_blockers date_of loc spec ev =
     (let c = ev_current ev;
          latest = latestUserLifecycleIntent date_of loc (map lifecycle_event_of (ev_userEvents ev))
      in (if cf_id c \<noteq> rs_id spec then [''cohort_identity_mismatch''] else [])
         @ (if ui_kind latest = KFinal
            then [if finalUserLifecycleIntentMatchesState latest (cf_status c) (cf_tailoringStaged c)
                  then ''explicit_user_event_veto'' else ''explicit_user_event_state_mismatch'']
            else [])
         @ (if ev_leasedBatchItemIds ev \<noteq> [] \<or> truthy (cf_batchJobId c) \<or> truthy (cf_jdBatchId c)
               \<or> truthy (cf_afBatchId c)
            then [''active_or_ambiguous_lease''] else []))"

text \<open>The Aim event proves the floor: it passed, has a score, and the score meets \<open>ok\<close>.\<close>

definition aim_proves :: "(int \<Rightarrow> bool) \<Rightarrow> rec_score_event \<Rightarrow> bool" where
  "aim_proves ok aim \<longleftrightarrow>
     rv_passed aim \<and> (case rv_aimFitScore aim of None \<Rightarrow> False | Some n \<Rightarrow> ok n)"

definition aim_blockers :: "(int \<Rightarrow> bool) \<Rightarrow> string \<Rightarrow> rec_evidence \<Rightarrow> string list" where
  "aim_blockers ok code ev =
     (case ra_currentAim (ev_scoreAuthority ev) of
        None \<Rightarrow> [''no_current_valid_aim_event'']
      | Some aim \<Rightarrow> if aim_proves ok aim then [] else [code])
     @ (if ra_currentExperience (ev_scoreAuthority ev) \<noteq> None
        then [''current_experience_event_controls''] else [])"

definition aim_queue_blockers :: "rec_evidence \<Rightarrow> string list" where
  "aim_queue_blockers ev =
     (let a = ev_scoreAuthority ev; c = ev_current ev in
      (if ra_currentAim a \<noteq> None \<or> ra_currentExperience a \<noteq> None \<or> ra_currentLegacy a \<noteq> None
       then [''current_score_event_controls''] else [])
      @ (if \<not> (ra_staleAim a \<noteq> None \<or> ra_staleExperience a \<noteq> None)
         then [''stale_score_authority_not_proven''] else [])
      @ (if cf_scoringStatus c \<noteq> ''scored'' \<or> cf_fitScore c = None \<or> \<not> truthy (cf_fitRationale c)
            \<or> cf_fitCategory c = ''unscored'' \<or> cf_passReason c \<noteq> None
         then [''legacy_local_pass_not_proven''] else []))"

definition experience_queue_target :: "int option \<Rightarrow> target" where
  "experience_queue_target score =
     [(''status'', JStr ''pending_af''), (''scoringStatus'', JStr ''scored''),
      (''tailoringStaged'', JBool False), (''aimFitScore'', json_int score),
      (''reqFitScore'', JNull), (''reqFitRationale'', JNull), (''experienceStatus'', JStr ''queued'')]"

definition event_authority :: "rec_score_event option \<Rightarrow> string \<Rightarrow> plan_authority" where
  "event_authority aim reason =
     \<lparr>pa_kind = ByScoreEvent, pa_eventId = map_option rv_id aim, pa_reason = reason\<rparr>"

definition planLifecycleReconciliation ::
  "(string \<Rightarrow> string) \<Rightarrow> (rat \<Rightarrow> string) \<Rightarrow> (string \<Rightarrow> ms option) \<Rightarrow> string cmp \<Rightarrow> reconciliation_spec
     \<Rightarrow> rec_evidence option \<Rightarrow> text_error + rec_plan" where
  "planLifecycleReconciliation sha num date_of loc spec evidence =
     (case evidence of None \<Rightarrow> Inr (missingPlan spec)
      | Some ev \<Rightarrow>
      (case lifecycleReconciliationGuardHash sha num ev of Inl e \<Rightarrow> Inl e
      | Inr hash \<Rightarrow> Inr (
      let common = common_blockers date_of loc spec ev;
          aim = ra_currentAim (ev_scoreAuthority ev)
      in if common \<noteq> [] then blockedPlan hash spec ev common
      else case rs_action spec of
        ExperienceQueue \<Rightarrow>
          (let blockers = aim_blockers (\<lambda>n. AIM_EXPERIENCE_QUEUE_MINIMUM_SCORE \<le> n)
                 ''aim_event_does_not_authorize_experience_queue'' ev
           in if blockers \<noteq> [] then blockedPlan hash spec ev blockers
              else authorizedPlan hash spec ev
                (event_authority aim
                  ''Current non-stale Aim event passes the 60-point queue floor.'')
                (experience_queue_target (Option.bind aim rv_aimFitScore)))
      | AimQueue \<Rightarrow>
          (let blockers = aim_queue_blockers ev
           in if blockers \<noteq> [] then blockedPlan hash spec ev blockers
              else authorizedPlan hash spec ev
                \<lparr>pa_kind = ByLegacyLocalMachine, pa_eventId = None,
                 pa_reason = ''No current valid score event exists; stale score authority plus stored local score and rationale prove the machine passed local triage.''\<rparr>
                (experience_queue_target None))
      | LegacyLocalDismissal \<Rightarrow>
          (let blockers = (if ev_rawScoreEventIds ev \<noteq> []
                 then [''score_event_controls_instead_of_legacy_local_state''] else [])
               @ (if cf_scoringStatus (ev_current ev) \<noteq> ''skipped''
                     \<or> \<not> isMachineLocalRejection (cf_passReason (ev_current ev))
                  then [''legacy_local_rejection_not_proven''] else [])
           in if blockers \<noteq> [] then blockedPlan hash spec ev blockers
              else authorizedPlan hash spec ev
                \<lparr>pa_kind = ByLegacyLocalMachine, pa_eventId = None,
                 pa_reason = ''No score or user event exists; skipped state plus a recognized stored machine reason proves rejection.''\<rparr>
                [(''status'', JStr ''dismissed'')])
      | ManualImportTailoring \<Rightarrow>
          (let blockers = (if cf_source (ev_current ev) \<noteq> Some ''Manual Import''
                 then [''not_manual_import''] else [])
               @ (if ev_manualImportTarget ev = None
                  then [''manual_import_normalization_unresolved''] else [])
           in if blockers \<noteq> [] then blockedPlan hash spec ev blockers
              else authorizedPlan hash spec ev
                \<lparr>pa_kind = ByManualImportPolicy, pa_eventId = None,
                 pa_reason = ''Manual Import is user-selected work; current policy protects Inbox and Tailoring lifecycle.''\<rparr>
                (the (ev_manualImportTarget ev)))
      | AimFloorDismissal \<Rightarrow>
          (let blockers = aim_blockers (\<lambda>n. n < AIM_EXPERIENCE_QUEUE_MINIMUM_SCORE)
                 ''aim_event_does_not_prove_floor_dismissal'' ev
           in if blockers \<noteq> [] then blockedPlan hash spec ev blockers
              else authorizedPlan hash spec ev
                (event_authority aim
                  ''Current non-stale Aim event is below the 60-point Experience-queue floor.'')
                [(''status'', JStr ''dismissed'')]))))"

section \<open>Applying a plan\<close>

text \<open>Writing a target (src/scripts/reconcile_lifecycle_contradictions.ts). The client rejects a
  value that does not fit the column, and a column the update does not know.\<close>

fun as_text :: "json \<Rightarrow> string option option" where
  "as_text JNull = Some None"
| "as_text (JStr s) = Some (Some s)"
| "as_text _ = None"

fun as_string :: "json \<Rightarrow> string option" where
  "as_string (JStr s) = Some s"
| "as_string _ = None"

fun as_bool :: "json \<Rightarrow> bool option" where
  "as_bool (JBool b) = Some b"
| "as_bool _ = None"

fun as_int :: "json \<Rightarrow> int option option" where
  "as_int JNull = Some None"
| "as_int (JNum n) = (if of_int \<lfloor>n\<rfloor> = n then Some (Some \<lfloor>n\<rfloor>) else None)"
| "as_int _ = None"

definition set_column :: "string \<Rightarrow> json \<Rightarrow> current_fields \<Rightarrow> current_fields option" where
  "set_column k v c =
     (if k = ''title'' then map_option (\<lambda>x. c\<lparr>cf_title := x\<rparr>) (as_string v)
      else if k = ''company'' then map_option (\<lambda>x. c\<lparr>cf_company := x\<rparr>) (as_string v)
      else if k = ''location'' then map_option (\<lambda>x. c\<lparr>cf_location := x\<rparr>) (as_text v)
      else if k = ''status'' then map_option (\<lambda>x. c\<lparr>cf_status := x\<rparr>) (as_string v)
      else if k = ''scoringStatus'' then map_option (\<lambda>x. c\<lparr>cf_scoringStatus := x\<rparr>) (as_string v)
      else if k = ''scoreAttempts''
      then Option.bind (as_int v) (map_option (\<lambda>x. c\<lparr>cf_scoreAttempts := x\<rparr>))
      else if k = ''scoreError'' then map_option (\<lambda>x. c\<lparr>cf_scoreError := x\<rparr>) (as_text v)
      else if k = ''fitScore'' then map_option (\<lambda>x. c\<lparr>cf_fitScore := x\<rparr>) (as_int v)
      else if k = ''fitCategory'' then map_option (\<lambda>x. c\<lparr>cf_fitCategory := x\<rparr>) (as_string v)
      else if k = ''fitRationale'' then map_option (\<lambda>x. c\<lparr>cf_fitRationale := x\<rparr>) (as_text v)
      else if k = ''passReason'' then map_option (\<lambda>x. c\<lparr>cf_passReason := x\<rparr>) (as_text v)
      else if k = ''tailoringStaged'' then map_option (\<lambda>x. c\<lparr>cf_tailoringStaged := x\<rparr>) (as_bool v)
      else if k = ''aimFitScore'' then map_option (\<lambda>x. c\<lparr>cf_aimFitScore := x\<rparr>) (as_int v)
      else if k = ''reqFitScore'' then map_option (\<lambda>x. c\<lparr>cf_reqFitScore := x\<rparr>) (as_int v)
      else if k = ''reqFitRationale'' then map_option (\<lambda>x. c\<lparr>cf_reqFitRationale := x\<rparr>) (as_text v)
      else if k = ''batchJobId'' then map_option (\<lambda>x. c\<lparr>cf_batchJobId := x\<rparr>) (as_text v)
      else if k = ''jdBatchId'' then map_option (\<lambda>x. c\<lparr>cf_jdBatchId := x\<rparr>) (as_text v)
      else if k = ''afBatchId'' then map_option (\<lambda>x. c\<lparr>cf_afBatchId := x\<rparr>) (as_text v)
      else if k = ''experienceStatus'' then map_option (\<lambda>x. c\<lparr>cf_experienceStatus := x\<rparr>) (as_string v)
      else None)"

fun apply_target :: "target \<Rightarrow> current_fields \<Rightarrow> current_fields option" where
  "apply_target [] c = Some c"
| "apply_target ((k, v) # t) c = Option.bind (set_column k v c) (apply_target t)"

text \<open>The row as the queue filters see it. \<open>ev_userEvents\<close> holds all events of the four user
  types, and the filters look at no other.\<close>

definition job_row_of :: "rec_evidence \<Rightarrow> job_row" where
  "job_row_of ev =
     (let c = ev_current ev in
      \<lparr>j_id = cf_id c, j_status = cf_status c, j_scoringStatus = cf_scoringStatus c,
       j_tailoringStaged = cf_tailoringStaged c, j_jdBatchId = cf_jdBatchId c,
       j_batchJobId = cf_batchJobId c, j_afBatchId = cf_afBatchId c,
       j_scoreAttempts = cf_scoreAttempts c, j_scoreError = cf_scoreError c,
       j_passReason = cf_passReason c, j_fitCategory = cf_fitCategory c,
       j_aimFitScore = cf_aimFitScore c, j_reqFitScore = cf_reqFitScore c,
       j_eventTypes = map ue_eventType (ev_userEvents ev)\<rparr>)"

datatype apply_result = Applied | NotApplied string

datatype apply_error = PlanFailed text_error | UpdateRejected | NotExporterEligible

type_synonym evidence_db = "string \<Rightarrow> rec_evidence option"
type_synonym lifecycle_journal = "(string \<times> reconciliation_action \<times> string) list"

text \<open>One transaction: an error rolls it back, so the database is returned only on success. \<open>now\<close>
  is the new value of \<open>updatedAt\<close>; the journal holds the keys of the recorded
  \<open>lifecycle_reconciled\<close> events.\<close>

definition applyOne ::
  "(string \<Rightarrow> string) \<Rightarrow> (rat \<Rightarrow> string) \<Rightarrow> (string \<Rightarrow> ms option) \<Rightarrow> string cmp
     \<Rightarrow> reconciliation_spec list \<Rightarrow> string \<Rightarrow> rec_plan \<Rightarrow> evidence_db \<times> lifecycle_journal
     \<Rightarrow> apply_error + (evidence_db \<times> lifecycle_journal) \<times> apply_result" where
  "applyOne sha num date_of loc cohort now initial st =
     (let (db, journal) = st in
      case db (rp_id initial) of
        None \<Rightarrow> Inr (st, NotApplied ''job_missing_after_preview'')
      | Some ev \<Rightarrow>
      (case find (\<lambda>s. rs_id s = rp_id initial) cohort of
        None \<Rightarrow> Inr (st, NotApplied ''cohort_definition_missing'')
      | Some spec \<Rightarrow>
      (case planLifecycleReconciliation sha num date_of loc spec (Some ev) of
        Inl e \<Rightarrow> Inl (PlanFailed e)
      | Inr fresh \<Rightarrow>
          if rp_disposition fresh \<noteq> Ready \<or> \<not> truthy (rp_guardHash initial)
             \<or> rp_guardHash fresh \<noteq> rp_guardHash initial
          then Inr (st, NotApplied ''state_or_authority_changed_after_preview'')
          else if rp_current initial \<noteq> Some (ev_current ev)
          then Inr (st, NotApplied ''exact_current_field_guard_failed'')
          else
          (case Option.bind (rp_target initial) (\<lambda>t. apply_target t (ev_current ev)) of
            None \<Rightarrow> Inl UpdateRejected
          | Some c \<Rightarrow>
              let ev' = ev\<lparr>ev_current := c\<lparr>cf_updatedAt := now\<rparr>\<rparr>;
                  key = (rp_id initial, rp_requestedAction initial, the (rp_guardHash initial))
              in if rp_requestedAction initial = ExperienceQueue
                    \<and> \<not> selected (operationalQueueWhere ExperienceFit [] (job_row_of ev'))
                 then Inl NotExporterEligible
                 else Inr ((db(rp_id initial \<mapsto> ev'),
                   if key \<in> set journal then journal else journal @ [key]), Applied)))))"

section \<open>Lemmas\<close>

text \<open>What each action demands of the evidence and the target it then sets.\<close>

definition action_target :: "reconciliation_action \<Rightarrow> rec_evidence \<Rightarrow> target \<Rightarrow> bool" where
  "action_target a ev t =
     (case a of
        ExperienceQueue \<Rightarrow>
          aim_blockers (\<lambda>n. AIM_EXPERIENCE_QUEUE_MINIMUM_SCORE \<le> n)
            ''aim_event_does_not_authorize_experience_queue'' ev = []
          \<and> t = experience_queue_target (Option.bind (ra_currentAim (ev_scoreAuthority ev)) rv_aimFitScore)
      | AimQueue \<Rightarrow> aim_queue_blockers ev = [] \<and> t = experience_queue_target None
      | LegacyLocalDismissal \<Rightarrow>
          ev_rawScoreEventIds ev = [] \<and> cf_scoringStatus (ev_current ev) = ''skipped''
          \<and> isMachineLocalRejection (cf_passReason (ev_current ev)) \<and> t = [(''status'', JStr ''dismissed'')]
      | ManualImportTailoring \<Rightarrow>
          cf_source (ev_current ev) = Some ''Manual Import'' \<and> ev_manualImportTarget ev = Some t
      | AimFloorDismissal \<Rightarrow>
          aim_blockers (\<lambda>n. n < AIM_EXPERIENCE_QUEUE_MINIMUM_SCORE)
            ''aim_event_does_not_prove_floor_dismissal'' ev = []
          \<and> t = [(''status'', JStr ''dismissed'')])"

lemma disposition_simps [simp]:
  "rp_disposition (blockedPlan hash spec ev bs) = Blocked"
  "rp_disposition (missingPlan spec) = Missing"
  "rp_disposition (authorizedPlan hash spec ev a t) =
     (if changedFields (ev_current ev) t = [] then Noop else Ready)"
  "rp_target (authorizedPlan hash spec ev a t) = Some t"
  "rp_current (authorizedPlan hash spec ev a t) = Some (ev_current ev)"
  "rp_guardHash (authorizedPlan hash spec ev a t) = Some hash"
  "rp_changedFields (authorizedPlan hash spec ev a t) = changedFields (ev_current ev) t"
  "rp_id (authorizedPlan hash spec ev a t) = rs_id spec"
  "rp_requestedAction (authorizedPlan hash spec ev a t) = rs_action spec"
  "rp_blockers (authorizedPlan hash spec ev a t) = []"
  by (simp_all add: blockedPlan_def missingPlan_def authorizedPlan_def plan_of_def Let_def)

lemma planned:
  assumes "planLifecycleReconciliation sha num date_of loc spec evidence = Inr p"
    and "rp_disposition p = Ready \<or> rp_disposition p = Noop"
  obtains ev hash a t where "evidence = Some ev" and "p = authorizedPlan hash spec ev a t"
    and "lifecycleReconciliationGuardHash sha num ev = Inr hash"
    and "common_blockers date_of loc spec ev = []" and "action_target (rs_action spec) ev t"
proof -
  obtain ev where ev: "evidence = Some ev"
    using assms by (cases evidence) (auto simp: planLifecycleReconciliation_def)
  obtain hash where hash: "lifecycleReconciliationGuardHash sha num ev = Inr hash"
    using assms(1) ev by (auto simp: planLifecycleReconciliation_def split: sum.splits)
  have nb: "p \<noteq> blockedPlan hash spec ev bs" for bs
    using assms(2) by auto
  have common: "common_blockers date_of loc spec ev = []"
    using assms(1) nb by (auto simp: planLifecycleReconciliation_def ev hash Let_def split: if_splits)
  have "\<exists>a t. p = authorizedPlan hash spec ev a t \<and> action_target (rs_action spec) ev t"
    using assms(1) nb
    by (cases "rs_action spec")
      (auto simp: planLifecycleReconciliation_def action_target_def ev hash Let_def common
        split: if_splits)
  then show thesis using that ev hash common by blast
qed

lemma planned_ex:
  assumes "planLifecycleReconciliation sha num date_of loc spec evidence = Inr p"
    and "rp_disposition p = Ready \<or> rp_disposition p = Noop"
  shows "\<exists>ev hash a t. evidence = Some ev \<and> p = authorizedPlan hash spec ev a t
    \<and> action_target (rs_action spec) ev t"
  by (rule planned [OF assms]) blast

text \<open>Conversely, evidence that authorises the action and hashes yields an authorised plan.\<close>

lemma plans:
  assumes "lifecycleReconciliationGuardHash sha num ev = Inr hash"
    and "common_blockers date_of loc spec ev = []" and "action_target (rs_action spec) ev t"
  shows "\<exists>a. planLifecycleReconciliation sha num date_of loc spec (Some ev)
    = Inr (authorizedPlan hash spec ev a t)"
  using assms
  by (cases "rs_action spec")
    (auto simp: planLifecycleReconciliation_def action_target_def Let_def)

lemma changedFields_Nil:
  "changedFields c t = [] \<longleftrightarrow> (\<forall>(k, v) \<in> set t. map_of (fields_json c) k = Some v)"
  by (auto simp: changedFields_def filter_empty_conv)

lemmas column_simps = set_column_def fields_json_def experience_queue_target_def

lemma apply_experience_target:
  "apply_target (experience_queue_target score) c =
     Some (c\<lparr>cf_status := ''pending_af'', cf_scoringStatus := ''scored'', cf_tailoringStaged := False,
       cf_aimFitScore := score, cf_reqFitScore := None, cf_reqFitRationale := None,
       cf_experienceStatus := ''queued''\<rparr>)"
  by (cases score) (simp_all add: column_simps)

lemma apply_dismissal: "apply_target [(''status'', JStr ''dismissed'')] c = Some (c\<lparr>cf_status := ''dismissed''\<rparr>)"
  by (simp add: column_simps)

lemma no_final_intent_events:
  assumes "ui_kind (latestUserLifecycleIntent date_of loc es) \<noteq> KFinal"
    and "e \<in> set es" and "le_eventType e \<in> set FINAL_USER_LIFECYCLE_EVENT_TYPES"
  shows "\<exists>u \<in> set es. le_eventType u = ''user_rescore''"
proof -
  have "is_intent_event e" using assms(3) by (auto simp: is_intent_event_def intent_types)
  then have "latest_event date_of loc (filter is_intent_event es) \<noteq> None"
    using assms(2) by (auto simp: filter_empty_conv)
  then obtain u where u: "latest_event date_of loc (filter is_intent_event es) = Some u" by blast
  then have "le_eventType u = ''user_rescore''"
    using assms(1) by (auto simp: latestUserLifecycleIntent_def split: if_splits)
  with latest_event_in [OF u] show ?thesis by auto
qed

lemma common_unblocked:
  "common_blockers date_of loc spec ev = [] \<longleftrightarrow>
     cf_id (ev_current ev) = rs_id spec
     \<and> ui_kind (latestUserLifecycleIntent date_of loc (map lifecycle_event_of (ev_userEvents ev))) \<noteq> KFinal
     \<and> ev_leasedBatchItemIds ev = []
     \<and> \<not> truthy (cf_batchJobId (ev_current ev)) \<and> \<not> truthy (cf_jdBatchId (ev_current ev))
     \<and> \<not> truthy (cf_afBatchId (ev_current ev))"
  by (auto simp: common_blockers_def Let_def split: if_splits)

lemma keys_valid_scalars [simp]: "keys_valid (json_text v)" "keys_valid (json_int n)"
  by (simp_all add: json_text_def json_int_def split: option.split)

lemma keys_valid_fields: "keys_valid (JObj (fields_json c))"
  by (simp add: fields_json_def normalizeScoringText_def)

lemma keys_valid_current:
  "keys_valid (evidence_json (ev\<lparr>ev_current := c\<rparr>)) = keys_valid (evidence_json ev)"
  using keys_valid_fields [unfolded keys_valid.simps(2)] by (simp add: evidence_json_def)

lemma guard_hash_current:
  assumes "lifecycleReconciliationGuardHash sha num ev = Inr h"
  shows "\<exists>h'. lifecycleReconciliationGuardHash sha num (ev\<lparr>ev_current := c\<rparr>) = Inr h'"
proof -
  have "keys_valid (evidence_json ev)"
    using assms
    by (auto simp: lifecycleReconciliationGuardHash_def canonicalJsonSha256_def canonicalJson_def
        split: if_splits)
  then show ?thesis
    by (simp add: lifecycleReconciliationGuardHash_def canonicalJsonSha256_def canonicalJson_def
        keys_valid_current del: keys_valid.simps)
qed

text \<open>Every target but that of a manual import is applied without rejection, settles all of its
  columns, leaves the identity and the leases alone, and keeps the action authorised.\<close>

lemma target_settles:
  assumes "action_target a ev t" and "a \<noteq> ManualImportTailoring"
  shows "\<exists>c. apply_target t (ev_current ev) = Some c \<and> changedFields (c\<lparr>cf_updatedAt := now\<rparr>) t = []
    \<and> action_target a (ev\<lparr>ev_current := c\<lparr>cf_updatedAt := now\<rparr>\<rparr>) t
    \<and> cf_id c = cf_id (ev_current ev) \<and> cf_batchJobId c = cf_batchJobId (ev_current ev)
    \<and> cf_jdBatchId c = cf_jdBatchId (ev_current ev) \<and> cf_afBatchId c = cf_afBatchId (ev_current ev)"
proof -
  have exp: "changedFields (c\<lparr>cf_status := ''pending_af'', cf_scoringStatus := ''scored'',
      cf_tailoringStaged := False, cf_aimFitScore := score, cf_reqFitScore := None,
      cf_reqFitRationale := None, cf_experienceStatus := ''queued'', cf_updatedAt := now\<rparr>)
      (experience_queue_target score) = []" for c score
    by (simp add: changedFields_Nil column_simps)
  have dis: "changedFields (c\<lparr>cf_status := ''dismissed'', cf_updatedAt := now\<rparr>)
      [(''status'', JStr ''dismissed'')] = []" for c
    by (simp add: changedFields_Nil column_simps)
  show ?thesis
  proof (cases a)
    case ExperienceQueue
    with assms show ?thesis by (auto simp: action_target_def apply_experience_target exp aim_blockers_def)
  next
    case AimQueue
    with assms show ?thesis
      by (auto simp: action_target_def apply_experience_target exp aim_queue_blockers_def Let_def
          split: if_splits)
  next
    case LegacyLocalDismissal
    with assms show ?thesis by (auto simp: action_target_def apply_dismissal dis simp del: apply_target.simps)
  next
    case AimFloorDismissal
    with assms show ?thesis by (auto simp: action_target_def apply_dismissal dis aim_blockers_def simp del: apply_target.simps)
  qed (use assms in simp)
qed

lemma planned_target:
  assumes "planLifecycleReconciliation sha num date_of loc spec evidence = Inr p"
    and "rp_target p = Some t"
  shows "\<exists>ev. action_target (rs_action spec) ev t \<and> rp_requestedAction p = rs_action spec"
proof -
  have "rp_disposition p = Ready \<or> rp_disposition p = Noop"
    using assms
    by (cases evidence; cases "rs_action spec")
      (auto simp: planLifecycleReconciliation_def missingPlan_def blockedPlan_def plan_of_def Let_def
        split: sum.splits if_splits)
  from planned_ex [OF assms(1) this] assms(2) show ?thesis by auto
qed

lemma unblocked_experience_stage:
  assumes "common_blockers date_of loc spec ev = []" and "j_status j = ''pending_af''"
    and "j_eventTypes j = map ue_eventType (ev_userEvents ev)"
  shows "selected (manualScoringStatusWhere ExperienceStage j)"
proof -
  have "\<exists>u \<in> set (ev_userEvents ev). ue_eventType u = ''user_rescore''"
    if "e \<in> set (ev_userEvents ev)" and "ue_eventType e \<in> set USER_EVENT_TYPES" for e
    using no_final_intent_events [of date_of loc "map lifecycle_event_of (ev_userEvents ev)"
        "lifecycle_event_of e"] assms(1) that
    by (auto simp: common_unblocked lifecycle_event_of_def USER_EVENT_TYPES_def
        FINAL_USER_LIFECYCLE_EVENT_TYPES_def)
  then show ?thesis
    using assms(2,3)
    by (auto simp: manualScoringStatusWhere_def some_event_def EXPLICIT_RESCORE_EVENT_def sql_simps)
      (metis image_eqI)+
qed

section \<open>Properties\<close>

text \<open>The authority an action rests on, and the columns it sets.\<close>

definition ready_authority :: "reconciliation_action \<Rightarrow> rec_evidence \<Rightarrow> rec_plan \<Rightarrow> bool" where
  "ready_authority a ev p =
     (let sa = ev_scoreAuthority ev; c = ev_current ev; kind = pa_kind (rp_authority p); event = pa_eventId (rp_authority p) in
      case a of
        ExperienceQueue \<Rightarrow> kind = ByScoreEvent \<and> ra_currentExperience sa = None
          \<and> (\<exists>aim n. ra_currentAim sa = Some aim \<and> rv_passed aim \<and> rv_aimFitScore aim = Some n \<and> 60 \<le> n
               \<and> event = Some (rv_id aim) \<and> rp_target p = Some (experience_queue_target (Some n)))
      | AimFloorDismissal \<Rightarrow> kind = ByScoreEvent \<and> ra_currentExperience sa = None
          \<and> (\<exists>aim n. ra_currentAim sa = Some aim \<and> rv_passed aim \<and> rv_aimFitScore aim = Some n \<and> n < 60
               \<and> event = Some (rv_id aim)) \<and> rp_target p = Some [(''status'', JStr ''dismissed'')]
      | AimQueue \<Rightarrow> kind = ByLegacyLocalMachine \<and> event = None
          \<and> ra_currentAim sa = None \<and> ra_currentExperience sa = None \<and> ra_currentLegacy sa = None
          \<and> (ra_staleAim sa \<noteq> None \<or> ra_staleExperience sa \<noteq> None)
          \<and> cf_scoringStatus c = ''scored'' \<and> cf_fitScore c \<noteq> None \<and> truthy (cf_fitRationale c)
          \<and> cf_fitCategory c \<noteq> ''unscored'' \<and> cf_passReason c = None
          \<and> rp_target p = Some (experience_queue_target None)
      | LegacyLocalDismissal \<Rightarrow> kind = ByLegacyLocalMachine \<and> event = None
          \<and> ev_rawScoreEventIds ev = [] \<and> cf_scoringStatus c = ''skipped''
          \<and> (\<exists>reason. cf_passReason c = Some reason \<and> (starts_with reason ''Locally triaged out:''
               \<or> starts_with reason ''Available job information is not in English''
               \<or> starts_with reason ''Job location is outside''))
          \<and> rp_target p = Some [(''status'', JStr ''dismissed'')]
      | ManualImportTailoring \<Rightarrow> kind = ByManualImportPolicy \<and> event = None
          \<and> cf_source c = Some ''Manual Import'' \<and> ev_manualImportTarget ev \<noteq> None
          \<and> rp_target p = ev_manualImportTarget ev)"

lemma aim_blockers_Nil:
  "aim_blockers ok code ev = [] \<longleftrightarrow> ra_currentExperience (ev_scoreAuthority ev) = None
     \<and> (\<exists>aim n. ra_currentAim (ev_scoreAuthority ev) = Some aim \<and> rv_passed aim \<and> rv_aimFitScore aim = Some n \<and> ok n)"
  by (auto simp: aim_blockers_def aim_proves_def split: option.splits)

lemma aim_queue_blockers_Nil:
  "aim_queue_blockers ev = [] \<longleftrightarrow> (let sa = ev_scoreAuthority ev; c = ev_current ev in
     ra_currentAim sa = None \<and> ra_currentExperience sa = None \<and> ra_currentLegacy sa = None
     \<and> (ra_staleAim sa \<noteq> None \<or> ra_staleExperience sa \<noteq> None)
     \<and> cf_scoringStatus c = ''scored'' \<and> cf_fitScore c \<noteq> None \<and> truthy (cf_fitRationale c)
     \<and> cf_fitCategory c \<noteq> ''unscored'' \<and> cf_passReason c = None)"
  by (auto simp: aim_queue_blockers_def Let_def)

lemma local_rejection:
  "isMachineLocalRejection v \<longleftrightarrow> (\<exists>reason. v = Some reason \<and> (starts_with reason ''Locally triaged out:''
     \<or> starts_with reason ''Available job information is not in English'' \<or> starts_with reason ''Job location is outside''))"
  by (cases v) (auto simp: isMachineLocalRejection_def MACHINE_LOCAL_REJECTION_PREFIXES_def starts_with_def)

lemma authorized_fields:
  "rp_authority (authorizedPlan hash spec ev a t) = a" "rp_target (authorizedPlan hash spec ev a t) = Some t"
  by (simp_all add: authorizedPlan_def plan_of_def Let_def)

lemma planned_authority:
  assumes "planLifecycleReconciliation sha num date_of loc spec (Some ev) = Inr p"
    and "rp_disposition p = Ready"
  shows "ready_authority (rs_action spec) ev p"
proof -
  obtain hash where hash: "lifecycleReconciliationGuardHash sha num ev = Inr hash"
    and common: "common_blockers date_of loc spec ev = []"
    using planned [OF assms(1)] assms(2) by (metis option.inject)
  have nb: "p \<noteq> blockedPlan hash spec ev bs" for bs
    using assms(2) by auto
  show ?thesis
  proof (cases "rs_action spec")
    case ExperienceQueue
    with assms(1) nb show ?thesis
      by (auto simp: planLifecycleReconciliation_def hash common ready_authority_def Let_def aim_blockers_Nil authorized_fields event_authority_def
          AIM_EXPERIENCE_QUEUE_MINIMUM_SCORE_def split: if_splits)
  next
    case AimQueue
    with assms(1) nb show ?thesis
      by (auto simp: planLifecycleReconciliation_def hash common ready_authority_def Let_def aim_queue_blockers_Nil authorized_fields split: if_splits)
  next
    case LegacyLocalDismissal
    with assms(1) nb show ?thesis
      by (auto simp: planLifecycleReconciliation_def hash common ready_authority_def Let_def local_rejection authorized_fields split: if_splits)
  next
    case ManualImportTailoring
    with assms(1) nb show ?thesis
      by (auto simp: planLifecycleReconciliation_def hash common ready_authority_def Let_def authorized_fields split: if_splits)
  next
    case AimFloorDismissal
    with assms(1) nb show ?thesis
      by (auto simp: planLifecycleReconciliation_def hash common ready_authority_def Let_def aim_blockers_Nil authorized_fields event_authority_def
          AIM_EXPERIENCE_QUEUE_MINIMUM_SCORE_def split: if_splits)
  qed
qed

text \<open>C13. A plan that is ready to write carries the authority its action needs. The Experience queue rests on a
  current Aim event that passed with 60 points or more and no current Experience event, the floor dismissal on one
  below 60; the Aim queue on stored local scoring and a stale score where no score event is current; the local
  dismissal on a recognised machine reason where there is no score event at all; the tailoring of a manual
  import on its source and a normalised target. The event is named and the columns to write are those of the action.
  Moreover the plan belongs to the job it was asked about, whose last user intent is not final, which no batch
  item leases and which carries no batch id; and its digest is the digest of the whole evidence.\<close>

theorem ready_plan_is_authorised:
  assumes "planLifecycleReconciliation sha num date_of loc spec (Some ev) = Inr p"
    and "rp_disposition p = Ready"
  shows "ready_authority (rs_action spec) ev p
    \<and> cf_id (ev_current ev) = rp_id p
    \<and> ui_kind (latestUserLifecycleIntent date_of loc (map lifecycle_event_of (ev_userEvents ev))) \<noteq> KFinal
    \<and> ev_leasedBatchItemIds ev = []
    \<and> \<not> truthy (cf_batchJobId (ev_current ev)) \<and> \<not> truthy (cf_jdBatchId (ev_current ev))
    \<and> \<not> truthy (cf_afBatchId (ev_current ev))
    \<and> rp_blockers p = []
    \<and> (\<exists>h. rp_guardHash p = Some h \<and> lifecycleReconciliationGuardHash sha num ev = Inr h)"
proof -
  obtain hash a t where "p = authorizedPlan hash spec ev a t"
    and "lifecycleReconciliationGuardHash sha num ev = Inr hash"
    and "common_blockers date_of loc spec ev = []"
    using planned [OF assms(1)] assms(2) by (metis option.inject)
  with planned_authority [OF assms] show ?thesis by (simp add: common_unblocked)
qed

definition sample_current :: current_fields where
  "sample_current = \<lparr>cf_id = ''j'', cf_title = ''AE'', cf_company = ''Acme'', cf_location = None,
     cf_source = None, cf_status = ''dismissed'', cf_scoringStatus = ''scored'', cf_scoreAttempts = 1,
     cf_scoreError = None, cf_fitScore = Some 70, cf_fitCategory = ''good'', cf_fitRationale = None,
     cf_passReason = None, cf_tailoringStaged = False, cf_aimFitScore = Some 80, cf_reqFitScore = None,
     cf_reqFitRationale = None, cf_batchJobId = None, cf_jdBatchId = None, cf_afBatchId = None,
     cf_experienceStatus = ''idle'', cf_updatedAt = ''t0''\<rparr>"

definition sample_rec_event :: rec_score_event where
  "sample_rec_event = \<lparr>rv_id = ''e'', rv_evaluationType = ''aim_fit'', rv_passed = True,
     rv_aimFitScore = Some 80, rv_experienceFitScore = None, rv_decisionCode = None,
     rv_lifecycleProjection = None, rv_staleAt = None, rv_createdAt = ''t''\<rparr>"

definition sample_evidence :: rec_evidence where
  "sample_evidence = \<lparr>ev_current = sample_current, ev_inputFingerprint = ''f'', ev_userEvents = [],
     ev_rawScoreEventIds = [''e''], ev_leasedBatchItemIds = [],
     ev_scoreAuthority = \<lparr>ra_mode = ''staged'', ra_aimState = ''current'',
       ra_experienceState = ''unscored'', ra_currentAim = Some sample_rec_event,
       ra_currentExperience = None, ra_currentLegacy = None, ra_staleAim = None,
       ra_staleExperience = None, ra_staleReason = None\<rparr>,
     ev_manualImportTarget = None\<rparr>"

definition sample_spec :: reconciliation_spec where
  "sample_spec = \<lparr>rs_id = ''j'', rs_label = ''Acme'', rs_action = ExperienceQueue\<rparr>"

lemma sample_hash: "\<exists>h. lifecycleReconciliationGuardHash sha fraction_text sample_evidence = Inr h"
  by (simp add: lifecycleReconciliationGuardHash_def canonicalJsonSha256_def canonicalJson_def
      evidence_json_def fields_json_def sample_evidence_def sample_current_def authority_json_def
      score_event_json_def sample_rec_event_def normalizeScoringText_def
      del: encode.simps)

lemma sample_plan:
  "\<exists>p. planLifecycleReconciliation sha fraction_text (\<lambda>t. None) code_unit_cmp sample_spec
     (Some sample_evidence) = Inr p \<and> rp_disposition p = Ready"
proof -
  obtain h where h: "lifecycleReconciliationGuardHash sha fraction_text sample_evidence = Inr h"
    using sample_hash by blast
  have "common_blockers (\<lambda>t. None) code_unit_cmp sample_spec sample_evidence = []"
    by (simp add: common_unblocked sample_spec_def sample_evidence_def sample_current_def truthy_def
        latestUserLifecycleIntent_def latest_event_def no_intent_def)
  moreover have "action_target (rs_action sample_spec) sample_evidence (experience_queue_target (Some 80))"
    by (simp add: action_target_def sample_spec_def sample_evidence_def sample_rec_event_def
        aim_blockers_def aim_proves_def AIM_EXPERIENCE_QUEUE_MINIMUM_SCORE_def)
  ultimately have "\<exists>a. planLifecycleReconciliation sha fraction_text (\<lambda>t. None) code_unit_cmp sample_spec
      (Some sample_evidence)
      = Inr (authorizedPlan h sample_spec sample_evidence a (experience_queue_target (Some 80)))"
    using h plans by blast
  moreover have "changedFields (ev_current sample_evidence) (experience_queue_target (Some 80)) \<noteq> []"
    by (simp add: changedFields_Nil column_simps sample_evidence_def sample_current_def)
  ultimately show ?thesis by auto
qed

theorem ready_plan_is_authorised_witness:
  "\<exists>p. planLifecycleReconciliation id fraction_text (\<lambda>t. None) code_unit_cmp sample_spec
     (Some sample_evidence) = Inr p \<and> rp_id p = ''j'' \<and> rp_blockers p = []"
proof -
  obtain p where p: "planLifecycleReconciliation id fraction_text (\<lambda>t. None) code_unit_cmp sample_spec
     (Some sample_evidence) = Inr p" "rp_disposition p = Ready"
    using sample_plan by blast
  from ready_plan_is_authorised [OF this] p show ?thesis
    by (intro exI [of _ p]) (simp add: sample_evidence_def sample_current_def)
qed

text \<open>The guard against an export of an ineligible job never fires: applying a plan the planner
  made for a cohort entry cannot end in the error that the Experience target is not eligible for
  export, whatever happened to the database since the preview.\<close>

theorem export_guard_never_fires:
  assumes "planLifecycleReconciliation sha num date_of loc spec previewed = Inr initial"
    and "find (\<lambda>s. rs_id s = rp_id initial) cohort = Some spec"
  shows "applyOne sha num date_of loc cohort now initial st \<noteq> Inl NotExporterEligible"
proof
  obtain db journal where st: "st = (db, journal)" by (cases st)
  assume "applyOne sha num date_of loc cohort now initial st = Inl NotExporterEligible"
  then obtain ev fresh t c where fresh: "planLifecycleReconciliation sha num date_of loc spec (Some ev) = Inr fresh"
      "rp_disposition fresh = Ready"
    and t: "rp_target initial = Some t" "apply_target t (ev_current ev) = Some c"
    and bad: "rp_requestedAction initial = ExperienceQueue"
      "\<not> selected (operationalQueueWhere ExperienceFit []
        (job_row_of (ev\<lparr>ev_current := c\<lparr>cf_updatedAt := now\<rparr>\<rparr>)))"
    unfolding applyOne_def st Let_def
    by (auto simp: assms(2) bind_eq_Some_conv split: option.splits sum.splits if_splits)
  obtain ev0 where t0: "action_target (rs_action spec) ev0 t" and spec: "rs_action spec = ExperienceQueue"
    using planned_target [OF assms(1) t(1)] bad(1) by metis
  then obtain score where "t = experience_queue_target (Some score)"
    by (auto simp: action_target_def aim_blockers_def aim_proves_def split: option.splits if_splits)
  with t(2) have c: "cf_status c = ''pending_af''" "cf_scoringStatus c = ''scored''"
    "\<not> cf_tailoringStaged c" "cf_aimFitScore c = Some score" "cf_reqFitScore c = None"
    by (auto simp: apply_experience_target simp del: apply_target.simps)
  have "common_blockers date_of loc spec ev = []"
    using planned [OF fresh(1)] fresh(2) by (metis option.inject)
  then have "selected (manualScoringStatusWhere ExperienceStage
      (job_row_of (ev\<lparr>ev_current := c\<lparr>cf_updatedAt := now\<rparr>\<rparr>)))"
    using unblocked_experience_stage c(1) by (simp add: job_row_of_def Let_def)
  with c bad(2) show False
    by (simp add: operationalQueueWhere_def sql_simps job_row_of_def Let_def)
qed

theorem export_guard_never_fires_witness:
  "\<exists>p. planLifecycleReconciliation id fraction_text (\<lambda>t. None) code_unit_cmp sample_spec
     (Some sample_evidence) = Inr p
   \<and> applyOne id fraction_text (\<lambda>t. None) code_unit_cmp [sample_spec] ''t1'' p
      ([''j'' \<mapsto> sample_evidence], []) \<noteq> Inl NotExporterEligible"
proof -
  obtain p where p: "planLifecycleReconciliation id fraction_text (\<lambda>t. None) code_unit_cmp sample_spec
     (Some sample_evidence) = Inr p" "rp_disposition p = Ready"
    using sample_plan by blast
  then have "find (\<lambda>s. rs_id s = rp_id p) [sample_spec] = Some sample_spec"
    using planned_ex [OF p(1)] by auto
  with p export_guard_never_fires show ?thesis by blast
qed
text \<open>C14. A repair is idempotent. Applying a ready plan of a cohort entry (of any action but the tailoring of a manual
  import, whose columns the planner does not choose) to the evidence it was made from commits; it writes that job
  and no other; planning again from the stored state succeeds and finds nothing left to change; and applying
  the same plan again writes nothing. The digest \<open>sha\<close> is never empty.\<close>

theorem repair_is_idempotent:
  assumes "planLifecycleReconciliation sha num date_of loc spec (db (rs_id spec)) = Inr p"
    and "rp_disposition p = Ready" and "rs_action spec \<noteq> ManualImportTailoring"
    and "find (\<lambda>s. rs_id s = rs_id spec) cohort = Some spec" and "\<And>s. sha s \<noteq> []"
  shows "\<exists>db' journal' q reason.
    applyOne sha num date_of loc cohort now p (db, journal) = Inr ((db', journal'), Applied)
    \<and> (\<forall>i. i \<noteq> rs_id spec \<longrightarrow> db' i = db i)
    \<and> planLifecycleReconciliation sha num date_of loc spec (db' (rs_id spec)) = Inr q
    \<and> rp_disposition q = Noop \<and> rp_changedFields q = []
    \<and> applyOne sha num date_of loc cohort later p (db', journal') = Inr ((db', journal'), NotApplied reason)"
proof -
  obtain ev hash a t where ev: "db (rs_id spec) = Some ev" and p: "p = authorizedPlan hash spec ev a t"
    and hash: "lifecycleReconciliationGuardHash sha num ev = Inr hash"
    and common: "common_blockers date_of loc spec ev = []"
    and act: "action_target (rs_action spec) ev t"
    using planned [OF assms(1)] assms(2) by metis
  obtain c where c: "apply_target t (ev_current ev) = Some c"
    "changedFields (c\<lparr>cf_updatedAt := now\<rparr>) t = []"
    "action_target (rs_action spec) (ev\<lparr>ev_current := c\<lparr>cf_updatedAt := now\<rparr>\<rparr>) t"
    "cf_id c = cf_id (ev_current ev)" "cf_batchJobId c = cf_batchJobId (ev_current ev)"
    "cf_jdBatchId c = cf_jdBatchId (ev_current ev)" "cf_afBatchId c = cf_afBatchId (ev_current ev)"
    using target_settles [OF act assms(3), of now] by blast
  let ?ev = "ev\<lparr>ev_current := c\<lparr>cf_updatedAt := now\<rparr>\<rparr>"
  let ?db = "db(rs_id spec \<mapsto> ?ev)"
  obtain hash' where h': "lifecycleReconciliationGuardHash sha num ?ev = Inr hash'"
    using guard_hash_current [OF hash] by blast
  have "common_blockers date_of loc spec ?ev = []"
    using common c by (simp add: common_unblocked)
  from plans [OF h' this c(3)] obtain b
    where q: "planLifecycleReconciliation sha num date_of loc spec (Some ?ev) = Inr (authorizedPlan hash' spec ?ev b t)"
    by blast
  have fields: "rp_id p = rs_id spec" "rp_guardHash p = Some hash" "rp_current p = Some (ev_current ev)" "rp_target p = Some t"
    unfolding p by simp_all
  have "hash \<noteq> []"
    using hash assms(5)
    by (cases "canonicalJson num (evidence_json ev)")
      (auto simp: lifecycleReconciliationGuardHash_def canonicalJsonSha256_def)
  then have solid: "truthy (rp_guardHash p)" by (simp add: fields truthy_def)
  have eligible: "\<not> (rp_requestedAction p = ExperienceQueue \<and> \<not> selected (operationalQueueWhere ExperienceFit [] (job_row_of ?ev)))"
    using export_guard_never_fires [OF assms(1), of cohort now "(db, journal)"] assms(1,2,4) ev c(1) solid
    by (auto simp: applyOne_def fields Let_def split: if_splits)
  obtain journal' where done1: "applyOne sha num date_of loc cohort now p (db, journal) = Inr ((?db, journal'), Applied)"
    using assms(1,2,4) ev c(1) solid eligible by (simp add: applyOne_def fields Let_def)
  moreover have "rp_disposition (authorizedPlan hash' spec ?ev b t) = Noop" "rp_changedFields (authorizedPlan hash' spec ?ev b t) = []"
    using c(2) by simp_all
  moreover from this q assms(4)
  have "applyOne sha num date_of loc cohort later p (?db, journal')
      = Inr ((?db, journal'), NotApplied ''state_or_authority_changed_after_preview'')"
    by (simp add: applyOne_def fields)
  ultimately show ?thesis
    using q by (intro exI [of _ ?db] exI [of _ journal'] exI [of _ "authorizedPlan hash' spec ?ev b t"] exI) simp
qed

theorem repair_is_idempotent_witness:
  "\<exists>p st q. planLifecycleReconciliation (\<lambda>s. ''h'') fraction_text (\<lambda>t. None) code_unit_cmp sample_spec
       (Some sample_evidence) = Inr p
    \<and> applyOne (\<lambda>s. ''h'') fraction_text (\<lambda>t. None) code_unit_cmp [sample_spec] ''t1'' p ([''j'' \<mapsto> sample_evidence], [])
        = Inr (st, Applied)
    \<and> planLifecycleReconciliation (\<lambda>s. ''h'') fraction_text (\<lambda>t. None) code_unit_cmp sample_spec (fst st ''j'') = Inr q
    \<and> rp_disposition q = Noop"
proof -
  obtain p where p: "planLifecycleReconciliation (\<lambda>s. ''h'') fraction_text (\<lambda>t. None) code_unit_cmp sample_spec
     (Some sample_evidence) = Inr p" "rp_disposition p = Ready"
    using sample_plan [of "\<lambda>s. ''h''"] by blast
  have id: "rs_id sample_spec = ''j''" by (simp add: sample_spec_def)
  have plan: "planLifecycleReconciliation (\<lambda>s. ''h'') fraction_text (\<lambda>t. None) code_unit_cmp sample_spec
     ([''j'' \<mapsto> sample_evidence] (rs_id sample_spec)) = Inr p"
    using p(1) by (simp add: id)
  have "rs_action sample_spec \<noteq> ManualImportTailoring" "find (\<lambda>s. rs_id s = rs_id sample_spec) [sample_spec] = Some sample_spec"
    by (simp_all add: sample_spec_def)
  from repair_is_idempotent [where db = "[''j'' \<mapsto> sample_evidence]" and spec = sample_spec and now = "''t1''"
      and journal = "[]" and later = "''t2''", OF plan p(2) this]
  obtain db' journal' q where "applyOne (\<lambda>s. ''h'') fraction_text (\<lambda>t. None) code_unit_cmp [sample_spec] ''t1'' p
      ([''j'' \<mapsto> sample_evidence], []) = Inr ((db', journal'), Applied)"
    "planLifecycleReconciliation (\<lambda>s. ''h'') fraction_text (\<lambda>t. None) code_unit_cmp sample_spec (db' (rs_id sample_spec)) = Inr q"
    "rp_disposition q = Noop"
    by auto
  with p(1) id show ?thesis by (intro exI [of _ p] exI [of _ "(db', journal')"] exI [of _ q]) simp
qed

end
