(* ===== verification/Lease.thy ===== *)
theory Lease
  imports Prelude
begin

text \<open>
  The contract of a row that several hosts compete for: it names its holder by a token, the
  holder's claim is live for some time, and every write is a conditional update. The pipeline lock
  and the request lease of a provider provide it (theories \<open>Pipeline\<close> and \<open>Provider_Circuit\<close>).
\<close>

text \<open>\<open>holder\<close> reads the token, \<open>live now s\<close> tells whether the claim is in force at an instant,
  \<open>perform now op s\<close> is one conditional update at an instant and \<open>acts_as op\<close> the token it is
  made with, if any.\<close>

locale fenced_lease =
  fixes holder :: "'s \<Rightarrow> string option"
    and live :: "ms \<Rightarrow> 's \<Rightarrow> bool"
    and acts_as :: "'op \<Rightarrow> string option"
    and perform :: "ms \<Rightarrow> 'op \<Rightarrow> 's \<Rightarrow> 's"
  assumes live_earlier: "live now s \<Longrightarrow> earlier \<le> now \<Longrightarrow> live earlier s"
    and foreign_keeps_holder:
      "holder s = Some t \<Longrightarrow> live now s \<Longrightarrow> acts_as op \<noteq> Some t \<Longrightarrow> holder (perform now op s) = Some t"
    and foreign_keeps_live:
      "holder s = Some t \<Longrightarrow> live now s \<Longrightarrow> acts_as op \<noteq> Some t \<Longrightarrow> live m s \<Longrightarrow> live m (perform now op s)"
begin

text \<open>Until the claim lapses, no sequence of operations of others takes it away.\<close>

lemma exclusive_until:
  assumes "holder s = Some t" and "live deadline s"
    and "\<And>now op. (now, op) \<in> set ops \<Longrightarrow> now \<le> deadline \<and> acts_as op \<noteq> Some t"
  shows "holder (fold (\<lambda>(now, op). perform now op) ops s) = Some t
    \<and> live deadline (fold (\<lambda>(now, op). perform now op) ops s)"
  using assms
proof (induction ops arbitrary: s)
  case (Cons a ops)
  obtain now op where a: "a = (now, op)" by (cases a)
  with Cons.prems(3) have op: "now \<le> deadline" "acts_as op \<noteq> Some t" by auto
  have "holder (perform now op s) = Some t" "live deadline (perform now op s)"
    using foreign_keeps_holder foreign_keeps_live live_earlier Cons.prems(1,2) op by blast+
  from Cons.IH [OF this] Cons.prems(3) a show ?case by auto
qed simp

text \<open>Who holds a live claim at some instant is the only one to do so.\<close>

lemma claim_fails:
  assumes "holder s = Some t" and "live now s" and "acts_as op = Some u" and "u \<noteq> t"
  shows "holder (perform now op s) \<noteq> Some u"
  using foreign_keeps_holder [OF assms(1,2), of op] assms(3,4) by simp

end

text \<open>In addition, the operations an owner uses after its claim are fenced: made with a token the
  row no longer carries they change nothing.\<close>

locale fenced_owner = fenced_lease holder live acts_as perform
  for holder :: "'s \<Rightarrow> string option"
    and live :: "ms \<Rightarrow> 's \<Rightarrow> bool"
    and acts_as :: "'op \<Rightarrow> string option"
    and perform :: "ms \<Rightarrow> 'op \<Rightarrow> 's \<Rightarrow> 's" +
  fixes owner_op :: "'op \<Rightarrow> bool"
  assumes fenced: "owner_op op \<Longrightarrow> acts_as op \<noteq> holder s \<Longrightarrow> perform now op s = s"
begin

text \<open>A late owner, whose claim was taken over, cannot disturb its successor.\<close>

lemma late_owner_harmless:
  assumes "holder s \<noteq> Some t"
    and "\<And>now op. (now, op) \<in> set ops \<Longrightarrow> owner_op op \<and> acts_as op = Some t"
  shows "fold (\<lambda>(now, op). perform now op) ops s = s"
  using assms
proof (induction ops)
  case (Cons a ops)
  obtain now op where a: "a = (now, op)" by (cases a)
  with Cons.prems(2) have "owner_op op" "acts_as op = Some t" by auto
  with Cons.prems(1) have "perform now op s = s" by (intro fenced) auto
  with Cons a show ?case by auto
qed simp

end

end
