(* ===== verification/Pipeline.thy ===== *)
theory Pipeline
  imports Lease Sql
begin

text \<open>
  The shared state of the pipeline (src/lib/pipelineState.ts): the lock row the hosts compete for,
  the file-backed progress of one host and its mirror in the row, and the trail of transitions.
  Tokens (\<open>randomUUID\<close>), the owner text and the clock are arguments of the operations.
\<close>

section \<open>The row and the process\<close>

definition PIPELINE_LOCK_STALE_MS :: ms where
  "PIPELINE_LOCK_STALE_MS = 5 * 60 * 1000"

definition PIPELINE_ACTIVITY_FRESH_MS :: ms where
  "PIPELINE_ACTIVITY_FRESH_MS = 2 * 60 * 1000"

definition LOCK_TIMEOUT_MS :: ms where
  "LOCK_TIMEOUT_MS = 30 * 60 * 1000"

record pipeline_row =
  pr_isRunning :: bool
  pr_schedulePaused :: bool
  pr_pausedUntil :: "ms option"
  pr_currentStep :: string
  pr_stepProgress :: string
  pr_lastUpdated :: ms
  pr_lockToken :: "string option"
  pr_lockOwner :: "string option"
  pr_lockHeartbeatAt :: "ms option"

text \<open>The column defaults of the schema, at the instant of the insertion.\<close>

definition default_row :: "ms \<Rightarrow> pipeline_row" where
  "default_row now = \<lparr>pr_isRunning = False, pr_schedulePaused = False, pr_pausedUntil = None,
     pr_currentStep = ''Idle'', pr_stepProgress = ''No pipeline run has started.'',
     pr_lastUpdated = now, pr_lockToken = None, pr_lockOwner = None, pr_lockHeartbeatAt = None\<rparr>"

record pipeline_state =
  pl_isRunning :: bool
  pl_currentStep :: string
  pl_stepProgress :: string
  pl_lastUpdated :: ms

definition IDLE_STATE :: pipeline_state where
  "IDLE_STATE = \<lparr>pl_isRunning = False, pl_currentStep = ''Idle'',
     pl_stepProgress = ''No pipeline run has started.'', pl_lastUpdated = 0\<rparr>"

text \<open>The parsed file: each field is \<open>None\<close> when it is missing or of another type.\<close>

record pipeline_file =
  pf_isRunning :: "bool option"
  pf_currentStep :: "string option"
  pf_stepProgress :: "string option"
  pf_lastUpdated :: "ms option"

definition readPipelineState :: "pipeline_file option \<Rightarrow> pipeline_state" where
  "readPipelineState file =
     (case file of
        None \<Rightarrow> IDLE_STATE
      | Some f \<Rightarrow>
          \<lparr>pl_isRunning = (pf_isRunning f = Some True),
           pl_currentStep = (case pf_currentStep f of Some s \<Rightarrow> s | None \<Rightarrow> pl_currentStep IDLE_STATE),
           pl_stepProgress = (case pf_stepProgress f of Some s \<Rightarrow> s | None \<Rightarrow> pl_stepProgress IDLE_STATE),
           pl_lastUpdated = (case pf_lastUpdated f of Some t \<Rightarrow> t | None \<Rightarrow> 0)\<rparr>)"

definition file_of :: "pipeline_state \<Rightarrow> pipeline_file" where
  "file_of p = \<lparr>pf_isRunning = Some (pl_isRunning p), pf_currentStep = Some (pl_currentStep p),
     pf_stepProgress = Some (pl_stepProgress p), pf_lastUpdated = Some (pl_lastUpdated p)\<rparr>"

record state_patch =
  sp_isRunning :: "bool option"
  sp_currentStep :: "string option"
  sp_stepProgress :: "string option"

record pipeline_event =
  pv_eventType :: string
  pv_currentStep :: string
  pv_stepProgress :: "string option"
  pv_isRunning :: bool
  pv_schedulePaused :: bool
  pv_pausedUntil :: "ms option"
  pv_lockOwner :: "string option"
  pv_detail :: "string option"

record pipeline_process =
  pp_file :: "pipeline_file option"
  pp_lastLocalStateTimestamp :: ms
  pp_ownedLockToken :: "string option"
  pp_lastRecordedTransition :: "string option"
  pp_pushed :: "(pipeline_state \<times> string option) list" \<comment> \<open>handed to the mirror writer\<close>
  pp_events :: "pipeline_event list" \<comment> \<open>the trail in the database\<close>

section \<open>Transitions\<close>

record event_input =
  ei_isRunning :: bool
  ei_currentStep :: string
  ei_stepProgress :: "string option"
  ei_schedulePaused :: bool
  ei_pausedUntil :: "ms option"
  ei_lockOwner :: "string option"
  ei_detail :: "string option"
  ei_force :: bool

definition pipelineTransitionKey :: "event_input \<Rightarrow> string" where
  "pipelineTransitionKey i =
     (if ei_isRunning i then ''run'' else ''stop'') @ ''|'' @ ei_currentStep i @ ''|''
     @ (if ei_schedulePaused i then ''paused'' else ''active'')"

definition classifyPipelineTransition :: "event_input \<Rightarrow> string" where
  "classifyPipelineTransition i =
     (let step = to_lower (ei_currentStep i) in
      if starts_with step ''error'' then ''error''
      else if starts_with step ''warning'' then ''warning''
      else if ei_schedulePaused i \<or> starts_with step ''paus'' then ''paused''
      else if \<not> ei_isRunning i then ''stopped''
      else if starts_with step ''starting'' then ''started''
      else ''step'')"

definition bounded_text :: "nat \<Rightarrow> string option \<Rightarrow> string option" where
  "bounded_text n t = (case t of None \<Rightarrow> None | Some s \<Rightarrow> if take n s = [] then None else Some (take n s))"

text \<open>\<open>stored\<close> tells whether the insertion succeeds; every failure is swallowed, and the key
  counts as recorded either way.\<close>

definition recordPipelineStateEvent ::
  "bool \<Rightarrow> event_input \<Rightarrow> pipeline_process \<Rightarrow> pipeline_process \<times> bool" where
  "recordPipelineStateEvent stored i p =
     (let key = pipelineTransitionKey i in
      if \<not> ei_force i \<and> pp_lastRecordedTransition p = Some key then (p, False)
      else
        let p1 = p\<lparr>pp_lastRecordedTransition := Some key\<rparr>;
            e = \<lparr>pv_eventType = classifyPipelineTransition i, pv_currentStep = ei_currentStep i,
                 pv_stepProgress = bounded_text 2000 (ei_stepProgress i),
                 pv_isRunning = ei_isRunning i, pv_schedulePaused = ei_schedulePaused i,
                 pv_pausedUntil = ei_pausedUntil i, pv_lockOwner = ei_lockOwner i,
                 pv_detail = bounded_text 1000 (ei_detail i)\<rparr>
        in if stored then (p1\<lparr>pp_events := pp_events p @ [e]\<rparr>, True) else (p1, False))"

section \<open>Progress of one host\<close>

definition updatePipelineState ::
  "ms \<Rightarrow> string \<Rightarrow> bool \<Rightarrow> state_patch \<Rightarrow> pipeline_process \<Rightarrow> pipeline_process \<times> pipeline_state" where
  "updatePipelineState now host stored patch p =
     (let previous = readPipelineState (pp_file p);
          lastUpdated = max now (max (pp_lastLocalStateTimestamp p + 1) (pl_lastUpdated previous + 1));
          next = \<lparr>pl_isRunning = (case sp_isRunning patch of Some b \<Rightarrow> b | None \<Rightarrow> pl_isRunning previous),
            pl_currentStep = (case sp_currentStep patch of Some s \<Rightarrow> s | None \<Rightarrow> pl_currentStep previous),
            pl_stepProgress = (case sp_stepProgress patch of Some s \<Rightarrow> s | None \<Rightarrow> pl_stepProgress previous),
            pl_lastUpdated = lastUpdated\<rparr>;
          heldToken = pp_ownedLockToken p;
          p1 = p\<lparr>pp_lastLocalStateTimestamp := lastUpdated, pp_file := Some (file_of next)\<rparr>;
          p2 = fst (recordPipelineStateEvent stored
            \<lparr>ei_isRunning = pl_isRunning next, ei_currentStep = pl_currentStep next,
             ei_stepProgress = Some (pl_stepProgress next), ei_schedulePaused = False,
             ei_pausedUntil = None,
             ei_lockOwner = (if truthy heldToken then Some host else None),
             ei_detail = None, ei_force = False\<rparr> p1)
      in (p2\<lparr>pp_pushed := pp_pushed p @ [(next, heldToken)]\<rparr>, next))"

definition markTimedOutPipeline ::
  "ms \<Rightarrow> string \<Rightarrow> bool \<Rightarrow> pipeline_process \<Rightarrow> pipeline_process \<times> pipeline_state" where
  "markTimedOutPipeline now host stored p =
     (let current = readPipelineState (pp_file p) in
      if \<not> pl_isRunning current \<or> now - pl_lastUpdated current \<le> LOCK_TIMEOUT_MS then (p, current)
      else updatePipelineState now host stored
        \<lparr>sp_isRunning = Some False, sp_currentStep = Some ''Error'',
         sp_stepProgress = Some ''Pipeline timed out or crashed.''\<rparr> p)"

section \<open>The mirror\<close>

definition mirrored :: "pipeline_state \<Rightarrow> pipeline_row \<Rightarrow> pipeline_row" where
  "mirrored next r = r\<lparr>pr_isRunning := pl_isRunning next, pr_currentStep := pl_currentStep next,
     pr_stepProgress := pl_stepProgress next, pr_lastUpdated := pl_lastUpdated next\<rparr>"

text \<open>The conditional update: a newer state is never replaced by an older one.\<close>

definition mirror_update :: "pipeline_state \<Rightarrow> pipeline_row option \<Rightarrow> pipeline_row option \<times> bool" where
  "mirror_update next row =
     (case row of
        None \<Rightarrow> (None, False)
      | Some r \<Rightarrow> if pr_lastUpdated r \<le> pl_lastUpdated next then (Some (mirrored next r), True)
                  else (row, False))"

definition heartbeat :: "ms \<Rightarrow> string \<Rightarrow> pipeline_row option \<Rightarrow> pipeline_row option" where
  "heartbeat now token row =
     map_option (\<lambda>r. if pr_lockToken r = Some token then r\<lparr>pr_lockHeartbeatAt := Some now\<rparr> else r) row"

text \<open>\<open>interfere\<close> is what other hosts do to the row between the lookup that did not find it and
  the insertion; an insertion that meets a row fails with \<open>P2002\<close>.\<close>

definition persistPipelineStateMirror ::
  "ms \<Rightarrow> pipeline_state \<Rightarrow> string option \<Rightarrow> (pipeline_row option \<Rightarrow> pipeline_row option)
     \<Rightarrow> pipeline_row option \<Rightarrow> pipeline_row option \<times> bool" where
  "persistPipelineStateMirror now next heldToken interfere row =
     (let (row1, accepted1) = mirror_update next row;
          (row2, accepted2) =
            (if accepted1 \<or> row1 \<noteq> None then (row1, accepted1)
             else case interfere row1 of
                None \<Rightarrow> (Some (mirrored next (default_row now)), True)
              | Some r \<Rightarrow> mirror_update next (Some r));
          row3 = (case heldToken of
             Some token \<Rightarrow> if pl_isRunning next \<and> token \<noteq> [] then heartbeat now token row2 else row2
           | None \<Rightarrow> row2)
      in (row3, accepted2))"

section \<open>The lock\<close>

definition lock_available :: "ms \<Rightarrow> bool \<Rightarrow> pipeline_row \<Rightarrow> tv" where
  "lock_available now requireScheduleEnabled r =
     tv_all
       ([tv_any [sql_is_null (pr_lockToken r), sql_is_null (pr_lockHeartbeatAt r),
           sql_cmp (\<lambda>h. h < now - PIPELINE_LOCK_STALE_MS) (pr_lockHeartbeatAt r)]]
        @ (if requireScheduleEnabled
           then [tv_any [sql_eq (Some (pr_schedulePaused r)) False,
                   sql_cmp (\<lambda>u. u \<le> now) (pr_pausedUntil r)]]
           else [])
        @ [tv_not (tv_all [sql_eq (Some (pr_isRunning r)) True,
             sql_cmp (\<lambda>u. now - PIPELINE_ACTIVITY_FRESH_MS \<le> u) (Some (pr_lastUpdated r))])])"

definition tryAcquirePipelineLock ::
  "ms \<Rightarrow> string \<Rightarrow> string \<Rightarrow> bool \<Rightarrow> pipeline_row option \<Rightarrow> pipeline_row option \<times> bool" where
  "tryAcquirePipelineLock now token owner requireScheduleEnabled row =
     (let r = (case row of None \<Rightarrow> default_row now | Some r \<Rightarrow> r) in
      if selected (lock_available now requireScheduleEnabled r)
      then (Some (r\<lparr>pr_lockToken := Some token, pr_lockOwner := Some owner,
              pr_lockHeartbeatAt := Some now, pr_schedulePaused := False, pr_pausedUntil := None\<rparr>), True)
      else (Some r, False))"

definition releasePipelineLock :: "string \<Rightarrow> pipeline_row option \<Rightarrow> pipeline_row option" where
  "releasePipelineLock token row =
     map_option (\<lambda>r. if pr_lockToken r = Some token
       then r\<lparr>pr_lockToken := None, pr_lockOwner := None, pr_lockHeartbeatAt := None\<rparr> else r) row"

text \<open>The process side: acquiring remembers the token; the returned closure works once and forgets
  the token unless the process has acquired the lock again since.\<close>

definition process_acquired :: "string \<Rightarrow> pipeline_process \<Rightarrow> pipeline_process" where
  "process_acquired token p = p\<lparr>pp_ownedLockToken := Some token\<rparr>"

definition process_released ::
  "string \<Rightarrow> bool \<Rightarrow> pipeline_row option \<Rightarrow> pipeline_process \<Rightarrow> pipeline_row option \<times> pipeline_process" where
  "process_released token released row p =
     (if released then (row, p)
      else (releasePipelineLock token row,
        if pp_ownedLockToken p = Some token then p\<lparr>pp_ownedLockToken := None\<rparr> else p))"

section \<open>Stop requests and the abort controller\<close>

text \<open>The answer of the row is cached for three seconds; an unreachable database (\<open>None\<close>) does not
  stop the run and is not cached.\<close>

definition pipelineOperatorStopRequested ::
  "ms \<Rightarrow> pipeline_row option option \<Rightarrow> (ms \<times> bool) option \<Rightarrow> (ms \<times> bool) option \<times> bool" where
  "pipelineOperatorStopRequested now answer stopCache =
     (let fetch = (case answer of
            None \<Rightarrow> (stopCache, False)
          | Some row \<Rightarrow>
              let running = (map_option pr_isRunning row \<noteq> Some False)
              in (Some (now, running), \<not> running))
      in case stopCache of
           Some (checked, running) \<Rightarrow> if now - checked < 3000 then (stopCache, \<not> running) else fetch
         | None \<Rightarrow> fetch)"

definition pipelineStopRequested ::
  "bool \<Rightarrow> ms \<Rightarrow> pipeline_row option option \<Rightarrow> (ms \<times> bool) option \<Rightarrow> (ms \<times> bool) option \<times> bool" where
  "pipelineStopRequested backgroundAllowed now answer stopCache =
     (if \<not> backgroundAllowed then (stopCache, True)
      else pipelineOperatorStopRequested now answer stopCache)"

text \<open>Controllers are numbered; \<open>aborted\<close> are those already aborted.\<close>

record abort_registry =
  ab_current :: "nat option"
  ab_aborted :: "nat set"

definition registerActivePipelineAbortController :: "nat \<Rightarrow> abort_registry \<Rightarrow> abort_registry \<times> bool" where
  "registerActivePipelineAbortController c g =
     (case ab_current g of
        Some e \<Rightarrow> if e \<notin> ab_aborted g \<and> e \<noteq> c then (g, False) else (g\<lparr>ab_current := Some c\<rparr>, True)
      | None \<Rightarrow> (g\<lparr>ab_current := Some c\<rparr>, True))"

definition unregisterAbortController :: "nat \<Rightarrow> abort_registry \<Rightarrow> abort_registry" where
  "unregisterAbortController c g = (if ab_current g = Some c then g\<lparr>ab_current := None\<rparr> else g)"

definition abortActivePipeline :: "abort_registry \<Rightarrow> abort_registry \<times> bool" where
  "abortActivePipeline g =
     (case ab_current g of
        None \<Rightarrow> (g, False)
      | Some c \<Rightarrow> if c \<in> ab_aborted g then (g, False)
                  else (g\<lparr>ab_aborted := insert c (ab_aborted g)\<rparr>, True))"

section \<open>The lock as a fenced lease\<close>

datatype pipeline_op =
    Acquire string string bool
  | Heartbeat string
  | Release string
  | Mirror pipeline_state "string option"

fun pipeline_actor :: "pipeline_op \<Rightarrow> string option" where
  "pipeline_actor (Acquire token owner req) = Some token"
| "pipeline_actor (Heartbeat token) = Some token"
| "pipeline_actor (Release token) = Some token"
| "pipeline_actor (Mirror next held) = held"

fun pipeline_step :: "ms \<Rightarrow> pipeline_op \<Rightarrow> pipeline_row option \<Rightarrow> pipeline_row option" where
  "pipeline_step now (Acquire token owner req) row = fst (tryAcquirePipelineLock now token owner req row)"
| "pipeline_step now (Heartbeat token) row = heartbeat now token row"
| "pipeline_step now (Release token) row = releasePipelineLock token row"
| "pipeline_step now (Mirror next held) row = fst (persistPipelineStateMirror now next held id row)"

fun pipeline_owner_op :: "pipeline_op \<Rightarrow> bool" where
  "pipeline_owner_op (Heartbeat token) = True"
| "pipeline_owner_op (Release token) = True"
| "pipeline_owner_op _ = False"

definition lock_holder :: "pipeline_row option \<Rightarrow> string option" where
  "lock_holder row = Option.bind row pr_lockToken"

definition lock_live :: "ms \<Rightarrow> pipeline_row option \<Rightarrow> bool" where
  "lock_live now row =
     (case Option.bind row pr_lockHeartbeatAt of
        None \<Rightarrow> False
      | Some h \<Rightarrow> now \<le> h + PIPELINE_LOCK_STALE_MS)"

lemma lock_fields_mirror_update:
  "map_option pr_lockToken (fst (mirror_update next row)) = map_option pr_lockToken row"
  "map_option pr_lockHeartbeatAt (fst (mirror_update next row)) = map_option pr_lockHeartbeatAt row"
  by (auto simp: mirror_update_def mirrored_def split: option.split)

lemma held_acquire:
  assumes "lock_holder row = Some t" and "lock_live now row"
  shows "tryAcquirePipelineLock now token owner req row = (row, False)"
proof -
  obtain r h where r: "row = Some r" "pr_lockToken r = Some t" "pr_lockHeartbeatAt r = Some h"
    "now \<le> h + PIPELINE_LOCK_STALE_MS"
    using assms by (auto simp: lock_holder_def lock_live_def bind_eq_Some_conv split: option.splits)
  then have "\<not> selected (lock_available now req r)"
    by (simp add: lock_available_def sql_simps)
  with r show ?thesis by (simp add: tryAcquirePipelineLock_def Let_def)
qed

lemma held_mirror:
  assumes "lock_holder row = Some t" and "held \<noteq> Some t"
  shows "lock_holder (fst (persistPipelineStateMirror now next held id row)) = Some t
    \<and> lock_live m (fst (persistPipelineStateMirror now next held id row)) = lock_live m row"
  using assms
  by (cases row)
    (auto simp: persistPipelineStateMirror_def Let_def lock_holder_def lock_live_def mirror_update_def
      mirrored_def heartbeat_def split: option.split)

lemma held_step:
  assumes "lock_holder s = Some t" and "lock_live now s" and "pipeline_actor op \<noteq> Some t"
  shows "lock_holder (pipeline_step now op s) = Some t
    \<and> lock_live m (pipeline_step now op s) = lock_live m s"
proof (cases op)
  case (Acquire token owner req)
  with held_acquire [OF assms(1,2)] assms(1) show ?thesis by simp
next
  case (Mirror st held)
  with held_mirror [OF assms(1)] assms(3) show ?thesis by simp
next
  case (Heartbeat token)
  with assms show ?thesis
    by (cases s) (auto simp: heartbeat_def lock_holder_def lock_live_def split: option.splits)
next
  case (Release token)
  with assms show ?thesis
    by (cases s) (auto simp: releasePipelineLock_def lock_holder_def lock_live_def split: option.splits)
qed

interpretation pipeline: fenced_owner lock_holder lock_live pipeline_actor pipeline_step pipeline_owner_op
proof
  fix s :: "pipeline_row option" and now earlier m :: ms and op t
  show "lock_live now s \<Longrightarrow> earlier \<le> now \<Longrightarrow> lock_live earlier s"
    by (auto simp: lock_live_def split: option.splits)
  show "lock_holder s = Some t \<Longrightarrow> lock_live now s \<Longrightarrow> pipeline_actor op \<noteq> Some t
      \<Longrightarrow> lock_holder (pipeline_step now op s) = Some t"
    using held_step by blast
  show "lock_holder s = Some t \<Longrightarrow> lock_live now s \<Longrightarrow> pipeline_actor op \<noteq> Some t \<Longrightarrow> lock_live m s
      \<Longrightarrow> lock_live m (pipeline_step now op s)"
    using held_step by blast
  show "pipeline_owner_op op \<Longrightarrow> pipeline_actor op \<noteq> lock_holder s \<Longrightarrow> pipeline_step now op s = s"
    by (cases op; cases s) (auto simp: heartbeat_def releasePipelineLock_def lock_holder_def)
qed

section \<open>Versions of the progress\<close>

definition run_updates ::
  "string \<Rightarrow> (ms \<times> bool \<times> state_patch) list \<Rightarrow> pipeline_process \<Rightarrow> pipeline_process" where
  "run_updates host ups p =
     fold (\<lambda>(now, stored, patch) p. fst (updatePipelineState now host stored patch p)) ups p"

lemma recorded_fields:
  "pp_file (fst (recordPipelineStateEvent stored i p)) = pp_file p"
  "pp_pushed (fst (recordPipelineStateEvent stored i p)) = pp_pushed p"
  "pp_ownedLockToken (fst (recordPipelineStateEvent stored i p)) = pp_ownedLockToken p"
  by (auto simp: recordPipelineStateEvent_def Let_def)

lemma read_file_of [simp]: "readPipelineState (Some (file_of s)) = s"
  by (simp add: readPipelineState_def file_of_def)

lemma update_effect:
  "\<exists>next. updatePipelineState now host stored patch p = (fst (updatePipelineState now host stored patch p), next)
    \<and> pl_lastUpdated (readPipelineState (pp_file p)) < pl_lastUpdated next
    \<and> pp_file (fst (updatePipelineState now host stored patch p)) = Some (file_of next)
    \<and> pp_pushed (fst (updatePipelineState now host stored patch p))
        = pp_pushed p @ [(next, pp_ownedLockToken p)]"
  by (simp add: updatePipelineState_def Let_def recorded_fields)

text \<open>The pushed states have strictly increasing versions, the last of them is the file.\<close>

lemma run_updates_versions:
  "\<exists>new. pp_pushed (run_updates host ups p) = pp_pushed p @ new
    \<and> sorted_wrt (\<lambda>x y. pl_lastUpdated (fst x) < pl_lastUpdated (fst y)) new
    \<and> (\<forall>x \<in> set new. pl_lastUpdated (readPipelineState (pp_file p)) < pl_lastUpdated (fst x))
    \<and> length new = length ups
    \<and> (new \<noteq> [] \<longrightarrow> readPipelineState (pp_file (run_updates host ups p)) = fst (last new))"
proof (induction ups arbitrary: p)
  case Nil
  then show ?case by (simp add: run_updates_def)
next
  case (Cons u ups)
  obtain now stored patch where u: "u = (now, stored, patch)" by (cases u)
  let ?q = "fst (updatePipelineState now host stored patch p)"
  obtain next' where n: "pl_lastUpdated (readPipelineState (pp_file p)) < pl_lastUpdated next'"
    "pp_file ?q = Some (file_of next')" "pp_pushed ?q = pp_pushed p @ [(next', pp_ownedLockToken p)]"
    using update_effect by blast
  have run: "run_updates host (u # ups) p = run_updates host ups ?q"
    by (simp add: run_updates_def u)
  obtain new where new: "pp_pushed (run_updates host ups ?q) = pp_pushed ?q @ new"
    "sorted_wrt (\<lambda>x y. pl_lastUpdated (fst x) < pl_lastUpdated (fst y)) new"
    "\<forall>x \<in> set new. pl_lastUpdated next' < pl_lastUpdated (fst x)" "length new = length ups"
    "new \<noteq> [] \<longrightarrow> readPipelineState (pp_file (run_updates host ups ?q)) = fst (last new)"
    using Cons.IH [of ?q] n(2) by auto
  have nil: "new = [] \<Longrightarrow> readPipelineState (pp_file (run_updates host ups ?q)) = next'"
    using new(4) n(2) by (simp add: run_updates_def)
  show ?case
    unfolding run
    using n(1,3) new nil
    by (intro exI [of _ "(next', pp_ownedLockToken p) # new"]) (auto intro: order.strict_trans)
qed

section \<open>Delivery of the mirror\<close>

definition deliver ::
  "(ms \<times> pipeline_state \<times> string option) list \<Rightarrow> pipeline_row option \<Rightarrow> pipeline_row option" where
  "deliver ds row = fold (\<lambda>(now, next, held) row. fst (persistPipelineStateMirror now next held id row)) ds row"

text \<open>The state a row shows.\<close>

definition shown :: "pipeline_row \<Rightarrow> pipeline_state" where
  "shown r = \<lparr>pl_isRunning = pr_isRunning r, pl_currentStep = pr_currentStep r,
     pl_stepProgress = pr_stepProgress r, pl_lastUpdated = pr_lastUpdated r\<rparr>"

lemma shown_beat [simp]: "shown (r\<lparr>pr_lockHeartbeatAt := h\<rparr>) = shown r"
  by (simp add: shown_def)

lemma shown_heartbeat [simp]: "map_option shown (heartbeat now token row) = map_option shown row"
  by (cases row) (simp_all add: heartbeat_def)

lemma shown_mirrored [simp]: "shown (mirrored next r) = next"
  by (simp add: shown_def mirrored_def)

lemma pr_lastUpdated_shown: "pr_lastUpdated r = pl_lastUpdated (shown r)"
  by (simp add: shown_def)

lemma persist_shown:
  "map_option shown (fst (persistPipelineStateMirror now next held id row)) =
     Some (case row of None \<Rightarrow> next
       | Some r \<Rightarrow> if pl_lastUpdated (shown r) \<le> pl_lastUpdated next then next else shown r)"
proof -
  have beat: "map_option shown (case held of
      Some token \<Rightarrow> if pl_isRunning next \<and> token \<noteq> [] then heartbeat now token row2 else row2
    | None \<Rightarrow> row2) = map_option shown row2" for row2
    by (simp split: option.split)
  show ?thesis
    by (cases row)
      (simp_all add: persistPipelineStateMirror_def Let_def mirror_update_def pr_lastUpdated_shown beat
        del: map_option_eq_Some)
qed

lemma deliver_newest:
  assumes "\<And>now x held. (now, x, held) \<in> set ds \<Longrightarrow> x = newest \<or> pl_lastUpdated x < pl_lastUpdated newest"
    and "map_option shown row = Some newest
      \<or> ((\<exists>now held. (now, newest, held) \<in> set ds)
         \<and> (\<forall>r. row = Some r \<longrightarrow> pl_lastUpdated (shown r) \<le> pl_lastUpdated newest))"
  shows "map_option shown (deliver ds row) = Some newest"
  using assms
proof (induction ds arbitrary: row)
  case Nil
  then show ?case by (simp add: deliver_def)
next
  case (Cons d ds)
  obtain now x held where d: "d = (now, x, held)" by (cases d)
  let ?row = "fst (persistPipelineStateMirror now x held id row)"
  have x: "x = newest \<or> pl_lastUpdated x < pl_lastUpdated newest"
    using Cons.prems(1) d by auto
  have later: "\<And>now x held. (now, x, held) \<in> set ds \<Longrightarrow> x = newest \<or> pl_lastUpdated x < pl_lastUpdated newest"
    using Cons.prems(1) by (meson list.set_intros(2))
  have "map_option shown ?row = Some newest
      \<or> ((\<exists>now held. (now, newest, held) \<in> set ds)
         \<and> (\<forall>r. ?row = Some r \<longrightarrow> pl_lastUpdated (shown r) \<le> pl_lastUpdated newest))"
    using Cons.prems(2) x d persist_shown [of now x held row]
    by (cases row) (auto split: if_splits)
  from Cons.IH [OF later this] show ?case by (simp add: deliver_def d)
qed

section \<open>The trail of transitions\<close>

definition record_all :: "event_input list \<Rightarrow> pipeline_process \<Rightarrow> pipeline_process" where
  "record_all is p = fold (\<lambda>i p. fst (recordPipelineStateEvent True i p)) is p"

text \<open>Keeping an entry only where the key changes, from a last recorded key on.\<close>

fun key_changes :: "string option \<Rightarrow> event_input list \<Rightarrow> event_input list" where
  "key_changes k [] = []"
| "key_changes k (i # is) =
     (if k = Some (pipelineTransitionKey i) then key_changes k is
      else i # key_changes (Some (pipelineTransitionKey i)) is)"

section \<open>Properties\<close>

text \<open>C15. Mutual exclusion of the pipeline: as long as five minutes since its last heartbeat have not
  passed, a holder keeps the lock under every sequence of operations of other hosts: acquisitions
  (scheduled or manual), heartbeats and releases with other tokens, and mirror writes of any
  state.\<close>

theorem pipeline_lock_exclusive:
  assumes "lock_holder row = Some t" and "lock_live deadline row"
    and "\<And>now op. (now, op) \<in> set ops \<Longrightarrow> now \<le> deadline \<and> pipeline_actor op \<noteq> Some t"
  shows "lock_holder (fold (\<lambda>(now, op). pipeline_step now op) ops row) = Some t"
  using pipeline.exclusive_until [OF assms] by (rule conjunct1)

theorem pipeline_lock_exclusive_witness:
  "lock_holder (fold (\<lambda>(now, op). pipeline_step now op)
      [(1, Acquire ''b'' ''host'' True), (2, Release ''b''), (3, Mirror IDLE_STATE None)]
      (pipeline_step 0 (Acquire ''a'' ''host'' False)
        (Some ((default_row (- 200000))\<lparr>pr_isRunning := True\<rparr>)))) = Some ''a''"
proof (rule pipeline_lock_exclusive)
  have s: "pipeline_step 0 (Acquire ''a'' ''host'' False)
      (Some ((default_row (- 200000))\<lparr>pr_isRunning := True\<rparr>))
    = Some ((default_row (- 200000))\<lparr>pr_isRunning := True, pr_lockToken := Some ''a'',
        pr_lockOwner := Some ''host'', pr_lockHeartbeatAt := Some 0\<rparr>)"
    by (simp add: tryAcquirePipelineLock_def lock_available_def sql_simps default_row_def
        PIPELINE_ACTIVITY_FRESH_MS_def)
  show "lock_holder (pipeline_step 0 (Acquire ''a'' ''host'' False)
      (Some ((default_row (- 200000))\<lparr>pr_isRunning := True\<rparr>))) = Some ''a''"
    unfolding s by (simp add: lock_holder_def)
  show "lock_live 300000 (pipeline_step 0 (Acquire ''a'' ''host'' False)
      (Some ((default_row (- 200000))\<lparr>pr_isRunning := True\<rparr>)))"
    unfolding s by (simp add: lock_live_def PIPELINE_LOCK_STALE_MS_def)
qed auto

text \<open>A late owner is harmless: once the row names another holder (or none), any sequence of
  heartbeats and releases made with the old token leaves the row exactly as it is.\<close>

theorem late_pipeline_owner_harmless:
  assumes "lock_holder row \<noteq> Some t"
    and "\<And>now op. (now, op) \<in> set ops \<Longrightarrow> op = Heartbeat t \<or> op = Release t"
  shows "fold (\<lambda>(now, op). pipeline_step now op) ops row = row"
  using assms(1)
proof (rule pipeline.late_owner_harmless)
  fix now op assume "(now, op) \<in> set ops"
  with assms(2) show "pipeline_owner_op op \<and> pipeline_actor op = Some t" by fastforce
qed

theorem late_pipeline_owner_harmless_witness:
  "fold (\<lambda>(now, op). pipeline_step now op) [(7, Heartbeat ''a''), (8, Release ''a'')]
     (Some ((default_row 0)\<lparr>pr_lockToken := Some ''b''\<rparr>)) = Some ((default_row 0)\<lparr>pr_lockToken := Some ''b''\<rparr>)"
  by (rule late_pipeline_owner_harmless [where t = "''a''"]) (auto simp: lock_holder_def)

text \<open>The mirror converges however its writes are ordered: after any local updates, with a clock
  that may stand still or jump back, and any delivery of pushed states (late, repeated, out of order,
  or dropped) that includes the last one, the row shows exactly the state of the local file.\<close>

theorem mirror_shows_last_update:
  assumes "pp_pushed p = []" and "ups \<noteq> []"
    and "\<And>r. row = Some r \<Longrightarrow> pr_lastUpdated r \<le> pl_lastUpdated (readPipelineState (pp_file p))"
    and "snd ` set ds \<subseteq> set (pp_pushed (run_updates host ups p))"
    and "last (pp_pushed (run_updates host ups p)) \<in> snd ` set ds"
  shows "map_option shown (deliver ds row) = Some (readPipelineState (pp_file (run_updates host ups p)))"
proof -
  obtain new where new: "pp_pushed (run_updates host ups p) = new"
    "sorted_wrt (\<lambda>x y. pl_lastUpdated (fst x) < pl_lastUpdated (fst y)) new"
    "\<forall>x \<in> set new. pl_lastUpdated (readPipelineState (pp_file p)) < pl_lastUpdated (fst x)"
    "length new = length ups"
    "new \<noteq> [] \<longrightarrow> readPipelineState (pp_file (run_updates host ups p)) = fst (last new)"
    using run_updates_versions [of host ups p] assms(1) by auto
  then have ne: "new \<noteq> []" using assms(2) by auto
  obtain init where init: "new = init @ [last new]" using ne by (metis append_butlast_last_id)
  have below: "x \<in> set new \<Longrightarrow> x = last new \<or> pl_lastUpdated (fst x) < pl_lastUpdated (fst (last new))" for x
    using new(2) init by (metis (no_types, lifting) Un_iff list.set_intros(1) set_append
        set_ConsD empty_iff empty_set sorted_wrt_append)
  have "map_option shown (deliver ds row) = Some (fst (last new))"
  proof (rule deliver_newest)
    fix now x held assume "(now, x, held) \<in> set ds"
    then have "(x, held) \<in> set new" using assms(4) new(1) by force
    from below [OF this] show "x = fst (last new) \<or> pl_lastUpdated x < pl_lastUpdated (fst (last new))"
      by (metis fst_conv)
  next
    have "\<exists>now held. (now, fst (last new), held) \<in> set ds"
      using assms(5) new(1) by force
    moreover have "last new \<in> set new" using ne by simp
    ultimately show "map_option shown row = Some (fst (last new)) \<or>
      ((\<exists>now held. (now, fst (last new), held) \<in> set ds)
        \<and> (\<forall>r. row = Some r \<longrightarrow> pl_lastUpdated (shown r) \<le> pl_lastUpdated (fst (last new))))"
      using assms(3) new(3) by (fastforce simp: shown_def)
  qed
  with new(5) ne show ?thesis by simp
qed

definition idle_process :: pipeline_process where
  "idle_process = \<lparr>pp_file = None, pp_lastLocalStateTimestamp = 0, pp_ownedLockToken = None,
     pp_lastRecordedTransition = None, pp_pushed = [], pp_events = []\<rparr>"

theorem mirror_shows_last_update_witness:
  "let q = run_updates ''h'' [(5, True, \<lparr>sp_isRunning = Some True, sp_currentStep = Some ''Starting'',
         sp_stepProgress = None\<rparr>),
       (3, True, \<lparr>sp_isRunning = None, sp_currentStep = Some ''Scoring'', sp_stepProgress = None\<rparr>)] idle_process
   in map_option shown (deliver (map (\<lambda>x. (9, x)) (rev (pp_pushed q))) None)
     = Some (readPipelineState (pp_file q))"
  unfolding Let_def
  by (rule mirror_shows_last_update) (auto simp: idle_process_def run_updates_def updatePipelineState_def
      Let_def recorded_fields image_iff)

text \<open>The trail records transitions and nothing else: recording a sequence of inputs stores, in
  order, exactly those whose transition key differs from that of the input recorded before, each
  with its step and its class.\<close>

theorem trail_is_the_transitions:
  assumes "\<And>i. i \<in> set is \<Longrightarrow> \<not> ei_force i"
  shows "map (\<lambda>e. (pv_currentStep e, pv_eventType e)) (pp_events (record_all is p)) =
    map (\<lambda>e. (pv_currentStep e, pv_eventType e)) (pp_events p)
      @ map (\<lambda>i. (ei_currentStep i, classifyPipelineTransition i))
          (key_changes (pp_lastRecordedTransition p) is)"
  using assms
  by (induction "is" arbitrary: p) (auto simp: record_all_def recordPipelineStateEvent_def Let_def)

definition sample_input :: event_input where
  "sample_input = \<lparr>ei_isRunning = True, ei_currentStep = ''Starting'', ei_stepProgress = None,
     ei_schedulePaused = False, ei_pausedUntil = None, ei_lockOwner = None, ei_detail = None,
     ei_force = False\<rparr>"

theorem trail_is_the_transitions_witness:
  "map (\<lambda>e. (pv_currentStep e, pv_eventType e)) (pp_events (record_all
      [sample_input, sample_input, sample_input\<lparr>ei_currentStep := ''Error: x''\<rparr>] idle_process))
   = [(''Starting'', ''started''), (''Error: x'', ''error'')]"
proof -
  have "to_lower ''Starting'' = ''starting''" "to_lower ''Error: x'' = ''error: x''"
    by code_simp+
  then show ?thesis
    by (subst trail_is_the_transitions)
      (auto simp: sample_input_def idle_process_def pipelineTransitionKey_def classifyPipelineTransition_def
        starts_with_def prefix_def)
qed

end
