(* ===== verification/Request_Pool.thy ===== *)
theory Request_Pool
  imports Prelude
begin

text \<open>
  Bounded requests to one provider (src/lib/atsRequestConcurrency.ts): which fence a request needs
  (\<open>planAtsRequest\<close>) and the process-local pool of two slots with its fair, abortable queue
  (\<open>withAtsLocalRequestCapacity\<close>) as a step relation.

  Parameters of the plan: the platforms with a host per board (a constant of src/lib/atsUtils.ts),
  the WHATWG URL parser \<open>parse_url\<close>, the slug reader \<open>slug_of_url\<close> of src/lib/atsBoardYield.ts
  and the digest \<open>sha\<close>.
\<close>

section \<open>The plan of a request\<close>

record parsed_url =
  pu_protocol :: string
  pu_username :: string
  pu_password :: string
  pu_port :: string
  pu_hostname :: string
  pu_pathname :: string
  pu_href :: string

record request_plan =
  rq_providerKey :: string
  rq_boardLeaseKey :: "string option"
  rq_units :: nat

definition supported_providers :: "string list \<Rightarrow> string list" where
  "supported_providers per_board =
     per_board @ [''greenhouse'', ''ashby'', ''lever'', ''workable'', ''smartrecruiters'', ''rippling'']"

definition is_host_char :: "char \<Rightarrow> bool" where
  "is_host_char c \<longleftrightarrow> c \<in> set ''abcdefghijklmnopqrstuvwxyz0123456789.-''"

text \<open>The pattern \<open>^[a-z0-9.-]+\.vendor$\<close>.\<close>

definition host_under :: "string \<Rightarrow> string \<Rightarrow> bool" where
  "host_under vendor host \<longleftrightarrow>
     list_all is_host_char host \<and> ends_with host vendor \<and> length vendor < length host"

text \<open>The first path segment after a prefix, followed by a slash where the pattern has one.\<close>

definition path_segment :: "string \<Rightarrow> bool \<Rightarrow> string \<Rightarrow> string option" where
  "path_segment pre slash path =
     (if prefix pre path
      then let rest = drop (length pre) path; seg = takeWhile (\<lambda>c. c \<noteq> CHR ''/'') rest
           in if seg \<noteq> [] \<and> (slash \<longrightarrow> length seg < length rest) then Some seg else None
      else None)"

definition or_else :: "'a option \<Rightarrow> 'a option \<Rightarrow> 'a option" where
  "or_else a b = (case a of None \<Rightarrow> b | Some x \<Rightarrow> Some x)"

definition shared_segment :: "string \<Rightarrow> string \<Rightarrow> string \<Rightarrow> string option" where
  "shared_segment platform host path =
     (if platform = ''greenhouse'' \<and> host = ''boards-api.greenhouse.io''
      then path_segment ''/v1/boards/'' True path
      else if platform = ''ashby'' \<and> host = ''api.ashbyhq.com''
      then path_segment ''/posting-api/job-board/'' False path
      else if platform = ''lever'' \<and> (host = ''api.lever.co'' \<or> host = ''api.eu.lever.co'')
      then path_segment ''/v0/postings/'' False path
      else if platform = ''smartrecruiters'' \<and> host = ''api.smartrecruiters.com''
      then or_else (path_segment ''/v1/companies/'' True path) (path_segment ''/api-v1/companies/'' True path)
      else if platform = ''workable'' \<and> host \<in> {''www.workable.com'', ''apply.workable.com''}
      then or_else (path_segment ''/api/v1/accounts/'' False path) (path_segment ''/api/accounts/'' False path)
      else if platform = ''rippling'' \<and> host = ''ats.rippling.com''
      then path_segment ''/api/v1/board/'' True path
      else None)"

definition is_control_char :: "char \<Rightarrow> bool" where
  "is_control_char c \<longleftrightarrow> (of_char c :: nat) < 32 \<or> (of_char c :: nat) = 127"

definition usable_slug :: "string option \<Rightarrow> string" where
  "usable_slug boardSlug =
     (case boardSlug of
        None \<Rightarrow> []
      | Some s \<Rightarrow> let slug = trim s in
          if slug \<noteq> [] \<and> length slug \<le> 512 \<and> \<not> list_ex is_control_char slug then to_lower slug else [])"

definition request_scope ::
  "(string \<Rightarrow> string \<Rightarrow> string option) \<Rightarrow> string \<Rightarrow> parsed_url \<Rightarrow> string option \<Rightarrow> string" where
  "request_scope slug_of_url platform url boardSlug =
     (let host = to_lower (pu_hostname url) in
      if platform = ''workday'' \<and> host_under ''.myworkdayjobs.com'' host
         \<or> platform = ''oracle'' \<and> host_under ''.oraclecloud.com'' host
      then host
      else let slug = usable_slug boardSlug in
        if slug \<noteq> [] then slug
        else case shared_segment platform host (pu_pathname url) of
            Some seg \<Rightarrow> to_lower seg
          | None \<Rightarrow> (case slug_of_url (pu_href url) platform of
                Some s \<Rightarrow> to_lower s
              | None \<Rightarrow> []))"

definition planAtsRequest ::
  "string list \<Rightarrow> (string \<Rightarrow> parsed_url option) \<Rightarrow> (string \<Rightarrow> string \<Rightarrow> string option) \<Rightarrow> (string \<Rightarrow> string)
     \<Rightarrow> string \<Rightarrow> string option \<Rightarrow> string option \<Rightarrow> request_plan" where
  "planAtsRequest per_board parse_url slug_of_url sha platform requestedUrl boardSlug =
     (let providerKey = ''ATS-'' @ platform;
          exclusive = \<lparr>rq_providerKey = providerKey, rq_boardLeaseKey = None, rq_units = 2\<rparr>
      in if platform \<notin> set (supported_providers per_board) \<or> \<not> truthy requestedUrl then exclusive
         else case parse_url (the requestedUrl) of
             None \<Rightarrow> exclusive
           | Some url \<Rightarrow>
               if pu_protocol url \<noteq> ''https:'' \<or> pu_username url \<noteq> [] \<or> pu_password url \<noteq> []
                  \<or> pu_port url \<noteq> []
               then exclusive
               else let scope = request_scope slug_of_url platform url boardSlug in
                 if scope = [] then exclusive
                 else \<lparr>rq_providerKey = providerKey,
                       rq_boardLeaseKey = Some (''ats-request-board:'' @ platform @ '':'' @ sha scope),
                       rq_units = 1\<rparr>)"

section \<open>The pool\<close>

text \<open>Requests are numbered in the order of their calls. Besides the state of the pool, the record
  keeps what the promises resolved to: who runs on which slots, and the histories of arrivals,
  grants and aborted waits.\<close>

record pool =
  po_available :: "nat list"
  po_waiters :: "(nat \<times> nat) list" \<comment> \<open>request and units\<close>
  po_running :: "(nat \<times> nat list) list" \<comment> \<open>request and its slots\<close>
  po_arrived :: "nat list"
  po_granted :: "nat list"
  po_aborted :: "nat list"

definition empty_pool :: pool where
  "empty_pool = \<lparr>po_available = [0, 1], po_waiters = [], po_running = [], po_arrived = [],
     po_granted = [], po_aborted = []\<rparr>"

text \<open>The body of the loop in \<open>pump\<close>: the first waiter takes the first slots.\<close>

definition grant :: "nat \<times> nat \<Rightarrow> pool \<Rightarrow> pool" where
  "grant w p = p\<lparr>po_waiters := tl (po_waiters p),
     po_available := drop (snd w) (po_available p),
     po_running := po_running p @ [(fst w, take (snd w) (po_available p))],
     po_granted := po_granted p @ [fst w]\<rparr>"

function pump :: "pool \<Rightarrow> pool" where
  "pump p =
     (case po_waiters p of
        [] \<Rightarrow> p
      | w # ws \<Rightarrow> if snd w \<le> length (po_available p) then pump (grant w p) else p)"
  by pat_completeness auto
termination
  by (relation "measure (length \<circ> po_waiters)") (auto simp: grant_def)

declare pump.simps [simp del]

text \<open>A call whose signal is not aborted queues up; \<open>abort_request\<close> is the signal's event, which
  finds the request waiting or does nothing; \<open>release_request\<close> is the \<open>finally\<close> of the call.\<close>

definition enter_request :: "nat \<Rightarrow> nat \<Rightarrow> pool \<Rightarrow> pool" where
  "enter_request i units p =
     pump (p\<lparr>po_waiters := po_waiters p @ [(i, units)], po_arrived := po_arrived p @ [i]\<rparr>)"

definition abort_request :: "nat \<Rightarrow> pool \<Rightarrow> pool" where
  "abort_request i p =
     (if i \<in> fst ` set (po_waiters p)
      then pump (p\<lparr>po_waiters := filter (\<lambda>w. fst w \<noteq> i) (po_waiters p), po_aborted := po_aborted p @ [i]\<rparr>)
      else p)"

definition release_request :: "nat \<Rightarrow> nat list \<Rightarrow> pool \<Rightarrow> pool" where
  "release_request i slots p =
     pump (p\<lparr>po_available := po_available p @ slots,
             po_running := filter (\<lambda>r. fst r \<noteq> i) (po_running p)\<rparr>)"

inductive pool_step :: "pool \<Rightarrow> pool \<Rightarrow> bool" where
  enter: "i \<notin> set (po_arrived p) \<Longrightarrow> units \<in> {1, 2} \<Longrightarrow> pool_step p (enter_request i units p)"
| abort: "pool_step p (abort_request i p)"
| release: "(i, slots) \<in> set (po_running p) \<Longrightarrow> pool_step p (release_request i slots p)"

inductive pool_reachable :: "pool \<Rightarrow> bool" where
  start: "pool_reachable empty_pool"
| step: "pool_reachable p \<Longrightarrow> pool_step p q \<Longrightarrow> pool_reachable q"

inductive_cases pool_stepE: "pool_step p q"

section \<open>Invariant\<close>

text \<open>What holds at every moment, between and inside the pump's rounds: the slots are conserved, every
  running request has one or both of them, ids are not reused, and the order of arrival is kept.\<close>

definition pool_ok :: "pool \<Rightarrow> bool" where
  "pool_ok p \<longleftrightarrow>
     mset (po_available p @ concat (map snd (po_running p))) = {#0, 1#}
     \<and> (\<forall>r \<in> set (po_running p). length (snd r) \<in> {1, 2})
     \<and> (\<forall>w \<in> set (po_waiters p). snd w \<in> {1, 2})
     \<and> distinct (po_arrived p)
     \<and> filter (\<lambda>i. i \<notin> set (po_aborted p)) (po_arrived p) = po_granted p @ map fst (po_waiters p)
     \<and> set (po_aborted p) \<subseteq> set (po_arrived p)
     \<and> distinct (map fst (po_running p))
     \<and> fst ` set (po_running p) \<subseteq> set (po_granted p)"

text \<open>No waiter that fits is left waiting.\<close>

definition pumped :: "pool \<Rightarrow> bool" where
  "pumped p \<longleftrightarrow> (case po_waiters p of [] \<Rightarrow> True | w # ws \<Rightarrow> length (po_available p) < snd w)"

lemma pumped_pump: "pumped (pump p)"
proof (induction p rule: pump.induct)
  case (1 p)
  then show ?case
    by (subst pump.simps) (auto simp: pumped_def split: list.split)
qed

lemma distinct_history:
  "pool_ok p \<Longrightarrow> distinct (po_granted p @ map fst (po_waiters p))"
  unfolding pool_ok_def by (metis distinct_filter)

lemma pool_ok_grant:
  assumes "pool_ok p" and "po_waiters p = w # ws" and "snd w \<le> length (po_available p)"
  shows "pool_ok (grant w p)"
proof -
  have d: "fst w \<notin> set (po_granted p)"
    using distinct_history [OF assms(1)] assms(2) by auto
  have "mset (po_available p) = mset (take (snd w) (po_available p)) + mset (drop (snd w) (po_available p))"
    by (metis append_take_drop_id mset_append)
  moreover have "length (take (snd w) (po_available p)) = snd w"
    using assms(3) by simp
  ultimately show ?thesis
    using assms d unfolding pool_ok_def grant_def
    by (auto simp: ac_simps)
qed

lemma pool_ok_pump: "pool_ok p \<Longrightarrow> pool_ok (pump p)"
proof (induction p rule: pump.induct)
  case (1 p)
  show ?case
  proof (cases "po_waiters p")
    case Nil
    with 1 show ?thesis by (simp add: pump.simps [of p])
  next
    case (Cons w ws)
    with 1 show ?thesis
      by (subst pump.simps) (simp add: pool_ok_grant [OF 1(2) Cons])
  qed
qed

lemma pool_ok_enter:
  assumes "pool_ok p" and "i \<notin> set (po_arrived p)" and "units \<in> {1, 2}"
  shows "pool_ok (enter_request i units p)"
  unfolding enter_request_def
  by (rule pool_ok_pump) (use assms in \<open>auto simp: pool_ok_def\<close>)

lemma filter_fst_map: "map fst (filter (\<lambda>w. fst w \<noteq> i) ws) = filter (\<lambda>j. j \<noteq> i) (map fst ws)"
  by (induction ws) auto

lemma pool_ok_abort:
  assumes "pool_ok p"
  shows "pool_ok (abort_request i p)"
proof (cases "i \<in> fst ` set (po_waiters p)")
  case True
  have d: "i \<notin> set (po_granted p)"
    using distinct_history [OF assms] True by auto
  have order: "filter (\<lambda>i. i \<notin> set (po_aborted p)) (po_arrived p) = po_granted p @ map fst (po_waiters p)"
    using assms by (simp add: pool_ok_def)
  then have "i \<in> set (po_arrived p)"
    using True by (metis (no_types, lifting) Un_iff filter_is_subset list.set_map set_append subsetD)
  moreover have "filter (\<lambda>j. j \<noteq> i) (filter (\<lambda>i. i \<notin> set (po_aborted p)) (po_arrived p))
      = po_granted p @ map fst (filter (\<lambda>w. fst w \<noteq> i) (po_waiters p))"
    unfolding order filter_append filter_fst_map using d by (simp add: filter_id_conv) blast
  then have "filter (\<lambda>j. j \<notin> set (po_aborted p) \<and> j \<noteq> i) (po_arrived p)
      = po_granted p @ map fst (filter (\<lambda>w. fst w \<noteq> i) (po_waiters p))"
    by simp
  moreover have "filter (\<lambda>j. j \<noteq> i \<and> j \<notin> set (po_aborted p)) (po_arrived p)
      = filter (\<lambda>j. j \<notin> set (po_aborted p) \<and> j \<noteq> i) (po_arrived p)"
    by (rule filter_cong) auto
  ultimately have "pool_ok (p\<lparr>po_waiters := filter (\<lambda>w. fst w \<noteq> i) (po_waiters p),
      po_aborted := po_aborted p @ [i]\<rparr>)"
    using assms by (auto simp: pool_ok_def)
  with True show ?thesis by (simp add: abort_request_def pool_ok_pump)
qed (use assms in \<open>simp add: abort_request_def\<close>)

lemma concat_remove:
  "distinct (map fst rs) \<Longrightarrow> (i, s) \<in> set rs \<Longrightarrow>
     mset (concat (map snd rs)) = mset s + mset (concat (map snd (filter (\<lambda>r. fst r \<noteq> i) rs)))"
proof (induction rs)
  case (Cons r rs)
  show ?case
  proof (cases "fst r = i")
    case True
    with Cons.prems have "r = (i, s)" "filter (\<lambda>r. fst r \<noteq> i) rs = rs"
      by (auto simp: filter_id_conv intro: rev_image_eqI)
    then show ?thesis by simp
  next
    case False
    with Cons show ?thesis by (auto simp: ac_simps)
  qed
qed simp

lemma pool_ok_release:
  assumes "pool_ok p" and "(i, slots) \<in> set (po_running p)"
  shows "pool_ok (release_request i slots p)"
  unfolding release_request_def
proof (rule pool_ok_pump)
  have "mset (concat (map snd (po_running p)))
      = mset slots + mset (concat (map snd (filter (\<lambda>r. fst r \<noteq> i) (po_running p))))"
    using assms by (intro concat_remove) (simp_all add: pool_ok_def)
  moreover have "distinct (map fst (filter (\<lambda>r. fst r \<noteq> i) (po_running p)))"
    using assms(1) by (simp add: pool_ok_def distinct_map_filter)
  ultimately show "pool_ok (p\<lparr>po_available := po_available p @ slots,
      po_running := filter (\<lambda>r. fst r \<noteq> i) (po_running p)\<rparr>)"
    using assms(1) by (auto simp: pool_ok_def ac_simps)
qed

lemma pumped_ops:
  "pumped (enter_request i units p)" "pumped (release_request i slots p)"
  "pumped p \<Longrightarrow> pumped (abort_request i p)"
  by (simp_all add: enter_request_def abort_request_def release_request_def pumped_pump)

lemma pool_invariant: "pool_reachable p \<Longrightarrow> pool_ok p \<and> pumped p"
proof (induction rule: pool_reachable.induct)
  case start
  then show ?case by (simp add: pool_ok_def pumped_def empty_pool_def)
next
  case (step p q)
  from step.hyps(2) show ?case
    by (rule pool_stepE)
      (use step.IH in \<open>simp_all add: pumped_ops pool_ok_enter pool_ok_abort pool_ok_release\<close>)
qed

lemma distinct_middle:
  "distinct (a @ us @ s @ vs) \<Longrightarrow> set s \<inter> (set us \<union> set vs) = {} \<and> set s \<inter> set a = {}"
  by auto

lemma length_in_concat: "x \<in> set xs \<Longrightarrow> length x \<le> length (concat xs)"
  by (induction xs) auto

lemma slots_split:
  assumes "pool_ok p" and "po_running p = us @ (i, s) # vs"
  shows "length (po_available p) + length s + length (concat (map snd us)) + length (concat (map snd vs)) = 2"
proof -
  have "size (mset (po_available p @ concat (map snd (po_running p)))) = 2"
    using assms(1) by (simp only: pool_ok_def) simp
  with assms(2) show ?thesis by simp
qed

section \<open>Properties\<close>

text \<open>C16. Slots are exclusive: in every reachable state no slot is free and taken at once, no two
  running requests share a slot, and an exclusive request (two units) runs alone.\<close>

theorem pool_slots_exclusive:
  assumes "pool_reachable p" and "(i, s) \<in> set (po_running p)"
  shows "set s \<inter> set (po_available p) = {} \<and> set s \<subseteq> {0, 1}
    \<and> (\<forall>(j, u) \<in> set (po_running p). j \<noteq> i \<longrightarrow> set s \<inter> set u = {} \<and> length s = 1)"
proof -
  have ok: "pool_ok p" using pool_invariant assms(1) by blast
  have m: "mset (po_available p @ concat (map snd (po_running p))) = mset [0, 1]"
    using ok by (simp add: pool_ok_def)
  have d: "distinct (po_available p @ concat (map snd (po_running p)))"
    using mset_eq_imp_distinct_iff [OF m] by simp
  have slots: "set (po_available p @ concat (map snd (po_running p))) = {0, 1}"
    using mset_eq_setD [OF m] by simp
  obtain us vs where split: "po_running p = us @ (i, s) # vs"
    using assms(2) by (meson split_list)
  have cs: "concat (map snd (po_running p)) = concat (map snd us) @ s @ concat (map snd vs)"
    using split by simp
  have "set s \<inter> set (po_available p) = {}"
    using distinct_middle [OF d [unfolded cs]] by simp
  moreover have "set s \<subseteq> {0, 1}"
    unfolding slots [symmetric] cs by auto
  moreover have "set s \<inter> set u = {} \<and> length s = 1" if "(j, u) \<in> set (po_running p)" "j \<noteq> i" for j u
  proof -
    have ju: "(j, u) \<in> set us \<union> set vs" using that split by auto
    then have "set u \<subseteq> set (concat (map snd us)) \<union> set (concat (map snd vs))" by force
    moreover have "set s \<inter> (set (concat (map snd us)) \<union> set (concat (map snd vs))) = {}"
      using distinct_middle [OF d [unfolded cs]] by simp
    ultimately have disj: "set s \<inter> set u = {}" by blast
    have "length u \<in> {1, 2}" "length s \<in> {1, 2}"
      using ok that(1) assms(2) by (auto simp: pool_ok_def)
    moreover have "length u \<le> length (concat (map snd us)) + length (concat (map snd vs))"
      using ju length_in_concat [of u "map snd us"] length_in_concat [of u "map snd vs"]
      by (force simp: image_iff)
    ultimately show ?thesis using slots_split [OF ok split] disj by auto
  qed
  ultimately show ?thesis by blast
qed

definition sample_pool :: pool where
  "sample_pool = enter_request 2 2 (enter_request 1 1 (enter_request 0 1 empty_pool))"

lemma sample_pool_reachable: "pool_reachable sample_pool"
proof -
  have "pool_reachable (enter_request 0 1 empty_pool)"
    by (rule pool_reachable.step [OF pool_reachable.start pool_step.enter]) (simp_all add: empty_pool_def)
  then have "pool_reachable (enter_request 1 1 (enter_request 0 1 empty_pool))"
    by (rule pool_reachable.step [OF _ pool_step.enter])
      (simp_all add: empty_pool_def enter_request_def pump.simps grant_def)
  then show ?thesis unfolding sample_pool_def
    by (rule pool_reachable.step [OF _ pool_step.enter])
      (simp_all add: empty_pool_def enter_request_def pump.simps grant_def)
qed

lemma sample_pool_value:
  "sample_pool = \<lparr>po_available = [], po_waiters = [(2, 2)], po_running = [(0, [0]), (1, [1])],
     po_arrived = [0, 1, 2], po_granted = [0, 1], po_aborted = []\<rparr>"
  by (simp add: sample_pool_def empty_pool_def enter_request_def pump.simps grant_def)

theorem pool_slots_exclusive_witness:
  "pool_reachable sample_pool \<and> set [0] \<inter> set (po_available sample_pool) = {}"
  using pool_slots_exclusive [OF sample_pool_reachable, of 0 "[0]"] sample_pool_reachable
  by (simp add: sample_pool_value)

text \<open>The queue is fair: in every reachable state the requests granted so far, followed by those
  still waiting, are exactly the requests that arrived and did not abort while waiting, in the order
  of their arrival.\<close>

theorem pool_is_fifo:
  assumes "pool_reachable p"
  shows "po_granted p @ map fst (po_waiters p)
    = filter (\<lambda>i. i \<notin> set (po_aborted p)) (po_arrived p)"
  using pool_invariant [OF assms] by (simp add: pool_ok_def)

theorem pool_is_fifo_witness:
  "po_granted sample_pool @ map fst (po_waiters sample_pool) = [0, 1, 2]"
  using pool_is_fifo [OF sample_pool_reachable] by (simp add: sample_pool_value)

text \<open>Capacity is not wasted and nobody starves: in every reachable state the first waiter does
  not fit in the free slots; so when no request runs, none waits.\<close>

theorem pool_never_idles:
  assumes "pool_reachable p"
  shows "(po_waiters p \<noteq> [] \<longrightarrow> length (po_available p) < snd (hd (po_waiters p)))
    \<and> (po_running p = [] \<longrightarrow> po_waiters p = [] \<and> mset (po_available p) = {#0, 1#})"
proof -
  have ok: "pool_ok p" and pumped: "pumped p" using pool_invariant [OF assms] by auto
  have first: "po_waiters p \<noteq> [] \<longrightarrow> length (po_available p) < snd (hd (po_waiters p))"
    using pumped by (auto simp: pumped_def split: list.splits)
  have "po_waiters p = [] \<and> mset (po_available p) = {#0, 1#}" if "po_running p = []"
  proof -
    have m: "mset (po_available p) = {#0, 1#}" using ok that by (simp add: pool_ok_def)
    then have "size (mset (po_available p)) = 2" by (simp only:) simp
    then have "length (po_available p) = 2" by simp
    moreover have "po_waiters p \<noteq> [] \<Longrightarrow> snd (hd (po_waiters p)) \<le> 2"
    proof -
      assume "po_waiters p \<noteq> []"
      then have "snd (hd (po_waiters p)) \<in> {1, 2}"
        using ok unfolding pool_ok_def by (meson hd_in_set)
      then show "snd (hd (po_waiters p)) \<le> 2" by auto
    qed
    ultimately show ?thesis using first m by fastforce
  qed
  with first show ?thesis by blast
qed

theorem pool_never_idles_witness:
  "pool_reachable sample_pool \<and> length (po_available sample_pool) < snd (hd (po_waiters sample_pool))"
  using pool_never_idles [OF sample_pool_reachable] sample_pool_reachable
  by (simp add: sample_pool_value)

text \<open>A request that cannot be attributed to one board takes the whole pool: a plan has one unit
  exactly when it names a board lease, and then the platform is supported, the address parses as
  HTTPS without credentials or port; and every request to a Workday employer's host gets the same
  lease, whatever page or slug it is made with.\<close>

theorem plan_fences_by_employer:
  "(rq_units (planAtsRequest pb parse slugs sha platform u slug) = 1
      \<longleftrightarrow> rq_boardLeaseKey (planAtsRequest pb parse slugs sha platform u slug) \<noteq> None)
   \<and> (rq_boardLeaseKey (planAtsRequest pb parse slugs sha platform u slug) \<noteq> None \<longrightarrow>
       platform \<in> set (supported_providers pb)
       \<and> (\<exists>x p. u = Some x \<and> parse x = Some p \<and> pu_protocol p = ''https:''
            \<and> pu_username p = [] \<and> pu_password p = [] \<and> pu_port p = []))
   \<and> (''workday'' \<in> set pb \<and> parse a = Some p \<and> parse b = Some q \<and> a \<noteq> [] \<and> b \<noteq> []
       \<and> p = base\<lparr>pu_pathname := path1, pu_href := href1\<rparr> \<and> q = base\<lparr>pu_pathname := path2, pu_href := href2\<rparr>
       \<and> host_under ''.myworkdayjobs.com'' (to_lower (pu_hostname base)) \<longrightarrow>
      planAtsRequest pb parse slugs sha ''workday'' (Some a) slug1
        = planAtsRequest pb parse slugs sha ''workday'' (Some b) slug2)"
proof (intro conjI impI)
  show "rq_units (planAtsRequest pb parse slugs sha platform u slug) = 1
      \<longleftrightarrow> rq_boardLeaseKey (planAtsRequest pb parse slugs sha platform u slug) \<noteq> None"
    by (auto simp: planAtsRequest_def Let_def split: option.split)
next
  assume "rq_boardLeaseKey (planAtsRequest pb parse slugs sha platform u slug) \<noteq> None"
  then show "platform \<in> set (supported_providers pb)"
    "\<exists>x p. u = Some x \<and> parse x = Some p \<and> pu_protocol p = ''https:''
            \<and> pu_username p = [] \<and> pu_password p = [] \<and> pu_port p = []"
    by (auto simp: planAtsRequest_def Let_def truthy_def split: option.splits if_splits)
next
  assume "''workday'' \<in> set pb \<and> parse a = Some p \<and> parse b = Some q \<and> a \<noteq> [] \<and> b \<noteq> []
       \<and> p = base\<lparr>pu_pathname := path1, pu_href := href1\<rparr> \<and> q = base\<lparr>pu_pathname := path2, pu_href := href2\<rparr>
       \<and> host_under ''.myworkdayjobs.com'' (to_lower (pu_hostname base))"
  then show "planAtsRequest pb parse slugs sha ''workday'' (Some a) slug1
        = planAtsRequest pb parse slugs sha ''workday'' (Some b) slug2"
    by (simp add: planAtsRequest_def Let_def truthy_def supported_providers_def request_scope_def)
qed

definition sample_url :: parsed_url where
  "sample_url = \<lparr>pu_protocol = ''https:'', pu_username = [], pu_password = [], pu_port = [],
     pu_hostname = ''acme.wd1.myworkdayjobs.com'', pu_pathname = ''/jobs'', pu_href = ''u''\<rparr>"

theorem plan_fences_by_employer_witness:
  "planAtsRequest [''workday''] (\<lambda>x. Some (sample_url\<lparr>pu_pathname := x, pu_href := x\<rparr>)) (\<lambda>h p. None) id
     ''workday'' (Some ''a'') (Some ''one'')
   = planAtsRequest [''workday''] (\<lambda>x. Some (sample_url\<lparr>pu_pathname := x, pu_href := x\<rparr>)) (\<lambda>h p. None) id
     ''workday'' (Some ''b'') None"
proof -
  have "to_lower ''acme.wd1.myworkdayjobs.com'' = ''acme.wd1.myworkdayjobs.com''" by code_simp
  then have "host_under ''.myworkdayjobs.com'' (to_lower (pu_hostname sample_url))"
    by (simp add: sample_url_def host_under_def is_host_char_def ends_with_def suffix_def)
  then show ?thesis
    using plan_fences_by_employer [where a = "''a''" and b = "''b''" and base = sample_url
        and pb = "[''workday'']" and parse = "\<lambda>x. Some (sample_url\<lparr>pu_pathname := x, pu_href := x\<rparr>)"]
    by simp
qed

end
