(* ===== verification/Task_Catalog.thy ===== *)
theory Task_Catalog
  imports Canonical_Json
begin

text \<open>
  The catalogue of ingestion tasks (\<open>src/lib/ingestionControl.ts\<close>, \<open>src/lib/jobSearchQueries.ts\<close>):
  the identity of a task, the reclassification that moves a task in place, and the reconciliation
  of the stored rows with the specifications in the code.

  The digest, the Unicode decomposition (\<open>normalize('NFKD')\<close>, the removal of combining marks and
  \<open>toLowerCase\<close>, here \<open>decompose\<close>) and the identifiers the database hands out are parameters.
\<close>

named_theorems catalog_simps \<open>unfoldings of the catalogue operations\<close>

section \<open>Query families\<close>

definition is_word :: "char \<Rightarrow> bool" where
  "is_word c = (let n = (of_char c :: nat) in
     (48 \<le> n \<and> n \<le> 57) \<or> (65 \<le> n \<and> n \<le> 90) \<or> (97 \<le> n \<and> n \<le> 122) \<or> n = 95)"

definition is_slug_char :: "char \<Rightarrow> bool" where
  "is_slug_char c = (let n = (of_char c :: nat) in (48 \<le> n \<and> n \<le> 57) \<or> (97 \<le> n \<and> n \<le> 122))"

text \<open>\<open>s.replace(/\bword\b/g, by)\<close>; \<open>prev\<close> tells whether a word character precedes.\<close>

function replace_word :: "string \<Rightarrow> string \<Rightarrow> bool \<Rightarrow> string \<Rightarrow> string" where
  "replace_word word by prev [] = []"
| "replace_word word by prev (c # cs) =
     (let rest = drop (length word) (c # cs) in
      if word \<noteq> [] \<and> \<not> prev \<and> starts_with (c # cs) word \<and> (rest = [] \<or> \<not> is_word (hd rest))
      then by @ replace_word word by True rest
      else c # replace_word word by (is_word c) cs)"
  by pat_completeness auto
termination by (relation "measure (\<lambda>(w, r, p, s). length s)") auto

text \<open>\<open>s.replace(/[^a-z0-9]+/g, '_')\<close>, and the underscores trimmed from both ends.\<close>

fun underscored :: "bool \<Rightarrow> string \<Rightarrow> string" where
  "underscored prev [] = []"
| "underscored prev (c # cs) =
     (if is_slug_char c then c # underscored False cs
      else if prev then underscored True cs else CHR ''_'' # underscored True cs)"

definition trim_underscores :: "string \<Rightarrow> string" where
  "trim_underscores s = rev (dropWhile (\<lambda>c. c = CHR ''_'') (rev (dropWhile (\<lambda>c. c = CHR ''_'') s)))"

text \<open>\<open>s.replace(/_+/g, '_')\<close>.\<close>

fun squeeze_underscores :: "string \<Rightarrow> string" where
  "squeeze_underscores (c # d # cs) =
     (if c = CHR ''_'' \<and> d = CHR ''_'' then squeeze_underscores (d # cs) else c # squeeze_underscores (d # cs))"
| "squeeze_underscores s = s"

definition normalizeQueryFamily :: "(string \<Rightarrow> string) \<Rightarrow> string \<Rightarrow> string" where
  "normalizeQueryFamily decompose query =
     str_or (Some (squeeze_underscores (trim_underscores (underscored False
       (replace_word ''pbm'' ''partner business manager'' False
         (replace_word ''mgr'' ''manager'' False (decompose query))))))) ''all''"

text \<open>The families of the territory and retail portfolio.\<close>

definition TERRITORY_FIELD_JOB_SEARCH_QUERIES :: "string list" where
  "TERRITORY_FIELD_JOB_SEARCH_QUERIES =
     [''territory manager'', ''territory sales manager'', ''territory sales representative'',
      ''territory sales executive'', ''regional sales manager'', ''district sales manager'',
      ''field sales manager'', ''field sales representative'', ''field sales executive'',
      ''outside sales representative'', ''outside sales manager'']"

definition RETAIL_DISTRIBUTOR_JOB_SEARCH_QUERIES :: "string list" where
  "RETAIL_DISTRIBUTOR_JOB_SEARCH_QUERIES =
     [''territory account manager'', ''distributor account manager'', ''distributor business manager'',
      ''wholesale account manager'', ''retail account manager'', ''retail business manager'',
      ''manufacturer sales representative'', ''dealer account manager'', ''dealer success manager'',
      ''dealer sales manager'', ''dealer business consultant'', ''dealer marketing consultant'',
      ''distributor sales manager'', ''distributor development manager'', ''distributor growth lead'',
      ''district retail manager'']"

definition RETAIL_DISTRIBUTOR_DESCRIPTION_QUERIES :: "string list" where
  "RETAIL_DISTRIBUTOR_DESCRIPTION_QUERIES =
     [''\"assigned accounts\" \"territory\"'', ''\"retail partners\" \"sales\"'', ''\"independent retailers\"'',
      ''\"distributor relationships\"'', ''\"product training\" \"dealers\"'',
      ''\"territory growth\" \"existing accounts\"'', ''\"dealer network\" \"sales\"'',
      ''\"distributor network\" \"sales\"'', ''\"reseller training\"'', ''\"distributor performance\"'',
      ''\"dealer performance\"'', ''\"joint business planning\" \"dealers\"'',
      ''\"route to market\" \"distributors\"'']"

definition TERRITORY_RETAIL_QUERY_FAMILIES :: "string list" where
  "TERRITORY_RETAIL_QUERY_FAMILIES =
     map (\<lambda>query. trim_underscores (underscored False (to_lower query)))
       (TERRITORY_FIELD_JOB_SEARCH_QUERIES @ RETAIL_DISTRIBUTOR_JOB_SEARCH_QUERIES
        @ [''distribution account manager'', ''distribution sales manager'', ''dealer development manager'',
           ''dealer performance manager'', ''territory performance manager'', ''retail performance manager'']
        @ map (\<lambda>query. ''description '' @ query)
            ([''sell-through'', ''distributor management''] @ RETAIL_DISTRIBUTOR_DESCRIPTION_QUERIES))"

definition isTerritoryRetailSearchFamily :: "string option \<Rightarrow> bool" where
  "isTerritoryRetailSearchFamily queryFamily =
     (case queryFamily of None \<Rightarrow> False | Some f \<Rightarrow> f \<in> set TERRITORY_RETAIL_QUERY_FAMILIES)"

section \<open>Geography lanes\<close>

record geo_lane =
  gl_id :: string
  gl_label :: string
  gl_providerLocation :: string
  gl_remoteOnly :: bool

text \<open>The label of the first lane has an en dash, which is outside \<^typ>\<open>char\<close>; a hyphen stands for it.\<close>

definition GEO_LANES :: "geo_lane list" where
  "GEO_LANES =
     [\<lparr>gl_id = ''msp_metro'', gl_label = ''Minneapolis-St. Paul / 55405'', gl_providerLocation = ''55405'',
       gl_remoteOnly = False\<rparr>,
      \<lparr>gl_id = ''minnesota'', gl_label = ''Minnesota'', gl_providerLocation = ''Minnesota'', gl_remoteOnly = False\<rparr>,
      \<lparr>gl_id = ''upper_midwest'', gl_label = ''Upper Midwest / regional from Minneapolis'',
       gl_providerLocation = ''Upper Midwest'', gl_remoteOnly = False\<rparr>,
      \<lparr>gl_id = ''us_remote'', gl_label = ''United States remote'',
       gl_providerLocation = ''Remote, United States'', gl_remoteOnly = True\<rparr>]"

definition getGeoLane :: "string option \<Rightarrow> geo_lane" where
  "getGeoLane i =
     (case find (\<lambda>lane. Some (gl_id lane) = i) GEO_LANES of
        Some lane \<Rightarrow> lane
      | None \<Rightarrow> \<lparr>gl_id = str_or i ''unspecified'', gl_label = str_or i ''Unspecified'',
                 gl_providerLocation = [], gl_remoteOnly = False\<rparr>)"

section \<open>The identity of a task\<close>

record task_spec =
  ts_source :: string
  ts_queryFamily :: "string option"
  ts_searchQuery :: "string option"
  ts_geoLane :: string
  ts_ingestionMode :: string

definition stableHash :: "(string \<Rightarrow> string) \<Rightarrow> string list \<Rightarrow> string" where
  "stableHash sha parts = sha (join [CHR 0x1F] parts)"

definition task_family :: "(string \<Rightarrow> string) \<Rightarrow> task_spec \<Rightarrow> string" where
  "task_family decompose s =
     str_or (ts_queryFamily s)
       (if truthy (ts_searchQuery s) then normalizeQueryFamily decompose (the (ts_searchQuery s)) else ''all'')"

definition buildIngestionTaskKey :: "(string \<Rightarrow> string) \<Rightarrow> (string \<Rightarrow> string) \<Rightarrow> task_spec \<Rightarrow> string" where
  "buildIngestionTaskKey sha decompose s =
     ''ingest:v1:'' @ stableHash sha [to_lower (ts_source s), task_family decompose s,
       to_lower (ts_geoLane s), to_lower (ts_ingestionMode s)]"

definition ingestionTaskCatalogHash :: "(string \<Rightarrow> string) \<Rightarrow> string list \<Rightarrow> string" where
  "ingestionTaskCatalogHash sha taskKeys =
     sha (''['' @ join '','' (map quote_string (js_sort code_unit_cmp taskKeys)) @ '']'' @ [CHR 0x0A])"

section \<open>The stored tasks\<close>

record task_row =
  it_id :: string
  it_taskKey :: string
  it_source :: string
  it_queryFamily :: "string option"
  it_searchQuery :: "string option"
  it_geoLane :: string
  it_ingestionMode :: string
  it_taskKind :: string
  it_lifecycleStatus :: string
  it_retiredAt :: "ms option"
  it_status :: string
  it_nextRunAt :: ms
  it_windowStart :: "ms option"
  it_windowEnd :: "ms option"
  it_watermarkAt :: "ms option"
  it_cursor :: "json option"
  it_leaseToken :: "string option"
  it_leaseOwner :: "string option"
  it_leaseStartedAt :: "ms option"
  it_heartbeatAt :: "ms option"
  it_leaseExpiresAt :: "ms option"
  it_attempt :: nat
  it_counters :: "int list" \<comment> \<open>requests, seen, inserted, duplicates, filtered, processing and provider errors\<close>
  it_lastError :: "string option"
  it_lastStartedAt :: "ms option"
  it_lastCompletedAt :: "ms option"

definition or_null :: "string option \<Rightarrow> string option" where
  "or_null s = (if truthy s then s else None)"

text \<open>A row as it is created: the columns the specification does not give have their defaults.\<close>

definition new_task :: "(string \<Rightarrow> string) \<Rightarrow> ms \<Rightarrow> string \<Rightarrow> task_spec \<Rightarrow> task_row" where
  "new_task fresh now taskKey s =
     \<lparr>it_id = fresh taskKey, it_taskKey = taskKey, it_source = ts_source s, it_queryFamily = or_null (ts_queryFamily s),
      it_searchQuery = or_null (ts_searchQuery s), it_geoLane = ts_geoLane s, it_ingestionMode = ts_ingestionMode s,
      it_taskKind = ''search'', it_lifecycleStatus = ''active'', it_retiredAt = None, it_status = ''queued'',
      it_nextRunAt = now, it_windowStart = None, it_windowEnd = None, it_watermarkAt = None, it_cursor = None,
      it_leaseToken = None, it_leaseOwner = None, it_leaseStartedAt = None, it_heartbeatAt = None,
      it_leaseExpiresAt = None, it_attempt = 0, it_counters = replicate 7 0, it_lastError = None,
      it_lastStartedAt = None, it_lastCompletedAt = None\<rparr>"

definition identify :: "task_spec \<Rightarrow> task_row \<Rightarrow> task_row" where
  "identify s r = r\<lparr>it_source := ts_source s, it_queryFamily := or_null (ts_queryFamily s),
     it_searchQuery := or_null (ts_searchQuery s), it_geoLane := ts_geoLane s, it_ingestionMode := ts_ingestionMode s\<rparr>"

text \<open>\<open>updateMany\<close> and \<open>upsert\<close> on the table.\<close>

definition update_many :: "(task_row \<Rightarrow> bool) \<Rightarrow> (task_row \<Rightarrow> task_row) \<Rightarrow> task_row list \<Rightarrow> task_row list" where
  "update_many P f rows = map (\<lambda>r. if P r then f r else r) rows"

definition upsert_task :: "string \<Rightarrow> (task_row \<Rightarrow> task_row) \<Rightarrow> task_row \<Rightarrow> task_row list \<Rightarrow> task_row list" where
  "upsert_task taskKey f new rows =
     (if \<exists>r \<in> set rows. it_taskKey r = taskKey then update_many (\<lambda>r. it_taskKey r = taskKey) f rows
      else rows @ [new])"

section \<open>Reclassification\<close>

record catalog_move =
  mv_id :: string
  mv_previousTaskKey :: string
  mv_taskKey :: string

datatype catalog_error =
    BothIdentitiesExist
  | ReclassificationRaced
  | LeasedConflicts "string list"

definition gusto_public :: "task_spec \<Rightarrow> bool" where
  "gusto_public s \<longleftrightarrow> ts_source s = ''Gusto'' \<and> ts_ingestionMode s = ''public-board''"

definition paid_key :: "(string \<Rightarrow> string) \<Rightarrow> (string \<Rightarrow> string) \<Rightarrow> task_spec \<Rightarrow> string" where
  "paid_key sha decompose s = buildIngestionTaskKey sha decompose (s\<lparr>ts_ingestionMode := ''paid-browser''\<rparr>)"

definition planGustoBoardTaskReclassification ::
  "(string \<Rightarrow> string) \<Rightarrow> (string \<Rightarrow> string) \<Rightarrow> task_spec list \<Rightarrow> task_row list \<Rightarrow> catalog_error + catalog_move list" where
  "planGustoBoardTaskReclassification sha decompose specs rows =
     (case find gusto_public specs of
        None \<Rightarrow> Inr []
      | Some s \<Rightarrow>
          let previousTaskKey = paid_key sha decompose s; taskKey = buildIngestionTaskKey sha decompose s in
          case find (\<lambda>r. it_taskKey r = previousTaskKey) rows of
            None \<Rightarrow> Inr []
          | Some previous \<Rightarrow>
              if \<exists>r \<in> set rows. it_taskKey r = taskKey then Inl BothIdentitiesExist
              else Inr [\<lparr>mv_id = it_id previous, mv_previousTaskKey = previousTaskKey, mv_taskKey = taskKey\<rparr>])"

definition applyGustoBoardTaskReclassification ::
  "catalog_move \<Rightarrow> task_row list \<Rightarrow> catalog_error + task_row list" where
  "applyGustoBoardTaskReclassification move rows =
     (let P = (\<lambda>r. it_id r = mv_id move \<and> it_taskKey r = mv_previousTaskKey move
                 \<and> it_leaseToken r = None \<and> it_status r \<noteq> ''running'') in
      if length (filter P rows) \<noteq> 1 then Inl ReclassificationRaced
      else Inr (update_many P (\<lambda>r. r\<lparr>it_taskKey := mv_taskKey move, it_ingestionMode := ''public-board''\<rparr>) rows))"

fun apply_moves :: "catalog_move list \<Rightarrow> task_row list \<Rightarrow> catalog_error + task_row list" where
  "apply_moves [] rows = Inr rows"
| "apply_moves (m # ms) rows =
     (case applyGustoBoardTaskReclassification m rows of Inl e \<Rightarrow> Inl e | Inr rows' \<Rightarrow> apply_moves ms rows')"

definition reclassifyGustoBoardTaskBeforeClaim ::
  "(string \<Rightarrow> string) \<Rightarrow> (string \<Rightarrow> string) \<Rightarrow> task_spec \<Rightarrow> task_row list \<Rightarrow> catalog_error + task_row list" where
  "reclassifyGustoBoardTaskBeforeClaim sha decompose s rows =
     (if \<not> gusto_public s then Inr rows
      else
        let candidates = filter (\<lambda>r. it_taskKey r \<in> {buildIngestionTaskKey sha decompose s, paid_key sha decompose s}) rows in
        case planGustoBoardTaskReclassification sha decompose [s] candidates of
          Inl e \<Rightarrow> Inl e
        | Inr moves \<Rightarrow> apply_moves moves rows)"

section \<open>Reconciliation\<close>

definition ORCHESTRATION_KEY :: string where
  "ORCHESTRATION_KEY = ''scheduler:v2:legacy-orchestration''"

record catalog_preview =
  cp_catalogHash :: string
  cp_expectedTaskCount :: nat
  cp_additions :: "string list"
  cp_reactivations :: "string list"
  cp_retirements :: "string list"
  cp_orchestration :: "string list"
  cp_unchanged :: "string list"
  cp_leasedConflicts :: "string list"
  cp_reclassifications :: "catalog_move list"

definition expected_entries ::
  "(string \<Rightarrow> string) \<Rightarrow> (string \<Rightarrow> string) \<Rightarrow> task_spec list \<Rightarrow> (string \<times> task_spec) list" where
  "expected_entries sha decompose specs =
     (let entries = map (\<lambda>s. (buildIngestionTaskKey sha decompose s, s)) specs in
      map (\<lambda>k. (k, the (map_of_last entries k))) (dedup (map fst entries)))"

definition moved_rows :: "catalog_move list \<Rightarrow> task_row list \<Rightarrow> task_row list" where
  "moved_rows moves stored =
     map (\<lambda>r. case find (\<lambda>m. mv_id m = it_id r) moves of
         Some m \<Rightarrow> r\<lparr>it_taskKey := mv_taskKey m\<rparr>
       | None \<Rightarrow> r) stored"

definition search_active :: "task_row \<Rightarrow> bool" where
  "search_active r \<longleftrightarrow> it_taskKind r = ''search'' \<and> it_lifecycleStatus r = ''active''"

definition search_retired :: "task_row \<Rightarrow> bool" where
  "search_retired r \<longleftrightarrow> it_taskKind r = ''search'' \<and> it_lifecycleStatus r = ''retired''"

definition orchestration_active :: "task_row \<Rightarrow> bool" where
  "orchestration_active r \<longleftrightarrow> it_taskKind r = ''orchestration'' \<and> it_lifecycleStatus r = ''active''"

definition busy :: "task_row \<Rightarrow> bool" where
  "busy r \<longleftrightarrow> it_leaseToken r \<noteq> None \<or> it_status r = ''running''"

definition catalog_preview_of ::
  "(string \<Rightarrow> string) \<Rightarrow> string list \<Rightarrow> catalog_move list \<Rightarrow> task_row list \<Rightarrow> catalog_preview" where
  "catalog_preview_of sha expectedKeys moves existing =
     (let byKey = map_of_last (map (\<lambda>r. (it_taskKey r, r)) existing);
          orchestration = js_sort code_unit_cmp (map it_taskKey
            (filter (\<lambda>r. it_taskKey r = ORCHESTRATION_KEY \<and> \<not> orchestration_active r) existing));
          additions = filter (\<lambda>k. byKey k = None) expectedKeys;
          reactivations = filter (\<lambda>k. case byKey k of None \<Rightarrow> False | Some r \<Rightarrow> \<not> search_active r) expectedKeys;
          retirements = js_sort code_unit_cmp (map it_taskKey
            (filter (\<lambda>r. it_taskKey r \<noteq> ORCHESTRATION_KEY \<and> it_taskKey r \<notin> set expectedKeys \<and> \<not> search_retired r)
              existing));
          changed = additions @ reactivations @ retirements @ orchestration @ map mv_taskKey moves
      in \<lparr>cp_catalogHash = ingestionTaskCatalogHash sha expectedKeys, cp_expectedTaskCount = length expectedKeys,
          cp_additions = additions, cp_reactivations = reactivations, cp_retirements = retirements,
          cp_orchestration = orchestration,
          cp_unchanged = js_sort code_unit_cmp (filter (\<lambda>k. k \<notin> set changed) (map it_taskKey existing)),
          cp_leasedConflicts = js_sort code_unit_cmp (map it_taskKey
            (filter (\<lambda>r. it_taskKey r \<in> set changed \<and> busy r) existing)),
          cp_reclassifications = moves\<rparr>)"

definition apply_membership ::
  "(string \<Rightarrow> string) \<Rightarrow> ms \<Rightarrow> string list \<Rightarrow> (string \<times> task_spec) list \<Rightarrow> task_row list \<Rightarrow> task_row list" where
  "apply_membership fresh now changes entries rows =
     fold (\<lambda>(k, s) rows.
       if k \<notin> set changes then rows
       else upsert_task k
         (\<lambda>r. (identify s r)\<lparr>it_taskKind := ''search'', it_lifecycleStatus := ''active'', it_retiredAt := None\<rparr>)
         (new_task fresh now k s) rows) entries rows"

definition apply_orchestration :: "string list \<Rightarrow> task_row list \<Rightarrow> task_row list" where
  "apply_orchestration ks rows =
     (if ks = [] then rows
      else update_many (\<lambda>r. it_taskKey r \<in> set ks \<and> it_leaseToken r = None)
        (\<lambda>r. r\<lparr>it_taskKind := ''orchestration'', it_lifecycleStatus := ''active'', it_retiredAt := None\<rparr>) rows)"

definition apply_retirements :: "ms \<Rightarrow> string list \<Rightarrow> task_row list \<Rightarrow> task_row list" where
  "apply_retirements now ks rows =
     (if ks = [] then rows
      else update_many (\<lambda>r. it_taskKey r \<in> set ks \<and> it_leaseToken r = None \<and> it_status r \<noteq> ''running'')
        (\<lambda>r. r\<lparr>it_taskKind := ''search'', it_lifecycleStatus := ''retired'', it_retiredAt := Some now\<rparr>) rows)"

definition reconcileIngestionTaskCatalog ::
  "(string \<Rightarrow> string) \<Rightarrow> (string \<Rightarrow> string) \<Rightarrow> (string \<Rightarrow> string) \<Rightarrow> bool \<Rightarrow> ms \<Rightarrow> task_spec list \<Rightarrow> task_row list
    \<Rightarrow> catalog_error + (task_row list \<times> catalog_preview)" where
  "reconcileIngestionTaskCatalog sha decompose fresh apply now specs stored =
     (let expected = expected_entries sha decompose specs;
          expectedKeys = js_sort code_unit_cmp (map fst expected)
      in case planGustoBoardTaskReclassification sha decompose specs stored of
        Inl e \<Rightarrow> Inl e
      | Inr moves \<Rightarrow>
          let preview = catalog_preview_of sha expectedKeys moves (moved_rows moves stored) in
          if \<not> apply then Inr (stored, preview)
          else if cp_leasedConflicts preview \<noteq> [] then Inl (LeasedConflicts (cp_leasedConflicts preview))
          else case apply_moves moves stored of
            Inl e \<Rightarrow> Inl e
          | Inr rows \<Rightarrow>
              Inr (apply_retirements now (cp_retirements preview)
                (apply_orchestration (cp_orchestration preview)
                  (apply_membership fresh now (cp_additions preview @ cp_reactivations preview) expected rows)),
                preview))"

text \<open>Seeding refreshes the identifying columns only and answers the id and key of every task.\<close>

definition seedIngestionTaskSpecs ::
  "(string \<Rightarrow> string) \<Rightarrow> (string \<Rightarrow> string) \<Rightarrow> (string \<Rightarrow> string) \<Rightarrow> ms \<Rightarrow> task_spec list \<Rightarrow> task_row list
    \<Rightarrow> task_row list \<times> (string \<times> string) list" where
  "seedIngestionTaskSpecs sha decompose fresh now specs rows =
     fold (\<lambda>(k, s) (rows, seeded).
       let rows' = upsert_task k (identify s) (new_task fresh now k s) rows in
       (rows', seeded @ map (\<lambda>r. (it_id r, it_taskKey r)) (filter (\<lambda>r. it_taskKey r = k) rows')))
       (expected_entries sha decompose specs) (rows, [])"

section \<open>What reconciliation establishes\<close>

lemma update_many_keys: "(\<And>r. P r \<Longrightarrow> it_taskKey (f r) = it_taskKey r)
    \<Longrightarrow> map it_taskKey (update_many P f rows) = map it_taskKey rows"
  by (simp add: update_many_def)

lemma build_not_orchestration: "buildIngestionTaskKey sha d s \<noteq> ORCHESTRATION_KEY"
  by (simp add: buildIngestionTaskKey_def ORCHESTRATION_KEY_def)

lemma expected_keys_set [simp]:
  "fst ` set (expected_entries sha d specs) = buildIngestionTaskKey sha d ` set specs"
  by (simp add: expected_entries_def Let_def image_image)

text \<open>What a reconciliation reads of a row.\<close>

definition row_view :: "task_row \<Rightarrow> string \<times> string \<times> string \<times> bool" where
  "row_view r = (it_taskKey r, it_taskKind r, it_lifecycleStatus r, busy r)"

lemma plan_cases:
  assumes "planGustoBoardTaskReclassification sha d specs rows = Inr moves"
  obtains (still) "moves = []"
      "\<And>s. find gusto_public specs = Some s \<Longrightarrow> paid_key sha d s \<notin> it_taskKey ` set rows"
  | (move) s previous where "find gusto_public specs = Some s" "previous \<in> set rows"
      "it_taskKey previous = paid_key sha d s"
      "moves = [\<lparr>mv_id = it_id previous, mv_previousTaskKey = paid_key sha d s,
        mv_taskKey = buildIngestionTaskKey sha d s\<rparr>]"
      "buildIngestionTaskKey sha d s \<notin> it_taskKey ` set rows"
proof (cases "find gusto_public specs")
  case None
  with assms still show ?thesis by (simp add: planGustoBoardTaskReclassification_def)
next
  case (Some s)
  show ?thesis
  proof (cases "find (\<lambda>r. it_taskKey r = paid_key sha d s) rows")
    case None
    then have "paid_key sha d s \<notin> it_taskKey ` set rows" using find_eq_NoneD by fastforce
    with None Some assms still show ?thesis by (simp add: planGustoBoardTaskReclassification_def)
  next
    case (Some r)
    note r = find_SomeD [OF Some]
    show ?thesis
      by (rule move [of s r])
        (use assms Some r \<open>find gusto_public specs = Some s\<close> in
          \<open>auto simp: planGustoBoardTaskReclassification_def Let_def split: if_splits\<close>)
  qed
qed

lemma distinct_key_eq: "distinct (map f xs) \<Longrightarrow> x \<in> set xs \<Longrightarrow> y \<in> set xs \<Longrightarrow> f x = f y \<Longrightarrow> x = y"
  by (metis distinct_map inj_on_def)

lemma applied_move_view:
  assumes "distinct (map it_id stored)" and "distinct (map it_taskKey stored)"
    and "planGustoBoardTaskReclassification sha d specs stored = Inr moves"
    and "apply_moves moves stored = Inr rows"
  shows "map row_view rows = map row_view (moved_rows moves stored)"
  using assms(3)
proof (cases rule: plan_cases)
  case still
  with assms(4) show ?thesis by (simp add: moved_rows_def)
next
  case (move s p)
  let ?P = "\<lambda>r. it_id r = it_id p \<and> it_taskKey r = paid_key sha d s \<and> it_leaseToken r = None
    \<and> it_status r \<noteq> ''running''"
  have one: "length (filter ?P stored) = 1"
    and rows: "rows = update_many ?P (\<lambda>r. r\<lparr>it_taskKey := buildIngestionTaskKey sha d s,
      it_ingestionMode := ''public-board''\<rparr>) stored"
    using assms(4) move(4)
    by (auto simp: applyGustoBoardTaskReclassification_def Let_def split: if_splits)
  from one have "filter ?P stored \<noteq> []" by force
  then obtain q where "q \<in> set stored" "?P q" unfolding filter_empty_conv by blast
  then have "q = p" using distinct_key_eq [OF assms(1) _ move(2)] by blast
  with \<open>?P q\<close> have p: "?P p" by blast
  have "?P r \<longleftrightarrow> it_id r = it_id p" if "r \<in> set stored" for r
    using distinct_key_eq [OF assms(1) that move(2)] p by (cases "r = p") auto
  then show ?thesis
    by (auto simp: rows move(4) moved_rows_def update_many_def row_view_def busy_def)
qed

lemma membership_row:
  assumes "r \<in> set (apply_membership fresh now changes es rows)"
  shows "if it_taskKey r \<in> set changes \<and> it_taskKey r \<in> fst ` set es then search_active r else r \<in> set rows"
  using assms
proof (induction es arbitrary: rows)
  case Nil
  then show ?case by (simp add: apply_membership_def)
next
  case (Cons e es)
  obtain k s where e: "e = (k, s)" by (cases e)
  let ?new = "new_task fresh now k s"
  let ?f = "\<lambda>r. (identify s r)\<lparr>it_taskKind := ''search'', it_lifecycleStatus := ''active'', it_retiredAt := None\<rparr>"
  let ?rows = "if k \<notin> set changes then rows else upsert_task k ?f ?new rows"
  have step: "r' \<in> set rows \<and> (k \<in> set changes \<longrightarrow> it_taskKey r' \<noteq> k)
      \<or> k \<in> set changes \<and> it_taskKey r' = k \<and> search_active r'" if "r' \<in> set ?rows" for r'
    using that
    by (auto simp: upsert_task_def update_many_def new_task_def identify_def search_active_def split: if_splits)
  have "r \<in> set (apply_membership fresh now changes es ?rows)"
    using Cons.prems e by (simp add: apply_membership_def)
  from Cons.IH [OF this] show ?case
    using step [of r] e by (auto split: if_splits)
qed

lemma membership_keys:
  "it_taskKey ` set (apply_membership fresh now changes es rows)
     = it_taskKey ` set rows \<union> (set changes \<inter> fst ` set es)"
proof (induction es arbitrary: rows)
  case Nil
  then show ?case by (simp add: apply_membership_def)
next
  case (Cons e es)
  obtain k s where e: "e = (k, s)" by (cases e)
  let ?f = "\<lambda>r. (identify s r)\<lparr>it_taskKind := ''search'', it_lifecycleStatus := ''active'', it_retiredAt := None\<rparr>"
  have up: "it_taskKey ` set (upsert_task k ?f (new_task fresh now k s) rows) = insert k (it_taskKey ` set rows)"
  proof (cases "k \<in> it_taskKey ` set rows")
    case True
    have "it_taskKey ` set (update_many (\<lambda>r. it_taskKey r = k) ?f rows) = it_taskKey ` set rows"
      using arg_cong [OF update_many_keys [of "\<lambda>r. it_taskKey r = k" ?f rows], of set]
      by (simp add: identify_def)
    with True show ?thesis by (auto simp: upsert_task_def)
  next
    case False
    then show ?thesis by (auto simp: upsert_task_def new_task_def)
  qed
  show ?case
    using Cons.IH [of "if k \<notin> set changes then rows else upsert_task k ?f (new_task fresh now k s) rows"] e up
    by (auto simp: apply_membership_def)
qed

text \<open>A table in which nothing is left to do.\<close>

definition catalog_settled :: "string list \<Rightarrow> task_row list \<Rightarrow> bool" where
  "catalog_settled K rows \<longleftrightarrow> set K \<subseteq> it_taskKey ` set rows
     \<and> (\<forall>r \<in> set rows. if it_taskKey r \<in> set K then search_active r
          else if it_taskKey r = ORCHESTRATION_KEY then orchestration_active r else search_retired r)"

lemma settled_preview:
  assumes "catalog_settled K rows" and "ORCHESTRATION_KEY \<notin> set K"
  shows "cp_additions (catalog_preview_of sha K [] rows) = [] \<and> cp_reactivations (catalog_preview_of sha K [] rows) = []
    \<and> cp_retirements (catalog_preview_of sha K [] rows) = [] \<and> cp_orchestration (catalog_preview_of sha K [] rows) = []"
proof -
  let ?by = "map_of_last (map (\<lambda>r. (it_taskKey r, r)) rows)"
  have found: "\<exists>r. ?by k = Some r \<and> search_active r" if "k \<in> set K" for k
  proof -
    have "k \<in> it_taskKey ` set rows" using assms(1) that by (auto simp: catalog_settled_def)
    then have "?by k \<noteq> None" by (auto simp: map_of_last_None image_image)
    then obtain r where r: "?by k = Some r" by auto
    then have "r \<in> set rows \<and> it_taskKey r = k" using map_of_last_SomeD [OF r] by auto
    with assms(1) that r show ?thesis by (auto simp: catalog_settled_def)
  qed
  then have "filter (\<lambda>k. ?by k = None) K = []"
    "filter (\<lambda>k. case ?by k of None \<Rightarrow> False | Some r \<Rightarrow> \<not> search_active r) K = []"
    by (auto simp: filter_empty_conv dest!: found split: option.splits)
  moreover have "filter (\<lambda>r. it_taskKey r = ORCHESTRATION_KEY \<and> \<not> orchestration_active r) rows = []"
    "filter (\<lambda>r. it_taskKey r \<noteq> ORCHESTRATION_KEY \<and> it_taskKey r \<notin> set K \<and> \<not> search_retired r) rows = []"
    using assms by (auto simp: filter_empty_conv catalog_settled_def split: if_splits)
  ultimately show ?thesis by (simp add: catalog_preview_of_def Let_def)
qed

lemma view_rows:
  assumes "map row_view rows = map row_view existing"
  shows "r \<in> set rows \<Longrightarrow> \<exists>e \<in> set existing. row_view e = row_view r"
    and "it_taskKey ` set rows = it_taskKey ` set existing"
proof -
  have e: "row_view ` set rows = row_view ` set existing" using arg_cong [OF assms, of set] by simp
  then show "r \<in> set rows \<Longrightarrow> \<exists>e \<in> set existing. row_view e = row_view r" by (metis imageE imageI)
  have "it_taskKey = fst \<circ> row_view" by (auto simp: row_view_def)
  with e show "it_taskKey ` set rows = it_taskKey ` set existing" by (metis image_comp)
qed

lemma no_conflict_free:
  assumes "cp_leasedConflicts (catalog_preview_of sha K moves existing) = []" and "e \<in> set existing"
    and "it_taskKey e \<in> set (cp_additions (catalog_preview_of sha K moves existing))
        \<union> set (cp_reactivations (catalog_preview_of sha K moves existing))
        \<union> set (cp_retirements (catalog_preview_of sha K moves existing))
        \<union> set (cp_orchestration (catalog_preview_of sha K moves existing)) \<union> mv_taskKey ` set moves"
  shows "\<not> busy e"
  using assms by (auto simp: catalog_preview_of_def Let_def filter_empty_conv)

lemma previewed_keys:
  "set (cp_additions (catalog_preview_of sha K moves existing)) = {k \<in> set K. k \<notin> it_taskKey ` set existing}"
  "set (cp_retirements (catalog_preview_of sha K moves existing))
    = it_taskKey ` {r \<in> set existing. it_taskKey r \<noteq> ORCHESTRATION_KEY \<and> it_taskKey r \<notin> set K \<and> \<not> search_retired r}"
  "set (cp_orchestration (catalog_preview_of sha K moves existing))
    = it_taskKey ` {r \<in> set existing. it_taskKey r = ORCHESTRATION_KEY \<and> \<not> orchestration_active r}"
  "set (cp_reactivations (catalog_preview_of sha K moves existing)) \<subseteq> set K"
  by (auto simp: catalog_preview_of_def Let_def map_of_last_None image_image)

lemma unlisted_active:
  assumes "distinct (map it_taskKey existing)" and "e \<in> set existing" and "it_taskKey e \<in> set K"
    and "it_taskKey e \<notin> set (cp_reactivations (catalog_preview_of sha K moves existing))"
  shows "search_active e"
proof -
  have "map_of (rev (map (\<lambda>r. (it_taskKey r, r)) existing)) (it_taskKey e) = Some e"
    using assms(1,2) by (intro map_of_is_SomeI) (auto simp: rev_map comp_def distinct_map)
  then have "map_of_last (map (\<lambda>r. (it_taskKey r, r)) existing) (it_taskKey e) = Some e"
    by (simp add: map_of_last_def)
  with assms(3,4) show ?thesis by (auto simp: catalog_preview_of_def Let_def)
qed

lemma retired_row:
  assumes "r \<in> set (apply_retirements now ks rows)"
  shows "\<exists>q \<in> set rows. it_taskKey r = it_taskKey q \<and>
    (if it_taskKey q \<in> set ks \<and> \<not> busy q then search_retired r else r = q)"
  using assms by (cases "ks = []") (auto simp: apply_retirements_def update_many_def busy_def search_retired_def)

lemma orchestrated_row:
  assumes "r \<in> set (apply_orchestration ks rows)"
  shows "\<exists>q \<in> set rows. it_taskKey r = it_taskKey q \<and> busy r = busy q \<and>
    (if it_taskKey q \<in> set ks \<and> it_leaseToken q = None then orchestration_active r else r = q)"
  using assms by (cases "ks = []") (auto simp: apply_orchestration_def update_many_def busy_def orchestration_active_def)

lemma applied_keys:
  "it_taskKey ` set (apply_retirements now ks rows) = it_taskKey ` set rows"
  "it_taskKey ` set (apply_orchestration ks rows) = it_taskKey ` set rows"
proof -
  have img: "it_taskKey ` set (update_many P f rows) = it_taskKey ` set rows"
    if "\<And>r. it_taskKey (f r) = it_taskKey r" for P f
    using arg_cong [OF update_many_keys [of P f rows, OF that], of set] by simp
  show "it_taskKey ` set (apply_retirements now ks rows) = it_taskKey ` set rows"
    "it_taskKey ` set (apply_orchestration ks rows) = it_taskKey ` set rows"
    by (simp_all add: apply_retirements_def apply_orchestration_def img)
qed

text \<open>Applying a preview without conflicts settles the catalogue.\<close>

lemma applied_settles:
  fixes K moves existing sha
  defines "p \<equiv> catalog_preview_of sha K moves existing"
  assumes distinct: "distinct (map it_taskKey existing)"
    and view: "map row_view rows = map row_view existing"
    and free: "cp_leasedConflicts p = []" and entries: "fst ` set es = set K" and K: "ORCHESTRATION_KEY \<notin> set K"
  shows "catalog_settled K (apply_retirements now (cp_retirements p) (apply_orchestration (cp_orchestration p)
    (apply_membership fresh now (cp_additions p @ cp_reactivations p) es rows)))" (is "catalog_settled K ?rows'")
proof -
  let ?m = "apply_membership fresh now (cp_additions p @ cp_reactivations p) es rows"
  let ?o = "apply_orchestration (cp_orchestration p) ?m"
  have keys: "it_taskKey ` set ?rows' = it_taskKey ` set existing \<union> ((set (cp_additions p) \<union> set (cp_reactivations p)) \<inter> set K)"
    using entries view_rows(2) [OF view] by (simp add: applied_keys membership_keys)
  have "set K \<subseteq> it_taskKey ` set ?rows'"
    unfolding keys using previewed_keys(1) [of sha K moves existing] by (auto simp: p_def)
  moreover have "if it_taskKey r \<in> set K then search_active r
      else if it_taskKey r = ORCHESTRATION_KEY then orchestration_active r else search_retired r"
    if r: "r \<in> set ?rows'" for r
  proof -
    obtain q where q: "q \<in> set ?o" "it_taskKey r = it_taskKey q"
      "if it_taskKey q \<in> set (cp_retirements p) \<and> \<not> busy q then search_retired r else r = q"
      using retired_row [OF r] by blast
    obtain u where u: "u \<in> set ?m" "it_taskKey q = it_taskKey u" "busy q = busy u"
      "if it_taskKey u \<in> set (cp_orchestration p) \<and> it_leaseToken u = None then orchestration_active q else q = u"
      using orchestrated_row [OF q(1)] by blast
    note m = membership_row [OF u(1)]
    show ?thesis
    proof (cases "it_taskKey u \<in> set K")
      case True
      then have "it_taskKey u \<notin> set (cp_retirements p)" "it_taskKey u \<notin> set (cp_orchestration p)"
        using K by (auto simp: p_def previewed_keys)
      with q(3) u(2,4) have "r = u" by (auto split: if_splits)
      moreover have "search_active u"
      proof (cases "it_taskKey u \<in> set (cp_additions p @ cp_reactivations p)")
        case False
        with m have "u \<in> set rows" by auto
        then obtain e where e: "e \<in> set existing" "row_view e = row_view u" using view_rows(1) [OF view] by blast
        with False True have "search_active e"
          by (intro unlisted_active [OF distinct, of e K sha moves]) (auto simp: row_view_def p_def)
        with e(2) show ?thesis by (simp add: row_view_def search_active_def)
      qed (use m True entries in auto)
      ultimately show ?thesis using True by simp
    next
      case False
      with m entries have "u \<in> set rows" by auto
      then obtain e where e: "e \<in> set existing" "row_view e = row_view u" using view_rows(1) [OF view] by blast
      then have eu: "it_taskKey e = it_taskKey u" "busy e = busy u" "search_retired e = search_retired u"
        "orchestration_active e = orchestration_active u"
        by (auto simp: row_view_def search_retired_def orchestration_active_def)
      have nb: "\<not> busy u" if "it_taskKey u \<in> set (cp_retirements p) \<union> set (cp_orchestration p)"
        using no_conflict_free [OF free [unfolded p_def] e(1)] that eu(1,2) by (auto simp: p_def)
      show ?thesis
      proof (cases "it_taskKey u = ORCHESTRATION_KEY")
        case True
        then have "it_taskKey u \<notin> set (cp_retirements p)" by (auto simp: p_def previewed_keys)
        with q(3) u(2) have "r = q" by (auto split: if_splits)
        moreover have "orchestration_active q"
        proof (cases "it_taskKey u \<in> set (cp_orchestration p)")
          case True
          with nb u(4) show ?thesis by (auto simp: busy_def)
        next
          case False
          with \<open>it_taskKey u = ORCHESTRATION_KEY\<close> e(1) eu have "orchestration_active u"
            by (auto simp: p_def previewed_keys)
          with False u(4) show ?thesis by simp
        qed
        ultimately show ?thesis using True False q(2) u(2) by simp
      next
        case other: False
        then have "it_taskKey u \<notin> set (cp_orchestration p)" by (auto simp: p_def previewed_keys)
        with u(4) have "q = u" by simp
        moreover have "search_retired r"
        proof (cases "it_taskKey u \<in> set (cp_retirements p)")
          case True
          with nb q(3) \<open>q = u\<close> show ?thesis by (auto split: if_splits)
        next
          case notin: False
          with False other e(1) eu have "search_retired u" by (auto simp: p_def previewed_keys image_iff)
          with notin q(3) \<open>q = u\<close> show ?thesis by simp
        qed
        ultimately show ?thesis using other False q(2) u(2) by simp
      qed
    qed
  qed
  ultimately show ?thesis by (simp add: catalog_settled_def)
qed

lemma moved_distinct:
  assumes "distinct (map it_id stored)" and "distinct (map it_taskKey stored)"
    and "planGustoBoardTaskReclassification sha d specs stored = Inr moves"
  shows "distinct (map it_taskKey (moved_rows moves stored))"
  using assms(3)
proof (cases rule: plan_cases)
  case still
  with assms(2) show ?thesis by (simp add: moved_rows_def)
next
  case (move s p)
  have key: "it_taskKey (case find (\<lambda>m. mv_id m = it_id r) moves of Some m \<Rightarrow> r\<lparr>it_taskKey := mv_taskKey m\<rparr> | None \<Rightarrow> r)
      = (if r = p then buildIngestionTaskKey sha d s else it_taskKey r)" if "r \<in> set stored" for r
    using distinct_key_eq [OF assms(1) that move(2)] by (auto simp: move(4))
  have "inj_on (\<lambda>r. if r = p then buildIngestionTaskKey sha d s else it_taskKey r) (set stored)"
  proof (rule inj_onI)
    fix x y assume xy: "x \<in> set stored" "y \<in> set stored"
      and eq: "(if x = p then buildIngestionTaskKey sha d s else it_taskKey x)
        = (if y = p then buildIngestionTaskKey sha d s else it_taskKey y)"
    have "it_taskKey x \<noteq> buildIngestionTaskKey sha d s" "it_taskKey y \<noteq> buildIngestionTaskKey sha d s"
      using move(5) xy by (metis imageI)+
    with eq show "x = y" using distinct_key_eq [OF assms(2) xy] by (simp split: if_splits)
  qed
  moreover have "map it_taskKey (moved_rows moves stored)
      = map (\<lambda>r. if r = p then buildIngestionTaskKey sha d s else it_taskKey r) stored"
    using key by (simp add: moved_rows_def)
  moreover have "distinct stored" using assms(1) by (simp add: distinct_map)
  ultimately show ?thesis by (simp add: distinct_map)
qed

lemma moved_key_gone:
  assumes "distinct (map it_id stored)" and "distinct (map it_taskKey stored)"
    and "planGustoBoardTaskReclassification sha d specs stored = Inr moves"
    and "find gusto_public specs = Some s" and "paid_key sha d s \<noteq> buildIngestionTaskKey sha d s"
  shows "paid_key sha d s \<notin> it_taskKey ` set (moved_rows moves stored)"
  using assms(3)
proof (cases rule: plan_cases)
  case still
  with assms(4) show ?thesis by (simp add: moved_rows_def)
next
  case (move s' p)
  with assms(4) have s: "s' = s" by simp
  have "paid_key sha d s \<noteq> it_taskKey (case find (\<lambda>m. mv_id m = it_id r) moves of
      Some m \<Rightarrow> r\<lparr>it_taskKey := mv_taskKey m\<rparr> | None \<Rightarrow> r)" if r: "r \<in> set stored" for r
  proof (cases "it_id r = it_id p")
    case True
    with assms(5) show ?thesis by (simp add: move(4) s)
  next
    case False
    then have "it_taskKey r \<noteq> it_taskKey p" using distinct_key_eq [OF assms(2) r move(2)] by auto
    with False show ?thesis using move(3) by (simp add: move(4) s)
  qed
  then show ?thesis unfolding moved_rows_def set_map image_image by blast
qed

lemma update_many_keeps: "r \<in> set rows \<Longrightarrow> \<not> P r \<Longrightarrow> r \<in> set (update_many P f rows)"
  by (force simp: update_many_def)

lemma membership_keeps:
  "r \<in> set rows \<Longrightarrow> it_taskKey r \<notin> set changes \<Longrightarrow> r \<in> set (apply_membership fresh now changes es rows)"
proof (induction es arbitrary: rows)
  case (Cons e es)
  obtain k s where e: "e = (k, s)" by (cases e)
  let ?f = "\<lambda>r. (identify s r)\<lparr>it_taskKind := ''search'', it_lifecycleStatus := ''active'', it_retiredAt := None\<rparr>"
  have "r \<in> set (if k \<notin> set changes then rows else upsert_task k ?f (new_task fresh now k s) rows)"
    using Cons.prems by (auto simp: upsert_task_def intro: update_many_keeps)
  from Cons.IH [OF this Cons.prems(2)] e show ?case by (simp add: apply_membership_def)
qed (simp add: apply_membership_def)

lemma moves_keep:
  "apply_moves moves stored = Inr rows \<Longrightarrow> r \<in> set stored \<Longrightarrow> busy r \<Longrightarrow> r \<in> set rows"
proof (induction moves arbitrary: stored)
  case (Cons m ms)
  then obtain rows1 where m: "applyGustoBoardTaskReclassification m stored = Inr rows1" "apply_moves ms rows1 = Inr rows"
    by (auto split: sum.splits)
  then have "r \<in> set rows1"
    using Cons.prems(2,3)
    by (auto simp: applyGustoBoardTaskReclassification_def Let_def busy_def split: if_splits intro: update_many_keeps)
  with Cons m(2) show ?case by blast
qed simp

lemma apply_keeps:
  assumes "r \<in> set rows" and "it_taskKey r \<notin> set ks"
  shows "r \<in> set (apply_retirements now ks rows)" "r \<in> set (apply_orchestration ks rows)"
  using assms by (auto simp: apply_retirements_def apply_orchestration_def intro: update_many_keeps)

section \<open>The catalogue a reconciliation leaves\<close>

text \<open>The rows that stand for a list of specifications: one row per task; the specified tasks are in the
  table and active; the orchestration task, if it is stored, is active; everything else is retired.\<close>

definition stands_for :: "(string \<Rightarrow> string) \<Rightarrow> (string \<Rightarrow> string) \<Rightarrow> task_spec list \<Rightarrow> task_row list \<Rightarrow> bool" where
  "stands_for sha d specs rows \<longleftrightarrow>
     distinct (map it_taskKey rows)
     \<and> (\<forall>s \<in> set specs. \<exists>r \<in> set rows. it_taskKey r = buildIngestionTaskKey sha d s)
     \<and> (\<forall>r \<in> set rows.
          if \<exists>s \<in> set specs. it_taskKey r = buildIngestionTaskKey sha d s
          then it_taskKind r = ''search'' \<and> it_lifecycleStatus r = ''active''
          else if it_taskKey r = ORCHESTRATION_KEY
          then it_taskKind r = ''orchestration'' \<and> it_lifecycleStatus r = ''active''
          else it_taskKind r = ''search'' \<and> it_lifecycleStatus r = ''retired'')"

lemma upsert_distinct:
  assumes "distinct (map it_taskKey rows)" and "it_taskKey new = k" and "\<And>r. it_taskKey (f r) = it_taskKey r"
  shows "distinct (map it_taskKey (upsert_task k f new rows))"
  using assms update_many_keys [of "\<lambda>r. it_taskKey r = k" f rows] by (auto simp: upsert_task_def)

lemma membership_distinct:
  "distinct (map it_taskKey rows) \<Longrightarrow> distinct (map it_taskKey (apply_membership fresh now changes es rows))"
proof (induction es arbitrary: rows)
  case (Cons e es)
  obtain k s where e: "e = (k, s)" by (cases e)
  let ?f = "\<lambda>r. (identify s r)\<lparr>it_taskKind := ''search'', it_lifecycleStatus := ''active'', it_retiredAt := None\<rparr>"
  have "distinct (map it_taskKey (if k \<notin> set changes then rows else upsert_task k ?f (new_task fresh now k s) rows))"
    using Cons.prems upsert_distinct [of rows "new_task fresh now k s" k ?f]
    by (simp add: new_task_def identify_def)
  from Cons.IH [OF this] show ?case unfolding e by (simp add: apply_membership_def)
qed (simp add: apply_membership_def)

lemma applied_distinct:
  "distinct (map it_taskKey rows) \<Longrightarrow> distinct (map it_taskKey (apply_retirements now ks rows))"
  "distinct (map it_taskKey rows) \<Longrightarrow> distinct (map it_taskKey (apply_orchestration ks rows))"
  by (simp_all add: apply_retirements_def apply_orchestration_def update_many_keys)

lemma identified:
  "identify s ((identify s r)\<lparr>it_taskKind := ''search'', it_lifecycleStatus := ''active'', it_retiredAt := None\<rparr>)
     = (identify s r)\<lparr>it_taskKind := ''search'', it_lifecycleStatus := ''active'', it_retiredAt := None\<rparr>"
  "identify s (new_task fresh now k s) = new_task fresh now k s"
  by (simp_all add: identify_def new_task_def)

lemma upsert_identified:
  assumes "r \<in> set (upsert_task k
      (\<lambda>r. (identify s r)\<lparr>it_taskKind := ''search'', it_lifecycleStatus := ''active'', it_retiredAt := None\<rparr>)
      (new_task fresh now k s) rows)" and "it_taskKey r = k"
  shows "identify s r = r"
proof -
  let ?f = "\<lambda>r. (identify s r)\<lparr>it_taskKind := ''search'', it_lifecycleStatus := ''active'', it_retiredAt := None\<rparr>"
  consider q where "r = ?f q" | "r = new_task fresh now k s" | "r \<in> set rows" "it_taskKey r \<noteq> k"
    | "r \<in> set rows" "\<not> (\<exists>r \<in> set rows. it_taskKey r = k)"
    using assms(1) unfolding upsert_task_def update_many_def set_map by (auto split: if_split_asm)
  then show ?thesis
  proof cases
    case 1
    then show ?thesis using identified(1) by simp
  next
    case 2
    then show ?thesis using identified(2) by simp
  qed (use assms(2) in blast)+
qed

lemma membership_identified:
  assumes "distinct (map fst es)" and "(k, s) \<in> set es" and "k \<in> set changes"
    and "r \<in> set (apply_membership fresh now changes es rows)" and "it_taskKey r = k"
  shows "identify s r = r"
  using assms
proof (induction es arbitrary: rows)
  case (Cons e es)
  obtain k' s' where e: "e = (k', s')" by (cases e)
  let ?f = "\<lambda>r. (identify s' r)\<lparr>it_taskKind := ''search'', it_lifecycleStatus := ''active'', it_retiredAt := None\<rparr>"
  let ?rows = "if k' \<notin> set changes then rows else upsert_task k' ?f (new_task fresh now k' s') rows"
  have r: "r \<in> set (apply_membership fresh now changes es ?rows)"
    using Cons.prems(4) unfolding e by (simp add: apply_membership_def)
  show ?case
  proof (cases "(k, s) \<in> set es")
    case True
    with Cons.IH [OF _ True Cons.prems(3) r Cons.prems(5)] Cons.prems(1) show ?thesis by simp
  next
    case False
    then have ks: "k' = k" "s' = s" using Cons.prems(2) e by auto
    then have "k \<notin> fst ` set es" using Cons.prems(1) e by auto
    then have "r \<in> set ?rows" using membership_row [OF r] unfolding Cons.prems(5) by argo
    moreover have "?rows = upsert_task k' ?f (new_task fresh now k' s') rows"
      by (rule if_not_P) (simp add: ks(1) Cons.prems(3))
    ultimately have "r \<in> set (upsert_task k' ?f (new_task fresh now k' s') rows)" by (rule subst [rotated])
    then have "identify s' r = r" by (rule upsert_identified) (simp add: ks(1) Cons.prems(5))
    then show ?thesis by (simp only: ks(2))
  qed
qed simp

lemma update_ids: "(\<And>r. it_id (f r) = it_id r) \<Longrightarrow> map it_id (update_many P f rows) = map it_id rows"
  by (simp add: update_many_def)

lemma moves_ids: "apply_moves moves stored = Inr rows \<Longrightarrow> map it_id rows = map it_id stored"
proof (induction moves arbitrary: stored)
  case (Cons m ms)
  then obtain rows1 where m: "applyGustoBoardTaskReclassification m stored = Inr rows1" "apply_moves ms rows1 = Inr rows"
    by (auto split: sum.splits)
  then have "map it_id rows1 = map it_id stored"
    by (auto simp: applyGustoBoardTaskReclassification_def Let_def update_ids split: if_splits)
  with Cons.IH [OF m(2)] show ?case by simp
qed simp

lemma membership_ids: "it_id ` set rows \<subseteq> it_id ` set (apply_membership fresh now changes es rows)"
proof (induction es arbitrary: rows)
  case (Cons e es)
  obtain k s where e: "e = (k, s)" by (cases e)
  let ?f = "\<lambda>r. (identify s r)\<lparr>it_taskKind := ''search'', it_lifecycleStatus := ''active'', it_retiredAt := None\<rparr>"
  let ?rows = "if k \<notin> set changes then rows else upsert_task k ?f (new_task fresh now k s) rows"
  have "map it_id (update_many (\<lambda>r. it_taskKey r = k) ?f rows) = map it_id rows"
    by (rule update_ids) (simp add: identify_def)
  from arg_cong [OF this, of set] have "it_id ` set rows \<subseteq> it_id ` set ?rows"
    by (auto simp: upsert_task_def)
  with Cons.IH [of ?rows] show ?case unfolding e by (simp add: apply_membership_def)
qed (simp add: apply_membership_def)

lemma applied_ids:
  "it_id ` set (apply_retirements now ks rows) = it_id ` set rows"
  "it_id ` set (apply_orchestration ks rows) = it_id ` set rows"
proof -
  have img: "it_id ` set (update_many P f rows) = it_id ` set rows" if "\<And>r. it_id (f r) = it_id r" for P f
    using arg_cong [OF update_ids [of f P rows, OF that], of set] by simp
  show "it_id ` set (apply_retirements now ks rows) = it_id ` set rows"
    "it_id ` set (apply_orchestration ks rows) = it_id ` set rows"
    by (simp_all add: apply_retirements_def apply_orchestration_def img)
qed

lemma expected_distinct: "distinct (map fst (expected_entries sha d specs))"
  by (simp add: expected_entries_def Let_def comp_def)

lemma expected_specs:
  assumes "(k, s) \<in> set (expected_entries sha d specs)"
  shows "s \<in> set specs \<and> k = buildIngestionTaskKey sha d s"
proof -
  let ?entries = "map (\<lambda>s. (buildIngestionTaskKey sha d s, s)) specs"
  have k: "k \<in> fst ` set ?entries" and s: "s = the (map_of_last ?entries k)"
    using assms by (auto simp: expected_entries_def Let_def image_image)
  from k have "map_of_last ?entries k \<noteq> None" unfolding map_of_last_None by blast
  with s have "map_of_last ?entries k = Some s" by auto
  from map_of_last_SomeD [OF this] show ?thesis by auto
qed

lemma settled_stands:
  assumes "catalog_settled K rows" and "set K = buildIngestionTaskKey sha d ` set specs"
    and "distinct (map it_taskKey rows)"
  shows "stands_for sha d specs rows"
proof -
  have listed: "it_taskKey r \<in> set K \<longleftrightarrow> (\<exists>s \<in> set specs. it_taskKey r = buildIngestionTaskKey sha d s)" for r
    unfolding assms(2) by auto
  have "\<forall>s \<in> set specs. \<exists>r \<in> set rows. it_taskKey r = buildIngestionTaskKey sha d s"
    using assms(1,2) by (auto simp: catalog_settled_def dest!: subsetD)
  with assms(1,3) show ?thesis
    unfolding stands_for_def catalog_settled_def listed [symmetric]
    by (auto simp: search_active_def orchestration_active_def search_retired_def)
qed

section \<open>Properties\<close>

text \<open>C24. Reconciling the catalogue brings the stored tasks to the specified ones and converges. Once a
  reconciliation has been applied, the table stands for the specifications: every specified task has
  exactly one row, which is active, the orchestration task stays active, and every other task is retired.
  The rows that were added or reactivated carry the columns of their specification, no stored row is lost,
  and another reconciliation, at any later time, finds nothing to add, to reactivate, to retire, to
  restore or to move. The columns \<open>id\<close> and \<open>taskKey\<close> are unique, and no specification is the paid variant
  of a public board that is to be moved.\<close>

theorem catalog_converges:
  assumes "distinct (map it_id stored)" and "distinct (map it_taskKey stored)"
    and "\<And>s. s \<in> set specs \<Longrightarrow> gusto_public s \<Longrightarrow> paid_key sha d s \<notin> buildIngestionTaskKey sha d ` set specs"
    and "reconcileIngestionTaskCatalog sha d fresh True now specs stored = Inr (rows, preview)"
  shows "stands_for sha d specs rows
    \<and> it_id ` set stored \<subseteq> it_id ` set rows
    \<and> (\<forall>r \<in> set rows. it_taskKey r \<in> set (cp_additions preview @ cp_reactivations preview) \<longrightarrow>
        (\<exists>s \<in> set specs. it_taskKey r = buildIngestionTaskKey sha d s \<and> identify s r = r))
    \<and> (\<exists>again. reconcileIngestionTaskCatalog sha d fresh False later specs rows = Inr (rows, again)
      \<and> cp_additions again = [] \<and> cp_reactivations again = [] \<and> cp_retirements again = []
      \<and> cp_orchestration again = [] \<and> cp_reclassifications again = [])"
proof -
  let ?es = "expected_entries sha d specs"
  let ?K = "js_sort code_unit_cmp (map fst ?es)"
  obtain moves rows1 where plan: "planGustoBoardTaskReclassification sha d specs stored = Inr moves"
    and preview: "preview = catalog_preview_of sha ?K moves (moved_rows moves stored)"
    and free: "cp_leasedConflicts preview = []" and moved: "apply_moves moves stored = Inr rows1"
    and rows: "rows = apply_retirements now (cp_retirements preview) (apply_orchestration (cp_orchestration preview)
      (apply_membership fresh now (cp_additions preview @ cp_reactivations preview) ?es rows1))"
    using assms(4) by (auto simp: reconcileIngestionTaskCatalog_def Let_def split: sum.splits if_splits)
  have K: "set ?K = buildIngestionTaskKey sha d ` set specs" by simp
  then have oK: "ORCHESTRATION_KEY \<notin> set ?K" using build_not_orchestration [of sha d] by (metis imageE)
  note view = applied_move_view [OF assms(1,2) plan moved]
  have settled: "catalog_settled ?K rows"
    unfolding rows preview
    by (rule applied_settles [OF moved_distinct [OF assms(1,2) plan] view]) (use free preview K oK in simp_all)
  have keys: "it_taskKey ` set rows \<subseteq> it_taskKey ` set (moved_rows moves stored) \<union> set ?K"
    unfolding rows using view_rows(2) [OF view] by (auto simp: applied_keys membership_keys)
  have "planGustoBoardTaskReclassification sha d specs rows = Inr []"
  proof (cases "find gusto_public specs")
    case None
    then show ?thesis by (simp add: planGustoBoardTaskReclassification_def)
  next
    case (Some s)
    have s: "s \<in> set specs" "gusto_public s" using find_SomeD [OF Some] by auto
    have "paid_key sha d s \<notin> set ?K" using assms(3) [OF s] K by simp
    moreover have "paid_key sha d s \<noteq> buildIngestionTaskKey sha d s" using assms(3) [OF s] s(1) by auto
    ultimately have "paid_key sha d s \<notin> it_taskKey ` set rows"
      using keys moved_key_gone [OF assms(1,2) plan Some] by blast
    then have "find (\<lambda>r. it_taskKey r = paid_key sha d s) rows = None"
      unfolding find_None_iff by (metis imageI)
    with Some show ?thesis by (simp add: planGustoBoardTaskReclassification_def)
  qed
  moreover have "moved_rows [] rows = rows" by (simp add: moved_rows_def)
  moreover have "cp_reclassifications (catalog_preview_of sha ?K [] rows) = []"
    by (simp add: catalog_preview_of_def Let_def)
  ultimately have "\<exists>again. reconcileIngestionTaskCatalog sha d fresh False later specs rows = Inr (rows, again)
      \<and> cp_additions again = [] \<and> cp_reactivations again = [] \<and> cp_retirements again = []
      \<and> cp_orchestration again = [] \<and> cp_reclassifications again = []"
    using settled_preview [OF settled oK] by (simp add: reconcileIngestionTaskCatalog_def Let_def)
  moreover have "stands_for sha d specs rows"
  proof (rule settled_stands [OF settled K])
    have "map it_taskKey rows1 = map it_taskKey (moved_rows moves stored)"
      using arg_cong [OF view, of "map fst"] by (simp add: row_view_def comp_def)
    then have "distinct (map it_taskKey rows1)" using moved_distinct [OF assms(1,2) plan] by simp
    then show "distinct (map it_taskKey rows)" unfolding rows by (intro applied_distinct membership_distinct)
  qed
  moreover have "it_id ` set stored \<subseteq> it_id ` set rows"
    using membership_ids [of rows1 fresh now] arg_cong [OF moves_ids [OF moved], of set] unfolding rows applied_ids by simp
  moreover have "\<forall>r \<in> set rows. it_taskKey r \<in> set (cp_additions preview @ cp_reactivations preview) \<longrightarrow>
      (\<exists>s \<in> set specs. it_taskKey r = buildIngestionTaskKey sha d s \<and> identify s r = r)"
  proof (intro ballI impI)
    fix r assume r: "r \<in> set rows" "it_taskKey r \<in> set (cp_additions preview @ cp_reactivations preview)"
    then have k: "it_taskKey r \<in> set ?K" by (auto simp: preview previewed_keys dest: subsetD [OF previewed_keys(4)])
    then have "it_taskKey r \<in> fst ` set ?es" by simp
    then obtain s where s: "(it_taskKey r, s) \<in> set ?es" by (metis imageE prod.collapse)
    have "it_taskKey r \<notin> set (cp_retirements preview)" "it_taskKey r \<notin> set (cp_orchestration preview)"
      using k oK by (auto simp: preview previewed_keys)
    then have "r \<in> set (apply_membership fresh now (cp_additions preview @ cp_reactivations preview) ?es rows1)"
      using r(1) unfolding rows by (metis orchestrated_row retired_row)
    then have "identify s r = r" by (rule membership_identified [OF expected_distinct s r(2) _ refl])
    with expected_specs [OF s] show "\<exists>s \<in> set specs. it_taskKey r = buildIngestionTaskKey sha d s \<and> identify s r = r" by blast
  qed
  ultimately show ?thesis by blast
qed

definition sample_public_spec :: task_spec where
  "sample_public_spec = \<lparr>ts_source = ''Gusto'', ts_queryFamily = None, ts_searchQuery = None,
     ts_geoLane = ''us_remote'', ts_ingestionMode = ''public-board''\<rparr>"

definition sample_paid_row :: task_row where
  "sample_paid_row = new_task id 3 (paid_key id to_lower sample_public_spec) sample_public_spec"

definition sample_leased_row :: task_row where
  "sample_leased_row = (new_task id 3 (buildIngestionTaskKey id to_lower sample_public_spec) sample_public_spec)
     \<lparr>it_status := ''running'', it_leaseToken := Some ''t''\<rparr>"

lemma sample_reconciled:
  "case reconcileIngestionTaskCatalog id to_lower id True 5 [sample_public_spec] [sample_paid_row] of
     Inl e \<Rightarrow> False | Inr x \<Rightarrow> cp_reclassifications (snd x) \<noteq> []"
  by code_simp

theorem catalog_converges_witness:
  "\<exists>rows preview again.
     reconcileIngestionTaskCatalog id to_lower id True 5 [sample_public_spec] [sample_paid_row] = Inr (rows, preview)
     \<and> cp_reclassifications preview \<noteq> []
     \<and> stands_for id to_lower [sample_public_spec] rows
     \<and> reconcileIngestionTaskCatalog id to_lower id False 9 [sample_public_spec] rows = Inr (rows, again)
     \<and> cp_reclassifications again = []"
proof -
  obtain rows preview where
    r: "reconcileIngestionTaskCatalog id to_lower id True 5 [sample_public_spec] [sample_paid_row] = Inr (rows, preview)"
      "cp_reclassifications preview \<noteq> []"
    using sample_reconciled by (auto split: sum.splits)
  have "paid_key id to_lower sample_public_spec \<notin> set [buildIngestionTaskKey id to_lower sample_public_spec]"
    by code_simp
  then have k: "paid_key id to_lower s \<notin> buildIngestionTaskKey id to_lower ` set [sample_public_spec]"
    if "s \<in> set [sample_public_spec]" for s using that by simp
  have "stands_for id to_lower [sample_public_spec] rows
    \<and> (\<exists>again. reconcileIngestionTaskCatalog id to_lower id False 9 [sample_public_spec] rows = Inr (rows, again)
      \<and> cp_reclassifications again = [])"
    using catalog_converges [OF _ _ k r(1), of 9] by (simp, blast)
  with r show ?thesis by blast
qed

text \<open>A reconciliation never touches work in progress: a task that is leased or running is still in
  the table afterwards, exactly as it was.\<close>

theorem catalog_respects_leases:
  assumes "distinct (map it_id stored)" and "distinct (map it_taskKey stored)"
    and "r \<in> set stored" and "busy r"
    and "reconcileIngestionTaskCatalog sha d fresh apply now specs stored = Inr (rows, preview)"
  shows "r \<in> set rows"
proof (cases "apply")
  case False
  with assms(3,5) show ?thesis
    by (auto simp: reconcileIngestionTaskCatalog_def Let_def split: sum.splits)
next
  case True
  let ?es = "expected_entries sha d specs"
  let ?K = "js_sort code_unit_cmp (map fst ?es)"
  obtain moves rows1 where plan: "planGustoBoardTaskReclassification sha d specs stored = Inr moves"
    and preview: "preview = catalog_preview_of sha ?K moves (moved_rows moves stored)"
    and free: "cp_leasedConflicts preview = []" and moved: "apply_moves moves stored = Inr rows1"
    and rows: "rows = apply_retirements now (cp_retirements preview) (apply_orchestration (cp_orchestration preview)
      (apply_membership fresh now (cp_additions preview @ cp_reactivations preview) ?es rows1))"
    using assms(5) True by (auto simp: reconcileIngestionTaskCatalog_def Let_def split: sum.splits if_splits)
  have r1: "r \<in> set rows1" by (rule moves_keep [OF moved assms(3,4)])
  then obtain e where e: "e \<in> set (moved_rows moves stored)" "row_view e = row_view r"
    using view_rows(1) [OF applied_move_view [OF assms(1,2) plan moved]] by blast
  then have "it_taskKey e = it_taskKey r" "busy e" using assms(4) by (auto simp: row_view_def)
  with no_conflict_free [OF free [unfolded preview] e(1)]
  have "it_taskKey r \<notin> set (cp_additions preview @ cp_reactivations preview)"
    "it_taskKey r \<notin> set (cp_retirements preview)" "it_taskKey r \<notin> set (cp_orchestration preview)"
    by (auto simp: preview)
  with r1 show ?thesis unfolding rows by (intro apply_keeps membership_keeps)
qed

theorem catalog_respects_leases_witness:
  "\<exists>rows preview.
     reconcileIngestionTaskCatalog id to_lower id True 5 [sample_public_spec] [sample_leased_row] = Inr (rows, preview)
     \<and> sample_leased_row \<in> set rows"
proof -
  have "case reconcileIngestionTaskCatalog id to_lower id True 5 [sample_public_spec] [sample_leased_row] of
     Inl e \<Rightarrow> False | Inr x \<Rightarrow> True"
    by code_simp
  then obtain rows preview where
    r: "reconcileIngestionTaskCatalog id to_lower id True 5 [sample_public_spec] [sample_leased_row] = Inr (rows, preview)"
    by (auto split: sum.splits)
  have "sample_leased_row \<in> set rows"
    by (rule catalog_respects_leases [OF _ _ _ _ r]) (simp_all add: busy_def sample_leased_row_def)
  with r show ?thesis by blast
qed

end
