(* ===== verification/Task_Order.thy ===== *)
theory Task_Order
  imports Task_Catalog
begin

text \<open>
  The order in which due ingestion tasks are run and the window a task covers
  (\<open>src/lib/ingestionControl.ts\<close>: \<open>fairIngestionTaskOrder\<close>, \<open>orderDueIngestionTaskSpecs\<close>,
  \<open>deriveCatchUpWindow\<close>, \<open>recordJobPipelineEvent\<close>). \<open>localeCompare\<close> is the parameter \<open>loc\<close>.
\<close>

section \<open>Groups in the order of their first member\<close>

text \<open>A \<open>Map\<close> from keys to arrays that members are pushed to.\<close>

definition group_by :: "('a \<Rightarrow> 'k) \<Rightarrow> 'a list \<Rightarrow> ('k \<times> 'a list) list" where
  "group_by f xs = map (\<lambda>k. (k, filter (\<lambda>x. f x = k) xs)) (dedup (map f xs))"

lemma mset_groups:
  "distinct ks \<Longrightarrow> mset (concat (map (\<lambda>k. filter (\<lambda>x. f x = k) xs) ks)) = mset (filter (\<lambda>x. f x \<in> set ks) xs)"
proof (induction ks)
  case (Cons k ks)
  have "mset (filter (\<lambda>x. f x = k) xs) + mset (filter (\<lambda>x. f x \<in> set ks) xs)
      = mset (filter (\<lambda>x. f x \<in> set (k # ks)) xs)"
    using Cons.prems by (induction xs) auto
  with Cons show ?case by simp
qed simp

lemma mset_all_groups:
  assumes "distinct ks" and "set ks = f ` set xs"
  shows "mset (concat (map (\<lambda>k. filter (\<lambda>x. f x = k) xs) ks)) = mset xs"
  using mset_groups [OF assms(1), of f xs] assms(2) by (simp add: filter_True)

section \<open>The fair order\<close>

definition queryClass :: "string option \<Rightarrow> string" where
  "queryClass queryFamily =
     (case queryFamily of
        None \<Rightarrow> ''title''
      | Some f \<Rightarrow> if starts_with f ''travel_'' then ''travel''
                  else if starts_with f ''description_'' then ''description'' else ''title'')"

definition hour_band :: "task_row \<Rightarrow> int" where
  "hour_band r = it_nextRunAt r div (60 * 60 * 1000)"

definition rotation_key :: "task_row \<Rightarrow> string" where
  "rotation_key r = queryClass (it_queryFamily r) @ '':'' @ it_geoLane r"

text \<open>\<open>xs.push(...xs.splice(0, n % xs.length))\<close>: a negative remainder removes nothing.\<close>

definition rotated :: "int \<Rightarrow> 'a list \<Rightarrow> 'a list" where
  "rotated n xs =
     (if 1 < length xs \<and> 0 \<le> n
      then let offset = nat (n mod int (length xs)) in drop offset xs @ take offset xs
      else xs)"

definition oldest_first :: "string cmp \<Rightarrow> task_row cmp" where
  "oldest_first loc = then_cmp
     (key_cmp (\<lambda>r. case it_lastCompletedAt r of None \<Rightarrow> 0 | Some t \<Rightarrow> t) num_cmp) (key_cmp it_taskKey loc)"

text \<open>One member of every group in turn, until all groups are exhausted.\<close>

function round_robin :: "'a list list \<Rightarrow> 'a list" where
  "round_robin gs =
     (if \<forall>g \<in> set gs. g = [] then []
      else map hd (filter (\<lambda>g. g \<noteq> []) gs) @ round_robin (map tl gs))"
  by pat_completeness auto
termination
proof (relation "measure (\<lambda>gs. sum_list (map length gs))")
  fix gs :: "'a list list"
  assume "\<not> (\<forall>g \<in> set gs. g = [])"
  then have "sum_list (map length (map tl gs)) < sum_list (map length gs)"
  proof (induction gs)
    case (Cons g gs)
    have le: "sum_list (map length (map tl gs)) \<le> sum_list (map length gs)"
      by (induction gs) auto
    show ?case
    proof (cases "g = []")
      case True
      with Cons show ?thesis by simp
    next
      case False
      then have "length (tl g) < length g" by simp
      with le show ?thesis by (simp del: map_map)
    qed
  qed simp
  then show "(map tl gs, gs) \<in> measure (\<lambda>gs. sum_list (map length gs))" by simp
qed simp

declare round_robin.simps [simp del]

text \<open>Two turns of the preferred portfolio per turn of the other one, each lending its turns once it
  is exhausted.\<close>

fun two_to_one :: "'a list \<Rightarrow> 'a list \<Rightarrow> 'a list" where
  "two_to_one (p # q # ps) (b # bs) = p # q # b # two_to_one ps bs"
| "two_to_one (p # q # ps) [] = p # q # two_to_one ps []"
| "two_to_one [p] (b # bs) = p # b # two_to_one [] bs"
| "two_to_one [p] [] = [p]"
| "two_to_one [] (b # bs) = b # two_to_one [] bs"
| "two_to_one [] [] = []"

definition preferred :: "task_row \<Rightarrow> bool" where
  "preferred r = isTerritoryRetailSearchFamily (it_queryFamily r)"

definition band_order :: "string cmp \<Rightarrow> int \<Rightarrow> task_row list \<Rightarrow> task_row list" where
  "band_order loc dayRotation rows =
     (let groups = group_by rotation_key rows;
          queue = (\<lambda>k. rotated dayRotation (js_sort (oldest_first loc) (filter (\<lambda>r. rotation_key r = k) rows)));
          keys = rotated dayRotation (js_sort code_unit_cmp (map fst groups));
          order = round_robin (map queue keys)
      in two_to_one (filter preferred order) (filter (\<lambda>r. \<not> preferred r) order))"

definition fairIngestionTaskOrder :: "string cmp \<Rightarrow> ms \<Rightarrow> task_row list \<Rightarrow> task_row list" where
  "fairIngestionTaskOrder loc now rows =
     (let due = filter (\<lambda>r. it_nextRunAt r \<le> now) rows;
          dayRotation = now div (24 * 60 * 60 * 1000);
          bands = group_by hour_band due
      in concat (map (\<lambda>b. band_order loc dayRotation (filter (\<lambda>r. hour_band r = b) due))
           (js_sort num_cmp (map fst bands))))"

text \<open>The specifications of the due tasks, in that order; tasks that are not stored yet are created and due.\<close>

definition create_missing ::
  "(string \<Rightarrow> string) \<Rightarrow> ms \<Rightarrow> (string \<times> task_spec) list \<Rightarrow> task_row list \<Rightarrow> task_row list" where
  "create_missing fresh now entries rows =
     rows @ map (\<lambda>(k, s). new_task fresh now k s) (filter (\<lambda>(k, s). k \<notin> it_taskKey ` set rows) entries)"

definition orderDueIngestionTaskSpecs ::
  "(string \<Rightarrow> string) \<Rightarrow> (string \<Rightarrow> string) \<Rightarrow> (string \<Rightarrow> string) \<Rightarrow> string cmp \<Rightarrow> bool \<Rightarrow> ms \<Rightarrow> task_spec list
    \<Rightarrow> task_row list \<Rightarrow> task_row list \<times> task_spec list" where
  "orderDueIngestionTaskSpecs sha decompose fresh loc v3 now specs rows =
     (let entries = expected_entries sha decompose specs;
          stored = create_missing fresh now entries rows;
          found = filter (\<lambda>r. it_taskKey r \<in> fst ` set entries \<and> it_nextRunAt r \<le> now \<and> (v3 \<longrightarrow> search_active r)) stored
      in (stored, List.map_filter (\<lambda>r. map_of entries (it_taskKey r)) (fairIngestionTaskOrder loc now found)))"

section \<open>The window of a run\<close>

record catch_up_window =
  cw_windowStart :: ms
  cw_windowEnd :: ms
  cw_isCatchUp :: bool

definition DEFAULT_LOOKBACK_MS :: ms where
  "DEFAULT_LOOKBACK_MS = 24 * 60 * 60 * 1000"

definition MAX_CATCH_UP_MS :: ms where
  "MAX_CATCH_UP_MS = 7 * 24 * 60 * 60 * 1000"

definition OVERLAP_MS :: ms where
  "OVERLAP_MS = 2 * 60 * 60 * 1000"

definition deriveCatchUpWindow :: "ms option \<Rightarrow> ms \<Rightarrow> ms \<Rightarrow> ms \<Rightarrow> ms \<Rightarrow> catch_up_window" where
  "deriveCatchUpWindow watermarkAt now defaultLookbackMs maxCatchUpMs overlapMs =
     (let defaultStart = now - defaultLookbackMs;
          desiredStart = (case watermarkAt of None \<Rightarrow> defaultStart | Some w \<Rightarrow> w - overlapMs);
          boundedStart = max desiredStart (now - maxCatchUpMs)
      in \<lparr>cw_windowStart = min boundedStart now, cw_windowEnd = now,
          cw_isCatchUp = (case watermarkAt of None \<Rightarrow> False | Some w \<Rightarrow> w < defaultStart)\<rparr>)"

lemma window_in_bounds:
  assumes "0 \<le> m"
  shows "cw_windowStart (deriveCatchUpWindow w now d m ov) \<le> now
    \<and> now - m \<le> cw_windowStart (deriveCatchUpWindow w now d m ov)"
  using assms by (simp add: deriveCatchUpWindow_def Let_def)

lemma window_leaves_no_gap:
  assumes "0 \<le> ov" and "now - m \<le> w - ov"
  shows "cw_windowStart (deriveCatchUpWindow (Some w) now d m ov) \<le> w - ov"
  using assms by (simp add: deriveCatchUpWindow_def Let_def)

section \<open>Pipeline events\<close>

record pipeline_event_input =
  pe_eventType :: string
  pe_jobId :: "string option"
  pe_taskId :: "string option"
  pe_stage :: "string option"
  pe_source :: "string option"
  pe_sourceId :: "string option"
  pe_queryFamily :: "string option"
  pe_geoLane :: "string option"
  pe_details :: "json option"
  pe_occurredAt :: "ms option"
  pe_identityParts :: "string list"

record stored_event =
  se_eventKey :: string
  se_eventType :: string
  se_jobId :: "string option"
  se_taskId :: "string option"
  se_stage :: "string option"
  se_source :: "string option"
  se_sourceId :: "string option"
  se_queryFamily :: "string option"
  se_geoLane :: "string option"
  se_details :: "json option"
  se_occurredAt :: ms

definition text_part :: "string option \<Rightarrow> string" where
  "text_part s = (case s of None \<Rightarrow> [] | Some t \<Rightarrow> t)"

definition buildPipelineEventKey :: "(string \<Rightarrow> string) \<Rightarrow> pipeline_event_input \<Rightarrow> string" where
  "buildPipelineEventKey sha i =
     ''pipeline:v1:'' @ stableHash sha ([pe_eventType i, text_part (pe_jobId i), text_part (pe_taskId i),
       text_part (pe_source i), text_part (pe_sourceId i)] @ pe_identityParts i)"

text \<open>How the upsert itself ends: it is done, the table is not migrated yet, another transaction has
  inserted the key first, or it fails otherwise.\<close>

datatype 'e upsert_outcome = Done | SchemaUnavailable | UniqueRace | Failure 'e

definition event_of :: "(string \<Rightarrow> string) \<Rightarrow> ms \<Rightarrow> pipeline_event_input \<Rightarrow> stored_event" where
  "event_of sha now i =
     \<lparr>se_eventKey = buildPipelineEventKey sha i, se_eventType = pe_eventType i, se_jobId = or_null (pe_jobId i),
      se_taskId = or_null (pe_taskId i), se_stage = or_null (pe_stage i), se_source = or_null (pe_source i),
      se_sourceId = or_null (pe_sourceId i), se_queryFamily = or_null (pe_queryFamily i),
      se_geoLane = or_null (pe_geoLane i), se_details = pe_details i,
      se_occurredAt = (case pe_occurredAt i of None \<Rightarrow> now | Some t \<Rightarrow> t)\<rparr>"

definition recordJobPipelineEvent ::
  "(string \<Rightarrow> string) \<Rightarrow> ms \<Rightarrow> 'e upsert_outcome \<Rightarrow> pipeline_event_input \<Rightarrow> (string \<Rightarrow> stored_event option)
    \<Rightarrow> (string \<Rightarrow> stored_event option) \<times> ('e + stored_event option)" where
  "recordJobPipelineEvent sha now outcome i events =
     (let key = buildPipelineEventKey sha i in
      case outcome of
        Done \<Rightarrow>
          (case events key of
             Some e \<Rightarrow> (events, Inr (Some e))
           | None \<Rightarrow> (events(key \<mapsto> event_of sha now i), Inr (Some (event_of sha now i))))
      | SchemaUnavailable \<Rightarrow> (events, Inr None)
      | UniqueRace \<Rightarrow> (events, Inr (events key))
      | Failure e \<Rightarrow> (events, Inl e))"

text \<open>The event log is append-only: what is stored under a key never changes.\<close>

lemma events_append_only:
  "events k = Some e \<Longrightarrow> fst (recordJobPipelineEvent sha now outcome i events) k = Some e"
  by (auto simp: recordJobPipelineEvent_def Let_def split: upsert_outcome.split option.split)

lemma event_recorded_once:
  assumes "recordJobPipelineEvent sha now Done i events = (events', Inr (Some e))"
  shows "recordJobPipelineEvent sha later Done i events' = (events', Inr (Some e))"
  using assms by (auto simp: recordJobPipelineEvent_def Let_def split: option.splits)

section \<open>What the fair order guarantees\<close>

lemma mset_round_robin: "mset (round_robin gs) = mset (concat gs)"
proof (induction gs rule: round_robin.induct)
  case (1 gs)
  show ?case
  proof (cases "\<forall>g \<in> set gs. g = []")
    case True
    then show ?thesis by (simp add: round_robin.simps)
  next
    case False
    have "mset (map hd (filter (\<lambda>g. g \<noteq> []) gs)) + mset (concat (map tl gs)) = mset (concat gs)"
    proof (induction gs)
      case (Cons g gs)
      then show ?case by (cases g) (simp_all add: ac_simps)
    qed simp
    with 1 [OF False] show ?thesis using False by (subst round_robin.simps) simp
  qed
qed

lemma mset_rotated [simp]: "mset (rotated n xs) = mset xs"
  by (auto simp: rotated_def Let_def) (metis append_take_drop_id mset_append union_commute)

lemma set_rotated [simp]: "set (rotated n xs) = set xs"
  by (metis mset_rotated set_mset_mset)

lemma distinct_rotated [simp]: "distinct (rotated n xs) = distinct xs"
  by (metis mset_rotated mset_eq_imp_distinct_iff)

lemma mset_two_to_one [simp]: "mset (two_to_one ps bs) = mset ps + mset bs"
  by (induction ps bs rule: two_to_one.induct) auto

lemma mset_concat_cong: "(\<And>x. x \<in> set xs \<Longrightarrow> mset (f x) = mset (g x)) \<Longrightarrow> mset (concat (map f xs)) = mset (concat (map g xs))"
  by (induction xs) auto

lemma mset_partition: "mset (filter P xs) + mset (filter (\<lambda>x. \<not> P x) xs) = mset xs"
  by (induction xs) auto

lemma mset_band_order: "mset (band_order loc n rows) = mset rows"
proof -
  let ?ks = "rotated n (js_sort code_unit_cmp (map fst (group_by rotation_key rows)))"
  have "mset (concat (map (\<lambda>k. rotated n (js_sort (oldest_first loc) (filter (\<lambda>r. rotation_key r = k) rows))) ?ks))
      = mset (concat (map (\<lambda>k. filter (\<lambda>r. rotation_key r = k) rows) ?ks))"
    by (rule mset_concat_cong) simp
  also have "\<dots> = mset rows"
    by (rule mset_all_groups) (simp_all add: group_by_def comp_def)
  finally show ?thesis
    by (simp add: band_order_def Let_def mset_round_robin mset_partition)
qed

lemma set_band_order [simp]: "set (band_order loc n rows) = set rows"
  by (metis mset_band_order set_mset_mset)

lemma length_filter_mset: "mset xs = mset ys \<Longrightarrow> length (filter P xs) = length (filter P ys)"
  by (metis mset_filter size_mset)

lemma filter_concat_keyed:
  assumes "distinct ks" and "\<And>k x. x \<in> set (F k) \<Longrightarrow> f x = k"
  shows "filter (\<lambda>x. f x = b) (concat (map F ks)) = (if b \<in> set ks then F b else [])"
  using assms(1)
proof (induction ks)
  case (Cons k ks)
  have "filter (\<lambda>x. f x = b) (F k) = (if k = b then F k else [])"
    using assms(2) by (auto simp: filter_id_conv filter_empty_conv)
  with Cons show ?case by auto
qed simp

lemma sorted_concat_keyed:
  assumes "sorted_wrt (\<lambda>a b. num_cmp a b \<le> 0) ks" and "\<And>k x. x \<in> set (F k) \<Longrightarrow> f x = k"
  shows "sorted (map f (concat (map F ks)))"
  using assms(1)
proof (induction ks)
  case (Cons k ks)
  have "map f (F k) = replicate (length (F k)) k"
    using assms(2) by (simp add: map_replicate_const [symmetric] cong: map_cong)
  moreover have "k \<le> y" if "y \<in> set (map f (concat (map F ks)))" for y
    using that assms(2) Cons.prems by (auto simp: num_cmp_def)
  ultimately show ?case using Cons by (auto simp: sorted_append)
qed simp

lemma fair_order_bands:
  fixes loc now rows
  defines "due \<equiv> filter (\<lambda>r. it_nextRunAt r \<le> now) rows"
  shows "mset (fairIngestionTaskOrder loc now rows) = mset due"
    and "sorted (map hour_band (fairIngestionTaskOrder loc now rows))"
    and "filter (\<lambda>r. hour_band r = b) (fairIngestionTaskOrder loc now rows)
      = band_order loc (now div (24 * 60 * 60 * 1000)) (filter (\<lambda>r. hour_band r = b) due)"
proof -
  let ?ks = "js_sort num_cmp (map fst (group_by hour_band due))"
  let ?F = "\<lambda>b. band_order loc (now div (24 * 60 * 60 * 1000)) (filter (\<lambda>r. hour_band r = b) due)"
  have fair: "fairIngestionTaskOrder loc now rows = concat (map ?F ?ks)"
    by (simp add: fairIngestionTaskOrder_def Let_def due_def)
  have ks: "distinct ?ks" "set ?ks = hour_band ` set due"
    by (simp_all add: group_by_def comp_def)
  have F: "hour_band x = k" if "x \<in> set (?F k)" for x k using that by simp
  have "mset (concat (map ?F ?ks)) = mset (concat (map (\<lambda>b. filter (\<lambda>r. hour_band r = b) due) ?ks))"
    by (rule mset_concat_cong) (rule mset_band_order)
  also have "\<dots> = mset due" by (rule mset_all_groups [OF ks])
  finally show "mset (fairIngestionTaskOrder loc now rows) = mset due" unfolding fair .
  show "sorted (map hour_band (fairIngestionTaskOrder loc now rows))"
    unfolding fair by (rule sorted_concat_keyed [OF numeric.sorted_js_sort F])
  have "?F b = []" if "b \<notin> set ?ks"
  proof -
    have "filter (\<lambda>r. hour_band r = b) due = []"
      using that ks(2) by (auto simp: filter_empty_conv)
    then show ?thesis by (metis mset_band_order mset_zero_iff)
  qed
  moreover have "filter (\<lambda>r. hour_band r = b) (fairIngestionTaskOrder loc now rows) = (if b \<in> set ?ks then ?F b else [])"
    unfolding fair by (rule filter_concat_keyed [OF ks(1) F])
  ultimately show "filter (\<lambda>r. hour_band r = b) (fairIngestionTaskOrder loc now rows) = ?F b"
    by (metis (full_types))
qed

lemma two_to_one_turns:
  assumes "\<And>x. x \<in> set ps \<Longrightarrow> P x" and "\<And>x. x \<in> set bs \<Longrightarrow> \<not> P x"
  shows "(length (filter P (take n (two_to_one ps bs))) < length ps \<longrightarrow>
        2 * length (filter (\<lambda>x. \<not> P x) (take n (two_to_one ps bs))) \<le> length (filter P (take n (two_to_one ps bs))))
    \<and> (length (filter (\<lambda>x. \<not> P x) (take n (two_to_one ps bs))) < length bs \<longrightarrow>
        length (filter P (take n (two_to_one ps bs))) \<le> 2 * length (filter (\<lambda>x. \<not> P x) (take n (two_to_one ps bs))) + 2)"
  using assms
proof (induction ps bs arbitrary: n rule: two_to_one.induct)
  case (1 p q ps b bs)
  show ?case
  proof (cases "n < 3")
    case True
    then have "n = 0 \<or> n = 1 \<or> n = 2" by auto
    then show ?thesis using 1 by (auto simp: numeral_2_eq_2)
  next
    case False
    then obtain m where "n = 3 + m" using le_Suc_ex [of 3 n] by auto
    then have "n = Suc (Suc (Suc m))" by simp
    then show ?thesis using "1.prems" "1.IH" [of m] by auto
  qed
next
  case (2 p q ps)
  show ?case
  proof (cases "n < 2")
    case True
    then have "n = 0 \<or> n = 1" by auto
    then show ?thesis using 2 by auto
  next
    case False
    then obtain m where "n = Suc (Suc m)" by (metis add_2_eq_Suc le_Suc_ex not_less)
    then show ?thesis using "2.prems" "2.IH" [of m] by auto
  qed
next
  case (3 p b bs)
  show ?case
  proof (cases "n < 2")
    case True
    then have "n = 0 \<or> n = 1" by auto
    then show ?thesis using 3 by auto
  next
    case False
    then obtain m where "n = Suc (Suc m)" by (metis add_2_eq_Suc le_Suc_ex not_less)
    then show ?thesis using "3.prems" "3.IH" [of m] by auto
  qed
next
  case (4 p)
  then show ?case by (cases n) auto
next
  case (5 b bs)
  show ?case
  proof (cases n)
    case (Suc m)
    then show ?thesis using "5.prems" "5.IH" [of m] by auto
  qed simp
qed simp

section \<open>Properties\<close>

text \<open>C25. The fair order runs every due task exactly once, older hours first; and within an hour the
  territory and retail portfolio gets two turns per turn of the others: after any number of turns
  the others have had at most half as many, unless that portfolio is exhausted, and the portfolio is
  never more than two turns ahead of its double share, unless the others are.\<close>

theorem fair_order_is_fair:
  "mset (fairIngestionTaskOrder loc now rows) = mset (filter (\<lambda>r. it_nextRunAt r \<le> now) rows)
   \<and> sorted (map hour_band (fairIngestionTaskOrder loc now rows))
   \<and> (let due = filter (\<lambda>r. it_nextRunAt r \<le> now \<and> hour_band r = b) rows;
          turns = take n (filter (\<lambda>r. hour_band r = b) (fairIngestionTaskOrder loc now rows));
          favoured = length (filter preferred turns);
          others = length (filter (\<lambda>r. \<not> preferred r) turns)
      in (favoured < length (filter preferred due) \<longrightarrow> 2 * others \<le> favoured)
         \<and> (others < length (filter (\<lambda>r. \<not> preferred r) due) \<longrightarrow> favoured \<le> 2 * others + 2))"
proof -
  let ?due = "filter (\<lambda>r. hour_band r = b) (filter (\<lambda>r. it_nextRunAt r \<le> now) rows)"
  have due: "filter (\<lambda>r. it_nextRunAt r \<le> now \<and> hour_band r = b) rows = ?due"
    by (simp add: conj_commute)
  define order where "order = filter (\<lambda>r. hour_band r = b) (fairIngestionTaskOrder loc now rows)"
  obtain xs where xs: "order = two_to_one (filter preferred xs) (filter (\<lambda>r. \<not> preferred r) xs)"
    unfolding order_def fair_order_bands(3) band_order_def Let_def by blast
  have "mset xs = mset order" by (simp add: xs mset_partition)
  also have "mset order = mset ?due" unfolding order_def fair_order_bands(3) by (rule mset_band_order)
  finally have len: "length (filter preferred xs) = length (filter preferred ?due)"
    "length (filter (\<lambda>r. \<not> preferred r) xs) = length (filter (\<lambda>r. \<not> preferred r) ?due)"
    by (rule length_filter_mset)+
  have "(length (filter preferred (take n order)) < length (filter preferred xs) \<longrightarrow>
        2 * length (filter (\<lambda>r. \<not> preferred r) (take n order)) \<le> length (filter preferred (take n order)))
    \<and> (length (filter (\<lambda>r. \<not> preferred r) (take n order)) < length (filter (\<lambda>r. \<not> preferred r) xs) \<longrightarrow>
        length (filter preferred (take n order)) \<le> 2 * length (filter (\<lambda>r. \<not> preferred r) (take n order)) + 2)"
    unfolding xs by (rule two_to_one_turns) simp_all
  note turns = this [unfolded len]
  show ?thesis
    unfolding Let_def due order_def [symmetric] using fair_order_bands(1,2) [of loc now rows] turns by blast
qed

definition sample_due :: "string \<Rightarrow> string option \<Rightarrow> task_row" where
  "sample_due k f = new_task id 3 k \<lparr>ts_source = ''JSearch'', ts_queryFamily = f, ts_searchQuery = None,
     ts_geoLane = ''minnesota'', ts_ingestionMode = ''paid''\<rparr>"

definition sample_queue :: "task_row list" where
  "sample_queue = [sample_due ''a'' None, sample_due ''b'' (Some ''territory_manager''),
     sample_due ''c'' (Some ''territory_manager''), sample_due ''d'' (Some ''territory_manager'')]"

theorem fair_order_is_fair_witness:
  "2 * length (filter (\<lambda>r. \<not> preferred r)
       (take 2 (filter (\<lambda>r. hour_band r = 0) (fairIngestionTaskOrder code_unit_cmp 5 sample_queue))))
     \<le> length (filter preferred
       (take 2 (filter (\<lambda>r. hour_band r = 0) (fairIngestionTaskOrder code_unit_cmp 5 sample_queue))))"
proof -
  have "trim_underscores (underscored False (to_lower ''territory manager'')) = ''territory_manager''"
    by code_simp
  then have t: "isTerritoryRetailSearchFamily (Some ''territory_manager'')"
    by (simp add: isTerritoryRetailSearchFamily_def TERRITORY_RETAIL_QUERY_FAMILIES_def
        TERRITORY_FIELD_JOB_SEARCH_QUERIES_def)
  have n: "\<not> isTerritoryRetailSearchFamily None" by (simp add: isTerritoryRetailSearchFamily_def)
  have due: "length (filter preferred (filter (\<lambda>r. it_nextRunAt r \<le> 5 \<and> hour_band r = 0) sample_queue)) = 3"
    by (simp add: sample_queue_def sample_due_def new_task_def preferred_def or_null_def truthy_def t n hour_band_def)
  have "length (filter preferred (take 2 (filter (\<lambda>r. hour_band r = 0)
      (fairIngestionTaskOrder code_unit_cmp 5 sample_queue)))) \<le> 2"
    by (rule order_trans [OF length_filter_le]) simp
  with fair_order_is_fair [of code_unit_cmp 5 sample_queue 0 2] due show ?thesis
    by (simp add: Let_def)
qed

end
