(* ===== verification/Calendar.thy ===== *)
theory Calendar
  imports Prelude
begin

text \<open>
  The UTC calendar of \<open>Date\<close>, as ECMAScript defines it: years from day numbers, months from the day
  within the year, and \<open>Date.UTC\<close>. The budget windows of the providers are days and months of this
  calendar.
\<close>

definition day_ms :: ms where
  "day_ms = 86400000"

definition hour_ms :: ms where
  "hour_ms = 3600000"

definition day_of :: "ms \<Rightarrow> int" where
  "day_of t = t div day_ms"

definition utc_hour :: "ms \<Rightarrow> int" where
  "utc_hour t = (t mod day_ms) div hour_ms"

definition day_from_year :: "int \<Rightarrow> int" where
  "day_from_year y =
     365 * (y - 1970) + (y - 1969) div 4 - (y - 1901) div 100 + (y - 1601) div 400"

definition leap_year :: "int \<Rightarrow> bool" where
  "leap_year y \<longleftrightarrow> y mod 4 = 0 \<and> (y mod 100 \<noteq> 0 \<or> y mod 400 = 0)"

lemma div_step:
  fixes a k :: int
  assumes "0 < k"
  shows "(a + 1) div k = a div k + (if k dvd a + 1 then 1 else 0)"
proof -
  define q r where "q = a div k" and "r = a mod k"
  have a: "a = k * q + r" and r: "0 \<le> r" "r < k"
    using assms by (simp_all add: q_def r_def)
  show ?thesis
  proof (cases "r = k - 1")
    case True
    with a have e: "a + 1 = k * (q + 1) + 0" by (simp add: algebra_simps)
    then have "(a + 1) div k = q + 1" by (rule int_div_pos_eq) (use assms in simp_all)
    moreover have "k dvd a + 1" using e by simp
    ultimately show ?thesis by (simp add: q_def)
  next
    case False
    have e: "a + 1 = k * q + (r + 1)" using a by simp
    have "(a + 1) div k = q" using False r by (intro int_div_pos_eq [OF e]) auto
    moreover have "(a + 1) mod k = r + 1" using False r by (intro int_mod_pos_eq [OF e]) auto
    then have "\<not> k dvd a + 1" using r by (simp add: dvd_eq_mod_eq_0)
    ultimately show ?thesis by (simp add: q_def)
  qed
qed

lemma leap_count:
  fixes x a b c :: int
  shows "(C \<Longrightarrow> B) \<Longrightarrow> (B \<Longrightarrow> A) \<Longrightarrow>
    x + 365 + (a + (if A then 1 else 0)) - (b + (if B then 1 else 0)) + (c + (if C then 1 else 0))
      = x + a - b + c + (if A \<and> (\<not> B \<or> C) then 366 else 365)"
  by (cases A; cases B; cases C) simp_all

lemma year_length: "day_from_year (y + 1) = day_from_year y + (if leap_year y then 366 else 365)"
proof -
  have shift: "k dvd c \<Longrightarrow> k dvd y - c \<longleftrightarrow> k dvd y" for k c :: int
    by (metis dvd_add_left_iff diff_add_cancel)
  have s: "4 dvd y - 1968 \<longleftrightarrow> 4 dvd y" "100 dvd y - 1900 \<longleftrightarrow> 100 dvd y"
    "400 dvd y - 1600 \<longleftrightarrow> 400 dvd y"
    by (rule shift; simp)+
  have t: "400 dvd y \<Longrightarrow> 100 dvd y" "100 dvd y \<Longrightarrow> 4 dvd y"
    using dvd_trans [of 100 400 y] dvd_trans [of 4 100 y] by simp_all
  show ?thesis
  proof -
    have d4: "(y - 1968) div 4 = (y - 1969) div 4 + (if 4 dvd y then 1 else 0)"
      using div_step [of 4 "y - 1969"] s(1) by simp
    have d100: "(y - 1900) div 100 = (y - 1901) div 100 + (if 100 dvd y then 1 else 0)"
      using div_step [of 100 "y - 1901"] s(2) by simp
    have d400: "(y - 1600) div 400 = (y - 1601) div 400 + (if 400 dvd y then 1 else 0)"
      using div_step [of 400 "y - 1601"] s(3) by simp
    have "day_from_year (y + 1) = 365 * (y - 1970) + 365 + (y - 1968) div 4 - (y - 1900) div 100
        + (y - 1600) div 400"
      by (simp add: day_from_year_def)
    moreover have "leap_year y \<longleftrightarrow> 4 dvd y \<and> (\<not> 100 dvd y \<or> 400 dvd y)"
      by (simp add: leap_year_def dvd_eq_mod_eq_0)
    ultimately have "day_from_year (y + 1) = 365 * (y - 1970) + 365
        + ((y - 1969) div 4 + (if 4 dvd y then 1 else 0))
        - ((y - 1901) div 100 + (if 100 dvd y then 1 else 0))
        + ((y - 1601) div 400 + (if 400 dvd y then 1 else 0))"
      "leap_year y \<longleftrightarrow> 4 dvd y \<and> (\<not> 100 dvd y \<or> 400 dvd y)"
      unfolding d4 d100 d400 by iprover+
    moreover have "(365::int) * (y - 1970) + 365
        + ((y - 1969) div 4 + (if 4 dvd y then 1 else 0))
        - ((y - 1901) div 100 + (if 100 dvd y then 1 else 0))
        + ((y - 1601) div 400 + (if 400 dvd y then 1 else 0))
      = day_from_year y + (if 4 dvd y \<and> (\<not> 100 dvd y \<or> 400 dvd y) then 366 else 365)"
      unfolding day_from_year_def by (rule leap_count) (use t in iprover)+
    ultimately show ?thesis by simp
  qed
qed

lemma year_grows: "day_from_year y + 365 \<le> day_from_year (y + 1)"
  "day_from_year (y + 1) \<le> day_from_year y + 366"
  by (simp_all add: year_length)

text \<open>\<open>YearFromTime\<close>: the year whose first day is the last not after the day. The search starts
  from an estimate and moves year by year.\<close>

function find_year :: "int \<Rightarrow> int \<Rightarrow> int" where
  "find_year d y =
     (if d < day_from_year y then find_year d (y - 1)
      else if day_from_year (y + 1) \<le> d then find_year d (y + 1)
      else y)"
  by pat_completeness auto
termination
proof (relation "measure (\<lambda>(d, y). if d < day_from_year y then nat (day_from_year y - d) + 400
    else nat (d - day_from_year y))", goal_cases)
  case (2 d y)
  then show ?case using year_grows [of "y - 1"] by auto
next
  case (3 d y)
  then show ?case using year_grows [of y] by auto
qed simp

declare find_year.simps [simp del]

lemma find_year_spec: "day_from_year (find_year d y) \<le> d \<and> d < day_from_year (find_year d y + 1)"
proof (induction d y rule: find_year.induct)
  case (1 d y)
  then show ?case by (subst find_year.simps, subst (2) find_year.simps) (auto split: if_split)
qed

definition year_of :: "ms \<Rightarrow> int" where
  "year_of t = find_year (day_of t) (1970 + (day_of t * 400) div 146097)"

definition month_start :: "bool \<Rightarrow> int \<Rightarrow> int" where
  "month_start leap m =
     (let l = (if leap then 1 else 0) in
      if m \<le> 0 then 0 else if m = 1 then 31 else if m = 2 then 59 + l else if m = 3 then 90 + l
      else if m = 4 then 120 + l else if m = 5 then 151 + l else if m = 6 then 181 + l
      else if m = 7 then 212 + l else if m = 8 then 243 + l else if m = 9 then 273 + l
      else if m = 10 then 304 + l else if m = 11 then 334 + l else 365 + l)"

text \<open>Months are numbered from zero.\<close>

definition month_of :: "ms \<Rightarrow> int" where
  "month_of t =
     (let y = year_of t; leap = leap_year y; r = day_of t - day_from_year y in
      int (length (takeWhile (\<lambda>m. month_start leap (m + 1) \<le> r) [0..11])))"

definition date_of_month :: "ms \<Rightarrow> int" where
  "date_of_month t =
     day_of t - day_from_year (year_of t) - month_start (leap_year (year_of t)) (month_of t) + 1"

text \<open>\<open>Date.UTC(year, month, date)\<close> at midnight; the month may be 12, the January after.\<close>

definition date_utc :: "int \<Rightarrow> int \<Rightarrow> int \<Rightarrow> ms" where
  "date_utc y m dt =
     (let y' = y + m div 12; m' = m mod 12 in
      (day_from_year y' + month_start (leap_year y') m' + dt - 1) * day_ms)"

definition nextUtcDailyReset :: "ms \<Rightarrow> ms" where
  "nextUtcDailyReset now = date_utc (year_of now) (month_of now) (date_of_month now + 1)"

definition nextUtcMonthlyReset :: "ms \<Rightarrow> ms" where
  "nextUtcMonthlyReset now = date_utc (year_of now) (month_of now + 1) 1"

lemma year_of_spec: "day_from_year (year_of t) \<le> day_of t" "day_of t < day_from_year (year_of t + 1)"
  using find_year_spec by (simp_all add: year_of_def)

lemma month_of_spec:
  "0 \<le> month_of t \<and> month_of t \<le> 11
   \<and> month_start (leap_year (year_of t)) (month_of t) \<le> day_of t - day_from_year (year_of t)
   \<and> day_of t - day_from_year (year_of t) < month_start (leap_year (year_of t)) (month_of t + 1)"
proof -
  define r where "r = day_of t - day_from_year (year_of t)"
  define leap where "leap = leap_year (year_of t)"
  have r: "0 \<le> r" "r < (if leap then 366 else 365)"
    using year_of_spec [of t] year_length [of "year_of t"] by (auto simp: r_def leap_def split: if_splits)
  have "[0..11] = [0, 1, 2, 3, 4, 5, 6, 7, 8, 9, 10, 11::int]"
    by (simp add: upto.simps)
  then have m: "month_of t = int (length (takeWhile (\<lambda>m. month_start leap (m + 1) \<le> r)
      [0, 1, 2, 3, 4, 5, 6, 7, 8, 9, 10, 11]))"
    by (simp add: month_of_def r_def leap_def Let_def)
  have "0 \<le> month_of t \<and> month_of t \<le> 11 \<and> month_start leap (month_of t) \<le> r
      \<and> r < month_start leap (month_of t + 1)"
    unfolding m using r by (cases leap) (auto simp: month_start_def)
  then show ?thesis by (simp add: r_def leap_def)
qed

lemma month_of_range: "0 \<le> month_of t" "month_of t \<le> 11"
  using month_of_spec [of t] by auto

lemma daily_reset_value: "nextUtcDailyReset now = (day_of now + 1) * day_ms"
  using month_of_range [of now]
  by (simp add: nextUtcDailyReset_def date_utc_def date_of_month_def Let_def)

lemma daily_reset_after: "now < nextUtcDailyReset now" "nextUtcDailyReset now \<le> now + day_ms"
proof -
  have "now = day_of now * day_ms + now mod day_ms" by (simp add: day_of_def)
  moreover have "0 \<le> now mod day_ms" "now mod day_ms < day_ms" by (simp_all add: day_ms_def)
  ultimately show "now < nextUtcDailyReset now" "nextUtcDailyReset now \<le> now + day_ms"
    unfolding daily_reset_value by (simp_all add: algebra_simps)
qed

lemma monthly_reset_value:
  "nextUtcMonthlyReset now = (if month_of now = 11 then day_from_year (year_of now + 1)
    else day_from_year (year_of now) + month_start (leap_year (year_of now)) (month_of now + 1)) * day_ms"
proof (cases "month_of now = 11")
  case False
  then have "(month_of now + 1) div 12 = 0" "(month_of now + 1) mod 12 = month_of now + 1"
    using month_of_range [of now] by auto
  with False show ?thesis by (simp add: nextUtcMonthlyReset_def date_utc_def Let_def)
qed (simp add: nextUtcMonthlyReset_def date_utc_def Let_def month_start_def)

lemma monthly_reset_after: "nextUtcDailyReset now \<le> nextUtcMonthlyReset now"
proof -
  have "day_of now + 1 \<le> (if month_of now = 11 then day_from_year (year_of now + 1)
      else day_from_year (year_of now) + month_start (leap_year (year_of now)) (month_of now + 1))"
    using month_of_spec [of now] year_of_spec [of now] by auto
  then show ?thesis
    unfolding daily_reset_value monthly_reset_value
    by (rule mult_right_mono) (simp add: day_ms_def)
qed

lemma hour_range: "0 \<le> utc_hour t" "utc_hour t \<le> 23"
  and hour_start: "day_of t * day_ms + utc_hour t * hour_ms \<le> t"
  and hour_end: "t < day_of t * day_ms + (utc_hour t + 1) * hour_ms"
proof -
  have m: "0 \<le> t mod day_ms" "t mod day_ms < 24 * hour_ms" by (simp_all add: day_ms_def hour_ms_def)
  then show "0 \<le> utc_hour t" "utc_hour t \<le> 23"
    by (simp_all add: utc_hour_def hour_ms_def)
  have "t = day_of t * day_ms + t mod day_ms" by (simp add: day_of_def)
  moreover have "utc_hour t * hour_ms \<le> t mod day_ms" "t mod day_ms < (utc_hour t + 1) * hour_ms"
    by (simp_all add: utc_hour_def hour_ms_def)
  ultimately show "day_of t * day_ms + utc_hour t * hour_ms \<le> t"
    "t < day_of t * day_ms + (utc_hour t + 1) * hour_ms" by linarith+
qed

text \<open>The keys of the budget windows, \<open>toISOString().slice(0, 10)\<close> and \<open>.slice(0, 7)\<close>, for the years
  of four digits.\<close>

fun digits :: "nat \<Rightarrow> nat \<Rightarrow> string" where
  "digits 0 n = []"
| "digits (Suc k) n = digits k (n div 10) @ [''0123456789'' ! (n mod 10)]"

definition month_key :: "ms \<Rightarrow> string" where
  "month_key t = digits 4 (nat (year_of t)) @ ''-'' @ digits 2 (nat (month_of t + 1))"

definition day_key :: "ms \<Rightarrow> string" where
  "day_key t = month_key t @ ''-'' @ digits 2 (nat (date_of_month t))"

lemma same_day_keys: "day_of s = day_of t \<Longrightarrow> day_key s = day_key t \<and> month_key s = month_key t"
  by (simp add: day_key_def month_key_def year_of_def month_of_def date_of_month_def)

end
