(* ===== verification/Text_Pattern.thy ===== *)
theory Text_Pattern
  imports Prelude
begin

text \<open>
  The fragment of JavaScript's regular expressions the classifiers use, as a backtracking matcher:
  literals, one optional character, any text on a line, and blanks. A pattern with the flag \<open>i\<close> is
  written in lower case and run on the lower-cased text.
\<close>

datatype pat =
    Lit string
  | OptAny    \<comment> \<open>\<open>.?\<close>\<close>
  | AnyStar   \<comment> \<open>\<open>.*\<close>\<close>
  | Blanks    \<comment> \<open>\<open>\s+\<close>\<close>
  | AnyOf "string list"  \<comment> \<open>\<open>(?:a|b)\<close>\<close>

definition is_line_end :: "char \<Rightarrow> bool" where
  "is_line_end c \<longleftrightarrow> c = CHR 0x0A \<or> c = CHR 0x0D"

fun match_here :: "pat list \<Rightarrow> string \<Rightarrow> bool" where
  "match_here [] s = True"
| "match_here (Lit l # ps) s = (prefix l s \<and> match_here ps (drop (length l) s))"
| "match_here (OptAny # ps) s =
     ((case s of [] \<Rightarrow> False | c # t \<Rightarrow> \<not> is_line_end c \<and> match_here ps t) \<or> match_here ps s)"
| "match_here (AnyStar # ps) s =
     ((case s of [] \<Rightarrow> False | c # t \<Rightarrow> \<not> is_line_end c \<and> match_here (AnyStar # ps) t) \<or> match_here ps s)"
| "match_here (Blanks # ps) s =
     (case s of [] \<Rightarrow> False
      | c # t \<Rightarrow> is_space c \<and> (match_here (Blanks # ps) t \<or> match_here ps t))"
| "match_here (AnyOf ls # ps) s = (\<exists>l \<in> set ls. prefix l s \<and> match_here ps (drop (length l) s))"

text \<open>A match may start anywhere; \<open>some_match\<close> is an alternation of patterns at the top.\<close>

fun search :: "pat list \<Rightarrow> string \<Rightarrow> bool" where
  "search ps [] = match_here ps []"
| "search ps (c # s) = (match_here ps (c # s) \<or> search ps s)"

definition some_match :: "pat list list \<Rightarrow> string \<Rightarrow> bool" where
  "some_match alts s = list_ex (\<lambda>ps. search ps (to_lower s)) alts"

lemma search_suffixes: "search ps s \<longleftrightarrow> (\<exists>t. suffix t s \<and> match_here ps t)"
  by (induction s) (auto simp: suffix_Cons)

lemma search_append: "match_here ps t \<Longrightarrow> search ps (s @ t)"
  by (induction s) (cases t; auto)+

lemma match_prefix_literal: "match_here [Lit l] (l @ t)"
  by simp

lemma search_literal [simp]: "search [Lit l] s \<longleftrightarrow> (\<exists>a b. s = a @ l @ b)"
  by (auto simp: search_suffixes suffix_def prefix_def)

text \<open>A leading decimal number, \<open>Number.parseInt(text, 10)\<close>: \<open>None\<close> is \<open>NaN\<close>.\<close>

definition digit_value :: "char \<Rightarrow> int option" where
  "digit_value c = (let n = (of_char c :: nat) in if 48 \<le> n \<and> n \<le> 57 then Some (int n - 48) else None)"

fun digits_value :: "int \<Rightarrow> string \<Rightarrow> int" where
  "digits_value acc [] = acc"
| "digits_value acc (c # s) =
     (case digit_value c of None \<Rightarrow> acc | Some d \<Rightarrow> digits_value (acc * 10 + d) s)"

definition parse_int :: "string \<Rightarrow> int option" where
  "parse_int s =
     (let t = dropWhile is_space s;
          neg = (t \<noteq> [] \<and> hd t = CHR ''-'');
          u = (if t \<noteq> [] \<and> (hd t = CHR ''-'' \<or> hd t = CHR ''+'') then tl t else t)
      in if u \<noteq> [] \<and> digit_value (hd u) \<noteq> None
         then Some (if neg then - digits_value 0 u else digits_value 0 u) else None)"

end
