(* ===== verification/Provider_Circuit.thy ===== *)
theory Provider_Circuit
  imports Calendar Text_Pattern Lease Sql
begin

text \<open>
  The control of requests to job providers (src/lib/ingestionControl.ts): the budget ledger with its
  hourly release, the failure circuit, the classification of failures and the request lease, all on
  one row per provider. Every transaction is one function on the rows; the clock reading is an
  argument. The digest of \<open>stableHash\<close> is the parameter \<open>stable_hash\<close>. The retry wrapper of the
  transactions is modelled on its own (\<open>withProviderTransactionRetry\<close>), and a database without
  the control tables, on which the code fails open, is not.
\<close>

section \<open>Rows\<close>

record circuit =
  pc_state :: string
  pc_openUntil :: "ms option"
  pc_consecutiveFailures :: nat
  pc_dailyLimit :: "int option"
  pc_monthlyLimit :: "int option"
  pc_dailyUsed :: int
  pc_monthlyUsed :: int
  pc_budgetDay :: "string option"
  pc_budgetMonth :: "string option"
  pc_lastError :: "string option"
  pc_lastFailureAt :: "ms option"
  pc_lastSuccessAt :: "ms option"
  pc_requestLeaseToken :: "string option"
  pc_requestLeaseOwner :: "string option"
  pc_requestLeaseExpiresAt :: "ms option"

definition new_circuit :: circuit where
  "new_circuit = \<lparr>pc_state = ''closed'', pc_openUntil = None, pc_consecutiveFailures = 0,
     pc_dailyLimit = None, pc_monthlyLimit = None, pc_dailyUsed = 0, pc_monthlyUsed = 0,
     pc_budgetDay = None, pc_budgetMonth = None, pc_lastError = None, pc_lastFailureAt = None,
     pc_lastSuccessAt = None, pc_requestLeaseToken = None, pc_requestLeaseOwner = None,
     pc_requestLeaseExpiresAt = None\<rparr>"

record incident =
  pn_provider :: string
  pn_classification :: string
  pn_status :: string
  pn_message :: string
  pn_affectedQueryCount :: nat
  pn_occurrenceCount :: nat
  pn_firstSeenAt :: ms
  pn_lastSeenAt :: ms
  pn_resolvedAt :: "ms option"

record provider_db =
  db_circuits :: "string \<rightharpoonup> circuit"
  db_incidents :: "string \<rightharpoonup> incident" \<comment> \<open>by incident key\<close>
  db_affected :: "(string \<times> string) list" \<comment> \<open>incident and task\<close>

section \<open>Budget policy\<close>

datatype request_kind = SearchRequest | EnrichmentRequest

definition INDEED12_BUDGET_PROVIDER :: string where
  "INDEED12_BUDGET_PROVIDER = ''Indeed12''"

definition GLASSDOOR_BUDGET_PROVIDER :: string where
  "GLASSDOOR_BUDGET_PROVIDER = ''Glassdoor (RapidAPI)''"

definition INDEED12_BUDGET_LIMITS :: "int option \<times> int option" where
  "INDEED12_BUDGET_LIMITS = (Some 13, Some 400)"

definition GLASSDOOR_BUDGET_LIMITS :: "int option \<times> int option" where
  "GLASSDOOR_BUDGET_LIMITS = (Some 103, Some 3200)"

definition ENRICHMENT_SHARING_PROVIDERS :: "string list" where
  "ENRICHMENT_SHARING_PROVIDERS = [INDEED12_BUDGET_PROVIDER, GLASSDOOR_BUDGET_PROVIDER]"

definition PACED_PROVIDERS :: "string list" where
  "PACED_PROVIDERS = [''JSearch'', ''LinkedIn'', INDEED12_BUDGET_PROVIDER, GLASSDOOR_BUDGET_PROVIDER]"

lemmas provider_names = INDEED12_BUDGET_PROVIDER_def GLASSDOOR_BUDGET_PROVIDER_def

definition providerBudgetAuthority :: "string \<Rightarrow> string" where
  "providerBudgetAuthority source =
     (if source = ''Indeed'' \<or> source = ''Indeed Details'' then INDEED12_BUDGET_PROVIDER
      else if source = ''Glassdoor Details'' then GLASSDOOR_BUDGET_PROVIDER
      else source)"

definition providerRequestKind :: "string \<Rightarrow> request_kind" where
  "providerRequestKind source =
     (if ends_with source '' Details'' then EnrichmentRequest else SearchRequest)"

text \<open>\<open>Math.floor(limit * 0.6)\<close>; the rounding of the product never reaches the next integer.\<close>

definition searchAllowanceFor :: "int \<Rightarrow> int" where
  "searchAllowanceFor limit = max 1 (limit * 3 div 5)"

definition upper_char :: "char \<Rightarrow> char" where
  "upper_char c = (let n = (of_char c :: nat) in if 97 \<le> n \<and> n \<le> 122 then char_of (n - 32) else c)"

definition is_env_char :: "char \<Rightarrow> bool" where
  "is_env_char c = (let n = (of_char c :: nat) in (65 \<le> n \<and> n \<le> 90) \<or> (48 \<le> n \<and> n \<le> 57))"

text \<open>\<open>replace(/[^A-Z0-9]+/g, '_')\<close>: every run of other characters becomes one underscore.\<close>

fun env_name :: "bool \<Rightarrow> string \<Rightarrow> string" where
  "env_name in_run [] = []"
| "env_name in_run (c # s) =
     (if is_env_char c then c # env_name False s
      else if in_run then env_name True s else CHR ''_'' # env_name True s)"

record reservation_input =
  ri_provider :: string
  ri_dailyLimit :: "int option"
  ri_monthlyLimit :: "int option"

definition configured :: "(string \<rightharpoonup> string) \<Rightarrow> string \<Rightarrow> int option \<Rightarrow> int option" where
  "configured environment name fallback =
     (case parse_int (case environment name of None \<Rightarrow> [] | Some v \<Rightarrow> v) of
        Some n \<Rightarrow> Some n
      | None \<Rightarrow> fallback)"

definition providerBudgetReservationInput ::
  "string \<Rightarrow> int option \<times> int option \<Rightarrow> (string \<rightharpoonup> string) \<Rightarrow> reservation_input" where
  "providerBudgetReservationInput source defaults environment =
     (let provider = providerBudgetAuthority source;
          policyDefaults = (if provider = INDEED12_BUDGET_PROVIDER then INDEED12_BUDGET_LIMITS
            else if provider = GLASSDOOR_BUDGET_PROVIDER then GLASSDOOR_BUDGET_LIMITS else defaults);
          envPrefix = env_name False (map upper_char provider)
      in \<lparr>ri_provider = provider,
          ri_dailyLimit = configured environment (envPrefix @ ''_DAILY_LIMIT'') (fst policyDefaults),
          ri_monthlyLimit = configured environment (envPrefix @ ''_MONTHLY_LIMIT'') (snd policyDefaults)\<rparr>)"

section \<open>Budget decisions\<close>

datatype block_reason = CircuitOpen | DailyBudget | MonthlyBudget | PacedBudget | EnrichmentBudget

record budget_decision =
  bd_allowed :: bool
  bd_dailyUsed :: int
  bd_monthlyUsed :: int
  bd_reason :: "block_reason option"
  bd_retryAt :: "ms option"

record budget_query =
  bq_provider :: string
  bq_state :: string
  bq_openUntil :: "ms option"
  bq_dailyLimit :: "int option"
  bq_monthlyLimit :: "int option"
  bq_dailyUsed :: int
  bq_monthlyUsed :: int
  bq_kind :: "request_kind option"

definition reached :: "int option \<Rightarrow> int \<Rightarrow> bool" where
  "reached limit used = (case limit of None \<Rightarrow> False | Some l \<Rightarrow> l \<le> used)"

text \<open>\<open>Math.ceil(a / b)\<close> for a positive divisor.\<close>

definition ceil_div :: "int \<Rightarrow> int \<Rightarrow> int" where
  "ceil_div a b = - ((- a) div b)"

text \<open>\<open>setUTCHours(h, 0, 0, 0)\<close> on the day of an instant.\<close>

definition at_utc_hour :: "ms \<Rightarrow> int \<Rightarrow> ms" where
  "at_utc_hour now h = day_of now * day_ms + h * hour_ms"

definition released_by :: "int \<Rightarrow> ms \<Rightarrow> int" where
  "released_by limit now = limit * (utc_hour now + 1) div 24"

definition pacing_constraint :: "budget_query \<Rightarrow> ms \<Rightarrow> (block_reason \<times> ms) list" where
  "pacing_constraint q now =
     (case bq_dailyLimit q of
        None \<Rightarrow> []
      | Some limit \<Rightarrow>
          if bq_provider q \<in> set PACED_PROVIDERS \<and> \<not> reached (bq_dailyLimit q) (bq_dailyUsed q) \<and> 0 < limit
          then (let released = released_by limit now in
            if released \<le> bq_dailyUsed q
            then [(PacedBudget, at_utc_hour now (ceil_div ((bq_dailyUsed q + 1) * 24) limit - 1))]
            else if bq_kind q = Some SearchRequest \<and> bq_provider q \<in> set ENRICHMENT_SHARING_PROVIDERS
                    \<and> searchAllowanceFor released \<le> bq_dailyUsed q
            then [(EnrichmentBudget, at_utc_hour now (utc_hour now + 1))]
            else [])
          else [])"

definition budget_constraints :: "budget_query \<Rightarrow> ms \<Rightarrow> (block_reason \<times> ms) list" where
  "budget_constraints q now =
     (case bq_openUntil q of
        Some u \<Rightarrow> if bq_state q = ''open'' \<and> now < u then [(CircuitOpen, u)] else []
      | None \<Rightarrow> [])
     @ (if reached (bq_dailyLimit q) (bq_dailyUsed q) then [(DailyBudget, nextUtcDailyReset now)] else [])
     @ (if reached (bq_monthlyLimit q) (bq_monthlyUsed q)
        then [(MonthlyBudget, nextUtcMonthlyReset now)] else [])
     @ pacing_constraint q now"

definition evaluateProviderBudget :: "budget_query \<Rightarrow> ms \<Rightarrow> budget_decision" where
  "evaluateProviderBudget q now =
     (case js_sort (desc_cmp (key_cmp snd num_cmp)) (budget_constraints q now) of
        (reason, retryAt) # _ \<Rightarrow>
          \<lparr>bd_allowed = False, bd_dailyUsed = bq_dailyUsed q, bd_monthlyUsed = bq_monthlyUsed q,
           bd_reason = Some reason, bd_retryAt = Some retryAt\<rparr>
      | [] \<Rightarrow>
          \<lparr>bd_allowed = True, bd_dailyUsed = bq_dailyUsed q + 1, bd_monthlyUsed = bq_monthlyUsed q + 1,
           bd_reason = None, bd_retryAt = None\<rparr>)"

definition evaluateProviderAvailability ::
  "budget_query \<Rightarrow> string option \<Rightarrow> string option \<Rightarrow> ms \<Rightarrow> budget_decision" where
  "evaluateProviderAvailability q budgetDay budgetMonth now =
     evaluateProviderBudget
       (q\<lparr>bq_dailyUsed := (if budgetDay = Some (day_key now) then bq_dailyUsed q else 0),
          bq_monthlyUsed := (if budgetMonth = Some (month_key now) then bq_monthlyUsed q else 0)\<rparr>) now"

section \<open>Classification of failures\<close>

record provider_error =
  xe_message :: string
  xe_code :: "string option"
  xe_sqlstate :: "string option"

definition isPrismaSerializationFailure :: "provider_error \<Rightarrow> bool" where
  "isPrismaSerializationFailure e \<longleftrightarrow>
     xe_code e = Some ''P2034''
     \<or> (xe_code e = Some ''P2010'' \<and> (xe_sqlstate e = Some ''40001'' \<or> xe_sqlstate e = Some ''40P01''))"

definition isPrismaConnectionFailure :: "provider_error \<Rightarrow> bool" where
  "isPrismaConnectionFailure e \<longleftrightarrow>
     (case xe_code e of
        Some c \<Rightarrow> c \<in> set [''P1000'', ''P1001'', ''P1002'', ''P1017'', ''P2024'', ''P2037'']
      | None \<Rightarrow> False)
     \<or> to_lower (xe_message e) \<in> set [''timeout exceeded when trying to connect'',
          ''connection terminated due to connection timeout'']"

definition transaction_patterns :: "pat list list" where
  "transaction_patterns =
     [[Lit ''transaction api error''], [Lit ''unable to start a transaction''],
      [Lit ''transaction already closed''], [Lit ''expired transaction'']]"

definition isRetryableIngestionTransactionError :: "provider_error \<Rightarrow> bool" where
  "isRetryableIngestionTransactionError e \<longleftrightarrow>
     isPrismaSerializationFailure e
     \<or> (xe_code e = Some ''P2028'' \<and> some_match transaction_patterns (xe_message e))"

definition classifyProviderFailure :: "provider_error \<Rightarrow> string" where
  "classifyProviderFailure e =
     (let m = xe_message e in
      if isPrismaConnectionFailure e \<or> isRetryableIngestionTransactionError e
         \<or> some_match (transaction_patterns
              @ [[Lit ''unique constraint failed'', AnyStar, Lit ''jobpipelineevent''],
                 [Lit ''provider control persistence failed'']]) m
      then ''internal_persistence''
      else if some_match [[Lit ''all configured api keys were rate-limited or rejected''], [Lit ''cooling'']] m
      then ''keys_exhausted''
      else if some_match [[Lit ''http'', Blanks, Lit ''429''], [Lit ''rate'', OptAny, Lit ''limit'']] m
      then ''rate_limited''
      else if some_match [[Lit ''http'', Blanks, AnyOf [''401'', ''403'']], [Lit ''invalid api key''],
          [Lit ''unauthorized''], [Lit ''forbidden'']] m
      then ''credentials''
      else if some_match [[Lit ''http'', Blanks, Lit ''404''],
          [Lit ''endpoint'', AnyStar, AnyOf [''unavailable'', ''not found'']]] m
      then ''endpoint_unavailable''
      else if some_match [[Lit ''schema''], [Lit ''not iterable''], [Lit ''unexpected token''],
          [Lit ''invalid response'']] m
      then ''response_schema''
      else if some_match [[Lit ''blocked by '', AnyStar, Lit ''budget''], [Lit ''daily_budget''],
          [Lit ''monthly_budget'']] m
      then ''budget_exhausted''
      else if some_match [[Lit ''blocked by '', AnyStar, Lit ''circuit_open''], [Lit ''circuit_open'']] m
      then ''circuit_blocked''
      else if some_match [[Lit ''timeout''], [Lit ''timed out''], [Lit ''abort'']] m
      then ''timeout''
      else ''provider_error'')"

section \<open>The failure circuit\<close>

definition providerFailurePolicy :: "string \<Rightarrow> nat \<Rightarrow> ms \<Rightarrow> string \<times> nat \<times> ms option" where
  "providerFailurePolicy classification priorFailures now =
     (let consecutiveFailures = priorFailures + 1;
          providerWide = (classification \<in> set [''keys_exhausted'', ''rate_limited'', ''budget_exhausted''])
      in if classification = ''rate_limited''
         then (''open'', consecutiveFailures,
           Some (now + min (2 * 60 * 60 * 1000) (15 * 60 * 1000 * 2 ^ (consecutiveFailures - 1))))
         else if providerWide
         then (''open'', consecutiveFailures, Some (now + 6 * 60 * 60 * 1000))
         else if consecutiveFailures < 3 then (''closed'', consecutiveFailures, None)
         else (''open'', consecutiveFailures,
           Some (now + min (2 * 60 * 60 * 1000) (15 * 60 * 1000 * 2 ^ (consecutiveFailures - 3)))))"

definition mergeProviderFailureCircuitProtection ::
  "string option \<Rightarrow> ms option \<Rightarrow> string \<Rightarrow> ms option \<Rightarrow> ms \<Rightarrow> string \<times> ms option" where
  "mergeProviderFailureCircuitProtection previousState previousOpenUntil proposedState proposedOpenUntil now =
     (case previousOpenUntil of
        Some p \<Rightarrow>
          if previousState = Some ''open'' \<and> now < p
          then (''open'',
            case proposedOpenUntil of
              None \<Rightarrow> Some p
            | Some q \<Rightarrow> Some (if q < p then p else q))
          else (proposedState, proposedOpenUntil)
      | None \<Rightarrow> (proposedState, proposedOpenUntil))"

definition providerSuccessState :: "ms \<Rightarrow> circuit \<Rightarrow> circuit" where
  "providerSuccessState now c = c\<lparr>pc_state := ''closed'', pc_openUntil := None,
     pc_consecutiveFailures := 0, pc_lastError := None, pc_lastSuccessAt := Some now\<rparr>"

definition providerSuccessMayApply :: "ms option \<Rightarrow> ms \<Rightarrow> bool" where
  "providerSuccessMayApply lastFailureAt successAt =
     (case lastFailureAt of None \<Rightarrow> True | Some t \<Rightarrow> t < successAt)"

record failure_report =
  fr_provider :: string
  fr_error :: provider_error
  fr_taskKey :: "string option"
  fr_queryFamily :: "string option"
  fr_geoLane :: "string option"
  fr_openForMs :: "ms option"

definition affected_task :: "failure_report \<Rightarrow> string" where
  "affected_task r = str_or (fr_taskKey r)
     (str_or (fr_queryFamily r) ''all'' @ '':'' @ str_or (fr_geoLane r) ''all'')"

definition failed_circuit :: "failure_report \<Rightarrow> string \<Rightarrow> ms \<Rightarrow> circuit option \<Rightarrow> circuit" where
  "failed_circuit r classification now previous =
     (let prior = (case previous of None \<Rightarrow> 0 | Some c \<Rightarrow> pc_consecutiveFailures c);
          (state, failures, until) = providerFailurePolicy classification prior now;
          proposed = (case fr_openForMs r of
              Some d \<Rightarrow> if d \<noteq> 0 then Some (now + d) else until
            | None \<Rightarrow> until);
          (state', until') = mergeProviderFailureCircuitProtection (map_option pc_state previous)
            (Option.bind previous pc_openUntil) state proposed now
      in (case previous of None \<Rightarrow> new_circuit | Some c \<Rightarrow> c)
           \<lparr>pc_state := state', pc_openUntil := until', pc_consecutiveFailures := failures,
            pc_lastError := Some (take 500 (xe_message (fr_error r))), pc_lastFailureAt := Some now\<rparr>)"

definition failure_committed ::
  "failure_report \<Rightarrow> string \<Rightarrow> ms \<Rightarrow> string \<Rightarrow> string \<Rightarrow> provider_db \<Rightarrow> provider_db" where
  "failure_committed r classification now message key db =
     (let circuit = failed_circuit r classification now (db_circuits db (fr_provider r));
          inc = (case db_incidents db key of
              Some i \<Rightarrow> i\<lparr>pn_status := ''open'', pn_message := message,
                pn_occurrenceCount := pn_occurrenceCount i + 1, pn_lastSeenAt := now, pn_resolvedAt := None\<rparr>
            | None \<Rightarrow> \<lparr>pn_provider = fr_provider r, pn_classification = classification, pn_status = ''open'',
                pn_message = message, pn_affectedQueryCount = 1, pn_occurrenceCount = 1,
                pn_firstSeenAt = now, pn_lastSeenAt = now, pn_resolvedAt = None\<rparr>);
          entry = (key, affected_task r);
          affected = (if entry \<in> set (db_affected db) then db_affected db else db_affected db @ [entry])
      in \<lparr>db_circuits = (db_circuits db)(fr_provider r \<mapsto> circuit),
          db_incidents = (db_incidents db)(key \<mapsto>
            inc\<lparr>pn_affectedQueryCount := length (filter (\<lambda>x. fst x = key) affected)\<rparr>),
          db_affected = affected\<rparr>)"

definition recordProviderFailure ::
  "(string list \<Rightarrow> string) \<Rightarrow> ms \<Rightarrow> failure_report \<Rightarrow> provider_db \<Rightarrow> provider_db \<times> string option" where
  "recordProviderFailure stable_hash now r db =
     (let classification = classifyProviderFailure (fr_error r) in
      if classification = ''circuit_blocked'' \<or> classification = ''internal_persistence'' then (db, None)
      else
        let message = take 500 (xe_message (fr_error r));
            key = ''incident:v1:'' @ stable_hash [fr_provider r, classification, day_key now];
            late = (case Option.bind (db_circuits db (fr_provider r)) pc_lastFailureAt of
                Some t \<Rightarrow> now < t
              | None \<Rightarrow> False)
        in if late then (db, None)
           else (failure_committed r classification now message key db, Some key))"

text \<open>An ATS circuit that is open until later keeps its protection, whatever succeeds.\<close>

definition ats_protected :: "string \<Rightarrow> circuit option \<Rightarrow> ms \<Rightarrow> bool" where
  "ats_protected provider current now =
     (case current of
        None \<Rightarrow> False
      | Some c \<Rightarrow> starts_with provider ''ATS-'' \<and> pc_state c = ''open''
          \<and> (case pc_openUntil c of None \<Rightarrow> False | Some u \<Rightarrow> now < u))"

definition recordProviderSuccess :: "string \<Rightarrow> ms \<Rightarrow> provider_db \<Rightarrow> provider_db" where
  "recordProviderSuccess provider now db =
     (let current = db_circuits db provider in
      if \<not> providerSuccessMayApply (Option.bind current pc_lastFailureAt) now then db
      else if ats_protected provider current now
      then db\<lparr>db_circuits := (db_circuits db)(provider \<mapsto> (the current)\<lparr>pc_lastSuccessAt := Some now\<rparr>)\<rparr>
      else db\<lparr>db_circuits := (db_circuits db)(provider \<mapsto> providerSuccessState now
                (case current of None \<Rightarrow> new_circuit | Some c \<Rightarrow> c)),
              db_incidents := (\<lambda>k. map_option (\<lambda>i.
                 if pn_provider i = provider \<and> pn_status i = ''open'' \<and> pn_lastSeenAt i \<le> now
                 then i\<lparr>pn_status := ''resolved'', pn_resolvedAt := Some now, pn_lastSeenAt := now\<rparr> else i)
                (db_incidents db k))\<rparr>)"

section \<open>Availability and reservation\<close>

definition effectiveProviderCircuitState :: "circuit \<Rightarrow> string" where
  "effectiveProviderCircuitState c =
     (if pc_state c = ''open'' \<and> truthy (pc_lastError c)
         \<and> classifyProviderFailure \<lparr>xe_message = the (pc_lastError c), xe_code = None, xe_sqlstate = None\<rparr>
           = ''internal_persistence''
      then ''closed'' else pc_state c)"

definition query_of :: "string \<Rightarrow> string \<Rightarrow> circuit \<Rightarrow> request_kind option \<Rightarrow> budget_query" where
  "query_of provider state c kind =
     \<lparr>bq_provider = provider, bq_state = state, bq_openUntil = pc_openUntil c,
      bq_dailyLimit = pc_dailyLimit c, bq_monthlyLimit = pc_monthlyLimit c,
      bq_dailyUsed = pc_dailyUsed c, bq_monthlyUsed = pc_monthlyUsed c, bq_kind = kind\<rparr>"

definition retry_or_zero :: "budget_decision \<Rightarrow> int" where
  "retry_or_zero d = (case bd_retryAt d of None \<Rightarrow> 0 | Some t \<Rightarrow> t)"

definition providerTaskAvailability ::
  "string \<Rightarrow> circuit option \<Rightarrow> circuit option \<Rightarrow> ms \<Rightarrow> budget_decision option" where
  "providerTaskAvailability source sourceCircuit budgetCircuit now =
     (let budgetProvider = providerBudgetAuthority source;
          kind = Some (providerRequestKind source);
          own = (case sourceCircuit of
              None \<Rightarrow> []
            | Some c \<Rightarrow>
                (let q = query_of source (effectiveProviderCircuitState c) c kind;
                     q' = (if budgetProvider \<noteq> source
                           then q\<lparr>bq_dailyLimit := None, bq_monthlyLimit := None\<rparr> else q)
                 in [evaluateProviderAvailability q' (pc_budgetDay c) (pc_budgetMonth c) now]));
          shared = (case budgetCircuit of
              None \<Rightarrow> []
            | Some c \<Rightarrow> if budgetProvider \<noteq> source
                then [evaluateProviderAvailability (query_of budgetProvider (pc_state c) c kind)
                        (pc_budgetDay c) (pc_budgetMonth c) now]
                else []);
          constraints = filter (\<lambda>d. \<not> bd_allowed d) (own @ shared)
      in case js_sort (desc_cmp (key_cmp retry_or_zero num_cmp)) constraints of
           [] \<Rightarrow> None
         | d # _ \<Rightarrow> Some d)"

definition providerRequestNeedsCounterReservation :: "reservation_input \<Rightarrow> bool" where
  "providerRequestNeedsCounterReservation i \<longleftrightarrow> ri_dailyLimit i \<noteq> None \<or> ri_monthlyLimit i \<noteq> None"

definition granted_nothing :: budget_decision where
  "granted_nothing = \<lparr>bd_allowed = True, bd_dailyUsed = 0, bd_monthlyUsed = 0, bd_reason = None,
     bd_retryAt = None\<rparr>"

text \<open>The row of the provider with the configured limits, and its windows rolled to the present.\<close>

definition or_else_limit :: "int option \<Rightarrow> int option \<Rightarrow> int option" where
  "or_else_limit a b = (case a of None \<Rightarrow> b | Some n \<Rightarrow> Some n)"

definition reserved_row :: "reservation_input \<Rightarrow> ms \<Rightarrow> circuit option \<Rightarrow> circuit" where
  "reserved_row i now row =
     (case row of
        None \<Rightarrow> new_circuit\<lparr>pc_dailyLimit := ri_dailyLimit i, pc_monthlyLimit := ri_monthlyLimit i,
                  pc_budgetDay := Some (day_key now), pc_budgetMonth := Some (month_key now)\<rparr>
      | Some c \<Rightarrow> c\<lparr>pc_dailyLimit := or_else_limit (ri_dailyLimit i) (pc_dailyLimit c),
                  pc_monthlyLimit := or_else_limit (ri_monthlyLimit i) (pc_monthlyLimit c)\<rparr>)"

definition rolled_row :: "ms \<Rightarrow> circuit \<Rightarrow> circuit" where
  "rolled_row now c =
     (if pc_budgetDay c \<noteq> Some (day_key now) \<or> pc_budgetMonth c \<noteq> Some (month_key now)
      then c\<lparr>pc_dailyUsed := (if pc_budgetDay c = Some (day_key now) then pc_dailyUsed c else 0),
             pc_monthlyUsed := (if pc_budgetMonth c = Some (month_key now) then pc_monthlyUsed c else 0),
             pc_budgetDay := Some (day_key now), pc_budgetMonth := Some (month_key now)\<rparr>
      else c)"

definition reserveProviderRequest ::
  "reservation_input \<Rightarrow> request_kind option \<Rightarrow> ms \<Rightarrow> provider_db \<Rightarrow> provider_db \<times> budget_decision" where
  "reserveProviderRequest i kind now db =
     (let p = ri_provider i in
      if \<not> providerRequestNeedsCounterReservation i
      then (case db_circuits db p of
          None \<Rightarrow> (db, granted_nothing)
        | Some c \<Rightarrow>
            let q = (query_of p (effectiveProviderCircuitState c) c kind)\<lparr>bq_dailyLimit := None, bq_monthlyLimit := None\<rparr>;
                availability = evaluateProviderAvailability q (pc_budgetDay c) (pc_budgetMonth c) now
            in (db, if bd_allowed availability
                    then granted_nothing\<lparr>bd_dailyUsed := pc_dailyUsed c, bd_monthlyUsed := pc_monthlyUsed c\<rparr>
                    else availability))
      else
        let c = rolled_row now (reserved_row i now (db_circuits db p));
            decision = evaluateProviderBudget (query_of p (pc_state c) c kind) now
        in if \<not> bd_allowed decision then (db\<lparr>db_circuits := (db_circuits db)(p \<mapsto> c)\<rparr>, decision)
           else (db\<lparr>db_circuits := (db_circuits db)(p \<mapsto> c\<lparr>pc_dailyUsed := pc_dailyUsed c + 1,
                   pc_monthlyUsed := pc_monthlyUsed c + 1\<rparr>)\<rparr>, decision))"

definition reserveProviderBudgetForSource ::
  "string \<Rightarrow> int option \<times> int option \<Rightarrow> (string \<rightharpoonup> string) \<Rightarrow> ms \<Rightarrow> provider_db \<Rightarrow> provider_db \<times> budget_decision" where
  "reserveProviderBudgetForSource source defaults environment now db =
     reserveProviderRequest (providerBudgetReservationInput source defaults environment)
       (Some (providerRequestKind source)) now db"

section \<open>Transactions that are retried\<close>

text \<open>The attempts of \<open>withProviderTransactionRetry\<close>: the outcome of each attempt, and the delays
  slept between them (\<open>jitter k\<close> is the random part after attempt \<open>k\<close>).\<close>

definition retry_delay :: "(nat \<Rightarrow> int) \<Rightarrow> int \<Rightarrow> nat \<Rightarrow> int" where
  "retry_delay jitter baseDelayMs attempt = baseDelayMs * 2 ^ (attempt - 1) + jitter attempt"

fun retry_from ::
  "(nat \<Rightarrow> provider_error + 'a) \<Rightarrow> (nat \<Rightarrow> int) \<Rightarrow> int \<Rightarrow> nat \<Rightarrow> nat \<Rightarrow> (provider_error + 'a) \<times> int list" where
  "retry_from act jitter base attempt 0 = (act attempt, [])"
| "retry_from act jitter base attempt (Suc left) =
     (case act attempt of
        Inr x \<Rightarrow> (Inr x, [])
      | Inl e \<Rightarrow>
          if \<not> isRetryableIngestionTransactionError e then (Inl e, [])
          else let (r, sleeps) = retry_from act jitter base (attempt + 1) left
               in (r, retry_delay jitter base attempt # sleeps))"

definition withProviderTransactionRetry ::
  "(nat \<Rightarrow> provider_error + 'a) \<Rightarrow> (nat \<Rightarrow> int) \<Rightarrow> int \<Rightarrow> nat \<Rightarrow> (provider_error + 'a) \<times> int list" where
  "withProviderTransactionRetry act jitter baseDelayMs maxAttempts =
     retry_from act jitter baseDelayMs 1 (maxAttempts - 1)"

section \<open>The request lease\<close>

definition PROVIDER_REQUEST_LEASE_MS :: ms where
  "PROVIDER_REQUEST_LEASE_MS = 3 * 60000"

definition lease_free :: "ms \<Rightarrow> circuit \<Rightarrow> tv" where
  "lease_free now c =
     tv_any [sql_is_null (pc_requestLeaseToken c), sql_is_null (pc_requestLeaseExpiresAt c),
       sql_cmp (\<lambda>u. u \<le> now) (pc_requestLeaseExpiresAt c)]"

definition bounded_lease_ms :: "int option \<Rightarrow> ms" where
  "bounded_lease_ms leaseMs = max 10000 (min (10 * 60000)
     (case leaseMs of None \<Rightarrow> PROVIDER_REQUEST_LEASE_MS
      | Some n \<Rightarrow> if n = 0 then PROVIDER_REQUEST_LEASE_MS else n))"

definition bounded_poll_ms :: "int option \<Rightarrow> ms" where
  "bounded_poll_ms pollMs = max 25 (min 5000
     (case pollMs of None \<Rightarrow> 250 | Some n \<Rightarrow> if n = 0 then 250 else n))"

definition claim_request_lease :: "ms \<Rightarrow> ms \<Rightarrow> string \<Rightarrow> string \<Rightarrow> circuit \<Rightarrow> circuit \<times> bool" where
  "claim_request_lease now leaseMs token owner c =
     (if selected (lease_free now c)
      then (c\<lparr>pc_requestLeaseToken := Some token, pc_requestLeaseOwner := Some owner,
              pc_requestLeaseExpiresAt := Some (now + leaseMs)\<rparr>, True)
      else (c, False))"

definition release_request_lease :: "string \<Rightarrow> circuit \<Rightarrow> circuit" where
  "release_request_lease token c =
     (if pc_requestLeaseToken c = Some token
      then c\<lparr>pc_requestLeaseToken := None, pc_requestLeaseOwner := None,
             pc_requestLeaseExpiresAt := None\<rparr>
      else c)"

text \<open>How long an unsuccessful claim waits: at most one poll, and at least a millisecond.\<close>

definition lease_wait_ms :: "ms \<Rightarrow> ms \<Rightarrow> ms option \<Rightarrow> ms" where
  "lease_wait_ms pollMs now heldUntil =
     min pollMs (max 1 (case heldUntil of None \<Rightarrow> pollMs | Some u \<Rightarrow> u - now))"

section \<open>Schedules of tasks\<close>

datatype completion_status = Succeeded | Partial | Failed | BlockedBudget | BlockedCircuit | Disabled

datatype source_status = SrcSuccess | SrcPartial | SrcFailed | SrcIdle

definition DEFAULT_TASK_RETRY_DELAY_MS :: ms where
  "DEFAULT_TASK_RETRY_DELAY_MS = 30 * 60 * 1000"

definition DEFAULT_PROVIDER_JITTER_MAX_MS :: ms where
  "DEFAULT_PROVIDER_JITTER_MAX_MS = 30 * 60 * 1000"

definition providerAvailabilityLookupSource :: "string \<Rightarrow> completion_status \<Rightarrow> string" where
  "providerAvailabilityLookupSource source status =
     (if status = BlockedBudget then providerBudgetAuthority source else source)"

definition classifyIngestionTaskCompletion ::
  "source_status list \<Rightarrow> string option list \<Rightarrow> bool \<Rightarrow> completion_status" where
  "classifyIngestionTaskCompletion sourceStatuses lastErrors circuitOpen =
     (if sourceStatuses = [] then (if circuitOpen then BlockedCircuit else Disabled)
      else if list_ex (\<lambda>e. some_match [[Lit ''blocked by '', AnyStar, Lit ''budget'']] (str_or e [])) lastErrors
      then BlockedBudget
      else if SrcFailed \<in> set sourceStatuses
      then (if SrcSuccess \<in> set sourceStatuses \<or> SrcPartial \<in> set sourceStatuses then Partial else Failed)
      else if SrcPartial \<in> set sourceStatuses then Partial
      else Succeeded)"

text \<open>\<open>hash12\<close> is the number the first twelve hexadecimal digits of the digest stand for.\<close>

definition deterministicTaskJitterMs :: "(string \<Rightarrow> nat) \<Rightarrow> string \<Rightarrow> ms \<Rightarrow> ms" where
  "deterministicTaskJitterMs hash12 taskKey maximumMs =
     (if maximumMs \<le> 0 then 0 else int (hash12 taskKey) mod (maximumMs + 1))"

record completion_input =
  ci_taskKey :: string
  ci_status :: completion_status
  ci_finishedAt :: ms
  ci_cadenceMs :: ms
  ci_retryDelayMs :: "ms option"
  ci_providerRetryAt :: "ms option"
  ci_continuationDelayMs :: "ms option"
  ci_jitterMaxMs :: "ms option"

definition retry_delay_of :: "completion_input \<Rightarrow> ms" where
  "retry_delay_of i = (case ci_retryDelayMs i of
     None \<Rightarrow> DEFAULT_TASK_RETRY_DELAY_MS
   | Some d \<Rightarrow> if d = 0 then DEFAULT_TASK_RETRY_DELAY_MS else d)"

definition completionBasedNextRunAt :: "(string \<Rightarrow> nat) \<Rightarrow> completion_input \<Rightarrow> ms" where
  "completionBasedNextRunAt hash12 i =
     (if ci_continuationDelayMs i \<noteq> None \<and> ci_status i \<in> {Succeeded, Disabled, Partial}
      then ci_finishedAt i + max 0 (the (ci_continuationDelayMs i))
      else if ci_status i \<in> {Succeeded, Disabled} then ci_finishedAt i + max 0 (ci_cadenceMs i)
      else if ci_status i \<in> {BlockedBudget, BlockedCircuit}
      then (let constraint = (case ci_providerRetryAt i of
              Some t \<Rightarrow> if ci_finishedAt i < t then t else ci_finishedAt i + retry_delay_of i
            | None \<Rightarrow> ci_finishedAt i + retry_delay_of i)
        in constraint + deterministicTaskJitterMs hash12 (ci_taskKey i)
             (case ci_jitterMaxMs i of None \<Rightarrow> DEFAULT_PROVIDER_JITTER_MAX_MS | Some m \<Rightarrow> m))
      else ci_finishedAt i + retry_delay_of i)"

definition atsRequestSpacingMs :: "string \<Rightarrow> ms" where
  "atsRequestSpacingMs platform =
     (if platform \<in> set [''symphony'', ''manatal'', ''workable'', ''eightfold'', ''hirehive'',
           ''recruitee'', ''kula''] then 1000 else 0)"

definition atsRequestPacingDelay :: "ms option \<Rightarrow> ms \<Rightarrow> ms \<Rightarrow> ms" where
  "atsRequestPacingDelay lastStartedAt spacingMs now =
     (case lastStartedAt of None \<Rightarrow> 0 | Some t \<Rightarrow> max 0 (t + spacingMs - now))"

section \<open>Lemmas on decisions\<close>

lemma allowed_iff: "bd_allowed (evaluateProviderBudget q now) \<longleftrightarrow> budget_constraints q now = []"
proof (cases "js_sort (desc_cmp (key_cmp snd num_cmp)) (budget_constraints q now)")
  case Nil
  then show ?thesis by (simp add: evaluateProviderBudget_def)
next
  case (Cons x xs)
  then have "budget_constraints q now \<noteq> []" by (metis js_sort_Nil list.discI)
  with Cons show ?thesis by (cases x) (simp add: evaluateProviderBudget_def)
qed

lemma denied_binding:
  assumes "\<not> bd_allowed (evaluateProviderBudget q now)"
  obtains reason t where "(reason, t) \<in> set (budget_constraints q now)"
    and "bd_reason (evaluateProviderBudget q now) = Some reason"
    and "bd_retryAt (evaluateProviderBudget q now) = Some t"
    and "\<And>r u. (r, u) \<in> set (budget_constraints q now) \<Longrightarrow> u \<le> t"
proof -
  let ?cmp = "desc_cmp (key_cmp snd num_cmp) :: (block_reason \<times> ms) cmp"
  have cmp: "comparator ?cmp"
    by (intro comparator_desc comparator_key comparator_num)
  obtain reason t rest where s: "js_sort ?cmp (budget_constraints q now) = (reason, t) # rest"
    using assms by (cases "js_sort ?cmp (budget_constraints q now)")
      (auto simp: evaluateProviderBudget_def)
  have "u \<le> t" if "(r, u) \<in> set (budget_constraints q now)" for r u
    using comparator.js_sort_hd_least [OF cmp s that]
    by (simp add: desc_cmp_def key_cmp_def num_cmp_def)
  with s show thesis
    using that [of reason t] js_sort_eq_Cons_in [OF s] by (simp add: evaluateProviderBudget_def)
qed

lemma ceil_div_bounds:
  assumes "0 < b"
  shows "a \<le> b * ceil_div a b" and "b * (ceil_div a b - 1) < a"
proof -
  define q where "q = (- a) div b"
  have e: "- a = b * q + (- a) mod b" by (simp add: q_def)
  have m: "0 \<le> (- a) mod b" "(- a) mod b < b" using assms by simp_all
  have c: "b * ceil_div a b = - (b * q)" "b * (ceil_div a b - 1) = - (b * q) - b"
    by (simp_all add: ceil_div_def q_def algebra_simps)
  show "a \<le> b * ceil_div a b" using e m unfolding c by linarith
  show "b * (ceil_div a b - 1) < a" using e m unfolding c by linarith
qed

lemma at_utc_hour_day:
  assumes "0 \<le> h" and "h \<le> 23"
  shows "day_of (at_utc_hour now h) = day_of now" and "utc_hour (at_utc_hour now h) = h"
proof -
  have "0 \<le> h * hour_ms" "h * hour_ms < day_ms" using assms by (simp_all add: hour_ms_def day_ms_def)
  then show "day_of (at_utc_hour now h) = day_of now"
    by (simp add: at_utc_hour_def day_of_def day_ms_def)
  have "at_utc_hour now h mod day_ms = h * hour_ms"
    using \<open>0 \<le> h * hour_ms\<close> \<open>h * hour_ms < day_ms\<close> by (simp add: at_utc_hour_def day_ms_def)
  then show "utc_hour (at_utc_hour now h) = h" by (simp add: utc_hour_def hour_ms_def)
qed

lemma hour_mono: "day_of s = day_of t \<Longrightarrow> s \<le> t \<Longrightarrow> utc_hour s \<le> utc_hour t"
proof -
  assume "day_of s = day_of t" "s \<le> t"
  then have "s mod day_ms \<le> t mod day_ms"
    using div_mult_mod_eq [of s day_ms] div_mult_mod_eq [of t day_ms] unfolding day_of_def
    by (metis add_le_cancel_left)
  then show ?thesis by (simp add: utc_hour_def hour_ms_def zdiv_mono1)
qed

lemma hour_before: "day_of t = day_of now \<Longrightarrow> t < at_utc_hour now h \<Longrightarrow> utc_hour t < h"
proof -
  assume a: "day_of t = day_of now" "t < at_utc_hour now h"
  then have "utc_hour t * hour_ms < h * hour_ms"
    using hour_start [of t] by (simp add: at_utc_hour_def)
  then show ?thesis by (simp add: hour_ms_def)
qed

lemma released_mono: "0 \<le> limit \<Longrightarrow> day_of s = day_of t \<Longrightarrow> s \<le> t \<Longrightarrow> released_by limit s \<le> released_by limit t"
  using hour_mono [of s t] by (simp add: released_by_def zdiv_mono1 mult_left_mono)

text \<open>The hour a paced request is sent back to is the first of the day whose release covers it.\<close>

lemma paced_hour:
  assumes "0 < limit" and "used < limit" and "released_by limit now \<le> used"
  defines "nh \<equiv> ceil_div ((used + 1) * 24) limit - 1"
  shows "utc_hour now < nh" and "nh \<le> 23" and "used + 1 \<le> limit * (nh + 1) div 24"
    and "limit * nh div 24 \<le> used"
proof -
  have b: "(used + 1) * 24 \<le> limit * (nh + 1)" "limit * nh < (used + 1) * 24"
    using ceil_div_bounds [OF assms(1), of "(used + 1) * 24"] by (simp_all add: nh_def)
  have "limit * (utc_hour now + 1) < 24 * (used + 1)"
    using assms(3) by (simp add: released_by_def)
  then have "limit * (utc_hour now + 1) < limit * (nh + 1)" using b(1) by linarith
  then show "utc_hour now < nh" using assms(1) by simp
  have "(used + 1) * 24 \<le> limit * 24" using assms(2) by simp
  then have "limit * nh < limit * 24" using b(2) by linarith
  then show "nh \<le> 23" using assms(1) by simp
  have "x * 24 \<le> y \<Longrightarrow> x \<le> y div 24" "y < (used + 1) * 24 \<Longrightarrow> y div 24 \<le> used" for x y :: int
    by presburger+
  then show "used + 1 \<le> limit * (nh + 1) div 24" "limit * nh div 24 \<le> used"
    using b by blast+
qed

lemma pacing_after_now:
  assumes "(r, t) \<in> set (pacing_constraint q now)"
  shows "now < t"
proof -
  obtain limit where limit: "bq_dailyLimit q = Some limit" "0 < limit" "bq_dailyUsed q < limit"
    using assms by (auto simp: pacing_constraint_def reached_def split: option.splits if_splits)
  have next_hour: "utc_hour now < h \<Longrightarrow> now < at_utc_hour now h" for h
  proof -
    assume "utc_hour now < h"
    then have "(utc_hour now + 1) * hour_ms \<le> h * hour_ms" by (simp add: hour_ms_def)
    then show ?thesis using hour_end [of now] by (simp add: at_utc_hour_def)
  qed
  show ?thesis
  proof (cases "released_by limit now \<le> bq_dailyUsed q")
    case True
    then have "t = at_utc_hour now (ceil_div ((bq_dailyUsed q + 1) * 24) limit - 1)"
      using assms limit by (auto simp: pacing_constraint_def split: if_splits)
    then show ?thesis using next_hour paced_hour(1) [OF limit(2,3) True] by simp
  next
    case False
    then have "t = at_utc_hour now (utc_hour now + 1)"
      using assms limit by (auto simp: pacing_constraint_def Let_def split: if_splits)
    then show ?thesis using next_hour by simp
  qed
qed

lemma constraint_after_now:
  assumes "(r, t) \<in> set (budget_constraints q now)"
  shows "now < t"
  using assms daily_reset_after(1) [of now] monthly_reset_after [of now] pacing_after_now [of r t q now]
  by (auto simp: budget_constraints_def split: option.splits if_splits)

section \<open>Lemmas on reservations\<close>

lemma rolled_fields [simp]:
  "pc_dailyLimit (rolled_row now c) = pc_dailyLimit c"
  "pc_monthlyLimit (rolled_row now c) = pc_monthlyLimit c"
  "pc_state (rolled_row now c) = pc_state c" "pc_openUntil (rolled_row now c) = pc_openUntil c"
  "pc_budgetDay (rolled_row now c) = Some (day_key now)"
  "pc_budgetMonth (rolled_row now c) = Some (month_key now)"
  by (auto simp: rolled_row_def)

lemma granted_limits:
  assumes "bd_allowed (evaluateProviderBudget q now)"
  shows "bq_dailyLimit q = Some l \<Longrightarrow> bq_dailyUsed q < l"
    and "bq_monthlyLimit q = Some m \<Longrightarrow> bq_monthlyUsed q < m"
    and "bq_dailyLimit q = Some l \<Longrightarrow> bq_provider q \<in> set PACED_PROVIDERS \<Longrightarrow> 0 \<le> bq_dailyUsed q
      \<Longrightarrow> bq_dailyUsed q < released_by l now"
  using assms unfolding allowed_iff
  by (auto simp: budget_constraints_def pacing_constraint_def reached_def Let_def split: if_splits)

definition run_reservations ::
  "reservation_input \<Rightarrow> (ms \<times> request_kind option) list \<Rightarrow> provider_db \<Rightarrow> provider_db \<times> nat" where
  "run_reservations i reqs db = fold (\<lambda>(now, kind) (db, granted).
     let (db', d) = reserveProviderRequest i kind now db
     in (db', if bd_allowed d then granted + 1 else granted)) reqs (db, 0)"

text \<open>What the ledger of a provider says was used on a day.\<close>

definition used_on :: "string \<Rightarrow> circuit option \<Rightarrow> int" where
  "used_on day row = (case row of None \<Rightarrow> 0
     | Some c \<Rightarrow> if pc_budgetDay c = Some day then pc_dailyUsed c else 0)"

lemma rolled_used:
  "pc_dailyUsed (rolled_row now (reserved_row i now row)) = used_on (day_key now) row"
  by (auto simp: rolled_row_def reserved_row_def used_on_def new_circuit_def split: option.split)

lemma reserved_limit:
  "ri_dailyLimit i = Some l \<Longrightarrow> pc_dailyLimit (reserved_row i now row) = Some l"
  by (auto simp: reserved_row_def or_else_limit_def split: option.split)

lemma reserve_step:
  assumes "ri_dailyLimit i = Some l"
    and "reserveProviderRequest i kind now db = (db', d)"
  defines "u \<equiv> used_on (day_key now) (db_circuits db (ri_provider i))"
  shows "used_on (day_key now) (db_circuits db' (ri_provider i)) = (if bd_allowed d then u + 1 else u)"
    and "bd_allowed d \<Longrightarrow> u < l"
    and "bd_allowed d \<Longrightarrow> ri_provider i \<in> set PACED_PROVIDERS \<Longrightarrow> 0 \<le> u \<Longrightarrow> u < released_by l now"
proof -
  let ?c = "rolled_row now (reserved_row i now (db_circuits db (ri_provider i)))"
  let ?q = "query_of (ri_provider i) (pc_state ?c) ?c kind"
  have r: "reserveProviderRequest i kind now db =
     (let decision = evaluateProviderBudget ?q now
      in if \<not> bd_allowed decision then (db\<lparr>db_circuits := (db_circuits db)(ri_provider i \<mapsto> ?c)\<rparr>, decision)
         else (db\<lparr>db_circuits := (db_circuits db)(ri_provider i \<mapsto> ?c\<lparr>pc_dailyUsed := pc_dailyUsed ?c + 1,
                 pc_monthlyUsed := pc_monthlyUsed ?c + 1\<rparr>)\<rparr>, decision))"
    using assms(1) by (simp add: reserveProviderRequest_def providerRequestNeedsCounterReservation_def Let_def)
  have d: "d = evaluateProviderBudget ?q now"
    using assms(2) unfolding r by (auto simp: Let_def split: if_splits)
  show "used_on (day_key now) (db_circuits db' (ri_provider i)) = (if bd_allowed d then u + 1 else u)"
    using assms(2) unfolding r d by (auto simp: Let_def used_on_def [of _ "Some _"] rolled_used u_def split: if_splits)
  have q: "bq_dailyLimit ?q = Some l" "bq_dailyUsed ?q = u" "bq_provider ?q = ri_provider i"
    using reserved_limit [OF assms(1)] by (simp_all add: query_of_def rolled_used u_def)
  show "bd_allowed d \<Longrightarrow> u < l"
    using granted_limits(1) [of ?q now l] q d by simp
  show "bd_allowed d \<Longrightarrow> ri_provider i \<in> set PACED_PROVIDERS \<Longrightarrow> 0 \<le> u \<Longrightarrow> u < released_by l now"
    using granted_limits(3) [of ?q now l] q d by simp
qed

lemma granted_run:
  assumes "ri_dailyLimit i = Some l" and "0 \<le> l"
    and "\<And>now kind. (now, kind) \<in> set reqs \<Longrightarrow> day_of now = day_of until \<and> now \<le> until"
    and "0 \<le> used_on (day_key until) (db_circuits db (ri_provider i))"
  shows "let g = snd (run_reservations i reqs db);
             u = used_on (day_key until) (db_circuits db (ri_provider i))
    in 0 < g \<longrightarrow> u + int g \<le> l
       \<and> (ri_provider i \<in> set PACED_PROVIDERS \<longrightarrow> u + int g \<le> released_by l until)"
proof -
  define f where "f = (\<lambda>(now, kind) (db, granted). let (db', d) = reserveProviderRequest i kind now db
     in (db', if bd_allowed d then granted + 1 else granted :: nat))"
  have count: "snd (fold f reqs (db, k)) = k + snd (fold f reqs (db, 0))" for reqs db k
  proof (induction reqs arbitrary: db k)
    case (Cons r reqs)
    obtain now kind where r: "r = (now, kind)" by (cases r)
    obtain db' d where s: "reserveProviderRequest i kind now db = (db', d)" by fastforce
    have fr: "f r (db, k) = (db', if bd_allowed d then k + 1 else k)" for k
      by (simp add: f_def r s)
    show ?case
      using Cons.IH [of db' "if bd_allowed d then k + 1 else k"]
        Cons.IH [of db' "if bd_allowed d then 1 else 0"] by (cases "bd_allowed d") (simp_all add: fr)
  qed simp
  have run: "run_reservations i reqs db = fold f reqs (db, 0)" for reqs db
    by (simp only: run_reservations_def f_def)
  show ?thesis
    using assms(3,4) unfolding run Let_def
  proof (induction reqs arbitrary: db)
    case (Cons r reqs)
    obtain now kind where r: "r = (now, kind)" by (cases r)
    obtain db' d where s: "reserveProviderRequest i kind now db = (db', d)" by fastforce
    have now: "day_of now = day_of until" "now \<le> until" using Cons.prems(1) r by auto
    then have key: "day_key now = day_key until" using same_day_keys by blast
    let ?u = "used_on (day_key until) (db_circuits db (ri_provider i))"
    let ?u' = "used_on (day_key until) (db_circuits db' (ri_provider i))"
    have u': "?u' = (if bd_allowed d then ?u + 1 else ?u)"
      using reserve_step(1) [OF assms(1) s] by (simp add: key)
    have lt: "bd_allowed d \<Longrightarrow> ?u < l"
      "bd_allowed d \<Longrightarrow> ri_provider i \<in> set PACED_PROVIDERS \<Longrightarrow> ?u < released_by l until"
      using reserve_step(2,3) [OF assms(1) s] Cons.prems(2) released_mono [OF assms(2) now]
      by (auto simp: key)
    have total: "snd (fold f (r # reqs) (db, 0))
        = (if bd_allowed d then 1 else 0) + snd (fold f reqs (db', 0))"
      using count [of reqs db' 1] by (simp add: f_def r s)
    have IH: "0 < snd (fold f reqs (db', 0)) \<longrightarrow> ?u' + int (snd (fold f reqs (db', 0))) \<le> l
        \<and> (ri_provider i \<in> set PACED_PROVIDERS \<longrightarrow>
             ?u' + int (snd (fold f reqs (db', 0))) \<le> released_by l until)"
    proof (rule Cons.IH)
      show "\<And>now kind. (now, kind) \<in> set reqs \<Longrightarrow> day_of now = day_of until \<and> now \<le> until"
        using Cons.prems(1) by (meson list.set_intros(2))
      show "0 \<le> ?u'" using u' Cons.prems(2) by simp
    qed
    show ?case
      unfolding total using IH u' lt
      by (cases "bd_allowed d"; cases "snd (fold f reqs (db', 0)) = 0") auto
  qed simp
qed

section \<open>Lemmas on the circuit\<close>

definition protected_until :: "ms \<Rightarrow> circuit option \<Rightarrow> bool" where
  "protected_until T row =
     (case row of
        None \<Rightarrow> False
      | Some c \<Rightarrow> pc_state c = ''open'' \<and> (case pc_openUntil c of None \<Rightarrow> False | Some u \<Rightarrow> T \<le> u))"

text \<open>The repair of the watchdog (\<open>ats_pipeline_watchdog.ts\<close>): it closes the open circuits of ATS providers
  whose last error is about one board, an unexpected document or a missing page.\<close>

definition board_evidence :: "circuit \<Rightarrow> bool" where
  "board_evidence c =
     (case pc_lastError c of
        None \<Rightarrow> False
      | Some e \<Rightarrow> str_includes (to_lower e) ''instead of'' \<or> str_includes (to_lower e) ''http 404'')"

definition reopenable :: "ms \<Rightarrow> string \<Rightarrow> circuit \<Rightarrow> bool" where
  "reopenable now provider c \<longleftrightarrow>
     (case pc_openUntil c of None \<Rightarrow> False | Some u \<Rightarrow> now < u) \<and> starts_with provider ''ATS-'' \<and> board_evidence c"

definition reopen_circuits :: "ms \<Rightarrow> provider_db \<Rightarrow> provider_db" where
  "reopen_circuits now db = db\<lparr>db_circuits := (\<lambda>provider. map_option
     (\<lambda>c. if reopenable now provider c
          then c\<lparr>pc_state := ''closed'', pc_openUntil := None, pc_consecutiveFailures := 0\<rparr> else c)
     (db_circuits db provider))\<rparr>"

text \<open>Claims and releases of the request lease of a row.\<close>

datatype lease_op = ClaimLease string string ms | ReleaseLease string

fun lease_actor :: "lease_op \<Rightarrow> string option" where
  "lease_actor (ClaimLease token owner leaseMs) = Some token"
| "lease_actor (ReleaseLease token) = Some token"

fun lease_step :: "ms \<Rightarrow> lease_op \<Rightarrow> circuit \<Rightarrow> circuit" where
  "lease_step now (ClaimLease token owner leaseMs) c = fst (claim_request_lease now leaseMs token owner c)"
| "lease_step now (ReleaseLease token) c = release_request_lease token c"

definition lease_row :: "ms \<Rightarrow> string \<Rightarrow> lease_op \<Rightarrow> provider_db \<Rightarrow> provider_db" where
  "lease_row now key op db =
     db\<lparr>db_circuits := (db_circuits db)(key := map_option (lease_step now op) (db_circuits db key))\<rparr>"

text \<open>The start of a paced request, noted on the pacing row of the provider.\<close>

definition dispatch_row :: "ms \<Rightarrow> string \<Rightarrow> provider_db \<Rightarrow> provider_db" where
  "dispatch_row now key db =
     db\<lparr>db_circuits := (db_circuits db)(key := map_option (\<lambda>c. c\<lparr>pc_lastSuccessAt := Some now\<rparr>) (db_circuits db key))\<rparr>"

text \<open>Every writer of the table of circuits.\<close>

datatype provider_op =
    OpFailure failure_report
  | OpSuccess string
  | OpReserve reservation_input "request_kind option"
  | OpLease string lease_op
  | OpDispatch string
  | OpRepair

fun provider_step :: "(string list \<Rightarrow> string) \<Rightarrow> ms \<Rightarrow> provider_op \<Rightarrow> provider_db \<Rightarrow> provider_db" where
  "provider_step h now (OpFailure r) db = fst (recordProviderFailure h now r db)"
| "provider_step h now (OpSuccess p) db = recordProviderSuccess p now db"
| "provider_step h now (OpReserve i kind) db = fst (reserveProviderRequest i kind now db)"
| "provider_step h now (OpLease key op) db = lease_row now key op db"
| "provider_step h now (OpDispatch key) db = dispatch_row now key db"
| "provider_step h now OpRepair db = reopen_circuits now db"

definition provider_run :: "(string list \<Rightarrow> string) \<Rightarrow> (ms \<times> provider_op) list \<Rightarrow> provider_db \<Rightarrow> provider_db" where
  "provider_run h = fold (\<lambda>(now, op). provider_step h now op)"

lemma lease_step_circuit: "pc_state (lease_step now op c) = pc_state c" "pc_openUntil (lease_step now op c) = pc_openUntil c"
  by (cases op; simp add: claim_request_lease_def release_request_lease_def)+

lemma protected_failed:
  assumes "protected_until T row" and "now < T"
  shows "protected_until T (Some (failed_circuit r classification now row))"
proof -
  obtain c u where c: "row = Some c" "pc_state c = ''open''" "pc_openUntil c = Some u" "T \<le> u"
    using assms(1) by (auto simp: protected_until_def split: option.splits)
  with assms(2) show ?thesis
    by (auto simp: protected_until_def failed_circuit_def Let_def
        mergeProviderFailureCircuitProtection_def split: prod.split option.split)
qed

lemma protected_step:
  assumes "protected_until T (db_circuits db p)" and "now < T" and "starts_with p ''ATS-''"
  shows "protected_until T (db_circuits (provider_step h now op db) p)
    \<or> op = OpRepair \<and> (\<exists>c. db_circuits db p = Some c \<and> reopenable now p c)"
proof (cases op)
  case (OpFailure r)
  then show ?thesis
    using assms(1) protected_failed [OF _ assms(2)]
    by (auto simp: recordProviderFailure_def failure_committed_def Let_def)
next
  case (OpSuccess q)
  have "ats_protected p (db_circuits db p) now"
    using assms by (auto simp: ats_protected_def protected_until_def split: option.splits)
  with OpSuccess assms(1) show ?thesis
    by (auto simp: recordProviderSuccess_def Let_def protected_until_def split: option.splits)
next
  case (OpReserve i kind)
  then show ?thesis
    using assms(1)
    by (auto simp: reserveProviderRequest_def Let_def protected_until_def reserved_row_def
        split: option.splits)
next
  case (OpLease key op)
  with assms(1) show ?thesis
    by (auto simp: lease_row_def protected_until_def lease_step_circuit split: option.splits)
next
  case (OpDispatch key)
  with assms(1) show ?thesis by (auto simp: dispatch_row_def protected_until_def split: option.splits)
next
  case OpRepair
  with assms(1) show ?thesis by (auto simp: reopen_circuits_def protected_until_def split: option.splits)
qed

text \<open>The stored text of a failure is classified like a part of the original, so it is never read as
  a storage failure of our own.\<close>

lemma match_here_append: "match_here ps s \<Longrightarrow> match_here ps (s @ t)"
proof (induction ps s rule: match_here.induct)
  case (2 l ps s)
  then show ?case by (auto simp: prefix_def)
next
  case (3 ps s)
  then show ?case by (cases s) auto
next
  case (4 ps s)
  then show ?case by (cases s) auto
next
  case (5 ps s)
  then show ?case by (cases s) auto
next
  case (6 ls ps s)
  then show ?case by (fastforce simp: prefix_def)
qed simp

lemma search_take:
  assumes "search ps (to_lower (take n s))"
  shows "search ps (to_lower s)"
proof -
  obtain t where t: "suffix t (to_lower (take n s))" "match_here ps t"
    using assms unfolding search_suffixes by blast
  have "to_lower s = to_lower (take n s) @ to_lower (drop n s)"
    unfolding to_lower_def map_append [symmetric] append_take_drop_id ..
  then have "suffix (t @ to_lower (drop n s)) (to_lower s)"
    using t(1) by (metis append_assoc suffix_def)
  then show ?thesis
    unfolding search_suffixes using match_here_append [OF t(2)] by blast
qed

lemma some_match_take: "some_match alts (take n s) \<Longrightarrow> some_match alts s"
  unfolding some_match_def list_ex_iff using search_take by blast

lemma recorded_not_internal:
  assumes "classifyProviderFailure e \<noteq> ''internal_persistence''"
  shows "classifyProviderFailure \<lparr>xe_message = take 500 (xe_message e), xe_code = None, xe_sqlstate = None\<rparr>
    \<noteq> ''internal_persistence''"
proof
  let ?e = "\<lparr>xe_message = take 500 (xe_message e), xe_code = None, xe_sqlstate = None\<rparr>"
  assume "classifyProviderFailure ?e = ''internal_persistence''"
  then consider "to_lower (take 500 (xe_message e)) \<in> set [''timeout exceeded when trying to connect'',
      ''connection terminated due to connection timeout'']"
    | "some_match (transaction_patterns
        @ [[Lit ''unique constraint failed'', AnyStar, Lit ''jobpipelineevent''],
           [Lit ''provider control persistence failed'']]) (take 500 (xe_message e))"
    by (auto simp: classifyProviderFailure_def Let_def isPrismaConnectionFailure_def
        isRetryableIngestionTransactionError_def isPrismaSerializationFailure_def split: if_splits)
  then show False
  proof cases
    case 1
    then have "length (take 500 (xe_message e)) < 500"
      by (auto simp: to_lower_def dest!: arg_cong [where f = length])
    then have "take 500 (xe_message e) = xe_message e" by simp
    with 1 have "isPrismaConnectionFailure e" by (simp add: isPrismaConnectionFailure_def)
    with assms show False by (simp add: classifyProviderFailure_def)
  next
    case 2
    from some_match_take [OF this] assms show False by (simp add: classifyProviderFailure_def)
  qed
qed

section \<open>The request lease as a fenced lease\<close>

fun is_release :: "lease_op \<Rightarrow> bool" where
  "is_release (ReleaseLease token) = True"
| "is_release (ClaimLease token owner leaseMs) = False"

definition lease_in_force :: "ms \<Rightarrow> circuit \<Rightarrow> bool" where
  "lease_in_force now c = (case pc_requestLeaseExpiresAt c of None \<Rightarrow> False | Some u \<Rightarrow> now < u)"

lemma held_lease_step:
  assumes "pc_requestLeaseToken c = Some t" and "lease_in_force now c" and "lease_actor op \<noteq> Some t"
  shows "lease_step now op c = c"
  using assms
  by (cases op) (auto simp: claim_request_lease_def release_request_lease_def lease_free_def sql_simps
    lease_in_force_def split: option.splits)

interpretation request_lease:
  fenced_owner pc_requestLeaseToken lease_in_force lease_actor lease_step is_release
proof
  fix c :: circuit and now earlier m :: ms and op t
  show "lease_in_force now c \<Longrightarrow> earlier \<le> now \<Longrightarrow> lease_in_force earlier c"
    by (auto simp: lease_in_force_def split: option.splits)
  show "pc_requestLeaseToken c = Some t \<Longrightarrow> lease_in_force now c \<Longrightarrow> lease_actor op \<noteq> Some t
      \<Longrightarrow> pc_requestLeaseToken (lease_step now op c) = Some t"
    by (simp add: held_lease_step)
  show "pc_requestLeaseToken c = Some t \<Longrightarrow> lease_in_force now c \<Longrightarrow> lease_actor op \<noteq> Some t
      \<Longrightarrow> lease_in_force m c \<Longrightarrow> lease_in_force m (lease_step now op c)"
    by (simp add: held_lease_step)
  show "is_release op \<Longrightarrow> lease_actor op \<noteq> pc_requestLeaseToken c \<Longrightarrow> lease_step now op c = c"
    by (cases op) (auto simp: release_request_lease_def)
qed

section \<open>Properties\<close>

text \<open>C17. A budget is never overspent, nor spent ahead of its release: over any sequence of metered
  requests of a provider on one UTC day, up to an instant, what was already used on that day and what
  is granted stay within the daily limit; and for a paced provider within the part of it released
  by the hour of that instant. Restarts and concurrent callers are just more requests.\<close>

theorem daily_budget_is_kept:
  assumes "ri_dailyLimit i = Some l" and "0 \<le> l"
    and "\<And>now kind. (now, kind) \<in> set reqs \<Longrightarrow> day_of now = day_of until \<and> now \<le> until"
    and "0 \<le> used_on (day_key until) (db_circuits db (ri_provider i))"
    and "0 < snd (run_reservations i reqs db)"
  shows "used_on (day_key until) (db_circuits db (ri_provider i)) + int (snd (run_reservations i reqs db))
    \<le> (if ri_provider i \<in> set PACED_PROVIDERS then min l (l * (utc_hour until + 1) div 24) else l)"
  using granted_run [OF assms(1-4)] assms(5) by (simp add: Let_def released_by_def)

definition empty_provider_db :: provider_db where
  "empty_provider_db = \<lparr>db_circuits = Map.empty, db_incidents = Map.empty, db_affected = []\<rparr>"

definition sample_reservation :: reservation_input where
  "sample_reservation = \<lparr>ri_provider = ''JSearch'', ri_dailyLimit = Some 48, ri_monthlyLimit = None\<rparr>"

lemma sample_run:
  "run_reservations sample_reservation [(1000, None), (2000, None), (3000, None)] empty_provider_db
     = (fst (run_reservations sample_reservation [(1000, None), (2000, None), (3000, None)] empty_provider_db), 2)"
  by (simp add: run_reservations_def reserveProviderRequest_def sample_reservation_def empty_provider_db_def
      providerRequestNeedsCounterReservation_def Let_def reserved_row_def rolled_row_def new_circuit_def
      query_of_def evaluateProviderBudget_def budget_constraints_def pacing_constraint_def reached_def
      PACED_PROVIDERS_def provider_names released_by_def utc_hour_def day_ms_def hour_ms_def
      same_day_keys [of 2000 1000] same_day_keys [of 3000 1000] day_of_def or_else_limit_def)

theorem daily_budget_is_kept_witness:
  "int (snd (run_reservations sample_reservation [(1000, None), (2000, None), (3000, None)] empty_provider_db))
     \<le> min 48 (48 * (utc_hour 3000 + 1) div 24)"
proof -
  have n: "0 < snd (run_reservations sample_reservation [(1000, None), (2000, None), (3000, None)] empty_provider_db)"
    using sample_run by (metis snd_conv zero_less_numeral)
  have e: "ri_dailyLimit sample_reservation = Some 48" "ri_provider sample_reservation \<in> set PACED_PROVIDERS"
    by (simp_all add: sample_reservation_def PACED_PROVIDERS_def)
  have u: "used_on (day_key 3000) (db_circuits empty_provider_db (ri_provider sample_reservation)) = 0"
    by (simp add: empty_provider_db_def used_on_def)
  have "used_on (day_key 3000) (db_circuits empty_provider_db (ri_provider sample_reservation))
      + int (snd (run_reservations sample_reservation [(1000, None), (2000, None), (3000, None)] empty_provider_db))
    \<le> (if ri_provider sample_reservation \<in> set PACED_PROVIDERS then min 48 (48 * (utc_hour 3000 + 1) div 24) else 48)"
    by (rule daily_budget_is_kept [OF e(1) _ _ _ n]) (use u in \<open>auto simp: day_of_def day_ms_def\<close>)
  then show ?thesis using e(2) u by simp
qed

text \<open>A refusal names a usable instant: a refused request is told a reason and an instant after
  now, which is the latest of all instants at which a constraint ends; so none of the present
  constraints is in force any more when the caller returns.\<close>

theorem refusal_names_binding_retry:
  assumes "\<not> bd_allowed (evaluateProviderBudget q now)"
  shows "\<exists>reason t. bd_reason (evaluateProviderBudget q now) = Some reason
    \<and> bd_retryAt (evaluateProviderBudget q now) = Some t
    \<and> (reason, t) \<in> set (budget_constraints q now) \<and> now < t
    \<and> snd ` set (budget_constraints q now) \<subseteq> {..t}"
  by (rule denied_binding [OF assms]) (fastforce intro: constraint_after_now)

definition sample_query :: budget_query where
  "sample_query = \<lparr>bq_provider = ''ATS-lever'', bq_state = ''open'', bq_openUntil = Some 9, bq_dailyLimit = None,
     bq_monthlyLimit = None, bq_dailyUsed = 0, bq_monthlyUsed = 0, bq_kind = None\<rparr>"

theorem refusal_names_binding_retry_witness:
  "\<exists>reason t. bd_retryAt (evaluateProviderBudget sample_query 5) = Some t \<and> 5 < t
     \<and> (reason, t) \<in> set (budget_constraints sample_query 5)"
proof -
  have "\<not> bd_allowed (evaluateProviderBudget sample_query 5)"
    by (simp add: allowed_iff budget_constraints_def sample_query_def)
  from refusal_names_binding_retry [OF this] show ?thesis by blast
qed

text \<open>The pacing sends a request back to exactly the right hour: when a paced provider has used up
  what was released so far (but not its daily limit), the instant it is sent back to lies later on
  the same UTC day, the release then covers one more request, and at no earlier instant of the day
  does it.\<close>

theorem paced_retry_is_first_release:
  assumes "bq_dailyLimit q = Some limit" and "0 < limit" and "bq_dailyUsed q < limit"
    and "bq_provider q \<in> set PACED_PROVIDERS" and "released_by limit now \<le> bq_dailyUsed q"
  shows "\<exists>t. pacing_constraint q now = [(PacedBudget, t)] \<and> now < t \<and> day_of t = day_of now
    \<and> bq_dailyUsed q + 1 \<le> released_by limit t
    \<and> (\<forall>s. day_of s = day_of now \<and> s < t \<longrightarrow> released_by limit s \<le> bq_dailyUsed q)"
proof -
  let ?nh = "ceil_div ((bq_dailyUsed q + 1) * 24) limit - 1"
  let ?t = "at_utc_hour now ?nh"
  note h = paced_hour [OF assms(2,3,5)]
  have nh: "0 \<le> ?nh" using h(1) hour_range(1) [of now] by linarith
  have c: "pacing_constraint q now = [(PacedBudget, ?t)]"
    using assms by (simp add: pacing_constraint_def reached_def)
  have "released_by limit s \<le> bq_dailyUsed q" if "day_of s = day_of now" "s < ?t" for s
  proof -
    have "utc_hour s + 1 \<le> ?nh" using hour_before [OF that] by simp
    then have "limit * (utc_hour s + 1) \<le> limit * ?nh" using assms(2) by simp
    then have "released_by limit s \<le> limit * ?nh div 24"
      unfolding released_by_def by (rule zdiv_mono1) simp
    with h(4) show ?thesis by simp
  qed
  moreover have "bq_dailyUsed q + 1 \<le> released_by limit ?t"
    using h(3) at_utc_hour_day(2) [OF nh h(2)] by (simp add: released_by_def)
  moreover have "now < ?t"
    using pacing_after_now [of PacedBudget ?t q now] c by simp
  ultimately show ?thesis
    using c at_utc_hour_day(1) [OF nh h(2)] by blast
qed

theorem paced_retry_is_first_release_witness:
  "\<exists>t. pacing_constraint (sample_query\<lparr>bq_provider := ''JSearch'', bq_dailyLimit := Some 48,
      bq_dailyUsed := 2\<rparr>) 5 = [(PacedBudget, t)] \<and> day_of t = day_of 5"
  using paced_retry_is_first_release [of "sample_query\<lparr>bq_provider := ''JSearch'',
      bq_dailyLimit := Some 48, bq_dailyUsed := 2\<rparr>" 48 5]
  by (auto simp: sample_query_def PACED_PROVIDERS_def released_by_def utc_hour_def day_ms_def hour_ms_def)

text \<open>C23. Published protection of an ATS provider stands: while its circuit is open until some instant, no
  sequence of failures (of any severity and any Retry-After), successes, reservations, request leases and
  repairs of the watchdog before that instant closes it or shortens it, with one exception: a repair that
  finds the circuit still protected by a last error about a single board, whatever came before it.\<close>

theorem ats_protection_stands:
  assumes "protected_until T (db_circuits db p)" and "starts_with p ''ATS-''"
    and "\<And>now op. (now, op) \<in> set ops \<Longrightarrow> now < T"
  shows "protected_until T (db_circuits (provider_run h ops db) p)
    \<or> (\<exists>before now after c. ops = before @ (now, OpRepair) # after
        \<and> db_circuits (provider_run h before db) p = Some c \<and> board_evidence c
        \<and> protected_until T (Some c))"
  using assms(1,3)
proof (induction ops arbitrary: db)
  case (Cons a ops)
  obtain now op where a: "a = (now, op)" by (cases a)
  let ?db = "provider_step h now op db"
  have "now < T" using Cons.prems(2) a by auto
  then consider "protected_until T (db_circuits ?db p)"
    | c where "op = OpRepair" "db_circuits db p = Some c" "board_evidence c"
    using protected_step [OF Cons.prems(1) _ assms(2), of now h op] by (auto simp: reopenable_def)
  then show ?case
  proof cases
    case 1
    have later: "\<And>now op. (now, op) \<in> set ops \<Longrightarrow> now < T"
      using Cons.prems(2) by (meson list.set_intros(2))
    have run: "provider_run h (a # xs) db = provider_run h xs ?db" for xs by (simp add: provider_run_def a)
    have "protected_until T (db_circuits (provider_run h ops ?db) p)
      \<or> (\<exists>before now after c. ops = before @ (now, OpRepair) # after
          \<and> db_circuits (provider_run h before ?db) p = Some c \<and> board_evidence c \<and> protected_until T (Some c))"
      by (rule Cons.IH [OF 1]) (rule later)
    then show ?thesis
    proof (elim disjE exE conjE)
      assume "protected_until T (db_circuits (provider_run h ops ?db) p)"
      then show ?thesis unfolding run by (rule disjI1)
    next
      fix before t after c
      assume "ops = before @ (t, OpRepair) # after" and c: "db_circuits (provider_run h before ?db) p = Some c"
        "board_evidence c" "protected_until T (Some c)"
      then have "a # ops = (a # before) @ (t, OpRepair) # after" by simp
      moreover have "db_circuits (provider_run h (a # before) db) p = Some c" unfolding run by (rule c(1))
      ultimately show ?thesis using c(2,3) by blast
    qed
  next
    case 2
    with Cons.prems(1) have "a # ops = [] @ (now, OpRepair) # ops" "db_circuits (provider_run h [] db) p = Some c"
      "protected_until T (Some c)"
      by (simp_all add: a provider_run_def)
    with 2(3) show ?thesis by blast
  qed
qed (simp add: provider_run_def)

definition sample_failure :: failure_report where
  "sample_failure = \<lparr>fr_provider = ''ATS-lever'', fr_error = \<lparr>xe_message = ''boom'', xe_code = None,
     xe_sqlstate = None\<rparr>, fr_taskKey = None, fr_queryFamily = None, fr_geoLane = None, fr_openForMs = None\<rparr>"

definition sample_protected :: provider_db where
  "sample_protected = empty_provider_db\<lparr>db_circuits := [''ATS-lever'' \<mapsto>
     new_circuit\<lparr>pc_state := ''open'', pc_openUntil := Some 9, pc_lastError := Some ''HTTP 429''\<rparr>]\<rparr>"

theorem ats_protection_stands_witness:
  "protected_until 9 (db_circuits (provider_run concat [(1, OpRepair), (2, OpSuccess ''ATS-lever'')] sample_protected) ''ATS-lever'')"
proof -
  have no_evidence: "\<not> board_evidence c" if "db_circuits (provider_run concat [] sample_protected) ''ATS-lever'' = Some c" for c
  proof -
    have "c = new_circuit\<lparr>pc_state := ''open'', pc_openUntil := Some 9, pc_lastError := Some ''HTTP 429''\<rparr>"
      using that by (simp add: provider_run_def sample_protected_def)
    moreover have "\<not> board_evidence (new_circuit\<lparr>pc_state := ''open'', pc_openUntil := Some 9, pc_lastError := Some ''HTTP 429''\<rparr>)"
      by code_simp
    ultimately show ?thesis by simp
  qed
  have first: "before = []" if "[(1, OpRepair), (2, OpSuccess ''ATS-lever'')] = before @ (now, OpRepair) # after"
    for before after and now :: ms
    using that by (cases before) (auto simp: Cons_eq_append_conv)
  have "protected_until 9 (db_circuits (provider_run concat [(1, OpRepair), (2, OpSuccess ''ATS-lever'')] sample_protected) ''ATS-lever'')
    \<or> (\<exists>before now after c. [(1, OpRepair), (2, OpSuccess ''ATS-lever'')] = before @ (now, OpRepair) # after
        \<and> db_circuits (provider_run concat before sample_protected) ''ATS-lever'' = Some c \<and> board_evidence c
        \<and> protected_until 9 (Some c))"
    by (rule ats_protection_stands)
      (auto simp: sample_protected_def protected_until_def empty_provider_db_def new_circuit_def starts_with_def)
  then show ?thesis
  proof (elim disjE exE conjE)
    fix before now after c
    assume r: "[(1, OpRepair), (2, OpSuccess ''ATS-lever'')] = before @ (now, OpRepair) # after"
      and c: "db_circuits (provider_run concat before sample_protected) ''ATS-lever'' = Some c" and "board_evidence c"
    then show ?thesis using no_evidence [of c] unfolding first [OF r] by blast
  qed
qed

text \<open>A recorded failure that opens the circuit does stop traffic: until the instant it is open,
  every reservation of the provider, metered or not, is refused with a retry not before that instant.
  In particular the stored error text, cut to 500 characters, is never mistaken for a failure of our
  own storage, which would void the circuit.\<close>

theorem open_circuit_refuses:
  assumes "recordProviderFailure h at_failure r db = (db', Some incident)"
    and "db_circuits db' (fr_provider r) = Some c" and "pc_state c = ''open''" and "pc_openUntil c = Some u"
    and "ri_provider i = fr_provider r" and "now < u"
  shows "\<not> bd_allowed (snd (reserveProviderRequest i kind now db'))
    \<and> (\<exists>t. bd_retryAt (snd (reserveProviderRequest i kind now db')) = Some t \<and> u \<le> t)"
proof -
  have refuse: "\<not> bd_allowed (evaluateProviderBudget q now)
      \<and> (\<exists>t. bd_retryAt (evaluateProviderBudget q now) = Some t \<and> u \<le> t)"
    if "bq_state q = ''open''" "bq_openUntil q = Some u" for q
  proof -
    have m: "(CircuitOpen, u) \<in> set (budget_constraints q now)"
      using that assms(6) by (simp add: budget_constraints_def)
    then have d: "\<not> bd_allowed (evaluateProviderBudget q now)"
      unfolding allowed_iff by (metis empty_iff empty_set)
    show ?thesis by (rule denied_binding [OF d]) (use d m in blast)
  qed
  have "classifyProviderFailure (fr_error r) \<noteq> ''internal_persistence''"
    and e: "pc_lastError c = Some (take 500 (xe_message (fr_error r)))"
    using assms(1,2)
    by (auto simp: recordProviderFailure_def failure_committed_def failed_circuit_def Let_def
        split: if_splits prod.splits)
  then have eff: "effectiveProviderCircuitState c = ''open''"
    using recorded_not_internal assms(3) by (simp add: effectiveProviderCircuitState_def)
  show ?thesis
  proof (cases "providerRequestNeedsCounterReservation i")
    case True
    let ?c = "rolled_row now (reserved_row i now (Some c))"
    have "\<not> bd_allowed (evaluateProviderBudget (query_of (ri_provider i) (pc_state ?c) ?c kind) now)
      \<and> (\<exists>t. bd_retryAt (evaluateProviderBudget (query_of (ri_provider i) (pc_state ?c) ?c kind) now) = Some t
           \<and> u \<le> t)"
      by (rule refuse) (use assms(3,4) in \<open>simp_all add: query_of_def reserved_row_def\<close>)
    with True assms(2,5) show ?thesis by (simp add: reserveProviderRequest_def Let_def)
  next
    case False
    let ?q = "(query_of (ri_provider i) ''open'' c kind)\<lparr>bq_dailyLimit := None, bq_monthlyLimit := None\<rparr>"
    have "\<not> bd_allowed (evaluateProviderAvailability ?q (pc_budgetDay c) (pc_budgetMonth c) now)
      \<and> (\<exists>t. bd_retryAt (evaluateProviderAvailability ?q (pc_budgetDay c) (pc_budgetMonth c) now) = Some t
           \<and> u \<le> t)"
      unfolding evaluateProviderAvailability_def
      by (rule refuse) (use assms(4) in \<open>simp_all add: query_of_def\<close>)
    with False eff assms(2,5) show ?thesis
      by (simp add: reserveProviderRequest_def Let_def)
  qed
qed

definition rate_limited_report :: failure_report where
  "rate_limited_report = sample_failure\<lparr>fr_error := \<lparr>xe_message = ''HTTP 429'', xe_code = None, xe_sqlstate = None\<rparr>\<rparr>"

lemma rate_limited_report_class: "classifyProviderFailure (fr_error rate_limited_report) = ''rate_limited''"
  by code_simp

lemma rate_limited_opens:
  shows "recordProviderFailure h 5 rate_limited_report empty_provider_db
    = (fst (recordProviderFailure h 5 rate_limited_report empty_provider_db),
       Some (''incident:v1:'' @ h [''ATS-lever'', ''rate_limited'', day_key 5]))"
  and "\<exists>c. db_circuits (fst (recordProviderFailure h 5 rate_limited_report empty_provider_db)) ''ATS-lever'' = Some c
      \<and> pc_state c = ''open'' \<and> pc_openUntil c = Some 900005"
  unfolding recordProviderFailure_def rate_limited_report_class Let_def
  by (auto simp: empty_provider_db_def rate_limited_report_def sample_failure_def failure_committed_def
      failed_circuit_def providerFailurePolicy_def mergeProviderFailureCircuitProtection_def Let_def)

theorem open_circuit_refuses_witness:
  "\<not> bd_allowed (snd (reserveProviderRequest
      \<lparr>ri_provider = ''ATS-lever'', ri_dailyLimit = None, ri_monthlyLimit = None\<rparr> None 6
      (fst (recordProviderFailure concat 5 rate_limited_report empty_provider_db))))"
proof -
  obtain c where "db_circuits (fst (recordProviderFailure concat 5 rate_limited_report empty_provider_db)) ''ATS-lever'' = Some c"
    "pc_state c = ''open''" "pc_openUntil c = Some 900005"
    using rate_limited_opens(2) by blast
  then show ?thesis
    using open_circuit_refuses [OF rate_limited_opens(1) [of concat], where c = c and u = 900005 and now = 6 and kind = None]
    by (simp add: rate_limited_report_def sample_failure_def)
qed

text \<open>One request at a time: while a request lease has not expired, no sequence of claims and
  releases of other tokens changes the row that holds it.\<close>

theorem request_lease_exclusive:
  assumes "pc_requestLeaseToken c = Some t" and "lease_in_force deadline c"
    and "\<And>now op. (now, op) \<in> set ops \<Longrightarrow> now \<le> deadline \<and> lease_actor op \<noteq> Some t"
  shows "pc_requestLeaseToken (fold (\<lambda>(now, op). lease_step now op) ops c) = Some t"
  using request_lease.exclusive_until [OF assms] by (rule conjunct1)

theorem request_lease_exclusive_witness:
  "pc_requestLeaseToken (fold (\<lambda>(now, op). lease_step now op)
     [(1, ClaimLease ''b'' ''host'' 10), (2, ReleaseLease ''b'')]
     (lease_step 0 (ClaimLease ''a'' ''host'' 10) new_circuit)) = Some ''a''"
  by (rule request_lease_exclusive [where deadline = 5])
    (auto simp: claim_request_lease_def lease_free_def sql_simps new_circuit_def lease_in_force_def)

text \<open>The widest jitter a completion may add.\<close>

definition jitter_bound :: "completion_input \<Rightarrow> ms" where
  "jitter_bound i = (case ci_jitterMaxMs i of None \<Rightarrow> DEFAULT_PROVIDER_JITTER_MAX_MS | Some m \<Rightarrow> m)"

text \<open>Tasks come back when they should: with non-negative delays the next run is never before the
  completion, an explicit continuation or cadence is kept exactly, and a blocked task comes back no
  earlier than the provider allows and no later than the jitter bound after that.\<close>

theorem completion_schedule:
  assumes "0 \<le> retry_delay_of i" and "0 \<le> jitter_bound i"
  shows "ci_finishedAt i \<le> completionBasedNextRunAt hash12 i
    \<and> (ci_status i \<in> {Succeeded, Disabled} \<and> ci_continuationDelayMs i = None \<and> 0 \<le> ci_cadenceMs i \<longrightarrow>
        completionBasedNextRunAt hash12 i = ci_finishedAt i + ci_cadenceMs i)
    \<and> (\<forall>t. ci_status i \<in> {BlockedBudget, BlockedCircuit} \<and> ci_providerRetryAt i = Some t \<and> ci_finishedAt i < t \<longrightarrow>
        t \<le> completionBasedNextRunAt hash12 i \<and> completionBasedNextRunAt hash12 i \<le> t + jitter_bound i)"
proof -
  have j: "0 \<le> deterministicTaskJitterMs hash12 (ci_taskKey i) (jitter_bound i)"
    "deterministicTaskJitterMs hash12 (ci_taskKey i) (jitter_bound i) \<le> jitter_bound i"
    using assms(2) pos_mod_bound [of "jitter_bound i + 1" "int (hash12 (ci_taskKey i))"]
    by (auto simp: deterministicTaskJitterMs_def)
  have "ci_finishedAt i \<le> completionBasedNextRunAt hash12 i"
    using assms(1) j(1) by (auto simp: completionBasedNextRunAt_def jitter_bound_def Let_def split: option.split)
  moreover have "ci_status i \<in> {Succeeded, Disabled} \<and> ci_continuationDelayMs i = None \<and> 0 \<le> ci_cadenceMs i \<longrightarrow>
      completionBasedNextRunAt hash12 i = ci_finishedAt i + ci_cadenceMs i"
    by (auto simp: completionBasedNextRunAt_def)
  moreover have "t \<le> completionBasedNextRunAt hash12 i \<and> completionBasedNextRunAt hash12 i \<le> t + jitter_bound i"
    if "ci_status i \<in> {BlockedBudget, BlockedCircuit}" "ci_providerRetryAt i = Some t" "ci_finishedAt i < t" for t
    using j that by (auto simp: completionBasedNextRunAt_def jitter_bound_def)
  ultimately show ?thesis by blast
qed

definition sample_completion :: completion_input where
  "sample_completion = \<lparr>ci_taskKey = ''t'', ci_status = BlockedBudget, ci_finishedAt = 5, ci_cadenceMs = 0,
      ci_retryDelayMs = None, ci_providerRetryAt = Some 6, ci_continuationDelayMs = None, ci_jitterMaxMs = Some 3\<rparr>"

theorem completion_schedule_witness:
  "6 \<le> completionBasedNextRunAt (\<lambda>s. 7) sample_completion
   \<and> completionBasedNextRunAt (\<lambda>s. 7) sample_completion \<le> 9"
  using completion_schedule [of sample_completion "\<lambda>s. 7"]
  by (simp add: sample_completion_def retry_delay_of_def jitter_bound_def DEFAULT_TASK_RETRY_DELAY_MS_def)

end
