(* ===== verification/Task_Lease.thy ===== *)
theory Task_Lease
  imports Task_Order Provider_Circuit
begin

text \<open>
  Claiming, checkpointing and completing an ingestion task (\<open>src/lib/ingestionControl.ts\<close>:
  \<open>claimDueIngestionTask\<close>, \<open>checkpointIngestionTask\<close>, \<open>completeIngestionTask\<close>), with the saved
  progress of the paid searches (\<open>readJSearchProgress\<close> in \<open>src/lib/jsearch.ts\<close> and
  \<open>readLinkedInSearchProgress\<close> in \<open>src/lib/linkedinSearch.ts\<close>).

  Every write is a conditional update of one row, so several hosts interleave as sequences of such
  updates; they provide the contract \<open>fenced_owner\<close> of theory \<open>Lease\<close>. \<open>date_of\<close> is \<open>Date.parse\<close>
  where it is finite.
\<close>

section \<open>Saved progress\<close>

record search_progress =
  sp_windowStart :: ms
  sp_windowEnd :: ms
  sp_complete :: bool

text \<open>The text \<open>String(v)\<close> of a value, where it can be one of a list of plain words.\<close>

fun stringified :: "json \<Rightarrow> string option" where
  "stringified (JStr s) = Some s"
| "stringified (JArr [x]) = stringified x"
| "stringified _ = None"

definition safe_natural :: "json option \<Rightarrow> bool" where
  "safe_natural v =
     (case v of
        Some (JNum r) \<Rightarrow> r \<in> \<int> \<and> 0 \<le> r \<and> r \<le> 9007199254740991
      | _ \<Rightarrow> False)"

definition parsed_date :: "(string \<Rightarrow> ms option) \<Rightarrow> json option \<Rightarrow> ms option" where
  "parsed_date date_of v = (case v of Some (JStr s) \<Rightarrow> date_of s | _ \<Rightarrow> None)"

definition is_text :: "json option \<Rightarrow> bool" where
  "is_text v = (case v of Some (JStr s) \<Rightarrow> True | _ \<Rightarrow> False)"

definition saved_record :: "string \<Rightarrow> json option \<Rightarrow> json option" where
  "saved_record key value =
     (let saved = (if is_json_object value then json_field value key else None) in
      if is_json_object saved then saved else None)"

text \<open>The window and the end mark of a saved search, once everything else of it is valid.\<close>

definition saved_window :: "(string \<Rightarrow> ms option) \<Rightarrow> json option \<Rightarrow> search_progress option" where
  "saved_window date_of saved =
     (case (parsed_date date_of (json_field saved ''windowStart''),
            parsed_date date_of (json_field saved ''windowEnd''), json_field saved ''complete'') of
        (Some s, Some e, Some (JBool c)) \<Rightarrow>
          if s \<le> e then Some \<lparr>sp_windowStart = s, sp_windowEnd = e, sp_complete = c\<rparr> else None
      | _ \<Rightarrow> None)"

definition JSEARCH_DATE_FILTERS :: "string list" where
  "JSEARCH_DATE_FILTERS = [''today'', ''3days'', ''week'', ''month'', ''all'']"

definition readJSearchProgress :: "(string \<Rightarrow> ms option) \<Rightarrow> json option \<Rightarrow> search_progress option" where
  "readJSearchProgress date_of value =
     (let saved = saved_record ''jsearch'' value in
      if saved \<noteq> None \<and> json_field saved ''version'' = Some (JNum 1) \<and> is_text (json_field saved ''query'')
         \<and> (case Option.bind (json_field saved ''datePosted'') stringified of
               Some d \<Rightarrow> d \<in> set JSEARCH_DATE_FILTERS | None \<Rightarrow> False)
         \<and> (json_field saved ''cursor'' = Some JNull \<or> is_text (json_field saved ''cursor''))
         \<and> safe_natural (json_field saved ''pages'')
      then saved_window date_of saved else None)"

definition readLinkedInSearchProgress :: "(string \<Rightarrow> ms option) \<Rightarrow> json option \<Rightarrow> search_progress option" where
  "readLinkedInSearchProgress date_of value =
     (let saved = saved_record ''linkedin'' value in
      if saved \<noteq> None \<and> json_field saved ''version'' = Some (JNum 1) \<and> is_text (json_field saved ''query'')
         \<and> is_text (json_field saved ''lane'')
         \<and> (case json_field saved ''cursor'' of
               Some (JStr c) \<Rightarrow> c \<noteq> [] \<and> list_all (\<lambda>d. digit_value d \<noteq> None) c | _ \<Rightarrow> False)
      then saved_window date_of saved else None)"

definition DAY_MS :: ms where
  "DAY_MS = 86400000"

definition jsearchDateFilter :: "ms \<Rightarrow> ms \<Rightarrow> string" where
  "jsearchDateFilter windowStart now =
     (let age = max 0 (now - windowStart) in
      if age \<le> 3 * DAY_MS then ''3days''
      else if age \<le> 7 * DAY_MS then ''week''
      else if age \<le> 30 * DAY_MS then ''month'' else ''all'')"

text \<open>\<open>isoText\<close> is \<open>Date.prototype.toISOString\<close>.\<close>

definition newJSearchProgress :: "(ms \<Rightarrow> string) \<Rightarrow> string \<Rightarrow> ms \<Rightarrow> ms \<Rightarrow> ms \<Rightarrow> json" where
  "newJSearchProgress isoText query windowStart windowEnd now =
     JObj [(''version'', JNum 1), (''query'', JStr query), (''windowStart'', JStr (isoText windowStart)),
       (''windowEnd'', JStr (isoText windowEnd)), (''datePosted'', JStr (jsearchDateFilter windowStart now)),
       (''cursor'', JNull), (''pages'', JNum 0), (''complete'', JBool False)]"

definition newLinkedInSearchProgress :: "(ms \<Rightarrow> string) \<Rightarrow> string \<Rightarrow> string \<Rightarrow> ms \<Rightarrow> ms \<Rightarrow> json" where
  "newLinkedInSearchProgress isoText query lane windowStart windowEnd =
     JObj [(''version'', JNum 1), (''query'', JStr query), (''lane'', JStr lane),
       (''windowStart'', JStr (isoText windowStart)), (''windowEnd'', JStr (isoText windowEnd)),
       (''cursor'', JStr ''0''), (''complete'', JBool False)]"

text \<open>What a search saves about itself when it starts is read back as the window it covers.\<close>

lemma new_progress_reads_back:
  assumes "\<And>t. date_of (isoText t) = Some t" and "s \<le> e"
  shows "readJSearchProgress date_of (Some (JObj [(''jsearch'', newJSearchProgress isoText q s e now)]))
      = Some \<lparr>sp_windowStart = s, sp_windowEnd = e, sp_complete = False\<rparr>"
    and "readLinkedInSearchProgress date_of (Some (JObj [(''linkedin'', newLinkedInSearchProgress isoText q lane s e)]))
      = Some \<lparr>sp_windowStart = s, sp_windowEnd = e, sp_complete = False\<rparr>"
proof -
  have "jsearchDateFilter s now \<in> set JSEARCH_DATE_FILTERS"
    by (simp add: jsearchDateFilter_def JSEARCH_DATE_FILTERS_def Let_def)
  then show "readJSearchProgress date_of (Some (JObj [(''jsearch'', newJSearchProgress isoText q s e now)]))
      = Some \<lparr>sp_windowStart = s, sp_windowEnd = e, sp_complete = False\<rparr>"
    using assms by (simp add: readJSearchProgress_def newJSearchProgress_def saved_record_def is_text_def
        safe_natural_def saved_window_def parsed_date_def Let_def)
  show "readLinkedInSearchProgress date_of (Some (JObj [(''linkedin'', newLinkedInSearchProgress isoText q lane s e)]))
      = Some \<lparr>sp_windowStart = s, sp_windowEnd = e, sp_complete = False\<rparr>"
    using assms by (simp add: readLinkedInSearchProgress_def newLinkedInSearchProgress_def saved_record_def
        is_text_def saved_window_def parsed_date_def Let_def digit_value_def)
qed

section \<open>The conditional updates\<close>

definition reason_text :: "block_reason \<Rightarrow> string" where
  "reason_text r = (case r of CircuitOpen \<Rightarrow> ''circuit_open'' | DailyBudget \<Rightarrow> ''daily_budget''
     | MonthlyBudget \<Rightarrow> ''monthly_budget'' | PacedBudget \<Rightarrow> ''paced_budget''
     | EnrichmentBudget \<Rightarrow> ''enrichment_budget'')"

fun status_text :: "completion_status \<Rightarrow> string" where
  "status_text Succeeded = ''succeeded''"
| "status_text Partial = ''partial''"
| "status_text Failed = ''failed''"
| "status_text BlockedBudget = ''blocked_budget''"
| "status_text BlockedCircuit = ''blocked_circuit''"
| "status_text Disabled = ''disabled''"

definition lease_open :: "ms \<Rightarrow> task_row \<Rightarrow> tv" where
  "lease_open now r = tv_any [sql_is_null (it_leaseToken r), sql_cmp (\<lambda>e. e \<le> now) (it_leaseExpiresAt r)]"

definition claim_filter :: "bool \<Rightarrow> ms \<Rightarrow> task_row \<Rightarrow> tv" where
  "claim_filter v3 now r =
     tv_all ([sql_cmp (\<lambda>t. t \<le> now) (Some (it_nextRunAt r))]
       @ (if v3 then [sql_eq (Some (it_taskKind r)) ''search'', sql_eq (Some (it_lifecycleStatus r)) ''active''] else [])
       @ [lease_open now r])"

definition TASK_LEASE_MS :: ms where
  "TASK_LEASE_MS = 30 * 60 * 1000"

definition lease_length :: "ms option \<Rightarrow> ms" where
  "lease_length l = (case l of None \<Rightarrow> TASK_LEASE_MS | Some d \<Rightarrow> if d = 0 then TASK_LEASE_MS else d)"

definition claimed_row :: "ms \<Rightarrow> string \<Rightarrow> string \<Rightarrow> ms \<Rightarrow> catch_up_window \<Rightarrow> task_row \<Rightarrow> task_row" where
  "claimed_row now token owner leaseMs w r =
     r\<lparr>it_status := ''running'', it_leaseToken := Some token, it_leaseOwner := Some owner,
       it_leaseStartedAt := Some now, it_heartbeatAt := Some now, it_leaseExpiresAt := Some (now + leaseMs),
       it_lastStartedAt := Some now, it_windowStart := Some (cw_windowStart w), it_windowEnd := Some (cw_windowEnd w),
       it_attempt := it_attempt r + 1, it_counters := replicate 7 0, it_lastError := None\<rparr>"

definition claim_update ::
  "bool \<Rightarrow> ms \<Rightarrow> string \<Rightarrow> string \<Rightarrow> ms \<Rightarrow> catch_up_window \<Rightarrow> task_row \<Rightarrow> task_row \<times> bool" where
  "claim_update v3 now token owner leaseMs w r =
     (if selected (claim_filter v3 now r) then (claimed_row now token owner leaseMs w r, True) else (r, False))"

text \<open>A task whose provider is not available is postponed instead, unless somebody holds it.\<close>

definition blocked_status :: "budget_decision \<Rightarrow> completion_status" where
  "blocked_status a = (if bd_reason a = Some CircuitOpen then BlockedCircuit else BlockedBudget)"

definition block_update ::
  "(string \<Rightarrow> nat) \<Rightarrow> ms \<Rightarrow> task_spec \<Rightarrow> budget_decision \<Rightarrow> task_row \<Rightarrow> task_row" where
  "block_update hash12 now s a r =
     (if selected (tv_all [sql_eq (Some (it_taskKind r)) ''search'', sql_eq (Some (it_lifecycleStatus r)) ''active'',
           lease_open now r])
      then r\<lparr>it_status := status_text (blocked_status a),
             it_nextRunAt := completionBasedNextRunAt hash12
               \<lparr>ci_taskKey = it_taskKey r, ci_status = blocked_status a, ci_finishedAt = now, ci_cadenceMs = 0,
                ci_retryDelayMs = None, ci_providerRetryAt = bd_retryAt a, ci_continuationDelayMs = None,
                ci_jitterMaxMs = None\<rparr>,
             it_lastError := Some (ts_source s @ '' blocked by ''
               @ (case bd_reason a of None \<Rightarrow> ''undefined'' | Some b \<Rightarrow> reason_text b))\<rparr>
      else r)"

record task_counters =
  tc_seen :: int
  tc_inserted :: int
  tc_duplicates :: int
  tc_filtered :: int
  tc_processingErrors :: int
  tc_providerErrors :: int
  tc_requests :: "int option"

definition counter_columns :: "task_counters \<Rightarrow> int list" where
  "counter_columns c = [case tc_requests c of None \<Rightarrow> 0 | Some n \<Rightarrow> n, tc_seen c, tc_inserted c, tc_duplicates c,
     tc_filtered c, tc_processingErrors c, tc_providerErrors c]"

definition ingestionOutcomes :: "task_counters \<Rightarrow> int" where
  "ingestionOutcomes c = tc_inserted c + tc_duplicates c + tc_filtered c + tc_processingErrors c"

definition ingestionReconciles :: "task_counters \<Rightarrow> bool" where
  "ingestionReconciles c \<longleftrightarrow> tc_seen c = ingestionOutcomes c"

definition checkpointIngestionTask ::
  "ms \<Rightarrow> string \<Rightarrow> task_counters \<Rightarrow> json option \<Rightarrow> ms option \<Rightarrow> task_row \<Rightarrow> task_row \<times> bool" where
  "checkpointIngestionTask now token counters cursor leaseMs r =
     (if selected (tv_all [sql_eq (it_leaseToken r) token, sql_eq (Some (it_status r)) ''running''])
      then (r\<lparr>it_heartbeatAt := Some now, it_leaseExpiresAt := Some (now + lease_length leaseMs),
              it_cursor := (case cursor of None \<Rightarrow> it_cursor r | Some c \<Rightarrow> Some c),
              it_counters := counter_columns counters\<rparr>, True)
      else (r, False))"

record task_completion =
  td_taskKey :: string
  td_status :: completion_status
  td_counters :: task_counters
  td_cadenceMs :: ms
  td_retryDelayMs :: "ms option"
  td_providerRetryAt :: "ms option"
  td_continuationDelayMs :: "ms option"
  td_jitterMaxMs :: "ms option"
  td_watermarkAt :: "ms option option" \<comment> \<open>undefined, null or an instant\<close>
  td_cursor :: "json option"
  td_error :: "string option"

definition completed_next_run ::
  "bool \<Rightarrow> (string \<Rightarrow> nat) \<Rightarrow> ms \<Rightarrow> task_completion \<Rightarrow> ms option \<Rightarrow> ms" where
  "completed_next_run v3 hash12 now i lastStartedAt =
     (if v3
      then completionBasedNextRunAt hash12
        \<lparr>ci_taskKey = td_taskKey i, ci_status = td_status i, ci_finishedAt = now, ci_cadenceMs = td_cadenceMs i,
         ci_retryDelayMs = td_retryDelayMs i, ci_providerRetryAt = td_providerRetryAt i,
         ci_continuationDelayMs = td_continuationDelayMs i, ci_jitterMaxMs = td_jitterMaxMs i\<rparr>
      else if td_status i \<in> {Succeeded, Disabled}
      then (case lastStartedAt of None \<Rightarrow> now | Some t \<Rightarrow> t) + td_cadenceMs i
      else now + min (td_cadenceMs i) DEFAULT_TASK_RETRY_DELAY_MS)"

definition completeIngestionTask ::
  "bool \<Rightarrow> (string \<Rightarrow> nat) \<Rightarrow> ms \<Rightarrow> string \<Rightarrow> task_completion \<Rightarrow> task_row \<Rightarrow> task_row \<times> bool" where
  "completeIngestionTask v3 hash12 now token i r =
     (if selected (sql_eq (it_leaseToken r) token)
      then (r\<lparr>it_status := status_text (td_status i),
              it_nextRunAt := completed_next_run v3 hash12 now i (it_lastStartedAt r),
              it_watermarkAt := (case td_watermarkAt i of
                  Some w \<Rightarrow> if td_status i = Succeeded then w else it_watermarkAt r
                | None \<Rightarrow> it_watermarkAt r),
              it_cursor := (case td_cursor i of None \<Rightarrow> it_cursor r | Some c \<Rightarrow> Some c),
              it_counters := counter_columns (td_counters i), it_lastError := or_null (td_error i),
              it_lastCompletedAt := Some now, it_heartbeatAt := Some now, it_leaseToken := None,
              it_leaseOwner := None, it_leaseStartedAt := None, it_leaseExpiresAt := None\<rparr>, True)
      else (r, False))"

section \<open>Claiming a due task\<close>

definition claim_window ::
  "(string \<Rightarrow> ms option) \<Rightarrow> string \<Rightarrow> ms \<Rightarrow> ms option \<Rightarrow> task_row \<Rightarrow> catch_up_window" where
  "claim_window date_of source now defaultLookbackMs r =
     (let savedSearch = (if source = ''JSearch'' then readJSearchProgress date_of (it_cursor r)
            else if source = ''LinkedIn'' then readLinkedInSearchProgress date_of (it_cursor r) else None);
          derived = deriveCatchUpWindow (it_watermarkAt r) now
            (case defaultLookbackMs of None \<Rightarrow> DEFAULT_LOOKBACK_MS | Some d \<Rightarrow> d) MAX_CATCH_UP_MS OVERLAP_MS
      in case savedSearch of
           Some p \<Rightarrow> if sp_complete p then derived
             else \<lparr>cw_windowStart = sp_windowStart p, cw_windowEnd = sp_windowEnd p, cw_isCatchUp = True\<rparr>
         | None \<Rightarrow> derived)"

record claim_request =
  cq_spec :: task_spec
  cq_now :: ms
  cq_token :: string
  cq_owner :: string
  cq_leaseMs :: "ms option"
  cq_defaultLookbackMs :: "ms option"

text \<open>The task of the specification, created when it is not stored yet.\<close>

definition ensure_task ::
  "(string \<Rightarrow> string) \<Rightarrow> ms \<Rightarrow> string \<Rightarrow> task_spec \<Rightarrow> task_row list \<Rightarrow> task_row list \<times> task_row" where
  "ensure_task fresh now taskKey s rows =
     (case find (\<lambda>r. it_taskKey r = taskKey) rows of
        Some r \<Rightarrow> (rows, r)
      | None \<Rightarrow> (rows @ [new_task fresh now taskKey s], new_task fresh now taskKey s))"

definition task_availability :: "(string \<Rightarrow> circuit option) \<Rightarrow> string \<Rightarrow> ms \<Rightarrow> budget_decision option" where
  "task_availability circuits source now =
     providerTaskAvailability source (circuits source) (circuits (providerBudgetAuthority source)) now"

text \<open>The claim updates the row of the task; \<open>allowed\<close> is the storage gate.\<close>

definition claim_row ::
  "bool \<Rightarrow> (string \<Rightarrow> ms option) \<Rightarrow> claim_request \<Rightarrow> task_row \<Rightarrow> task_row \<times> (task_row \<times> catch_up_window) option" where
  "claim_row v3 date_of q r =
     (let w = claim_window date_of (ts_source (cq_spec q)) (cq_now q) (cq_defaultLookbackMs q) r;
          (r', claimed) = claim_update v3 (cq_now q) (cq_token q) (cq_owner q) (lease_length (cq_leaseMs q)) w r
      in (r', if claimed then Some (r', w) else None))"

definition claimDueIngestionTask ::
  "(string \<Rightarrow> string) \<Rightarrow> (string \<Rightarrow> string) \<Rightarrow> (string \<Rightarrow> string) \<Rightarrow> (string \<Rightarrow> nat) \<Rightarrow> (string \<Rightarrow> ms option)
    \<Rightarrow> bool \<Rightarrow> bool \<Rightarrow> (string \<Rightarrow> circuit option) \<Rightarrow> claim_request \<Rightarrow> task_row list
    \<Rightarrow> catalog_error + (task_row list \<times> (task_row \<times> catch_up_window) option)" where
  "claimDueIngestionTask sha decompose fresh hash12 date_of v3 allowed circuits q stored =
     (let s = cq_spec q; now = cq_now q; taskKey = buildIngestionTaskKey sha decompose s in
      if \<not> allowed then Inr (stored, None)
      else case reclassifyGustoBoardTaskBeforeClaim sha decompose s stored of
        Inl e \<Rightarrow> Inl e
      | Inr moved \<Rightarrow>
          let (rows, task) = ensure_task fresh now taskKey s moved in
          if v3 \<and> \<not> search_active task then Inr (rows, None)
          else if now < it_nextRunAt task then Inr (rows, None)
          else case (if v3 then task_availability circuits (ts_source s) now else None) of
            Some a \<Rightarrow> Inr (map (\<lambda>r. if it_id r = it_id task then block_update hash12 now s a r else r) rows, None)
          | None \<Rightarrow>
              Inr (map (\<lambda>r. if it_id r = it_id task then fst (claim_row v3 date_of q r) else r) rows,
                snd (claim_row v3 date_of q task)))"

section \<open>The lease as a fenced lease\<close>

datatype task_op =
    TClaim bool string string ms catch_up_window
  | TBlock "string \<Rightarrow> nat" task_spec budget_decision
  | TCheckpoint string task_counters "json option" "ms option"
  | TComplete bool "string \<Rightarrow> nat" string task_completion

fun task_actor :: "task_op \<Rightarrow> string option" where
  "task_actor (TClaim v3 token owner l w) = Some token"
| "task_actor (TBlock h s a) = None"
| "task_actor (TCheckpoint token c cursor l) = Some token"
| "task_actor (TComplete v3 h token i) = Some token"

fun task_step :: "ms \<Rightarrow> task_op \<Rightarrow> task_row \<Rightarrow> task_row" where
  "task_step now (TClaim v3 token owner l w) r = fst (claim_update v3 now token owner l w r)"
| "task_step now (TBlock h s a) r = block_update h now s a r"
| "task_step now (TCheckpoint token c cursor l) r = fst (checkpointIngestionTask now token c cursor l r)"
| "task_step now (TComplete v3 h token i) r = fst (completeIngestionTask v3 h now token i r)"

fun task_owner_op :: "task_op \<Rightarrow> bool" where
  "task_owner_op (TCheckpoint token c cursor l) = True"
| "task_owner_op (TComplete v3 h token i) = True"
| "task_owner_op _ = False"

definition task_live :: "ms \<Rightarrow> task_row \<Rightarrow> bool" where
  "task_live now r = (case it_leaseExpiresAt r of None \<Rightarrow> False | Some e \<Rightarrow> now < e)"

lemma held_not_open:
  assumes "it_leaseToken r = Some t" and "task_live now r"
  shows "\<not> selected (lease_open now r)"
  using assms by (simp add: lease_open_def sql_simps task_live_def split: option.splits)

lemma held_task_step:
  assumes "it_leaseToken r = Some t" and "task_live now r" and "task_actor op \<noteq> Some t"
  shows "task_step now op r = r"
proof (cases op)
  case (TClaim v3 token owner l w)
  have "\<not> selected (claim_filter v3 now r)"
    using held_not_open [OF assms(1,2)] by (simp add: claim_filter_def selected_all)
  with TClaim show ?thesis by (simp add: claim_update_def)
next
  case (TBlock h s a)
  then show ?thesis
    using held_not_open [OF assms(1,2)] by (simp add: block_update_def selected_all)
next
  case (TCheckpoint token c cursor l)
  with assms(1,3) show ?thesis by (simp add: checkpointIngestionTask_def selected_all selected_tests)
next
  case (TComplete v3 h token i)
  with assms(1,3) show ?thesis by (simp add: completeIngestionTask_def selected_tests)
qed

interpretation task: fenced_owner it_leaseToken task_live task_actor task_step task_owner_op
proof
  fix r :: task_row and now earlier m :: ms and op t
  show "task_live now r \<Longrightarrow> earlier \<le> now \<Longrightarrow> task_live earlier r"
    by (auto simp: task_live_def split: option.splits)
  show "it_leaseToken r = Some t \<Longrightarrow> task_live now r \<Longrightarrow> task_actor op \<noteq> Some t
      \<Longrightarrow> it_leaseToken (task_step now op r) = Some t"
    using held_task_step by simp
  show "it_leaseToken r = Some t \<Longrightarrow> task_live now r \<Longrightarrow> task_actor op \<noteq> Some t \<Longrightarrow> task_live m r
      \<Longrightarrow> task_live m (task_step now op r)"
    using held_task_step by simp
  show "task_owner_op op \<Longrightarrow> task_actor op \<noteq> it_leaseToken r \<Longrightarrow> task_step now op r = r"
    by (cases op) (auto simp: checkpointIngestionTask_def completeIngestionTask_def sql_simps)
qed

text \<open>While a claim is in force, the updates of all others leave the row as it is.\<close>

lemma held_fold:
  assumes "it_leaseToken r = Some t" and "it_leaseExpiresAt r = Some e"
    and "\<And>now op. (now, op) \<in> set ops \<Longrightarrow> now < e \<and> task_actor op \<noteq> Some t"
  shows "fold (\<lambda>(now, op). task_step now op) ops r = r"
  using assms(3)
proof (induction ops)
  case (Cons a ops)
  obtain now op where a: "a = (now, op)" by (cases a)
  then have "now < e" "task_actor op \<noteq> Some t" using Cons.prems by auto
  then have "task_step now op r = r"
    using assms(1,2) by (intro held_task_step) (auto simp: task_live_def)
  moreover have "\<And>now op. (now, op) \<in> set ops \<Longrightarrow> now < e \<and> task_actor op \<noteq> Some t"
    using Cons.prems by (meson list.set_intros(2))
  ultimately show ?case using Cons.IH a by simp
qed simp

lemma claim_row_cases:
  assumes "claim_row v3 date_of q r = (r1, Some (r', w))"
  shows "r' = r1"
    and "w = claim_window date_of (ts_source (cq_spec q)) (cq_now q) (cq_defaultLookbackMs q) r"
    and "r1 = claimed_row (cq_now q) (cq_token q) (cq_owner q) (lease_length (cq_leaseMs q)) w r"
  using assms by (auto simp: claim_row_def claim_update_def Let_def split: if_splits)

section \<open>Properties\<close>

text \<open>C26. Claimed work is not lost: once a host has claimed a task, whatever other hosts try before the
  lease expires (claims, checkpoints and completions with other tokens, and postponements), its
  completion succeeds and frees the task; and if it reports success with the end of its window as the
  watermark, the next window starts at least the two hours of overlap before that end. The last part is for
  sources other than JSearch and LinkedIn, which keep progress of their own, and for an outage within the
  seven days a window may cover.\<close>

theorem claimed_work_is_kept:
  assumes "claim_row v3 date_of q r = (r1, Some (r', w))"
    and "\<And>now op. (now, op) \<in> set ops \<Longrightarrow>
      now < cq_now q + lease_length (cq_leaseMs q) \<and> task_actor op \<noteq> Some (cq_token q)"
    and "td_status i = Succeeded" and "td_watermarkAt i = Some (Some (cw_windowEnd w))"
    and "source \<notin> {''JSearch'', ''LinkedIn''}" and "later - MAX_CATCH_UP_MS \<le> cw_windowEnd w - OVERLAP_MS"
  shows "\<exists>r2. completeIngestionTask v3 hash12 t2 (cq_token q) i (fold (\<lambda>(now, op). task_step now op) ops r1) = (r2, True)
    \<and> it_leaseToken r2 = None \<and> it_watermarkAt r2 = Some (cw_windowEnd w)
    \<and> cw_windowStart (claim_window date_of source later lookback r2) \<le> cw_windowEnd w - OVERLAP_MS"
proof -
  note c = claim_row_cases [OF assms(1)]
  have r1: "it_leaseToken r1 = Some (cq_token q)"
    "it_leaseExpiresAt r1 = Some (cq_now q + lease_length (cq_leaseMs q))"
    unfolding c(3) by (simp_all add: claimed_row_def)
  have kept: "fold (\<lambda>(now, op). task_step now op) ops r1 = r1"
    by (rule held_fold [OF r1 assms(2)])
  obtain r2 where r2: "completeIngestionTask v3 hash12 t2 (cq_token q) i r1 = (r2, True)"
    using r1(1) by (simp add: completeIngestionTask_def sql_simps)
  then have "it_leaseToken r2 = None" "it_watermarkAt r2 = Some (cw_windowEnd w)"
    using r1(1) assms(3,4) by (auto simp: completeIngestionTask_def sql_simps)
  moreover from this(2) have "cw_windowStart (claim_window date_of source later lookback r2) \<le> cw_windowEnd w - OVERLAP_MS"
    using assms(5,6) window_leaves_no_gap [of OVERLAP_MS later MAX_CATCH_UP_MS "cw_windowEnd w"]
    by (simp add: claim_window_def OVERLAP_MS_def)
  ultimately show ?thesis using r2 kept by simp
qed

definition sample_claim :: claim_request where
  "sample_claim = \<lparr>cq_spec = sample_public_spec, cq_now = 10, cq_token = ''t'', cq_owner = ''host'',
     cq_leaseMs = None, cq_defaultLookbackMs = None\<rparr>"

definition sample_task :: task_row where
  "sample_task = new_task id 3 ''k'' sample_public_spec"

definition sample_success :: task_completion where
  "sample_success = \<lparr>td_taskKey = ''k'', td_status = Succeeded,
     td_counters = \<lparr>tc_seen = 0, tc_inserted = 0, tc_duplicates = 0, tc_filtered = 0, tc_processingErrors = 0,
       tc_providerErrors = 0, tc_requests = None\<rparr>,
     td_cadenceMs = 5, td_retryDelayMs = None, td_providerRetryAt = None, td_continuationDelayMs = None,
     td_jitterMaxMs = None, td_watermarkAt = Some (Some 10), td_cursor = None, td_error = None\<rparr>"

theorem claimed_work_is_kept_witness:
  "\<exists>r1 r2 w. claim_row True Map.empty sample_claim sample_task = (r1, Some (r1, w))
     \<and> completeIngestionTask True (\<lambda>s. 0) 20 ''t'' sample_success
         (task_step 15 (TClaim True ''u'' ''other'' 5 w) r1) = (r2, True)
     \<and> cw_windowStart (claim_window Map.empty ''Gusto'' 40 None r2) \<le> 10 - OVERLAP_MS"
proof -
  let ?w = "claim_window Map.empty (ts_source (cq_spec sample_claim)) (cq_now sample_claim) None sample_task"
  have w: "cw_windowEnd ?w = 10"
    by (simp add: claim_window_def deriveCatchUpWindow_def Let_def sample_claim_def sample_public_spec_def)
  have c: "claim_row True Map.empty sample_claim sample_task
      = (claimed_row 10 ''t'' ''host'' TASK_LEASE_MS ?w sample_task,
         Some (claimed_row 10 ''t'' ''host'' TASK_LEASE_MS ?w sample_task, ?w))"
    by (simp add: claim_row_def claim_update_def claim_filter_def lease_open_def sql_simps sample_claim_def
        sample_task_def new_task_def lease_length_def Let_def)
  have f: "now < cq_now sample_claim + lease_length (cq_leaseMs sample_claim)
      \<and> task_actor op \<noteq> Some (cq_token sample_claim)"
    if "(now, op) \<in> set [(15, TClaim True ''u'' ''other'' 5 ?w)]" for now op
    using that by (simp add: sample_claim_def lease_length_def TASK_LEASE_MS_def)
  have "\<exists>r2. completeIngestionTask True (\<lambda>s. 0) 20 (cq_token sample_claim) sample_success
      (fold (\<lambda>(now, op). task_step now op) [(15, TClaim True ''u'' ''other'' 5 ?w)]
        (claimed_row 10 ''t'' ''host'' TASK_LEASE_MS ?w sample_task)) = (r2, True)
      \<and> it_leaseToken r2 = None \<and> it_watermarkAt r2 = Some (cw_windowEnd ?w)
      \<and> cw_windowStart (claim_window Map.empty ''Gusto'' 40 None r2) \<le> cw_windowEnd ?w - OVERLAP_MS"
    by (rule claimed_work_is_kept [OF c f]) (simp_all add: w sample_success_def OVERLAP_MS_def MAX_CATCH_UP_MS_def)
  with c w show ?thesis by (auto simp: sample_claim_def simp del: task_step.simps)
qed

end
