(* ===== verification/Safe_Fetch.thy ===== *)
theory Safe_Fetch
  imports Text_Pattern
begin

text \<open>
  The guarded fetch of external pages (\<open>src/lib/safeExternalFetch.ts\<close>): which addresses are public,
  which navigations are allowed, how a name is resolved, how a request is pinned to a validated
  address, and the loop over addresses and redirects.

  Parameters: the URL parser (\<open>parse_url\<close>, and \<open>join_url\<close> for a location relative to a base), the
  name service \<open>dns\<close> and the network \<open>net\<close>. Both may answer differently every time: they see the
  requests made so far. The decompression of a body is not modelled, only that a response has one.
\<close>

section \<open>Text\<close>

definition strip_brackets :: "string \<Rightarrow> string" where
  "strip_brackets s =
     (let t = (if s \<noteq> [] \<and> hd s = CHR ''['' then tl s else s) in
      if t \<noteq> [] \<and> last t = CHR '']'' then butlast t else t)"

definition strip_dot :: "string \<Rightarrow> string" where
  "strip_dot s = (if s \<noteq> [] \<and> last s = CHR ''.'' then butlast s else s)"

definition all_digits :: "string \<Rightarrow> bool" where
  "all_digits s \<longleftrightarrow> s \<noteq> [] \<and> list_all (\<lambda>c. digit_value c \<noteq> None) s"

text \<open>\<open>Number\<close> on a part of a dotted address: \<open>None\<close> is \<open>NaN\<close>.\<close>

definition octet_value :: "string \<Rightarrow> int option" where
  "octet_value s = (if s = [] then Some 0 else if all_digits s then Some (digits_value 0 s) else None)"

definition hex_value :: "char \<Rightarrow> nat option" where
  "hex_value c = (let n = (of_char c :: nat) in
     if 48 \<le> n \<and> n \<le> 57 then Some (n - 48) else if 97 \<le> n \<and> n \<le> 102 then Some (n - 87) else None)"

definition hex_group :: "string \<Rightarrow> bool" where
  "hex_group s \<longleftrightarrow> s \<noteq> [] \<and> length s \<le> 4 \<and> list_all (\<lambda>c. hex_value c \<noteq> None) s"

definition hex_number :: "string \<Rightarrow> int" where
  "hex_number s = foldl (\<lambda>acc c. acc * 16 + (case hex_value c of None \<Rightarrow> 0 | Some d \<Rightarrow> int d)) 0 s"

definition address_digit :: "nat \<Rightarrow> char" where
  "address_digit n = ''0123456789abcdef'' ! (n mod 16)"

fun hex_text :: "nat \<Rightarrow> string" where
  "hex_text n = (if n < 16 then [address_digit n] else hex_text (n div 16) @ [address_digit n])"

declare hex_text.simps [simp del]

section \<open>Public addresses\<close>

definition isPublicIpv4 :: "string \<Rightarrow> bool" where
  "isPublicIpv4 address =
     (case map octet_value (split_on (CHR ''.'') address) of
        [Some a, Some b, Some c, Some d] \<Rightarrow>
          if \<exists>v \<in> set [a, b, c, d]. v < 0 \<or> 255 < v then False
          else if a = 0 \<or> a = 10 \<or> a = 127 \<or> 224 \<le> a then False
          else if a = 100 \<and> 64 \<le> b \<and> b \<le> 127 then False
          else if a = 169 \<and> b = 254 then False
          else if a = 172 \<and> 16 \<le> b \<and> b \<le> 31 then False
          else if a = 192 \<and> b = 0 \<and> c = 0 then False
          else if a = 192 \<and> b = 0 \<and> c = 2 then False
          else if a = 192 \<and> b = 88 \<and> c = 99 then False
          else if a = 192 \<and> b = 168 then False
          else if a = 198 \<and> (b = 18 \<or> b = 19) then False
          else if a = 198 \<and> b = 51 \<and> c = 100 then False
          else if a = 203 \<and> b = 0 \<and> c = 113 then False
          else True
      | _ \<Rightarrow> False)"

text \<open>A dotted tail after the start or a colon, as the octets it reads as.\<close>

definition ipv4_tail :: "string \<Rightarrow> string option" where
  "ipv4_tail address =
     (let t = last (split_on (CHR '':'') address); parts = split_on (CHR ''.'') t in
      if length parts = 4 \<and> list_all all_digits parts then Some t else None)"

definition tail_groups :: "int list \<Rightarrow> string" where
  "tail_groups os = (case os of
     [a, b, c, d] \<Rightarrow> hex_text (nat (a * 256 + b)) @ '':'' @ hex_text (nat (c * 256 + d)) | _ \<Rightarrow> [])"

definition ipv6_groups_of :: "string \<Rightarrow> int list option" where
  "ipv6_groups_of address =
     (let halves = split_colons address in
      if 2 < length halves then None
      else
        let part = (\<lambda>i. if i < length halves \<and> halves ! i \<noteq> [] then split_on (CHR '':'') (halves ! i) else []);
            left = part 0; right = part 1;
            missing = 8 - int (length left) - int (length right)
        in if (length halves = 1 \<and> missing \<noteq> 0) \<or> missing < 0 then None
           else
             let groups = left @ replicate (if length halves = 2 then nat missing else 0) ''0'' @ right in
             if length groups \<noteq> 8 \<or> \<not> list_all hex_group groups then None
             else Some (map hex_number groups))"

definition parseIpv6Groups :: "string \<Rightarrow> int list option" where
  "parseIpv6Groups input =
     (let a0 = hd (split_on (CHR ''%'') (to_lower input));
          a1 = (if starts_with a0 ''['' \<and> ends_with a0 '']'' then butlast (tl a0) else a0)
      in case ipv4_tail a1 of
           None \<Rightarrow> ipv6_groups_of a1
         | Some t \<Rightarrow>
             let octets = map (\<lambda>s. the (octet_value s)) (split_on (CHR ''.'') t) in
             if \<exists>v \<in> set octets. v < 0 \<or> 255 < v then None
             else ipv6_groups_of (take (length a1 - length t) a1 @ tail_groups octets))"

definition isPublicIpv6 :: "string \<Rightarrow> bool" where
  "isPublicIpv6 address =
     (let normalized = to_lower (strip_brackets address);
          mapped = drop (length ''::ffff:'') normalized
      in if starts_with normalized ''::ffff:'' \<and> CHR ''.'' \<in> set mapped then isPublicIpv4 mapped
         else case parseIpv6Groups normalized of
           Some (g0 # g1 # gs) \<Rightarrow> 8192 \<le> g0 \<and> g0 \<le> 16383 \<and> \<not> (g0 = 8193 \<and> g1 = 3512)
         | _ \<Rightarrow> False)"

text \<open>The library routine \<open>isIP\<close>: dotted decimal without leading zeros is 4; the text forms of RFC 4291,
  with an optional zone, are 6; everything else is 0.\<close>

definition strict_octet :: "string \<Rightarrow> bool" where
  "strict_octet s \<longleftrightarrow> all_digits s \<and> length s \<le> 3 \<and> digits_value 0 s \<le> 255 \<and> (hd s = CHR ''0'' \<longrightarrow> s = ''0'')"

definition is_ipv4 :: "string \<Rightarrow> bool" where
  "is_ipv4 s \<longleftrightarrow> (let parts = split_on (CHR ''.'') s in length parts = 4 \<and> list_all strict_octet parts)"

definition is_zone_char :: "char \<Rightarrow> bool" where
  "is_zone_char c = (let n = (of_char c :: nat) in (48 \<le> n \<and> n \<le> 57) \<or> (65 \<le> n \<and> n \<le> 90) \<or> (97 \<le> n \<and> n \<le> 122)
     \<or> c \<in> set ''-.:'')"

definition is_ipv6 :: "string \<Rightarrow> bool" where
  "is_ipv6 s \<longleftrightarrow>
     (case split_on (CHR ''%'') s of
        [a] \<Rightarrow> CHR '':'' \<in> set a \<and> parseIpv6Groups a \<noteq> None \<and> hd a \<noteq> CHR ''[''
          \<and> (case ipv4_tail (to_lower a) of None \<Rightarrow> True | Some t \<Rightarrow> is_ipv4 t)
      | [a, z] \<Rightarrow> CHR '':'' \<in> set a \<and> parseIpv6Groups a \<noteq> None \<and> hd a \<noteq> CHR ''[''
          \<and> (case ipv4_tail (to_lower a) of None \<Rightarrow> True | Some t \<Rightarrow> is_ipv4 t)
          \<and> z \<noteq> [] \<and> list_all is_zone_char z
      | _ \<Rightarrow> False)"

definition isIP :: "string \<Rightarrow> nat" where
  "isIP s = (if is_ipv4 s then 4 else if is_ipv6 s then 6 else 0)"

definition isPublicIpAddress :: "string \<Rightarrow> bool" where
  "isPublicIpAddress address =
     (let normalized = strip_brackets address in
      if isIP normalized = 4 then isPublicIpv4 normalized
      else if isIP normalized = 6 then isPublicIpv6 normalized
      else False)"

section \<open>Allowed navigations\<close>

record web_url =
  wu_protocol :: string
  wu_username :: string
  wu_password :: string
  wu_hostname :: string
  wu_port :: string
  wu_pathname :: string
  wu_search :: string
  wu_host :: string
  wu_origin :: string
  wu_href :: string

datatype fetch_error =
    InvalidUrl | SchemeNotAllowed | CredentialsInUrl | PortNotAllowed | LocalHostname | PrivateAddress
  | Unresolvable | ResolvesToPrivate | InvalidLocation | InvalidByteLimit | InvalidAttemptLimit
  | ConnectionFailed string | TooManyRedirects | RedirectsNotAllowed

definition url_host :: "web_url \<Rightarrow> string" where
  "url_host u = strip_dot (to_lower (strip_brackets (wu_hostname u)))"

definition assertSafeExternalNavigationUrl :: "web_url option \<Rightarrow> fetch_error + web_url" where
  "assertSafeExternalNavigationUrl parsed =
     (case parsed of
        None \<Rightarrow> Inl InvalidUrl
      | Some u \<Rightarrow>
          if wu_protocol u \<notin> set [''http:'', ''https:''] then Inl SchemeNotAllowed
          else if wu_username u \<noteq> [] \<or> wu_password u \<noteq> [] then Inl CredentialsInUrl
          else if wu_port u \<noteq> [] \<and> wu_port u \<notin> set [''80'', ''443''] then Inl PortNotAllowed
          else
            let h = url_host u in
            if h = [] \<or> h = ''localhost'' \<or> ends_with h ''.localhost'' \<or> ends_with h ''.local''
               \<or> ends_with h ''.internal'' \<or> ends_with h ''.lan'' then Inl LocalHostname
            else if isIP h \<noteq> 0 \<and> \<not> isPublicIpAddress h then Inl PrivateAddress
            else Inr u)"

record resolved_url =
  ru_url :: web_url
  ru_addresses :: "(string \<times> nat) list" \<comment> \<open>address and family\<close>

text \<open>\<open>lookup\<close> is the answer of the name service, \<open>None\<close> a failure of it.\<close>

definition resolveSafeExternalUrl ::
  "web_url option \<Rightarrow> (string \<Rightarrow> string list option) \<Rightarrow> fetch_error + resolved_url" where
  "resolveSafeExternalUrl parsed lookup =
     (case assertSafeExternalNavigationUrl parsed of
        Inl e \<Rightarrow> Inl e
      | Inr u \<Rightarrow>
          let h = url_host u in
          if isIP h \<noteq> 0 then Inr \<lparr>ru_url = u, ru_addresses = [(h, isIP h)]\<rparr>
          else case lookup h of
            None \<Rightarrow> Inl Unresolvable
          | Some results \<Rightarrow>
              let addresses = map (\<lambda>a. (strip_brackets a, isIP (strip_brackets a))) results in
              if addresses = [] \<or> (\<exists>(a, f) \<in> set addresses. f = 0 \<or> \<not> isPublicIpAddress a)
              then Inl ResolvesToPrivate
              else Inr \<lparr>ru_url = u, ru_addresses = addresses\<rparr>)"

definition assertSafeExternalUrl ::
  "web_url option \<Rightarrow> (string \<Rightarrow> string list option) \<Rightarrow> fetch_error + web_url" where
  "assertSafeExternalUrl parsed lookup =
     (case resolveSafeExternalUrl parsed lookup of Inl e \<Rightarrow> Inl e | Inr r \<Rightarrow> Inr (ru_url r))"

text \<open>The address of the fixed reader; only the path is taken from the target.\<close>

definition buildSafeJinaReaderUrl ::
  "web_url \<Rightarrow> web_url option \<Rightarrow> (string \<Rightarrow> string list option) \<Rightarrow> fetch_error + web_url" where
  "buildSafeJinaReaderUrl reader parsed lookup =
     (case assertSafeExternalUrl parsed lookup of
        Inl e \<Rightarrow> Inl e
      | Inr target \<Rightarrow> Inr (reader\<lparr>wu_pathname := ''/'' @ wu_href target\<rparr>))"

section \<open>Pinned requests\<close>

type_synonym headers = "(string \<times> string) list"

definition delete_header :: "string \<Rightarrow> headers \<Rightarrow> headers" where
  "delete_header k hs = filter (\<lambda>(n, v). n \<noteq> k) hs"

definition set_header :: "string \<Rightarrow> string \<Rightarrow> headers \<Rightarrow> headers" where
  "set_header k v hs = delete_header k hs @ [(k, v)]"

definition headersForPinnedRequest :: "web_url \<Rightarrow> headers \<Rightarrow> headers" where
  "headersForPinnedRequest u hs =
     delete_header ''transfer-encoding'' (delete_header ''connection''
       (set_header ''host'' (wu_host u) (set_header ''accept-encoding'' ''gzip, deflate, br'' hs)))"

datatype redirect_mode = Follow | Manual | ErrorMode

record request_init =
  in_method :: "string option"
  in_headers :: headers
  in_hasBody :: bool
  in_redirect :: redirect_mode

record pinned_options =
  po_protocol :: string
  po_hostname :: string
  po_family :: nat
  po_port :: string
  po_method :: string
  po_path :: string
  po_headers :: headers
  po_servername :: "string option"
  po_rejectUnauthorized :: bool

definition buildPinnedRequestOptions :: "web_url \<Rightarrow> string \<times> nat \<Rightarrow> request_init \<Rightarrow> pinned_options" where
  "buildPinnedRequestOptions u target init =
     (let hostname = strip_brackets (wu_hostname u);
          secure = (wu_protocol u = ''https:'' \<and> isIP hostname = 0)
      in \<lparr>po_protocol = wu_protocol u, po_hostname = fst target, po_family = snd target,
          po_port = (if wu_port u \<noteq> [] then wu_port u else if wu_protocol u = ''https:'' then ''443'' else ''80''),
          po_method = str_or (in_method init) ''GET'', po_path = wu_pathname u @ wu_search u,
          po_headers = headersForPinnedRequest u (in_headers init),
          po_servername = (if secure then Some hostname else None), po_rejectUnauthorized = secure\<rparr>)"

section \<open>The fetch\<close>

record attempt =
  at_url :: web_url
  at_address :: string
  at_family :: nat
  at_init :: request_init

record web_response =
  rs_status :: int
  rs_location :: "string option"
  rs_url :: string

definition REDIRECT_STATUSES :: "int list" where
  "REDIRECT_STATUSES = [301, 302, 303, 307, 308]"

definition MAX_RESPONSE_BYTES :: int where
  "MAX_RESPONSE_BYTES = 15 * 1024 * 1024"

type_synonym network = "attempt list \<Rightarrow> attempt \<Rightarrow> string + web_response"

text \<open>The validated addresses in turn, until one answers; an aborted signal ends the attempts.\<close>

fun try_addresses ::
  "network \<Rightarrow> (attempt list \<Rightarrow> bool) \<Rightarrow> web_url \<Rightarrow> request_init \<Rightarrow> (string \<times> nat) list \<Rightarrow> string \<Rightarrow> attempt list
    \<Rightarrow> attempt list \<times> (fetch_error + web_response)" where
  "try_addresses net aborted u init [] failure trace = (trace, Inl (ConnectionFailed failure))"
| "try_addresses net aborted u init ((a, f) # targets) failure trace =
     (let request = \<lparr>at_url = u, at_address = a, at_family = f, at_init = init\<rparr>; trace' = trace @ [request] in
      case net trace request of
        Inr response \<Rightarrow> (trace', Inr response)
      | Inl e \<Rightarrow>
          if aborted trace' then (trace', Inl (ConnectionFailed e))
          else try_addresses net aborted u init targets e trace')"

definition preserveResponseUrl :: "web_response \<Rightarrow> web_url \<Rightarrow> web_response" where
  "preserveResponseUrl r u = (if rs_url r \<noteq> [] then r else r\<lparr>rs_url := wu_href u\<rparr>)"

definition CREDENTIAL_HEADERS :: "string list" where
  "CREDENTIAL_HEADERS = [''authorization'', ''cookie'', ''proxy-authorization'']"

definition upper_text :: "string \<Rightarrow> string" where
  "upper_text s = map (\<lambda>c. let n = (of_char c :: nat) in if 97 \<le> n \<and> n \<le> 122 then char_of (n - 32) else c) s"

text \<open>What is sent after a redirect from one origin to another with a status.\<close>

definition redirected_init :: "string \<Rightarrow> string \<Rightarrow> int \<Rightarrow> request_init \<Rightarrow> request_init" where
  "redirected_init previousOrigin origin status init =
     (let headers = (if origin \<noteq> previousOrigin then fold delete_header CREDENTIAL_HEADERS (in_headers init)
            else in_headers init)
      in if status = 303 \<or> ((status = 301 \<or> status = 302) \<and> map_option upper_text (in_method init) = Some ''POST'')
         then init\<lparr>in_method := Some ''GET'', in_hasBody := False,
                in_headers := delete_header ''content-length'' (delete_header ''content-type'' headers), in_redirect := Manual\<rparr>
         else init\<lparr>in_headers := headers, in_redirect := Manual\<rparr>)"

record fetch_world =
  fw_join :: "string \<Rightarrow> web_url \<Rightarrow> web_url option"
  fw_dns :: "attempt list \<Rightarrow> string \<Rightarrow> string list option"
  fw_net :: network
  fw_aborted :: "attempt list \<Rightarrow> bool"

definition limited :: "nat option \<Rightarrow> 'a list \<Rightarrow> 'a list" where
  "limited n xs = (case n of None \<Rightarrow> xs | Some k \<Rightarrow> take k xs)"

text \<open>\<open>left\<close> counts the redirects that may still be followed.\<close>

fun fetch_hops ::
  "fetch_world \<Rightarrow> redirect_mode \<Rightarrow> nat option \<Rightarrow> bool \<Rightarrow> nat \<Rightarrow> resolved_url \<Rightarrow> request_init \<Rightarrow> attempt list
    \<Rightarrow> attempt list \<times> (fetch_error + web_response)" where
  "fetch_hops W mode attempts none_allowed left current init trace =
     (case try_addresses (fw_net W) (fw_aborted W) (ru_url current) init (limited attempts (ru_addresses current))
             ''Unable to connect to a validated external address'' trace of
        (trace', Inl e) \<Rightarrow> (trace', Inl e)
      | (trace', Inr response) \<Rightarrow>
          if rs_status response \<notin> set REDIRECT_STATUSES \<or> mode = Manual
          then (trace', Inr (preserveResponseUrl response (ru_url current)))
          else if mode = ErrorMode
          then (trace', Inl (if none_allowed then TooManyRedirects else RedirectsNotAllowed))
          else if \<not> truthy (rs_location response) then (trace', Inr response)
          else case left of
            0 \<Rightarrow> (trace', Inl TooManyRedirects)
          | Suc n \<Rightarrow>
              case fw_join W (the (rs_location response)) (ru_url current) of
                None \<Rightarrow> (trace', Inl InvalidLocation)
              | Some target \<Rightarrow>
                  case resolveSafeExternalUrl (Some target) (fw_dns W trace') of
                    Inl e \<Rightarrow> (trace', Inl e)
                  | Inr current' \<Rightarrow>
                      fetch_hops W mode attempts none_allowed n current'
                        (redirected_init (wu_origin (ru_url current)) (wu_origin (ru_url current'))
                          (rs_status response) init) trace')"

declare fetch_hops.simps [simp del]

definition safeExternalFetch ::
  "fetch_world \<Rightarrow> web_url option \<Rightarrow> request_init \<Rightarrow> nat \<Rightarrow> int option \<Rightarrow> int option
    \<Rightarrow> attempt list \<times> (fetch_error + web_response)" where
  "safeExternalFetch W input init maxRedirects maximumBytes maximumAddressAttempts =
     (let bytes = (case maximumBytes of None \<Rightarrow> MAX_RESPONSE_BYTES | Some b \<Rightarrow> b) in
      if bytes < 1 \<or> MAX_RESPONSE_BYTES < bytes then ([], Inl InvalidByteLimit)
      else if (case maximumAddressAttempts of None \<Rightarrow> False | Some n \<Rightarrow> n < 1) then ([], Inl InvalidAttemptLimit)
      else case resolveSafeExternalUrl input (fw_dns W []) of
        Inl e \<Rightarrow> ([], Inl e)
      | Inr current \<Rightarrow>
          fetch_hops W (in_redirect init) (map_option nat maximumAddressAttempts) (maxRedirects = 0) maxRedirects
            current (init\<lparr>in_redirect := Manual\<rparr>) [])"

section \<open>What a fetch may reach\<close>

text \<open>A connection is admissible when its address is public and its URL an allowed navigation.\<close>

definition admissible :: "attempt \<Rightarrow> bool" where
  "admissible a \<longleftrightarrow> isPublicIpAddress (at_address a)
     \<and> assertSafeExternalNavigationUrl (Some (at_url a)) = Inr (at_url a)"

definition carries_credentials :: "headers \<Rightarrow> bool" where
  "carries_credentials hs \<longleftrightarrow> (\<exists>(n, v) \<in> set hs. n \<in> set CREDENTIAL_HEADERS)"

lemma navigation_result:
  "assertSafeExternalNavigationUrl parsed = Inr u
    \<Longrightarrow> parsed = Some u \<and> assertSafeExternalNavigationUrl (Some u) = Inr u"
  by (auto simp: assertSafeExternalNavigationUrl_def Let_def split: option.splits if_splits)

lemma navigation_literal:
  "assertSafeExternalNavigationUrl (Some u) = Inr u \<Longrightarrow> isIP (url_host u) \<noteq> 0 \<Longrightarrow> isPublicIpAddress (url_host u)"
  by (auto simp: assertSafeExternalNavigationUrl_def Let_def split: if_splits)

lemma resolved_admissible:
  assumes "resolveSafeExternalUrl parsed lookup = Inr r"
  shows "assertSafeExternalNavigationUrl (Some (ru_url r)) = Inr (ru_url r)"
    and "(a, f) \<in> set (ru_addresses r) \<Longrightarrow> isPublicIpAddress a"
proof -
  obtain u where u: "assertSafeExternalNavigationUrl parsed = Inr u"
    using assms by (auto simp: resolveSafeExternalUrl_def split: sum.splits)
  note n = navigation_result [OF u]
  show "assertSafeExternalNavigationUrl (Some (ru_url r)) = Inr (ru_url r)"
    using assms u n by (auto simp: resolveSafeExternalUrl_def Let_def split: if_splits option.splits)
  assume "(a, f) \<in> set (ru_addresses r)"
  then show "isPublicIpAddress a"
    using assms u navigation_literal [of u] n
    by (auto simp: resolveSafeExternalUrl_def Let_def split: if_splits option.splits)
qed

lemma try_addresses_extends:
  assumes "try_addresses net aborted u init targets failure trace = (trace', result)"
  shows "\<exists>new. trace' = trace @ new \<and> length new \<le> length targets
    \<and> (\<forall>a \<in> set new. at_url a = u \<and> at_init a = init \<and> (at_address a, at_family a) \<in> set targets)"
  using assms
proof (induction targets arbitrary: failure trace)
  case (Cons t targets)
  obtain a f where t: "t = (a, f)" by (cases t)
  let ?r = "\<lparr>at_url = u, at_address = a, at_family = f, at_init = init\<rparr>"
  consider (stop) "trace' = trace @ [?r]"
    | (more) e where "try_addresses net aborted u init targets e (trace @ [?r]) = (trace', result)"
    using Cons.prems t by (auto simp: Let_def split: sum.splits if_splits)
  then show ?case
  proof cases
    case stop
    then show ?thesis using t by simp
  next
    case more
    from Cons.IH [OF this] obtain new where "trace' = (trace @ [?r]) @ new" "length new \<le> length targets"
      "\<forall>a \<in> set new. at_url a = u \<and> at_init a = init \<and> (at_address a, at_family a) \<in> set targets" by blast
    then show ?thesis using t by (intro exI [of _ "?r # new"]) auto
  qed
qed simp

text \<open>What every request of a fetch satisfies, given the origin it started from.\<close>

definition guarded :: "string \<Rightarrow> attempt \<Rightarrow> bool" where
  "guarded origin a \<longleftrightarrow> admissible a
     \<and> (wu_origin (at_url a) = origin \<or> \<not> carries_credentials (in_headers (at_init a)))"

definition hop_ok :: "string \<Rightarrow> resolved_url \<Rightarrow> request_init \<Rightarrow> bool" where
  "hop_ok origin current init \<longleftrightarrow>
     assertSafeExternalNavigationUrl (Some (ru_url current)) = Inr (ru_url current)
     \<and> (\<forall>(a, f) \<in> set (ru_addresses current). isPublicIpAddress a)
     \<and> (wu_origin (ru_url current) = origin \<or> \<not> carries_credentials (in_headers init))"

lemma hop_attempts:
  assumes "hop_ok origin current init"
    and "try_addresses net aborted (ru_url current) init (limited attempts (ru_addresses current)) failure trace
      = (trace', result)"
    and "\<forall>a \<in> set trace. guarded origin a"
  shows "\<forall>a \<in> set trace'. guarded origin a"
    and "attempts = Some n \<Longrightarrow> length trace' \<le> length trace + n"
proof -
  obtain new where new: "trace' = trace @ new" "length new \<le> length (limited attempts (ru_addresses current))"
    "\<forall>a \<in> set new. at_url a = ru_url current \<and> at_init a = init
      \<and> (at_address a, at_family a) \<in> set (limited attempts (ru_addresses current))"
    using try_addresses_extends [OF assms(2)] by blast
  have "set (limited attempts (ru_addresses current)) \<subseteq> set (ru_addresses current)"
    by (auto simp: limited_def dest: in_set_takeD split: option.splits)
  then have "\<forall>a \<in> set new. guarded origin a"
    using new(3) assms(1) unfolding guarded_def admissible_def hop_ok_def by force
  with assms(3) new(1) show "\<forall>a \<in> set trace'. guarded origin a" by auto
  show "attempts = Some n \<Longrightarrow> length trace' \<le> length trace + n"
    using new(1,2) by (simp add: limited_def)
qed

lemma dropped_headers: "carries_credentials (delete_header k hs) \<Longrightarrow> carries_credentials hs"
  by (auto simp: carries_credentials_def delete_header_def)

lemma dropped_credentials: "\<not> carries_credentials (fold delete_header CREDENTIAL_HEADERS hs)"
  by (auto simp: carries_credentials_def delete_header_def CREDENTIAL_HEADERS_def)

lemma redirected_headers:
  assumes "carries_credentials (in_headers (redirected_init previous current status init))"
  shows "carries_credentials (in_headers init)" and "current = previous"
proof -
  let ?h = "if current \<noteq> previous then fold delete_header CREDENTIAL_HEADERS (in_headers init) else in_headers init"
  have "in_headers (redirected_init previous current status init)
      \<in> {?h, delete_header ''content-length'' (delete_header ''content-type'' ?h)}"
    by (simp add: redirected_init_def Let_def)
  then have "carries_credentials ?h"
    using assms dropped_headers [of "''content-type''" ?h] dropped_headers [of "''content-length''"]
    by (metis (no_types) empty_iff insert_iff)
  then show "current = previous" "carries_credentials (in_headers init)"
    using dropped_credentials [of "in_headers init"] by (simp_all split: if_splits)
qed

lemma fetch_hops_guarded:
  assumes "hop_ok origin current init" and "\<forall>a \<in> set trace. guarded origin a"
    and "fetch_hops W mode attempts none_allowed left current init trace = (trace', result)"
  shows "(\<forall>a \<in> set trace'. guarded origin a)
    \<and> (\<forall>n. attempts = Some n \<longrightarrow> length trace' \<le> length trace + Suc left * n)"
  using assms
proof (induction left arbitrary: current init trace)
  case 0
  obtain t1 r1 where t1: "try_addresses (fw_net W) (fw_aborted W) (ru_url current) init
      (limited attempts (ru_addresses current)) ''Unable to connect to a validated external address'' trace = (t1, r1)"
    by (cases "try_addresses (fw_net W) (fw_aborted W) (ru_url current) init
      (limited attempts (ru_addresses current)) ''Unable to connect to a validated external address'' trace")
  then have "trace' = t1"
    using 0(3) by (subst (asm) fetch_hops.simps) (auto split: sum.splits if_splits)
  with hop_attempts [OF 0(1) t1 0(2)] show ?case by auto
next
  case (Suc left)
  obtain t1 r1 where t1: "try_addresses (fw_net W) (fw_aborted W) (ru_url current) init
      (limited attempts (ru_addresses current)) ''Unable to connect to a validated external address'' trace = (t1, r1)"
    by (cases "try_addresses (fw_net W) (fw_aborted W) (ru_url current) init
      (limited attempts (ru_addresses current)) ''Unable to connect to a validated external address'' trace")
  note h = hop_attempts [OF Suc.prems(1) t1 Suc.prems(2)]
  consider (stop) "trace' = t1"
    | (hop) response :: web_response and target current' where
        "resolveSafeExternalUrl (Some target) (fw_dns W t1) = Inr current'"
        "fetch_hops W mode attempts none_allowed left current'
          (redirected_init (wu_origin (ru_url current)) (wu_origin (ru_url current')) (rs_status response) init) t1
          = (trace', result)"
    using Suc.prems(3) t1
    by (subst (asm) (2) fetch_hops.simps, auto split: sum.splits if_splits option.splits)
  then show ?case
  proof cases
    case stop
    with h show ?thesis by (auto simp: add_increasing2)
  next
    case hop
    have "hop_ok origin current'
      (redirected_init (wu_origin (ru_url current)) (wu_origin (ru_url current')) (rs_status response) init)"
      using resolved_admissible [OF hop(1)] redirected_headers Suc.prems(1)
      unfolding hop_ok_def by (metis case_prodI2)
    from Suc.IH [OF this h(1) hop(2)] h(2) show ?thesis by fastforce
  qed
qed

section \<open>Properties\<close>

text \<open>C27. A guarded fetch ends and stays outside: whatever the name service, the redirects and the
  network answer, every connection it makes is to a public address under an allowed URL, no more
  than one per permitted hop and address attempt; and no request to an origin other than the first
  one carries the caller's credentials.\<close>

theorem fetch_stays_outside:
  assumes "safeExternalFetch W (Some u) init maxRedirects maximumBytes maximumAddressAttempts = (trace, result)"
  shows "(\<forall>a \<in> set trace. isPublicIpAddress (at_address a)
      \<and> assertSafeExternalNavigationUrl (Some (at_url a)) = Inr (at_url a)
      \<and> (wu_origin (at_url a) = wu_origin u \<or> \<not> carries_credentials (in_headers (at_init a))))
    \<and> (\<forall>n. maximumAddressAttempts = Some n \<longrightarrow> int (length trace) \<le> (1 + int maxRedirects) * max 1 n)"
proof (cases "trace = []")
  case True
  then show ?thesis by (auto intro: mult_nonneg_nonneg)
next
  case False
  then obtain current where current: "resolveSafeExternalUrl (Some u) (fw_dns W []) = Inr current"
    and hops: "fetch_hops W (in_redirect init) (map_option nat maximumAddressAttempts) (maxRedirects = 0) maxRedirects
      current (init\<lparr>in_redirect := Manual\<rparr>) [] = (trace, result)"
    and n: "maximumAddressAttempts = None \<or> (\<exists>n. maximumAddressAttempts = Some n \<and> 1 \<le> n)"
    using assms by (auto simp: safeExternalFetch_def Let_def split: if_splits sum.splits option.splits)
  have "ru_url current = u"
    using current navigation_result by (fastforce simp: resolveSafeExternalUrl_def Let_def
        split: sum.splits if_splits option.splits)
  then have "hop_ok (wu_origin u) current (init\<lparr>in_redirect := Manual\<rparr>)"
    using resolved_admissible [OF current] by (auto simp: hop_ok_def)
  from fetch_hops_guarded [OF this _ hops]
  have g: "\<forall>a \<in> set trace. guarded (wu_origin u) a"
    and l: "\<forall>n. map_option nat maximumAddressAttempts = Some n \<longrightarrow> length trace \<le> Suc maxRedirects * n" by auto
  have "int (length trace) \<le> (1 + int maxRedirects) * max 1 k" if k: "maximumAddressAttempts = Some k" for k
  proof -
    have "length trace \<le> Suc maxRedirects * nat k" using l k by simp
    then have "int (length trace) \<le> int (Suc maxRedirects * nat k)" by (simp only: of_nat_le_iff)
    also have "\<dots> = (1 + int maxRedirects) * max 1 k" using n k by (auto simp: algebra_simps)
    finally show ?thesis .
  qed
  with g show ?thesis by (auto simp: guarded_def admissible_def)
qed

definition sample_page :: web_url where
  "sample_page = \<lparr>wu_protocol = ''https:'', wu_username = [], wu_password = [], wu_hostname = ''jobs.example.com'',
     wu_port = [], wu_pathname = ''/1'', wu_search = [], wu_host = ''jobs.example.com'',
     wu_origin = ''https://jobs.example.com'', wu_href = ''https://jobs.example.com/1''\<rparr>"

definition sample_elsewhere :: web_url where
  "sample_elsewhere = sample_page\<lparr>wu_hostname := ''cdn.example.net'', wu_host := ''cdn.example.net'',
     wu_origin := ''https://cdn.example.net'', wu_href := ''https://cdn.example.net/1''\<rparr>"

text \<open>A world in which the page redirects once to another origin.\<close>

definition sample_world :: fetch_world where
  "sample_world = \<lparr>fw_join = (\<lambda>l b. Some sample_elsewhere), fw_dns = (\<lambda>t h. Some [''93.184.216.34'']),
     fw_net = (\<lambda>t a. Inr \<lparr>rs_status = (if t = [] then 302 else 200), rs_location = Some ''https://cdn.example.net/1'', rs_url = []\<rparr>),
     fw_aborted = (\<lambda>t. False)\<rparr>"

definition sample_init :: request_init where
  "sample_init = \<lparr>in_method = None, in_headers = [(''authorization'', ''secret'')], in_hasBody = False,
     in_redirect = Follow\<rparr>"

theorem fetch_stays_outside_witness:
  "\<exists>trace result. safeExternalFetch sample_world (Some sample_page) sample_init 5 None None = (trace, result)
     \<and> length trace = 2 \<and> \<not> carries_credentials (in_headers (at_init (last trace)))"
proof -
  obtain trace result where t: "safeExternalFetch sample_world (Some sample_page) sample_init 5 None None = (trace, result)"
    by (cases "safeExternalFetch sample_world (Some sample_page) sample_init 5 None None")
  have "length (fst (safeExternalFetch sample_world (Some sample_page) sample_init 5 None None)) = 2
    \<and> wu_origin (at_url (last (fst (safeExternalFetch sample_world (Some sample_page) sample_init 5 None None))))
      \<noteq> wu_origin sample_page"
    by code_simp
  with t have "length trace = 2" "wu_origin (at_url (last trace)) \<noteq> wu_origin sample_page" by simp_all
  moreover have "last trace \<in> set trace" using \<open>length trace = 2\<close> by (intro last_in_set) auto
  ultimately show ?thesis using fetch_stays_outside [OF t] t by blast
qed

end
