(* ===== verification/Company_Cooldown.thy ===== *)
theory Company_Cooldown
  imports Manual_Import
begin

text \<open>
  The employer cooldown (\<open>src/lib/companyCooldown.ts\<close>): while one job of an employer is an active
  application, its other jobs are kept out of the Inbox for three weeks from the decision. The
  same decision is made at three places: on admission of a job, when the user marks a job, and by
  the repair of the current Inbox rows.

  Parameters: \<open>alias_key\<close> and \<open>presentable\<close> are the name normalisation of
  \<open>src/lib/employerIdentity.ts\<close>; what the search for repeats of an applied job answers
  (\<open>src/lib/appliedDuplicateStore.ts\<close>) is part of the request.
\<close>

definition COMPANY_COOLDOWN_DAYS :: int where
  "COMPANY_COOLDOWN_DAYS = 21"

definition ACTIVE_APPLICATION_STATUSES :: "string list" where
  "ACTIVE_APPLICATION_STATUSES = [''applied'', ''interviewing'']"

record cooldown_job =
  cj_id :: string
  cj_company :: "string option"
  cj_employer :: "string option"
  cj_source :: "string option"
  cj_status :: string
  cj_updatedAt :: ms
  cj_history :: "(string \<times> ms) list" \<comment> \<open>newest first\<close>
  cj_cooldownUntil :: "ms option"

text \<open>The name normalisation of an employer: \<open>employerIdentityKey\<close>.\<close>

record employer_names =
  en_aliasKey :: "string \<Rightarrow> string"
  en_presentable :: "string option \<Rightarrow> string option \<Rightarrow> string"

definition cooldownCompanyKey ::
  "employer_names \<Rightarrow> string option \<Rightarrow> string option \<Rightarrow> string option \<Rightarrow> string" where
  "cooldownCompanyKey N employer company source =
     en_aliasKey N (str_or employer (en_presentable N company source))"

definition companyCooldownUntil :: "ms \<Rightarrow> ms" where
  "companyCooldownUntil decisionAt = decisionAt + COMPANY_COOLDOWN_DAYS * 24 * 60 * 60 * 1000"

text \<open>The first transition in the current run of active statuses.\<close>

fun decision_walk :: "ms option \<Rightarrow> (string \<times> ms) list \<Rightarrow> ms option" where
  "decision_walk decisionAt [] = decisionAt"
| "decision_walk decisionAt ((status, createdAt) # histories) =
     (if status \<in> set ACTIVE_APPLICATION_STATUSES then decision_walk (Some createdAt) histories
      else if decisionAt \<noteq> None then decisionAt
      else decision_walk None histories)"

definition activeApplicationDecisionAt :: "(string \<times> ms) list \<Rightarrow> ms \<Rightarrow> ms" where
  "activeApplicationDecisionAt histories fallback =
     (case decision_walk None histories of None \<Rightarrow> fallback | Some t \<Rightarrow> t)"

record authority =
  ca_id :: string
  ca_company :: string
  ca_decisionAt :: ms
  ca_cooldownUntil :: ms

definition authority_of :: "employer_names \<Rightarrow> ms \<Rightarrow> cooldown_job \<Rightarrow> authority option" where
  "authority_of N now job =
     (let company = cooldownCompanyKey N (cj_employer job) (cj_company job) None;
          decisionAt = activeApplicationDecisionAt (take 100 (cj_history job)) (cj_updatedAt job);
          until = companyCooldownUntil decisionAt
      in if company \<noteq> [] \<and> now < until
         then Some \<lparr>ca_id = cj_id job, ca_company = company, ca_decisionAt = decisionAt, ca_cooldownUntil = until\<rparr>
         else None)"

definition activeApplicationAuthorities ::
  "employer_names \<Rightarrow> ms \<Rightarrow> string option \<Rightarrow> cooldown_job list \<Rightarrow> authority list" where
  "activeApplicationAuthorities N now excludeJobId jobs =
     List.map_filter (authority_of N now)
       (filter (\<lambda>j. cj_status j \<in> set ACTIVE_APPLICATION_STATUSES
          \<and> \<not> (truthy excludeJobId \<and> Some (cj_id j) = excludeJobId)) jobs)"

definition later_authority :: "authority option \<Rightarrow> authority \<Rightarrow> authority option" where
  "later_authority latest a =
     (case latest of
        None \<Rightarrow> Some a
      | Some l \<Rightarrow> if ca_cooldownUntil l < ca_cooldownUntil a then Some a else Some l)"

definition latestAuthority :: "authority list \<Rightarrow> authority option" where
  "latestAuthority authorities = foldl later_authority None authorities"

section \<open>Admission\<close>

datatype admission_actor = Machine | User

text \<open>What the searches for repeats found: a repeat of an applied job with its reason (machine paths), an
  exact repost with its reason (the user's own actions), and the jobs of which the user said it is
  no repeat.\<close>

record admission_request =
  ar_jobId :: string
  ar_company :: "string option"
  ar_employer :: "string option"
  ar_source :: "string option"
  ar_proposedStatus :: string
  ar_now :: ms
  ar_actor :: admission_actor
  ar_repeat :: "(string \<times> string) option"
  ar_appliedDuplicate :: "(string \<times> string) option"
  ar_exceptions :: "string list"

record inbox_admission =
  ia_status :: string
  ia_cooldownUntil :: "ms option"
  ia_authorityJobId :: "string option"
  ia_authorityDecisionAt :: "ms option"
  ia_passReason :: "string option"

definition admitted :: "string \<Rightarrow> inbox_admission" where
  "admitted status = \<lparr>ia_status = status, ia_cooldownUntil = None, ia_authorityJobId = None,
     ia_authorityDecisionAt = None, ia_passReason = None\<rparr>"

definition repeat_found :: "admission_request \<Rightarrow> (string \<times> string) option" where
  "repeat_found i =
     (case ar_actor i of
        Machine \<Rightarrow> ar_repeat i
      | User \<Rightarrow> (case ar_appliedDuplicate i of
            None \<Rightarrow> None
          | Some (a, reason) \<Rightarrow> if a \<in> set (ar_exceptions i) then None else Some (a, reason)))"

definition resolveInboxAdmission ::
  "employer_names \<Rightarrow> cooldown_job list \<Rightarrow> admission_request \<Rightarrow> inbox_admission" where
  "resolveInboxAdmission N jobs i =
     (if ar_proposedStatus i \<noteq> ''inbox'' \<or> isManualImportSource (ar_source i)
      then admitted (ar_proposedStatus i)
      else case repeat_found i of
        Some (a, reason) \<Rightarrow> (admitted ''dismissed'')\<lparr>ia_authorityJobId := Some a, ia_passReason := Some reason\<rparr>
      | None \<Rightarrow>
          let company = cooldownCompanyKey N (ar_employer i) (ar_company i) (ar_source i) in
          if company = [] then admitted ''inbox''
          else case latestAuthority (filter (\<lambda>a. ca_company a = company)
                 (activeApplicationAuthorities N (ar_now i) (Some (ar_jobId i)) jobs)) of
            None \<Rightarrow> admitted ''inbox''
          | Some a \<Rightarrow> (admitted ''cooldown'')\<lparr>ia_cooldownUntil := Some (ca_cooldownUntil a),
                ia_authorityJobId := Some (ca_id a), ia_authorityDecisionAt := Some (ca_decisionAt a)\<rparr>)"

section \<open>Parking current Inbox rows\<close>

text \<open>A current Inbox row that the policy may change; a NULL source is not a manual import.\<close>

definition parkable :: "cooldown_job \<Rightarrow> bool" where
  "parkable j \<longleftrightarrow>
     selected (tv_all [sql_eq (Some (cj_status j)) ''inbox'', nonManualImportSourceWhere (cj_source j)])"

lemma parkable_iff: "parkable j \<longleftrightarrow> cj_status j = ''inbox'' \<and> \<not> isManualImportSource (cj_source j)"
  by (simp add: parkable_def selected_all selected_tests nonManualImport_exact)

definition park :: "ms \<Rightarrow> cooldown_job \<Rightarrow> cooldown_job" where
  "park until j = j\<lparr>cj_status := ''cooldown'', cj_cooldownUntil := Some until\<rparr>"

definition parkSameCompanyInboxJobs ::
  "employer_names \<Rightarrow> string \<Rightarrow> string option \<Rightarrow> string option \<Rightarrow> ms \<Rightarrow> ms \<Rightarrow> cooldown_job list
    \<Rightarrow> cooldown_job list \<times> string list" where
  "parkSameCompanyInboxJobs N authorityJobId company employer decisionAt now jobs =
     (let key = cooldownCompanyKey N employer company None;
          until = companyCooldownUntil decisionAt;
          P = (\<lambda>j. cj_id j \<noteq> authorityJobId \<and> parkable j
                 \<and> cooldownCompanyKey N (cj_employer j) (cj_company j) None = key)
      in if key = [] \<or> until \<le> now then (jobs, [])
         else (map (\<lambda>j. if P j then park until j else j) jobs, map cj_id (filter P jobs)))"

definition by_company :: "authority list \<Rightarrow> string \<Rightarrow> authority option" where
  "by_company authorities =
     foldl (\<lambda>m a. m(ca_company a := later_authority (m (ca_company a)) a)) Map.empty authorities"

text \<open>The employer's authority that parks a row, if any.\<close>

definition parking_authority ::
  "employer_names \<Rightarrow> (string \<Rightarrow> authority option) \<Rightarrow> cooldown_job \<Rightarrow> authority option" where
  "parking_authority N authorityByCompany j =
     (if \<not> parkable j then None
      else case authorityByCompany (cooldownCompanyKey N (cj_employer j) (cj_company j) None) of
        None \<Rightarrow> None
      | Some a \<Rightarrow> if ca_id a = cj_id j then None else Some a)"

definition reconcileCompanyCooldowns ::
  "employer_names \<Rightarrow> ms \<Rightarrow> cooldown_job list \<Rightarrow> cooldown_job list \<times> string list" where
  "reconcileCompanyCooldowns N now jobs =
     (let authorities = activeApplicationAuthorities N now None jobs;
          parking = parking_authority N (by_company authorities)
      in if authorities = [] then (jobs, [])
         else (map (\<lambda>j. case parking j of None \<Rightarrow> j | Some a \<Rightarrow> park (ca_cooldownUntil a) j) jobs,
               map cj_id (filter (\<lambda>j. parking j \<noteq> None) jobs)))"

section \<open>The three decisions agree\<close>

lemma by_company_latest: "by_company as k = latestAuthority (filter (\<lambda>a. ca_company a = k) as)"
proof (induction as rule: rev_induct)
  case Nil
  then show ?case by (simp add: by_company_def latestAuthority_def)
next
  case (snoc a as)
  then show ?case by (auto simp: by_company_def latestAuthority_def)
qed

lemma latest_in: "latestAuthority as = Some a \<Longrightarrow> a \<in> set as"
proof (induction as arbitrary: a rule: rev_induct)
  case (snoc b as)
  then show ?case
    by (auto simp: latestAuthority_def later_authority_def split: option.splits if_splits)
qed (simp add: latestAuthority_def)

lemma latest_eq_None: "latestAuthority as = None \<longleftrightarrow> as = []"
  by (induction as rule: rev_induct)
    (auto simp: latestAuthority_def later_authority_def split: option.splits)

lemma latest_is_latest: "latestAuthority as = Some a \<Longrightarrow> b \<in> set as \<Longrightarrow> ca_cooldownUntil b \<le> ca_cooldownUntil a"
proof (induction as arbitrary: a b rule: rev_induct)
  case (snoc c as)
  show ?case
  proof (cases "latestAuthority as")
    case None
    with snoc.prems show ?thesis by (auto simp: latest_eq_None) (auto simp: latestAuthority_def later_authority_def)
  next
    case (Some l)
    have a: "latestAuthority (as @ [c]) = later_authority (Some l) c"
      using Some by (simp add: latestAuthority_def)
    show ?thesis
      using snoc.IH [OF Some] snoc.prems a by (fastforce simp: later_authority_def split: if_splits)
  qed
qed simp

lemma authority_member:
  assumes "a \<in> set (activeApplicationAuthorities N now exclude jobs)"
  shows "\<exists>j \<in> set jobs. cj_status j \<in> set ACTIVE_APPLICATION_STATUSES \<and> authority_of N now j = Some a
    \<and> ca_id a = cj_id j \<and> ca_company a \<noteq> [] \<and> now < ca_cooldownUntil a"
proof -
  obtain j where "j \<in> set jobs" "cj_status j \<in> set ACTIVE_APPLICATION_STATUSES" "authority_of N now j = Some a"
    using assms by (auto simp: activeApplicationAuthorities_def map_filter_def)
  then show ?thesis by (intro bexI [of _ j]) (auto simp: authority_of_def Let_def split: if_splits)
qed

text \<open>A job that is not an active application itself excludes nothing by its identity.\<close>

lemma exclude_inactive:
  assumes "distinct (map cj_id jobs)" and "j \<in> set jobs" and "cj_status j \<notin> set ACTIVE_APPLICATION_STATUSES"
  shows "activeApplicationAuthorities N now (Some (cj_id j)) jobs = activeApplicationAuthorities N now None jobs"
proof -
  have "cj_id k \<noteq> cj_id j" if "k \<in> set jobs" "cj_status k \<in> set ACTIVE_APPLICATION_STATUSES" for k
    using assms that by (metis distinct_map inj_on_def)
  then have "filter (\<lambda>k. cj_status k \<in> set ACTIVE_APPLICATION_STATUSES
        \<and> \<not> (truthy (Some (cj_id j)) \<and> Some (cj_id k) = Some (cj_id j))) jobs
      = filter (\<lambda>k. cj_status k \<in> set ACTIVE_APPLICATION_STATUSES
        \<and> \<not> (truthy None \<and> Some (cj_id k) = None)) jobs"
    by (intro filter_cong) auto
  then show ?thesis by (simp add: activeApplicationAuthorities_def)
qed

lemma inbox_inactive: "cj_status j = ''inbox'' \<Longrightarrow> cj_status j \<notin> set ACTIVE_APPLICATION_STATUSES"
  by (simp add: ACTIVE_APPLICATION_STATUSES_def)

lemma parking_is_latest:
  assumes "distinct (map cj_id jobs)" and "j \<in> set jobs" and "parkable j"
  shows "parking_authority N (by_company (activeApplicationAuthorities N now None jobs)) j
    = latestAuthority (filter (\<lambda>a. ca_company a = cooldownCompanyKey N (cj_employer j) (cj_company j) None)
        (activeApplicationAuthorities N now None jobs))"
proof -
  have "ca_id a \<noteq> cj_id j" if m: "a \<in> set (activeApplicationAuthorities N now None jobs)" for a
  proof -
    obtain k where "k \<in> set jobs" "cj_status k \<in> set ACTIVE_APPLICATION_STATUSES" "ca_id a = cj_id k"
      using authority_member [OF m] by blast
    then show ?thesis
      using assms inbox_inactive [of j] unfolding parkable_iff by (metis distinct_map inj_on_def)
  qed
  then show ?thesis
    using assms(3) latest_in
    by (fastforce simp: parking_authority_def by_company_latest split: option.splits)
qed

text \<open>After the repair no row is left in the Inbox whose employer has an application in force.\<close>

lemma reconciled_inbox_is_free:
  assumes "distinct (map cj_id jobs)" and "j \<in> set (fst (reconcileCompanyCooldowns N now jobs))" and "parkable j"
    and "a \<in> set (activeApplicationAuthorities N now None jobs)"
  shows "ca_company a \<noteq> cooldownCompanyKey N (cj_employer j) (cj_company j) None"
proof
  assume eq: "ca_company a = cooldownCompanyKey N (cj_employer j) (cj_company j) None"
  let ?p = "parking_authority N (by_company (activeApplicationAuthorities N now None jobs))"
  have "activeApplicationAuthorities N now None jobs \<noteq> []" using assms(4) by auto
  then obtain k where k: "k \<in> set jobs" "j = (case ?p k of None \<Rightarrow> k | Some a \<Rightarrow> park (ca_cooldownUntil a) k)"
    using assms(2) by (auto simp: reconcileCompanyCooldowns_def Let_def)
  with assms(3) have "?p k = None" "j = k"
    by (auto simp: parkable_iff park_def split: option.splits)
  then have "latestAuthority (filter (\<lambda>a. ca_company a = cooldownCompanyKey N (cj_employer j) (cj_company j) None)
        (activeApplicationAuthorities N now None jobs)) = None"
    using parking_is_latest [OF assms(1) k(1)] assms(3) by simp
  with assms(4) eq show False by (auto simp: latest_eq_None filter_empty_conv)
qed

section \<open>Properties\<close>

text \<open>C28. Admission and repair agree: for a job of the Inbox that the policy may change, whose canonical
  employer is resolved and that repeats no application, the repair of the Inbox leaves the job in
  exactly the status, and until exactly the instant, that its admission at the same time would
  have given it.\<close>

theorem admission_agrees_with_repair:
  assumes "distinct (map cj_id jobs)" and "j \<in> set jobs" and "parkable j" and "truthy (cj_employer j)"
    and "ar_jobId i = cj_id j" and "ar_employer i = cj_employer j" and "ar_source i = cj_source j"
    and "ar_proposedStatus i = ''inbox''" and "repeat_found i = None"
    and "k \<in> set (fst (reconcileCompanyCooldowns N (ar_now i) jobs))" and "cj_id k = cj_id j"
  shows "cj_status k = ia_status (resolveInboxAdmission N jobs i)
    \<and> (cj_status k = ''cooldown'' \<longrightarrow> cj_cooldownUntil k = ia_cooldownUntil (resolveInboxAdmission N jobs i))"
proof -
  let ?as = "activeApplicationAuthorities N (ar_now i) None jobs"
  let ?key = "cooldownCompanyKey N (cj_employer j) (cj_company j) None"
  let ?latest = "latestAuthority (filter (\<lambda>a. ca_company a = ?key) ?as)"
  let ?p = "parking_authority N (by_company ?as)"
  have key: "cooldownCompanyKey N (ar_employer i) (ar_company i) (ar_source i) = ?key"
    using assms(4,6) by (simp add: cooldownCompanyKey_def str_or_def truthy_def split: option.splits)
  have inbox: "cj_status j = ''inbox''" "\<not> isManualImportSource (ar_source i)"
    using assms(3,7) by (auto simp: parkable_iff isManualImportSource_def)
  have none: "?latest = None" if "?key = []"
    using that authority_member [of _ N "ar_now i" None jobs] by (fastforce simp: latest_eq_None filter_empty_conv)
  have admission: "resolveInboxAdmission N jobs i = (case ?latest of None \<Rightarrow> admitted ''inbox''
      | Some a \<Rightarrow> (admitted ''cooldown'')\<lparr>ia_cooldownUntil := Some (ca_cooldownUntil a),
          ia_authorityJobId := Some (ca_id a), ia_authorityDecisionAt := Some (ca_decisionAt a)\<rparr>)"
    using assms(5,8,9) inbox none exclude_inactive [OF assms(1,2) inbox_inactive [OF inbox(1)], of N "ar_now i"]
    by (simp add: resolveInboxAdmission_def key Let_def)
  have "k = (case ?latest of None \<Rightarrow> j | Some a \<Rightarrow> park (ca_cooldownUntil a) j)"
  proof (cases "?as = []")
    case True
    then have "k \<in> set jobs" using assms(10) by (simp add: reconcileCompanyCooldowns_def)
    then have "k = j" using assms(1,2,11) by (metis distinct_map inj_on_def)
    with True show ?thesis by (simp add: latestAuthority_def)
  next
    case False
    then obtain l where l: "l \<in> set jobs" "k = (case ?p l of None \<Rightarrow> l | Some a \<Rightarrow> park (ca_cooldownUntil a) l)"
      using assms(10) by (auto simp: reconcileCompanyCooldowns_def Let_def)
    then have "cj_id l = cj_id j" using assms(11) by (auto simp: park_def split: option.splits)
    then have "l = j" using assms(1,2) l(1) by (metis distinct_map inj_on_def)
    with l(2) show ?thesis using parking_is_latest [OF assms(1-3)] by (simp only:)
  qed
  with admission inbox(1) show ?thesis
    by (auto simp: admitted_def park_def split: option.splits)
qed

definition sample_names :: employer_names where
  "sample_names = \<lparr>en_aliasKey = to_lower, en_presentable = (\<lambda>c s. str_or c [])\<rparr>"

definition sample_applied :: cooldown_job where
  "sample_applied = \<lparr>cj_id = ''a'', cj_company = None, cj_employer = Some ''Acme'', cj_source = None,
     cj_status = ''applied'', cj_updatedAt = 5, cj_history = [(''applied'', 4), (''inbox'', 2)], cj_cooldownUntil = None\<rparr>"

definition sample_inbox :: cooldown_job where
  "sample_inbox = sample_applied\<lparr>cj_id := ''b'', cj_status := ''inbox'', cj_history := []\<rparr>"

definition sample_admission :: admission_request where
  "sample_admission = \<lparr>ar_jobId = ''b'', ar_company = None, ar_employer = Some ''Acme'', ar_source = None,
     ar_proposedStatus = ''inbox'', ar_now = 10, ar_actor = Machine, ar_repeat = None,
     ar_appliedDuplicate = None, ar_exceptions = []\<rparr>"

theorem admission_agrees_with_repair_witness:
  "cj_status (park (companyCooldownUntil 4) sample_inbox)
     = ia_status (resolveInboxAdmission sample_names [sample_applied, sample_inbox] sample_admission)"
proof -
  have "fst (reconcileCompanyCooldowns sample_names 10 [sample_applied, sample_inbox])
      = [sample_applied, park (companyCooldownUntil 4) sample_inbox]"
    by code_simp
  then have k: "park (companyCooldownUntil 4) sample_inbox
      \<in> set (fst (reconcileCompanyCooldowns sample_names (ar_now sample_admission) [sample_applied, sample_inbox]))"
    by (simp add: sample_admission_def)
  show ?thesis
    by (rule admission_agrees_with_repair
          [where j = sample_inbox and i = sample_admission, OF _ _ _ _ _ _ _ _ _ k, THEN conjunct1])
      (simp_all add: sample_applied_def sample_inbox_def sample_admission_def parkable_iff isManualImportSource_def truthy_def
        MANUAL_IMPORT_SOURCE_def repeat_found_def park_def)
qed

end
