(* ===== verification/Compaction.thy ===== *)
theory Compaction
  imports Canonical_Json
begin

text \<open>
  Compaction of a board listing before it is queued (\<open>src/lib/atsPrequeueCompaction.ts\<close>): jobs that
  are already observed on the same board and that rediscovery cannot change are left out, and a
  marker in the metadata of the batch accounts for them. The marker is read back, and checked,
  before the batch is processed.

  Parameters: the digest \<open>sha\<close>, the number printer \<open>num\<close> and \<open>date_of\<close>, \<open>Date.parse\<close> where it is finite.
\<close>

definition COMPACTION_KEY :: string where
  "COMPACTION_KEY = ''__careerDashboardAtsPrequeueCompaction''"

definition COMPACTION_VERSION :: rat where
  "COMPACTION_VERSION = 1"

definition REDISCOVERY_MUTABLE_STATUSES :: "string list" where
  "REDISCOVERY_MUTABLE_STATUSES = [''pending_af'', ''inbox'']"

record compacted_receipt =
  cr_sourceId :: string
  cr_jobId :: string
  cr_jobStatus :: string
  cr_jobUpdatedAt :: string
  cr_originalItemIndex :: nat

record compaction_marker =
  cm_platform :: string
  cm_boardSlug :: string
  cm_fetchedJobCount :: nat
  cm_queuedJobCount :: nat
  cm_prequeueExactDuplicateCount :: nat
  cm_retainedExactObservationCount :: nat
  cm_missingIdentityCount :: nat
  cm_compactedItems :: "compacted_receipt list"
  cm_compactedIdentityHash :: string

record observed_state =
  os_sourceId :: string
  os_jobId :: string
  os_jobStatus :: "string option"
  os_jobUpdatedAt :: string
  os_boardSlug :: "string option"

section \<open>The identity of a listed job\<close>

text \<open>\<open>String(v)\<close> and truthiness of a parsed value.\<close>

fun text_of_json :: "(rat \<Rightarrow> string) \<Rightarrow> json \<Rightarrow> string"
  and text_of_items :: "(rat \<Rightarrow> string) \<Rightarrow> json list \<Rightarrow> string" where
  "text_of_json num JNull = ''null''"
| "text_of_json num (JBool b) = (if b then ''true'' else ''false'')"
| "text_of_json num (JNum n) = num n"
| "text_of_json num (JStr s) = s"
| "text_of_json num (JArr xs) = text_of_items num xs"
| "text_of_json num (JObj kvs) = ''[object Object]''"
| "text_of_items num [] = []"
| "text_of_items num [x] = (if x = JNull then [] else text_of_json num x)"
| "text_of_items num (x # y # ys) = (if x = JNull then [] else text_of_json num x) @ '','' @ text_of_items num (y # ys)"

fun json_truthy :: "json option \<Rightarrow> bool" where
  "json_truthy (Some (JBool b)) = b"
| "json_truthy (Some (JNum n)) = (n \<noteq> 0)"
| "json_truthy (Some (JStr s)) = (s \<noteq> [])"
| "json_truthy (Some JNull) = False"
| "json_truthy None = False"
| "json_truthy (Some v) = True"

definition json_or :: "json option \<Rightarrow> json option \<Rightarrow> json option" where
  "json_or a b = (if json_truthy a then a else b)"

definition nonblank :: "string \<Rightarrow> bool" where
  "nonblank s \<longleftrightarrow> trim s \<noteq> []"

text \<open>\<open>job\<close> is the listed object, as the members it has.\<close>

definition atsListingSourceId :: "(rat \<Rightarrow> string) \<Rightarrow> string \<Rightarrow> (string \<times> json) list \<Rightarrow> string option" where
  "atsListingSourceId num platform job =
     (let text = map_option (text_of_json num);
          id0 = (case map_of job ''id'' of None \<Rightarrow> None | Some JNull \<Rightarrow> None | Some v \<Rightarrow> Some (text_of_json num v));
          id1 = (if platform = ''workday'' \<and> json_truthy (map_of job ''externalPath'')
                 then text (map_of job ''externalPath'') else id0);
          id2 = (if platform = ''workable''
                 then text (json_or (map_of job ''id'') (json_or (map_of job ''shortcode'')
                        (json_or (map_of job ''code'') (Some (JStr [])))))
                 else id1);
          id3 = (if platform = ''rippling'' \<and> json_truthy (map_of job ''uuid'') then text (map_of job ''uuid'') else id2)
      in case id3 of None \<Rightarrow> None | Some s \<Rightarrow> if s \<noteq> [] \<and> nonblank s then Some s else None)"

definition canCompactExactAtsObservation :: "string option \<Rightarrow> bool" where
  "canCompactExactAtsObservation jobStatus =
     (truthy jobStatus \<and> the jobStatus \<notin> set REDISCOVERY_MUTABLE_STATUSES)"

section \<open>The plan\<close>

definition compactedIdentityHash ::
  "(string \<Rightarrow> string) \<Rightarrow> (rat \<Rightarrow> string) \<Rightarrow> string \<Rightarrow> string \<Rightarrow> compacted_receipt list \<Rightarrow> string" where
  "compactedIdentityHash sha num platform boardSlug items =
     (let canonicalItems = map (\<lambda>r. JArr [JNum (of_nat (cr_originalItemIndex r)), JStr (cr_sourceId r),
              JStr (cr_jobId r), JStr (cr_jobStatus r), JStr (cr_jobUpdatedAt r)])
            (js_sort (key_cmp (\<lambda>r. int (cr_originalItemIndex r)) num_cmp) items)
      in sha (plain num (JObj [(''platform'', JStr platform), (''boardSlug'', JStr boardSlug),
           (''items'', JArr canonicalItems)])))"

record compaction_state =
  cs_retained :: "(string \<times> json) list list"
  cs_items :: "compacted_receipt list"
  cs_retainedExact :: nat
  cs_missing :: nat

definition compact_job ::
  "(rat \<Rightarrow> string) \<Rightarrow> string \<Rightarrow> (string \<Rightarrow> observed_state option) \<Rightarrow> nat \<times> (string \<times> json) list
    \<Rightarrow> compaction_state \<Rightarrow> compaction_state" where
  "compact_job num platform observed item st =
     (let (originalItemIndex, job) = item in
      case atsListingSourceId num platform job of
        None \<Rightarrow> st\<lparr>cs_missing := cs_missing st + 1, cs_retained := cs_retained st @ [job]\<rparr>
      | Some sourceId \<Rightarrow>
          (case observed sourceId of
             None \<Rightarrow> st\<lparr>cs_retained := cs_retained st @ [job]\<rparr>
           | Some observation \<Rightarrow>
               if \<not> canCompactExactAtsObservation (os_jobStatus observation)
               then st\<lparr>cs_retainedExact := cs_retainedExact st + 1, cs_retained := cs_retained st @ [job]\<rparr>
               else st\<lparr>cs_items := cs_items st @ [\<lparr>cr_sourceId = sourceId, cr_jobId = os_jobId observation,
                      cr_jobStatus = the (os_jobStatus observation), cr_jobUpdatedAt = os_jobUpdatedAt observation,
                      cr_originalItemIndex = originalItemIndex\<rparr>]\<rparr>))"

definition observed_states :: "string \<Rightarrow> observed_state list \<Rightarrow> string \<Rightarrow> observed_state option" where
  "observed_states boardSlug observations =
     map_of_last (map (\<lambda>ob. (os_sourceId ob, ob)) (filter (\<lambda>ob. os_boardSlug ob = Some boardSlug) observations))"

definition compacted ::
  "(rat \<Rightarrow> string) \<Rightarrow> string \<Rightarrow> string \<Rightarrow> (string \<times> json) list list \<Rightarrow> observed_state list \<Rightarrow> compaction_state" where
  "compacted num platform boardSlug jobs observations =
     fold (compact_job num platform (observed_states boardSlug observations)) (List.enumerate 0 jobs)
       \<lparr>cs_retained = [], cs_items = [], cs_retainedExact = 0, cs_missing = 0\<rparr>"

definition planAtsPrequeueCompaction ::
  "(string \<Rightarrow> string) \<Rightarrow> (rat \<Rightarrow> string) \<Rightarrow> string \<Rightarrow> string \<Rightarrow> (string \<times> json) list list \<Rightarrow> observed_state list
    \<Rightarrow> (string \<times> json) list list \<times> compaction_marker" where
  "planAtsPrequeueCompaction sha num platform boardSlug jobs observations =
     (let st = compacted num platform boardSlug jobs observations in
      (cs_retained st,
       \<lparr>cm_platform = platform, cm_boardSlug = boardSlug, cm_fetchedJobCount = length jobs,
        cm_queuedJobCount = length (cs_retained st), cm_prequeueExactDuplicateCount = length (cs_items st),
        cm_retainedExactObservationCount = cs_retainedExact st, cm_missingIdentityCount = cs_missing st,
        cm_compactedItems = cs_items st,
        cm_compactedIdentityHash = compactedIdentityHash sha num platform boardSlug (cs_items st)\<rparr>))"

section \<open>The marker in the metadata\<close>

definition receipt_json :: "compacted_receipt \<Rightarrow> json" where
  "receipt_json r = JObj [(''sourceId'', JStr (cr_sourceId r)), (''jobId'', JStr (cr_jobId r)),
     (''jobStatus'', JStr (cr_jobStatus r)), (''jobUpdatedAt'', JStr (cr_jobUpdatedAt r)),
     (''originalItemIndex'', JNum (of_nat (cr_originalItemIndex r)))]"

text \<open>The marker as it is stored: the planned one with the instant of completion.\<close>

definition marker_json :: "compaction_marker \<Rightarrow> string \<Rightarrow> json" where
  "marker_json m completedAt = JObj [(''version'', JNum COMPACTION_VERSION), (''platform'', JStr (cm_platform m)),
     (''boardSlug'', JStr (cm_boardSlug m)), (''fetchedJobCount'', JNum (of_nat (cm_fetchedJobCount m))),
     (''queuedJobCount'', JNum (of_nat (cm_queuedJobCount m))),
     (''prequeueExactDuplicateCount'', JNum (of_nat (cm_prequeueExactDuplicateCount m))),
     (''retainedExactObservationCount'', JNum (of_nat (cm_retainedExactObservationCount m))),
     (''missingIdentityCount'', JNum (of_nat (cm_missingIdentityCount m))),
     (''compactedItems'', JArr (map receipt_json (cm_compactedItems m))),
     (''compactedIdentityHash'', JStr (cm_compactedIdentityHash m)), (''completedAt'', JStr completedAt)]"

definition natural_field :: "json \<Rightarrow> string \<Rightarrow> nat option" where
  "natural_field v k = (case json_field (Some v) k of
     Some (JNum n) \<Rightarrow> if of_int \<lfloor>n\<rfloor> = n \<and> 0 \<le> n then Some (nat \<lfloor>n\<rfloor>) else None | _ \<Rightarrow> None)"

definition text_field :: "json \<Rightarrow> string \<Rightarrow> string option" where
  "text_field v k = (case json_field (Some v) k of Some (JStr s) \<Rightarrow> Some s | _ \<Rightarrow> None)"

definition nonblank_field :: "json \<Rightarrow> string \<Rightarrow> string option" where
  "nonblank_field v k = (case text_field v k of Some s \<Rightarrow> if nonblank s then Some s else None | None \<Rightarrow> None)"

definition read_receipt :: "(string \<Rightarrow> ms option) \<Rightarrow> json \<Rightarrow> compacted_receipt option" where
  "read_receipt date_of v =
     (case (nonblank_field v ''sourceId'', nonblank_field v ''jobId'', nonblank_field v ''jobStatus'',
            text_field v ''jobUpdatedAt'', natural_field v ''originalItemIndex'') of
        (Some s, Some j, Some st, Some u, Some i) \<Rightarrow>
          if date_of u \<noteq> None
          then Some \<lparr>cr_sourceId = s, cr_jobId = j, cr_jobStatus = st, cr_jobUpdatedAt = u, cr_originalItemIndex = i\<rparr>
          else None
      | _ \<Rightarrow> None)"

fun read_receipts :: "(string \<Rightarrow> ms option) \<Rightarrow> json list \<Rightarrow> compacted_receipt list option" where
  "read_receipts date_of [] = Some []"
| "read_receipts date_of (v # vs) =
     (case (read_receipt date_of v, read_receipts date_of vs) of
        (Some r, Some rs) \<Rightarrow> Some (r # rs) | _ \<Rightarrow> None)"

definition receipts_field :: "(string \<Rightarrow> ms option) \<Rightarrow> json \<Rightarrow> compacted_receipt list option" where
  "receipts_field date_of v =
     (case json_field (Some v) ''compactedItems'' of Some (JArr xs) \<Rightarrow> read_receipts date_of xs | _ \<Rightarrow> None)"

definition hex_digest :: "string \<Rightarrow> bool" where
  "hex_digest s \<longleftrightarrow> length s = 64 \<and> list_all (\<lambda>c. c \<in> set ''0123456789abcdef'') s"

text \<open>The shape of the marker, before its fields are checked against each other.\<close>

definition marker_shape :: "(string \<Rightarrow> ms option) \<Rightarrow> json \<Rightarrow> compaction_marker option" where
  "marker_shape date_of v =
     (if json_field (Some v) ''version'' = Some (JNum COMPACTION_VERSION)
         \<and> (case text_field v ''completedAt'' of None \<Rightarrow> False | Some t \<Rightarrow> date_of t \<noteq> None)
      then (case (nonblank_field v ''platform'', nonblank_field v ''boardSlug'', natural_field v ''fetchedJobCount'',
                  natural_field v ''queuedJobCount'', natural_field v ''prequeueExactDuplicateCount'',
                  natural_field v ''retainedExactObservationCount'') of
              (Some p, Some b, Some f, Some q, Some d, Some re) \<Rightarrow>
                (case (natural_field v ''missingIdentityCount'', receipts_field date_of v,
                       text_field v ''compactedIdentityHash'') of
                   (Some mi, Some rs, Some h) \<Rightarrow>
                     Some \<lparr>cm_platform = p, cm_boardSlug = b, cm_fetchedJobCount = f, cm_queuedJobCount = q,
                       cm_prequeueExactDuplicateCount = d, cm_retainedExactObservationCount = re,
                       cm_missingIdentityCount = mi, cm_compactedItems = rs, cm_compactedIdentityHash = h\<rparr>
                 | _ \<Rightarrow> None)
            | _ \<Rightarrow> None)
      else None)"

definition marker_consistent :: "(string \<Rightarrow> string) \<Rightarrow> (rat \<Rightarrow> string) \<Rightarrow> compaction_marker \<Rightarrow> bool" where
  "marker_consistent sha num m \<longleftrightarrow>
     hex_digest (cm_compactedIdentityHash m)
     \<and> cm_fetchedJobCount m = cm_queuedJobCount m + cm_prequeueExactDuplicateCount m
     \<and> cm_retainedExactObservationCount m + cm_missingIdentityCount m \<le> cm_queuedJobCount m
     \<and> cm_prequeueExactDuplicateCount m = length (cm_compactedItems m)
     \<and> list_all (\<lambda>r. canCompactExactAtsObservation (Some (cr_jobStatus r))) (cm_compactedItems m)
     \<and> list_all (\<lambda>r. cr_originalItemIndex r < cm_fetchedJobCount m) (cm_compactedItems m)
     \<and> distinct (map cr_originalItemIndex (cm_compactedItems m))
     \<and> cm_compactedIdentityHash m
         = compactedIdentityHash sha num (cm_platform m) (cm_boardSlug m) (cm_compactedItems m)"

datatype compaction_error = MetadataInvalid | CheckpointMismatch

definition readAtsPrequeueCompactionMarker ::
  "(string \<Rightarrow> string) \<Rightarrow> (rat \<Rightarrow> string) \<Rightarrow> (string \<Rightarrow> ms option) \<Rightarrow> (string \<times> json) list
    \<Rightarrow> compaction_error + compaction_marker option" where
  "readAtsPrequeueCompactionMarker sha num date_of metadata =
     (case map_of metadata COMPACTION_KEY of
        None \<Rightarrow> Inr None
      | Some v \<Rightarrow>
          (case marker_shape date_of v of
             None \<Rightarrow> Inl MetadataInvalid
           | Some m \<Rightarrow> if marker_consistent sha num m then Inr (Some m) else Inl MetadataInvalid))"

definition validateAtsPrequeueCompactionCheckpoint ::
  "compaction_marker \<Rightarrow> string \<Rightarrow> string \<Rightarrow> bool \<Rightarrow> nat \<Rightarrow> nat \<Rightarrow> compaction_error + unit" where
  "validateAtsPrequeueCompactionCheckpoint marker platform boardSlug listingComplete payloadJobCount storedJobCount =
     (if \<not> listingComplete \<or> cm_platform marker \<noteq> platform \<or> cm_boardSlug marker \<noteq> boardSlug
         \<or> cm_queuedJobCount marker \<noteq> payloadJobCount \<or> cm_queuedJobCount marker \<noteq> storedJobCount
      then Inl CheckpointMismatch else Inr ())"

text \<open>Whether anything of a batch has been processed: synchronised at, the offset, and the inserted,
  duplicate, filtered and erroneous items.\<close>

definition atsBatchHasProcessingProvenance :: "ms option \<Rightarrow> nat \<Rightarrow> nat list \<Rightarrow> bool" where
  "atsBatchHasProcessingProvenance synchronizedAt processingOffset counts \<longleftrightarrow>
     synchronizedAt \<noteq> None \<or> 0 < processingOffset \<or> list_ex (\<lambda>n. 0 < n) counts"

section \<open>What is written is read back\<close>

lemma receipt_reads_back:
  assumes "nonblank (cr_sourceId r)" and "nonblank (cr_jobId r)" and "nonblank (cr_jobStatus r)"
    and "date_of (cr_jobUpdatedAt r) \<noteq> None"
  shows "read_receipt date_of (receipt_json r) = Some r"
  using assms by (simp add: read_receipt_def receipt_json_def nonblank_field_def text_field_def natural_field_def)

lemma receipts_read_back:
  "(\<And>r. r \<in> set rs \<Longrightarrow> read_receipt date_of (receipt_json r) = Some r)
    \<Longrightarrow> read_receipts date_of (map receipt_json rs) = Some rs"
  by (induction rs) auto

lemma marker_reads_back:
  assumes "nonblank (cm_platform m)" and "nonblank (cm_boardSlug m)" and "date_of t \<noteq> None"
    and "read_receipts date_of (map receipt_json (cm_compactedItems m)) = Some (cm_compactedItems m)"
  shows "marker_shape date_of (marker_json m t) = Some m"
  using assms
  by (simp add: marker_shape_def marker_json_def receipts_field_def nonblank_field_def text_field_def natural_field_def)

text \<open>What the loop keeps true of its state after the jobs seen so far.\<close>

definition compaction_inv ::
  "(rat \<Rightarrow> string) \<Rightarrow> string \<Rightarrow> observed_state list \<Rightarrow> nat \<Rightarrow> compaction_state \<Rightarrow> bool" where
  "compaction_inv num boardSlug observations n st \<longleftrightarrow>
     length (cs_retained st) + length (cs_items st) = n
     \<and> cs_retainedExact st + cs_missing st \<le> length (cs_retained st)
     \<and> (\<forall>r \<in> set (cs_items st). cr_originalItemIndex r < n \<and> nonblank (cr_sourceId r)
          \<and> canCompactExactAtsObservation (Some (cr_jobStatus r))
          \<and> (\<exists>ob \<in> set observations. cr_jobId r = os_jobId ob \<and> os_jobStatus ob = Some (cr_jobStatus r)
               \<and> cr_jobUpdatedAt r = os_jobUpdatedAt ob))
     \<and> distinct (map cr_originalItemIndex (cs_items st))"

lemma listed_nonblank: "atsListingSourceId num platform job = Some s \<Longrightarrow> nonblank s"
  unfolding atsListingSourceId_def Let_def by (auto split: option.splits if_splits)

lemma observed_member: "observed_states boardSlug observations s = Some ob \<Longrightarrow> ob \<in> set observations"
  unfolding observed_states_def by (drule map_of_last_SomeD) auto

lemma compact_job_inv:
  assumes "compaction_inv num boardSlug observations n st"
  shows "compaction_inv num boardSlug observations (Suc n)
    (compact_job num platform (observed_states boardSlug observations) (n, job) st)"
proof -
  note defs = compact_job_def compaction_inv_def
  show ?thesis
  proof (cases "atsListingSourceId num platform job")
    case None
    with assms show ?thesis by (auto simp: defs less_Suc_eq)
  next
    case (Some s)
    note s = this
    show ?thesis
    proof (cases "observed_states boardSlug observations s")
      case None
      with s assms show ?thesis by (auto simp: defs less_Suc_eq)
    next
      case (Some ob)
      show ?thesis
      proof (cases "canCompactExactAtsObservation (os_jobStatus ob)")
        case False
        with s Some assms show ?thesis by (auto simp: defs less_Suc_eq)
      next
        case True
        then obtain t where "os_jobStatus ob = Some t"
          by (cases "os_jobStatus ob") (auto simp: canCompactExactAtsObservation_def truthy_def)
        with True s Some assms listed_nonblank [OF s] observed_member [OF Some] show ?thesis
          by (auto simp: defs less_Suc_eq)
      qed
    qed
  qed
qed

lemma compacted_inv:
  "compaction_inv num boardSlug observations (length jobs) (compacted num platform boardSlug jobs observations)"
proof -
  have main: "compaction_inv num boardSlug observations (n + length jobs)
      (fold (compact_job num platform (observed_states boardSlug observations)) (List.enumerate n jobs) st)"
    if "compaction_inv num boardSlug observations n st" for n st
    using that
  proof (induction jobs arbitrary: n st)
    case (Cons job jobs)
    from Cons.IH [OF compact_job_inv [OF Cons.prems]] show ?case by simp
  qed simp
  have "compaction_inv num boardSlug observations 0
      \<lparr>cs_retained = [], cs_items = [], cs_retainedExact = 0, cs_missing = 0\<rparr>"
    by (simp add: compaction_inv_def)
  from main [OF this] show ?thesis by (simp add: compacted_def)
qed

section \<open>Properties\<close>

text \<open>The receipt of a job at its place of the listing, if it is compacted.\<close>

definition receipt_of ::
  "(rat \<Rightarrow> string) \<Rightarrow> string \<Rightarrow> (string \<Rightarrow> observed_state option) \<Rightarrow> nat \<times> (string \<times> json) list
    \<Rightarrow> compacted_receipt option" where
  "receipt_of num platform observed x =
     (case atsListingSourceId num platform (snd x) of
        None \<Rightarrow> None
      | Some s \<Rightarrow> (case observed s of
          None \<Rightarrow> None
        | Some ob \<Rightarrow>
            if canCompactExactAtsObservation (os_jobStatus ob)
            then Some \<lparr>cr_sourceId = s, cr_jobId = os_jobId ob, cr_jobStatus = the (os_jobStatus ob),
                   cr_jobUpdatedAt = os_jobUpdatedAt ob, cr_originalItemIndex = fst x\<rparr>
            else None))"

lemma compact_job_receipt:
  "cs_retained (compact_job num platform observed x st)
     = cs_retained st @ (if receipt_of num platform observed x = None then [snd x] else [])"
  "cs_items (compact_job num platform observed x st)
     = cs_items st @ (case receipt_of num platform observed x of None \<Rightarrow> [] | Some r \<Rightarrow> [r])"
  by (cases x; simp add: compact_job_def receipt_of_def split: option.split)+

lemma compacted_jobs:
  "cs_retained (fold (compact_job num platform observed) xs st)
     = cs_retained st @ map snd (filter (\<lambda>x. receipt_of num platform observed x = None) xs)
   \<and> cs_items (fold (compact_job num platform observed) xs st)
     = cs_items st @ List.map_filter (receipt_of num platform observed) xs"
  by (induction xs arbitrary: st) (auto simp: compact_job_receipt List.map_filter_def split: option.split)

lemma receipt_index: "receipt_of num platform observed x = Some r \<Longrightarrow> cr_originalItemIndex r = fst x"
  by (auto simp: receipt_of_def split: option.splits if_splits)

text \<open>The jobs of a listing that the board has already observed as postings whose status rediscovery no
  longer changes.\<close>

definition settled_posting ::
  "(rat \<Rightarrow> string) \<Rightarrow> string \<Rightarrow> string \<Rightarrow> observed_state list \<Rightarrow> (string \<times> json) list \<Rightarrow> compacted_receipt \<Rightarrow> bool" where
  "settled_posting num platform boardSlug observations job r \<longleftrightarrow>
     atsListingSourceId num platform job = Some (cr_sourceId r)
     \<and> (\<exists>ob \<in> set observations. os_boardSlug ob = Some boardSlug \<and> os_sourceId ob = cr_sourceId r
          \<and> os_jobId ob = cr_jobId r \<and> os_jobUpdatedAt ob = cr_jobUpdatedAt r
          \<and> os_jobStatus ob = Some (cr_jobStatus r)
          \<and> cr_jobStatus r \<notin> {[], ''pending_af'', ''inbox''})"

lemma receipt_settled:
  assumes "receipt_of num platform (observed_states boardSlug observations) x = Some r"
  shows "settled_posting num platform boardSlug observations (snd x) r"
proof -
  obtain s ob where s: "atsListingSourceId num platform (snd x) = Some s"
    and ob: "observed_states boardSlug observations s = Some ob" and c: "canCompactExactAtsObservation (os_jobStatus ob)"
    and r: "cr_sourceId r = s" "cr_jobId r = os_jobId ob" "cr_jobStatus r = the (os_jobStatus ob)"
      "cr_jobUpdatedAt r = os_jobUpdatedAt ob"
    using assms by (auto simp: receipt_of_def split: option.splits if_splits)
  from ob have "ob \<in> set observations" "os_boardSlug ob = Some boardSlug" "os_sourceId ob = s"
    unfolding observed_states_def by (auto dest!: map_of_last_SomeD)
  moreover from c have "os_jobStatus ob = Some (cr_jobStatus r)" "cr_jobStatus r \<notin> {[], ''pending_af'', ''inbox''}"
    by (cases "os_jobStatus ob"; auto simp: r canCompactExactAtsObservation_def truthy_def REDISCOVERY_MUTABLE_STATUSES_def)+
  ultimately show ?thesis using s r by (auto simp: settled_posting_def)
qed

lemma compacted_exactly:
  fixes num platform boardSlug jobs observations
  defines "st \<equiv> compacted num platform boardSlug jobs observations"
  defines "indices \<equiv> map cr_originalItemIndex (cs_items st)"
  shows "cs_retained st = map snd (filter (\<lambda>x. fst x \<notin> set indices) (List.enumerate 0 jobs))"
    and "\<forall>r \<in> set (cs_items st). settled_posting num platform boardSlug observations (jobs ! cr_originalItemIndex r) r"
    and "i < length jobs \<Longrightarrow> i \<in> set indices \<longleftrightarrow>
      (\<exists>s ob. atsListingSourceId num platform (jobs ! i) = Some s
        \<and> observed_states boardSlug observations s = Some ob \<and> canCompactExactAtsObservation (os_jobStatus ob))"
proof -
  let ?receipt = "receipt_of num platform (observed_states boardSlug observations)"
  have items: "cs_items st = List.map_filter ?receipt (List.enumerate 0 jobs)"
    and kept: "cs_retained st = map snd (filter (\<lambda>x. ?receipt x = None) (List.enumerate 0 jobs))"
    unfolding st_def compacted_def by (simp_all add: compacted_jobs)
  have mem: "r \<in> set (cs_items st) \<longleftrightarrow> (\<exists>i < length jobs. ?receipt (i, jobs ! i) = Some r)" for r
    unfolding items by (force simp: List.map_filter_def in_set_enumerate_eq)
  have at_index: "?receipt x \<noteq> None \<longleftrightarrow> fst x \<in> set indices" if "x \<in> set (List.enumerate 0 jobs)" for x
  proof -
    from that have x: "x = (fst x, jobs ! fst x)" "fst x < length jobs" by (auto simp: in_set_enumerate_eq)
    show ?thesis
    proof
      assume "?receipt x \<noteq> None"
      then obtain r where "?receipt x = Some r" by blast
      with x mem receipt_index show "fst x \<in> set indices" unfolding indices_def
        by (metis image_eqI set_map)
    next
      assume "fst x \<in> set indices"
      then obtain r where "r \<in> set (cs_items st)" "fst x = cr_originalItemIndex r" unfolding indices_def by auto
      with x mem receipt_index show "?receipt x \<noteq> None" by (metis fst_conv option.distinct(1))
    qed
  qed
  show "cs_retained st = map snd (filter (\<lambda>x. fst x \<notin> set indices) (List.enumerate 0 jobs))"
    unfolding kept by (intro arg_cong [where f = "map snd"] filter_cong refl) (use at_index in blast)
  show "\<forall>r \<in> set (cs_items st). settled_posting num platform boardSlug observations (jobs ! cr_originalItemIndex r) r"
    using mem receipt_settled receipt_index by (metis fst_conv snd_conv)
  show "i \<in> set indices \<longleftrightarrow> (\<exists>s ob. atsListingSourceId num platform (jobs ! i) = Some s
        \<and> observed_states boardSlug observations s = Some ob \<and> canCompactExactAtsObservation (os_jobStatus ob))"
    if "i < length jobs"
    using at_index [of "(i, jobs ! i)"] that
    by (auto simp: in_set_enumerate_eq receipt_of_def split: option.splits if_splits)
qed

text \<open>C29. The account of a compaction is accepted and loses no job. The marker planned for a listing, stored
  with its instant of completion, is read back as exactly the planned marker, and its checkpoint validates
  against the queued jobs. The queued jobs are the jobs of the listing without the compacted ones, in
  order; a job is compacted exactly when it has an identifier the board's observations know with a status
  that rediscovery leaves alone, and its receipt, found under its place in the listing and no other, names that
  identifier and that observation. The rows the plan draws on have an identifier, a status and a date, the
  platform and the board have names, and the digest is hexadecimal.\<close>

theorem compaction_marker_round_trip:
  assumes "nonblank platform" and "nonblank boardSlug" and "date_of completedAt \<noteq> None"
    and "\<And>s. hex_digest (sha s)"
    and "\<And>ob. ob \<in> set observations \<Longrightarrow> nonblank (os_jobId ob) \<and> date_of (os_jobUpdatedAt ob) \<noteq> None
      \<and> (case os_jobStatus ob of None \<Rightarrow> True | Some t \<Rightarrow> nonblank t)"
    and "planAtsPrequeueCompaction sha num platform boardSlug jobs observations = (queued, marker)"
  shows "readAtsPrequeueCompactionMarker sha num date_of ((COMPACTION_KEY, marker_json marker completedAt) # metadata)
      = Inr (Some marker)
    \<and> validateAtsPrequeueCompactionCheckpoint marker platform boardSlug True (length queued) (length queued) = Inr ()
    \<and> length queued + length (cm_compactedItems marker) = length jobs
    \<and> (let places = map cr_originalItemIndex (cm_compactedItems marker) in
        distinct places
        \<and> queued = map snd (filter (\<lambda>x. fst x \<notin> set places) (List.enumerate 0 jobs))
        \<and> (\<forall>i < length jobs. i \<in> set places \<longleftrightarrow>
            (\<exists>s ob. atsListingSourceId num platform (jobs ! i) = Some s
              \<and> observed_states boardSlug observations s = Some ob
              \<and> canCompactExactAtsObservation (os_jobStatus ob))))
    \<and> (\<forall>r \<in> set (cm_compactedItems marker). cr_originalItemIndex r < length jobs
        \<and> settled_posting num platform boardSlug observations (jobs ! cr_originalItemIndex r) r)"
proof -
  let ?st = "compacted num platform boardSlug jobs observations"
  have m: "queued = cs_retained ?st" "cm_platform marker = platform" "cm_boardSlug marker = boardSlug"
    "cm_fetchedJobCount marker = length jobs" "cm_queuedJobCount marker = length (cs_retained ?st)"
    "cm_prequeueExactDuplicateCount marker = length (cs_items ?st)"
    "cm_retainedExactObservationCount marker = cs_retainedExact ?st" "cm_missingIdentityCount marker = cs_missing ?st"
    "cm_compactedItems marker = cs_items ?st"
    "cm_compactedIdentityHash marker = compactedIdentityHash sha num platform boardSlug (cs_items ?st)"
    using assms(6) by (auto simp: planAtsPrequeueCompaction_def Let_def)
  note inv = compacted_inv [of num boardSlug observations jobs platform, unfolded compaction_inv_def]
  have "read_receipt date_of (receipt_json r) = Some r" if r: "r \<in> set (cs_items ?st)" for r
  proof -
    obtain ob where "ob \<in> set observations" "cr_jobId r = os_jobId ob" "os_jobStatus ob = Some (cr_jobStatus r)"
      "cr_jobUpdatedAt r = os_jobUpdatedAt ob" and s: "nonblank (cr_sourceId r)"
      using inv r by blast
    with assms(5) [of ob] show ?thesis by (intro receipt_reads_back) auto
  qed
  then have "marker_shape date_of (marker_json marker completedAt) = Some marker"
    using assms(1-3) m by (intro marker_reads_back receipts_read_back) auto
  moreover have "hex_digest (compactedIdentityHash sha num platform boardSlug (cs_items ?st))"
    using assms(4) by (simp add: compactedIdentityHash_def Let_def)
  ultimately have "readAtsPrequeueCompactionMarker sha num date_of ((COMPACTION_KEY, marker_json marker completedAt) # metadata)
      = Inr (Some marker)"
    using inv by (auto simp: m readAtsPrequeueCompactionMarker_def marker_consistent_def list_all_iff)
  moreover have "validateAtsPrequeueCompactionCheckpoint marker platform boardSlug True (length queued) (length queued) = Inr ()"
    by (simp add: m validateAtsPrequeueCompactionCheckpoint_def)
  moreover note compacted_exactly [where num = num and platform = platform and boardSlug = boardSlug and jobs = jobs
      and observations = observations]
  ultimately show ?thesis using inv by (simp add: m Let_def)
qed

definition sample_observation :: observed_state where
  "sample_observation = \<lparr>os_sourceId = ''7'', os_jobId = ''j'', os_jobStatus = Some ''applied'',
     os_jobUpdatedAt = ''2026'', os_boardSlug = Some ''acme''\<rparr>"

theorem compaction_marker_round_trip_witness:
  "\<exists>queued marker. planAtsPrequeueCompaction (\<lambda>s. replicate 64 CHR ''a'') (\<lambda>n. ''n'') ''lever'' ''acme''
       [[(''id'', JStr ''7'')], [(''id'', JStr ''8'')]] [sample_observation] = (queued, marker)
     \<and> length (cm_compactedItems marker) = 1
     \<and> readAtsPrequeueCompactionMarker (\<lambda>s. replicate 64 CHR ''a'') (\<lambda>n. ''n'') (\<lambda>s. Some 0)
         [(COMPACTION_KEY, marker_json marker ''2026'')] = Inr (Some marker)"
proof -
  obtain queued marker where p: "planAtsPrequeueCompaction (\<lambda>s. replicate 64 CHR ''a'') (\<lambda>n. ''n'') ''lever'' ''acme''
      [[(''id'', JStr ''7'')], [(''id'', JStr ''8'')]] [sample_observation] = (queued, marker)"
    by (cases "planAtsPrequeueCompaction (\<lambda>s. replicate 64 CHR ''a'') (\<lambda>n. ''n'') ''lever'' ''acme''
      [[(''id'', JStr ''7'')], [(''id'', JStr ''8'')]] [sample_observation]")
  have "length (cm_compactedItems (snd (planAtsPrequeueCompaction (\<lambda>s. replicate 64 CHR ''a'') (\<lambda>n. ''n'') ''lever'' ''acme''
      [[(''id'', JStr ''7'')], [(''id'', JStr ''8'')]] [sample_observation]))) = 1"
    by code_simp
  with p have "length (cm_compactedItems marker) = 1" by simp
  moreover have "nonblank ''lever''" "nonblank ''acme''" "nonblank ''j''" "nonblank ''applied''"
    by code_simp+
  ultimately show ?thesis
    using compaction_marker_round_trip [OF _ _ _ _ _ p, where date_of = "\<lambda>s. Some 0" and metadata = "[]" and completedAt = "''2026''"]
    using p by (simp add: hex_digest_def list_all_iff sample_observation_def)
qed

end
