(* ===== verification/Lenient_Json.thy ===== *)
theory Lenient_Json
  imports Canonical_Json
begin

text \<open>
  Recovery of JSON that a provider wrote with raw control characters in its strings, or with
  trailing commas (\<open>src/lib/lenientJson.ts\<close>). \<open>json_parse\<close> stands for \<open>JSON.parse\<close>, \<open>None\<close> being a
  syntax error; \<open>plain num\<close> of theory \<open>Canonical_Json\<close> is \<open>JSON.stringify\<close>.
\<close>

section \<open>The repair\<close>

definition json_blank :: "char \<Rightarrow> bool" where
  "json_blank c \<longleftrightarrow> c \<in> {CHR '' '', CHR 0x09, CHR 0x0D, CHR 0x0A}"

text \<open>The first character after the blanks, in either direction.\<close>

definition next_token :: "string \<Rightarrow> char option" where
  "next_token s = (case dropWhile json_blank s of [] \<Rightarrow> None | c # cs \<Rightarrow> Some c)"

text \<open>A comma to drop: a closing delimiter follows, and a value precedes. \<open>before\<close> is what precedes,
  last character first.\<close>

definition trailing_comma :: "string \<Rightarrow> string \<Rightarrow> bool" where
  "trailing_comma before after \<longleftrightarrow>
     next_token after \<in> {Some (CHR ''}''), Some (CHR '']'')}
     \<and> (case next_token before of None \<Rightarrow> False | Some p \<Rightarrow> p \<notin> set ''{[:,'')"

fun repaired :: "bool \<Rightarrow> bool \<Rightarrow> bool \<Rightarrow> string \<Rightarrow> string \<Rightarrow> string" where
  "repaired allow inString escaped before [] = []"
| "repaired allow inString escaped before (c # cs) =
     (if escaped then c # repaired allow inString False (c # before) cs
      else if c = CHR 0x5C then c # repaired allow inString inString (c # before) cs
      else if c = CHR 0x22 then c # repaired allow (\<not> inString) False (c # before) cs
      else if allow \<and> \<not> inString \<and> c = CHR '','' \<and> trailing_comma before cs
      then repaired allow inString False (c # before) cs
      else (if inString \<and> c = CHR 0x0A then CHR 0x5C # ''n''
            else if inString \<and> c = CHR 0x0D then CHR 0x5C # ''r''
            else if inString \<and> c = CHR 0x09 then CHR 0x5C # ''t''
            else [c]) @ repaired allow inString False (c # before) cs)"

definition parseJsonWithRecovery :: "(string \<Rightarrow> json option) \<Rightarrow> string \<Rightarrow> bool \<Rightarrow> json" where
  "parseJsonWithRecovery json_parse raw allowTrailingCommas =
     (case json_parse (repaired allowTrailingCommas False False [] raw) of None \<Rightarrow> JNull | Some v \<Rightarrow> v)"

definition parseJsonWithControlCharacterRecovery :: "(string \<Rightarrow> json option) \<Rightarrow> string \<Rightarrow> json" where
  "parseJsonWithControlCharacterRecovery json_parse raw = parseJsonWithRecovery json_parse raw False"

definition parseJsonLdWithRecovery :: "(string \<Rightarrow> json option) \<Rightarrow> string \<Rightarrow> json" where
  "parseJsonLdWithRecovery json_parse raw = parseJsonWithRecovery json_parse raw True"

section \<open>The text of a provider\<close>

text \<open>A text whose strings are closed is a list of lexemes: blanks, words (numbers, \<open>true\<close>, \<open>false\<close>,
  \<open>null\<close>, and whatever else is no delimiter), strings, and delimiters. The body of a string is made of plain
  characters, possibly raw control characters, and of escaped ones.\<close>

datatype string_part = Plain char | Escape char

datatype lexeme = Blank char | Word string | Str "string_part list" | Mark char

definition DELIMITERS :: string where
  "DELIMITERS = '',:{}[]''"

primrec part_ok :: "string_part \<Rightarrow> bool" where
  "part_ok (Plain c) = (c \<noteq> CHR 0x22 \<and> c \<noteq> CHR 0x5C)"
| "part_ok (Escape c) = True"

primrec lexeme_ok :: "lexeme \<Rightarrow> bool" where
  "lexeme_ok (Blank c) = json_blank c"
| "lexeme_ok (Word w) = (w \<noteq> [] \<and> list_all (\<lambda>c. c \<notin> set DELIMITERS \<and> c \<noteq> CHR 0x22 \<and> \<not> json_blank c) w)"
| "lexeme_ok (Str ps) = list_all part_ok ps"
| "lexeme_ok (Mark c) = (c \<in> set DELIMITERS)"

primrec raw_part :: "string_part \<Rightarrow> string" where
  "raw_part (Plain c) = [c]"
| "raw_part (Escape c) = [CHR 0x5C, c]"

text \<open>The strict text of a part: a raw newline, carriage return or tab is written as its escape.\<close>

primrec strict_part :: "string_part \<Rightarrow> string" where
  "strict_part (Plain c) =
     (if c = CHR 0x0A then [CHR 0x5C, CHR ''n''] else if c = CHR 0x0D then [CHR 0x5C, CHR ''r'']
      else if c = CHR 0x09 then [CHR 0x5C, CHR ''t''] else [c])"
| "strict_part (Escape c) = [CHR 0x5C, c]"

primrec lexeme_text :: "(string_part \<Rightarrow> string) \<Rightarrow> lexeme \<Rightarrow> string" where
  "lexeme_text part (Blank c) = [c]"
| "lexeme_text part (Word w) = w"
| "lexeme_text part (Str ps) = [CHR 0x22] @ concat (map part ps) @ [CHR 0x22]"
| "lexeme_text part (Mark c) = [c]"

definition raw_text :: "lexeme list \<Rightarrow> string" where
  "raw_text ts = concat (map (lexeme_text raw_part) ts)"

definition strict_text :: "lexeme list \<Rightarrow> string" where
  "strict_text ts = concat (map (lexeme_text strict_part) ts)"

text \<open>The lexemes without the trailing commas: those before a closing delimiter that come after a value,
  blanks aside. \<open>prev\<close> is the last lexeme that is no blank.\<close>

primrec is_blank :: "lexeme \<Rightarrow> bool" where
  "is_blank (Blank c) = True"
| "is_blank (Word w) = False"
| "is_blank (Str ps) = False"
| "is_blank (Mark c) = False"

fun closes :: "lexeme list \<Rightarrow> bool" where
  "closes [] = False"
| "closes (x # xs) = (if is_blank x then closes xs else x = Mark (CHR ''}'') \<or> x = Mark (CHR '']''))"

definition ends_value :: "lexeme option \<Rightarrow> bool" where
  "ends_value prev = (case prev of None \<Rightarrow> False | Some (Mark c) \<Rightarrow> c \<notin> set ''{[:,'' | Some x \<Rightarrow> True)"

fun without_trailing :: "lexeme option \<Rightarrow> lexeme list \<Rightarrow> lexeme list" where
  "without_trailing prev [] = []"
| "without_trailing prev (x # xs) =
     (if x = Mark (CHR '','') \<and> closes xs \<and> ends_value prev then without_trailing (Some x) xs
      else x # without_trailing (if is_blank x then prev else Some x) xs)"

section \<open>What the repair does to it\<close>

lemma word_repaired:
  "list_all (\<lambda>c. c \<notin> set DELIMITERS \<and> c \<noteq> CHR 0x22 \<and> \<not> json_blank c) w \<Longrightarrow>
    repaired a False False before (w @ rest) = w @ repaired a False False (rev w @ before) rest"
  by (induction w arbitrary: before) (auto simp: DELIMITERS_def)

lemma parts_repaired:
  "list_all part_ok ps \<Longrightarrow>
    repaired a True False before (concat (map raw_part ps) @ rest)
      = concat (map strict_part ps) @ repaired a True False (rev (concat (map raw_part ps)) @ before) rest"
proof (induction ps arbitrary: before)
  case (Cons p ps)
  then show ?case by (cases p) auto
qed simp

lemma string_repaired:
  "list_all part_ok ps \<Longrightarrow>
    repaired a False False before (lexeme_text raw_part (Str ps) @ rest)
      = lexeme_text strict_part (Str ps) @ repaired a False False (rev (lexeme_text raw_part (Str ps)) @ before) rest"
  by (simp add: parts_repaired)

lemma next_closes:
  "list_all lexeme_ok ts \<Longrightarrow>
    next_token (raw_text ts) \<in> {Some (CHR ''}''), Some (CHR '']'')} \<longleftrightarrow> closes ts"
proof (induction ts)
  case (Cons x ts)
  then show ?case
  proof (cases x)
    case (Word w)
    with Cons.prems obtain c cs where w: "w = c # cs" "c \<notin> set DELIMITERS" "\<not> json_blank c" by (cases w) auto
    with Word show ?thesis by (auto simp: raw_text_def next_token_def DELIMITERS_def)
  qed (use Cons in \<open>auto simp: raw_text_def next_token_def DELIMITERS_def json_blank_def\<close>)
qed (simp add: raw_text_def next_token_def)

text \<open>The text read so far and the last lexeme agree on whether a value was completed.\<close>

definition agrees :: "lexeme option \<Rightarrow> string \<Rightarrow> bool" where
  "agrees prev before \<longleftrightarrow>
     (case next_token before of None \<Rightarrow> False | Some p \<Rightarrow> p \<notin> set ''{[:,'') = ends_value prev"

lemma agrees_step:
  assumes "agrees prev before" and "lexeme_ok x"
  shows "agrees (if is_blank x then prev else Some x) (rev (lexeme_text raw_part x) @ before)"
proof (cases x)
  case (Word w)
  with assms(2) have "rev w \<noteq> []" by simp
  then obtain c cs where w: "rev w = c # cs" by (cases "rev w") auto
  then have "c \<in> set (rev w)" by simp
  with Word assms(2) have "c \<notin> set DELIMITERS" "\<not> json_blank c" by (auto simp: list_all_iff)
  with Word w show ?thesis by (auto simp: agrees_def next_token_def ends_value_def DELIMITERS_def)
qed (use assms in \<open>auto simp: agrees_def next_token_def ends_value_def DELIMITERS_def json_blank_def\<close>)

lemma comma_test:
  assumes "agrees prev before" and "list_all lexeme_ok ts"
  shows "trailing_comma before (raw_text ts) \<longleftrightarrow> closes ts \<and> ends_value prev"
  using assms next_closes [OF assms(2)] unfolding trailing_comma_def agrees_def by simp

lemma mark_repaired:
  assumes "lexeme_ok (Mark c)"
  shows "repaired a False False before (c # rest) =
    (if a \<and> c = CHR '','' \<and> trailing_comma before rest then repaired a False False (c # before) rest
     else c # repaired a False False (c # before) rest)"
  using assms by (auto simp: DELIMITERS_def)

lemma raw_cons: "raw_text (x # ts) = lexeme_text raw_part x @ raw_text ts"
  by (simp add: raw_text_def)

lemma lexemes_repaired:
  "agrees prev before \<Longrightarrow> list_all lexeme_ok ts \<Longrightarrow>
    repaired a False False before (raw_text ts) = strict_text (if a then without_trailing prev ts else ts)"
proof (induction ts arbitrary: prev before)
  case (Cons x ts)
  let ?prev = "if is_blank x then prev else Some x" and ?before = "rev (lexeme_text raw_part x) @ before"
  have ok: "lexeme_ok x" "list_all lexeme_ok ts" using Cons.prems(2) by simp_all
  note IH = Cons.IH [OF agrees_step [OF Cons.prems(1) ok(1)] ok(2)]
  have kept: ?case if "repaired a False False before (raw_text (x # ts))
      = lexeme_text strict_part x @ repaired a False False ?before (raw_text ts)"
    and "\<not> (x = Mark (CHR '','') \<and> closes ts \<and> ends_value prev \<and> a)"
    using that IH by (auto simp: strict_text_def)
  show ?case
  proof (cases x)
    case (Blank c)
    with ok(1) have "repaired a False False before (c # raw_text ts) = c # repaired a False False (c # before) (raw_text ts)"
      by (auto simp: json_blank_def)
    with Blank show ?thesis by (intro kept) (simp_all add: raw_cons del: repaired.simps)
  next
    case (Word w)
    with ok(1) show ?thesis by (intro kept) (simp_all add: raw_cons word_repaired)
  next
    case (Str ps)
    with ok(1) string_repaired [of ps a before "raw_text ts"] show ?thesis
      by (intro kept) (simp_all add: raw_cons)
  next
    case (Mark c)
    note test = comma_test [OF Cons.prems(1) ok(2)]
    show ?thesis
    proof (cases "a \<and> c = CHR '','' \<and> closes ts \<and> ends_value prev")
      case True
      then have "repaired a False False before (raw_text (x # ts)) = repaired a False False ?before (raw_text ts)"
        using mark_repaired [of c a before "raw_text ts"] ok(1) test unfolding Mark by (simp add: raw_cons del: repaired.simps)
      with True IH Mark show ?thesis by simp
    next
      case False
      have "repaired a False False before (raw_text (x # ts)) = c # repaired a False False ?before (raw_text ts)"
        using mark_repaired [of c a before "raw_text ts"] ok(1) test False unfolding Mark by (auto simp: raw_cons simp del: repaired.simps)
      with False Mark show ?thesis by (intro kept) auto
    qed
  qed
qed (simp add: raw_text_def strict_text_def)

section \<open>Documents in any layout\<close>

text \<open>Blanks neither matter to the repair nor get lost in it.\<close>

lemma closes_blanks: "closes (filter (\<lambda>x. \<not> is_blank x) ts) = closes ts"
  by (induction ts) auto

lemma without_trailing_blanks:
  "filter (\<lambda>x. \<not> is_blank x) (without_trailing prev ts) = without_trailing prev (filter (\<lambda>x. \<not> is_blank x) ts)"
  "filter is_blank (without_trailing prev ts) = filter is_blank ts"
  by (induction prev ts rule: without_trailing.induct) (auto simp: closes_blanks)

text \<open>A value in lexemes: raw control characters in the strings and, on demand, a comma after the last entry
  of every array and object.\<close>

fun string_parts :: "string \<Rightarrow> string_part list" where
  "string_parts [] = []"
| "string_parts [c] = [Plain c]"
| "string_parts (c # d # cs) = (if c = CHR 0x5C then Escape d # string_parts cs else Plain c # string_parts (d # cs))"

definition provider_parts :: "string \<Rightarrow> string_part list" where
  "provider_parts s = concat (map (\<lambda>c. if c \<in> {CHR 0x0A, CHR 0x0D, CHR 0x09} then [Plain c] else string_parts (quote_char c)) s)"

definition final_comma :: "bool \<Rightarrow> lexeme list" where
  "final_comma trailing = (if trailing then [Mark (CHR '','')] else [])"

fun value_lexemes :: "bool \<Rightarrow> (rat \<Rightarrow> string) \<Rightarrow> json \<Rightarrow> lexeme list"
  and item_lexemes :: "bool \<Rightarrow> (rat \<Rightarrow> string) \<Rightarrow> json list \<Rightarrow> lexeme list"
  and member_lexemes :: "bool \<Rightarrow> (rat \<Rightarrow> string) \<Rightarrow> (string \<times> json) list \<Rightarrow> lexeme list" where
  "value_lexemes t num JNull = [Word ''null'']"
| "value_lexemes t num (JBool b) = [Word (if b then ''true'' else ''false'')]"
| "value_lexemes t num (JNum n) = [Word (num n)]"
| "value_lexemes t num (JStr s) = [Str (provider_parts s)]"
| "value_lexemes t num (JArr xs) = Mark (CHR ''['') # item_lexemes t num xs"
| "value_lexemes t num (JObj kvs) = Mark (CHR ''{'') # member_lexemes t num kvs"
| "item_lexemes t num [] = [Mark (CHR '']'')]"
| "item_lexemes t num [x] = value_lexemes t num x @ final_comma t @ [Mark (CHR '']'')]"
| "item_lexemes t num (x # y # ys) = value_lexemes t num x @ Mark (CHR '','') # item_lexemes t num (y # ys)"
| "member_lexemes t num [] = [Mark (CHR ''}'')]"
| "member_lexemes t num [(k, v)] =
     [Str (provider_parts k), Mark (CHR '':'')] @ value_lexemes t num v @ final_comma t @ [Mark (CHR ''}'')]"
| "member_lexemes t num (kv # kw # kvs) =
     [Str (provider_parts (fst kv)), Mark (CHR '':'')] @ value_lexemes t num (snd kv)
     @ Mark (CHR '','') # member_lexemes t num (kw # kvs)"

lemma value_opens: "\<not> closes (value_lexemes t num v @ rest)"
  by (cases v) auto

lemma items_open: "\<not> closes (item_lexemes t num (y # ys) @ rest)"
  by (cases ys) (simp_all add: value_opens)

lemma members_open: "\<not> closes (member_lexemes t num (kw # kvs) @ rest)"
  by (cases kvs; cases kw) auto

text \<open>Dropping the trailing commas of a value leaves its lexemes without them, and completes a value.\<close>

lemma closing_dropped:
  assumes "ends_value q" and "c = CHR '']'' \<or> c = CHR ''}''"
  shows "without_trailing q (final_comma t @ Mark c # rest) = Mark c # without_trailing (Some (Mark c)) rest"
  using assms by (auto simp: final_comma_def)

lemma value_without_trailing:
  shows "\<exists>q. ends_value q \<and> (\<forall>rest. without_trailing p (value_lexemes t num v @ rest)
      = value_lexemes False num v @ without_trailing q rest)"
    and "\<exists>q. ends_value q \<and> (\<forall>rest. without_trailing p (item_lexemes t num xs @ rest)
      = item_lexemes False num xs @ without_trailing q rest)"
    and "\<exists>q. ends_value q \<and> (\<forall>rest. without_trailing p (member_lexemes t num kvs @ rest)
      = member_lexemes False num kvs @ without_trailing q rest)"
proof (induction t num v and t num xs and t num kvs arbitrary: p and p and p
    rule: value_lexemes_item_lexemes_member_lexemes.induct)
  case (5 t num xs)
  show ?case using 5 [of "Some (Mark (CHR ''[''))"] by simp
next
  case (6 t num kvs)
  show ?case using 6 [of "Some (Mark (CHR ''{''))"] by simp
next
  case (8 t num x)
  obtain q where q: "ends_value q" "\<And>rest. without_trailing p (value_lexemes t num x @ rest)
      = value_lexemes False num x @ without_trailing q rest"
    using 8 [of p] by blast
  have "without_trailing p (item_lexemes t num [x] @ rest)
      = item_lexemes False num [x] @ without_trailing (Some (Mark (CHR '']''))) rest" for rest
    using q(2) [of "final_comma t @ Mark (CHR '']'') # rest"] closing_dropped [OF q(1), of "CHR '']''" t rest]
    by (simp add: final_comma_def)
  moreover have "ends_value (Some (Mark (CHR '']'')))" by (simp add: ends_value_def)
  ultimately show ?case by blast
next
  case (9 t num x y ys)
  obtain q where q: "ends_value q" "\<And>rest. without_trailing p (value_lexemes t num x @ rest)
      = value_lexemes False num x @ without_trailing q rest"
    using 9(1) [of p] by blast
  obtain r where r: "ends_value r" "\<And>rest. without_trailing (Some (Mark (CHR '',''))) (item_lexemes t num (y # ys) @ rest)
      = item_lexemes False num (y # ys) @ without_trailing r rest"
    using 9(2) [of "Some (Mark (CHR '',''))"] by blast
  have "without_trailing p (item_lexemes t num (x # y # ys) @ rest)
      = item_lexemes False num (x # y # ys) @ without_trailing r rest" for rest
    using q(2) [of "Mark (CHR '','') # item_lexemes t num (y # ys) @ rest"] r(2) items_open by simp
  with r(1) show ?case by blast
next
  case (11 t num k v)
  obtain q where q: "ends_value q" "\<And>rest. without_trailing (Some (Mark (CHR '':''))) (value_lexemes t num v @ rest)
      = value_lexemes False num v @ without_trailing q rest"
    using 11 [of "Some (Mark (CHR '':''))"] by blast
  have "without_trailing p (member_lexemes t num [(k, v)] @ rest)
      = member_lexemes False num [(k, v)] @ without_trailing (Some (Mark (CHR ''}''))) rest" for rest
    using q(2) [of "final_comma t @ Mark (CHR ''}'') # rest"] closing_dropped [OF q(1), of "CHR ''}''" t rest]
    by (simp add: final_comma_def)
  moreover have "ends_value (Some (Mark (CHR ''}'')))" by (simp add: ends_value_def)
  ultimately show ?case by blast
next
  case (12 t num kv kw kvs)
  obtain q where q: "ends_value q" "\<And>rest. without_trailing (Some (Mark (CHR '':''))) (value_lexemes t num (snd kv) @ rest)
      = value_lexemes False num (snd kv) @ without_trailing q rest"
    using 12(1) [of "Some (Mark (CHR '':''))"] by blast
  obtain r where r: "ends_value r" "\<And>rest. without_trailing (Some (Mark (CHR '',''))) (member_lexemes t num (kw # kvs) @ rest)
      = member_lexemes False num (kw # kvs) @ without_trailing r rest"
    using 12(2) [of "Some (Mark (CHR '',''))"] by blast
  have "without_trailing p (member_lexemes t num (kv # kw # kvs) @ rest)
      = member_lexemes False num (kv # kw # kvs) @ without_trailing r rest" for rest
    using q(2) [of "Mark (CHR '','') # member_lexemes t num (kw # kvs) @ rest"] r(2) members_open by simp
  with r(1) show ?case by blast
next
  case (4 t num s)
  show ?case by (rule exI [of _ "Some (Str (provider_parts s))"]) (simp add: ends_value_def)
next
  case (7 t num)
  show ?case by (rule exI [of _ "Some (Mark (CHR '']''))"]) (simp add: ends_value_def)
next
  case (10 t num)
  show ?case by (rule exI [of _ "Some (Mark (CHR ''}''))"]) (simp add: ends_value_def)
qed (auto simp: ends_value_def intro: exI [of _ "Some (Word w)" for w])

text \<open>In strict text the lexemes of a value are its serialisation.\<close>

lemma hex_digit_inert:
  assumes "n < 16"
  shows "hex_digit n \<noteq> CHR 0x22 \<and> hex_digit n \<noteq> CHR 0x5C \<and> hex_digit n \<noteq> CHR 0x0A
    \<and> hex_digit n \<noteq> CHR 0x0D \<and> hex_digit n \<noteq> CHR 0x09"
  using assms by (auto simp: less_Suc_eq numeral_nat hex_digit_def)

lemma provider_char_strict:
  "concat (map strict_part (if c \<in> {CHR 0x0A, CHR 0x0D, CHR 0x09} then [Plain c] else string_parts (quote_char c))) = quote_char c"
proof (cases "c \<in> {CHR 0x22, CHR 0x5C, CHR 0x08, CHR 0x09, CHR 0x0A, CHR 0x0C, CHR 0x0D}")
  case True
  then show ?thesis by (auto simp: quote_char_def)
next
  case False
  show ?thesis
  proof (cases "(of_char c :: nat) < 32")
    case True
    then have "(of_char c :: nat) div 16 < 16" "(of_char c :: nat) mod 16 < 16" by simp_all
    note hex_digit_inert [OF this(1)] hex_digit_inert [OF this(2)]
    with False True show ?thesis by (simp add: quote_char_def)
  next
    case False
    with \<open>c \<notin> _\<close> show ?thesis by (simp add: quote_char_def)
  qed
qed

lemma provider_parts_strict: "concat (map strict_part (provider_parts s)) = concat (map quote_char s)"
  unfolding provider_parts_def by (induction s) (simp_all only: list.map concat.simps map_append concat_append provider_char_strict)

lemma strict_append: "strict_text (xs @ ys) = strict_text xs @ strict_text ys"
  by (simp add: strict_text_def)

lemma strict_cons: "strict_text (x # xs) = lexeme_text strict_part x @ strict_text xs"
  by (simp add: strict_text_def)

lemma value_strict:
  "strict_text (value_lexemes False num v) = plain num v"
  "strict_text (item_lexemes False num xs) = plain_items num xs"
  "strict_text (member_lexemes False num kvs) = plain_members num kvs"
  by (induction num v and num xs and num kvs rule: plain_plain_items_plain_members.induct)
    (simp_all add: strict_cons strict_append strict_text_def [of "[]"] provider_parts_strict quote_string_def final_comma_def)

section \<open>Properties\<close>

text \<open>C30. What a provider wrote is repaired exactly. Whatever the blanks, the nesting, the escapes and the
  delimiters inside of strings, the text that is parsed is the text of the provider in which the raw
  newlines, carriage returns and tabs of strings are escaped and, for JSON-LD, the commas after a value and
  before a closing delimiter are missing; every blank is kept, and so is a comma no value precedes. In
  particular a document in any layout, with commas after the last entries where they are allowed, is parsed from
  the lexemes of its strict serialisation, in the layout it had. The strings of the text are closed; an
  unreadable text is recovered as null.\<close>

theorem recovery_restores_document:
  assumes "list_all lexeme_ok ts"
  shows "\<exists>us. parseJsonWithRecovery json_parse (raw_text ts) allowTrailingCommas
      = (case json_parse (strict_text us) of None \<Rightarrow> JNull | Some w \<Rightarrow> w)
    \<and> us = (if allowTrailingCommas then without_trailing None ts else ts)
    \<and> filter is_blank us = filter is_blank ts
    \<and> (filter (\<lambda>x. \<not> is_blank x) ts = value_lexemes trailing num v \<and> (trailing \<longrightarrow> allowTrailingCommas)
        \<longrightarrow> filter (\<lambda>x. \<not> is_blank x) us = value_lexemes False num v)
    \<and> strict_text (value_lexemes False num v) = plain num v"
proof -
  let ?us = "if allowTrailingCommas then without_trailing None ts else ts"
  have "agrees None []" by (simp add: agrees_def next_token_def ends_value_def)
  from lexemes_repaired [OF this assms]
  have "parseJsonWithRecovery json_parse (raw_text ts) allowTrailingCommas
      = (case json_parse (strict_text ?us) of None \<Rightarrow> JNull | Some w \<Rightarrow> w)"
    by (simp add: parseJsonWithRecovery_def)
  moreover have "filter (\<lambda>x. \<not> is_blank x) ?us = value_lexemes False num v"
    if layout: "filter (\<lambda>x. \<not> is_blank x) ts = value_lexemes trailing num v" and "trailing \<longrightarrow> allowTrailingCommas"
  proof (cases allowTrailingCommas)
    case True
    obtain q where "without_trailing None (value_lexemes trailing num v @ []) = value_lexemes False num v @ without_trailing q []"
      using value_without_trailing(1) by blast
    with True layout show ?thesis by (simp add: without_trailing_blanks)
  next
    case False
    with that show ?thesis by simp
  qed
  ultimately show ?thesis by (intro exI [of _ ?us]) (auto simp: without_trailing_blanks value_strict)
qed

text \<open>A document over two lines, with a raw newline in a string and a trailing comma before a blank.\<close>

definition sample_lexemes :: "lexeme list" where
  "sample_lexemes = [Mark (CHR ''[''), Blank (CHR 0x0A), Str [Plain (CHR ''x''), Plain (CHR 0x0A)], Mark (CHR '',''),
     Blank (CHR '' ''), Mark (CHR '']'')]"

theorem recovery_restores_document_witness:
  "parseJsonLdWithRecovery (\<lambda>s. Some (JStr s)) (raw_text sample_lexemes)
      = JStr (''['' @ [CHR 0x0A, CHR 0x22, CHR ''x'', CHR 0x5C, CHR ''n'', CHR 0x22, CHR '' ''] @ '']'')
    \<and> filter (\<lambda>x. \<not> is_blank x) (without_trailing None sample_lexemes)
      = value_lexemes False (\<lambda>n. ''0'') (JArr [JStr [CHR ''x'', CHR 0x0A]])"
proof -
  have ok: "list_all lexeme_ok sample_lexemes" by code_simp
  have layout: "filter (\<lambda>x. \<not> is_blank x) sample_lexemes = value_lexemes True (\<lambda>n. ''0'') (JArr [JStr [CHR ''x'', CHR 0x0A]])"
    by code_simp
  have strict: "strict_text (without_trailing None sample_lexemes)
      = ''['' @ [CHR 0x0A, CHR 0x22, CHR ''x'', CHR 0x5C, CHR ''n'', CHR 0x22, CHR '' ''] @ '']''"
    by code_simp
  note recovery_restores_document [OF ok, where json_parse = "\<lambda>s. Some (JStr s)" and allowTrailingCommas = True
    and trailing = True and num = "\<lambda>n. ''0''" and v = "JArr [JStr [CHR ''x'', CHR 0x0A]]"]
  then obtain us where us: "parseJsonWithRecovery (\<lambda>s. Some (JStr s)) (raw_text sample_lexemes) True = JStr (strict_text us)"
      "us = without_trailing None sample_lexemes"
      "filter (\<lambda>x. \<not> is_blank x) us = value_lexemes False (\<lambda>n. ''0'') (JArr [JStr [CHR ''x'', CHR 0x0A]])"
    using layout by (simp only: if_True option.case simp_thms) blast
  from us(1,3) show ?thesis unfolding us(2) strict parseJsonLdWithRecovery_def by (rule conjI)
qed

end
