(* ===== verification/Worker_Slots.thy ===== *)
theory Worker_Slots
  imports Sql Lease
begin

text \<open>
  The slots of the acquisition workers (\<open>src/lib/atsAcquisitionCoordination.ts\<close>): a fixed table of
  leases, one row per concurrent board request, that workers of several hosts claim, keep alive and
  give back by conditional updates. The gate row says whether, for whom and how many slots may be
  used.

  A claim is a loop of reads and conditional updates; between any two of them other hosts may
  operate on the table. \<open>env k\<close> is what they do at the \<open>k\<close>-th such point, as a list of operations
  with the instants of their clocks. \<open>tokens k\<close> is the random token of the \<open>k\<close>-th attempt.
\<close>

section \<open>The gate\<close>

definition ATS_DISTRIBUTED_WORKER_VERSION :: int where
  "ATS_DISTRIBUTED_WORKER_VERSION = 1"

definition ATS_WORKER_SLOT_LEASE_MS :: ms where
  "ATS_WORKER_SLOT_LEASE_MS = 3 * 60000"

record coordination_gate =
  cg_admissionState :: string
  cg_admissionResumeAt :: "ms option"
  cg_drainRequestedAt :: "ms option"
  cg_cutoverReadyAt :: "ms option"
  cg_distributedAuthorityActivatedAt :: "ms option"
  cg_distributedWriterVersion :: int
  cg_remoteWorkersEnabled :: bool
  cg_globalSlotLimit :: int
  cg_localSlotReserve :: int

datatype slot_error =
    GateMissing
  | UnknownAdmissionState string
  | InvalidSlotCounts
  | NoCleanCutover
  | WriterVersionTooOld
  | RemoteWorkersDisabled
  | InvalidReleaseId
  | LocalCapacityMissing int int \<comment> \<open>the reserve and the leases observed\<close>
  | SlotRowMissing

definition validateAtsCoordinationGate ::
  "coordination_gate option \<Rightarrow> bool \<Rightarrow> bool \<Rightarrow> slot_error + coordination_gate" where
  "validateAtsCoordinationGate gate requireDistributed requireRemote =
     (case gate of
        None \<Rightarrow> Inl GateMissing
      | Some g \<Rightarrow>
          if cg_admissionState g \<noteq> ''open'' \<and> cg_admissionState g \<noteq> ''draining''
          then Inl (UnknownAdmissionState (cg_admissionState g))
          else if cg_localSlotReserve g < 0 \<or> cg_globalSlotLimit g < cg_localSlotReserve g
                  \<or> cg_globalSlotLimit g < 1 \<or> 8 < cg_globalSlotLimit g
          then Inl InvalidSlotCounts
          else if requireDistributed \<and> cg_cutoverReadyAt g = None then Inl NoCleanCutover
          else if requireDistributed
                  \<and> (cg_distributedAuthorityActivatedAt g = None
                     \<or> cg_distributedWriterVersion g < ATS_DISTRIBUTED_WORKER_VERSION)
          then Inl WriterVersionTooOld
          else if requireRemote \<and> \<not> cg_remoteWorkersEnabled g then Inl RemoteWorkersDisabled
          else Inr g)"

text \<open>A drain with an end is over at that instant: the gate reopens before it is read.\<close>

definition reopened :: "ms \<Rightarrow> coordination_gate \<Rightarrow> coordination_gate" where
  "reopened now g =
     (if selected (tv_all [sql_eq (Some (cg_admissionState g)) ''draining'',
           sql_cmp (\<lambda>t. t \<le> now) (cg_admissionResumeAt g)])
      then g\<lparr>cg_admissionState := ''open'', cg_admissionResumeAt := None, cg_drainRequestedAt := None\<rparr>
      else g)"

definition atsNewBoardAdmissionsAllowed ::
  "ms \<Rightarrow> coordination_gate option \<Rightarrow> coordination_gate option \<times> (slot_error + bool)" where
  "atsNewBoardAdmissionsAllowed now gate =
     (let gate' = map_option (reopened now) gate in
      (gate', case validateAtsCoordinationGate gate' False False of
         Inl e \<Rightarrow> Inl e | Inr g \<Rightarrow> Inr (cg_admissionState g = ''open'')))"

definition atsDistributedArchitectureActive :: "bool \<Rightarrow> coordination_gate option \<Rightarrow> bool" where
  "atsDistributedArchitectureActive enabled gate \<longleftrightarrow>
     enabled \<and> (case validateAtsCoordinationGate gate True False of Inl _ \<Rightarrow> False | Inr _ \<Rightarrow> True)"

section \<open>The table and its conditional updates\<close>

datatype worker_kind = PiAcquisition | MacContinuation

record worker_slot =
  ws_slotNumber :: int
  ws_leaseOwner :: "string option"
  ws_leaseToken :: "string option"
  ws_leaseFence :: int
  ws_workerKind :: "worker_kind option"
  ws_releaseId :: "string option"
  ws_acquiredAt :: "ms option"
  ws_heartbeatAt :: "ms option"
  ws_leaseExpiresAt :: "ms option"

record slot_lease =
  wl_slotNumber :: int
  wl_leaseOwner :: string
  wl_leaseToken :: string
  wl_leaseFence :: int
  wl_workerKind :: worker_kind
  wl_releaseId :: string
  wl_leaseExpiresAt :: ms

definition slot_open :: "ms \<Rightarrow> worker_slot \<Rightarrow> tv" where
  "slot_open now r = tv_any [sql_is_null (ws_leaseToken r), sql_cmp (\<lambda>e. e \<le> now) (ws_leaseExpiresAt r)]"

text \<open>A claim of a slot with the owner, the token, the kind and the release; a heartbeat and a release
  of a lease.\<close>

datatype slot_op =
    TakeSlot int string string worker_kind string
  | BeatSlot slot_lease
  | FreeSlot slot_lease

definition take_filter :: "ms \<Rightarrow> int \<Rightarrow> worker_slot \<Rightarrow> tv" where
  "take_filter now n r = tv_all [sql_eq (Some (ws_slotNumber r)) n, slot_open now r]"

definition lease_filter :: "slot_lease \<Rightarrow> worker_slot \<Rightarrow> tv list" where
  "lease_filter l r = [sql_eq (Some (ws_slotNumber r)) (wl_slotNumber l),
     sql_eq (ws_leaseToken r) (wl_leaseToken l), sql_eq (Some (ws_leaseFence r)) (wl_leaseFence l)]"

definition beat_filter :: "ms \<Rightarrow> slot_lease \<Rightarrow> worker_slot \<Rightarrow> tv" where
  "beat_filter now l r = tv_all (lease_filter l r @ [sql_cmp (\<lambda>e. now < e) (ws_leaseExpiresAt r)])"

definition free_filter :: "slot_lease \<Rightarrow> worker_slot \<Rightarrow> tv" where
  "free_filter l r = tv_all (lease_filter l r)"

definition slot_step :: "ms \<Rightarrow> slot_op \<Rightarrow> worker_slot \<Rightarrow> worker_slot" where
  "slot_step now op r =
     (case op of
        TakeSlot n owner token kind release \<Rightarrow>
          if selected (take_filter now n r)
          then r\<lparr>ws_leaseOwner := Some owner, ws_leaseToken := Some token,
                 ws_leaseFence := ws_leaseFence r + 1, ws_workerKind := Some kind,
                 ws_releaseId := Some release, ws_acquiredAt := Some now, ws_heartbeatAt := Some now,
                 ws_leaseExpiresAt := Some (now + ATS_WORKER_SLOT_LEASE_MS)\<rparr>
          else r
      | BeatSlot l \<Rightarrow>
          if selected (beat_filter now l r)
          then r\<lparr>ws_heartbeatAt := Some now, ws_leaseExpiresAt := Some (now + ATS_WORKER_SLOT_LEASE_MS)\<rparr>
          else r
      | FreeSlot l \<Rightarrow>
          if selected (free_filter l r)
          then r\<lparr>ws_leaseOwner := None, ws_leaseToken := None, ws_workerKind := None,
                 ws_releaseId := None, ws_acquiredAt := None, ws_heartbeatAt := None,
                 ws_leaseExpiresAt := None\<rparr>
          else r)"

type_synonym slot_event = "ms \<times> slot_op"

definition slot_run :: "slot_event list \<Rightarrow> worker_slot \<Rightarrow> worker_slot" where
  "slot_run events r = fold (\<lambda>(now, op). slot_step now op) events r"

definition others :: "slot_event list \<Rightarrow> worker_slot list \<Rightarrow> worker_slot list" where
  "others events T = map (slot_run events) T"

section \<open>The operations of a worker\<close>

definition hex_release :: "string \<Rightarrow> bool" where
  "hex_release s \<longleftrightarrow> length s = 40 \<and> list_all (\<lambda>c. c \<in> set ''0123456789abcdefABCDEF'') s"

definition worker_kind_text :: "worker_kind \<Rightarrow> string" where
  "worker_kind_text k = (case k of PiAcquisition \<Rightarrow> ''pi-acquisition'' | MacContinuation \<Rightarrow> ''mac-continuation'')"

definition slotOwner :: "worker_kind \<Rightarrow> string \<Rightarrow> string \<Rightarrow> string" where
  "slotOwner kind host pid = worker_kind_text kind @ '':'' @ host @ '':'' @ pid"

record slot_claim =
  sc_kind :: worker_kind
  sc_now :: ms
  sc_owner :: string
  sc_release :: string
  sc_first :: int
  sc_last :: int
  sc_requested :: nat
  sc_tokens :: "nat \<Rightarrow> string"

definition claimable :: "slot_claim \<Rightarrow> worker_slot \<Rightarrow> tv" where
  "claimable C r = tv_all [sql_cmp (\<lambda>n. sc_first C \<le> n \<and> n \<le> sc_last C) (Some (ws_slotNumber r)),
     slot_open (sc_now C) r]"

definition lease_of :: "slot_claim \<Rightarrow> int \<Rightarrow> string \<Rightarrow> int \<Rightarrow> slot_lease" where
  "lease_of C n token fence = \<lparr>wl_slotNumber = n, wl_leaseOwner = sc_owner C, wl_leaseToken = token,
     wl_leaseFence = fence, wl_workerKind = sc_kind C, wl_releaseId = sc_release C,
     wl_leaseExpiresAt = sc_now C + ATS_WORKER_SLOT_LEASE_MS\<rparr>"

text \<open>The loop: \<open>left\<close> attempts remain, \<open>k\<close> have been made. An attempt reads the first open slot, tries
  to take it and reads its fence back; others may come before each of the three.\<close>

fun claim_loop ::
  "slot_claim \<Rightarrow> (nat \<Rightarrow> slot_event list) \<Rightarrow> nat \<Rightarrow> nat \<Rightarrow> worker_slot list \<Rightarrow> slot_lease list
    \<Rightarrow> slot_error + worker_slot list \<times> slot_lease list" where
  "claim_loop C env 0 k T leases = Inr (T, leases)"
| "claim_loop C env (Suc left) k T leases =
     (if sc_requested C \<le> length leases then Inr (T, leases)
      else
        let T0 = others (env (3 * k)) T in
        case find (\<lambda>r. selected (claimable C r)) (js_sort (key_cmp ws_slotNumber num_cmp) T0) of
          None \<Rightarrow> Inr (T0, leases)
        | Some candidate \<Rightarrow>
            let n = ws_slotNumber candidate;
                T1 = others (env (3 * k + 1)) T0;
                hit = length (filter (\<lambda>r. selected (take_filter (sc_now C) n r)) T1);
                T2 = map (slot_step (sc_now C)
                       (TakeSlot n (sc_owner C) (sc_tokens C k) (sc_kind C) (sc_release C))) T1
            in if hit \<noteq> 1 then claim_loop C env left (k + 1) T2 leases
               else
                 let T3 = others (env (3 * k + 2)) T2 in
                 case find (\<lambda>r. ws_slotNumber r = n) T3 of
                   None \<Rightarrow> Inl SlotRowMissing
                 | Some r \<Rightarrow> claim_loop C env left (k + 1) T3
                     (leases @ [lease_of C n (sc_tokens C k) (ws_leaseFence r)]))"

record claim_input =
  ci_kind :: worker_kind
  ci_count :: rat
  ci_now :: ms
  ci_releaseId :: string
  ci_host :: string
  ci_pid :: string

text \<open>The healthy leases of the local worker in its reserve.\<close>

definition coordinatedPiSlots :: "int \<Rightarrow> string \<Rightarrow> ms \<Rightarrow> worker_slot list \<Rightarrow> int" where
  "coordinatedPiSlots reserve releaseId now T =
     int (length (filter (\<lambda>r. selected (tv_all
       [sql_cmp (\<lambda>n. 1 \<le> n \<and> n \<le> reserve) (Some (ws_slotNumber r)), sql_eq (ws_workerKind r) PiAcquisition,
        sql_eq (ws_releaseId r) releaseId, sql_not_null (ws_leaseToken r),
        sql_cmp (\<lambda>e. now < e) (ws_leaseExpiresAt r)])) T))"

definition claim_of :: "coordination_gate \<Rightarrow> claim_input \<Rightarrow> (nat \<Rightarrow> string) \<Rightarrow> slot_claim" where
  "claim_of g i tokens =
     (let remote = (ci_kind i = MacContinuation) in
      \<lparr>sc_kind = ci_kind i, sc_now = ci_now i, sc_owner = slotOwner (ci_kind i) (ci_host i) (ci_pid i),
       sc_release = ci_releaseId i,
       sc_first = (if remote then cg_localSlotReserve g + 1 else 1),
       sc_last = (if remote then cg_globalSlotLimit g else cg_localSlotReserve g),
       sc_requested = nat (max 0 (min (cg_globalSlotLimit g) \<lfloor>ci_count i\<rfloor>)),
       sc_tokens = tokens\<rparr>)"

definition claimAtsWorkerSlots ::
  "bool \<Rightarrow> (nat \<Rightarrow> slot_event list) \<Rightarrow> (nat \<Rightarrow> string) \<Rightarrow> coordination_gate option \<Rightarrow> claim_input
    \<Rightarrow> worker_slot list \<Rightarrow> slot_error + worker_slot list \<times> slot_lease list" where
  "claimAtsWorkerSlots enabled env tokens gate i T =
     (if \<not> enabled then Inr (T, [])
      else
        let remote = (ci_kind i = MacContinuation) in
        case validateAtsCoordinationGate gate True remote of
          Inl e \<Rightarrow> Inl e
        | Inr g \<Rightarrow>
            if \<not> hex_release (ci_releaseId i) then Inl InvalidReleaseId
            else
              let observed = coordinatedPiSlots (cg_localSlotReserve g) (ci_releaseId i) (ci_now i) T in
              if remote \<and> 0 < cg_localSlotReserve g \<and> observed \<noteq> cg_localSlotReserve g
              then Inl (LocalCapacityMissing (cg_localSlotReserve g) observed)
              else
                let C = claim_of g i tokens in claim_loop C env (sc_requested C * 4) 0 T [])"

text \<open>Heartbeats of all leases in one transaction: each row that still carries its lease is extended, and
  the answer tells whether all did.\<close>

definition heartbeatAtsWorkerSlots :: "slot_lease list \<Rightarrow> ms \<Rightarrow> worker_slot list \<Rightarrow> worker_slot list \<times> bool" where
  "heartbeatAtsWorkerSlots leases now T =
     (if leases = [] then (T, True)
      else foldl (\<lambda>(U, ok) l.
        (map (slot_step now (BeatSlot l)) U,
         ok \<and> length (filter (\<lambda>r. selected (beat_filter now l r)) U) = 1)) (T, True) leases)"

definition releaseAtsWorkerSlots :: "slot_lease list \<Rightarrow> worker_slot list \<Rightarrow> worker_slot list \<times> nat" where
  "releaseAtsWorkerSlots leases T =
     foldl (\<lambda>(U, released) l.
       (map (slot_step 0 (FreeSlot l)) U,
        released + length (filter (\<lambda>r. selected (free_filter l r)) U))) (T, 0) leases"

section \<open>A row provides the lease contract\<close>

definition slot_live :: "ms \<Rightarrow> worker_slot \<Rightarrow> bool" where
  "slot_live now r \<longleftrightarrow> (\<exists>e. ws_leaseExpiresAt r = Some e \<and> now < e)"

fun slot_actor :: "slot_op \<Rightarrow> string option" where
  "slot_actor (TakeSlot n owner token kind release) = Some token"
| "slot_actor (BeatSlot l) = Some (wl_leaseToken l)"
| "slot_actor (FreeSlot l) = Some (wl_leaseToken l)"

fun slot_owner_op :: "slot_op \<Rightarrow> bool" where
  "slot_owner_op (TakeSlot n owner token kind release) = False"
| "slot_owner_op op = True"

lemmas slot_filters = take_filter_def lease_filter_def beat_filter_def free_filter_def slot_open_def
  claimable_def sql_simps

lemma live_not_taken: "ws_leaseToken r = Some t \<Longrightarrow> slot_live now r \<Longrightarrow> \<not> selected (take_filter now n r)"
  by (auto simp: slot_filters slot_live_def)

lemma foreign_not_owner:
  "ws_leaseToken r = Some t \<Longrightarrow> wl_leaseToken l \<noteq> t \<Longrightarrow> \<not> selected (beat_filter now l r) \<and> \<not> selected (free_filter l r)"
  by (auto simp: slot_filters)

lemma foreign_keeps_row:
  assumes "ws_leaseToken r = Some t" and "slot_live now r" and "slot_actor op \<noteq> Some t"
  shows "slot_step now op r = r"
  using assms live_not_taken [OF assms(1,2)] foreign_not_owner [OF assms(1)]
  by (cases op) (auto simp: slot_step_def)

lemma slot_live_earlier: "slot_live now r \<Longrightarrow> m \<le> now \<Longrightarrow> slot_live m r"
  by (auto simp: slot_live_def)

interpretation slot: fenced_owner ws_leaseToken slot_live slot_actor slot_step slot_owner_op
proof
  fix op and r :: worker_slot and now :: ms
  assume "slot_owner_op op" "slot_actor op \<noteq> ws_leaseToken r"
  then show "slot_step now op r = r"
    by (cases op) (auto simp: slot_step_def slot_filters)
qed (use foreign_keeps_row slot_live_earlier in auto)

text \<open>A worker whose slot was taken over changes nothing of it any more, however late its heartbeats and
  its release arrive.\<close>

lemma displaced_worker_harmless:
  assumes "ws_leaseToken r \<noteq> Some t"
    and "\<And>now op. (now, op) \<in> set events \<Longrightarrow> slot_owner_op op \<and> slot_actor op = Some t"
  shows "slot_run events r = r"
  unfolding slot_run_def using assms by (rule slot.late_owner_harmless)

section \<open>What a claim returns is held\<close>

lemma slot_run_foreign:
  assumes "ws_leaseToken r = Some t"
    and "\<And>now op. (now, op) \<in> set events \<Longrightarrow> slot_live now r \<and> slot_actor op \<noteq> Some t"
  shows "slot_run events r = r"
  using assms
proof (induction events)
  case (Cons e events)
  obtain now op where e: "e = (now, op)" by (cases e)
  with Cons.prems have "slot_step now op r = r" by (intro foreign_keeps_row [OF Cons.prems(1)]) auto
  moreover have "slot_run events r = r" using Cons.prems(2) by (intro Cons.IH [OF Cons.prems(1)]) auto
  ultimately show ?case by (simp add: slot_run_def e)
qed (simp add: slot_run_def)

lemma slot_step_number [simp]: "ws_slotNumber (slot_step now op r) = ws_slotNumber r"
  by (simp add: slot_step_def split: slot_op.split)

lemma slot_run_number [simp]: "ws_slotNumber (slot_run events r) = ws_slotNumber r"
proof (induction events arbitrary: r)
  case (Cons e events)
  then show ?case by (cases e) (simp add: slot_run_def)
qed (simp add: slot_run_def)

lemma others_numbers [simp]: "map ws_slotNumber (others events T) = map ws_slotNumber T"
  by (simp add: others_def comp_def)

definition held :: "worker_slot list \<Rightarrow> slot_lease \<Rightarrow> bool" where
  "held T l \<longleftrightarrow> (\<exists>r \<in> set T. ws_slotNumber r = wl_slotNumber l \<and> ws_leaseToken r = Some (wl_leaseToken l)
     \<and> ws_leaseFence r = wl_leaseFence l \<and> ws_leaseExpiresAt r = Some (wl_leaseExpiresAt l))"

text \<open>Operations of others, while the leases are in force.\<close>

definition foreign_until :: "ms \<Rightarrow> string set \<Rightarrow> slot_event list \<Rightarrow> bool" where
  "foreign_until deadline own events \<longleftrightarrow>
     (\<forall>(now, op) \<in> set events. now < deadline \<and> slot_actor op \<notin> Some ` own)"

lemma held_others:
  assumes "held T l" and "foreign_until (wl_leaseExpiresAt l) own events" and "wl_leaseToken l \<in> own"
  shows "held (others events T) l"
proof -
  obtain r where r: "r \<in> set T" "ws_slotNumber r = wl_slotNumber l" "ws_leaseToken r = Some (wl_leaseToken l)"
    "ws_leaseFence r = wl_leaseFence l" "ws_leaseExpiresAt r = Some (wl_leaseExpiresAt l)"
    using assms(1) by (auto simp: held_def)
  have "slot_run events r = r"
    using r(3,5) assms(2,3) by (intro slot_run_foreign) (fastforce simp: foreign_until_def slot_live_def)+
  then have "r \<in> set (others events T)" using r(1) by (force simp: others_def)
  with r show ?thesis by (auto simp: held_def)
qed

lemma held_slot_not_open:
  assumes "held T l" and "distinct (map ws_slotNumber T)" and "now < wl_leaseExpiresAt l"
    and "r \<in> set T" and "ws_slotNumber r = wl_slotNumber l"
  shows "\<not> selected (slot_open now r)"
proof -
  obtain q where q: "q \<in> set T" "ws_slotNumber q = wl_slotNumber l" "ws_leaseToken q = Some (wl_leaseToken l)"
    "ws_leaseExpiresAt q = Some (wl_leaseExpiresAt l)"
    using assms(1) by (auto simp: held_def)
  then have "q = r" using assms(2,4,5) by (metis distinct_map inj_on_def)
  with q assms(3) show ?thesis by (auto simp: slot_filters)
qed

lemma held_take:
  assumes "held T l" and "now < wl_leaseExpiresAt l"
  shows "held (map (slot_step now (TakeSlot n owner token kind release)) T) l"
proof -
  obtain r where r: "r \<in> set T" "ws_slotNumber r = wl_slotNumber l" "ws_leaseToken r = Some (wl_leaseToken l)"
    "ws_leaseFence r = wl_leaseFence l" "ws_leaseExpiresAt r = Some (wl_leaseExpiresAt l)"
    using assms(1) by (auto simp: held_def)
  then have "\<not> selected (take_filter now n r)"
    using assms(2) by (intro live_not_taken) (auto simp: slot_live_def)
  then have "slot_step now (TakeSlot n owner token kind release) r = r" by (simp add: slot_step_def)
  then have "r \<in> set (map (slot_step now (TakeSlot n owner token kind release)) T)" using r(1) by force
  with r show ?thesis by (auto simp: held_def)
qed

text \<open>A successful conditional update, read back, is a lease that is held.\<close>

lemma taken_held:
  assumes "distinct (map ws_slotNumber T1)"
    and "length (filter (\<lambda>r. selected (take_filter (sc_now C) n r)) T1) = 1"
    and "T2 = map (slot_step (sc_now C) (TakeSlot n (sc_owner C) token (sc_kind C) (sc_release C))) T1"
    and "foreign_until (sc_now C + ATS_WORKER_SLOT_LEASE_MS) own events" and "token \<in> own"
    and "find (\<lambda>r. ws_slotNumber r = n) (others events T2) = Some r"
  shows "held (others events T2) (lease_of C n token (ws_leaseFence r))"
proof -
  obtain q where q: "q \<in> set T1" "selected (take_filter (sc_now C) n q)"
    using assms(2) by (metis (no_types, lifting) filter_False length_0_conv zero_neq_one)
  let ?q = "slot_step (sc_now C) (TakeSlot n (sc_owner C) token (sc_kind C) (sc_release C)) q"
  have f: "ws_slotNumber ?q = n" "ws_leaseToken ?q = Some token"
    "ws_leaseExpiresAt ?q = Some (sc_now C + ATS_WORKER_SLOT_LEASE_MS)"
    using q(2) by (simp_all add: slot_step_def, simp_all add: slot_filters)
  have "slot_run events ?q = ?q"
    using f(2,3) assms(4,5) by (intro slot_run_foreign) (fastforce simp: foreign_until_def slot_live_def)+
  then have m: "?q \<in> set (others events T2)" using q(1) by (force simp: others_def assms(3))
  have d: "distinct (map ws_slotNumber (others events T2))" using assms(1) by (simp add: assms(3) comp_def)
  have r: "r \<in> set (others events T2)" "ws_slotNumber r = n" using assms(6) by (auto dest: find_SomeD)
  have "r = ?q" using m d r f(1) by (metis (no_types, lifting) distinct_map inj_on_def)
  with m f show ?thesis unfolding held_def by (intro bexI [where x = ?q]) (simp_all add: lease_of_def)
qed

text \<open>The leases collected so far.\<close>

definition collected :: "slot_claim \<Rightarrow> worker_slot list \<Rightarrow> slot_lease list \<Rightarrow> bool" where
  "collected C T leases \<longleftrightarrow>
     distinct (map wl_slotNumber leases) \<and> length leases \<le> sc_requested C
     \<and> (\<forall>l \<in> set leases. held T l \<and> wl_leaseExpiresAt l = sc_now C + ATS_WORKER_SLOT_LEASE_MS
          \<and> wl_leaseToken l \<in> range (sc_tokens C) \<and> sc_first C \<le> wl_slotNumber l \<and> wl_slotNumber l \<le> sc_last C)"

lemma collected_others:
  assumes "collected C T leases"
    and "foreign_until (sc_now C + ATS_WORKER_SLOT_LEASE_MS) (range (sc_tokens C)) events"
  shows "collected C (others events T) leases"
  using assms held_others [where own = "range (sc_tokens C)"] by (fastforce simp: collected_def)

lemma collected_take:
  assumes "collected C T leases"
  shows "collected C (map (slot_step (sc_now C) (TakeSlot n owner token kind release)) T) leases"
  using assms held_take by (auto simp: collected_def ATS_WORKER_SLOT_LEASE_MS_def)

lemma claim_loop_collected:
  assumes "claim_loop C env left k T leases = Inr (T', leases')"
    and "distinct (map ws_slotNumber T)" and "collected C T leases"
    and "\<And>j. foreign_until (sc_now C + ATS_WORKER_SLOT_LEASE_MS) (range (sc_tokens C)) (env j)"
  shows "distinct (map ws_slotNumber T') \<and> collected C T' leases'"
  using assms
proof (induction C env left k T leases rule: claim_loop.induct)
  case (2 C env left k T leases)
  show ?case
  proof (cases "sc_requested C \<le> length leases")
    case True
    with 2 show ?thesis by simp
  next
    case False
    define T0 where "T0 = others (env (3 * k)) T"
    have T0: "distinct (map ws_slotNumber T0)" "collected C T0 leases"
      using 2(4-6) collected_others by (simp_all add: T0_def)
    show ?thesis
    proof (cases "find (\<lambda>r. selected (claimable C r)) (js_sort (key_cmp ws_slotNumber num_cmp) T0)")
      case None
      with False 2(3) have "T' = T0 \<and> leases' = leases" by (simp add: T0_def)
      with T0 show ?thesis by simp
    next
      case (Some candidate)
      define n where "n = ws_slotNumber candidate"
      define T1 where "T1 = others (env (3 * k + 1)) T0"
      define T2 where "T2 = map (slot_step (sc_now C)
        (TakeSlot n (sc_owner C) (sc_tokens C k) (sc_kind C) (sc_release C))) T1"
      have cand: "candidate \<in> set T0" "sc_first C \<le> n" "n \<le> sc_last C" "selected (slot_open (sc_now C) candidate)"
        using find_SomeD [OF Some] by (auto simp: claimable_def n_def sql_simps)
      have T1: "distinct (map ws_slotNumber T1)" "collected C T1 leases"
        using T0 2(6) collected_others by (simp_all add: T1_def)
      have T2: "distinct (map ws_slotNumber T2)" "collected C T2 leases"
        using T1 collected_take by (simp_all add: T2_def comp_def)
      show ?thesis
      proof (cases "length (filter (\<lambda>r. selected (take_filter (sc_now C) n r)) T1) = 1")
        case miss: False
        with False Some 2(3) have "claim_loop C env left (k + 1) T2 leases = Inr (T', leases')"
          by (simp add: T0_def T1_def T2_def n_def Let_def)
        from 2(1) [OF False T0_def Some n_def T1_def refl T2_def miss this T2 2(6)] show ?thesis .
      next
        case hit: True
        define T3 where "T3 = others (env (3 * k + 2)) T2"
        have T3: "distinct (map ws_slotNumber T3)" "collected C T3 leases"
          using T2 2(6) collected_others by (simp_all add: T3_def)
        show ?thesis
        proof (cases "find (\<lambda>r. ws_slotNumber r = n) T3")
          case None
          with False Some hit 2(3) show ?thesis by (simp add: T0_def T1_def T2_def T3_def n_def Let_def)
        next
          case (Some r)
          let ?l = "lease_of C n (sc_tokens C k) (ws_leaseFence r)"
          have "held T3 ?l"
            using taken_held [OF T1(1) hit T2_def 2(6) _ Some [unfolded T3_def]] by (simp add: T3_def)
          moreover have "n \<notin> wl_slotNumber ` set leases"
            using T0 cand held_slot_not_open [OF _ T0(1) _ cand(1)]
            by (fastforce simp: collected_def n_def ATS_WORKER_SLOT_LEASE_MS_def)
          ultimately have "collected C T3 (leases @ [?l])"
            using T3(2) cand(2,3) False by (auto simp: collected_def lease_of_def)
          moreover have "claim_loop C env left (k + 1) T3 (leases @ [?l]) = Inr (T', leases')"
            using False \<open>find _ (js_sort _ T0) = Some candidate\<close> hit Some 2(3)
            by (simp add: T0_def T1_def T2_def T3_def n_def Let_def)
          ultimately show ?thesis
            using 2(2) [OF False T0_def \<open>find _ (js_sort _ T0) = Some candidate\<close> n_def T1_def refl T2_def _ T3_def Some]
              hit T3(1) 2(6) by simp
        qed
      qed
    qed
  qed
qed simp

section \<open>Without contention a claim is full\<close>

lemma slot_run_Nil [simp]: "slot_run [] r = r"
  by (simp add: slot_run_def)

lemma others_Nil [simp]: "others [] T = T"
  by (simp add: others_def map_idI)

definition free_slots :: "slot_claim \<Rightarrow> worker_slot list \<Rightarrow> nat" where
  "free_slots C T = length (filter (\<lambda>r. selected (claimable C r)) T)"

lemma taken_not_open:
  "selected (take_filter now n r) \<Longrightarrow> \<not> selected (slot_open now (slot_step now (TakeSlot n owner token kind release) r))"
  by (simp add: slot_step_def) (simp add: slot_filters ATS_WORKER_SLOT_LEASE_MS_def)

lemma take_elsewhere:
  "ws_slotNumber r \<noteq> n \<Longrightarrow> slot_step now (TakeSlot n owner token kind release) r = r"
  by (simp add: slot_step_def slot_filters)

lemma take_one:
  assumes "distinct (map ws_slotNumber T)" and "candidate \<in> set T" and "selected (claimable C candidate)"
    and "n = ws_slotNumber candidate"
  shows "length (filter (\<lambda>r. selected (take_filter (sc_now C) n r)) T) = 1"
    and "free_slots C T
      = Suc (free_slots C (map (slot_step (sc_now C) (TakeSlot n owner token kind release)) T))"
proof -
  have open_: "selected (take_filter (sc_now C) n candidate)"
    using assms(3,4) by (auto simp: claimable_def take_filter_def selected_all selected_tests)
  obtain xs ys where T: "T = xs @ candidate # ys" using assms(2) by (meson split_list)
  have rest: "\<forall>r \<in> set (xs @ ys). ws_slotNumber r \<noteq> n"
    using assms(1,4) unfolding T by (simp add: ball_Un) (metis image_eqI)
  then have "\<forall>r \<in> set (xs @ ys). \<not> selected (take_filter (sc_now C) n r)"
    by (auto simp: take_filter_def selected_all selected_tests)
  then show "length (filter (\<lambda>r. selected (take_filter (sc_now C) n r)) T) = 1"
    using open_ by (simp add: T filter_empty_conv)
  let ?take = "slot_step (sc_now C) (TakeSlot n owner token kind release)"
  have same: "map ?take xs = xs" "map ?take ys = ys"
    using rest take_elsewhere by (auto intro!: map_idI)
  have "\<not> selected (claimable C (?take candidate))"
    using taken_not_open [OF open_] by (simp add: claimable_def selected_all)
  then show "free_slots C T = Suc (free_slots C (map ?take T))"
    using assms(3) same by (simp add: free_slots_def T)
qed

lemma claim_loop_full:
  assumes "distinct (map ws_slotNumber T)" and "length leases \<le> sc_requested C"
    and "sc_requested C \<le> length leases + left"
  shows "\<exists>T' leases'. claim_loop C (\<lambda>_. []) left k T leases = Inr (T', leases')
    \<and> length leases' = min (sc_requested C) (length leases + free_slots C T)"
  using assms
proof (induction left arbitrary: k T leases)
  case (Suc left)
  show ?case
  proof (cases "sc_requested C \<le> length leases")
    case False
    show ?thesis
    proof (cases "find (\<lambda>r. selected (claimable C r)) (js_sort (key_cmp ws_slotNumber num_cmp) T)")
      case None
      then have "free_slots C T = 0" by (auto simp: free_slots_def filter_empty_conv dest: find_eq_NoneD)
      with None False show ?thesis by simp
    next
      case (Some candidate)
      define n where "n = ws_slotNumber candidate"
      define T' where "T' = map (slot_step (sc_now C)
        (TakeSlot n (sc_owner C) (sc_tokens C k) (sc_kind C) (sc_release C))) T"
      have cand: "candidate \<in> set T" "selected (claimable C candidate)"
        using find_SomeD [OF Some] by auto
      note one = take_one [OF Suc.prems(1) cand n_def]
      have d: "distinct (map ws_slotNumber T')" using Suc.prems(1) by (simp add: T'_def comp_def)
      have "\<exists>r \<in> set T'. ws_slotNumber r = n" using cand(1) by (simp add: T'_def) (metis n_def)
      then obtain r where r: "find (\<lambda>r. ws_slotNumber r = n) T' = Some r"
        by (metis (mono_tags, lifting) find_None_iff not_None_eq)
      let ?l = "leases @ [lease_of C n (sc_tokens C k) (ws_leaseFence r)]"
      have "claim_loop C (\<lambda>_. []) (Suc left) k T leases = claim_loop C (\<lambda>_. []) left (k + 1) T' ?l"
        using False Some one(1) r by (simp add: T'_def n_def Let_def)
      moreover have "free_slots C T = Suc (free_slots C T')" using one(2) by (simp add: T'_def)
      ultimately show ?thesis
        using Suc.IH [OF d, of ?l "k + 1"] Suc.prems(2,3) False by simp
    qed
  qed (use Suc.prems(2) in simp)
qed simp

section \<open>Properties\<close>

text \<open>C31. A slot lease is exclusive: whatever workers of other hosts do between the reads and the updates
  of a claim, and afterwards until the leases expire, the leases the claim returned are on distinct
  slots of the share the gate gives this kind of worker, no more than asked for, and the rows still
  carry their tokens and fences, so every other worker's claim of them fails.\<close>

theorem claimed_slots_are_held:
  assumes "claimAtsWorkerSlots enabled env tokens (Some g) i T = Inr (T', leases)"
    and "distinct (map ws_slotNumber T)"
    and "\<And>j. foreign_until (ci_now i + ATS_WORKER_SLOT_LEASE_MS) (range tokens) (env j)"
    and "foreign_until (ci_now i + ATS_WORKER_SLOT_LEASE_MS) (range tokens) later"
  shows "distinct (map wl_slotNumber leases)
    \<and> int (length leases) \<le> max 0 (min (cg_globalSlotLimit g) \<lfloor>ci_count i\<rfloor>)
    \<and> (\<forall>l \<in> set leases. held (others later T') l
        \<and> (if ci_kind i = MacContinuation
           then cg_localSlotReserve g < wl_slotNumber l \<and> wl_slotNumber l \<le> cg_globalSlotLimit g
           else 1 \<le> wl_slotNumber l \<and> wl_slotNumber l \<le> cg_localSlotReserve g))"
proof (cases enabled)
  case False
  with assms(1) show ?thesis by (simp add: claimAtsWorkerSlots_def)
next
  case True
  let ?C = "claim_of g i tokens"
  have v: "validateAtsCoordinationGate (Some g) d r = Inr h \<Longrightarrow> h = g" for d r h
    by (auto simp: validateAtsCoordinationGate_def split: if_splits)
  have C: "sc_now ?C = ci_now i" "sc_tokens ?C = tokens"
    "sc_requested ?C = nat (max 0 (min (cg_globalSlotLimit g) \<lfloor>ci_count i\<rfloor>))"
    "sc_first ?C = (if ci_kind i = MacContinuation then cg_localSlotReserve g + 1 else 1)"
    "sc_last ?C = (if ci_kind i = MacContinuation then cg_globalSlotLimit g else cg_localSlotReserve g)"
    by (simp_all add: claim_of_def Let_def)
  have "claim_loop ?C env (sc_requested ?C * 4) 0 T [] = Inr (T', leases)"
    using True assms(1) by (auto simp: claimAtsWorkerSlots_def Let_def split: sum.splits if_splits dest: v)
  then have "collected ?C T' leases"
    using claim_loop_collected [OF _ assms(2), of ?C env _ _ "[]" T' leases] assms(3)
    by (simp add: collected_def C)
  then have "collected ?C (others later T') leases"
    using collected_others assms(4) by (simp add: C)
  then show ?thesis by (auto simp: collected_def C)
qed

text \<open>Without contention nothing is left unused: a claim that the gate admits returns as many leases
  as were asked for, or as many as the worker's share has free slots, whichever is less.\<close>

theorem uncontended_claim_is_full:
  assumes "validateAtsCoordinationGate (Some g) True (ci_kind i = MacContinuation) = Inr g"
    and "hex_release (ci_releaseId i)" and "distinct (map ws_slotNumber T)"
    and "ci_kind i = MacContinuation \<longrightarrow> cg_localSlotReserve g = 0"
  shows "\<exists>T' leases. claimAtsWorkerSlots True (\<lambda>_. []) tokens (Some g) i T = Inr (T', leases)
    \<and> int (length leases) = min (max 0 (min (cg_globalSlotLimit g) \<lfloor>ci_count i\<rfloor>))
        (int (free_slots (claim_of g i tokens) T))"
proof -
  let ?C = "claim_of g i tokens"
  have n: "int (sc_requested ?C) = max 0 (min (cg_globalSlotLimit g) \<lfloor>ci_count i\<rfloor>)"
    by (simp add: claim_of_def Let_def)
  obtain T' leases where "claim_loop ?C (\<lambda>_. []) (sc_requested ?C * 4) 0 T [] = Inr (T', leases)"
    "length leases = min (sc_requested ?C) (free_slots ?C T)"
    using claim_loop_full [OF assms(3), of "[]" ?C "sc_requested ?C * 4" 0] by auto
  then show ?thesis
    using assms(1,2,4) n by (auto simp: claimAtsWorkerSlots_def Let_def of_nat_min)
qed

definition sample_gate :: coordination_gate where
  "sample_gate = \<lparr>cg_admissionState = ''open'', cg_admissionResumeAt = None, cg_drainRequestedAt = None,
     cg_cutoverReadyAt = Some 1, cg_distributedAuthorityActivatedAt = Some 1, cg_distributedWriterVersion = 1,
     cg_remoteWorkersEnabled = True, cg_globalSlotLimit = 2, cg_localSlotReserve = 0\<rparr>"

definition sample_slot :: "int \<Rightarrow> worker_slot" where
  "sample_slot n = \<lparr>ws_slotNumber = n, ws_leaseOwner = None, ws_leaseToken = None, ws_leaseFence = 0,
     ws_workerKind = None, ws_releaseId = None, ws_acquiredAt = None, ws_heartbeatAt = None, ws_leaseExpiresAt = None\<rparr>"

definition sample_claim :: claim_input where
  "sample_claim = \<lparr>ci_kind = MacContinuation, ci_count = 3, ci_now = 10, ci_releaseId = replicate 40 CHR ''a'',
     ci_host = ''mac'', ci_pid = ''7''\<rparr>"

text \<open>Another worker takes the first slot before the loop reads; the second is left.\<close>

definition sample_rival :: slot_event where
  "sample_rival = (5, TakeSlot 1 ''other'' ''r'' MacContinuation ''x'')"

definition sample_rivals :: "nat \<Rightarrow> slot_event list" where
  "sample_rivals j = (if j = 1 then [sample_rival] else [])"

theorem claimed_slots_are_held_witness:
  "\<exists>T' leases. claimAtsWorkerSlots True sample_rivals (\<lambda>k. ''t'') (Some sample_gate) sample_claim
      [sample_slot 1, sample_slot 2] = Inr (T', leases)
    \<and> map wl_slotNumber leases = [2] \<and> held (others [(20, TakeSlot 2 ''other'' ''s'' MacContinuation ''x'')] T') (hd leases)"
proof -
  have run: "(case claimAtsWorkerSlots True sample_rivals (\<lambda>k. ''t'') (Some sample_gate) sample_claim
      [sample_slot 1, sample_slot 2] of Inl _ \<Rightarrow> False | Inr (T', leases) \<Rightarrow> map wl_slotNumber leases = [2])"
    by code_simp
  then obtain T' leases where c: "claimAtsWorkerSlots True sample_rivals (\<lambda>k. ''t'') (Some sample_gate) sample_claim
      [sample_slot 1, sample_slot 2] = Inr (T', leases)" and l: "map wl_slotNumber leases = [2]"
    by (auto split: sum.splits prod.splits)
  have "foreign_until (ci_now sample_claim + ATS_WORKER_SLOT_LEASE_MS) (range (\<lambda>k::nat. ''t'')) (sample_rivals j)" for j
    by (simp add: sample_rivals_def sample_rival_def foreign_until_def sample_claim_def ATS_WORKER_SLOT_LEASE_MS_def)
  moreover have "foreign_until (ci_now sample_claim + ATS_WORKER_SLOT_LEASE_MS) (range (\<lambda>k::nat. ''t''))
      [(20, TakeSlot 2 ''other'' ''s'' MacContinuation ''x'')]"
    by (simp add: foreign_until_def sample_claim_def ATS_WORKER_SLOT_LEASE_MS_def)
  moreover have "distinct (map ws_slotNumber [sample_slot 1, sample_slot 2])" by (simp add: sample_slot_def)
  ultimately show ?thesis
    using claimed_slots_are_held [OF c] c l by (cases leases) auto
qed

theorem uncontended_claim_is_full_witness:
  "\<exists>T' leases. claimAtsWorkerSlots True (\<lambda>_. []) (\<lambda>k. ''t'') (Some sample_gate) sample_claim
      [sample_slot 2, sample_slot 1] = Inr (T', leases) \<and> length leases = 2"
proof -
  have "validateAtsCoordinationGate (Some sample_gate) True (ci_kind sample_claim = MacContinuation) = Inr sample_gate"
    "hex_release (ci_releaseId sample_claim)" "free_slots (claim_of sample_gate sample_claim (\<lambda>k. ''t'')) [sample_slot 2, sample_slot 1] = 2"
    by code_simp+
  with uncontended_claim_is_full [where g = sample_gate and i = sample_claim and tokens = "\<lambda>k. ''t''"
      and T = "[sample_slot 2, sample_slot 1]"]
  show ?thesis by (auto simp: sample_gate_def sample_slot_def sample_claim_def)
qed

end
