(* ===== verification/Async_Control.thy ===== *)
theory Async_Control
  imports Prelude
begin

text \<open>
  How background work is driven: the writer that mirrors only the newest value
  (\<open>src/lib/latestOnlyAsyncWriter.ts\<close>), the supervisor that keeps a pipeline lane alive
  (\<open>src/lib/pipelineLoopSupervisor.ts\<close>) and the disk guard that holds it
  (\<open>src/lib/storagePressure.ts\<close>).

  JavaScript runs to the next \<open>await\<close>; a step of the writer is one such run: a push by the client or
  the return of a write. The supervisor is a function of what each turn of its loop observes.
\<close>

section \<open>The latest-only writer\<close>

text \<open>\<open>pending\<close>, \<open>active\<close> and \<open>resolveIdle\<close> are the variables of the closure. The promise handed out by
  \<open>waitForIdle\<close> is a generation number, settled up to some generation. The histories of the values
  pushed and of the writes started are ghosts; \<open>running\<close> are the writes that have not returned.\<close>

record 'a writer =
  wr_pending :: "'a option"
  wr_active :: bool
  wr_resolveIdle :: bool
  wr_idlePromise :: nat
  wr_settled :: nat
  wr_running :: "'a list"
  wr_pushed :: "'a list"
  wr_started :: "'a list"

definition createLatestOnlyAsyncWriter :: "'a writer" where
  "createLatestOnlyAsyncWriter = \<lparr>wr_pending = None, wr_active = False, wr_resolveIdle = False,
     wr_idlePromise = 0, wr_settled = 0, wr_running = [], wr_pushed = [], wr_started = []\<rparr>"

definition ensureBusy :: "'a writer \<Rightarrow> 'a writer" where
  "ensureBusy w =
     (if wr_resolveIdle w then w
      else w\<lparr>wr_idlePromise := wr_idlePromise w + 1, wr_resolveIdle := True\<rparr>)"

definition settleIdle :: "'a writer \<Rightarrow> 'a writer" where
  "settleIdle w =
     (if wr_active w \<or> wr_pending w \<noteq> None then w
      else w\<lparr>wr_resolveIdle := False,
             wr_settled := (if wr_resolveIdle w then wr_idlePromise w else wr_settled w)\<rparr>)"

text \<open>The loop of \<open>drain\<close> up to its next \<open>await\<close>, or to its end.\<close>

definition drain_on :: "'a writer \<Rightarrow> 'a writer" where
  "drain_on w =
     (case wr_pending w of
        Some v \<Rightarrow> w\<lparr>wr_pending := None, wr_running := wr_running w @ [v], wr_started := wr_started w @ [v]\<rparr>
      | None \<Rightarrow> settleIdle (w\<lparr>wr_active := False\<rparr>))"

definition drain :: "'a writer \<Rightarrow> 'a writer" where
  "drain w = (if wr_active w then w else drain_on (w\<lparr>wr_active := True\<rparr>))"

definition push :: "'a \<Rightarrow> 'a writer \<Rightarrow> 'a writer" where
  "push v w = drain (ensureBusy (w\<lparr>wr_pending := Some v, wr_pushed := wr_pushed w @ [v]\<rparr>))"

text \<open>A write returns or fails; both go on with the loop.\<close>

definition write_returned :: "'a \<Rightarrow> 'a writer \<Rightarrow> 'a writer" where
  "write_returned v w = drain_on (w\<lparr>wr_running := remove1 v (wr_running w)\<rparr>)"

inductive writer_step :: "'a writer \<Rightarrow> 'a writer \<Rightarrow> bool" where
  pushed: "writer_step w (push v w)"
| returned: "v \<in> set (wr_running w) \<Longrightarrow> writer_step w (write_returned v w)"

inductive writer_reachable :: "'a writer \<Rightarrow> bool" where
  created: "writer_reachable createLatestOnlyAsyncWriter"
| stepped: "writer_reachable w \<Longrightarrow> writer_step w w' \<Longrightarrow> writer_reachable w'"

inductive_cases writer_stepE: "writer_step w w'"

text \<open>Idle: nothing pending, nothing in flight; then the promise is settled.\<close>

definition writer_inv :: "'a writer \<Rightarrow> bool" where
  "writer_inv w \<longleftrightarrow>
     length (wr_running w) \<le> 1
     \<and> (wr_active w \<longleftrightarrow> wr_running w \<noteq> [])
     \<and> (wr_resolveIdle w \<longleftrightarrow> wr_active w)
     \<and> (wr_pending w \<noteq> None \<longrightarrow> wr_active w)
     \<and> (wr_active w \<longrightarrow> wr_settled w < wr_idlePromise w)
     \<and> (\<not> wr_active w \<longrightarrow> wr_settled w = wr_idlePromise w)
     \<and> subseq (wr_started w @ (case wr_pending w of None \<Rightarrow> [] | Some v \<Rightarrow> [v])) (wr_pushed w)
     \<and> (wr_pushed w \<noteq> [] \<longrightarrow>
          last (wr_pushed w) = (case wr_pending w of Some v \<Rightarrow> v | None \<Rightarrow> last (wr_started w)) \<and>
          (wr_pending w = None \<longrightarrow> wr_started w \<noteq> []))
     \<and> (wr_running w \<noteq> [] \<longrightarrow> wr_started w \<noteq> [] \<and> wr_running w = [last (wr_started w)])"

lemmas writer_defs = push_def drain_def drain_on_def ensureBusy_def settleIdle_def write_returned_def

lemma writer_inv_start: "writer_inv createLatestOnlyAsyncWriter"
  by (simp add: writer_inv_def createLatestOnlyAsyncWriter_def)

lemma subseq_push: "subseq (xs @ ys) zs \<Longrightarrow> subseq (xs @ [v]) (zs @ [v])"
  by (metis list_emb_append_mono subseq_order.order_refl append_Nil2 list_emb_Nil subseq_append' subseq_order.trans)

lemma subseq_start: "subseq (xs @ ys) zs \<Longrightarrow> subseq xs zs"
  by (meson prefixI prefix_imp_subseq subseq_order.order_trans)

lemma writer_inv_push:
  assumes "writer_inv w"
  shows "writer_inv (push v w)"
proof (cases "wr_active w")
  case True
  then have "push v w = w\<lparr>wr_pending := Some v, wr_pushed := wr_pushed w @ [v]\<rparr>"
    using assms by (simp add: writer_defs writer_inv_def)
  with assms True show ?thesis
    by (auto simp: writer_inv_def intro: subseq_push subseq_start)
next
  case False
  then have idle: "wr_running w = []" "wr_pending w = None" "\<not> wr_resolveIdle w"
    using assms by (auto simp: writer_inv_def)
  then have "push v w = w\<lparr>wr_pending := None, wr_active := True, wr_resolveIdle := True,
      wr_idlePromise := wr_idlePromise w + 1, wr_running := [v], wr_pushed := wr_pushed w @ [v],
      wr_started := wr_started w @ [v]\<rparr>"
    using False by (simp add: writer_defs)
  with assms False idle show ?thesis
    by (auto simp: writer_inv_def intro: subseq_push [where ys = "[]", simplified])
qed

lemma writer_inv_returned:
  assumes "writer_inv w" and "v \<in> set (wr_running w)"
  shows "writer_inv (write_returned v w)"
proof -
  have run: "wr_running w = [v]" "wr_active w" "wr_started w \<noteq> []" "v = last (wr_started w)"
    using assms by (auto simp: writer_inv_def)
  show ?thesis
  proof (cases "wr_pending w")
    case None
    with assms(1) run show ?thesis by (auto simp: writer_defs writer_inv_def)
  next
    case (Some x)
    with assms(1) run show ?thesis by (auto simp: writer_defs writer_inv_def)
  qed
qed

lemma writer_reachable_inv: "writer_reachable w \<Longrightarrow> writer_inv w"
proof (induction rule: writer_reachable.induct)
  case (stepped w w')
  from stepped(2,3) show ?case
    by (auto elim!: writer_stepE intro: writer_inv_push writer_inv_returned)
qed (rule writer_inv_start)

text \<open>The oldest write in flight returns, if there is one.\<close>

definition let_return :: "'a writer \<Rightarrow> 'a writer" where
  "let_return w = (case wr_running w of [] \<Rightarrow> w | v # vs \<Rightarrow> write_returned v w)"

lemma let_return_inv: "writer_inv w \<Longrightarrow> writer_inv (let_return w)"
  by (auto simp: let_return_def split: list.split intro: writer_inv_returned)

lemma two_returns_settle:
  assumes "writer_inv w"
  shows "wr_settled (let_return (let_return w)) = wr_idlePromise w"
proof (cases "wr_running w")
  case Nil
  with assms show ?thesis by (auto simp: let_return_def writer_inv_def)
next
  case (Cons v vs)
  with assms have one: "wr_running w = [v]" "wr_active w" "wr_resolveIdle w" by (auto simp: writer_inv_def)
  show ?thesis
    by (cases "wr_pending w") (simp_all add: let_return_def write_returned_def drain_on_def settleIdle_def one)
qed

text \<open>C32. The mirror converges to the newest value: in every reachable state at most one write is in
  flight, writes start in the order of the pushes and only for pushed values, a settled
  \<open>waitForIdle\<close> promise of the newest generation means that nothing is pending or in flight and that
  the last write was for the last value pushed, and two returns of writes settle it, however many
  values were pushed before.\<close>

theorem writer_mirrors_newest:
  assumes "writer_reachable w"
  shows "length (wr_running w) \<le> 1
    \<and> subseq (wr_started w) (wr_pushed w)
    \<and> (wr_settled w = wr_idlePromise w \<longrightarrow> wr_running w = [] \<and> wr_pending w = None
        \<and> (wr_pushed w \<noteq> [] \<longrightarrow> wr_started w \<noteq> [] \<and> last (wr_started w) = last (wr_pushed w)))
    \<and> wr_settled (let_return (let_return w)) = wr_idlePromise w"
proof -
  have inv: "writer_inv w" using assms by (rule writer_reachable_inv)
  then have "subseq (wr_started w) (wr_pushed w)"
    by (auto simp: writer_inv_def intro: subseq_start)
  with inv two_returns_settle [OF inv] show ?thesis by (auto simp: writer_inv_def)
qed

theorem writer_mirrors_newest_witness:
  "wr_running (push (2::nat) (push 1 createLatestOnlyAsyncWriter)) = [1]
    \<and> wr_settled (let_return (let_return (push (2::nat) (push 1 createLatestOnlyAsyncWriter)))) = 1"
proof -
  let ?w = "push (2::nat) (push 1 createLatestOnlyAsyncWriter)"
  have "writer_reachable ?w" by (rule stepped [OF stepped [OF created pushed] pushed])
  note writer_mirrors_newest [OF this]
  moreover have "wr_running ?w = [1] \<and> wr_idlePromise ?w = 1"
    by (simp add: writer_defs createLatestOnlyAsyncWriter_def)
  ultimately show ?thesis by simp
qed

section \<open>The disk guard\<close>

definition GIB :: rat where
  "GIB = 1024 ^ 3"

definition LIMIT_WARNING :: rat where "LIMIT_WARNING = 40 * GIB"
definition LIMIT_COLLECTION :: rat where "LIMIT_COLLECTION = 30 * GIB"
definition LIMIT_CRITICAL :: rat where "LIMIT_CRITICAL = 15 * GIB"

text \<open>The monitor's snapshot is parsed JSON that nothing has checked. \<open>date_of\<close> is \<open>Date.parse\<close> where it
  is finite. A free size that is null or not finite is \<open>None\<close>. The other fields of the result are the
  snapshot's, \<open>sp_base\<close>.\<close>

record storage_pressure =
  sp_base :: "json option"
  sp_level :: string
  sp_freeBytes :: "rat option"
  sp_totalBytes :: "rat option"
  sp_collectionPaused :: bool
  sp_backgroundPaused :: bool
  sp_message :: string

definition is_bool :: "json option \<Rightarrow> bool" where
  "is_bool v \<longleftrightarrow> v = Some (JBool True) \<or> v = Some (JBool False)"

definition unknown_pressure ::
  "(json option \<Rightarrow> ms option) \<Rightarrow> json option \<Rightarrow> rat option \<Rightarrow> rat option \<Rightarrow> ms \<Rightarrow> bool" where
  "unknown_pressure date_of snapshot freeBytes totalBytes now \<longleftrightarrow>
     \<not> is_json_object snapshot
     \<or> json_field snapshot ''version'' \<noteq> Some (JNum 1)
     \<or> json_field snapshot ''level'' = Some (JStr ''unknown'')
     \<or> \<not> is_bool (json_field snapshot ''collectionPaused'') \<or> \<not> is_bool (json_field snapshot ''backgroundPaused'')
     \<or> (case date_of (json_field snapshot ''checkedAt'') of
          None \<Rightarrow> True | Some t \<Rightarrow> 90000 < now - t \<or> now + 5000 < t)
     \<or> (case freeBytes of None \<Rightarrow> True | Some f \<Rightarrow> f < 0)
     \<or> (case totalBytes of None \<Rightarrow> True | Some b \<Rightarrow> b \<le> 0)"

definition host_unknown :: "json option \<Rightarrow> rat option \<Rightarrow> bool" where
  "host_unknown snapshot hostFreeBytes \<longleftrightarrow>
     json_field snapshot ''hostFreeBytes'' \<noteq> None \<and> (case hostFreeBytes of None \<Rightarrow> True | Some h \<Rightarrow> h < 0)"

definition evaluateStoragePressure ::
  "(json option \<Rightarrow> ms option) \<Rightarrow> json option \<Rightarrow> rat option \<Rightarrow> rat option \<Rightarrow> ms \<Rightarrow> rat option \<Rightarrow> storage_pressure" where
  "evaluateStoragePressure date_of snapshot freeBytes totalBytes now hostFreeBytes =
     (if unknown_pressure date_of snapshot freeBytes totalBytes now \<or> host_unknown snapshot hostFreeBytes
      then \<lparr>sp_base = None, sp_level = ''unknown'', sp_freeBytes = freeBytes, sp_totalBytes = totalBytes,
             sp_collectionPaused = True, sp_backgroundPaused = True,
             sp_message = ''Background work is paused because database disk capacity cannot be verified. Your saved jobs remain available.''\<rparr>
      else if json_field snapshot ''level'' = Some (JStr ''maintenance'')
      then \<lparr>sp_base = snapshot, sp_level = ''maintenance'', sp_freeBytes = freeBytes, sp_totalBytes = totalBytes,
             sp_collectionPaused = True, sp_backgroundPaused = True,
             sp_message = ''Background work is paused while completed crawl storage is compacted. Your saved jobs remain available.''\<rparr>
      else
        let available = (case hostFreeBytes of None \<Rightarrow> the freeBytes | Some h \<Rightarrow> min (the freeBytes) h);
            critical = (available < LIMIT_CRITICAL \<or> json_field snapshot ''backgroundPaused'' = Some (JBool True));
            paused = (critical \<or> available < LIMIT_COLLECTION
              \<or> json_field snapshot ''collectionPaused'' = Some (JBool True));
            level = (if critical then ''critical'' else if paused then ''collection_paused''
              else if available < LIMIT_WARNING then ''warning'' else ''normal'')
        in \<lparr>sp_base = snapshot, sp_level = level, sp_freeBytes = freeBytes, sp_totalBytes = totalBytes,
            sp_collectionPaused = paused, sp_backgroundPaused = critical,
            sp_message = (if critical then ''Background work is paused to preserve database space. Your saved jobs remain available.''
              else if paused then ''New collection is paused to preserve database space. Saved work can finish; your jobs remain available.''
              else if level = ''warning'' then ''Database disk space is low. Collection will pause before the reserve is exhausted.''
              else [])\<rparr>)"

text \<open>What one look at the machine finds: the status file, \<open>None\<close> when it cannot be read or parsed or the
  database disk is not mounted, and the sizes of the disk and, if the snapshot asks for it, of the
  root file system.\<close>

record disk_probe =
  dk_snapshot :: json
  dk_freeBytes :: rat
  dk_totalBytes :: rat
  dk_hostFreeBytes :: rat

definition probed_pressure :: "(json option \<Rightarrow> ms option) \<Rightarrow> disk_probe option \<Rightarrow> ms \<Rightarrow> storage_pressure" where
  "probed_pressure date_of probe now =
     (case probe of
        None \<Rightarrow> evaluateStoragePressure date_of None None None now None
      | Some d \<Rightarrow>
          if dk_snapshot d = JNull then evaluateStoragePressure date_of None None None now None
          else evaluateStoragePressure date_of (Some (dk_snapshot d)) (Some (dk_freeBytes d)) (Some (dk_totalBytes d)) now
            (if json_field (Some (dk_snapshot d)) ''hostFreeBytes'' = None then None else Some (dk_hostFreeBytes d)))"

text \<open>The answer is cached for a second. \<open>guarded\<close> tells whether this host watches a disk at all.\<close>

definition readStoragePressure ::
  "(json option \<Rightarrow> ms option) \<Rightarrow> bool \<Rightarrow> disk_probe option \<Rightarrow> ms \<Rightarrow> (ms \<times> storage_pressure) option
    \<Rightarrow> storage_pressure \<times> (ms \<times> storage_pressure) option" where
  "readStoragePressure date_of guarded probe now cached =
     (if \<not> guarded
      then (\<lparr>sp_base = None, sp_level = ''disabled'', sp_freeBytes = None, sp_totalBytes = None,
              sp_collectionPaused = False, sp_backgroundPaused = False, sp_message = []\<rparr>, cached)
      else
        let fresh = probed_pressure date_of probe now in
        case cached of
          Some (t, v) \<Rightarrow> if now - t < 1000 then (v, cached) else (fresh, Some (now, fresh))
        | None \<Rightarrow> (fresh, Some (now, fresh)))"

datatype storage_work = Collection | Background

definition storageAllows :: "storage_work \<Rightarrow> storage_pressure \<Rightarrow> bool" where
  "storageAllows work state =
     (case work of Collection \<Rightarrow> \<not> sp_collectionPaused state | Background \<Rightarrow> \<not> sp_backgroundPaused state)"

section \<open>The supervisor of a lane\<close>

text \<open>What one turn of the loop observes, in the order of the code: whether the signal is aborted when the
  turn starts, the answer of \<open>shouldStop\<close> (\<open>None\<close>: it throws), the signal after it, \<open>canRun\<close>, whether
  the lane returns or throws, and the signal and \<open>shouldStop\<close> after that and, when a failure is
  handled, once more.\<close>

record turn =
  tu_aborted :: bool
  tu_stop :: "bool option"
  tu_abortedThen :: bool
  tu_canRun :: bool
  tu_laneReturns :: bool
  tu_abortedAfter :: bool
  tu_stopAfter :: "bool option"
  tu_abortedInHandler :: bool
  tu_stopInHandler :: "bool option"

datatype lane_action = StoragePauseChange bool | Wait int | LaneRun | LaneError nat

datatype ending = Stopped | Rejected | StillRunning

definition backoffMs :: "nat \<Rightarrow> int" where
  "backoffMs consecutiveFailures = min 60000 (1000 * 2 ^ min (consecutiveFailures - 1) 6)"

text \<open>What follows a run of the lane: \<open>Inl\<close> ends the supervisor, \<open>Inr\<close> carries on with the number of
  consecutive failures.\<close>

definition lane_failed :: "nat \<Rightarrow> turn \<Rightarrow> lane_action list \<times> (ending + nat)" where
  "lane_failed consecutiveFailures t =
     (if tu_abortedInHandler t then ([], Inl Stopped)
      else case tu_stopInHandler t of
        None \<Rightarrow> ([], Inl Rejected)
      | Some True \<Rightarrow> ([], Inl Stopped)
      | Some False \<Rightarrow>
          let n = consecutiveFailures + 1 in ([LaneError n, Wait (backoffMs n)], Inr n))"

definition lane_run :: "nat \<Rightarrow> turn \<Rightarrow> lane_action list \<times> (ending + nat)" where
  "lane_run consecutiveFailures t =
     (if \<not> tu_laneReturns t then lane_failed consecutiveFailures t
      else if tu_abortedAfter t then ([], Inl Stopped)
      else case tu_stopAfter t of
        None \<Rightarrow> lane_failed consecutiveFailures t
      | Some True \<Rightarrow> ([], Inl Stopped)
      | Some False \<Rightarrow> ([Wait 1000], Inr 0))"

fun supervisePipelineLoop :: "nat \<Rightarrow> bool \<Rightarrow> turn list \<Rightarrow> lane_action list \<times> ending" where
  "supervisePipelineLoop consecutiveFailures storagePaused [] = ([], StillRunning)"
| "supervisePipelineLoop consecutiveFailures storagePaused (t # ts) =
     (if tu_aborted t then ([], Stopped)
      else case tu_stop t of
        None \<Rightarrow> ([], Rejected)
      | Some stop \<Rightarrow>
          if stop \<or> tu_abortedThen t then ([], Stopped)
          else if \<not> tu_canRun t
          then (let (actions, end') = supervisePipelineLoop consecutiveFailures True ts in
            ((if storagePaused then [] else [StoragePauseChange True]) @ Wait 5000 # actions, end'))
          else
            let resumed = (if storagePaused then [StoragePauseChange False] else []);
                (after, next) = lane_run consecutiveFailures t
            in (case next of
                  Inl e \<Rightarrow> (resumed @ LaneRun # after, e)
                | Inr n \<Rightarrow>
                    let (actions, end') = supervisePipelineLoop n False ts in
                    (resumed @ LaneRun # after @ actions, end')))"

section \<open>Properties of the guard and of the supervisor\<close>

definition storage_floor :: "storage_work \<Rightarrow> rat" where
  "storage_floor work = (case work of Collection \<Rightarrow> LIMIT_COLLECTION | Background \<Rightarrow> LIMIT_CRITICAL)"

lemma floors_ordered: "LIMIT_CRITICAL < LIMIT_COLLECTION"
  by (simp add: LIMIT_CRITICAL_def LIMIT_COLLECTION_def GIB_def)

text \<open>The disk guard fails closed, and only then: unattended work is allowed exactly when the
  monitor's snapshot is well formed, at most 90 seconds old and not from the future, reports neither
  maintenance nor an unknown level nor a pause of this work or of all background work, and every free
  size it must look at is known and at or above the floor of this work.\<close>

theorem storage_guard_exact:
  "storageAllows work (evaluateStoragePressure date_of snapshot freeBytes totalBytes now hostFreeBytes) \<longleftrightarrow>
     (\<exists>t f b. json_field snapshot ''version'' = Some (JNum 1)
        \<and> json_field snapshot ''level'' \<notin> {Some (JStr ''unknown''), Some (JStr ''maintenance'')}
        \<and> json_field snapshot ''backgroundPaused'' = Some (JBool False)
        \<and> (if work = Collection then json_field snapshot ''collectionPaused'' = Some (JBool False)
           else is_bool (json_field snapshot ''collectionPaused''))
        \<and> date_of (json_field snapshot ''checkedAt'') = Some t \<and> now - 90000 \<le> t \<and> t \<le> now + 5000
        \<and> freeBytes = Some f \<and> storage_floor work \<le> f
        \<and> totalBytes = Some b \<and> 0 < b
        \<and> (case hostFreeBytes of
             None \<Rightarrow> json_field snapshot ''hostFreeBytes'' = None
           | Some h \<Rightarrow> storage_floor work \<le> h))"
  (is "?allowed \<longleftrightarrow> ?exact")
proof -
  have pos: "0 < LIMIT_CRITICAL" "LIMIT_CRITICAL < LIMIT_COLLECTION"
    by (simp_all add: LIMIT_CRITICAL_def LIMIT_COLLECTION_def GIB_def)
  have object: "json_field snapshot ''version'' = Some v \<Longrightarrow> is_json_object snapshot" for v
    by (cases "(snapshot, ''version'')" rule: json_field.cases) auto
  show ?thesis
  proof (cases "unknown_pressure date_of snapshot freeBytes totalBytes now \<or> host_unknown snapshot hostFreeBytes")
    case True
    then have "\<not> ?allowed" by (simp add: evaluateStoragePressure_def storageAllows_def split: storage_work.split)
    moreover have "\<not> ?exact"
      using True pos object
      by (auto simp: unknown_pressure_def host_unknown_def is_bool_def storage_floor_def
          split: option.splits storage_work.splits if_splits)
    ultimately show ?thesis by blast
  next
    case known: False
    then obtain t f b where k: "date_of (json_field snapshot ''checkedAt'') = Some t" "now - 90000 \<le> t" "t \<le> now + 5000"
      "freeBytes = Some f" "0 \<le> f" "totalBytes = Some b" "0 < b" "json_field snapshot ''version'' = Some (JNum 1)"
      "json_field snapshot ''level'' \<noteq> Some (JStr ''unknown'')"
      "is_bool (json_field snapshot ''collectionPaused'')" "is_bool (json_field snapshot ''backgroundPaused'')"
      "case hostFreeBytes of None \<Rightarrow> json_field snapshot ''hostFreeBytes'' = None | Some h \<Rightarrow> True"
      by (auto simp: unknown_pressure_def host_unknown_def not_less not_le split: option.splits)
    show ?thesis
    proof (cases "json_field snapshot ''level'' = Some (JStr ''maintenance'')")
      case True
      with known show ?thesis by (simp add: evaluateStoragePressure_def storageAllows_def split: storage_work.split)
    next
      case False
      have "?allowed \<longleftrightarrow> json_field snapshot ''backgroundPaused'' = Some (JBool False)
          \<and> (work = Collection \<longrightarrow> json_field snapshot ''collectionPaused'' = Some (JBool False))
          \<and> storage_floor work \<le> f \<and> (case hostFreeBytes of None \<Rightarrow> True | Some h \<Rightarrow> storage_floor work \<le> h)"
        using known False k(4,10,11) pos
        by (cases work; cases hostFreeBytes)
          (auto simp: evaluateStoragePressure_def storageAllows_def storage_floor_def is_bool_def Let_def min_def not_less)
      with k False show ?thesis by (auto split: option.splits)
    qed
  qed
qed

text \<open>A turn in which nobody asks the lane to stop.\<close>

definition calm :: "turn \<Rightarrow> bool" where
  "calm t \<longleftrightarrow> \<not> tu_aborted t \<and> tu_stop t = Some False \<and> \<not> tu_abortedThen t \<and> \<not> tu_abortedAfter t
     \<and> tu_stopAfter t \<noteq> Some True \<and> \<not> tu_abortedInHandler t \<and> tu_stopInHandler t = Some False"

text \<open>The notifications of a storage pause alternate, and the waits follow every run.\<close>

fun alternating :: "bool \<Rightarrow> lane_action list \<Rightarrow> bool" where
  "alternating paused [] = True"
| "alternating paused (StoragePauseChange b # as) = (b \<noteq> paused \<and> alternating b as)"
| "alternating paused (a # as) = alternating paused as"

fun waits_between :: "bool \<Rightarrow> lane_action list \<Rightarrow> bool" where
  "waits_between rested [] = True"
| "waits_between rested (LaneRun # as) = (rested \<and> waits_between False as)"
| "waits_between rested (Wait m # as) = (1000 \<le> m \<and> m \<le> 60000 \<and> waits_between True as)"
| "waits_between rested (a # as) = waits_between rested as"

text \<open>The closed form of a calm run. A run of the lane succeeds when it returns and \<open>shouldStop\<close> answers
  after it; the streak before a turn is the number of failed runs since the last one that succeeded; the
  \<open>n\<close>-th failure of a streak waits one second doubled \<open>n - 1\<close> times, and a minute at most.\<close>

definition run_succeeds :: "turn \<Rightarrow> bool" where
  "run_succeeds t \<longleftrightarrow> tu_laneReturns t \<and> tu_stopAfter t = Some False"

definition streak_before :: "nat \<Rightarrow> turn list \<Rightarrow> nat \<Rightarrow> nat" where
  "streak_before failures turns i =
     (let runs = map run_succeeds (filter tu_canRun (take i turns))
      in if True \<in> set runs then length (takeWhile Not (rev runs)) else failures + length runs)"

definition paused_before :: "bool \<Rightarrow> turn list \<Rightarrow> nat \<Rightarrow> bool" where
  "paused_before paused turns i = (if i = 0 then paused else \<not> tu_canRun (turns ! (i - 1)))"

definition turn_actions :: "nat \<Rightarrow> bool \<Rightarrow> turn list \<Rightarrow> nat \<Rightarrow> lane_action list" where
  "turn_actions failures paused turns i =
     (let t = turns ! i; n = streak_before failures turns i + 1 in
      (if paused_before paused turns i = tu_canRun t then [StoragePauseChange (\<not> tu_canRun t)] else [])
      @ (if \<not> tu_canRun t then [Wait 5000]
         else if run_succeeds t then [LaneRun, Wait 1000]
         else [LaneRun, LaneError n, Wait (min 60000 (1000 * 2 ^ (n - 1)))]))"

lemma backoff_doubles: "backoffMs n = min 60000 (1000 * 2 ^ (n - 1))"
proof (cases "n - 1 \<le> 6")
  case False
  then have "(2::int) ^ 6 \<le> 2 ^ (n - 1)" by (intro power_increasing) auto
  then have "(60000::int) \<le> 1000 * 2 ^ (n - 1)" by simp
  with False show ?thesis by (simp add: backoffMs_def min_def)
qed (simp add: backoffMs_def)

lemma calm_run_result:
  assumes "calm t"
  shows "lane_run k t = (if run_succeeds t then ([Wait 1000], Inr 0)
    else ([LaneError (k + 1), Wait (min 60000 (1000 * 2 ^ k))], Inr (k + 1)))"
  using assms
  by (auto simp: lane_run_def lane_failed_def calm_def run_succeeds_def Let_def backoff_doubles split: option.split)

lemma streak_later:
  "streak_before failures (t # ts) (Suc i)
     = streak_before (if tu_canRun t then if run_succeeds t then 0 else failures + 1 else failures) ts i"
proof -
  let ?runs = "map run_succeeds (filter tu_canRun (take i ts))"
  have seen: "takeWhile Not (rev ?runs @ [x]) = takeWhile Not (rev ?runs)" if "True \<in> set ?runs" for x
    using that takeWhile_append1 [of True "rev ?runs" Not "[x]"] by simp
  have unseen: "takeWhile Not (rev ?runs @ [True]) = rev ?runs" if "True \<notin> set ?runs"
    using that takeWhile_append2 [of "rev ?runs" Not "[True]"] by auto
  show ?thesis
    by (cases "True \<in> set ?runs"; cases "tu_canRun t"; cases "run_succeeds t")
      (use seen unseen in \<open>auto simp: streak_before_def Let_def\<close>)
qed

lemma turn_later:
  "turn_actions failures paused (t # ts) (Suc i)
     = turn_actions (if tu_canRun t then if run_succeeds t then 0 else failures + 1 else failures) (\<not> tu_canRun t) ts i"
  by (cases i) (simp_all add: turn_actions_def streak_later paused_before_def)

lemma turns_Cons: "concat (map (turn_actions failures paused (t # ts)) [0..<length (t # ts)])
    = turn_actions failures paused (t # ts) 0
      @ concat (map (turn_actions (if tu_canRun t then if run_succeeds t then 0 else failures + 1 else failures)
          (\<not> tu_canRun t) ts) [0..<length ts])"
proof -
  have "map (turn_actions failures paused (t # ts)) [Suc 0..<Suc (length ts)]
      = map (\<lambda>i. turn_actions failures paused (t # ts) (Suc i)) [0..<length ts]"
    unfolding map_Suc_upt [symmetric] map_map comp_def by (rule refl)
  then show ?thesis by (simp add: upt_conv_Cons turn_later del: upt_Suc)
qed

lemma turn_first:
  "turn_actions failures paused (t # ts) 0 =
     (if \<not> tu_canRun t then (if paused then [] else [StoragePauseChange True]) @ [Wait 5000]
      else (if paused then [StoragePauseChange False] else [])
        @ (if run_succeeds t then [LaneRun, Wait 1000]
           else [LaneRun, LaneError (failures + 1), Wait (min 60000 (1000 * 2 ^ failures))]))"
  by (simp add: turn_actions_def Let_def paused_before_def streak_before_def)

text \<open>C33. A lane outlives its failures and its storage pauses. As long as nobody asks it to stop, and the
  question whether to stop is answered before a run and in the handler of a failure, the supervisor never
  ends, and what it does is, turn by turn: without storage a wait of five seconds; otherwise one run of the
  lane, followed by a wait of one second when it succeeds, or else by the report of the failure with its
  number in the current streak of failures and a wait of one second doubled with each earlier failure of the
  streak, of a minute at most. A success ends the streak, a storage pause does not. Pauses and their
  ends are reported exactly when they begin and end.\<close>

theorem lane_outlives_failures:
  assumes "supervisePipelineLoop failures paused turns = (actions, end')"
    and "\<forall>t \<in> set turns. calm t"
  shows "end' = StillRunning
    \<and> actions = concat (map (turn_actions failures paused turns) [0..<length turns])
    \<and> length (filter (\<lambda>a. a = LaneRun) actions) = length (filter tu_canRun turns)
    \<and> waits_between True actions \<and> alternating paused actions"
  using assms
proof (induction turns arbitrary: failures paused actions end')
  case (Cons t ts)
  then have calm: "calm t" and rest: "\<forall>t \<in> set ts. calm t" by auto
  have head: "\<not> tu_aborted t" "tu_stop t = Some False" "\<not> tu_abortedThen t" using calm by (auto simp: calm_def)
  show ?case
  proof (cases "tu_canRun t")
    case False
    obtain as e where r: "supervisePipelineLoop failures True ts = (as, e)" by fastforce
    have "actions = (if paused then [] else [StoragePauseChange True]) @ Wait 5000 # as" "end' = e"
      using Cons.prems(1) head False r by (auto simp: Let_def)
    with Cons.IH [OF r rest] False show ?thesis unfolding turns_Cons turn_first by auto
  next
    case True
    let ?n = "if run_succeeds t then 0 else failures + 1"
    let ?after = "if run_succeeds t then [Wait 1000] else [LaneError (failures + 1), Wait (min 60000 (1000 * 2 ^ failures))]"
    have l: "lane_run failures t = (?after, Inr ?n)" using calm_run_result [OF calm] by simp
    obtain as e where r: "supervisePipelineLoop ?n False ts = (as, e)" by fastforce
    have acts: "actions = (if paused then [StoragePauseChange False] else []) @ LaneRun # ?after @ as" and e: "end' = e"
      using Cons.prems(1) head True l r by (simp_all only: supervisePipelineLoop.simps Let_def prod.case sum.case option.case
          if_False if_True not_True_eq_False simp_thms append_Cons append_assoc prod.inject)
    note IH = Cons.IH [OF r rest]
    have as: "as = concat (map (turn_actions ?n False ts) [0..<length ts])"
      and runs: "length (filter (\<lambda>a. a = LaneRun) as) = length (filter tu_canRun ts)"
      and waits: "waits_between True as" and alt: "alternating False as" and running: "e = StillRunning"
      using IH by blast+
    have "actions = concat (map (turn_actions failures paused (t # ts)) [0..<length (t # ts)])"
      unfolding turns_Cons turn_first acts as using True by simp
    moreover have "length (filter (\<lambda>a. a = LaneRun) actions) = length (filter tu_canRun (t # ts))"
      using True runs by (simp add: acts)
    moreover have "waits_between True actions" "alternating paused actions" using waits alt by (simp_all add: acts)
    ultimately show ?thesis unfolding e running by blast
  qed
qed auto

definition sample_turn :: "bool \<Rightarrow> bool \<Rightarrow> turn" where
  "sample_turn canRun ok = \<lparr>tu_aborted = False, tu_stop = Some False, tu_abortedThen = False, tu_canRun = canRun,
     tu_laneReturns = ok, tu_abortedAfter = False, tu_stopAfter = Some False, tu_abortedInHandler = False,
     tu_stopInHandler = Some False\<rparr>"

theorem lane_outlives_failures_witness:
  "supervisePipelineLoop 0 False [sample_turn True False, sample_turn False True, sample_turn True False]
     = ([LaneRun, LaneError 1, Wait 1000, StoragePauseChange True, Wait 5000, StoragePauseChange False,
         LaneRun, LaneError 2, Wait 2000], StillRunning)
   \<and> waits_between True [LaneRun, LaneError 1, Wait 1000, StoragePauseChange True, Wait 5000,
         StoragePauseChange False, LaneRun, LaneError 2, Wait 2000]"
proof -
  have run: "supervisePipelineLoop 0 False [sample_turn True False, sample_turn False True, sample_turn True False]
     = ([LaneRun, LaneError 1, Wait 1000, StoragePauseChange True, Wait 5000, StoragePauseChange False,
         LaneRun, LaneError 2, Wait 2000], StillRunning)"
    by code_simp
  moreover have "\<forall>t \<in> set [sample_turn True False, sample_turn False True, sample_turn True False]. calm t"
    by (simp add: sample_turn_def calm_def)
  ultimately show ?thesis using lane_outlives_failures [OF run] by blast
qed

end
