(* ===== verification/Applied_Repeat.thy ===== *)
theory Applied_Repeat
  imports Manual_Import Lifecycle_Intent Canonical_Json
begin

text \<open>
  Recognising and hiding postings that repeat a job the user has applied to: the judgement of one
  pair (\<open>src/lib/appliedRepeatMatch.ts\<close>) and the decisions taken on it
  (\<open>src/lib/appliedDuplicateStore.ts\<close>).

  The presentation rules for names, titles and places are the fields of \<open>repeat_rules\<close>
  (\<open>repeatTitleKey\<close>, \<open>isForeignText\<close>, \<open>optionGeo\<close> of the same file, \<open>employerAliasKey\<close>,
  \<open>companyIdentityKey\<close>, \<open>normalizeJobLocation\<close>, \<open>splitLocationOptions\<close>, and the words of a cleaned
  description). Nothing is assumed of them: what is shown holds whatever they answer.
\<close>

section \<open>Comparing two postings\<close>

record option_geo =
  og_foreign :: bool
  og_broad :: bool
  og_states :: "string list"
  og_city :: string
  og_metro :: bool

record repeat_rules =
  rr_titleKey :: "string option \<Rightarrow> string"
  rr_companyKey :: "string option \<Rightarrow> string"
  rr_aliasKey :: "string \<Rightarrow> string"
  rr_location :: "string \<Rightarrow> string"
  rr_options :: "string \<Rightarrow> string list"
  rr_foreign :: "string \<Rightarrow> bool"
  rr_geo :: "string \<Rightarrow> option_geo"
  rr_words :: "string \<Rightarrow> string list"

record repeat_subject =
  rp_id :: string
  rp_title :: "string option"
  rp_company :: "string option"
  rp_employer :: "string option"
  rp_location :: "string option"
  rp_description :: "string option"

datatype employer_relation = SameEmployer | PrefixEmployer
datatype location_relation = EqualPlace | CompatiblePlace | ConflictingPlace
datatype repeat_rule = IdentityRule | DescriptionRule

record repeat_evidence =
  re_rule :: repeat_rule
  re_employer :: employer_relation
  re_location :: location_relation
  re_containment :: "rat option"

definition REPEAT_DESCRIPTION_CONTAINMENT :: rat where "REPEAT_DESCRIPTION_CONTAINMENT = 4 / 5"
definition REPEAT_MIN_SHINGLES :: nat where "REPEAT_MIN_SHINGLES = 150"
definition REPEAT_IDENTITY_VETO_CONTAINMENT :: rat where "REPEAT_IDENTITY_VETO_CONTAINMENT = 1 / 2"
definition SHINGLE_WORDS :: nat where "SHINGLE_WORDS = 5"
definition MIN_EMPLOYER_PREFIX :: nat where "MIN_EMPLOYER_PREFIX = 4"

definition JOINED_SUFFIXES :: "string list" where
  "JOINED_SUFFIXES = [''operatingllc'', ''incorporated'', ''corporation'', ''company'', ''limited'', ''corp'',
     ''llc'', ''ltd'', ''plc'', ''inc'', ''co'']"

definition is_digit :: "char \<Rightarrow> bool" where
  "is_digit c \<longleftrightarrow> c \<in> set ''0123456789''"

definition repeatEmployerKey :: "repeat_rules \<Rightarrow> string option \<Rightarrow> string" where
  "repeatEmployerKey R company =
     (let key = rev (dropWhile is_digit (rev (filter (\<lambda>c. \<not> is_space c) (rr_companyKey R company)))) in
      case find (\<lambda>sfx. ends_with key sfx \<and> MIN_EMPLOYER_PREFIX \<le> length key - length sfx) JOINED_SUFFIXES of
        None \<Rightarrow> key
      | Some sfx \<Rightarrow> take (length key - length sfx) key)"

definition employerRelation :: "repeat_rules \<Rightarrow> string option \<Rightarrow> string option \<Rightarrow> employer_relation option" where
  "employerRelation R left right =
     (let a = repeatEmployerKey R left; b = repeatEmployerKey R right in
      if a = [] \<or> b = [] then None
      else if a = b then Some SameEmployer
      else
        let (shorter, longer) = (if length a \<le> length b then (a, b) else (b, a)) in
        if MIN_EMPLOYER_PREFIX \<le> length shorter \<and> starts_with longer shorter then Some PrefixEmployer else None)"

text \<open>A row count instead of a place, as Workday writes it: digits, blanks, \<open>location\<close> or
  \<open>locations\<close>.\<close>

definition isWorkdayLocationsPlaceholder :: "string \<Rightarrow> bool" where
  "isWorkdayLocationsPlaceholder location =
     (let t = to_lower (trim location); digits = takeWhile is_digit t;
          blanks = takeWhile is_space (dropWhile is_digit t); word = dropWhile is_space (dropWhile is_digit t)
      in digits \<noteq> [] \<and> blanks \<noteq> [] \<and> (word = ''location'' \<or> word = ''locations''))"

definition isMissingLocation :: "repeat_rules \<Rightarrow> string option \<Rightarrow> bool" where
  "isMissingLocation R location =
     (let value = trim (str_or location []) in
      value = [] \<or> isWorkdayLocationsPlaceholder value
      \<or> list_ex isWorkdayLocationsPlaceholder (rr_options R value)
      \<or> rr_location R value = ''unknown'')"

definition optionsCompatible :: "option_geo \<Rightarrow> option_geo \<Rightarrow> bool \<Rightarrow> bool" where
  "optionsCompatible left right metroEquivalence =
     (if og_foreign left \<or> og_foreign right then False
      else if og_broad left \<or> og_broad right then True
      else if metroEquivalence \<and> og_metro left \<and> og_metro right then True
      else
        let statesKnown = (og_states left \<noteq> [] \<and> og_states right \<noteq> []) in
        if statesKnown \<and> \<not> list_ex (\<lambda>s. s \<in> set (og_states right)) (og_states left) then False
        else if og_city left \<noteq> [] \<and> og_city right \<noteq> [] then og_city left = og_city right
        else statesKnown)"

definition place_geos :: "repeat_rules \<Rightarrow> string \<Rightarrow> option_geo list" where
  "place_geos R value =
     (let options = rr_options R value;
          all = map (rr_geo R) (if options \<noteq> [] then options else [value]);
          specific = filter (\<lambda>g. \<not> og_broad g \<and> \<not> og_foreign g) all
      in if specific \<noteq> [] then specific else filter (\<lambda>g. \<not> og_foreign g) all)"

definition singleNamedCity :: "repeat_rules \<Rightarrow> string option \<Rightarrow> string option" where
  "singleNamedCity R location =
     (let value = str_or location [] in
      if isMissingLocation R (Some value) \<or> rr_foreign R value then None
      else
        let options = rr_options R value;
            specific = filter (\<lambda>g. \<not> og_broad g \<and> \<not> og_foreign g)
              (map (rr_geo R) (if options \<noteq> [] then options else [value]))
        in case specific of
             [g] \<Rightarrow> if og_city g \<noteq> [] \<and> length (og_states g) \<le> 1 then Some (og_city g) else None
           | _ \<Rightarrow> None)"

definition repeatLocationRelation ::
  "repeat_rules \<Rightarrow> bool \<Rightarrow> string option \<Rightarrow> string option \<Rightarrow> location_relation" where
  "repeatLocationRelation R metroEquivalence left right =
     (let a = str_or left []; b = str_or right []; na = rr_location R a; nb = rr_location R b in
      if na = nb then EqualPlace
      else if rr_foreign R a \<or> rr_foreign R b
      then (if rr_foreign R a \<noteq> rr_foreign R b then ConflictingPlace
            else if str_includes na nb \<or> str_includes nb na then CompatiblePlace else ConflictingPlace)
      else if isMissingLocation R (Some a) \<or> isMissingLocation R (Some b) then CompatiblePlace
      else
        let ga = place_geos R a; gb = place_geos R b in
        if ga = [] \<or> gb = [] then ConflictingPlace
        else if list_ex (\<lambda>g. list_ex (\<lambda>h. optionsCompatible g h metroEquivalence) gb) ga
        then CompatiblePlace else ConflictingPlace)"

text \<open>The five-word runs of a description, each once.\<close>

definition descriptionShingles :: "repeat_rules \<Rightarrow> string option \<Rightarrow> string list" where
  "descriptionShingles R description =
     (let words = rr_words R (str_or description []) in
      dedup (map (\<lambda>i. join '' '' (take SHINGLE_WORDS (drop i words))) [0..<length words + 1 - SHINGLE_WORDS]))"

definition descriptionContainment :: "string list \<Rightarrow> string list \<Rightarrow> rat option" where
  "descriptionContainment left right =
     (if length left < REPEAT_MIN_SHINGLES \<or> length right < REPEAT_MIN_SHINGLES then None
      else
        let (smaller, larger) = (if length left \<le> length right then (left, right) else (right, left)) in
        Some (of_nat (length (filter (\<lambda>s. s \<in> set larger) smaller)) / of_nat (length smaller)))"

text \<open>The runs are computed once for each subject; the cache is keyed by the identifier.\<close>

type_synonym shingle_cache = "string \<Rightarrow> string list option"

definition shinglesFor ::
  "repeat_rules \<Rightarrow> 'a repeat_subject_scheme \<Rightarrow> shingle_cache \<Rightarrow> string list \<times> shingle_cache" where
  "shinglesFor R subject cache =
     (case cache (rp_id subject) of
        Some shingles \<Rightarrow> (shingles, cache)
      | None \<Rightarrow>
          let shingles = descriptionShingles R (rp_description subject) in
          (shingles, cache(rp_id subject \<mapsto> shingles)))"

section \<open>The judgement\<close>

definition subjectEmployerRelation ::
  "repeat_rules \<Rightarrow> 'a repeat_subject_scheme \<Rightarrow> 'b repeat_subject_scheme \<Rightarrow> employer_relation option" where
  "subjectEmployerRelation R left right =
     (if truthy (rp_employer left) \<and> truthy (rp_employer right)
         \<and> rr_aliasKey R (the (rp_employer left)) = rr_aliasKey R (the (rp_employer right))
      then Some SameEmployer
      else employerRelation R
        (if truthy (rp_employer left) then rp_employer left else rp_company left)
        (if truthy (rp_employer right) then rp_employer right else rp_company right))"

definition mayRepeat :: "repeat_rules \<Rightarrow> 'a repeat_subject_scheme \<Rightarrow> 'b repeat_subject_scheme \<Rightarrow> bool" where
  "mayRepeat R candidate authority =
     (let title = rr_titleKey R (rp_title candidate) in
      title \<noteq> [] \<and> title = rr_titleKey R (rp_title authority)
      \<and> subjectEmployerRelation R candidate authority \<noteq> None)"

text \<open>The judgement once the runs of both descriptions are known.\<close>

definition judged ::
  "repeat_rules \<Rightarrow> string option \<Rightarrow> employer_relation \<Rightarrow> location_relation \<Rightarrow> rat option \<Rightarrow> repeat_evidence option" where
  "judged R candidateLocation employer location containment =
     (if employer = SameEmployer \<and> location = EqualPlace \<and> \<not> isMissingLocation R candidateLocation
         \<and> \<not> (case containment of None \<Rightarrow> False | Some c \<Rightarrow> c < REPEAT_IDENTITY_VETO_CONTAINMENT)
      then Some \<lparr>re_rule = IdentityRule, re_employer = employer, re_location = location, re_containment = containment\<rparr>
      else if (case containment of None \<Rightarrow> False | Some c \<Rightarrow> REPEAT_DESCRIPTION_CONTAINMENT \<le> c)
      then Some \<lparr>re_rule = DescriptionRule, re_employer = employer, re_location = location, re_containment = containment\<rparr>
      else None)"

definition judgeAppliedRepeat ::
  "repeat_rules \<Rightarrow> 'a repeat_subject_scheme \<Rightarrow> 'b repeat_subject_scheme \<Rightarrow> shingle_cache
    \<Rightarrow> repeat_evidence option \<times> shingle_cache" where
  "judgeAppliedRepeat R candidate authority cache =
     (if rp_id candidate = rp_id authority \<or> \<not> mayRepeat R candidate authority then (None, cache)
      else
        let employer = the (subjectEmployerRelation R candidate authority);
            location = repeatLocationRelation R True (rp_location candidate) (rp_location authority)
        in if location = ConflictingPlace then (None, cache)
           else
             let (left, cache1) = shinglesFor R candidate cache;
                 (right, cache2) = shinglesFor R authority cache1
             in (judged R (rp_location candidate) employer location (descriptionContainment left right), cache2))"

record repeat_authority = repeat_subject +
  ra_status :: string
  ra_passReason :: "string option"

definition repeat_rank :: "repeat_authority \<times> repeat_evidence \<Rightarrow> nat \<times> nat \<times> rat" where
  "repeat_rank entry =
     (if ra_status (fst entry) \<in> set [''applied'', ''interviewing''] then 1 else 0,
      if re_rule (snd entry) = IdentityRule then 1 else 0,
      case re_containment (snd entry) of None \<Rightarrow> 0 | Some c \<Rightarrow> c)"

definition outranks :: "nat \<times> nat \<times> rat \<Rightarrow> nat \<times> nat \<times> rat \<Rightarrow> bool" where
  "outranks a b =
     (case (a, b) of ((a1, a2, a3), (b1, b2, b3)) \<Rightarrow>
        b1 < a1 \<or> (a1 = b1 \<and> (b2 < a2 \<or> (a2 = b2 \<and> b3 < a3))))"

fun select_loop ::
  "repeat_rules \<Rightarrow> 'a repeat_subject_scheme \<Rightarrow> repeat_authority list \<Rightarrow> shingle_cache
    \<Rightarrow> (repeat_authority \<times> repeat_evidence) option \<Rightarrow> (repeat_authority \<times> repeat_evidence) option" where
  "select_loop R candidate [] cache best = best"
| "select_loop R candidate (a # as) cache best =
     (case judgeAppliedRepeat R candidate a cache of
        (None, cache') \<Rightarrow> select_loop R candidate as cache' best
      | (Some evidence, cache') \<Rightarrow>
          select_loop R candidate as cache'
            (case best of
               None \<Rightarrow> Some (a, evidence)
             | Some b \<Rightarrow> if outranks (repeat_rank (a, evidence)) (repeat_rank b) then Some (a, evidence) else Some b))"

definition selectAppliedRepeat ::
  "repeat_rules \<Rightarrow> 'a repeat_subject_scheme \<Rightarrow> repeat_authority list \<Rightarrow> (repeat_authority \<times> repeat_evidence) option" where
  "selectAppliedRepeat R candidate authorities = select_loop R candidate authorities Map.empty None"

section \<open>The decisions\<close>

text \<open>A row of the Job table and the events of each job. \<open>ev j\<close> lists the events of the job with
  identifier \<open>j\<close>, in any order.\<close>

record repeat_job = repeat_authority +
  rj_source :: "string option"
  rj_sourceId :: "string option"
  rj_scoringStatus :: string
  rj_scoreError :: "string option"
  rj_aimFitScore :: "int option"
  rj_reqFitScore :: "int option"

definition APPLIED_DUPLICATE_AUTHORITY_STATUSES :: "string list" where
  "APPLIED_DUPLICATE_AUTHORITY_STATUSES = [''applied'', ''interviewing'']"

definition ALREADY_APPLIED_REASON :: string where
  "ALREADY_APPLIED_REASON = ''Already applied''"

definition isAlreadyAppliedReason :: "string option \<Rightarrow> bool" where
  "isAlreadyAppliedReason passReason \<longleftrightarrow> passReason = Some ALREADY_APPLIED_REASON"

definition isAppliedDuplicateAuthorityEvidence :: "string \<Rightarrow> string option \<Rightarrow> bool" where
  "isAppliedDuplicateAuthorityEvidence status passReason \<longleftrightarrow>
     status \<in> set APPLIED_DUPLICATE_AUTHORITY_STATUSES \<or> isAlreadyAppliedReason passReason"

definition evidenceWhere :: "'a repeat_authority_scheme \<Rightarrow> tv" where
  "evidenceWhere j = tv_any [sql_in (Some (ra_status j)) APPLIED_DUPLICATE_AUTHORITY_STATUSES,
     sql_eq (ra_passReason j) ALREADY_APPLIED_REASON]"

lemma evidenceWhere_exact:
  "selected (evidenceWhere j) \<longleftrightarrow> isAppliedDuplicateAuthorityEvidence (ra_status j) (ra_passReason j)"
  by (auto simp: evidenceWhere_def isAppliedDuplicateAuthorityEvidence_def isAlreadyAppliedReason_def
      selected_any selected_tests)

definition APPLIED_REPEAT_CANDIDATE_STATUSES :: "string list" where
  "APPLIED_REPEAT_CANDIDATE_STATUSES = [''inbox'', ''pending_af'']"

definition APPLIED_REPEAT_EXCEPTION_EVENT :: string where
  "APPLIED_REPEAT_EXCEPTION_EVENT = ''applied_repeat_exception''"

definition authority_of_job :: "repeat_job \<Rightarrow> repeat_authority" where
  "authority_of_job j = \<lparr>rp_id = rp_id j, rp_title = rp_title j, rp_company = rp_company j,
     rp_employer = rp_employer j, rp_location = rp_location j, rp_description = None,
     ra_status = ra_status j, ra_passReason = ra_passReason j\<rparr>"

definition listAppliedRepeatAuthorities :: "repeat_job list \<Rightarrow> repeat_authority list" where
  "listAppliedRepeatAuthorities jobs = map authority_of_job (filter (\<lambda>j. selected (evidenceWhere j)) jobs)"

definition repeatExceptionAuthorityIds :: "lifecycle_event list \<Rightarrow> string list" where
  "repeatExceptionAuthorityIds events =
     concat (map (\<lambda>e. case json_field (le_details e) ''authorityJobId'' of Some (JStr s) \<Rightarrow> [s] | _ \<Rightarrow> [])
       (filter (\<lambda>e. le_eventType e = APPLIED_REPEAT_EXCEPTION_EVENT) events))"

text \<open>The user's own latest action on the job, which one derived from an action on another job is not.\<close>

definition hasOwnLifecycleDecision ::
  "(string \<Rightarrow> ms option) \<Rightarrow> string cmp \<Rightarrow> lifecycle_event list \<Rightarrow> bool" where
  "hasOwnLifecycleDecision date_of loc events =
     (case latest_event date_of loc (filter is_intent_event events) of
        None \<Rightarrow> False
      | Some latest \<Rightarrow>
          ui_kind (latestUserLifecycleIntent date_of loc [latest]) = KFinal
          \<and> json_field (le_details latest) ''derived'' \<noteq> Some (JBool True))"

text \<open>The text of the reason: the decision and the posting it repeats.\<close>

definition joined_nonempty :: "string \<Rightarrow> string list \<Rightarrow> string" where
  "joined_nonempty glue parts = join glue (filter (\<lambda>s. s \<noteq> []) parts)"

definition buildAppliedDuplicateReason ::
  "string \<Rightarrow> string option \<Rightarrow> string option \<Rightarrow> string option \<Rightarrow> string \<Rightarrow> string option \<Rightarrow> string" where
  "buildAppliedDuplicateReason dash title company location status passReason =
     (let what = joined_nonempty '' at '' [trim (str_or title []), trim (str_or company [])];
          tail = joined_nonempty dash [what, trim (str_or location [])];
          decision = (if isAlreadyAppliedReason passReason then ''applied'' else status);
          head = ''Duplicate of a job already '' @ decision
      in if tail \<noteq> [] then head @ '': '' @ tail else head)"

definition reasonFor :: "string \<Rightarrow> repeat_authority \<Rightarrow> string" where
  "reasonFor dash a = buildAppliedDuplicateReason dash (rp_title a) (rp_company a) (rp_location a)
     (ra_status a) (ra_passReason a)"

record repeat_match =
  rm_authority :: repeat_authority
  rm_evidence :: repeat_evidence
  rm_reason :: string

text \<open>\<open>descriptions\<close> reads the stored description of a job; \<open>persisted\<close> tells whether the candidate has a
  row, and so may have exceptions.\<close>

definition findAppliedRepeat ::
  "repeat_rules \<Rightarrow> string \<Rightarrow> (string \<Rightarrow> string option) \<Rightarrow> lifecycle_event list \<Rightarrow> bool \<Rightarrow> string option
    \<Rightarrow> 'a repeat_subject_scheme \<Rightarrow> repeat_authority list \<Rightarrow> repeat_match option" where
  "findAppliedRepeat R dash descriptions events persisted source candidate authorities =
     (if isManualImportSource source then None
      else
        let pool = filter (\<lambda>a. rp_id a \<noteq> rp_id candidate \<and> mayRepeat R candidate a) authorities;
            pool' = (if persisted
              then filter (\<lambda>a. rp_id a \<notin> set (repeatExceptionAuthorityIds events)) pool else pool)
        in case selectAppliedRepeat R candidate
                  (map (\<lambda>a. a\<lparr>rp_description := descriptions (rp_id a)\<rparr>) pool') of
             None \<Rightarrow> None
           | Some (a, evidence) \<Rightarrow>
               let authority = a\<lparr>rp_description := None\<rparr> in
               Some \<lparr>rm_authority = authority, rm_evidence = evidence, rm_reason = reasonFor dash authority\<rparr>)"

definition stored_description :: "repeat_job list \<Rightarrow> string \<Rightarrow> string option" where
  "stored_description jobs i = (case find (\<lambda>j. rp_id j = i) jobs of None \<Rightarrow> None | Some j \<Rightarrow> rp_description j)"

text \<open>The door of the Inbox for machine paths. \<open>authorities\<close> is the list a caller has read already.\<close>

definition findAppliedRepeatForJob ::
  "repeat_rules \<Rightarrow> string \<Rightarrow> (string \<Rightarrow> ms option) \<Rightarrow> string cmp \<Rightarrow> repeat_job list \<Rightarrow> (string \<Rightarrow> lifecycle_event list)
    \<Rightarrow> repeat_authority list option \<Rightarrow> string \<Rightarrow> repeat_match option" where
  "findAppliedRepeatForJob R dash date_of loc jobs ev authorities jobId =
     (case find (\<lambda>j. rp_id j = jobId) jobs of
        None \<Rightarrow> None
      | Some j \<Rightarrow>
          if isManualImportSource (rj_source j) \<or> hasOwnLifecycleDecision date_of loc (ev jobId) then None
          else findAppliedRepeat R dash (stored_description jobs) (ev jobId) True (rj_source j) j
            (case authorities of None \<Rightarrow> listAppliedRepeatAuthorities jobs | Some as \<Rightarrow> as))"

definition unscored :: "repeat_job \<Rightarrow> bool" where
  "unscored j \<longleftrightarrow> rj_aimFitScore j = None \<and> rj_reqFitScore j = None
     \<and> rj_scoringStatus j \<in> set [''queued'', ''needs_jd'', ''failed'', ''skipped'']"

text \<open>The dismissal of a row that read \<open>seen\<close>.\<close>

definition appliedRepeatDismissalData :: "repeat_job \<Rightarrow> string \<Rightarrow> repeat_job \<Rightarrow> repeat_job" where
  "appliedRepeatDismissalData seen reason j =
     (let dismissed = j\<lparr>ra_status := ''dismissed'', ra_passReason := Some reason\<rparr> in
      if unscored seen then dismissed\<lparr>rj_scoringStatus := ''skipped'', rj_scoreError := None\<rparr> else dismissed)"

definition live_candidate :: "repeat_job \<Rightarrow> tv" where
  "live_candidate j = tv_all [sql_in (Some (ra_status j)) APPLIED_REPEAT_CANDIDATE_STATUSES,
     nonManualImportSourceWhere (rj_source j)]"

text \<open>One round of the loop over the plausible rows: the rows, the cache, the dismissals so far.\<close>

definition suppress_one ::
  "repeat_rules \<Rightarrow> string \<Rightarrow> (string \<Rightarrow> ms option) \<Rightarrow> string cmp \<Rightarrow> (string \<Rightarrow> lifecycle_event list)
    \<Rightarrow> repeat_authority \<Rightarrow> repeat_job \<Rightarrow> repeat_job list \<times> shingle_cache \<times> repeat_match list \<times> string list
    \<Rightarrow> repeat_job list \<times> shingle_cache \<times> repeat_match list \<times> string list" where
  "suppress_one R dash date_of loc ev decided candidate st =
     (let (jobs, cache, matches, ids) = st in
      if hasOwnLifecycleDecision date_of loc (ev (rp_id candidate))
         \<or> rp_id decided \<in> set (repeatExceptionAuthorityIds (ev (rp_id candidate))) then st
      else
        case judgeAppliedRepeat R candidate decided cache of
          (None, cache') \<Rightarrow> (jobs, cache', matches, ids)
        | (Some evidence, cache') \<Rightarrow>
            let authority = decided\<lparr>rp_description := None\<rparr>;
                reason = reasonFor dash authority;
                hit = (\<lambda>j. rp_id j = rp_id candidate \<and> selected (live_candidate j));
                jobs' = map (\<lambda>j. if hit j then appliedRepeatDismissalData candidate reason j else j) jobs
            in if length (filter hit jobs) \<noteq> 1 then (jobs', cache', matches, ids)
               else (jobs', cache',
                 matches @ [\<lparr>rm_authority = authority, rm_evidence = evidence, rm_reason = reason\<rparr>],
                 ids @ [rp_id candidate]))"

definition suppressLiveAppliedDuplicates ::
  "repeat_rules \<Rightarrow> string \<Rightarrow> (string \<Rightarrow> ms option) \<Rightarrow> string cmp \<Rightarrow> (string \<Rightarrow> lifecycle_event list)
    \<Rightarrow> repeat_authority \<Rightarrow> repeat_job list \<Rightarrow> repeat_job list \<times> repeat_match list \<times> string list" where
  "suppressLiveAppliedDuplicates R dash date_of loc ev decided jobs =
     (if \<not> isAppliedDuplicateAuthorityEvidence (ra_status decided) (ra_passReason decided) then (jobs, [], [])
      else
        let live = filter (\<lambda>j. rp_id j \<noteq> rp_id decided \<and> selected (live_candidate j)) jobs;
            plausible = filter (\<lambda>j. mayRepeat R j decided) live;
            candidates = filter (\<lambda>j. rp_id j \<in> set (map rp_id plausible)) jobs;
            (jobs', cache, matches, ids) =
              fold (suppress_one R dash date_of loc ev decided) candidates (jobs, Map.empty, [], [])
        in (jobs', matches, ids))"

section \<open>The cache is transparent\<close>

definition judgement ::
  "repeat_rules \<Rightarrow> 'a repeat_subject_scheme \<Rightarrow> 'b repeat_subject_scheme \<Rightarrow> repeat_evidence option" where
  "judgement R candidate authority =
     (if rp_id candidate = rp_id authority \<or> \<not> mayRepeat R candidate authority then None
      else
        let location = repeatLocationRelation R True (rp_location candidate) (rp_location authority) in
        if location = ConflictingPlace then None
        else judged R (rp_location candidate) (the (subjectEmployerRelation R candidate authority)) location
          (descriptionContainment (descriptionShingles R (rp_description candidate))
             (descriptionShingles R (rp_description authority))))"

text \<open>A cache that only holds the runs of the descriptions \<open>desc\<close> gives.\<close>

definition cache_ok :: "repeat_rules \<Rightarrow> (string \<Rightarrow> string option) \<Rightarrow> shingle_cache \<Rightarrow> bool" where
  "cache_ok R desc cache \<longleftrightarrow> (\<forall>i shingles. cache i = Some shingles \<longrightarrow> shingles = descriptionShingles R (desc i))"

lemma cache_ok_empty [simp]: "cache_ok R desc Map.empty"
  by (simp add: cache_ok_def)

lemma shinglesFor_ok:
  assumes "cache_ok R desc cache" and "desc (rp_id s) = rp_description s"
  shows "fst (shinglesFor R s cache) = descriptionShingles R (rp_description s)
    \<and> cache_ok R desc (snd (shinglesFor R s cache))"
  using assms by (cases "cache (rp_id s)") (fastforce simp: shinglesFor_def cache_ok_def Let_def)+

lemma judge_cached:
  assumes "cache_ok R desc cache" and "desc (rp_id c) = rp_description c" and "desc (rp_id a) = rp_description a"
  obtains cache' where "judgeAppliedRepeat R c a cache = (judgement R c a, cache')" and "cache_ok R desc cache'"
proof (cases "rp_id c = rp_id a \<or> \<not> mayRepeat R c a
    \<or> repeatLocationRelation R True (rp_location c) (rp_location a) = ConflictingPlace")
  case True
  then have "judgeAppliedRepeat R c a cache = (judgement R c a, cache)"
    by (auto simp: judgeAppliedRepeat_def judgement_def Let_def)
  with assms(1) that show thesis by blast
next
  case False
  obtain l cache1 where l: "shinglesFor R c cache = (l, cache1)" by fastforce
  then have l': "l = descriptionShingles R (rp_description c)" "cache_ok R desc cache1"
    using shinglesFor_ok [OF assms(1,2)] by auto
  obtain r cache2 where r: "shinglesFor R a cache1 = (r, cache2)" by fastforce
  then have r': "r = descriptionShingles R (rp_description a)" "cache_ok R desc cache2"
    using shinglesFor_ok [OF l'(2) assms(3)] by auto
  from False l r l'(1) r'(1) have "judgeAppliedRepeat R c a cache = (judgement R c a, cache2)"
    by (simp add: judgeAppliedRepeat_def judgement_def Let_def)
  with r'(2) that show thesis by blast
qed

section \<open>The selection\<close>

lemma outranks_irrefl: "\<not> outranks x x"
  by (cases x) (simp add: outranks_def)

lemma outranks_step: "\<not> outranks x y \<Longrightarrow> outranks z y \<Longrightarrow> \<not> outranks x z"
  by (cases x; cases y; cases z) (auto simp: outranks_def)

text \<open>The order of the strength of a match: the applications above the passed reasons, then identity above
  description, then the overlap.\<close>

definition weaker :: "((nat \<times> nat \<times> rat) \<times> (nat \<times> nat \<times> rat)) set" where
  "weaker = less_than <*lex*> less_than <*lex*> {(c, d). c < d}"

lemma outranks_iff: "outranks x y \<longleftrightarrow> (y, x) \<in> weaker"
  by (cases x; cases y) (auto simp: outranks_def weaker_def)

text \<open>The best entry so far, over the authorities seen.\<close>

definition best_of ::
  "repeat_rules \<Rightarrow> 'a repeat_subject_scheme \<Rightarrow> repeat_authority set \<Rightarrow> (repeat_authority \<times> repeat_evidence) option \<Rightarrow> bool" where
  "best_of R c A best \<longleftrightarrow>
     (case best of
        None \<Rightarrow> \<forall>a \<in> A. judgement R c a = None
      | Some (a, e) \<Rightarrow> a \<in> A \<and> judgement R c a = Some e
          \<and> (\<forall>b \<in> A. \<forall>e'. judgement R c b = Some e' \<longrightarrow> \<not> outranks (repeat_rank (b, e')) (repeat_rank (a, e))))"

lemma best_of_step:
  assumes "best_of R c A best"
  shows "best_of R c (insert a A) (case judgement R c a of
      None \<Rightarrow> best
    | Some e \<Rightarrow> (case best of
          None \<Rightarrow> Some (a, e)
        | Some b \<Rightarrow> if outranks (repeat_rank (a, e)) (repeat_rank b) then Some (a, e) else Some b))"
proof (cases "judgement R c a")
  case None
  with assms show ?thesis by (auto simp: best_of_def split: option.splits)
next
  case (Some e)
  show ?thesis
  proof (cases best)
    case None
    with assms Some show ?thesis by (auto simp: best_of_def outranks_irrefl)
  next
    case b: (Some b)
    obtain x f where x: "b = (x, f)" by (cases b)
    show ?thesis
    proof (cases "outranks (repeat_rank (a, e)) (repeat_rank (x, f))")
      case True
      with assms Some b x show ?thesis
        by (auto simp: best_of_def outranks_irrefl dest: outranks_step)
    next
      case False
      with assms Some b x show ?thesis by (auto simp: best_of_def)
    qed
  qed
qed

lemma select_loop_best:
  assumes "cache_ok R desc cache" and "desc (rp_id c) = rp_description c"
    and "\<forall>a \<in> set as. desc (rp_id a) = rp_description a" and "best_of R c A best"
  shows "best_of R c (A \<union> set as) (select_loop R c as cache best)"
  using assms
proof (induction as arbitrary: cache best A)
  case (Cons a as)
  obtain cache' where j: "judgeAppliedRepeat R c a cache = (judgement R c a, cache')" and ok: "cache_ok R desc cache'"
    using judge_cached [OF Cons.prems(1,2)] Cons.prems(3) by auto
  let ?best = "case judgement R c a of
      None \<Rightarrow> best
    | Some e \<Rightarrow> (case best of
          None \<Rightarrow> Some (a, e)
        | Some b \<Rightarrow> if outranks (repeat_rank (a, e)) (repeat_rank b) then Some (a, e) else Some b)"
  have "select_loop R c (a # as) cache best = select_loop R c as cache' ?best"
    using j by (simp split: option.split)
  then show ?case
    using Cons.IH [OF ok Cons.prems(2) _ best_of_step [OF Cons.prems(4)], of a] Cons.prems(3) by simp
qed simp

definition described :: "repeat_authority list \<Rightarrow> 'a repeat_subject_scheme \<Rightarrow> string \<Rightarrow> string option" where
  "described as c i =
     (if i = rp_id c then rp_description c
      else case find (\<lambda>a. rp_id a = i) as of None \<Rightarrow> None | Some a \<Rightarrow> rp_description a)"

lemma find_unique:
  assumes "distinct (map f xs)" and "x \<in> set xs"
  shows "find (\<lambda>y. f y = f x) xs = Some x"
  using assms
proof (induction xs)
  case (Cons y ys)
  then show ?case by (cases "y = x") force+
qed simp

text \<open>C34. The selected authority is a strongest one: with the shared cache the loop finds a match exactly
  when some authority is judged to be repeated, its evidence is that of the judgement of the pair
  alone, and it is not weaker than any other match (an application before a mere reason, identity before
  description, then the larger overlap).\<close>

theorem selected_repeat_is_strongest:
  assumes "distinct (map rp_id authorities)" and "rp_id candidate \<notin> rp_id ` set authorities"
  shows "case selectAppliedRepeat R candidate authorities of
      None \<Rightarrow> \<forall>a \<in> set authorities. judgement R candidate a = None
    | Some (a, e) \<Rightarrow> a \<in> set authorities \<and> judgement R candidate a = Some e
        \<and> (\<forall>b \<in> set authorities. \<forall>e'. judgement R candidate b = Some e'
             \<longrightarrow> (repeat_rank (a, e), repeat_rank (b, e')) \<notin> weaker)"
proof -
  let ?desc = "described authorities candidate"
  have "\<forall>a \<in> set authorities. ?desc (rp_id a) = rp_description a"
    using assms by (force simp: described_def find_unique)
  then have "best_of R candidate ({} \<union> set authorities) (selectAppliedRepeat R candidate authorities)"
    unfolding selectAppliedRepeat_def
    by (intro select_loop_best [where desc = ?desc]) (auto simp: described_def best_of_def)
  then show ?thesis unfolding best_of_def outranks_iff Un_empty_left .
qed

section \<open>What a decision of the user hides\<close>

text \<open>The rows a decision dismisses, as a property of each row alone.\<close>

definition hidden_by ::
  "repeat_rules \<Rightarrow> (string \<Rightarrow> ms option) \<Rightarrow> string cmp \<Rightarrow> (string \<Rightarrow> lifecycle_event list) \<Rightarrow> repeat_authority
    \<Rightarrow> repeat_job \<Rightarrow> bool" where
  "hidden_by R date_of loc ev decided j \<longleftrightarrow>
     isAppliedDuplicateAuthorityEvidence (ra_status decided) (ra_passReason decided)
     \<and> ra_status j \<in> set APPLIED_REPEAT_CANDIDATE_STATUSES \<and> \<not> isManualImportSource (rj_source j)
     \<and> \<not> hasOwnLifecycleDecision date_of loc (ev (rp_id j))
     \<and> rp_id decided \<notin> set (repeatExceptionAuthorityIds (ev (rp_id j)))
     \<and> judgement R j decided \<noteq> None"

lemma live_exact: "selected (live_candidate j) \<longleftrightarrow>
    ra_status j \<in> set APPLIED_REPEAT_CANDIDATE_STATUSES \<and> \<not> isManualImportSource (rj_source j)"
  by (auto simp: live_candidate_def selected_all selected_tests nonManualImport_exact)

lemma dismissal_id [simp]: "rp_id (appliedRepeatDismissalData seen reason j) = rp_id j"
  by (simp add: appliedRepeatDismissalData_def Let_def)

definition hide :: "string \<Rightarrow> repeat_authority \<Rightarrow> repeat_job \<Rightarrow> repeat_job" where
  "hide dash decided j = appliedRepeatDismissalData j (reasonFor dash (decided\<lparr>rp_description := None\<rparr>)) j"

lemma hide_id [simp]: "rp_id (hide dash decided j) = rp_id j"
  by (simp add: hide_def)

lemma unique_row:
  "distinct (map rp_id jobs) \<Longrightarrow> c \<in> set jobs \<Longrightarrow> j \<in> set jobs \<Longrightarrow> rp_id j = rp_id c \<Longrightarrow> j = c"
  by (metis distinct_map inj_on_def)

lemma filter_single: "distinct xs \<Longrightarrow> x \<in> set xs \<Longrightarrow> filter (\<lambda>y. y = x) xs = [x]"
  by (induction xs) (auto simp: filter_empty_conv)

lemma suppress_one_effect:
  assumes "distinct (map rp_id jobs)" and "c \<in> set jobs" and "selected (live_candidate c)"
    and "isAppliedDuplicateAuthorityEvidence (ra_status decided) (ra_passReason decided)"
    and "cache_ok R desc cache" and "desc (rp_id c) = rp_description c"
    and "desc (rp_id decided) = rp_description decided"
  obtains cache' matches' where "cache_ok R desc cache'"
    and "suppress_one R dash date_of loc ev decided c (jobs, cache, matches, ids)
      = (map (\<lambda>j. if j = c \<and> hidden_by R date_of loc ev decided c then hide dash decided j else j) jobs, cache', matches',
         ids @ (if hidden_by R date_of loc ev decided c then [rp_id c] else []))"
proof (cases "hasOwnLifecycleDecision date_of loc (ev (rp_id c))
    \<or> rp_id decided \<in> set (repeatExceptionAuthorityIds (ev (rp_id c)))")
  case True
  then have "\<not> hidden_by R date_of loc ev decided c" by (auto simp: hidden_by_def)
  with True assms(5) that show thesis by (simp add: suppress_one_def)
next
  case False
  obtain cache' where j: "judgeAppliedRepeat R c decided cache = (judgement R c decided, cache')"
    and ok: "cache_ok R desc cache'"
    using judge_cached [OF assms(5-7)] by blast
  have hidden: "hidden_by R date_of loc ev decided c \<longleftrightarrow> judgement R c decided \<noteq> None"
    using False assms(3,4) by (simp add: hidden_by_def live_exact)
  show thesis
  proof (cases "judgement R c decided")
    case None
    with False j hidden ok that show thesis by (simp add: suppress_one_def)
  next
    case (Some evidence)
    let ?hit = "\<lambda>j. rp_id j = rp_id c \<and> selected (live_candidate j)"
    have hit: "j \<in> set jobs \<Longrightarrow> ?hit j \<longleftrightarrow> j = c" for j
      using unique_row [OF assms(1,2)] assms(3) by blast
    have "filter ?hit jobs = filter (\<lambda>j. j = c) jobs" by (rule filter_cong [OF refl hit])
    also have "\<dots> = [c]"
      using assms(1,2) by (intro filter_single) (simp_all add: distinct_map)
    finally have one: "length (filter ?hit jobs) = 1" by simp
    let ?reason = "reasonFor dash (decided\<lparr>rp_description := None\<rparr>)"
    have "map (\<lambda>j. if ?hit j then appliedRepeatDismissalData c ?reason j else j) jobs
        = map (\<lambda>j. if j = c \<and> hidden_by R date_of loc ev decided c then hide dash decided j else j) jobs"
      using hit hidden Some by (intro map_cong [OF refl]) (auto simp: hide_def)
    with False j Some one hidden ok that show thesis by (simp add: suppress_one_def Let_def)
  qed
qed

lemma fold_suppress:
  assumes "distinct (map rp_id jobs)" and "set cs \<subseteq> set jobs" and "distinct cs"
    and "\<forall>c \<in> set cs. selected (live_candidate c) \<and> desc (rp_id c) = rp_description c"
    and "isAppliedDuplicateAuthorityEvidence (ra_status decided) (ra_passReason decided)"
    and "cache_ok R desc cache" and "desc (rp_id decided) = rp_description decided"
  shows "\<exists>cache' matches'. fold (suppress_one R dash date_of loc ev decided) cs (jobs, cache, matches, ids)
    = (map (\<lambda>j. if j \<in> set cs \<and> hidden_by R date_of loc ev decided j then hide dash decided j else j) jobs, cache', matches',
       ids @ map rp_id (filter (hidden_by R date_of loc ev decided) cs))"
  using assms
proof (induction cs arbitrary: jobs cache matches ids)
  case (Cons c cs)
  let ?h = "hidden_by R date_of loc ev decided"
  let ?g = "\<lambda>j. if j = c \<and> ?h c then hide dash decided j else j"
  let ?f = "\<lambda>j. if j \<in> set cs \<and> ?h j then hide dash decided j else j"
  from Cons.prems have c: "c \<in> set jobs" "c \<notin> set cs" "selected (live_candidate c)" "desc (rp_id c) = rp_description c"
    by auto
  obtain cache' matches' where ok: "cache_ok R desc cache'"
    and one: "suppress_one R dash date_of loc ev decided c (jobs, cache, matches, ids)
      = (map ?g jobs, cache', matches', ids @ (if ?h c then [rp_id c] else []))"
    by (rule suppress_one_effect [OF Cons.prems(1) c(1,3) Cons.prems(5,6) c(4) Cons.prems(7)])
  have "map rp_id (map ?g jobs) = map rp_id jobs" by simp
  then have d1: "distinct (map rp_id (map ?g jobs))" using Cons.prems(1) by (simp only:)
  have sub: "set cs \<subseteq> set (map ?g jobs)" using Cons.prems(2) c(2) by fastforce
  have same: "map ?f (map ?g jobs) = map (\<lambda>j. if j \<in> set (c # cs) \<and> ?h j then hide dash decided j else j) jobs"
  proof -
    have "?f (?g j) = (if j \<in> set (c # cs) \<and> ?h j then hide dash decided j else j)" if "j \<in> set jobs" for j
    proof (cases "j = c \<and> ?h c")
      case True
      have "hide dash decided c \<notin> set cs"
        using unique_row [OF Cons.prems(1) c(1), of "hide dash decided c"] Cons.prems(2) c(2) by auto
      with True show ?thesis by simp
    next
      case False
      then show ?thesis using c(2) by auto
    qed
    then show ?thesis by simp
  qed
  have rest: "distinct cs" "\<forall>c \<in> set cs. selected (live_candidate c) \<and> desc (rp_id c) = rp_description c"
    using Cons.prems(3,4) by simp_all
  obtain cache'' matches'' where
    "fold (suppress_one R dash date_of loc ev decided) cs
        (map ?g jobs, cache', matches', ids @ (if ?h c then [rp_id c] else []))
      = (map ?f (map ?g jobs), cache'', matches'', (ids @ (if ?h c then [rp_id c] else [])) @ map rp_id (filter ?h cs))"
    using Cons.IH [OF d1 sub rest Cons.prems(5) ok Cons.prems(7)] by blast
  then show ?case using one same by (simp del: map_map)
qed simp

text \<open>C35. Hiding repeats respects the user and is complete: when a job becomes an application, exactly the
  rows of the Inbox and of the scoring queue that are no manual imports, that the user has not decided
  on, that carry no exception for this pair and that are judged, alone, to repeat it are dismissed,
  with the reason that names it; no other row changes. The separate queries, the shared cache and
  the conditional updates amount to this rule.\<close>

theorem repeats_hidden_exactly:
  assumes "distinct (map rp_id jobs)"
    and "\<And>j. j \<in> set jobs \<Longrightarrow> rp_id j = rp_id decided \<Longrightarrow> rp_description j = rp_description decided"
    and "suppressLiveAppliedDuplicates R dash date_of loc ev decided jobs = (jobs', matches, ids)"
  shows "jobs' = map (\<lambda>j. if hidden_by R date_of loc ev decided j then hide dash decided j else j) jobs
    \<and> ids = map rp_id (filter (hidden_by R date_of loc ev decided) jobs)"
proof (cases "isAppliedDuplicateAuthorityEvidence (ra_status decided) (ra_passReason decided)")
  case False
  then have "\<not> hidden_by R date_of loc ev decided j" for j by (simp add: hidden_by_def)
  with False assms(3) show ?thesis by (simp add: suppressLiveAppliedDuplicates_def)
next
  case True
  let ?h = "hidden_by R date_of loc ev decided"
  let ?P = "\<lambda>j. rp_id j \<noteq> rp_id decided \<and> selected (live_candidate j) \<and> mayRepeat R j decided"
  define desc where "desc i = (if i = rp_id decided then rp_description decided else stored_description jobs i)" for i
  let ?plausible = "filter (\<lambda>j. mayRepeat R j decided) (filter (\<lambda>j. rp_id j \<noteq> rp_id decided \<and> selected (live_candidate j)) jobs)"
  have plausible: "?plausible = filter ?P jobs" by (simp add: conj_ac)
  have cands: "filter (\<lambda>j. rp_id j \<in> set (map rp_id ?plausible)) jobs = filter ?P jobs"
    unfolding plausible
  proof (rule filter_cong [OF refl])
    fix j assume j: "j \<in> set jobs"
    have "j = c" if "c \<in> set (filter ?P jobs)" "rp_id j = rp_id c" for c
      using unique_row [OF assms(1) _ j that(2)] that(1) by simp
    with j show "rp_id j \<in> set (map rp_id (filter ?P jobs)) \<longleftrightarrow> ?P j" by (force simp only: set_map set_filter)
  qed
  have h: "?h j \<Longrightarrow> ?P j" for j by (auto simp: hidden_by_def live_exact judgement_def split: if_splits)
  have d: "desc (rp_id j) = rp_description j" if "j \<in> set jobs" for j
    using that assms(1,2) by (auto simp: desc_def stored_description_def find_unique)
  have c1: "distinct (filter ?P jobs)" using assms(1) by (simp add: distinct_map)
  have c2: "\<forall>c \<in> set (filter ?P jobs). selected (live_candidate c) \<and> desc (rp_id c) = rp_description c"
    using d by simp
  have c3: "desc (rp_id decided) = rp_description decided" by (simp add: desc_def)
  obtain cache' matches' where F: "fold (suppress_one R dash date_of loc ev decided) (filter ?P jobs) (jobs, Map.empty, [], [])
      = (map (\<lambda>j. if j \<in> set (filter ?P jobs) \<and> ?h j then hide dash decided j else j) jobs, cache', matches',
         [] @ map rp_id (filter ?h (filter ?P jobs)))"
    using fold_suppress [OF assms(1) filter_is_subset c1 c2 True cache_ok_empty c3] by blast
  have "suppressLiveAppliedDuplicates R dash date_of loc ev decided jobs
      = (map (\<lambda>j. if j \<in> set (filter ?P jobs) \<and> ?h j then hide dash decided j else j) jobs, matches',
         [] @ map rp_id (filter ?h (filter ?P jobs)))"
    unfolding suppressLiveAppliedDuplicates_def Let_def cands F
    by (simp only: True not_True_eq_False if_False prod.case)
  with assms(3) have "jobs' = map (\<lambda>j. if j \<in> set (filter ?P jobs) \<and> ?h j then hide dash decided j else j) jobs"
    "ids = map rp_id (filter ?h (filter ?P jobs))"
    by (simp_all only: prod.inject append_Nil)
  moreover have "map (\<lambda>j. if j \<in> set (filter ?P jobs) \<and> ?h j then hide dash decided j else j) jobs
      = map (\<lambda>j. if ?h j then hide dash decided j else j) jobs"
    using h by (intro map_cong [OF refl]) simp
  moreover have "filter ?h (filter ?P jobs) = filter ?h jobs"
    using h by (auto intro!: filter_cong)
  ultimately show ?thesis by simp
qed

section \<open>Concrete postings\<close>

definition sample_rules :: repeat_rules where
  "sample_rules = \<lparr>rr_titleKey = (\<lambda>t. str_or t []), rr_companyKey = (\<lambda>c. str_or c []), rr_aliasKey = to_lower,
     rr_location = to_lower, rr_options = (\<lambda>s. [s]), rr_foreign = (\<lambda>s. False),
     rr_geo = (\<lambda>s. \<lparr>og_foreign = False, og_broad = False, og_states = [], og_city = s, og_metro = False\<rparr>),
     rr_words = (\<lambda>s. [])\<rparr>"

definition sample_job :: "string \<Rightarrow> string \<Rightarrow> string \<Rightarrow> repeat_job" where
  "sample_job i status place = \<lparr>rp_id = i, rp_title = Some ''engineer'', rp_company = Some ''acme'', rp_employer = Some ''Acme'',
     rp_location = Some place, rp_description = None, ra_status = status, ra_passReason = None, rj_source = None,
     rj_sourceId = None, rj_scoringStatus = ''scored'', rj_scoreError = None, rj_aimFitScore = Some 80, rj_reqFitScore = None\<rparr>"

definition sample_decided :: repeat_authority where
  "sample_decided = authority_of_job (sample_job ''a'' ''applied'' ''St Paul'')"

theorem selected_repeat_is_strongest_witness:
  "map_option fst (selectAppliedRepeat sample_rules (sample_job ''b'' ''inbox'' ''st paul'') [sample_decided])
    = Some sample_decided"
proof -
  have c: "rp_id (sample_job ''b'' ''inbox'' ''st paul'') \<notin> rp_id ` set [sample_decided]"
    by (simp add: sample_job_def sample_decided_def authority_of_job_def)
  have "judgement sample_rules (sample_job ''b'' ''inbox'' ''st paul'') sample_decided \<noteq> None"
    by code_simp
  then show ?thesis
    using selected_repeat_is_strongest [OF _ c, of sample_rules] by (auto split: option.splits)
qed

text \<open>The repeat in the same place goes; the one elsewhere and the application itself stay.\<close>

theorem repeats_hidden_exactly_witness:
  "snd (snd (suppressLiveAppliedDuplicates sample_rules '' - '' (\<lambda>s. None) code_unit_cmp (\<lambda>i. []) sample_decided
     [sample_job ''b'' ''inbox'' ''st paul'', sample_job ''c'' ''inbox'' ''Duluth'', sample_job ''a'' ''applied'' ''St Paul'']))
   = [''b'']"
proof -
  let ?jobs = "[sample_job ''b'' ''inbox'' ''st paul'', sample_job ''c'' ''inbox'' ''Duluth'',
    sample_job ''a'' ''applied'' ''St Paul'']"
  let ?hidden = "hidden_by sample_rules (\<lambda>s. None) code_unit_cmp (\<lambda>i. []) sample_decided"
  obtain jobs' matches ids where r: "suppressLiveAppliedDuplicates sample_rules '' - '' (\<lambda>s. None) code_unit_cmp (\<lambda>i. [])
      sample_decided ?jobs = (jobs', matches, ids)"
    by (metis prod_cases3)
  have d: "distinct (map rp_id ?jobs)" by (simp add: sample_job_def)
  have "j \<in> set ?jobs \<Longrightarrow> rp_description j = rp_description sample_decided" for j
    by (auto simp: sample_job_def sample_decided_def authority_of_job_def)
  from repeats_hidden_exactly [OF d this r] have "ids = map rp_id (filter ?hidden ?jobs)" by simp
  moreover have "?hidden (sample_job ''b'' ''inbox'' ''st paul'')"
    "\<not> ?hidden (sample_job ''c'' ''inbox'' ''Duluth'')" "\<not> ?hidden (sample_job ''a'' ''applied'' ''St Paul'')"
    by code_simp+
  ultimately have "ids = [''b'']" by (simp add: sample_job_def)
  with r show ?thesis by simp
qed

end
