(* ===== verification/Same_Job.thy ===== *)
theory Same_Job
  imports Applied_Repeat Task_Order
begin

text \<open>
  One job that reached the dashboard through two sources: the judgement of a pair of cards
  (\<open>src/lib/sameJobMatch.ts\<close>) and the plan that decides which card keeps the job and which are folded into
  it (the pure part of \<open>src/lib/sameJobConsolidation.ts\<close>).

  The text rules are the fields of \<open>same_rules\<close>: those of the applied repeats, the HTML entities and the
  \<open>job at\<close> tail of a title, the territory a title ends with (\<open>titleLocationSuffix\<close>), Workday's \<open>All Cities\<close>,
  the error pages stored as descriptions, and the posting key of a Dayforce address. Nothing is assumed
  of them. The cache of descriptions only saves a second reading (see \<open>cache_ok\<close> in \<open>Applied_Repeat\<close>) and
  is left out here.
\<close>

section \<open>The judgement\<close>

record same_rules =
  sr_repeat :: repeat_rules
  sr_decoded :: "string \<Rightarrow> string"
  sr_withoutTail :: "string \<Rightarrow> string"
  sr_titleSuffix :: "string \<Rightarrow> string option"
  sr_withoutAllCities :: "string \<Rightarrow> string"
  sr_errorPage :: "string \<Rightarrow> bool"
  sr_dayforce :: "string option \<Rightarrow> string option"

record same_subject = repeat_subject +
  sj_source :: "string option"
  sj_url :: "string option"
  sj_canonicalUrl :: "string option"

record same_evidence =
  sm_rule :: repeat_rule
  sm_employer :: "employer_relation option"
  sm_location :: location_relation
  sm_containment :: "rat option"

datatype feed_family = Ats_feed | Dejobs_feed

definition SAME_JOB_TEXT_CONTAINMENT :: rat where "SAME_JOB_TEXT_CONTAINMENT = 4 / 5"

definition sameJobTitleKey :: "same_rules \<Rightarrow> string option \<Rightarrow> string" where
  "sameJobTitleKey R title =
     rr_titleKey (sr_repeat R) (Some (sr_withoutTail R (sr_decoded R (str_or title []))))"

definition withoutAllCities :: "same_rules \<Rightarrow> string option \<Rightarrow> string" where
  "withoutAllCities R location = sr_withoutAllCities R (str_or location [])"

definition sameJobLocationRelation :: "same_rules \<Rightarrow> string option \<Rightarrow> string option \<Rightarrow> location_relation" where
  "sameJobLocationRelation R left right =
     repeatLocationRelation (sr_repeat R) False (Some (withoutAllCities R left)) (Some (withoutAllCities R right))"

definition isSpecificLocation :: "same_rules \<Rightarrow> string option \<Rightarrow> bool" where
  "isSpecificLocation R location =
     (let value = trim (str_or location []) in
      value \<noteq> [] \<and> \<not> isWorkdayLocationsPlaceholder value
      \<and> rr_location (sr_repeat R) value \<notin> set [''unknown'', ''remote'', ''us'', ''remote us''])"

definition isUnusableDescription :: "same_rules \<Rightarrow> string option \<Rightarrow> bool" where
  "isUnusableDescription R description = sr_errorPage R (take 4000 (str_or description []))"

definition same_shingles :: "same_rules \<Rightarrow> 'a repeat_subject_scheme \<Rightarrow> string list" where
  "same_shingles R subject =
     (if isUnusableDescription R (rp_description subject) then []
      else descriptionShingles (sr_repeat R) (rp_description subject))"

definition DEJOBS_SYNDICATION_SOURCES :: "string list" where
  "DEJOBS_SYNDICATION_SOURCES = [''careerforce'', ''dejobs'']"

definition isDejobsSyndicationSource :: "string option \<Rightarrow> bool" where
  "isDejobsSyndicationSource source =
     (case source of None \<Rightarrow> False | Some s \<Rightarrow> to_lower (trim s) \<in> set DEJOBS_SYNDICATION_SOURCES)"

definition employerFeedFamily :: "string option \<Rightarrow> feed_family option" where
  "employerFeedFamily source =
     (let value = trim (str_or source []) in
      if starts_with (to_lower value) ''ats-'' then Some Ats_feed
      else if isDejobsSyndicationSource (Some value) then Some Dejobs_feed
      else None)"

definition posting_link :: "'a same_subject_scheme \<Rightarrow> string option" where
  "posting_link s = (if truthy (sj_canonicalUrl s) then sj_canonicalUrl s else sj_url s)"

definition maySameJob :: "same_rules \<Rightarrow> 'a same_subject_scheme \<Rightarrow> 'b same_subject_scheme \<Rightarrow> bool" where
  "maySameJob R left right =
     (if rp_id left = rp_id right then False
      else
        let leftDayforce = sr_dayforce R (posting_link left); rightDayforce = sr_dayforce R (posting_link right) in
        if truthy leftDayforce \<and> truthy rightDayforce \<and> leftDayforce \<noteq> rightDayforce then False
        else
          let family = employerFeedFamily (sj_source left) in
          if family \<noteq> None \<and> family = employerFeedFamily (sj_source right) then False
          else
            let title = sameJobTitleKey R (rp_title left) in
            title \<noteq> [] \<and> title = sameJobTitleKey R (rp_title right))"

definition differentTitleTerritories ::
  "same_rules \<Rightarrow> 'a repeat_subject_scheme \<Rightarrow> 'b repeat_subject_scheme \<Rightarrow> bool" where
  "differentTitleTerritories R left right =
     (let suffix = (\<lambda>t. sr_titleSuffix R (sr_decoded R (str_or t [])));
          leftSuffix = suffix (rp_title left); rightSuffix = suffix (rp_title right)
      in truthy leftSuffix \<and> truthy rightSuffix \<and> leftSuffix \<noteq> rightSuffix)"

definition same_containment ::
  "same_rules \<Rightarrow> 'a repeat_subject_scheme \<Rightarrow> 'b repeat_subject_scheme \<Rightarrow> rat option" where
  "same_containment R left right = descriptionContainment (same_shingles R left) (same_shingles R right)"

definition sameJobTextAgrees :: "same_rules \<Rightarrow> 'a same_subject_scheme \<Rightarrow> 'b same_subject_scheme \<Rightarrow> bool" where
  "sameJobTextAgrees R left right =
     (if \<not> maySameJob R left right \<or> differentTitleTerritories R left right then False
      else case same_containment R left right of None \<Rightarrow> False | Some c \<Rightarrow> SAME_JOB_TEXT_CONTAINMENT \<le> c)"

definition sameJobAnchorCity :: "same_rules \<Rightarrow> string option \<Rightarrow> string option" where
  "sameJobAnchorCity R location = singleNamedCity (sr_repeat R) (Some (withoutAllCities R location))"

definition judgeSameJob ::
  "same_rules \<Rightarrow> 'a same_subject_scheme \<Rightarrow> 'b same_subject_scheme \<Rightarrow> same_evidence option" where
  "judgeSameJob R left right =
     (if \<not> maySameJob R left right \<or> differentTitleTerritories R left right then None
      else
        let location = sameJobLocationRelation R (rp_location left) (rp_location right) in
        if location = ConflictingPlace then None
        else
          let employer = subjectEmployerRelation (sr_repeat R) left right;
              containment = same_containment R left right
          in case containment of
               Some c \<Rightarrow>
                 if SAME_JOB_TEXT_CONTAINMENT \<le> c
                 then Some \<lparr>sm_rule = DescriptionRule, sm_employer = employer, sm_location = location,
                   sm_containment = containment\<rparr>
                 else None
             | None \<Rightarrow>
                 if employer = Some SameEmployer \<and> location = EqualPlace \<and> isSpecificLocation R (rp_location left)
                 then Some \<lparr>sm_rule = IdentityRule, sm_employer = employer, sm_location = location,
                   sm_containment = None\<rparr>
                 else None)"

section \<open>Cards and the choice of a survivor\<close>

record same_card = same_subject +
  sc_status :: string
  sc_passReason :: "string option"
  sc_createdAt :: ms
  sc_aimFitScore :: "int option"
  sc_reqFitScore :: "int option"
  sc_userOwned :: bool
  sc_inFlight :: bool
  sc_hasSubmittedResume :: bool
  sc_tailoringStaged :: bool

record same_fold =
  sf_survivorId :: string
  sf_redundantId :: string
  sf_evidence :: "same_evidence option" \<comment> \<open>\<open>evidence.get(key)!\<close>, which nothing checks\<close>

record same_plan =
  sp_folds :: "same_fold list"
  sp_deferred :: "same_fold list"
  sp_held :: "string list list"

definition pairKey :: "string \<Rightarrow> string \<Rightarrow> string" where
  "pairKey left right =
     (if code_unit_cmp left right < 0 then left @ ''|'' @ right else right @ ''|'' @ left)"

definition USER_STATUS_RANK :: "string \<Rightarrow> int" where
  "USER_STATUS_RANK status =
     (case map_of [(''interviewing'', 90), (''applied'', 85), (''bookmarked'', 60), (''passed'', 30), (''inbox'', 20),
        (''cooldown'', 15), (''pending_af'', 10)] status of None \<Rightarrow> 0 | Some n \<Rightarrow> n)"

definition MACHINE_STATUS_RANK :: "string \<Rightarrow> int" where
  "MACHINE_STATUS_RANK status =
     (case map_of [(''cooldown'', 3), (''inbox'', 2), (''pending_af'', 1)] status of None \<Rightarrow> 0 | Some n \<Rightarrow> n)"

definition passJudgesJob :: "string option \<Rightarrow> bool" where
  "passJudgesJob passReason =
     (let reason = to_lower (trim (str_or passReason [])); dismissed = ''auto-dismissed'' in
      \<not> (reason = ''expired''
         \<or> (starts_with reason dismissed
            \<and> (case drop (length dismissed) reason of [] \<Rightarrow> True | c # _ \<Rightarrow> \<not> is_word c))
         \<or> starts_with reason ''[local triage]'' \<or> reason = ''international location rejected''
         \<or> starts_with reason ''location rejected ('' \<or> starts_with reason ''promoted by user:''))"

definition scoreCount :: "same_card \<Rightarrow> int" where
  "scoreCount c = int (length (filter (\<lambda>s. s \<noteq> None) [sc_aimFitScore c, sc_reqFitScore c]))"

definition bit_of :: "bool \<Rightarrow> int" where "bit_of b = (if b then 1 else 0)"

definition owned_key :: "same_card \<Rightarrow> int list" where
  "owned_key c =
     [bit_of (sc_hasSubmittedResume c), USER_STATUS_RANK (sc_status c),
      bit_of (sc_status c = ''passed'' \<and> sc_passReason c = Some ''Already applied''),
      bit_of (sc_tailoringStaged c), scoreCount c, - sc_createdAt c]"

definition machine_key :: "same_card \<Rightarrow> int list" where
  "machine_key c =
     [scoreCount c, MACHINE_STATUS_RANK (sc_status c), bit_of (employerFeedFamily (sj_source c) \<noteq> None),
      - sc_createdAt c]"

text \<open>Larger sorts first.\<close>

fun compareKeys :: "int list cmp" where
  "compareKeys (a # as) (b # bs) = (if a \<noteq> b then b - a else compareKeys as bs)"
| "compareKeys _ _ = 0"

definition survivor_order :: "string cmp \<Rightarrow> bool \<Rightarrow> same_card cmp" where
  "survivor_order collate owned =
     then_cmp (key_cmp (if owned then owned_key else machine_key) compareKeys) (key_cmp rp_id collate)"

text \<open>A component is never empty.\<close>

definition chooseSurvivor :: "string cmp \<Rightarrow> same_card list \<Rightarrow> same_card" where
  "chooseSurvivor collate cards =
     (let owned = filter sc_userOwned cards;
          pool = (if owned \<noteq> [] then owned else cards)
      in hd (js_sort (survivor_order collate (owned \<noteq> [])) pool))"

section \<open>The groups\<close>

text \<open>\<open>parent\<close> is the map from each card to the card above it, itself at a root; the loop of \<open>root\<close> follows it.
  A card outside of the group is never asked for.\<close>

type_synonym forest = "string \<Rightarrow> string"

partial_function (option) find_root :: "forest \<Rightarrow> string \<Rightarrow> string option" where
  "find_root parent current = (if parent current = current then Some current else find_root parent (parent current))"

definition root_of :: "string \<Rightarrow> forest \<Rightarrow> (string \<times> forest) option" where
  "root_of i parent = map_option (\<lambda>r. (r, parent(i := r))) (find_root parent i)"

definition unite :: "string \<Rightarrow> string \<Rightarrow> forest \<Rightarrow> forest option" where
  "unite left right parent =
     (case root_of left parent of
        None \<Rightarrow> None
      | Some (l, parent1) \<Rightarrow>
          (case root_of right parent1 of
             None \<Rightarrow> None
           | Some (r, parent2) \<Rightarrow> Some (parent2(l := r))))"

text \<open>The pairs of a list, as the two nested loops visit them.\<close>

fun pairs_of :: "'a list \<Rightarrow> ('a \<times> 'a) list" where
  "pairs_of [] = []"
| "pairs_of (x # xs) = map (Pair x) xs @ pairs_of xs"

definition match_of :: "same_rules \<Rightarrow> string set \<Rightarrow> same_card \<times> same_card \<Rightarrow> same_evidence option" where
  "match_of R exceptions pair =
     (case pair of (left, right) \<Rightarrow>
        if sc_userOwned left \<and> sc_userOwned right then None
        else if pairKey (rp_id left) (rp_id right) \<in> exceptions \<or> \<not> maySameJob R left right then None
        else judgeSameJob R left right)"

type_synonym evidence_map = "string \<Rightarrow> same_evidence option"

fun match_pairs ::
  "same_rules \<Rightarrow> string set \<Rightarrow> (same_card \<times> same_card) list \<Rightarrow> evidence_map \<times> forest
    \<Rightarrow> (evidence_map \<times> forest) option" where
  "match_pairs R exceptions [] st = Some st"
| "match_pairs R exceptions (pair # pairs) (evidence, parent) =
     (case match_of R exceptions pair of
        None \<Rightarrow> match_pairs R exceptions pairs (evidence, parent)
      | Some found \<Rightarrow>
          let left = rp_id (fst pair); right = rp_id (snd pair) in
          (case unite left right parent of
             None \<Rightarrow> None
           | Some parent' \<Rightarrow> match_pairs R exceptions pairs (evidence(pairKey left right \<mapsto> found), parent')))"

fun roots_of :: "string list \<Rightarrow> forest \<Rightarrow> string list option" where
  "roots_of [] parent = Some []"
| "roots_of (i # is) parent =
     (case root_of i parent of
        None \<Rightarrow> None
      | Some (r, parent') \<Rightarrow> map_option (Cons r) (roots_of is parent'))"

definition components_of :: "same_card list \<Rightarrow> forest \<Rightarrow> same_card list list option" where
  "components_of cards parent =
     map_option (\<lambda>roots. map (\<lambda>g. map snd (snd g)) (group_by fst (zip roots cards)))
       (roots_of (map rp_id cards) parent)"

section \<open>The plan\<close>

definition agree ::
  "same_rules \<Rightarrow> string set \<Rightarrow> evidence_map \<Rightarrow> same_card \<Rightarrow> same_card \<times> same_card \<Rightarrow> bool" where
  "agree R exceptions evidence survivor pair =
     (case pair of (left, right) \<Rightarrow>
        if sc_userOwned left \<and> sc_userOwned right then True
        else
          let key = pairKey (rp_id left) (rp_id right) in
          if evidence key \<noteq> None then True
          else if key \<in> exceptions then False
          else truthy (sameJobAnchorCity R (rp_location survivor))
            \<and> rp_id left \<noteq> rp_id survivor \<and> rp_id right \<noteq> rp_id survivor
            \<and> evidence (pairKey (rp_id survivor) (rp_id left)) \<noteq> None
            \<and> evidence (pairKey (rp_id survivor) (rp_id right)) \<noteq> None
            \<and> sameJobTextAgrees R left right)"

definition coherent :: "same_rules \<Rightarrow> string set \<Rightarrow> evidence_map \<Rightarrow> same_card \<Rightarrow> same_card list \<Rightarrow> bool" where
  "coherent R exceptions evidence survivor component =
     list_all (agree R exceptions evidence survivor) (pairs_of component)"

definition fold_of :: "evidence_map \<Rightarrow> same_card \<Rightarrow> same_card \<Rightarrow> same_fold" where
  "fold_of evidence survivor c =
     \<lparr>sf_survivorId = rp_id survivor, sf_redundantId = rp_id c,
      sf_evidence = evidence (pairKey (rp_id survivor) (rp_id c))\<rparr>"

definition plan_component ::
  "same_rules \<Rightarrow> string cmp \<Rightarrow> string set \<Rightarrow> evidence_map \<Rightarrow> same_card list \<Rightarrow> same_plan \<Rightarrow> same_plan" where
  "plan_component R collate exceptions evidence component plan =
     (if length component < 2 then plan
      else
        let survivor = chooseSurvivor collate component;
            foldable = filter (\<lambda>c. \<not> sc_userOwned c \<and> rp_id c \<noteq> rp_id survivor) component;
            waits = (\<lambda>c. sc_inFlight c \<or> sc_inFlight survivor)
        in if \<not> coherent R exceptions evidence survivor component
           then plan\<lparr>sp_held := sp_held plan @ [map rp_id component]\<rparr>
           else plan\<lparr>sp_folds := sp_folds plan @ map (fold_of evidence survivor) (filter (\<lambda>c. \<not> waits c) foldable),
                     sp_deferred := sp_deferred plan @ map (fold_of evidence survivor) (filter waits foldable)\<rparr>)"

definition plan_group ::
  "same_rules \<Rightarrow> string cmp \<Rightarrow> string set \<Rightarrow> same_card list \<Rightarrow> same_plan \<Rightarrow> same_plan option" where
  "plan_group R collate exceptions cards plan =
     (if length cards < 2 \<or> list_all sc_userOwned cards then Some plan
      else
        case match_pairs R exceptions (pairs_of cards) (Map.empty, id) of
          None \<Rightarrow> None
        | Some (evidence, parent) \<Rightarrow>
            map_option (\<lambda>components. fold (plan_component R collate exceptions evidence) components plan)
              (components_of cards parent))"

definition title_groups :: "same_rules \<Rightarrow> same_card list \<Rightarrow> same_card list list" where
  "title_groups R cards =
     map snd (group_by (\<lambda>c. sameJobTitleKey R (rp_title c)) (filter (\<lambda>c. sameJobTitleKey R (rp_title c) \<noteq> []) cards))"

fun plan_groups ::
  "same_rules \<Rightarrow> string cmp \<Rightarrow> string set \<Rightarrow> same_card list list \<Rightarrow> same_plan \<Rightarrow> same_plan option" where
  "plan_groups R collate exceptions [] plan = Some plan"
| "plan_groups R collate exceptions (g # gs) plan =
     (case plan_group R collate exceptions g plan of
        None \<Rightarrow> None
      | Some plan' \<Rightarrow> plan_groups R collate exceptions gs plan')"

definition planSameJobConsolidation ::
  "same_rules \<Rightarrow> string cmp \<Rightarrow> same_card list \<Rightarrow> string set \<Rightarrow> same_plan option" where
  "planSameJobConsolidation R collate cards exceptions =
     plan_groups R collate exceptions (title_groups R cards) \<lparr>sp_folds = [], sp_deferred = [], sp_held = []\<rparr>"

section \<open>The forest\<close>

text \<open>Every card has a root.\<close>

definition rooted :: "forest \<Rightarrow> bool" where
  "rooted parent \<longleftrightarrow> (\<forall>i. find_root parent i \<noteq> None)"

definition rep :: "forest \<Rightarrow> string \<Rightarrow> string" where
  "rep parent i = the (find_root parent i)"

lemma find_root_at: "parent i = i \<Longrightarrow> find_root parent i = Some i"
  by (subst find_root.simps) simp

lemma find_root_up: "parent i \<noteq> i \<Longrightarrow> find_root parent i = find_root parent (parent i)"
  by (subst find_root.simps) simp

lemma find_root_induct [consumes 1, case_names Root Step]:
  assumes "find_root parent i = Some r"
    and "\<And>i. parent i = i \<Longrightarrow> Q i i"
    and "\<And>i r. parent i \<noteq> i \<Longrightarrow> find_root parent (parent i) = Some r \<Longrightarrow> Q (parent i) r \<Longrightarrow> Q i r"
  shows "Q i r"
proof -
  let ?P = "\<lambda>p i r. p = parent \<longrightarrow> find_root parent i = Some r \<and> Q i r"
  have "?P parent i r"
  proof (rule find_root.raw_induct [where P = ?P, OF _ assms(1)], rule impI)
    fix find p current y
    assume ih: "\<And>p j r. find p j = Some r \<Longrightarrow> ?P p j r"
      and step: "(if p current = current then Some current else find p (p current)) = Some y" and p: "p = parent"
    show "find_root parent current = Some y \<and> Q current y"
    proof (cases "parent current = current")
      case True
      with step p assms(2) show ?thesis by (simp add: find_root_at)
    next
      case False
      with step p ih [of p "p current" y] have "find_root parent (parent current) = Some y \<and> Q (parent current) y" by simp
      with False assms(3) show ?thesis by (simp add: find_root_up [of parent current])
    qed
  qed
  then show ?thesis by simp
qed

lemma find_root_fixed: "find_root parent i = Some r \<Longrightarrow> parent r = r"
  by (induction rule: find_root_induct)

lemma find_root_link:
  assumes "parent a = a" and "parent b = b" and "find_root parent i = Some r"
  shows "find_root (parent(a := b)) i = Some (if r = a then b else r)"
  using assms(3)
proof (induction rule: find_root_induct)
  case (Root i)
  show ?case
  proof (cases "i = a \<and> a \<noteq> b")
    case True
    with assms(2) have "find_root (parent(a := b)) b = Some b" by (intro find_root_at) auto
    moreover have "find_root (parent(a := b)) a = find_root (parent(a := b)) b"
      using True by (subst find_root_up) auto
    ultimately show ?thesis using True by (simp add: fun_upd_def)
  next
    case False
    with Root show ?thesis by (auto simp: find_root_at)
  qed
next
  case (Step i r)
  with assms(1) have "i \<noteq> a" by blast
  with Step show ?case by (simp add: find_root_up [of _ i])
qed

lemma find_root_compress:
  assumes "find_root parent i = Some tip" and "find_root parent j = Some r"
  shows "find_root (parent(i := tip)) j = Some r"
  using assms(2)
proof (induction rule: find_root_induct)
  case (Root j)
  with assms(1) have "(parent(i := tip)) j = j" by (auto simp: find_root_at)
  then show ?case by (rule find_root_at)
next
  case (Step j r)
  have tip: "parent tip = tip" by (rule find_root_fixed [OF assms(1)])
  show ?case
  proof (cases "j = i")
    case True
    with Step assms(1) have "tip = r" by (simp add: find_root_up [of _ i])
    moreover have "tip \<noteq> i" using True Step tip by auto
    ultimately show ?thesis using True tip by (simp add: find_root_up [of _ i] find_root_at)
  next
    case False
    with Step show ?thesis by (simp add: find_root_up [of _ j])
  qed
qed

lemma rooted_rep: "rooted parent \<Longrightarrow> find_root parent i = Some (rep parent i)"
  by (auto simp: rooted_def rep_def)

lemma rooted_id [simp]: "rooted id" "rep id = id"
  by (auto simp: rooted_def rep_def find_root_at)

lemma root_of_rooted:
  assumes "rooted parent"
  obtains parent' where "root_of i parent = Some (rep parent i, parent')" and "rooted parent'" and "rep parent' = rep parent"
proof
  let ?p = "parent(i := rep parent i)"
  show "root_of i parent = Some (rep parent i, ?p)"
    by (simp add: root_of_def rooted_rep [OF assms])
  have *: "find_root ?p j = Some (rep parent j)" for j
    by (rule find_root_compress) (simp_all add: rooted_rep [OF assms])
  then show "rooted ?p" by (simp add: rooted_def)
  show "rep ?p = rep parent" using * by (auto simp: rep_def [of ?p])
qed

text \<open>Uniting two cards identifies their roots and nothing else.\<close>

lemma unite_rooted:
  assumes "rooted parent"
  obtains parent' where "unite a b parent = Some parent'" and "rooted parent'"
    and "\<And>i. rep parent' i = (if rep parent i = rep parent a then rep parent b else rep parent i)"
proof -
  obtain p1 where p1: "root_of a parent = Some (rep parent a, p1)" "rooted p1" "rep p1 = rep parent"
    by (rule root_of_rooted [OF assms])
  obtain p2 where p2: "root_of b p1 = Some (rep p1 b, p2)" "rooted p2" "rep p2 = rep p1"
    by (rule root_of_rooted [OF p1(2)])
  let ?p = "p2(rep parent a := rep parent b)"
  have tip: "p2 (rep parent i) = rep parent i" for i
    using find_root_fixed [OF rooted_rep [OF p2(2), of i]] p2(3) p1(3) by simp
  have *: "find_root ?p i = Some (if rep parent i = rep parent a then rep parent b else rep parent i)" for i
    by (rule find_root_link) (simp_all add: tip rooted_rep [OF p2(2)] p2(3) p1(3))
  show thesis
  proof (rule that)
    show "unite a b parent = Some ?p" using p1 p2 by (simp add: unite_def)
    show "rooted ?p" using * by (simp add: rooted_def)
    show "rep ?p i = (if rep parent i = rep parent a then rep parent b else rep parent i)" for i
      using * by (simp add: rep_def [of ?p])
  qed
qed

text \<open>The roots of the cards, read one after the other.\<close>

lemma roots_of_rooted: "rooted parent \<Longrightarrow> roots_of is parent = Some (map (rep parent) is)"
proof (induction "is" arbitrary: parent)
  case (Cons i "is")
  obtain p where "root_of i parent = Some (rep parent i, p)" "rooted p" "rep p = rep parent"
    by (rule root_of_rooted [OF Cons.prems])
  with Cons.IH [of p] show ?case by simp
qed simp

section \<open>Pairs and keys\<close>

lemma pairs_of_member: "(l, r) \<in> set (pairs_of xs) \<Longrightarrow> l \<in> set xs \<and> r \<in> set xs"
  by (induction xs) auto

lemma pairs_of_either:
  "l \<in> set xs \<Longrightarrow> r \<in> set xs \<Longrightarrow> l \<noteq> r \<Longrightarrow> (l, r) \<in> set (pairs_of xs) \<or> (r, l) \<in> set (pairs_of xs)"
  by (induction xs) auto

lemma pairs_of_filter:
  "(l, r) \<in> set (pairs_of xs) \<Longrightarrow> P l \<Longrightarrow> P r \<Longrightarrow> (l, r) \<in> set (pairs_of (filter P xs))"
  by (induction xs) auto

lemma pairs_of_filterD: "(l, r) \<in> set (pairs_of (filter P xs)) \<Longrightarrow> (l, r) \<in> set (pairs_of xs)"
  by (induction xs) (auto split: if_splits)

lemma pairKey_commute: "pairKey a b = pairKey b a"
  using code_unit_cmp_anti [of a b] code_unit_cmp_eq0 [of a b] by (auto simp: pairKey_def)

lemma pipe_split:
  "CHR ''|'' \<notin> set a \<Longrightarrow> CHR ''|'' \<notin> set c \<Longrightarrow> a @ ''|'' @ b = c @ ''|'' @ d \<Longrightarrow> a = c \<and> b = d"
  by (auto simp: append_eq_append_conv2 append_eq_Cons_conv Cons_eq_append_conv)

text \<open>The key of a pair names the pair, as an identifier holds no bar.\<close>

lemma pairKey_inject:
  assumes "CHR ''|'' \<notin> set a" "CHR ''|'' \<notin> set b" "CHR ''|'' \<notin> set c" "CHR ''|'' \<notin> set d"
    and "pairKey a b = pairKey c d"
  shows "(a = c \<and> b = d) \<or> (a = d \<and> b = c)"
proof -
  have key: "\<exists>x y. pairKey a b = x @ ''|'' @ y \<and> (x, y) \<in> {(a, b), (b, a)}" for a b
    by (auto simp: pairKey_def)
  obtain x y where xy: "pairKey a b = x @ ''|'' @ y" "(x, y) \<in> {(a, b), (b, a)}" using key by blast
  obtain u v where uv: "pairKey c d = u @ ''|'' @ v" "(u, v) \<in> {(c, d), (d, c)}" using key by blast
  have "x @ ''|'' @ y = u @ ''|'' @ v" using xy(1) uv(1) assms(5) by simp
  moreover have "CHR ''|'' \<notin> set x" "CHR ''|'' \<notin> set u" using xy(2) uv(2) assms(1-4) by blast+
  ultimately have "x = u \<and> y = v" by (rule pipe_split [rotated 2])
  with xy(2) uv(2) show ?thesis by blast
qed

section \<open>The matched pairs\<close>

definition matched_ids ::
  "same_rules \<Rightarrow> string set \<Rightarrow> (same_card \<times> same_card) list \<Rightarrow> string \<Rightarrow> string \<Rightarrow> bool" where
  "matched_ids R exceptions pairs i j \<longleftrightarrow>
     (\<exists>l r. (l, r) \<in> set pairs \<and> match_of R exceptions (l, r) \<noteq> None \<and> i = rp_id l \<and> j = rp_id r)"

lemma equivclp_mono: "equivclp M i j \<Longrightarrow> (\<And>a b. M a b \<Longrightarrow> N a b) \<Longrightarrow> equivclp N i j"
  unfolding equivclp_def symclp_def by (erule rtranclp_mono [THEN predicate2D, rotated]) auto

text \<open>A forest whose trees are the classes of \<open>M\<close>.\<close>

definition forest_of :: "(string \<Rightarrow> string \<Rightarrow> bool) \<Rightarrow> forest \<Rightarrow> bool" where
  "forest_of M parent \<longleftrightarrow> rooted parent \<and> (\<forall>i j. rep parent i = rep parent j \<longleftrightarrow> equivclp M i j)"

lemma forest_of_id [simp]: "forest_of (\<lambda>i j. False) id"
proof -
  have "i = j" if "equivclp (\<lambda>i j. False) i j" for i j :: string
    using that by (induction rule: equivclp_induct) auto
  then show ?thesis by (auto simp: forest_of_def)
qed

lemma forest_of_unite:
  assumes "forest_of M parent"
  obtains parent' where "unite a b parent = Some parent'" and "forest_of (\<lambda>i j. M i j \<or> (i = a \<and> j = b)) parent'"
proof -
  let ?N = "\<lambda>i j. M i j \<or> (i = a \<and> j = b)"
  have M: "rep parent i = rep parent j \<longleftrightarrow> equivclp M i j" for i j
    using assms by (simp add: forest_of_def)
  obtain p where p: "unite a b parent = Some p" "rooted p"
    "\<And>i. rep p i = (if rep parent i = rep parent a then rep parent b else rep parent i)"
    using unite_rooted [of parent a b] assms by (auto simp: forest_of_def)
  have up: "equivclp M i j \<Longrightarrow> equivclp ?N i j" for i j by (erule equivclp_mono) simp
  have ab: "equivclp ?N a b" by (rule r_into_equivclp) simp
  have "equivclp ?N i j" if "rep p i = rep p j" for i j
  proof -
    have side: "equivclp ?N i (if rep parent i = rep parent a then b else i)" for i
      using M [of i a] up [of i a] ab by (auto intro: equivclp_trans)
    have "equivclp M (if rep parent i = rep parent a then b else i) (if rep parent j = rep parent a then b else j)"
      using that M by (auto simp: p(3) split: if_splits)
    from up [OF this] side [of i] side [of j] show ?thesis
      by (meson equivclp_sym equivclp_trans)
  qed
  moreover have "rep p i = rep p j" if "equivclp ?N i j" for i j
    using that
  proof (induction rule: equivclp_induct)
    case (step j k)
    have "rep p j = rep p k"
      using step(2) M [of j k] M [of k j] r_into_equivclp [of M j k] r_into_equivclp [of M k j]
      by (auto simp: p(3))
    with step(3) show ?case by simp
  qed simp
  ultimately have "forest_of ?N p" using p(2) unfolding forest_of_def by blast
  with p(1) show thesis by (rule that)
qed

lemma match_pairs_result:
  assumes "forest_of M parent"
  obtains evidence' parent' where "match_pairs R E pairs (evidence, parent) = Some (evidence', parent')"
    and "forest_of (\<lambda>i j. M i j \<or> matched_ids R E pairs i j) parent'"
    and "\<And>k e. evidence' k = Some e \<Longrightarrow> evidence k = Some e
      \<or> (\<exists>l r. (l, r) \<in> set pairs \<and> pairKey (rp_id l) (rp_id r) = k \<and> match_of R E (l, r) = Some e)"
    and "\<And>k. evidence k \<noteq> None \<Longrightarrow> evidence' k \<noteq> None"
    and "\<And>l r. (l, r) \<in> set pairs \<Longrightarrow> match_of R E (l, r) \<noteq> None \<Longrightarrow> evidence' (pairKey (rp_id l) (rp_id r)) \<noteq> None"
  using assms
proof (induction pairs arbitrary: evidence parent M thesis)
  case Nil
  show ?case by (rule Nil(1)) (use Nil(2) in \<open>auto simp: matched_ids_def\<close>)
next
  case (Cons pair pairs)
  obtain l r where lr: "pair = (l, r)" by (cases pair)
  show ?case
  proof (cases "match_of R E pair")
    case None
    obtain ev' p' where *: "match_pairs R E pairs (evidence, parent) = Some (ev', p')"
      "forest_of (\<lambda>i j. M i j \<or> matched_ids R E pairs i j) p'"
      "\<And>k e. ev' k = Some e \<Longrightarrow> evidence k = Some e
        \<or> (\<exists>l r. (l, r) \<in> set pairs \<and> pairKey (rp_id l) (rp_id r) = k \<and> match_of R E (l, r) = Some e)"
      "\<And>k. evidence k \<noteq> None \<Longrightarrow> ev' k \<noteq> None"
      "\<And>l r. (l, r) \<in> set pairs \<Longrightarrow> match_of R E (l, r) \<noteq> None \<Longrightarrow> ev' (pairKey (rp_id l) (rp_id r)) \<noteq> None"
      using Cons.IH [OF _ Cons.prems(2)] by blast
    have "matched_ids R E (pair # pairs) = matched_ids R E pairs"
      using None lr by (auto simp: matched_ids_def fun_eq_iff)
    with * None lr show ?thesis by (intro Cons.prems(1) [of ev' p']) (auto; fail)+
  next
    case (Some found)
    let ?N = "\<lambda>i j. M i j \<or> (i = rp_id l \<and> j = rp_id r)"
    let ?ev = "evidence(pairKey (rp_id l) (rp_id r) \<mapsto> found)"
    obtain p1 where p1: "unite (rp_id l) (rp_id r) parent = Some p1" "forest_of ?N p1"
      by (rule forest_of_unite [OF Cons.prems(2)])
    obtain ev' p' where *: "match_pairs R E pairs (?ev, p1) = Some (ev', p')"
      "forest_of (\<lambda>i j. ?N i j \<or> matched_ids R E pairs i j) p'"
      "\<And>k e. ev' k = Some e \<Longrightarrow> ?ev k = Some e
        \<or> (\<exists>l r. (l, r) \<in> set pairs \<and> pairKey (rp_id l) (rp_id r) = k \<and> match_of R E (l, r) = Some e)"
      "\<And>k. ?ev k \<noteq> None \<Longrightarrow> ev' k \<noteq> None"
      "\<And>l r. (l, r) \<in> set pairs \<Longrightarrow> match_of R E (l, r) \<noteq> None \<Longrightarrow> ev' (pairKey (rp_id l) (rp_id r)) \<noteq> None"
      using Cons.IH [OF _ p1(2)] by blast
    have **: "(\<lambda>i j. ?N i j \<or> matched_ids R E pairs i j) = (\<lambda>i j. M i j \<or> matched_ids R E (pair # pairs) i j)"
      using Some lr by (auto simp: matched_ids_def fun_eq_iff)
    show ?thesis
    proof (rule Cons.prems(1))
      show "match_pairs R E (pair # pairs) (evidence, parent) = Some (ev', p')"
        using Some lr p1(1) *(1) by (simp add: Let_def)
      show "forest_of (\<lambda>i j. M i j \<or> matched_ids R E (pair # pairs) i j) p'" using *(2) unfolding ** .
      fix k
      show "evidence k \<noteq> None \<Longrightarrow> ev' k \<noteq> None" using *(4) [of k] by (auto split: if_splits)
      fix e
      show "ev' k = Some e \<Longrightarrow> evidence k = Some e
        \<or> (\<exists>l r. (l, r) \<in> set (pair # pairs) \<and> pairKey (rp_id l) (rp_id r) = k \<and> match_of R E (l, r) = Some e)"
        using *(3) [of k e] Some lr by (auto split: if_splits)
    next
      fix l' r'
      assume "(l', r') \<in> set (pair # pairs)" and "match_of R E (l', r') \<noteq> None"
      then show "ev' (pairKey (rp_id l') (rp_id r')) \<noteq> None"
        using *(4) [of "pairKey (rp_id l) (rp_id r)"] *(5) [of l' r'] lr by auto
    qed
  qed
qed

section \<open>The parts of a plan\<close>

lemma group_by_zip:
  "map (\<lambda>g. map snd (snd g)) (group_by fst (zip (map f xs) xs)) = map (\<lambda>k. filter (\<lambda>x. f x = k) xs) (dedup (map f xs))"
proof -
  have "map snd (filter (\<lambda>p. fst p = k) (zip (map f xs) xs)) = filter (\<lambda>x. f x = k) xs" for k
    by (induction xs) auto
  moreover have "map fst (zip (map f xs) xs) = map f xs" by simp
  ultimately show ?thesis by (simp add: group_by_def comp_def)
qed

lemma in_class: "x \<in> set c \<Longrightarrow> c \<in> set (map (\<lambda>k. filter (\<lambda>x. f x = k) xs) (dedup (map f xs))) \<longleftrightarrow>
    x \<in> set c \<and> c = filter (\<lambda>y. f y = f x) xs \<and> x \<in> set xs"
  by auto

lemma distinct_classes:
  assumes "distinct xs"
  shows "distinct (concat (map (\<lambda>k. filter (\<lambda>x. f x = k) xs) (dedup ks)))"
proof -
  have "mset (concat (map (\<lambda>k. filter (\<lambda>x. f x = k) xs) (dedup ks))) = mset (filter (\<lambda>x. f x \<in> set (dedup ks)) xs)"
    by (rule mset_groups) simp
  with assms show ?thesis by (metis distinct_filter mset_eq_imp_distinct_iff)
qed

type_synonym part = "evidence_map \<times> same_card list"

definition part_survivor :: "string cmp \<Rightarrow> part \<Rightarrow> same_card" where
  "part_survivor collate part = chooseSurvivor collate (snd part)"

definition part_coherent :: "same_rules \<Rightarrow> string cmp \<Rightarrow> string set \<Rightarrow> part \<Rightarrow> bool" where
  "part_coherent R collate E part \<longleftrightarrow> coherent R E (fst part) (part_survivor collate part) (snd part)"

definition part_waits :: "string cmp \<Rightarrow> part \<Rightarrow> same_card \<Rightarrow> bool" where
  "part_waits collate part c \<longleftrightarrow> sc_inFlight c \<or> sc_inFlight (part_survivor collate part)"

definition part_folds :: "same_rules \<Rightarrow> string cmp \<Rightarrow> string set \<Rightarrow> bool \<Rightarrow> part \<Rightarrow> same_fold list" where
  "part_folds R collate E waiting part =
     (if length (snd part) < 2 \<or> \<not> part_coherent R collate E part then []
      else map (fold_of (fst part) (part_survivor collate part))
        (filter (\<lambda>c. part_waits collate part c = waiting)
          (filter (\<lambda>c. \<not> sc_userOwned c \<and> rp_id c \<noteq> rp_id (part_survivor collate part)) (snd part))))"

definition part_held :: "same_rules \<Rightarrow> string cmp \<Rightarrow> string set \<Rightarrow> part \<Rightarrow> string list list" where
  "part_held R collate E part =
     (if length (snd part) < 2 \<or> part_coherent R collate E part then [] else [map rp_id (snd part)])"

definition with_parts :: "same_rules \<Rightarrow> string cmp \<Rightarrow> string set \<Rightarrow> part list \<Rightarrow> same_plan \<Rightarrow> same_plan" where
  "with_parts R collate E parts plan =
     \<lparr>sp_folds = sp_folds plan @ concat (map (part_folds R collate E False) parts),
      sp_deferred = sp_deferred plan @ concat (map (part_folds R collate E True) parts),
      sp_held = sp_held plan @ concat (map (part_held R collate E) parts)\<rparr>"

lemma plan_component_part:
  "plan_component R collate E evidence c plan = with_parts R collate E [(evidence, c)] plan"
  by (cases plan) (simp add: plan_component_def with_parts_def part_folds_def part_held_def part_coherent_def
      part_survivor_def part_waits_def Let_def cong: filter_cong)

lemma with_parts_append:
  "with_parts R collate E qs (with_parts R collate E ps plan) = with_parts R collate E (ps @ qs) plan"
  by (simp add: with_parts_def)

lemma with_no_parts [simp]: "with_parts R collate E [] plan = plan"
  by (simp add: with_parts_def)

lemma plan_components_parts:
  "fold (plan_component R collate E evidence) cs plan = with_parts R collate E (map (Pair evidence) cs) plan"
proof (induction cs arbitrary: plan)
  case (Cons c cs)
  then show ?case by (simp add: plan_component_part with_parts_append)
qed simp

text \<open>The parts of a list of cards: disjoint, with the evidence of matched pairs, and no matched pair is
  torn apart.\<close>

definition parts_of :: "same_rules \<Rightarrow> string set \<Rightarrow> same_card list \<Rightarrow> part list \<Rightarrow> bool" where
  "parts_of R E cards parts \<longleftrightarrow>
     distinct (concat (map snd parts)) \<and> set (concat (map snd parts)) \<subseteq> set cards
     \<and> (\<forall>part \<in> set parts. \<forall>k e. fst part k = Some e \<longrightarrow>
          (\<exists>l r. (l, r) \<in> set (pairs_of cards) \<and> pairKey (rp_id l) (rp_id r) = k \<and> match_of R E (l, r) = Some e))
     \<and> (\<forall>l r. (l, r) \<in> set (pairs_of cards) \<longrightarrow> match_of R E (l, r) \<noteq> None \<longrightarrow>
          (\<exists>part \<in> set parts. l \<in> set (snd part) \<and> r \<in> set (snd part)))"

text \<open>The components are the classes of the matched pairs.\<close>

lemma components_classes:
  assumes "forest_of M parent"
  shows "components_of cards parent
    = Some (map (\<lambda>k. filter (\<lambda>c. rep parent (rp_id c) = k) cards) (dedup (map (\<lambda>c. rep parent (rp_id c)) cards)))"
proof -
  have "roots_of (map rp_id cards) parent = Some (map (\<lambda>c. rep parent (rp_id c)) cards)"
    using roots_of_rooted [of parent "map rp_id cards"] assms by (simp add: forest_of_def comp_def)
  then show ?thesis
    using group_by_zip [of "\<lambda>c. rep parent (rp_id c)" cards] by (simp add: components_of_def)
qed

lemma all_owned_unmatched:
  assumes "length cards < 2 \<or> list_all sc_userOwned cards" and "(l, r) \<in> set (pairs_of cards)"
  shows "match_of R E (l, r) = None"
proof -
  have "2 \<le> length cards" using assms(2) by (cases cards; cases "tl cards") auto
  with assms have "sc_userOwned l" "sc_userOwned r" by (auto simp: list_all_iff dest: pairs_of_member)
  then show ?thesis by (simp add: match_of_def)
qed

lemma plan_group_parts:
  assumes "distinct cards"
  obtains parts where "plan_group R collate E cards plan = Some (with_parts R collate E parts plan)"
    and "parts_of R E cards parts"
proof (cases "length cards < 2 \<or> list_all sc_userOwned cards")
  case True
  with all_owned_unmatched [OF True] show thesis
    by (intro that [of "[]"]) (auto simp: plan_group_def parts_of_def)
next
  case False
  obtain ev p where *: "match_pairs R E (pairs_of cards) (Map.empty, id) = Some (ev, p)"
    "forest_of (\<lambda>i j. False \<or> matched_ids R E (pairs_of cards) i j) p"
    "\<And>k e. ev k = Some e \<Longrightarrow> Map.empty k = Some e
      \<or> (\<exists>l r. (l, r) \<in> set (pairs_of cards) \<and> pairKey (rp_id l) (rp_id r) = k \<and> match_of R E (l, r) = Some e)"
    using match_pairs_result [OF forest_of_id, of R E "pairs_of cards" Map.empty] by metis
  let ?f = "\<lambda>c. rep p (rp_id c)"
  let ?cs = "map (\<lambda>k. filter (\<lambda>c. ?f c = k) cards) (dedup (map ?f cards))"
  show thesis
  proof (rule that)
    show "plan_group R collate E cards plan = Some (with_parts R collate E (map (Pair ev) ?cs) plan)"
      unfolding plan_group_def using False *(1)
      by (simp add: components_classes [OF *(2)] plan_components_parts del: map_map)
    have together: "?f l = ?f r" if "(l, r) \<in> set (pairs_of cards)" "match_of R E (l, r) \<noteq> None" for l r
    proof -
      have "equivclp (\<lambda>i j. False \<or> matched_ids R E (pairs_of cards) i j) (rp_id l) (rp_id r)"
        by (rule r_into_equivclp) (use that in \<open>auto simp: matched_ids_def\<close>)
      with *(2) show ?thesis by (simp add: forest_of_def)
    qed
    have "\<exists>c \<in> set ?cs. l \<in> set c \<and> r \<in> set c"
      if "(l, r) \<in> set (pairs_of cards)" "match_of R E (l, r) \<noteq> None" for l r
      using together [OF that] pairs_of_member [OF that(1)] by auto
    then show "parts_of R E cards (map (Pair ev) ?cs)"
      unfolding parts_of_def using *(3) distinct_classes [OF assms, of ?f "map ?f cards"]
      by (auto simp: comp_def)
  qed
qed

lemma parts_disjoint:
  assumes "parts_of R E cards parts" and "part \<in> set parts" "x \<in> set (snd part)"
    and "part' \<in> set parts" "x \<in> set (snd part')"
  shows "part' = part"
proof -
  have "distinct (concat (map snd parts))" using assms(1) by (simp add: parts_of_def)
  with assms(2-5) show ?thesis
    by (induction parts) (auto; blast)+
qed

text \<open>Parts of disjoint lists of cards, put together.\<close>

definition parts_all :: "same_rules \<Rightarrow> string set \<Rightarrow> same_card list list \<Rightarrow> part list \<Rightarrow> bool" where
  "parts_all R E gs parts \<longleftrightarrow>
     distinct (concat (map snd parts)) \<and> set (concat (map snd parts)) \<subseteq> set (concat gs)
     \<and> (\<forall>part \<in> set parts. \<forall>k e. fst part k = Some e \<longrightarrow>
          (\<exists>g l r. g \<in> set gs \<and> (l, r) \<in> set (pairs_of g) \<and> pairKey (rp_id l) (rp_id r) = k \<and> match_of R E (l, r) = Some e))
     \<and> (\<forall>g l r. g \<in> set gs \<longrightarrow> (l, r) \<in> set (pairs_of g) \<longrightarrow> match_of R E (l, r) \<noteq> None \<longrightarrow>
          (\<exists>part \<in> set parts. l \<in> set (snd part) \<and> r \<in> set (snd part)))"

lemma parts_all_Cons:
  assumes "parts_of R E g ps" and "parts_all R E gs qs" and "set g \<inter> set (concat gs) = {}"
  shows "parts_all R E (g # gs) (ps @ qs)"
proof -
  have inside: "set (concat (map snd ps)) \<subseteq> set g" "set (concat (map snd qs)) \<subseteq> set (concat gs)"
    using assms(1,2) by (simp_all add: parts_of_def parts_all_def)
  then have "set (concat (map snd ps)) \<inter> set (concat (map snd qs)) = {}" using assms(3) by blast
  moreover have "distinct (concat (map snd ps))" "distinct (concat (map snd qs))"
    using assms(1,2) by (simp_all add: parts_of_def parts_all_def)
  ultimately have "distinct (concat (map snd (ps @ qs)))" by simp
  moreover have "set (concat (map snd (ps @ qs))) \<subseteq> set (concat (g # gs))" using inside by auto
  moreover have "\<exists>g' l r. g' \<in> set (g # gs) \<and> (l, r) \<in> set (pairs_of g') \<and> pairKey (rp_id l) (rp_id r) = k
      \<and> match_of R E (l, r) = Some e"
    if "part \<in> set (ps @ qs)" "fst part k = Some e" for part k e
  proof (cases "part \<in> set ps")
    case True
    with assms(1) that(2) have "\<exists>l r. (l, r) \<in> set (pairs_of g) \<and> pairKey (rp_id l) (rp_id r) = k
        \<and> match_of R E (l, r) = Some e"
      unfolding parts_of_def by blast
    then show ?thesis by (intro exI [of _ g]) simp
  next
    case False
    with that(1) have "part \<in> set qs" by simp
    with assms(2) that(2) have "\<exists>g' l r. g' \<in> set gs \<and> (l, r) \<in> set (pairs_of g') \<and> pairKey (rp_id l) (rp_id r) = k
        \<and> match_of R E (l, r) = Some e"
      unfolding parts_all_def by blast
    then show ?thesis by (metis list.set_intros(2))
  qed
  moreover have "\<exists>part \<in> set (ps @ qs). l \<in> set (snd part) \<and> r \<in> set (snd part)"
    if "g' \<in> set (g # gs)" "(l, r) \<in> set (pairs_of g')" "match_of R E (l, r) \<noteq> None" for g' l r
  proof (cases "g' = g")
    case True
    with assms(1) that(2,3) have "\<exists>part \<in> set ps. l \<in> set (snd part) \<and> r \<in> set (snd part)"
      unfolding parts_of_def by blast
    then show ?thesis by auto
  next
    case False
    with that(1) have "g' \<in> set gs" by simp
    with assms(2) that(2,3) have "\<exists>part \<in> set qs. l \<in> set (snd part) \<and> r \<in> set (snd part)"
      unfolding parts_all_def by blast
    then show ?thesis by auto
  qed
  ultimately show ?thesis unfolding parts_all_def by blast
qed

lemma plan_groups_parts:
  assumes "distinct (concat gs)"
  obtains parts where "plan_groups R collate E gs plan = Some (with_parts R collate E parts plan)"
    and "parts_all R E gs parts"
  using assms
proof (induction gs arbitrary: plan thesis)
  case Nil
  show ?case by (rule Nil(1) [of "[]"]) (auto simp: parts_all_def)
next
  case (Cons g gs)
  then have d: "distinct g" "distinct (concat gs)" "set g \<inter> set (concat gs) = {}" by auto
  obtain ps where ps: "plan_group R collate E g plan = Some (with_parts R collate E ps plan)" "parts_of R E g ps"
    by (rule plan_group_parts [OF d(1)])
  obtain qs where qs: "plan_groups R collate E gs (with_parts R collate E ps plan)
      = Some (with_parts R collate E qs (with_parts R collate E ps plan))" "parts_all R E gs qs"
    by (rule Cons.IH [OF _ d(2)])
  show ?case
    by (rule Cons.prems(1) [OF _ parts_all_Cons [OF ps(2) qs(2) d(3)]]) (simp add: ps(1) qs(1) with_parts_append)
qed

lemma match_title:
  assumes "match_of R E (l, r) \<noteq> None"
  shows "sameJobTitleKey R (rp_title l) \<noteq> [] \<and> sameJobTitleKey R (rp_title r) = sameJobTitleKey R (rp_title l)"
  using assms by (auto simp: match_of_def maySameJob_def Let_def split: if_splits)

lemma title_groups_eq:
  "title_groups R cards = map (\<lambda>k. filter (\<lambda>c. sameJobTitleKey R (rp_title c) = k)
     (filter (\<lambda>c. sameJobTitleKey R (rp_title c) \<noteq> []) cards))
     (dedup (map (\<lambda>c. sameJobTitleKey R (rp_title c)) (filter (\<lambda>c. sameJobTitleKey R (rp_title c) \<noteq> []) cards)))"
  by (simp add: title_groups_def group_by_def comp_def)

lemma planned_parts:
  assumes "distinct cards"
  obtains parts where "planSameJobConsolidation R collate cards E
      = Some (with_parts R collate E parts \<lparr>sp_folds = [], sp_deferred = [], sp_held = []\<rparr>)"
    and "parts_of R E cards parts"
proof -
  let ?key = "\<lambda>c. sameJobTitleKey R (rp_title c)"
  let ?cs = "filter (\<lambda>c. ?key c \<noteq> []) cards"
  have "distinct (concat (title_groups R cards))"
    unfolding title_groups_eq using assms by (intro distinct_classes) simp
  then obtain parts where parts: "plan_groups R collate E (title_groups R cards) \<lparr>sp_folds = [], sp_deferred = [], sp_held = []\<rparr>
      = Some (with_parts R collate E parts \<lparr>sp_folds = [], sp_deferred = [], sp_held = []\<rparr>)"
    "parts_all R E (title_groups R cards) parts"
    by (rule plan_groups_parts)
  have inside: "(l, r) \<in> set (pairs_of cards)" if "g \<in> set (title_groups R cards)" "(l, r) \<in> set (pairs_of g)" for g l r
    using that by (auto simp: title_groups_eq dest!: pairs_of_filterD)
  have covered: "\<exists>g \<in> set (title_groups R cards). (l, r) \<in> set (pairs_of g)"
    if "(l, r) \<in> set (pairs_of cards)" "match_of R E (l, r) \<noteq> None" for l r
  proof -
    have "(l, r) \<in> set (pairs_of (filter (\<lambda>c. ?key c = ?key l) ?cs))"
      using match_title [OF that(2)] by (intro pairs_of_filter that(1)) auto
    moreover have "filter (\<lambda>c. ?key c = ?key l) ?cs \<in> set (title_groups R cards)"
      using match_title [OF that(2)] pairs_of_member [OF that(1)] unfolding title_groups_eq by (simp add: image_iff) blast
    ultimately show ?thesis by blast
  qed
  have "set (concat (title_groups R cards)) \<subseteq> set cards" by (auto simp: title_groups_eq)
  then have "parts_of R E cards parts"
    using parts(2) inside covered unfolding parts_all_def parts_of_def by (intro conjI) (blast | meson)+
  with parts(1) show thesis by (intro that) (simp_all add: planSameJobConsolidation_def)
qed

section \<open>The survivor\<close>

lemma compareKeys_refl: "compareKeys xs xs = 0"
  by (induction xs) auto

lemma compareKeys_anti: "compareKeys ys xs = - compareKeys xs ys"
  by (induction xs ys rule: compareKeys.induct) (auto, (metis compareKeys.simps(2,3) list.exhaust)?)

lemma compareKeys_trans:
  "length xs = length ys \<Longrightarrow> length ys = length zs \<Longrightarrow> compareKeys xs ys \<le> 0 \<Longrightarrow> compareKeys ys zs \<le> 0
    \<Longrightarrow> compareKeys xs zs \<le> 0"
  by (induction xs ys zs rule: list_induct3) (auto split: if_splits)

lemma survivor_comparator:
  assumes "comparator collate"
  shows "comparator (survivor_order collate owned)"
proof -
  have "comparator (key_cmp f compareKeys)" if "\<And>x y. length (f x) = length (f y)" for f :: "same_card \<Rightarrow> int list"
  proof
    fix x y z
    show "key_cmp f compareKeys x x = 0" by (simp add: key_cmp_def compareKeys_refl)
    show "sgn (key_cmp f compareKeys y x) = - sgn (key_cmp f compareKeys x y)"
      using compareKeys_anti [of "f x" "f y"] by (simp add: key_cmp_def sgn_minus)
    assume "key_cmp f compareKeys x y \<le> 0" "key_cmp f compareKeys y z \<le> 0"
    then show "key_cmp f compareKeys x z \<le> 0"
      using compareKeys_trans [of "f x" "f y" "f z"] that by (simp add: key_cmp_def)
  qed
  then have "comparator (key_cmp (if owned then owned_key else machine_key) compareKeys)"
    by (simp add: owned_key_def machine_key_def)
  then show ?thesis
    unfolding survivor_order_def by (rule comparator_then) (rule comparator_key [OF assms])
qed

lemma hd_js_sort: "xs \<noteq> [] \<Longrightarrow> hd (js_sort c xs) \<in> set xs"
  by (metis hd_in_set js_sort_eq_Nil set_js_sort)

lemma survivor_owned:
  assumes "filter sc_userOwned cs \<noteq> []"
  shows "chooseSurvivor collate cs \<in> set (filter sc_userOwned cs)"
proof -
  have "chooseSurvivor collate cs = hd (js_sort (survivor_order collate True) (filter sc_userOwned cs))"
    using assms unfolding chooseSurvivor_def Let_def by (simp only: if_True not_False_eq_True simp_thms)
  then show ?thesis using hd_js_sort [OF assms] by simp
qed

lemma survivor_machine:
  assumes "filter sc_userOwned cs = []"
  shows "chooseSurvivor collate cs = hd (js_sort (survivor_order collate False) cs)"
  unfolding chooseSurvivor_def Let_def assms by simp

lemma survivor_in:
  assumes "cs \<noteq> []"
  shows "chooseSurvivor collate cs \<in> set cs"
proof (cases "filter sc_userOwned cs = []")
  case True
  show ?thesis unfolding survivor_machine [OF True] by (rule hd_js_sort [OF assms])
next
  case False
  from survivor_owned [OF False, of collate] show ?thesis by simp
qed

lemma survivor_outscores:
  assumes "comparator collate" and "c \<in> set cs" and "\<not> sc_userOwned (chooseSurvivor collate cs)"
  shows "scoreCount c \<le> scoreCount (chooseSurvivor collate cs)"
proof -
  have "filter sc_userOwned cs = []"
  proof (rule ccontr)
    assume "filter sc_userOwned cs \<noteq> []"
    from survivor_owned [OF this, of collate] assms(3) show False by simp
  qed
  then have *: "chooseSurvivor collate cs = hd (js_sort (survivor_order collate False) cs)"
    by (rule survivor_machine)
  then obtain ys where "js_sort (survivor_order collate False) cs = chooseSurvivor collate cs # ys"
    using assms(2) by (metis empty_iff js_sort_eq_Nil list.collapse list.set(1))
  from comparator.js_sort_hd_least [OF survivor_comparator [OF assms(1)] this assms(2)]
  have "survivor_order collate False (chooseSurvivor collate cs) c \<le> 0" .
  moreover have "scoreCount x < scoreCount y \<Longrightarrow> 0 < survivor_order collate False x y" for x y
    by (simp add: survivor_order_def then_cmp_def key_cmp_def machine_key_def)
  ultimately show ?thesis by (meson linorder_not_less)
qed

section \<open>What a plan guarantees\<close>

lemma part_folds_member:
  assumes "f \<in> set (part_folds R collate E waiting part)"
  obtains c where "c \<in> set (snd part)" and "\<not> sc_userOwned c" and "rp_id c \<noteq> rp_id (part_survivor collate part)"
    and "f = fold_of (fst part) (part_survivor collate part) c" and "part_waits collate part c = waiting"
    and "part_coherent R collate E part" and "part_survivor collate part \<in> set (snd part)"
proof -
  have "\<not> (length (snd part) < 2 \<or> \<not> part_coherent R collate E part)"
  proof
    assume "length (snd part) < 2 \<or> \<not> part_coherent R collate E part"
    with assms show False unfolding part_folds_def by (simp only: if_True list.set(1) empty_iff)
  qed
  then have coh: "part_coherent R collate E part" and eq: "part_folds R collate E waiting part
      = map (fold_of (fst part) (part_survivor collate part))
        (filter (\<lambda>c. part_waits collate part c = waiting)
          (filter (\<lambda>c. \<not> sc_userOwned c \<and> rp_id c \<noteq> rp_id (part_survivor collate part)) (snd part)))"
    by (simp_all add: part_folds_def)
  from assms obtain c where c: "c \<in> set (snd part)" "\<not> sc_userOwned c" "rp_id c \<noteq> rp_id (part_survivor collate part)"
    "f = fold_of (fst part) (part_survivor collate part) c" "part_waits collate part c = waiting"
    unfolding eq by (simp only: set_map set_filter image_iff mem_Collect_eq) blast
  from c(1) have "snd part \<noteq> []" by auto
  then have "part_survivor collate part \<in> set (snd part)"
    unfolding part_survivor_def by (rule survivor_in)
  with c coh show thesis by (intro that)
qed

lemma coherent_evidence:
  assumes "part_coherent R collate E part" and "part_survivor collate part \<in> set (snd part)" and "c \<in> set (snd part)"
    and "\<not> sc_userOwned c" and "rp_id c \<noteq> rp_id (part_survivor collate part)"
  shows "fst part (pairKey (rp_id (part_survivor collate part)) (rp_id c)) \<noteq> None"
proof -
  let ?s = "part_survivor collate part"
  have "?s \<noteq> c" using assms(5) by auto
  then have "(?s, c) \<in> set (pairs_of (snd part)) \<or> (c, ?s) \<in> set (pairs_of (snd part))"
    by (rule pairs_of_either [OF assms(2,3)])
  then have "agree R E (fst part) ?s (?s, c) \<or> agree R E (fst part) ?s (c, ?s)"
    using assms(1) by (auto simp: part_coherent_def coherent_def list_all_iff)
  then show ?thesis
    using assms(4) pairKey_commute [of "rp_id c" "rp_id ?s"] by (auto simp: agree_def Let_def split: if_splits)
qed

lemma distinct_concat_filters:
  assumes "distinct (concat (map f ps))"
  shows "distinct (concat (map (\<lambda>p. filter (P p) (f p)) ps))"
  using assms by (induction ps) auto

definition part_redundant :: "same_rules \<Rightarrow> string cmp \<Rightarrow> string set \<Rightarrow> part \<Rightarrow> same_card list" where
  "part_redundant R collate E part =
     filter (\<lambda>c. 2 \<le> length (snd part) \<and> part_coherent R collate E part \<and> \<not> sc_userOwned c
       \<and> rp_id c \<noteq> rp_id (part_survivor collate part)) (snd part)"

lemma redundant_mset:
  "mset (map sf_redundantId (concat (map (part_folds R collate E False) parts)
      @ concat (map (part_folds R collate E True) parts)))
    = mset (map rp_id (concat (map (part_redundant R collate E) parts)))"
proof (induction parts)
  case (Cons part parts)
  let ?xs = "part_redundant R collate E part"
  have "mset (map sf_redundantId (part_folds R collate E False part)) + mset (map sf_redundantId (part_folds R collate E True part))
      = mset (map rp_id ?xs)"
  proof (cases "length (snd part) < 2 \<or> \<not> part_coherent R collate E part")
    case True
    then show ?thesis by (auto simp: part_folds_def part_redundant_def filter_empty_conv)
  next
    case False
    have "map sf_redundantId (part_folds R collate E b part)
        = map rp_id (filter (\<lambda>c. part_waits collate part c = b) ?xs)" for b
      using False by (simp add: part_folds_def part_redundant_def fold_of_def comp_def)
    moreover have "mset (map rp_id (filter (\<lambda>c. part_waits collate part c = False) ys))
        + mset (map rp_id (filter (\<lambda>c. part_waits collate part c = True) ys)) = mset (map rp_id ys)" for ys
      by (induction ys) auto
    ultimately show ?thesis by simp
  qed
  with Cons show ?case by (simp add: ac_simps)
qed simp

lemma redundant_distinct:
  assumes "parts_of R E cards parts" and "distinct (map rp_id cards)"
  shows "distinct (map sf_redundantId (concat (map (part_folds R collate E False) parts)
      @ concat (map (part_folds R collate E True) parts)))"
proof -
  have "distinct (concat (map snd parts))" and inside: "set (concat (map snd parts)) \<subseteq> set cards"
    using assms(1) by (simp_all add: parts_of_def)
  then have "distinct (concat (map (part_redundant R collate E) parts))"
    unfolding part_redundant_def by (intro distinct_concat_filters)
  moreover have "set (concat (map (part_redundant R collate E) parts)) \<subseteq> set cards"
    using inside by (auto simp: part_redundant_def)
  then have "inj_on rp_id (set (concat (map (part_redundant R collate E) parts)))"
    using assms(2) by (metis distinct_map inj_on_subset)
  ultimately have "distinct (map rp_id (concat (map (part_redundant R collate E) parts)))"
    by (simp add: distinct_map)
  then show ?thesis
    using mset_eq_imp_distinct_iff [OF redundant_mset [of R collate E parts]] by blast
qed

lemma same_card_of_id: "distinct (map rp_id cards) \<Longrightarrow> x \<in> set cards \<Longrightarrow> y \<in> set cards \<Longrightarrow> rp_id x = rp_id y \<Longrightarrow> x = y"
  by (auto simp: distinct_map inj_on_def)

text \<open>The evidence of a fold is a judgement of its two cards.\<close>

lemma part_fold_judged:
  assumes parts: "parts_of R E cards parts" and part: "part \<in> set parts"
    and ids: "distinct (map rp_id cards)" "\<And>c. c \<in> set cards \<Longrightarrow> CHR ''|'' \<notin> set (rp_id c)"
    and s: "s \<in> set cards" and c: "c \<in> set cards" and ev: "fst part (pairKey (rp_id s) (rp_id c)) = Some e"
  shows "pairKey (rp_id s) (rp_id c) \<notin> E \<and> (judgeSameJob R s c = Some e \<or> judgeSameJob R c s = Some e)"
proof -
  have "\<exists>l r. (l, r) \<in> set (pairs_of cards) \<and> pairKey (rp_id l) (rp_id r) = pairKey (rp_id s) (rp_id c)
      \<and> match_of R E (l, r) = Some e"
    using parts part ev unfolding parts_of_def by blast
  then obtain l r where lr: "(l, r) \<in> set (pairs_of cards)" "pairKey (rp_id l) (rp_id r) = pairKey (rp_id s) (rp_id c)"
    "match_of R E (l, r) = Some e"
    by blast
  have mem: "l \<in> set cards" "r \<in> set cards" using pairs_of_member [OF lr(1)] by simp_all
  have "(rp_id l = rp_id s \<and> rp_id r = rp_id c) \<or> (rp_id l = rp_id c \<and> rp_id r = rp_id s)"
    by (rule pairKey_inject [OF _ _ _ _ lr(2)]) (simp_all add: ids(2) mem s c)
  then have "(l = s \<and> r = c) \<or> (l = c \<and> r = s)"
    using same_card_of_id [OF ids(1)] mem s c by blast
  moreover have "pairKey (rp_id l) (rp_id r) \<notin> E" "judgeSameJob R l r = Some e"
    using lr(3) by (auto simp: match_of_def split: if_splits)
  ultimately show ?thesis using lr(2) by auto
qed

text \<open>What one fold of a part is.\<close>

definition sound_fold :: "same_rules \<Rightarrow> string set \<Rightarrow> same_card list \<Rightarrow> bool \<Rightarrow> same_fold \<Rightarrow> bool" where
  "sound_fold R exceptions cards ready f \<longleftrightarrow> (\<exists>s \<in> set cards. \<exists>c \<in> set cards.
     sf_survivorId f = rp_id s \<and> sf_redundantId f = rp_id c \<and> \<not> sc_userOwned c
     \<and> pairKey (rp_id s) (rp_id c) \<notin> exceptions
     \<and> (\<exists>e. sf_evidence f = Some e \<and> (judgeSameJob R s c = Some e \<or> judgeSameJob R c s = Some e))
     \<and> (sc_userOwned s \<or> scoreCount c \<le> scoreCount s)
     \<and> (ready \<longrightarrow> \<not> sc_inFlight s \<and> \<not> sc_inFlight c))"

lemma part_fold_sound:
  assumes parts: "parts_of R E cards parts" and part: "part \<in> set parts"
    and ids: "distinct (map rp_id cards)" "\<And>c. c \<in> set cards \<Longrightarrow> CHR ''|'' \<notin> set (rp_id c)"
    and cmp: "comparator collate" and f: "f \<in> set (part_folds R collate E waiting part)"
  shows "sound_fold R E cards (\<not> waiting) f"
proof -
  let ?s = "part_survivor collate part"
  obtain c where c: "c \<in> set (snd part)" "\<not> sc_userOwned c" "rp_id c \<noteq> rp_id ?s" "f = fold_of (fst part) ?s c"
    "part_waits collate part c = waiting" "part_coherent R collate E part" "?s \<in> set (snd part)"
    by (rule part_folds_member [OF f])
  have inside: "set (snd part) \<subseteq> set cards" using parts part by (auto simp: parts_of_def)
  obtain e where e: "fst part (pairKey (rp_id ?s) (rp_id c)) = Some e"
    using coherent_evidence [OF c(6,7,1,2,3)] by blast
  have mem: "?s \<in> set cards" "c \<in> set cards" using inside c(1,7) by blast+
  have judged: "pairKey (rp_id ?s) (rp_id c) \<notin> E \<and> (judgeSameJob R ?s c = Some e \<or> judgeSameJob R c ?s = Some e)"
    by (rule part_fold_judged [OF parts part ids mem e])
  have score: "sc_userOwned ?s \<or> scoreCount c \<le> scoreCount ?s"
    using survivor_outscores [OF cmp c(1)] unfolding part_survivor_def by blast
  have ready: "\<not> waiting \<longrightarrow> \<not> sc_inFlight ?s \<and> \<not> sc_inFlight c"
    using c(5) by (auto simp: part_waits_def)
  have fields: "sf_survivorId f = rp_id ?s" "sf_redundantId f = rp_id c" "sf_evidence f = Some e"
    using c(4) e by (simp_all add: fold_of_def)
  show ?thesis
    unfolding sound_fold_def using fields judged score ready c(2)
    by (intro bexI [OF _ mem(1)] bexI [OF _ mem(2)]) blast
qed

text \<open>A card that is folded is not a survivor.\<close>

lemma no_fold_chain:
  assumes parts: "parts_of R E cards parts" and ids: "distinct (map rp_id cards)"
    and "part \<in> set parts" "f \<in> set (part_folds R collate E w part)"
    and "part' \<in> set parts" "g \<in> set (part_folds R collate E w' part')"
  shows "sf_redundantId f \<noteq> sf_survivorId g"
proof
  assume eq: "sf_redundantId f = sf_survivorId g"
  obtain c where c: "c \<in> set (snd part)" "rp_id c \<noteq> rp_id (part_survivor collate part)"
    "f = fold_of (fst part) (part_survivor collate part) c"
    using part_folds_member [OF assms(4)] by metis
  obtain d where d: "g = fold_of (fst part') (part_survivor collate part') d"
    "part_survivor collate part' \<in> set (snd part')"
    using part_folds_member [OF assms(6)] by metis
  have "set (snd part) \<subseteq> set cards" "set (snd part') \<subseteq> set cards"
    using parts assms(3,5) by (auto simp: parts_of_def)
  then have "c = part_survivor collate part'"
    using eq c d by (intro same_card_of_id [OF ids]) (auto simp: fold_of_def)
  with parts_disjoint [OF parts assms(3) c(1) assms(5)] d(2) have "part' = part" by simp
  with c \<open>c = part_survivor collate part'\<close> show False by simp
qed

text \<open>Two cards that are folded into the same survivor are copies of one job too: the pair was judged the same, or
  at least its titles and texts agree, and the user made no exception of it.\<close>

definition copies :: "same_rules \<Rightarrow> string set \<Rightarrow> same_card \<Rightarrow> same_card \<Rightarrow> bool" where
  "copies R exceptions c d \<longleftrightarrow> pairKey (rp_id c) (rp_id d) \<notin> exceptions
     \<and> (judgeSameJob R c d \<noteq> None \<or> judgeSameJob R d c \<noteq> None \<or> sameJobTextAgrees R c d \<or> sameJobTextAgrees R d c)"

lemma copies_commute: "copies R E c d \<longleftrightarrow> copies R E d c"
  using pairKey_commute [of "rp_id c" "rp_id d"] unfolding copies_def by metis

lemma agree_text:
  assumes "agree R E ev s (l, r)" and "ev (pairKey (rp_id l) (rp_id r)) = None" and "\<not> (sc_userOwned l \<and> sc_userOwned r)"
  shows "pairKey (rp_id l) (rp_id r) \<notin> E \<and> sameJobTextAgrees R l r"
  using assms by (simp add: agree_def Let_def split: if_split_asm)

lemma agreeing_copies:
  assumes parts: "parts_of R E cards parts" and part: "part \<in> set parts"
    and ids: "distinct (map rp_id cards)" "\<And>c. c \<in> set cards \<Longrightarrow> CHR ''|'' \<notin> set (rp_id c)"
    and mem: "c \<in> set cards" "d \<in> set cards" and owned: "\<not> sc_userOwned c"
    and agree: "agree R E (fst part) s (c, d) \<or> agree R E (fst part) s (d, c)"
  shows "copies R E c d"
proof (cases "fst part (pairKey (rp_id c) (rp_id d))")
  case (Some e)
  from part_fold_judged [OF parts part ids mem Some] show ?thesis by (auto simp: copies_def)
next
  case None
  have key: "pairKey (rp_id d) (rp_id c) = pairKey (rp_id c) (rp_id d)" by (rule pairKey_commute)
  from agree have "pairKey (rp_id c) (rp_id d) \<notin> E \<and> (sameJobTextAgrees R c d \<or> sameJobTextAgrees R d c)"
  proof
    assume "agree R E (fst part) s (c, d)"
    from agree_text [OF this None] owned show ?thesis by blast
  next
    assume "agree R E (fst part) s (d, c)"
    from agree_text [OF this] None owned show ?thesis unfolding key by blast
  qed
  then show ?thesis unfolding copies_def by blast
qed

lemma co_folded:
  assumes parts: "parts_of R E cards parts"
    and ids: "distinct (map rp_id cards)" "\<And>c. c \<in> set cards \<Longrightarrow> CHR ''|'' \<notin> set (rp_id c)"
    and f: "part \<in> set parts" "f \<in> set (part_folds R collate E w part)"
    and g: "part' \<in> set parts" "g \<in> set (part_folds R collate E w' part')"
    and same: "sf_survivorId f = sf_survivorId g" and "sf_redundantId f \<noteq> sf_redundantId g"
  shows "\<exists>c \<in> set cards. \<exists>d \<in> set cards. rp_id c = sf_redundantId f \<and> rp_id d = sf_redundantId g \<and> copies R E c d"
proof -
  obtain c where c: "c \<in> set (snd part)" "\<not> sc_userOwned c"
    "f = fold_of (fst part) (part_survivor collate part) c" "part_coherent R collate E part"
    "part_survivor collate part \<in> set (snd part)"
    using part_folds_member [OF f(2)] by metis
  obtain d where d: "d \<in> set (snd part')" "g = fold_of (fst part') (part_survivor collate part') d"
    "part_survivor collate part' \<in> set (snd part')"
    using part_folds_member [OF g(2)] by metis
  have inside: "set (snd part) \<subseteq> set cards" "set (snd part') \<subseteq> set cards"
    using parts f(1) g(1) by (auto simp: parts_of_def)
  have "part_survivor collate part = part_survivor collate part'"
  proof (rule same_card_of_id [OF ids(1)])
    show "part_survivor collate part \<in> set cards" "part_survivor collate part' \<in> set cards"
      using inside c(5) d(3) by blast+
    show "rp_id (part_survivor collate part) = rp_id (part_survivor collate part')"
      using same unfolding c(3) d(2) by (simp add: fold_of_def)
  qed
  then have "part_survivor collate part \<in> set (snd part')" using d(3) by metis
  from parts_disjoint [OF parts f(1) c(5) g(1) this] have same_part: "part' = part" .
  with d(1) have d': "d \<in> set (snd part)" by simp
  have names: "rp_id c = sf_redundantId f" "rp_id d = sf_redundantId g"
    unfolding c(3) d(2) by (simp_all add: fold_of_def)
  with assms(9) have "c \<noteq> d" by metis
  then have "(c, d) \<in> set (pairs_of (snd part)) \<or> (d, c) \<in> set (pairs_of (snd part))"
    by (rule pairs_of_either [OF c(1) d'])
  then have "agree R E (fst part) (part_survivor collate part) (c, d) \<or> agree R E (fst part) (part_survivor collate part) (d, c)"
    using c(4) unfolding part_coherent_def coherent_def list_all_iff by blast
  note agreed = this
  have mem: "c \<in> set cards" "d \<in> set cards" using inside(1) c(1) d' by blast+
  have "copies R E c d" using agreeing_copies [OF parts f(1) ids mem c(2) agreed] .
  with names mem show ?thesis by blast
qed

text \<open>C11. The plan ends, and every fold it makes, at once or later, is of a machine-placed card into another
  card, for which there is a judgement of the pair and no exception of the user, and which has at
  least its scores or is the user's. Cards folded into the same survivor are copies of each other: judged the same
  or of the same title and text, and no exception either. No card is folded twice, and none is folded into
  a card that is itself folded. What an export holds waits. The order of identifiers is a comparator, the
  identifiers are unique and hold no bar.\<close>

theorem planned_folds_are_safe:
  assumes "comparator collate" and "distinct (map rp_id cards)" and "\<forall>c \<in> set cards. CHR ''|'' \<notin> set (rp_id c)"
  shows "\<exists>plan. planSameJobConsolidation R collate cards exceptions = Some plan
    \<and> (\<forall>f \<in> set (sp_folds plan). sound_fold R exceptions cards True f)
    \<and> (\<forall>f \<in> set (sp_deferred plan). sound_fold R exceptions cards False f)
    \<and> distinct (map sf_redundantId (sp_folds plan @ sp_deferred plan))
    \<and> sf_redundantId ` set (sp_folds plan @ sp_deferred plan) \<inter> sf_survivorId ` set (sp_folds plan @ sp_deferred plan) = {}
    \<and> (\<forall>f \<in> set (sp_folds plan @ sp_deferred plan). \<forall>g \<in> set (sp_folds plan @ sp_deferred plan).
        sf_survivorId f = sf_survivorId g \<and> sf_redundantId f \<noteq> sf_redundantId g \<longrightarrow>
        (\<exists>c \<in> set cards. \<exists>d \<in> set cards. rp_id c = sf_redundantId f \<and> rp_id d = sf_redundantId g
          \<and> copies R exceptions c d))"
proof -
  have "distinct cards" using assms(2) by (simp add: distinct_map)
  then obtain parts where plan: "planSameJobConsolidation R collate cards exceptions
      = Some (with_parts R collate exceptions parts \<lparr>sp_folds = [], sp_deferred = [], sp_held = []\<rparr>)"
    and parts: "parts_of R exceptions cards parts"
    by (rule planned_parts)
  let ?plan = "with_parts R collate exceptions parts \<lparr>sp_folds = [], sp_deferred = [], sp_held = []\<rparr>"
  let ?all = "set (sp_folds ?plan @ sp_deferred ?plan)"
  have member: "\<exists>part w. part \<in> set parts \<and> f \<in> set (part_folds R collate exceptions w part)" if "f \<in> ?all" for f
    using that by (auto simp: with_parts_def)
  have bars: "\<And>c. c \<in> set cards \<Longrightarrow> CHR ''|'' \<notin> set (rp_id c)" using assms(3) by blast
  note sound = part_fold_sound [OF parts _ assms(2) bars assms(1)]
  have "sound_fold R exceptions cards True f" if "f \<in> set (sp_folds ?plan)" for f
    using that sound [where waiting = False] by (auto simp: with_parts_def)
  moreover have "sound_fold R exceptions cards False f" if "f \<in> set (sp_deferred ?plan)" for f
    using that sound [where waiting = True] by (auto simp: with_parts_def)
  moreover have "distinct (map sf_redundantId (sp_folds ?plan @ sp_deferred ?plan))"
    using redundant_distinct [OF parts assms(2)] by (simp add: with_parts_def)
  moreover have "sf_redundantId f \<noteq> sf_survivorId g" if "f \<in> ?all" "g \<in> ?all" for f g
    using member [OF that(1)] member [OF that(2)] no_fold_chain [OF parts assms(2)] by blast
  moreover have "\<exists>c \<in> set cards. \<exists>d \<in> set cards. rp_id c = sf_redundantId f \<and> rp_id d = sf_redundantId g
      \<and> copies R exceptions c d"
    if "f \<in> ?all" "g \<in> ?all" "sf_survivorId f = sf_survivorId g" "sf_redundantId f \<noteq> sf_redundantId g" for f g
    using member [OF that(1)] member [OF that(2)] co_folded [OF parts assms(2) bars _ _ _ _ that(3,4)] by blast
  ultimately show ?thesis
    using plan by (intro exI [of _ ?plan]) blast
qed

text \<open>No pair of matching copies is left over: after the plan both are held as ambiguous, or each
  machine-placed one among them is the survivor or is folded, at once or later, into the same survivor.\<close>

theorem matching_copies_are_settled:
  assumes "distinct (map rp_id cards)" and "(l, r) \<in> set (pairs_of cards)"
    and "match_of R exceptions (l, r) \<noteq> None"
  shows "\<exists>plan. planSameJobConsolidation R collate cards exceptions = Some plan
    \<and> ((\<exists>ids \<in> set (sp_held plan). {rp_id l, rp_id r} \<subseteq> set ids)
       \<or> (\<exists>s. \<forall>x \<in> {l, r}. sc_userOwned x \<or> rp_id x = s
            \<or> (\<exists>f \<in> set (sp_folds plan @ sp_deferred plan). sf_redundantId f = rp_id x \<and> sf_survivorId f = s)))"
proof -
  have "distinct cards" using assms(1) by (simp add: distinct_map)
  then obtain parts where plan: "planSameJobConsolidation R collate cards exceptions
      = Some (with_parts R collate exceptions parts \<lparr>sp_folds = [], sp_deferred = [], sp_held = []\<rparr>)"
    and parts: "parts_of R exceptions cards parts"
    by (rule planned_parts)
  let ?plan = "with_parts R collate exceptions parts \<lparr>sp_folds = [], sp_deferred = [], sp_held = []\<rparr>"
  obtain part where part: "part \<in> set parts" "l \<in> set (snd part)" "r \<in> set (snd part)"
    using parts assms(2,3) unfolding parts_of_def by blast
  have "rp_id l \<noteq> rp_id r" using assms(3) by (auto simp: match_of_def maySameJob_def split: if_splits)
  then have two: "\<not> length (snd part) < 2" using part(2,3) by (cases "snd part"; cases "tl (snd part)") auto
  show ?thesis
  proof (cases "part_coherent R collate exceptions part")
    case False
    then have "map rp_id (snd part) \<in> set (sp_held ?plan)"
      using part(1) two by (auto simp: with_parts_def part_held_def intro!: bexI [of _ part])
    moreover have "{rp_id l, rp_id r} \<subseteq> set (map rp_id (snd part))" using part(2,3) by simp
    ultimately show ?thesis using plan by blast
  next
    case True
    let ?s = "part_survivor collate part"
    have "\<exists>f \<in> set (sp_folds ?plan @ sp_deferred ?plan). sf_redundantId f = rp_id x \<and> sf_survivorId f = rp_id ?s"
      if "x \<in> set (snd part)" "\<not> sc_userOwned x" "rp_id x \<noteq> rp_id ?s" for x
    proof -
      have "fold_of (fst part) ?s x \<in> set (part_folds R collate exceptions (part_waits collate part x) part)"
        using that True two by (simp add: part_folds_def)
      then have "fold_of (fst part) ?s x \<in> set (sp_folds ?plan @ sp_deferred ?plan)"
        using part(1) by (cases "part_waits collate part x") (auto simp: with_parts_def)
      then show ?thesis by (intro bexI [of _ "fold_of (fst part) ?s x"]) (simp_all add: fold_of_def)
    qed
    then have "\<forall>x \<in> {l, r}. sc_userOwned x \<or> rp_id x = rp_id ?s
        \<or> (\<exists>f \<in> set (sp_folds ?plan @ sp_deferred ?plan). sf_redundantId f = rp_id x \<and> sf_survivorId f = rp_id ?s)"
      using part(2,3) by blast
    with plan show ?thesis by blast
  qed
qed

text \<open>The groups are the classes of the matched pairs: the loops over the forest end, every card is in one
  group, and two cards are in the same one exactly when a chain of matches links them.\<close>

theorem groups_are_match_classes:
  "\<exists>evidence parent components.
     match_pairs R exceptions (pairs_of cards) (Map.empty, id) = Some (evidence, parent)
     \<and> components_of cards parent = Some components \<and> mset (concat components) = mset cards
     \<and> (\<forall>l \<in> set cards. \<forall>r \<in> set cards. (\<exists>c \<in> set components. l \<in> set c \<and> r \<in> set c)
          \<longleftrightarrow> equivclp (matched_ids R exceptions (pairs_of cards)) (rp_id l) (rp_id r))"
proof -
  obtain ev p where *: "match_pairs R exceptions (pairs_of cards) (Map.empty, id) = Some (ev, p)"
    "forest_of (\<lambda>i j. False \<or> matched_ids R exceptions (pairs_of cards) i j) p"
    using match_pairs_result [OF forest_of_id, of R exceptions "pairs_of cards" Map.empty] by metis
  let ?f = "\<lambda>c. rep p (rp_id c)"
  let ?cs = "map (\<lambda>k. filter (\<lambda>c. ?f c = k) cards) (dedup (map ?f cards))"
  have "components_of cards p = Some ?cs" by (rule components_classes [OF *(2)])
  moreover have "mset (concat ?cs) = mset cards" by (rule mset_all_groups) simp_all
  moreover have "(\<exists>c \<in> set ?cs. l \<in> set c \<and> r \<in> set c) \<longleftrightarrow> ?f l = ?f r" if "l \<in> set cards" "r \<in> set cards" for l r
    using that by auto
  moreover have "?f l = ?f r \<longleftrightarrow> equivclp (matched_ids R exceptions (pairs_of cards)) (rp_id l) (rp_id r)" for l r
    using *(2) by (simp add: forest_of_def)
  ultimately show ?thesis using *(1) by blast
qed

section \<open>A concrete plan\<close>

definition sample_same_rules :: same_rules where
  "sample_same_rules = \<lparr>sr_repeat = \<lparr>rr_titleKey = (\<lambda>t. str_or t []), rr_companyKey = (\<lambda>c. str_or c []), rr_aliasKey = id,
       rr_location = id, rr_options = (\<lambda>s. []), rr_foreign = (\<lambda>s. False),
       rr_geo = (\<lambda>s. \<lparr>og_foreign = False, og_broad = False, og_states = [], og_city = s, og_metro = False\<rparr>),
       rr_words = (\<lambda>s. [])\<rparr>,
     sr_decoded = id, sr_withoutTail = id, sr_titleSuffix = (\<lambda>t. None), sr_withoutAllCities = id,
     sr_errorPage = (\<lambda>s. False), sr_dayforce = (\<lambda>u. None)\<rparr>"

definition sample_same_card :: "string \<Rightarrow> int option \<Rightarrow> same_card" where
  "sample_same_card i score = \<lparr>rp_id = i, rp_title = Some ''t'', rp_company = Some ''c'', rp_employer = Some ''c'',
     rp_location = Some ''p'', rp_description = None, sj_source = None, sj_url = None, sj_canonicalUrl = None,
     sc_status = ''inbox'', sc_passReason = None, sc_createdAt = 0, sc_aimFitScore = score, sc_reqFitScore = None,
     sc_userOwned = False, sc_inFlight = False, sc_hasSubmittedResume = False, sc_tailoringStaged = False\<rparr>"

definition sample_same_cards :: "same_card list" where
  "sample_same_cards = [sample_same_card ''a'' None, sample_same_card ''b'' (Some 7)]"

definition sample_same_evidence :: same_evidence where
  "sample_same_evidence = \<lparr>sm_rule = IdentityRule, sm_employer = Some SameEmployer, sm_location = EqualPlace,
     sm_containment = None\<rparr>"

lemma sample_same_judged:
  "i \<noteq> j \<Longrightarrow> judgeSameJob sample_same_rules (sample_same_card i x) (sample_same_card j y) = Some sample_same_evidence"
  by (simp add: judgeSameJob_def maySameJob_def differentTitleTerritories_def sameJobLocationRelation_def
      repeatLocationRelation_def subjectEmployerRelation_def same_containment_def descriptionContainment_def
      same_shingles_def descriptionShingles_def isSpecificLocation_def isWorkdayLocationsPlaceholder_def
      sameJobTitleKey_def withoutAllCities_def isUnusableDescription_def posting_link_def employerFeedFamily_def
      isDejobsSyndicationSource_def DEJOBS_SYNDICATION_SOURCES_def REPEAT_MIN_SHINGLES_def SHINGLE_WORDS_def
      sample_same_rules_def sample_same_card_def sample_same_evidence_def truthy_def str_or_def trim_def to_lower_def
      is_space_def is_digit_def starts_with_def Let_def)

lemma sample_same_id [simp]: "rp_id (sample_same_card i x) = i" "sc_userOwned (sample_same_card i x) = False"
  "sc_inFlight (sample_same_card i x) = False" "rp_title (sample_same_card i x) = Some ''t''"
  by (simp_all add: sample_same_card_def)

lemma sample_same_match:
  assumes "i \<noteq> j"
  shows "match_of sample_same_rules {} (sample_same_card i x, sample_same_card j y) = Some sample_same_evidence"
proof -
  have "maySameJob sample_same_rules (sample_same_card i x) (sample_same_card j y)"
    using sample_same_judged [OF assms, of x y] by (auto simp: judgeSameJob_def split: if_splits)
  with sample_same_judged [OF assms, of x y] show ?thesis by (simp add: match_of_def)
qed

lemma sample_same_title [simp]: "sameJobTitleKey sample_same_rules (Some ''t'') = ''t''"
  by (simp add: sameJobTitleKey_def sample_same_rules_def str_or_def)

lemma sample_same_forest:
  "unite ''a'' ''b'' id = Some (id(''a'' := ''b''))"
  by (simp add: unite_def root_of_def find_root_at) (simp add: id_def fun_upd_def)

lemma sample_same_components:
  "components_of sample_same_cards (id(''a'' := ''b'')) = Some [sample_same_cards]"
proof -
  have "root_of ''a'' (id(''a'' := ''b'')) = Some (''b'', id(''a'' := ''b''))"
    by (simp add: root_of_def find_root_up find_root_at fun_upd_def fun_eq_iff)
  moreover have "root_of ''b'' (id(''a'' := ''b'')) = Some (''b'', id(''a'' := ''b'', ''b'' := ''b''))"
    by (simp add: root_of_def find_root_at)
  ultimately show ?thesis
    by (simp add: components_of_def sample_same_cards_def group_by_def)
qed

lemma sample_same_survivor:
  "chooseSurvivor code_unit_cmp sample_same_cards = sample_same_card ''b'' (Some 7)"
  by (simp add: chooseSurvivor_def sample_same_cards_def survivor_order_def then_cmp_def key_cmp_def machine_key_def
      scoreCount_def) (simp add: sample_same_card_def)

lemma sample_same_plan:
  "planSameJobConsolidation sample_same_rules code_unit_cmp sample_same_cards {}
    = Some \<lparr>sp_folds = [\<lparr>sf_survivorId = ''b'', sf_redundantId = ''a'', sf_evidence = Some sample_same_evidence\<rparr>],
        sp_deferred = [], sp_held = []\<rparr>"
proof -
  have key: "pairKey ''a'' ''b'' = ''a|b''" "pairKey ''b'' ''a'' = ''a|b''" by (simp_all add: pairKey_def)
  have groups: "title_groups sample_same_rules sample_same_cards = [sample_same_cards]"
    by (simp add: title_groups_def group_by_def sample_same_cards_def)
  have pairs: "pairs_of sample_same_cards = [(sample_same_card ''a'' None, sample_same_card ''b'' (Some 7))]"
    by (simp add: sample_same_cards_def)
  have matched: "match_pairs sample_same_rules {} (pairs_of sample_same_cards) (Map.empty, id)
      = Some ([''a|b'' \<mapsto> sample_same_evidence], id(''a'' := ''b''))"
    by (simp add: pairs sample_same_match sample_same_forest key Let_def del: fun_upd_apply)
  have coh: "coherent sample_same_rules {} [''a|b'' \<mapsto> sample_same_evidence] s sample_same_cards" for s
    by (simp add: coherent_def pairs agree_def key)
  have "plan_component sample_same_rules code_unit_cmp {} [''a|b'' \<mapsto> sample_same_evidence] sample_same_cards
      \<lparr>sp_folds = [], sp_deferred = [], sp_held = []\<rparr>
    = \<lparr>sp_folds = [\<lparr>sf_survivorId = ''b'', sf_redundantId = ''a'', sf_evidence = Some sample_same_evidence\<rparr>],
        sp_deferred = [], sp_held = []\<rparr>"
    by (simp add: plan_component_def coh sample_same_survivor) (simp add: sample_same_cards_def fold_of_def key)
  then show ?thesis
    by (simp add: planSameJobConsolidation_def groups plan_group_def matched sample_same_components)
      (simp add: sample_same_cards_def)
qed

theorem planned_folds_are_safe_witness:
  "planSameJobConsolidation sample_same_rules code_unit_cmp sample_same_cards {}
      = Some \<lparr>sp_folds = [\<lparr>sf_survivorId = ''b'', sf_redundantId = ''a'', sf_evidence = Some sample_same_evidence\<rparr>],
          sp_deferred = [], sp_held = []\<rparr>
    \<and> sound_fold sample_same_rules {} sample_same_cards True
        \<lparr>sf_survivorId = ''b'', sf_redundantId = ''a'', sf_evidence = Some sample_same_evidence\<rparr>"
proof -
  have "comparator code_unit_cmp" by (rule code_unit.comparator_axioms)
  moreover have "distinct (map rp_id sample_same_cards)" "\<forall>c \<in> set sample_same_cards. CHR ''|'' \<notin> set (rp_id c)"
    by (simp_all add: sample_same_cards_def)
  ultimately show ?thesis
    using planned_folds_are_safe [of code_unit_cmp sample_same_cards sample_same_rules "{}"] sample_same_plan by simp
qed

end
