(* ===== verification/Experience_Score.thy ===== *)
theory Experience_Score
  imports Canonical_Json
begin

text \<open>
  The Experience score the application derives from judged criteria, and the evidence it demands of a
  hard mismatch (\<open>src/lib/experienceScoringPolicy.ts\<close>, with the pass score of
  \<open>src/lib/experienceFit.ts\<close> and \<open>src/data/scoring/experience-policy-v2.json\<close>).

  Scores are computed in double precision: the three operations that may round are the fields of
  \<open>float_ops\<close>, of which nothing is assumed; \<open>exact_ops\<close> is the exact arithmetic. The regular
  expressions on model text are the fields of \<open>cue_rules\<close>.
\<close>

section \<open>The score of the criteria\<close>

datatype criterion_outcome = Direct | PartialMatch | CannotEvaluate | DoesNotMeet | Excluded

record criterion =
  cn_required :: bool
  cn_outcome :: criterion_outcome
  cn_scoreNeutral :: bool

datatype experience_label = FullyQualified | PartiallyQualified | VerificationNeeded | DoesNotMeetLabel

record criterion_result =
  cx_uncappedScore :: int
  cx_experienceFitScore :: int
  cx_cap :: "int option"
  cx_label :: experience_label
  cx_requiredCounts :: "criterion_outcome \<Rightarrow> nat"
  cx_preferredCounts :: "criterion_outcome \<Rightarrow> nat"

record float_ops =
  fl_add :: "rat \<Rightarrow> rat \<Rightarrow> rat"
  fl_mul :: "rat \<Rightarrow> rat \<Rightarrow> rat"
  fl_div :: "rat \<Rightarrow> rat \<Rightarrow> rat"

definition exact_ops :: float_ops where
  "exact_ops = \<lparr>fl_add = (+), fl_mul = (*), fl_div = (/)\<rparr>"

fun CRITERION_VALUE :: "criterion_outcome \<Rightarrow> rat" where
  "CRITERION_VALUE Direct = 1"
| "CRITERION_VALUE PartialMatch = 1 / 2"
| "CRITERION_VALUE CannotEvaluate = 0"
| "CRITERION_VALUE DoesNotMeet = 0"
| "CRITERION_VALUE Excluded = 0"

text \<open>\<open>Math.round\<close> rounds a half up.\<close>

definition clampScore :: "rat \<Rightarrow> int" where
  "clampScore v = max 0 (min 100 \<lfloor>v + 1 / 2\<rfloor>)"

definition outcome_counts :: "criterion list \<Rightarrow> criterion_outcome \<Rightarrow> nat" where
  "outcome_counts criteria oc = length (filter (\<lambda>c. cn_outcome c = oc) criteria)"

definition score_ratio :: "float_ops \<Rightarrow> criterion list \<Rightarrow> rat" where
  "score_ratio F items =
     (if items = [] then 0
      else fl_div F (foldl (\<lambda>sum c. fl_add F sum (CRITERION_VALUE (cn_outcome c))) 0 items) (of_nat (length items)))"

definition scorable :: "criterion list \<Rightarrow> criterion list" where
  "scorable criteria = filter (\<lambda>c. \<not> cn_scoreNeutral c \<and> cn_outcome c \<noteq> Excluded) criteria"

definition deriveCriterionExperienceScore :: "float_ops \<Rightarrow> criterion list \<Rightarrow> criterion_result" where
  "deriveCriterionExperienceScore F criteria =
     (let required = filter cn_required (scorable criteria);
          preferred = filter (\<lambda>c. \<not> cn_required c) (scorable criteria);
          uncapped = clampScore
            (if scorable criteria = [] then 100
             else if preferred = [] then fl_mul F (score_ratio F required) 100
             else fl_add F (fl_mul F (score_ratio F required) 80) (fl_mul F (score_ratio F preferred) 20));
          outcomes = set (map cn_outcome required);
          cap = (if DoesNotMeet \<in> outcomes then Some 59
                 else if CannotEvaluate \<in> outcomes then Some 69
                 else if PartialMatch \<in> outcomes then Some 79 else None);
          label = (if DoesNotMeet \<in> outcomes then DoesNotMeetLabel
                   else if CannotEvaluate \<in> outcomes then VerificationNeeded
                   else if PartialMatch \<in> outcomes then PartiallyQualified else FullyQualified)
      in \<lparr>cx_uncappedScore = uncapped,
          cx_experienceFitScore = (case cap of None \<Rightarrow> uncapped | Some k \<Rightarrow> min uncapped k),
          cx_cap = cap, cx_label = label,
          cx_requiredCounts = outcome_counts (filter cn_required criteria),
          cx_preferredCounts = outcome_counts (filter (\<lambda>c. \<not> cn_required c) criteria)\<rparr>)"

definition STANDARD_EXPERIENCE_PASS_SCORE :: int where
  "STANDARD_EXPERIENCE_PASS_SCORE = 70"

text \<open>\<open>None\<close>: the score is refused.\<close>

definition experienceScorePasses :: "rat \<Rightarrow> bool option" where
  "experienceScorePasses score =
     (if of_int \<lfloor>score\<rfloor> \<noteq> score \<or> score < 0 \<or> 100 < score then None
      else Some (of_int STANDARD_EXPERIENCE_PASS_SCORE \<le> score))"

section \<open>The evidence of a hard mismatch\<close>

definition EXPERIENCE_HARD_REQUIREMENT_CATEGORIES :: "string list" where
  "EXPERIENCE_HARD_REQUIREMENT_CATEGORIES =
     [''minimum_experience'', ''industry_experience'', ''role_specific_experience'', ''role_defining_credential'']"

text \<open>The regular expressions: the absolute bar, a bare duration, the cue after one, the excluded
  requirements with their label and whether the quoted context is searched too, and the two tests on
  the comparison with the inventory. \<open>cu_number\<close> is the coercion \<open>Number(v)\<close>, \<open>None\<close> for \<open>NaN\<close>.\<close>

record cue_rules =
  cu_absoluteBar :: "string \<Rightarrow> bool"
  cu_bareDuration :: "string \<Rightarrow> bool"
  cu_requiredAfter :: "string \<Rightarrow> string option"
  cu_excluded :: "((string \<Rightarrow> bool) \<times> string \<times> bool) list"
  cu_namesInventory :: "string \<Rightarrow> bool"
  cu_namesGap :: "string \<Rightarrow> bool"
  cu_number :: "json option \<Rightarrow> rat option"

datatype evidence_error =
    NotAnObject | NotAString | MissingEvidence | WrongEvidenceCount | RequirementMismatch | CategoryExcluded
  | QuoteError text_error | ExcludedRequirement string | NoAbsoluteBarCue | WeakInventoryComparison

definition nonemptyString :: "json option \<Rightarrow> evidence_error + string" where
  "nonemptyString v = (case v of Some (JStr s) \<Rightarrow> if trim s = [] then Inl NotAString else Inr s | _ \<Rightarrow> Inl NotAString)"

definition is_boundary :: "char \<Rightarrow> bool" where
  "is_boundary c \<longleftrightarrow> c \<in> set ''.;!?'' \<or> c = CHR 0x0A"

text \<open>The sentence around a span of code points.\<close>

definition qualificationContext :: "string \<Rightarrow> nat \<Rightarrow> nat \<Rightarrow> string" where
  "qualificationContext originalJd start stop =
     (let before = takeWhile (\<lambda>c. \<not> is_boundary c) (rev (take start originalJd));
          after = (if stop = start \<or> \<not> is_boundary (originalJd ! (stop - 1))
                   then takeWhile (\<lambda>c. \<not> is_boundary c) (drop stop originalJd) else [])
      in rev before @ take (stop - start) (drop start originalJd) @ after)"

fun index_of :: "string \<Rightarrow> string \<Rightarrow> nat option" where
  "index_of pat [] = (if pat = [] then Some 0 else None)"
| "index_of pat (c # s) = (if prefix pat (c # s) then Some 0 else map_option Suc (index_of pat s))"

definition resolveAbsoluteBarCue :: "cue_rules \<Rightarrow> string \<Rightarrow> string \<Rightarrow> string option" where
  "resolveAbsoluteBarCue U cue exactQuote =
     (case index_of cue exactQuote of
        None \<Rightarrow> None
      | Some i \<Rightarrow>
          if cu_absoluteBar U cue then Some cue
          else if cu_bareDuration U cue
          then cu_requiredAfter U (takeWhile (\<lambda>c. \<not> is_boundary c) (drop (i + length cue) exactQuote))
          else None)"

definition excludedRequirementLabel :: "cue_rules \<Rightarrow> string \<Rightarrow> string \<Rightarrow> string option" where
  "excludedRequirementLabel U requirement context =
     map_option (\<lambda>(p, label, always). label)
       (find (\<lambda>(p, label, always). p requirement \<or> (always \<and> p context)) (cu_excluded U))"

definition sum_bind :: "'e + 'a \<Rightarrow> ('a \<Rightarrow> 'e + 'b) \<Rightarrow> 'e + 'b" where
  "sum_bind r f = (case r of Inl e \<Rightarrow> Inl e | Inr x \<Rightarrow> f x)"

definition check_that :: "'e \<Rightarrow> bool \<Rightarrow> 'e + unit" where
  "check_that e b = (if b then Inr () else Inl e)"

definition object_of :: "json option \<Rightarrow> evidence_error + json" where
  "object_of v = (case v of Some (JObj kvs) \<Rightarrow> Inr (JObj kvs) | _ \<Rightarrow> Inl NotAnObject)"

text \<open>The span of the quote, checked against the normalised text.\<close>

definition quoted_span :: "cue_rules \<Rightarrow> string \<Rightarrow> json \<Rightarrow> string \<Rightarrow> evidence_error + nat \<times> nat" where
  "quoted_span U originalJd source exactQuote =
     (case (cu_number U (json_field (Some source) ''startCodePoint''), cu_number U (json_field (Some source) ''endCodePoint'')) of
        (Some s, Some e) \<Rightarrow>
          if of_int \<lfloor>s\<rfloor> = s \<and> of_int \<lfloor>e\<rfloor> = e
          then (case assertExactCodePointQuote originalJd \<lfloor>s\<rfloor> \<lfloor>e\<rfloor> exactQuote of
                  Inl err \<Rightarrow> Inl (QuoteError err) | Inr _ \<Rightarrow> Inr (nat \<lfloor>s\<rfloor>, nat \<lfloor>e\<rfloor>))
          else Inl (QuoteError SpanInvalid)
      | _ \<Rightarrow> Inl (QuoteError SpanInvalid))"

definition check_evidence :: "cue_rules \<Rightarrow> string \<Rightarrow> json \<Rightarrow> json \<Rightarrow> evidence_error + unit" where
  "check_evidence U originalJd unmet raw =
     sum_bind (object_of (Some raw)) (\<lambda>evidence.
     sum_bind (nonemptyString (json_field (Some evidence) ''requirement'')) (\<lambda>requirement.
     sum_bind (check_that RequirementMismatch (unmet = JStr requirement)) (\<lambda>_.
     sum_bind (nonemptyString (json_field (Some evidence) ''category'')) (\<lambda>category.
     sum_bind (check_that CategoryExcluded (category \<in> set EXPERIENCE_HARD_REQUIREMENT_CATEGORIES)) (\<lambda>_.
     sum_bind (object_of (json_field (Some evidence) ''source'')) (\<lambda>source.
     sum_bind (nonemptyString (json_field (Some source) ''exactQuote'')) (\<lambda>exactQuote.
     sum_bind (quoted_span U originalJd source exactQuote) (\<lambda>(start, stop).
     sum_bind (case excludedRequirementLabel U requirement (qualificationContext originalJd start stop) of
                 Some label \<Rightarrow> Inl (ExcludedRequirement label) | None \<Rightarrow> Inr ()) (\<lambda>_.
     sum_bind (nonemptyString (json_field (Some evidence) ''absoluteBarCue'')) (\<lambda>cue.
     sum_bind (check_that NoAbsoluteBarCue (truthy (resolveAbsoluteBarCue U cue exactQuote))) (\<lambda>_.
     sum_bind (nonemptyString (json_field (Some evidence) ''inventoryComparison'')) (\<lambda>comparison.
     check_that WeakInventoryComparison
       (20 \<le> length (trim comparison) \<and> cu_namesInventory U comparison \<and> cu_namesGap U comparison)))))))))))))"

fun check_all :: "cue_rules \<Rightarrow> string \<Rightarrow> json list \<Rightarrow> json list \<Rightarrow> evidence_error + unit" where
  "check_all U originalJd (unmet # us) (raw # rs) =
     sum_bind (check_evidence U originalJd unmet raw) (\<lambda>_. check_all U originalJd us rs)"
| "check_all U originalJd us rs = Inr ()"

definition assertExperienceHardRequirementEvidence :: "cue_rules \<Rightarrow> string \<Rightarrow> json \<Rightarrow> evidence_error + unit" where
  "assertExperienceHardRequirementEvidence U originalJd raw =
     sum_bind (object_of (Some raw)) (\<lambda>result.
       if json_field (Some result) ''decision'' \<noteq> Some (JStr ''hard_requirement_mismatch'') then Inr ()
       else case (json_field (Some result) ''hardRequirementsNotMet'', json_field (Some result) ''hardRequirementEvidence'') of
         (Some (JArr us), Some (JArr rs)) \<Rightarrow>
           if length us \<noteq> length rs then Inl WrongEvidenceCount else check_all U originalJd us rs
       | _ \<Rightarrow> Inl MissingEvidence)"

section \<open>What the score promises\<close>

lemma clamp_bounds: "0 \<le> clampScore v" "clampScore v \<le> 100"
  by (simp_all add: clampScore_def)

lemma integral_score_passes:
  "0 \<le> k \<Longrightarrow> k \<le> 100 \<Longrightarrow> experienceScorePasses (of_int k) = Some (STANDARD_EXPERIENCE_PASS_SCORE \<le> k)"
  by (simp add: experienceScorePasses_def)

text \<open>The derived score is a score: however the arithmetic rounds, it is an integer from 0 to 100 that
  the pass test accepts as input and never exceeds the uncapped score; the label says fully qualified
  exactly when every required criterion that counts is met directly; and a required criterion that is
  unmet or could not be evaluated keeps the job from passing.\<close>

theorem experience_score_bounded:
  assumes r_def: "r = deriveCriterionExperienceScore F criteria"
  shows "0 \<le> cx_experienceFitScore r \<and> cx_experienceFitScore r \<le> cx_uncappedScore r \<and> cx_uncappedScore r \<le> 100
    \<and> experienceScorePasses (of_int (cx_experienceFitScore r)) \<noteq> None
    \<and> (cx_label r = FullyQualified \<longleftrightarrow>
        list_all (\<lambda>c. cn_outcome c = Direct) (filter cn_required (scorable criteria)))
    \<and> (list_ex (\<lambda>c. cn_outcome c \<in> {DoesNotMeet, CannotEvaluate}) (filter cn_required (scorable criteria))
        \<longrightarrow> experienceScorePasses (of_int (cx_experienceFitScore r)) = Some False)"
proof -
  let ?required = "filter cn_required (scorable criteria)"
  let ?outcomes = "set (map cn_outcome ?required)"
  have cap: "cx_cap r = (if DoesNotMeet \<in> ?outcomes then Some 59 else if CannotEvaluate \<in> ?outcomes then Some 69
      else if PartialMatch \<in> ?outcomes then Some 79 else None)"
    by (simp only: r_def deriveCriterionExperienceScore_def Let_def criterion_result.simps)
  have fit: "cx_experienceFitScore r = (case cx_cap r of None \<Rightarrow> cx_uncappedScore r | Some k \<Rightarrow> min (cx_uncappedScore r) k)"
    by (simp only: r_def deriveCriterionExperienceScore_def Let_def criterion_result.simps)
  have label: "cx_label r = (if DoesNotMeet \<in> ?outcomes then DoesNotMeetLabel
      else if CannotEvaluate \<in> ?outcomes then VerificationNeeded
      else if PartialMatch \<in> ?outcomes then PartiallyQualified else FullyQualified)"
    by (simp only: r_def deriveCriterionExperienceScore_def Let_def criterion_result.simps)
  have uncapped: "0 \<le> cx_uncappedScore r" "cx_uncappedScore r \<le> 100"
    by (simp_all only: r_def deriveCriterionExperienceScore_def Let_def criterion_result.simps clamp_bounds)
  have bounds: "0 \<le> cx_experienceFitScore r" "cx_experienceFitScore r \<le> cx_uncappedScore r"
    using uncapped by (auto simp: fit cap)
  then have passes: "experienceScorePasses (of_int (cx_experienceFitScore r))
      = Some (STANDARD_EXPERIENCE_PASS_SCORE \<le> cx_experienceFitScore r)"
    using uncapped by (intro integral_score_passes) auto
  have "x \<in> {Direct, PartialMatch, CannotEvaluate, DoesNotMeet, Excluded}" for x by (cases x) auto
  moreover have "Excluded \<notin> ?outcomes" by (auto simp: scorable_def)
  moreover have "list_all (\<lambda>c. cn_outcome c = Direct) ?required \<longleftrightarrow> ?outcomes \<subseteq> {Direct}"
    by (simp only: list_all_iff set_map) blast
  ultimately have direct: "list_all (\<lambda>c. cn_outcome c = Direct) ?required
      \<longleftrightarrow> DoesNotMeet \<notin> ?outcomes \<and> CannotEvaluate \<notin> ?outcomes \<and> PartialMatch \<notin> ?outcomes"
    by blast
  have unmet: "cx_experienceFitScore r < STANDARD_EXPERIENCE_PASS_SCORE"
    if "list_ex (\<lambda>c. cn_outcome c \<in> {DoesNotMeet, CannotEvaluate}) ?required"
  proof -
    from that have "DoesNotMeet \<in> ?outcomes \<or> CannotEvaluate \<in> ?outcomes" by (force simp: list_ex_iff)
    then show ?thesis by (auto simp: fit cap STANDARD_EXPERIENCE_PASS_SCORE_def)
  qed
  show ?thesis using bounds uncapped passes direct unmet by (auto simp: label)
qed

theorem experience_score_bounded_witness:
  "experienceScorePasses (of_int (cx_experienceFitScore (deriveCriterionExperienceScore exact_ops
     [\<lparr>cn_required = True, cn_outcome = Direct, cn_scoreNeutral = False\<rparr>,
      \<lparr>cn_required = True, cn_outcome = CannotEvaluate, cn_scoreNeutral = False\<rparr>]))) = Some False"
  using experience_score_bounded [OF refl, of exact_ops "[\<lparr>cn_required = True, cn_outcome = Direct, cn_scoreNeutral = False\<rparr>,
      \<lparr>cn_required = True, cn_outcome = CannotEvaluate, cn_scoreNeutral = False\<rparr>]"]
  by (simp add: scorable_def)

text \<open>Without a required criterion that counts, the preferred ones carry a fifth of the score only: a
  candidate who meets every one of them directly is labelled fully qualified and fails with 20.\<close>

lemma preferred_only_scores_twenty:
  assumes "criteria \<noteq> []" and "\<And>c. c \<in> set criteria \<Longrightarrow> \<not> cn_required c \<and> \<not> cn_scoreNeutral c \<and> cn_outcome c = Direct"
  shows "cx_experienceFitScore (deriveCriterionExperienceScore exact_ops criteria) = 20
    \<and> cx_label (deriveCriterionExperienceScore exact_ops criteria) = FullyQualified"
proof -
  have s: "scorable criteria = criteria" using assms(2) by (auto simp: scorable_def)
  have r: "filter cn_required criteria = []" using assms(2) by (auto simp: filter_empty_conv)
  have p: "filter (\<lambda>c. \<not> cn_required c) criteria = criteria" using assms(2) by auto
  have total: "foldl (\<lambda>sum c. sum + CRITERION_VALUE (cn_outcome c)) a cs = a + of_nat (length cs)"
    if "\<forall>c \<in> set cs. cn_outcome c = Direct" for a cs
    using that by (induction cs arbitrary: a) simp_all
  have "\<forall>c \<in> set criteria. cn_outcome c = Direct" using assms(2) by blast
  then have "foldl (\<lambda>sum c. sum + CRITERION_VALUE (cn_outcome c)) 0 criteria = of_nat (length criteria)"
    using total [of criteria 0] by simp
  with assms(1) have one: "score_ratio exact_ops criteria = 1" by (simp add: score_ratio_def exact_ops_def)
  have zero: "score_ratio exact_ops [] = 0" by (simp add: score_ratio_def)
  have "clampScore (fl_add exact_ops (fl_mul exact_ops (score_ratio exact_ops []) 80)
      (fl_mul exact_ops (score_ratio exact_ops criteria) 20)) = 20"
    unfolding one zero by (simp add: exact_ops_def clampScore_def floor_unique [of 20 "41 / 2"])
  then show ?thesis
    unfolding deriveCriterionExperienceScore_def Let_def s r p using assms(1) by simp
qed

section \<open>What an accepted mismatch shows\<close>

lemma sum_bind_Inr: "sum_bind r f = Inr y \<longleftrightarrow> (\<exists>x. r = Inr x \<and> f x = Inr y)"
  by (cases r) (simp_all add: sum_bind_def)

lemma check_that_Inr [simp]: "check_that e b = Inr u \<longleftrightarrow> b"
  by (simp add: check_that_def)

lemma nonemptyString_Inr: "nonemptyString v = Inr s \<longleftrightarrow> v = Some (JStr s) \<and> trim s \<noteq> []"
  by (auto simp: nonemptyString_def split: option.splits json.splits if_splits)

lemma object_of_Inr: "object_of v = Inr w \<Longrightarrow> v = Some w"
  by (auto simp: object_of_def split: option.splits json.splits)

lemma quoted_span_Inr:
  assumes "quoted_span U originalJd source exactQuote = Inr (start, stop)"
  shows "exactQuote = take (stop - start) (drop start (line_feeds originalJd)) \<and> stop \<le> length (line_feeds originalJd)"
  using assms
  by (auto simp: quoted_span_def assertExactCodePointQuote_def normalizeScoringText_def codePointSlice_def nat_le_iff
      split: option.splits sum.splits if_splits)

text \<open>What the check establishes of one unmet requirement and its evidence.\<close>

definition bound_evidence :: "cue_rules \<Rightarrow> string \<Rightarrow> json \<Rightarrow> json \<Rightarrow> bool" where
  "bound_evidence U originalJd unmet raw \<longleftrightarrow>
     (\<exists>requirement category source quote start stop.
        unmet = JStr requirement \<and> trim requirement \<noteq> []
        \<and> json_field (Some raw) ''requirement'' = Some unmet
        \<and> json_field (Some raw) ''category'' = Some (JStr category)
        \<and> category \<in> set EXPERIENCE_HARD_REQUIREMENT_CATEGORIES
        \<and> json_field (Some raw) ''source'' = Some source
        \<and> json_field (Some source) ''exactQuote'' = Some (JStr quote) \<and> trim quote \<noteq> []
        \<and> quote = take (stop - start) (drop start (line_feeds originalJd)) \<and> stop \<le> length (line_feeds originalJd)
        \<and> excludedRequirementLabel U requirement (qualificationContext originalJd start stop) = None
        \<and> (\<exists>cue. json_field (Some raw) ''absoluteBarCue'' = Some (JStr cue)
             \<and> resolveAbsoluteBarCue U cue quote \<noteq> None))"

lemma check_evidence_bound:
  assumes "check_evidence U originalJd unmet raw = Inr ()"
  shows "bound_evidence U originalJd unmet raw"
proof -
  from assms obtain requirement category source quote start stop cue where
    c: "json_field (Some raw) ''requirement'' = Some (JStr requirement)" "trim requirement \<noteq> []"
      "unmet = JStr requirement" "json_field (Some raw) ''category'' = Some (JStr category)"
      "category \<in> set EXPERIENCE_HARD_REQUIREMENT_CATEGORIES" "json_field (Some raw) ''source'' = Some source"
      "json_field (Some source) ''exactQuote'' = Some (JStr quote)" "trim quote \<noteq> []"
      "quoted_span U originalJd source quote = Inr (start, stop)"
      "excludedRequirementLabel U requirement (qualificationContext originalJd start stop) = None"
      "json_field (Some raw) ''absoluteBarCue'' = Some (JStr cue)" "truthy (resolveAbsoluteBarCue U cue quote)"
    unfolding check_evidence_def
    by (auto simp: sum_bind_Inr nonemptyString_Inr split: option.splits dest!: object_of_Inr)
  then have "resolveAbsoluteBarCue U cue quote \<noteq> None" by (auto simp: truthy_def split: option.splits)
  with c quoted_span_Inr [OF c(9)] show ?thesis unfolding bound_evidence_def by blast
qed

lemma check_all_bound:
  "check_all U originalJd us rs = Inr () \<Longrightarrow> length us = length rs \<Longrightarrow> list_all2 (bound_evidence U originalJd) us rs"
  by (induction U originalJd us rs rule: check_all.induct) (auto simp: sum_bind_Inr dest: check_evidence_bound)

text \<open>C36. A hard mismatch is accepted only with evidence: every unmet requirement, in order, has its own
  record, of an allowed category, whose quote is exactly the named span of the normalised posting and
  holds a recognised absolute bar, and neither the requirement nor, where it applies, the sentence
  around the quote is of an excluded kind.\<close>

theorem accepted_mismatch_is_quoted:
  assumes "assertExperienceHardRequirementEvidence U originalJd (JObj kvs) = Inr ()"
    and "map_of kvs ''decision'' = Some (JStr ''hard_requirement_mismatch'')"
  shows "\<exists>us rs. map_of kvs ''hardRequirementsNotMet'' = Some (JArr us)
    \<and> map_of kvs ''hardRequirementEvidence'' = Some (JArr rs) \<and> list_all2 (bound_evidence U originalJd) us rs"
  using assms
  by (auto simp: assertExperienceHardRequirementEvidence_def sum_bind_def object_of_def
      split: option.splits json.splits if_splits intro: check_all_bound)

definition sample_cues :: cue_rules where
  "sample_cues = \<lparr>cu_absoluteBar = (\<lambda>s. s = ''must have''), cu_bareDuration = (\<lambda>s. False),
     cu_requiredAfter = (\<lambda>s. None), cu_excluded = [], cu_namesInventory = (\<lambda>s. True), cu_namesGap = (\<lambda>s. True),
     cu_number = (\<lambda>v. case v of Some (JNum n) \<Rightarrow> Some n | _ \<Rightarrow> None)\<rparr>"

definition sample_mismatch :: "(string \<times> json) list" where
  "sample_mismatch =
     [(''decision'', JStr ''hard_requirement_mismatch''), (''hardRequirementsNotMet'', JArr [JStr ''a license'']),
      (''hardRequirementEvidence'', JArr [JObj [(''requirement'', JStr ''a license''),
        (''category'', JStr ''role_defining_credential''),
        (''source'', JObj [(''exactQuote'', JStr ''must have a license''), (''startCodePoint'', JNum 4), (''endCodePoint'', JNum 23)]),
        (''absoluteBarCue'', JStr ''must have''),
        (''inventoryComparison'', JStr ''The inventory lists no license of this kind.'')]])]"

theorem accepted_mismatch_is_quoted_witness:
  "\<exists>us rs. map_of sample_mismatch ''hardRequirementsNotMet'' = Some (JArr us) \<and> us \<noteq> []
    \<and> list_all2 (bound_evidence sample_cues ''You must have a license.'') us rs"
proof -
  have a: "assertExperienceHardRequirementEvidence sample_cues ''You must have a license.'' (JObj sample_mismatch) = Inr ()"
    by code_simp
  have d: "map_of sample_mismatch ''decision'' = Some (JStr ''hard_requirement_mismatch'')"
    by (simp add: sample_mismatch_def)
  have u: "map_of sample_mismatch ''hardRequirementsNotMet'' = Some (JArr [JStr ''a license''])"
    by (simp add: sample_mismatch_def)
  show ?thesis using accepted_mismatch_is_quoted [OF a d] u by auto
qed

end
