(* ===== verification/Rotation_Calendar.thy ===== *)
theory Rotation_Calendar
  imports Calendar
begin

text \<open>
  The rotation of the company boards (\<open>src/lib/atsRotation.ts\<close>): the four-day cycle of the API boards,
  the weekly cycle of the browser boards and of recovery, the daily boards, the boards that are never
  swept, and the instants at which a cohort's day opens.

  A calendar date is its day number, the number \<open>Date.UTC\<close> gives for it (day 0 is a Thursday). The
  time zone database is the host's: \<open>wall t\<close> is the local reading of the instant \<open>t\<close> as \<open>Date.UTC\<close> of
  its parts, to the second. What the code needs of it is the predicate \<open>opens_daily\<close> below. The digest
  of an identity is a parameter too.
\<close>

section \<open>Boards\<close>

definition ATS_ROTATION_DAYS :: int where "ATS_ROTATION_DAYS = 7"
definition ATS_API_ROTATION_DAYS :: int where "ATS_API_ROTATION_DAYS = 4"
definition ATS_DAILY_BOARD_TARGET :: int where "ATS_DAILY_BOARD_TARGET = 21000"

definition requiredAtsBoardChecksPerDay :: "rat \<Rightarrow> int" where
  "requiredAtsBoardChecksPerDay activeBoards =
     (let active = max 0 \<lfloor>activeBoards\<rfloor> in
      if active = 0 then 0
      else min active (max ATS_DAILY_BOARD_TARGET \<lceil>of_int active / of_int ATS_API_ROTATION_DAYS :: rat\<rceil>))"

definition ATS_ROTATION_DAY_NAMES :: "string list" where
  "ATS_ROTATION_DAY_NAMES = [''Sunday'', ''Monday'', ''Tuesday'', ''Wednesday'', ''Thursday'', ''Friday'', ''Saturday'']"

definition ATS_API_ROTATION_DAY_NAMES :: "string list" where
  "ATS_API_ROTATION_DAY_NAMES = [''Day 1'', ''Day 2'', ''Day 3'', ''Day 4'']"

record board =
  bd_slug :: string
  bd_platform :: string
  bd_checkDay :: int

text \<open>\<open>digest.readUInt32BE(0)\<close> on the bytes of the digest.\<close>

definition readUInt32BE :: "nat list \<Rightarrow> int" where
  "readUInt32BE bytes = foldl (\<lambda>n b. 256 * n + int b) 0 (take 4 bytes)"

definition assignedRotationDay :: "(string \<Rightarrow> nat list) \<Rightarrow> string \<Rightarrow> string \<Rightarrow> int" where
  "assignedRotationDay sha256 slug platform =
     readUInt32BE (sha256 (slug @ ''::'' @ platform)) mod ATS_ROTATION_DAYS"

definition assignedApiRotationDay :: "(string \<Rightarrow> nat list) \<Rightarrow> string \<Rightarrow> string \<Rightarrow> int" where
  "assignedApiRotationDay sha256 slug platform =
     readUInt32BE (sha256 (slug @ ''::'' @ platform)) mod ATS_API_ROTATION_DAYS"

datatype rotation_error = InvalidRotationDay int | InvalidApiRotationDay int

definition apiRotationCheckDays :: "int \<Rightarrow> rotation_error + int list" where
  "apiRotationCheckDays day =
     (if day < 0 \<or> ATS_API_ROTATION_DAYS \<le> day then Inl (InvalidApiRotationDay day)
      else Inr (filter (\<lambda>index. index mod ATS_API_ROTATION_DAYS = day) [0..ATS_ROTATION_DAYS - 1]))"

definition BROWSER_ATS_PLATFORMS :: "string list" where
  "BROWSER_ATS_PLATFORMS = [''adp'', ''avature'', ''brassring'', ''dzconnex'', ''icims'', ''paycor'', ''paycom'',
     ''paylocity'', ''phenom'', ''sagehr'', ''talemetry'', ''taleo'', ''jobvite'', ''freshteam'', ''cats'']"

definition isBrowserAtsPlatform :: "string \<Rightarrow> bool" where
  "isBrowserAtsPlatform platform \<longleftrightarrow> platform \<in> set BROWSER_ATS_PLATFORMS"

definition NON_API_ATS_PLATFORMS :: "string list" where
  "NON_API_ATS_PLATFORMS = ''gusto'' # BROWSER_ATS_PLATFORMS"

definition ATS_INGESTION_EXCLUDED_BOARDS :: "(string \<times> string \<times> string) list" where
  "ATS_INGESTION_EXCLUDED_BOARDS =
     [(''jobgether'', ''lever'', ''Operator-excluded: Jobgether aggregates jobs while hiding the employer, causing duplicate applications.''),
      (''mmc.wd1::mmc'', ''workday'', ''Operator-excluded: the high-volume MMC board does not serve the Dashboard job search.''),
      (''meijer.wd5::meijer_stores_hourly'', ''workday'',
       ''Operator-excluded: the high-volume Meijer Stores Hourly board does not serve the Dashboard job search.'')]"

definition atsBoardIngestionExclusion :: "'a board_scheme \<Rightarrow> string option" where
  "atsBoardIngestionExclusion b =
     (let slug = to_lower (trim (bd_slug b)); platform = to_lower (trim (bd_platform b)) in
      map_option (\<lambda>(s, p, r). r)
        (find (\<lambda>(s, p, r). to_lower s = slug \<and> to_lower p = platform) ATS_INGESTION_EXCLUDED_BOARDS))"

definition is_alnum :: "char \<Rightarrow> bool" where
  "is_alnum c = (let n = (of_char c :: nat) in
     (97 \<le> n \<and> n \<le> 122) \<or> (65 \<le> n \<and> n \<le> 90) \<or> (48 \<le> n \<and> n \<le> 57))"

definition isSchedulableBoardSlug :: "string \<Rightarrow> bool" where
  "isSchedulableBoardSlug slug =
     (let trimmed = trim slug in
      trimmed \<noteq> [] \<and> list_all (list_ex is_alnum) (split_colons trimmed))"

definition isAtsBoardEnabledForIngestion :: "'a board_scheme \<Rightarrow> bool" where
  "isAtsBoardEnabledForIngestion b =
     (if bd_platform b = ''gusto'' \<or> isBrowserAtsPlatform (bd_platform b) then False
      else isSchedulableBoardSlug (bd_slug b) \<and> atsBoardIngestionExclusion b = None)"

definition ATS_DAILY_BOARDS :: "(string \<times> string) list" where
  "ATS_DAILY_BOARDS = map (\<lambda>site. (''eczy.fa.us2.oraclecloud.com::'' @ site, ''oracle'')) [''CX'', ''CX_1'', ''CX_2'']"

definition isDailyAtsBoard :: "'a board_scheme \<Rightarrow> bool" where
  "isDailyAtsBoard b \<longleftrightarrow> list_ex (\<lambda>(s, p). p = bd_platform b \<and> s = bd_slug b) ATS_DAILY_BOARDS"

definition isAtsBoardInRotationCohort :: "'a board_scheme \<Rightarrow> int \<Rightarrow> bool" where
  "isAtsBoardInRotationCohort b day \<longleftrightarrow>
     isDailyAtsBoard b \<or>
     (if bd_platform b \<in> set NON_API_ATS_PLATFORMS then bd_checkDay b = day
      else bd_checkDay b mod ATS_API_ROTATION_DAYS = day)"

section \<open>The calendar of the rotation\<close>

definition ATS_ROTATION_START_HOUR :: int where "ATS_ROTATION_START_HOUR = 0"
definition ATS_ROTATION_START_MINUTE :: int where "ATS_ROTATION_START_MINUTE = 1"

definition timeZoneOffsetMs :: "(ms \<Rightarrow> ms) \<Rightarrow> ms \<Rightarrow> ms" where
  "timeZoneOffsetMs wall instant = wall instant - (instant - instant mod 1000)"

definition zonedWallTimeToInstant :: "(ms \<Rightarrow> ms) \<Rightarrow> int \<Rightarrow> int \<Rightarrow> int \<Rightarrow> ms" where
  "zonedWallTimeToInstant wall date hour minute =
     (let naive = date * day_ms + hour * hour_ms + minute * 60000;
          firstGuess = naive - timeZoneOffsetMs wall naive
      in naive - timeZoneOffsetMs wall firstGuess)"

definition zonedCalendarDate :: "(ms \<Rightarrow> ms) \<Rightarrow> ms \<Rightarrow> int" where
  "zonedCalendarDate wall instant = day_of (wall instant)"

definition cohort_opening :: "(ms \<Rightarrow> ms) \<Rightarrow> int \<Rightarrow> ms" where
  "cohort_opening wall date =
     zonedWallTimeToInstant wall date ATS_ROTATION_START_HOUR ATS_ROTATION_START_MINUTE"

definition apiRotationDayFor :: "(ms \<Rightarrow> ms) \<Rightarrow> ms \<Rightarrow> int" where
  "apiRotationDayFor wall now = zonedCalendarDate wall now mod ATS_API_ROTATION_DAYS"

text \<open>The weekday of a date: the first day of the epoch is a Thursday, index 4 of the day names.\<close>

definition rotationDayFor :: "(ms \<Rightarrow> ms) \<Rightarrow> ms \<Rightarrow> int" where
  "rotationDayFor wall now = (zonedCalendarDate wall now + 4) mod 7"

definition days_ahead :: "int \<Rightarrow> int \<Rightarrow> int \<Rightarrow> int" where
  "days_ahead day today n = (let r = (day - today + n) mod n in if r = 0 then n else r)"

definition nextApiBoardCheckDateForDay :: "(ms \<Rightarrow> ms) \<Rightarrow> int \<Rightarrow> ms \<Rightarrow> rotation_error + ms" where
  "nextApiBoardCheckDateForDay wall checkDay now =
     (if checkDay < 0 \<or> ATS_ROTATION_DAYS \<le> checkDay then Inl (InvalidRotationDay checkDay)
      else
        let day = checkDay mod ATS_API_ROTATION_DAYS;
            ahead = days_ahead day (apiRotationDayFor wall now) ATS_API_ROTATION_DAYS
        in Inr (cohort_opening wall (zonedCalendarDate wall now + ahead)))"

definition nextAtsBoardCheckDateForDay :: "(ms \<Rightarrow> ms) \<Rightarrow> int \<Rightarrow> ms \<Rightarrow> rotation_error + ms" where
  "nextAtsBoardCheckDateForDay wall checkDay now =
     (if checkDay < 0 \<or> ATS_ROTATION_DAYS \<le> checkDay then Inl (InvalidRotationDay checkDay)
      else
        let ahead = days_ahead checkDay (rotationDayFor wall now) ATS_ROTATION_DAYS
        in Inr (cohort_opening wall (zonedCalendarDate wall now + ahead)))"

definition nextAtsRecoveryCheckDateForBoard :: "(ms \<Rightarrow> ms) \<Rightarrow> 'a board_scheme \<Rightarrow> ms \<Rightarrow> rotation_error + ms" where
  "nextAtsRecoveryCheckDateForBoard wall b now =
     (if isDailyAtsBoard b
      then nextAtsBoardCheckDateForDay wall ((rotationDayFor wall now + 1) mod ATS_ROTATION_DAYS) now
      else nextAtsBoardCheckDateForDay wall (bd_checkDay b) now)"

definition nextAtsBoardCheckDateForBoard :: "(ms \<Rightarrow> ms) \<Rightarrow> 'a board_scheme \<Rightarrow> ms \<Rightarrow> rotation_error + ms" where
  "nextAtsBoardCheckDateForBoard wall b now =
     (if \<not> isDailyAtsBoard b \<and> bd_platform b \<notin> set NON_API_ATS_PLATFORMS
      then nextApiBoardCheckDateForDay wall (bd_checkDay b) now
      else nextAtsRecoveryCheckDateForBoard wall b now)"

definition nextAtsBoardCheckDate :: "ms \<Rightarrow> int \<Rightarrow> ms" where
  "nextAtsBoardCheckDate now rotationDays = now + rotationDays * day_ms"

definition atsRotationCycleCutoff :: "ms \<Rightarrow> int \<Rightarrow> ms" where
  "atsRotationCycleCutoff now rotationDays = now - rotationDays * day_ms"

definition atsApiRotationCycleCutoff :: "ms \<Rightarrow> ms" where
  "atsApiRotationCycleCutoff now = now - ATS_API_ROTATION_DAYS * day_ms"

record rotation_window =
  rw_rotationDay :: int
  rw_startsAt :: ms
  rw_endsAt :: ms

definition atsRotationDayWindow :: "(ms \<Rightarrow> ms) \<Rightarrow> ms \<Rightarrow> rotation_window" where
  "atsRotationDayWindow wall now =
     (let today = zonedCalendarDate wall now in
      \<lparr>rw_rotationDay = rotationDayFor wall now,
       rw_startsAt = cohort_opening wall today, rw_endsAt = cohort_opening wall (today + 1)\<rparr>)"

record scheduled_board = board +
  sb_status :: string
  sb_failCount :: int
  sb_retryCount :: int
  sb_nextCheckDate :: ms
  sb_lastSynchronizedAt :: "ms option"

definition dailyAtsScheduleOpening :: "(ms \<Rightarrow> ms) \<Rightarrow> scheduled_board \<Rightarrow> ms \<Rightarrow> rotation_error + ms option" where
  "dailyAtsScheduleOpening wall b now =
     (if \<not> isDailyAtsBoard b \<or> sb_status b \<noteq> ''active'' \<or> sb_failCount b \<noteq> 0 \<or> sb_retryCount b \<noteq> 0 then Inr None
      else case sb_lastSynchronizedAt b of
        None \<Rightarrow> Inr None
      | Some synchronized \<Rightarrow>
          let window = atsRotationDayWindow wall now in
          if now < rw_startsAt window \<or> rw_startsAt window \<le> synchronized \<or> sb_nextCheckDate b \<le> now then Inr None
          else case nextAtsBoardCheckDateForDay wall (bd_checkDay b) synchronized of
            Inl e \<Rightarrow> Inl e
          | Inr weeklySlot \<Rightarrow> Inr (if sb_nextCheckDate b = weeklySlot then Some (rw_startsAt window) else None))"

text \<open>The balance of the cohorts: per day its number of boards, the mean and the largest deviation
  relative to it. A count that is missing is 0.\<close>

record rotation_balance =
  rb_cohorts :: "(int \<times> string \<times> int) list"
  rb_mean :: rat
  rb_maxDeviation :: rat

definition balance_of :: "(int \<times> string \<times> int) list \<Rightarrow> int \<Rightarrow> rotation_balance" where
  "balance_of cohorts n =
     (let mean = of_int (sum_list (map (snd \<circ> snd) cohorts)) / of_int n in
      \<lparr>rb_cohorts = cohorts, rb_mean = mean,
       rb_maxDeviation = (if mean = 0 then 0
         else foldr max (map (\<lambda>(d, nm, k). \<bar>of_int k - mean\<bar>) cohorts) 0 / mean)\<rparr>)"

definition count_at :: "(int \<Rightarrow> int option) \<Rightarrow> int \<Rightarrow> int" where
  "count_at countsByDay d = (case countsByDay d of None \<Rightarrow> 0 | Some k \<Rightarrow> k)"

definition summarizeRotationBalance :: "(int \<Rightarrow> int option) \<Rightarrow> rotation_balance" where
  "summarizeRotationBalance countsByDay =
     balance_of (map (\<lambda>(d, nm). (d, nm, count_at countsByDay d)) (zip [0..6] ATS_ROTATION_DAY_NAMES)) ATS_ROTATION_DAYS"

definition summarizeApiRotationBalance :: "(int \<Rightarrow> int option) \<Rightarrow> rotation_balance" where
  "summarizeApiRotationBalance countsByDay =
     balance_of (map (\<lambda>(d, nm). (d, nm, sum_list (map (count_at countsByDay) (projr (apiRotationCheckDays d)))))
       (zip [0..3] ATS_API_ROTATION_DAY_NAMES)) ATS_API_ROTATION_DAYS"

section \<open>Lemmas\<close>

text \<open>The four days of the cycle share the weekdays out: every board counted on a weekday is counted on
  exactly one day of the cycle.\<close>

lemma check_days_partition:
  assumes "0 \<le> d" and "d < 7"
  shows "(\<exists>ds. apiRotationCheckDays day = Inr ds \<and> d \<in> set ds) \<longleftrightarrow> day = d mod 4"
  using assms by (auto simp: apiRotationCheckDays_def ATS_API_ROTATION_DAYS_def ATS_ROTATION_DAYS_def)

lemma weekly_and_cycle_balance_agree:
  "4 * rb_mean (summarizeApiRotationBalance countsByDay) = 7 * rb_mean (summarizeRotationBalance countsByDay)"
proof -
  have ds: "[0..6] = [0, 1, 2, 3, 4, 5, 6 :: int]" "[0..3] = [0, 1, 2, 3 :: int]" by (simp_all add: upto.simps)
  show ?thesis
    unfolding summarizeApiRotationBalance_def summarizeRotationBalance_def balance_of_def ds
      ATS_ROTATION_DAY_NAMES_def ATS_API_ROTATION_DAY_NAMES_def apiRotationCheckDays_def
      ATS_ROTATION_DAYS_def ATS_API_ROTATION_DAYS_def
    by (simp add: ds Let_def)
qed

lemma assigned_day_in_range:
  "0 \<le> assignedRotationDay sha256 slug platform \<and> assignedRotationDay sha256 slug platform < 7"
  "0 \<le> assignedApiRotationDay sha256 slug platform \<and> assignedApiRotationDay sha256 slug platform < 4"
  by (simp_all add: assignedRotationDay_def assignedApiRotationDay_def ATS_ROTATION_DAYS_def ATS_API_ROTATION_DAYS_def)

lemma days_ahead_first:
  assumes "0 < n" and "0 \<le> day" and "day < n"
  shows "1 \<le> days_ahead day (today mod n) n" and "days_ahead day (today mod n) n \<le> n"
    and "(today + days_ahead day (today mod n) n) mod n = day"
    and "1 \<le> k \<Longrightarrow> k < days_ahead day (today mod n) n \<Longrightarrow> (today + k) mod n \<noteq> day"
proof -
  define r where "r = (day - today) mod n"
  have e: "days_ahead day (today mod n) n = (if r = 0 then n else r)"
    by (simp add: days_ahead_def r_def Let_def mod_simps)
  have r: "0 \<le> r" "r < n" using assms by (simp_all add: r_def)
  show "1 \<le> days_ahead day (today mod n) n" "days_ahead day (today mod n) n \<le> n"
    using r assms by (auto simp: e)
  have "(today + r) mod n = day" using assms by (simp add: r_def mod_simps)
  then show "(today + days_ahead day (today mod n) n) mod n = day"
    using assms by (auto simp: e)
  assume k: "1 \<le> k" "k < days_ahead day (today mod n) n"
  show "(today + k) mod n \<noteq> day"
  proof
    assume "(today + k) mod n = day"
    then have "k mod n = r" unfolding r_def by (metis add_diff_cancel_left' mod_diff_left_eq)
    moreover have "k mod n = k" using k r by (auto simp: e split: if_splits)
    ultimately show False using k by (simp add: e split: if_splits)
  qed
qed

text \<open>What the code relies on in a time zone: each date opens at one instant, one minute after local
  midnight; no change of the offset happens within an hour of it; a change is of at most an hour
  within a day; offsets are below a day; and dates do not run backwards.\<close>

definition opens_daily :: "(ms \<Rightarrow> ms) \<Rightarrow> (int \<Rightarrow> ms) \<Rightarrow> bool" where
  "opens_daily wall opening \<longleftrightarrow>
     (\<forall>d. wall (opening d) = d * day_ms + 60000 \<and> opening d mod 1000 = 0)
     \<and> (\<forall>d t. \<bar>t - opening d\<bar> \<le> hour_ms \<longrightarrow> timeZoneOffsetMs wall t = timeZoneOffsetMs wall (opening d))
     \<and> (\<forall>t u. \<bar>t - u\<bar> \<le> day_ms \<longrightarrow> \<bar>timeZoneOffsetMs wall t - timeZoneOffsetMs wall u\<bar> \<le> hour_ms)
     \<and> (\<forall>t. \<bar>timeZoneOffsetMs wall t\<bar> \<le> day_ms)
     \<and> (\<forall>t u. t \<le> u \<longrightarrow> zonedCalendarDate wall t \<le> zonedCalendarDate wall u)"

text \<open>Two passes are enough: the offset read at the first guess is the one in force at the opening.\<close>

lemma cohort_opening_exact:
  assumes "opens_daily wall opening"
  shows "cohort_opening wall d = opening d"
proof -
  let ?off = "timeZoneOffsetMs wall" and ?naive = "d * day_ms + 60000"
  have w: "wall (opening d) = ?naive" "opening d mod 1000 = 0"
    and near: "\<And>t. \<bar>t - opening d\<bar> \<le> hour_ms \<Longrightarrow> ?off t = ?off (opening d)"
    and change: "\<And>t u. \<bar>t - u\<bar> \<le> day_ms \<Longrightarrow> \<bar>?off t - ?off u\<bar> \<le> hour_ms"
    and small: "\<bar>?off (opening d)\<bar> \<le> day_ms"
    using assms unfolding opens_daily_def by blast+
  have naive: "?naive = opening d + ?off (opening d)"
    using w by (simp add: timeZoneOffsetMs_def)
  have "\<bar>?naive - opening d\<bar> \<le> day_ms" using naive small by simp
  then have "\<bar>?off ?naive - ?off (opening d)\<bar> \<le> hour_ms" by (rule change)
  then have "\<bar>(?naive - ?off ?naive) - opening d\<bar> \<le> hour_ms" using naive by (simp add: abs_le_iff)
  then have "?off (?naive - ?off ?naive) = ?off (opening d)" by (rule near)
  then show ?thesis
    using naive by (simp add: cohort_opening_def zonedWallTimeToInstant_def Let_def
      ATS_ROTATION_START_HOUR_def ATS_ROTATION_START_MINUTE_def)
qed

lemma opening_date:
  assumes "opens_daily wall opening"
  shows "zonedCalendarDate wall (opening d) = d"
proof -
  have "wall (opening d) = d * day_ms + 60000" using assms unfolding opens_daily_def by blast
  then show ?thesis by (simp add: zonedCalendarDate_def day_of_def day_ms_def)
qed

lemma opening_after:
  assumes "opens_daily wall opening" and "zonedCalendarDate wall now < d"
  shows "now < opening d"
proof (rule ccontr)
  assume "\<not> now < opening d"
  then have "zonedCalendarDate wall (opening d) \<le> zonedCalendarDate wall now"
    using assms(1) unfolding opens_daily_def by (meson not_less)
  with assms(2) opening_date [OF assms(1)] show False by simp
qed

text \<open>The index of the cohort that is swept on a date.\<close>

definition cohort_index :: "'a board_scheme \<Rightarrow> int \<Rightarrow> int" where
  "cohort_index b date =
     (if bd_platform b \<in> set NON_API_ATS_PLATFORMS then (date + 4) mod 7 else date mod ATS_API_ROTATION_DAYS)"

definition swept_on :: "'a board_scheme \<Rightarrow> int \<Rightarrow> bool" where
  "swept_on b date \<longleftrightarrow> isAtsBoardInRotationCohort b (cohort_index b date)"

section \<open>Properties\<close>

text \<open>C37. The next check of a board is the opening, one minute after local midnight, of the first later
  date on which its cohort is swept: the next day for a daily board, its day of the four-day cycle for
  an API board, its weekday for a browser board. It is in the future, whatever the offset does between
  now and then.\<close>

theorem next_check_is_first_opening:
  assumes zone: "opens_daily wall opening" and day: "0 \<le> bd_checkDay b" "bd_checkDay b < 7"
  shows "\<exists>date. nextAtsBoardCheckDateForBoard wall b now = Inr (opening date)
    \<and> zonedCalendarDate wall now < date \<and> now < opening date \<and> swept_on b date
    \<and> (\<forall>e. zonedCalendarDate wall now < e \<and> e < date \<longrightarrow> \<not> swept_on b e)"
proof -
  let ?t = "zonedCalendarDate wall now"
  have sel: "(\<exists>date. nextAtsBoardCheckDateForBoard wall b now = Inr (opening date) \<and> ?t < date
      \<and> now < opening date \<and> swept_on b date \<and> (\<forall>e. ?t < e \<and> e < date \<longrightarrow> \<not> swept_on b e))"
    if n: "nextAtsBoardCheckDateForBoard wall b now = Inr (cohort_opening wall (?t + a))" "1 \<le> a" "swept_on b (?t + a)"
      and first: "\<And>k. 1 \<le> k \<Longrightarrow> k < a \<Longrightarrow> \<not> swept_on b (?t + k)" for a
  proof (intro exI conjI allI impI)
    show "nextAtsBoardCheckDateForBoard wall b now = Inr (opening (?t + a))"
      using n(1) cohort_opening_exact [OF zone] by simp
    show "now < opening (?t + a)" by (rule opening_after [OF zone]) (use n(2) in simp)
    fix e assume "?t < e \<and> e < ?t + a"
    then show "\<not> swept_on b e" using first [of "e - ?t"] by simp
  qed (use n in simp_all)
  show ?thesis
  proof (cases "isDailyAtsBoard b")
    case True
    have "days_ahead ((rotationDayFor wall now + 1) mod 7) (rotationDayFor wall now) 7 = 1"
      by (simp add: days_ahead_def rotationDayFor_def Let_def mod_simps)
    moreover have "\<not> (rotationDayFor wall now + 1) mod 7 < 0" "\<not> 7 \<le> (rotationDayFor wall now + 1) mod 7"
      by (simp_all add: not_less not_le)
    ultimately show ?thesis using True
      by (intro sel [of 1])
        (simp_all add: nextAtsBoardCheckDateForBoard_def nextAtsRecoveryCheckDateForBoard_def
          nextAtsBoardCheckDateForDay_def ATS_ROTATION_DAYS_def swept_on_def isAtsBoardInRotationCohort_def)
  next
    case nd: False
    show ?thesis
    proof (cases "bd_platform b \<in> set NON_API_ATS_PLATFORMS")
      case True
      define a where "a = days_ahead (bd_checkDay b) ((?t + 4) mod 7) 7"
      have sw: "swept_on b e \<longleftrightarrow> (e + 4) mod 7 = bd_checkDay b" for e
        using nd True by (auto simp: swept_on_def isAtsBoardInRotationCohort_def cohort_index_def)
      have r: "?t + k + 4 = ?t + 4 + k" for k by simp
      have f: "1 \<le> a" "(?t + a + 4) mod 7 = bd_checkDay b"
        "1 \<le> k \<Longrightarrow> k < a \<Longrightarrow> (?t + k + 4) mod 7 \<noteq> bd_checkDay b" for k
        unfolding a_def r by (intro days_ahead_first; use day in simp)+
      have "nextAtsBoardCheckDateForBoard wall b now = Inr (cohort_opening wall (?t + a))"
        using nd True day by (simp add: nextAtsBoardCheckDateForBoard_def nextAtsRecoveryCheckDateForBoard_def
          nextAtsBoardCheckDateForDay_def ATS_ROTATION_DAYS_def rotationDayFor_def a_def)
      then show ?thesis
        by (rule sel) (use f in \<open>simp_all add: sw\<close>)
    next
      case False
      define a where "a = days_ahead (bd_checkDay b mod 4) (?t mod 4) 4"
      have sw: "swept_on b e \<longleftrightarrow> e mod 4 = bd_checkDay b mod 4" for e
        using nd False by (auto simp: swept_on_def isAtsBoardInRotationCohort_def cohort_index_def ATS_API_ROTATION_DAYS_def)
      have f: "1 \<le> a" "(?t + a) mod 4 = bd_checkDay b mod 4"
        "1 \<le> k \<Longrightarrow> k < a \<Longrightarrow> (?t + k) mod 4 \<noteq> bd_checkDay b mod 4" for k
        unfolding a_def by (intro days_ahead_first; simp)+
      have "nextAtsBoardCheckDateForBoard wall b now = Inr (cohort_opening wall (?t + a))"
        using nd False day by (simp add: nextAtsBoardCheckDateForBoard_def nextApiBoardCheckDateForDay_def
          ATS_ROTATION_DAYS_def ATS_API_ROTATION_DAYS_def apiRotationDayFor_def a_def)
      then show ?thesis
        by (rule sel) (use f in \<open>simp_all add: sw\<close>)
    qed
  qed
qed

text \<open>A zone with a change: an hour is skipped at two in the morning of 13 March 2022, date 19064, from six to five
  hours behind UTC.\<close>

definition sample_change :: ms where
  "sample_change = 19064 * day_ms + 8 * hour_ms"

definition sample_offset :: "ms \<Rightarrow> ms" where
  "sample_offset t = (if t < sample_change then - 6 * hour_ms else - 5 * hour_ms)"

definition sample_wall :: "ms \<Rightarrow> ms" where
  "sample_wall t = t - t mod 1000 + sample_offset t"

definition sample_opening :: "int \<Rightarrow> ms" where
  "sample_opening d = d * day_ms + 60000 + (if d \<le> 19064 then 6 else 5) * hour_ms"

lemma sample_zone: "opens_daily sample_wall sample_opening"
proof -
  have off: "timeZoneOffsetMs sample_wall t = sample_offset t" for t
    by (simp add: timeZoneOffsetMs_def sample_wall_def)
  note nums = day_ms_def hour_ms_def sample_change_def sample_offset_def
  have wall: "sample_wall (sample_opening d) = d * day_ms + 60000" "sample_opening d mod 1000 = 0" for d
  proof -
    have "1000 dvd sample_opening d" by (simp add: sample_opening_def nums)
    then show m: "sample_opening d mod 1000 = 0" by simp
    show "sample_wall (sample_opening d) = d * day_ms + 60000"
      by (simp add: sample_wall_def m) (simp add: sample_opening_def nums)
  qed
  have mono: "zonedCalendarDate sample_wall t \<le> zonedCalendarDate sample_wall u" if "t \<le> u" for t u
  proof -
    have "t - t mod 1000 \<le> u - u mod 1000"
      using that by (simp add: minus_mod_eq_mult_div zdiv_mono1)
    then have "sample_wall t \<le> sample_wall u"
      using that by (simp add: sample_wall_def nums)
    then show ?thesis by (simp add: zonedCalendarDate_def day_of_def day_ms_def zdiv_mono1)
  qed
  have near: "sample_offset t = sample_offset (sample_opening d)" if "\<bar>t - sample_opening d\<bar> \<le> hour_ms" for t d
    using that by (cases "d \<le> 19064") (auto simp: sample_opening_def nums)
  show ?thesis
    unfolding opens_daily_def off using wall mono near by (simp add: nums)
qed

text \<open>A browser board of Monday, asked on the Saturday before the change.\<close>

theorem next_check_is_first_opening_witness:
  "nextAtsBoardCheckDateForBoard sample_wall \<lparr>bd_slug = ''acme'', bd_platform = ''icims'', bd_checkDay = 1\<rparr>
     (sample_opening 19063) = Inr (sample_opening 19065)"
proof -
  let ?b = "\<lparr>bd_slug = ''acme'', bd_platform = ''icims'', bd_checkDay = 1\<rparr>"
  have swept: "swept_on ?b e \<longleftrightarrow> (e + 4) mod 7 = 1" for e
    by (auto simp: swept_on_def isAtsBoardInRotationCohort_def cohort_index_def isDailyAtsBoard_def
      ATS_DAILY_BOARDS_def NON_API_ATS_PLATFORMS_def BROWSER_ATS_PLATFORMS_def)
  obtain date where d: "nextAtsBoardCheckDateForBoard sample_wall ?b (sample_opening 19063) = Inr (sample_opening date)"
      "19063 < date" "swept_on ?b date" and first: "\<forall>e. 19063 < e \<and> e < date \<longrightarrow> \<not> swept_on ?b e"
    using next_check_is_first_opening [OF sample_zone, of ?b "sample_opening 19063"]
    by (auto simp: opening_date [OF sample_zone])
  have "swept_on ?b 19065" "\<not> swept_on ?b 19064" by (simp_all add: swept)
  then have "\<not> 19065 < date" "date \<noteq> 19064" using first d(3) by auto
  then have "date = 19065" using d(2) by simp
  with d(1) show ?thesis by simp
qed

end
