(* ===== verification/Rotation_Workload.thy ===== *)
theory Rotation_Workload
  imports Rotation_Calendar
begin

text \<open>
  The balancing of the four-day cycle (\<open>src/lib/atsRotationWorkload.ts\<close>): the recorded work of a board or
  the provider median in its place, the lightest day for a new board, and the plan of moves.

  Worker times are rational numbers: the sums of the source are sums of doubles, taken here as exact.
  A value that is null or not finite is \<open>None\<close>. The day of the cycle is a position of the list of
  days, as in the source.
\<close>

section \<open>Profiles and estimates\<close>

definition TRIGGER_DEVIATION :: rat where "TRIGGER_DEVIATION = 15 / 100"
definition MAXIMUM_MOVES :: int where "MAXIMUM_MOVES = 100"
definition MAXIMUM_BOARD_FRACTION :: rat where "MAXIMUM_BOARD_FRACTION = 2 / 100"
definition MINIMUM_VARIANCE_IMPROVEMENT :: rat where "MINIMUM_VARIANCE_IMPROVEMENT = 5 / 100"
definition REVIEW_INTERVAL_MS :: ms where "REVIEW_INTERVAL_MS = 7 * day_ms"
definition BOARD_MOVE_COOLDOWN_MS :: ms where "BOARD_MOVE_COOLDOWN_MS = 28 * day_ms"
definition MINIMUM_NOTICE_MS :: ms where "MINIMUM_NOTICE_MS = day_ms"
definition MINIMUM_CYCLE_GAP_MS :: ms where "MINIMUM_CYCLE_GAP_MS = 4 * day_ms"
definition SAMPLE_MAX_AGE_MS :: ms where "SAMPLE_MAX_AGE_MS = 30 * day_ms"

record workload_board = board +
  wb_jobsFound :: rat
  wb_failCount :: int
  wb_retryCount :: int
  wb_nextCheckDate :: ms
  wb_lastProcessedAt :: "ms option"
  wb_rotationMovedAt :: "ms option"
  wb_hasOpenWork :: bool
  wb_sampleJobs :: "rat option"
  wb_workerMs :: "rat option"
  wb_sampleAt :: "ms option"

record workload_profile =
  wp_msPerJob :: rat
  wp_typicalJobs :: rat
  wp_samples :: nat

record workload_day =
  wd_day :: int
  wd_dayName :: string
  wd_boards :: int
  wd_workerMs :: rat

record rotation_move =
  mv_slug :: string
  mv_platform :: string
  mv_fromDay :: int
  mv_toDay :: int
  mv_workerMs :: rat
  mv_fromNextCheckDate :: ms
  mv_nextCheckDate :: ms
  mv_lastProcessedAt :: ms

definition median :: "rat list \<Rightarrow> rat \<Rightarrow> rat" where
  "median values fallback =
     (if values = [] then fallback
      else
        let ordered = sort values; middle = length ordered div 2 in
        if length ordered mod 2 \<noteq> 0 then ordered ! middle
        else (ordered ! (middle - 1) + ordered ! middle) / 2)"

definition usableSample :: "workload_board \<Rightarrow> ms \<Rightarrow> bool" where
  "usableSample b now \<longleftrightarrow>
     (case wb_sampleAt b of None \<Rightarrow> False | Some t \<Rightarrow> t \<le> now \<and> now - t \<le> SAMPLE_MAX_AGE_MS)
     \<and> (case wb_workerMs b of None \<Rightarrow> False | Some w \<Rightarrow> 0 < w)
     \<and> (case wb_sampleJobs b of None \<Rightarrow> False | Some j \<Rightarrow> 0 \<le> j)"

text \<open>\<open>Number\<close> of a nullable number.\<close>

definition number_of :: "rat option \<Rightarrow> rat" where
  "number_of v = (case v of None \<Rightarrow> 0 | Some x \<Rightarrow> x)"

definition workload_profile_of :: "workload_board list \<Rightarrow> workload_profile" where
  "workload_profile_of rows =
     \<lparr>wp_msPerJob = max 1 (median (map (\<lambda>r. number_of (wb_workerMs r) / max 1 (number_of (wb_sampleJobs r))) rows) 1000),
      wp_typicalJobs = max 1 (median (map (\<lambda>r. max 1 (number_of (wb_sampleJobs r))) rows) 10),
      wp_samples = length rows\<rparr>"

type_synonym workload_profiles = "string \<Rightarrow> workload_profile option"

definition buildAtsWorkloadProfiles :: "workload_board list \<Rightarrow> ms \<Rightarrow> workload_profiles" where
  "buildAtsWorkloadProfiles boards now =
     (let samples = filter (\<lambda>b. usableSample b now) boards in
      fold (\<lambda>platform result. result(platform \<mapsto> workload_profile_of (filter (\<lambda>b. bd_platform b = platform) samples)))
        (dedup (map bd_platform samples)) [''*'' \<mapsto> workload_profile_of samples])"

definition estimateNewAtsBoardWorkload :: "string \<Rightarrow> rat option \<Rightarrow> workload_profiles \<Rightarrow> rat" where
  "estimateNewAtsBoardWorkload platform jobsFound profiles =
     (let profile = (case profiles platform of
            Some p \<Rightarrow> p
          | None \<Rightarrow> (case profiles ''*'' of
                Some p \<Rightarrow> p
              | None \<Rightarrow> \<lparr>wp_msPerJob = 1000, wp_typicalJobs = 10, wp_samples = 0\<rparr>));
          jobs = (case jobsFound of None \<Rightarrow> wp_typicalJobs profile
            | Some j \<Rightarrow> if 1 < j then j else wp_typicalJobs profile)
      in max 1000 (jobs * wp_msPerJob profile))"

definition estimateAtsBoardWorkload :: "workload_board \<Rightarrow> workload_profiles \<Rightarrow> ms \<Rightarrow> rat \<times> bool" where
  "estimateAtsBoardWorkload b profiles now =
     (let measured = usableSample b now in
      (if measured then max 1000 (number_of (wb_workerMs b))
       else estimateNewAtsBoardWorkload (bd_platform b) (Some (wb_jobsFound b)) profiles, measured))"

section \<open>The days\<close>

definition rat_cmp :: "rat cmp" where
  "rat_cmp x y = (if x < y then - 1 else if y < x then 1 else 0)"

text \<open>The saved days are read back from a column; a list that is not the four days in order, or with a
  negative load, is ignored.\<close>

definition lightestAtsWorkloadDay ::
  "(string \<Rightarrow> nat list) \<Rightarrow> string \<Rightarrow> string \<Rightarrow> workload_day list \<Rightarrow> int" where
  "lightestAtsWorkloadDay sha256 slug platform days =
     (if length days \<noteq> nat ATS_API_ROTATION_DAYS
         \<or> list_ex (\<lambda>(index, d). wd_day d \<noteq> index \<or> wd_workerMs d < 0) (zip [0..int (length days) - 1] days)
      then assignedApiRotationDay sha256 slug platform
      else
        let preferred = assignedApiRotationDay sha256 slug platform;
            turn = (\<lambda>d. (wd_day d - preferred + ATS_API_ROTATION_DAYS) mod ATS_API_ROTATION_DAYS)
        in wd_day (hd (js_sort
             (then_cmp (key_cmp wd_workerMs rat_cmp) (then_cmp (key_cmp wd_boards num_cmp) (key_cmp turn num_cmp)))
             days)))"

definition mean_load :: "workload_day list \<Rightarrow> rat" where
  "mean_load days = sum_list (map wd_workerMs days) / of_int ATS_API_ROTATION_DAYS"

definition variance :: "workload_day list \<Rightarrow> rat" where
  "variance days = sum_list (map (\<lambda>d. (wd_workerMs d - mean_load days) ^ 2) days)"

definition maxDeviation :: "workload_day list \<Rightarrow> rat" where
  "maxDeviation days =
     (if mean_load days = 0 then 0
      else foldr max (map (\<lambda>d. \<bar>wd_workerMs d - mean_load days\<bar>) days) 0 / mean_load days)"

definition empty_days :: "workload_day list" where
  "empty_days = map (\<lambda>(d, nm). \<lparr>wd_day = d, wd_dayName = nm, wd_boards = 0, wd_workerMs = 0\<rparr>)
     (zip [0..3] ATS_API_ROTATION_DAY_NAMES)"

definition load_day :: "int \<Rightarrow> rat \<Rightarrow> workload_day \<Rightarrow> workload_day" where
  "load_day k w d = d\<lparr>wd_boards := wd_boards d + k, wd_workerMs := wd_workerMs d + w\<rparr>"

definition add_board :: "'a board_scheme \<times> rat \<Rightarrow> workload_day list \<Rightarrow> workload_day list" where
  "add_board e days =
     (let (b, w) = e in
      map (\<lambda>d. if wd_day d \<noteq> bd_checkDay b mod ATS_API_ROTATION_DAYS \<and> \<not> isDailyAtsBoard b then d
               else load_day 1 w d) days)"

definition days_of :: "('a board_scheme \<times> rat) list \<Rightarrow> workload_day list" where
  "days_of costs = fold add_board costs empty_days"

section \<open>The plan\<close>

definition enabled_boards :: "'a board_scheme list \<Rightarrow> 'a board_scheme list" where
  "enabled_boards boards =
     filter (\<lambda>b. isAtsBoardEnabledForIngestion b \<and> 0 \<le> bd_checkDay b \<and> bd_checkDay b < 7) boards"

definition next_slots :: "(ms \<Rightarrow> ms) \<Rightarrow> ms \<Rightarrow> ms list" where
  "next_slots wall now = map (\<lambda>day. projr (nextApiBoardCheckDateForDay wall day now)) [0..3]"

definition slot_at :: "ms list \<Rightarrow> int \<Rightarrow> ms" where
  "slot_at slots day = slots ! nat day"

definition load_at :: "workload_day list \<Rightarrow> int \<Rightarrow> rat" where
  "load_at days day = wd_workerMs (days ! nat day)"

definition home_day :: "'a board_scheme \<Rightarrow> int" where
  "home_day b = bd_checkDay b mod ATS_API_ROTATION_DAYS"

definition movable :: "ms list \<Rightarrow> ms \<Rightarrow> workload_board \<Rightarrow> bool \<Rightarrow> bool" where
  "movable slots now b measured \<longleftrightarrow>
     measured \<and> \<not> isDailyAtsBoard b \<and> \<not> wb_hasOpenWork b
     \<and> (case wb_lastProcessedAt b of None \<Rightarrow> False
        | Some t \<Rightarrow> t \<le> now \<and> now - t \<le> REVIEW_INTERVAL_MS \<and> wb_sampleAt b = Some t)
     \<and> wb_failCount b = 0 \<and> wb_retryCount b = 0
     \<and> now + MINIMUM_NOTICE_MS < wb_nextCheckDate b
     \<and> wb_nextCheckDate b = slot_at slots (home_day b)
     \<and> (case wb_rotationMovedAt b of None \<Rightarrow> True | Some t \<Rightarrow> BOARD_MOVE_COOLDOWN_MS \<le> now - t)"

definition candidate_cmp :: "string cmp \<Rightarrow> (workload_board \<times> rat) cmp" where
  "candidate_cmp loc =
     then_cmp (desc_cmp (key_cmp snd rat_cmp))
       (then_cmp (key_cmp (bd_platform \<circ> fst) loc) (key_cmp (bd_slug \<circ> fst) loc))"

text \<open>The slot of a day that neither delays the board, nor comes within a day, nor within four days of
  its last complete collection.\<close>

definition slot_allowed :: "ms \<Rightarrow> workload_board \<Rightarrow> ms \<Rightarrow> bool" where
  "slot_allowed now b slot \<longleftrightarrow>
     slot \<le> wb_nextCheckDate b \<and> now + MINIMUM_NOTICE_MS \<le> slot
     \<and> (case wb_lastProcessedAt b of None \<Rightarrow> True | Some t \<Rightarrow> t + MINIMUM_CYCLE_GAP_MS \<le> slot)"

definition improvement :: "workload_day list \<Rightarrow> int \<Rightarrow> int \<Rightarrow> rat \<Rightarrow> rat" where
  "improvement days from day w = 2 * w * (load_at days from - load_at days day - w)"

fun best_day ::
  "ms list \<Rightarrow> ms \<Rightarrow> workload_day list \<Rightarrow> workload_board \<Rightarrow> rat \<Rightarrow> int list \<Rightarrow> (int \<times> rat) option \<Rightarrow> (int \<times> rat) option" where
  "best_day slots now after b w [] best = best"
| "best_day slots now after b w (day # days) best =
     best_day slots now after b w days
       (if day = home_day b \<or> \<not> slot_allowed now b (slot_at slots day) then best
        else
          let gain = improvement after (home_day b) day w in
          if 0 < gain \<and> (case best of None \<Rightarrow> True | Some (_, g) \<Rightarrow> g < gain) then Some (day, gain) else best)"

definition move_load :: "int \<Rightarrow> int \<Rightarrow> rat \<Rightarrow> workload_day list \<Rightarrow> workload_day list" where
  "move_load from day w days =
     (let days' = days[nat from := load_day (- 1) (- w) (days ! nat from)] in
      days'[nat day := load_day 1 w (days' ! nat day)])"

definition move_of :: "ms list \<Rightarrow> workload_board \<Rightarrow> rat \<Rightarrow> int \<Rightarrow> rotation_move" where
  "move_of slots b w day =
     \<lparr>mv_slug = bd_slug b, mv_platform = bd_platform b, mv_fromDay = bd_checkDay b, mv_toDay = day,
      mv_workerMs = w, mv_fromNextCheckDate = wb_nextCheckDate b, mv_nextCheckDate = slot_at slots day,
      mv_lastProcessedAt = (case wb_lastProcessedAt b of None \<Rightarrow> 0 | Some t \<Rightarrow> t)\<rparr>"

fun plan_moves ::
  "int \<Rightarrow> ms list \<Rightarrow> ms \<Rightarrow> (workload_board \<times> rat) list \<Rightarrow> workload_day list \<Rightarrow> rotation_move list
    \<Rightarrow> workload_day list \<times> rotation_move list" where
  "plan_moves limit slots now [] after moves = (after, moves)"
| "plan_moves limit slots now ((b, w) # rest) after moves =
     (if limit \<le> int (length moves) then (after, moves)
      else case best_day slots now after b w [0..3] None of
        None \<Rightarrow> plan_moves limit slots now rest after moves
      | Some (day, gain) \<Rightarrow>
          plan_moves limit slots now rest (move_load (home_day b) day w after) (moves @ [move_of slots b w day]))"

record rotation_plan =
  pl_observedAt :: ms
  pl_profiles :: workload_profiles
  pl_measuredBoards :: nat
  pl_estimatedBoards :: int
  pl_before :: "workload_day list"
  pl_after :: "workload_day list"
  pl_moves :: "rotation_move list"
  pl_varianceImprovement :: rat

definition move_limit :: "int \<Rightarrow> int" where
  "move_limit boards = min MAXIMUM_MOVES \<lfloor>of_int boards * MAXIMUM_BOARD_FRACTION\<rfloor>"

definition board_costs :: "workload_board list \<Rightarrow> ms \<Rightarrow> (workload_board \<times> rat) list" where
  "board_costs boards now =
     (let enabled = enabled_boards boards; profiles = buildAtsWorkloadProfiles enabled now in
      map (\<lambda>b. (b, fst (estimateAtsBoardWorkload b profiles now))) enabled)"

definition planned_moves ::
  "string cmp \<Rightarrow> (ms \<Rightarrow> ms) \<Rightarrow> workload_board list \<Rightarrow> ms \<Rightarrow> workload_day list \<times> rotation_move list" where
  "planned_moves loc wall boards now =
     (let costs = board_costs boards now; before = days_of costs; slots = next_slots wall now in
      if TRIGGER_DEVIATION < maxDeviation before
      then plan_moves (move_limit (int (length (enabled_boards boards)))) slots now
        (js_sort (candidate_cmp loc) (filter (\<lambda>(b, w). movable slots now b (usableSample b now)) costs)) before []
      else (before, []))"

definition planAtsRotationWorkload ::
  "string cmp \<Rightarrow> (ms \<Rightarrow> ms) \<Rightarrow> workload_board list \<Rightarrow> ms \<Rightarrow> rotation_plan" where
  "planAtsRotationWorkload loc wall boards now =
     (let enabled = enabled_boards boards;
          before = days_of (board_costs boards now);
          (after, moves) = planned_moves loc wall boards now;
          gained = (if 0 < variance before then (variance before - variance after) / variance before else 0);
          material = (moves \<noteq> [] \<and> MINIMUM_VARIANCE_IMPROVEMENT \<le> gained);
          measured = length (filter (\<lambda>b. usableSample b now) enabled)
      in \<lparr>pl_observedAt = now, pl_profiles = buildAtsWorkloadProfiles enabled now, pl_measuredBoards = measured,
          pl_estimatedBoards = int (length enabled) - int measured,
          pl_before = before, pl_after = (if material then after else before),
          pl_moves = (if material then moves else []),
          pl_varianceImprovement = (if material then gained else 0)\<rparr>)"

section \<open>The days are the sums over the boards\<close>

lemma sum_list_map_update:
  fixes f :: "'a \<Rightarrow> 'b::ab_group_add"
  assumes "k < length xs"
  shows "sum_list (map f (xs[k := y])) = sum_list (map f xs) - f (xs ! k) + f y"
  using assms by (induction xs arbitrary: k) (auto simp: algebra_simps nth_Cons split: nat.split)

text \<open>The share of a day: what the boards that are swept on it contribute.\<close>

definition on_day :: "int \<Rightarrow> 'a board_scheme \<Rightarrow> bool" where
  "on_day d b \<longleftrightarrow> d = home_day b \<or> isDailyAtsBoard b"

definition share :: "('a board_scheme \<times> rat \<Rightarrow> 'n::comm_monoid_add) \<Rightarrow> int \<Rightarrow> ('a board_scheme \<times> rat) list \<Rightarrow> 'n" where
  "share g d costs = sum_list (map (\<lambda>e. if on_day d (fst e) then g e else 0) costs)"

definition day_sum :: "('a board_scheme \<times> rat) list \<Rightarrow> workload_day \<Rightarrow> workload_day" where
  "day_sum costs d = load_day (share (\<lambda>e. 1) (wd_day d) costs) (share snd (wd_day d) costs) d"

lemma share_simps [simp]:
  "share g d [] = 0"
  "share g d (e # costs) = (if on_day d (fst e) then g e else 0) + share g d costs"
  by (simp_all add: share_def)

lemma wd_day_load [simp]: "wd_day (load_day k w d) = wd_day d"
  by (simp add: load_day_def)

lemma load_day_load: "load_day k w (load_day k' w' d) = load_day (k' + k) (w' + w) d"
  by (simp add: load_day_def algebra_simps)

lemma load_day_zero: "load_day 0 0 d = d"
  by (simp add: load_day_def)

lemma wd_workerMs_load [simp]: "wd_workerMs (load_day k w d) = wd_workerMs d + w"
  by (simp add: load_day_def)

lemma add_board_map:
  "add_board e days = map (\<lambda>d. if on_day (wd_day d) (fst e) then load_day 1 (snd e) d else d) days"
  by (auto simp: add_board_def on_day_def home_day_def split: prod.split)

lemma fold_add_board:
  fixes costs :: "('a board_scheme \<times> rat) list"
  shows "fold add_board costs days = map (day_sum costs) days"
proof (induction costs arbitrary: days)
  case (Cons e costs)
  show ?case
    unfolding fold_Cons comp_apply Cons.IH
    by (simp add: add_board_map day_sum_def load_day_load load_day_zero add.commute)
next
  case Nil
  have "day_sum ([] :: ('a board_scheme \<times> rat) list) d = d" for d by (simp add: day_sum_def load_day_zero)
  then show ?case by simp
qed

lemma days_of_sum: "days_of costs = map (day_sum costs) empty_days"
  by (simp add: days_of_def fold_add_board)

lemma empty_days_eq: "empty_days =
   [\<lparr>wd_day = 0, wd_dayName = ''Day 1'', wd_boards = 0, wd_workerMs = 0\<rparr>,
    \<lparr>wd_day = 1, wd_dayName = ''Day 2'', wd_boards = 0, wd_workerMs = 0\<rparr>,
    \<lparr>wd_day = 2, wd_dayName = ''Day 3'', wd_boards = 0, wd_workerMs = 0\<rparr>,
    \<lparr>wd_day = 3, wd_dayName = ''Day 4'', wd_boards = 0, wd_workerMs = 0\<rparr>]"
proof -
  have "[0..3] = [0, 1, 2, 3 :: int]" by (simp add: upto.simps)
  then show ?thesis by (simp add: empty_days_def ATS_API_ROTATION_DAY_NAMES_def)
qed

lemma four_days: "0 \<le> d \<Longrightarrow> d < 4 \<Longrightarrow> d = 0 \<or> d = 1 \<or> d = 2 \<or> d = (3 :: int)"
  by auto

lemma home_day_range [simp]: "0 \<le> home_day b" "home_day b < 4"
  by (simp_all add: home_day_def ATS_API_ROTATION_DAYS_def)

lemma length_days_of [simp]: "length (days_of costs) = 4"
  by (simp add: days_of_sum empty_days_eq)

lemma load_at_days_of:
  assumes "0 \<le> d" and "d < 4"
  shows "load_at (days_of costs) d = share snd d costs"
  using four_days [OF assms] by (auto simp: load_at_def days_of_sum empty_days_eq day_sum_def load_day_def)

section \<open>Moving a board\<close>

definition ident :: "'a board_scheme \<times> rat \<Rightarrow> string \<times> string" where
  "ident e = (bd_slug (fst e), bd_platform (fst e))"

text \<open>The catalogue with a move applied: the board is swept on the other day from now on.\<close>

definition apply_move :: "rotation_move \<Rightarrow> ('a board_scheme \<times> rat) list \<Rightarrow> ('a board_scheme \<times> rat) list" where
  "apply_move m costs =
     map (\<lambda>e. if ident e = (mv_slug m, mv_platform m) then ((fst e)\<lparr>bd_checkDay := mv_toDay m\<rparr>, snd e) else e) costs"

lemma ident_apply_move [simp]: "map ident (apply_move m costs) = map ident costs"
  by (induction costs) (auto simp: apply_move_def ident_def)

lemma apply_move_other:
  "ident e \<noteq> (mv_slug m, mv_platform m) \<Longrightarrow> e \<in> set costs \<Longrightarrow> e \<in> set (apply_move m costs)"
  by (force simp: apply_move_def)

lemma apply_move_fresh: "(mv_slug m, mv_platform m) \<notin> ident ` set costs \<Longrightarrow> apply_move m costs = costs"
  unfolding apply_move_def by (intro map_idI) force

lemma share_apply_move:
  assumes "distinct (map ident costs)" and "(b, w) \<in> set costs"
    and "mv_slug m = bd_slug b" "mv_platform m = bd_platform b" "\<not> isDailyAtsBoard b" "0 \<le> mv_toDay m" "mv_toDay m < 4"
    and g: "\<And>c. g (b\<lparr>bd_checkDay := c\<rparr>, w) = g (b, w)"
  shows "share g d (apply_move m costs) =
    share g d costs - (if d = home_day b then g (b, w) else 0) + (if d = mv_toDay m then g (b, w) else (0 :: 'n::ab_group_add))"
  using assms(1,2)
proof (induction costs)
  case (Cons e costs)
  have daily: "isDailyAtsBoard (b\<lparr>bd_checkDay := c\<rparr>) = isDailyAtsBoard b" for c
    by (simp add: isDailyAtsBoard_def)
  have home: "home_day (b\<lparr>bd_checkDay := mv_toDay m\<rparr>) = mv_toDay m"
    using assms(6,7) by (simp add: home_day_def ATS_API_ROTATION_DAYS_def)
  show ?case
  proof (cases "e = (b, w)")
    case True
    then have "(mv_slug m, mv_platform m) \<notin> ident ` set costs"
      using Cons.prems(1) assms(3,4) by (simp add: ident_def)
    then have "apply_move m (e # costs) = (b\<lparr>bd_checkDay := mv_toDay m\<rparr>, w) # costs"
      using True assms(3,4) apply_move_fresh [of m costs] by (simp add: apply_move_def ident_def)
    then show ?thesis using True assms(5) by (simp add: on_day_def daily home g)
  next
    case False
    then have "(b, w) \<in> set costs" using Cons.prems(2) by simp
    moreover from this have "ident e \<noteq> (mv_slug m, mv_platform m)"
      using Cons.prems(1) assms(3,4) by (force simp: ident_def)
    ultimately show ?thesis using Cons by (simp add: apply_move_def algebra_simps)
  qed
qed simp

lemma move_load_days_of:
  assumes "distinct (map ident costs)" and "(b, w) \<in> set costs"
    and "mv_slug m = bd_slug b" "mv_platform m = bd_platform b" "\<not> isDailyAtsBoard b"
    and day: "0 \<le> mv_toDay m" "mv_toDay m < 4" "mv_toDay m \<noteq> home_day b"
  shows "move_load (home_day b) (mv_toDay m) w (days_of costs) = days_of (apply_move m costs)"
proof -
  note sh = share_apply_move [OF assms(1-7)]
  have "share (\<lambda>e. 1) d (apply_move m costs) = share (\<lambda>e. 1) d costs - (if d = home_day b then 1 else 0) + (if d = mv_toDay m then 1 else (0 :: int))"
    and "share snd d (apply_move m costs) = share snd d costs - (if d = home_day b then w else 0) + (if d = mv_toDay m then w else 0)" for d
    by (simp_all add: sh)
  then show ?thesis
    using four_days [OF home_day_range, of b] four_days [OF day(1,2)] day(3)
    by (elim disjE) (simp_all add: move_load_def days_of_sum empty_days_eq day_sum_def load_day_load load_day_def)
qed

lemma variance_move_load:
  assumes "length days = 4" and "0 \<le> from" "from < 4" "0 \<le> day" "day < 4" "from \<noteq> day"
  shows "variance (move_load from day w days) = variance days - improvement days from day w"
    and "mean_load (move_load from day w days) = mean_load days"
proof -
  let ?i = "nat from" and ?j = "nat day"
  have ij: "?i < length days" "?j < length days" "?i \<noteq> ?j" using assms by auto
  have sum: "sum_list (map f (move_load from day w days)) =
      sum_list (map f days) - f (days ! ?i) + f (load_day (- 1) (- w) (days ! ?i))
        - f (days ! ?j) + f (load_day 1 w (days ! ?j))" for f :: "workload_day \<Rightarrow> rat"
    using ij by (simp add: move_load_def Let_def sum_list_map_update)
  show mean: "mean_load (move_load from day w days) = mean_load days"
    by (simp add: mean_load_def sum [of wd_workerMs])
  define x y mu where "x = wd_workerMs (days ! ?i)" and "y = wd_workerMs (days ! ?j)" and "mu = mean_load days"
  have "variance (move_load from day w days)
      = variance days - (x - mu) ^ 2 + (x - w - mu) ^ 2 - (y - mu) ^ 2 + (y + w - mu) ^ 2"
    unfolding variance_def mean sum x_def y_def mu_def by simp
  also have "\<dots> = variance days - 2 * w * (x - y - w)"
    by (simp add: power2_eq_square algebra_simps)
  finally show "variance (move_load from day w days) = variance days - improvement days from day w"
    by (simp add: improvement_def load_at_def x_def y_def)
qed

section \<open>The chosen day\<close>

lemma best_day_inv:
  assumes "best_day slots now after b w days best = Some (day, gain)" and "best \<noteq> Some (day, gain)"
  shows "day \<in> set days \<and> day \<noteq> home_day b \<and> slot_allowed now b (slot_at slots day)
    \<and> gain = improvement after (home_day b) day w \<and> 0 < gain"
  using assms
proof (induction days arbitrary: best)
  case (Cons d days)
  define next_best where "next_best =
    (if d = home_day b \<or> \<not> slot_allowed now b (slot_at slots d) then best
     else
       let gain = improvement after (home_day b) d w in
       if 0 < gain \<and> (case best of None \<Rightarrow> True | Some (_, g) \<Rightarrow> g < gain) then Some (d, gain) else best)"
  have rest: "best_day slots now after b w days next_best = Some (day, gain)"
    using Cons.prems(1) unfolding next_best_def best_day.simps(2) .
  show ?case
  proof (cases "next_best = Some (day, gain)")
    case True
    have kept: "next_best = best \<or> d \<noteq> home_day b \<and> slot_allowed now b (slot_at slots d)
        \<and> 0 < improvement after (home_day b) d w \<and> next_best = Some (d, improvement after (home_day b) d w)"
      by (simp add: next_best_def Let_def)
    from True kept Cons.prems(2) show ?thesis by auto
  next
    case False
    from Cons.IH [OF rest False] show ?thesis by simp
  qed
qed simp

lemma best_day_chosen:
  assumes "best_day slots now after b w [0..3] None = Some (day, gain)"
  shows "0 \<le> day" "day < 4" "day \<noteq> home_day b" "slot_allowed now b (slot_at slots day)"
    "0 < improvement after (home_day b) day w"
  using best_day_inv [OF assms] by auto

section \<open>The loop\<close>

text \<open>A move that may be made: it is the move of a board to another day whose slot is allowed.\<close>

definition allowed_move :: "ms list \<Rightarrow> ms \<Rightarrow> (workload_board \<times> rat) list \<Rightarrow> rotation_move \<Rightarrow> bool" where
  "allowed_move slots now cands m \<longleftrightarrow>
     (\<exists>(b, w) \<in> set cands. m = move_of slots b w (mv_toDay m) \<and> 0 \<le> mv_toDay m \<and> mv_toDay m < 4
        \<and> mv_toDay m \<noteq> home_day b \<and> slot_allowed now b (mv_nextCheckDate m))"

text \<open>Every move of a sequence evens the days out a little more.\<close>

fun each_move_evens :: "rotation_move list \<Rightarrow> ('a board_scheme \<times> rat) list \<Rightarrow> bool" where
  "each_move_evens [] costs = True"
| "each_move_evens (m # ms) costs \<longleftrightarrow>
     variance (days_of (apply_move m costs)) < variance (days_of costs)
     \<and> mean_load (days_of (apply_move m costs)) = mean_load (days_of costs)
     \<and> each_move_evens ms (apply_move m costs)"

lemma each_move_evens_le: "each_move_evens ms costs \<Longrightarrow> variance (days_of (fold apply_move ms costs)) \<le> variance (days_of costs)"
proof (induction ms arbitrary: costs)
  case (Cons m ms)
  then show ?case using Cons.IH [of "apply_move m costs"] by force
qed simp

lemma plan_moves_effect:
  assumes "plan_moves limit slots now cands (days_of costs) ms = (after, ms')"
    and "distinct (map ident costs)" "distinct (map ident cands)" "set cands \<subseteq> set costs"
    and "\<forall>(b, w) \<in> set cands. \<not> isDailyAtsBoard b" and "int (length ms) \<le> max 0 limit"
  shows "\<exists>new. ms' = ms @ new \<and> after = days_of (fold apply_move new costs) \<and> each_move_evens new costs
    \<and> (\<forall>m \<in> set new. allowed_move slots now cands m) \<and> int (length ms') \<le> max 0 limit"
  using assms
proof (induction cands arbitrary: costs ms)
  case (Cons e rest)
  obtain b w where e: "e = (b, w)" by (cases e)
  have weaken: "allowed_move slots now rest m \<Longrightarrow> allowed_move slots now (e # rest) m" for m
    by (auto simp: allowed_move_def)
  show ?case
  proof (cases "limit \<le> int (length ms)")
    case True
    then show ?thesis using Cons.prems by (intro exI [of _ "[]"]) (simp add: e)
  next
    case room: False
    show ?thesis
    proof (cases "best_day slots now (days_of costs) b w [0..3] None")
      case None
      then have "plan_moves limit slots now rest (days_of costs) ms = (after, ms')"
        using Cons.prems(1) room by (simp add: e)
      from Cons.IH [OF this] Cons.prems weaken show ?thesis by auto
    next
      case (Some best)
      obtain day gain where b: "best = (day, gain)" by (cases best)
      note chosen = best_day_chosen [OF Some [unfolded b]]
      let ?m = "move_of slots b w day"
      have m: "mv_slug ?m = bd_slug b" "mv_platform ?m = bd_platform b" "mv_toDay ?m = day"
        "mv_nextCheckDate ?m = slot_at slots day"
        by (simp_all add: move_of_def)
      have bc: "(b, w) \<in> set costs" "\<not> isDailyAtsBoard b" using Cons.prems(4,5) by (auto simp: e)
      have moved: "move_load (home_day b) day w (days_of costs) = days_of (apply_move ?m costs)"
        using move_load_days_of [OF Cons.prems(2) bc(1) m(1,2) bc(2)] chosen(1-3) m(3) by simp
      have "plan_moves limit slots now rest (days_of (apply_move ?m costs)) (ms @ [?m]) = (after, ms')"
        using Cons.prems(1) room Some b moved by (simp add: e)
      moreover have "set rest \<subseteq> set (apply_move ?m costs)"
      proof
        fix x assume x: "x \<in> set rest"
        then have "ident x \<noteq> ident e" using Cons.prems(3) by (metis distinct.simps(2) image_eqI list.simps(9) set_map)
        then show "x \<in> set (apply_move ?m costs)"
          using x Cons.prems(4) m by (intro apply_move_other) (auto simp: e ident_def)
      qed
      ultimately obtain new where new: "ms' = (ms @ [?m]) @ new"
          "after = days_of (fold apply_move new (apply_move ?m costs))" "each_move_evens new (apply_move ?m costs)"
          "\<forall>m \<in> set new. allowed_move slots now rest m" "int (length ms') \<le> max 0 limit"
        using Cons.IH [of "apply_move ?m costs" "ms @ [?m]"] Cons.prems(2,3,5) room by auto
      have "variance (days_of (apply_move ?m costs)) < variance (days_of costs)"
        "mean_load (days_of (apply_move ?m costs)) = mean_load (days_of costs)"
        using variance_move_load [of "days_of costs" "home_day b" day w] chosen moved by auto
      moreover have "allowed_move slots now (e # rest) ?m"
        using chosen m by (auto simp: allowed_move_def e)
      ultimately show ?thesis
        using new weaken by (intro exI [of _ "?m # new"]) auto
    qed
  qed
qed auto

lemma ident_board_costs: "map ident (board_costs boards now) = map (\<lambda>b. (bd_slug b, bd_platform b)) (enabled_boards boards)"
  by (simp add: board_costs_def Let_def ident_def comp_def)

lemma distinct_board_costs:
  "distinct (map (\<lambda>b. (bd_slug b, bd_platform b)) boards) \<Longrightarrow> distinct (map ident (board_costs boards now))"
  unfolding ident_board_costs by (simp add: enabled_boards_def distinct_map_filter)

lemma distinct_idents_sort:
  assumes "distinct (map f xs)"
  shows "distinct (map f (js_sort c (filter P xs)))"
proof -
  have "mset (map f (js_sort c (filter P xs))) = mset (map f (filter P xs))" by simp
  then show ?thesis using assms by (metis distinct_map_filter mset_eq_imp_distinct_iff)
qed

text \<open>What the plan does when it moves something.\<close>

lemma planned_moves_effect:
  assumes "distinct (map (\<lambda>b. (bd_slug b, bd_platform b)) boards)"
    and "planned_moves loc wall boards now = (after, moves)"
  shows "after = days_of (fold apply_move moves (board_costs boards now))
    \<and> each_move_evens moves (board_costs boards now)
    \<and> int (length moves) \<le> max 0 (move_limit (int (length (enabled_boards boards))))
    \<and> (\<forall>m \<in> set moves. allowed_move (next_slots wall now) now
        (filter (\<lambda>(b, w). movable (next_slots wall now) now b (usableSample b now)) (board_costs boards now)) m)"
proof (cases "TRIGGER_DEVIATION < maxDeviation (days_of (board_costs boards now))")
  case True
  let ?slots = "next_slots wall now" and ?costs = "board_costs boards now"
  let ?cands = "js_sort (candidate_cmp loc) (filter (\<lambda>(b, w). movable ?slots now b (usableSample b now)) ?costs)"
  let ?limit = "move_limit (int (length (enabled_boards boards)))"
  have p: "plan_moves ?limit ?slots now ?cands (days_of ?costs) [] = (after, moves)"
    using assms(2) True by (simp add: planned_moves_def Let_def)
  have costs: "distinct (map ident ?costs)" by (rule distinct_board_costs [OF assms(1)])
  have cands: "distinct (map ident ?cands)" by (rule distinct_idents_sort [OF costs])
  have sub: "set ?cands \<subseteq> set ?costs" and nd: "\<forall>(b, w) \<in> set ?cands. \<not> isDailyAtsBoard b"
    by (auto simp: movable_def)
  from plan_moves_effect [OF p costs cands sub nd] show ?thesis
    by (auto simp: allowed_move_def)
next
  case False
  then show ?thesis using assms(2) by (simp add: planned_moves_def Let_def)
qed

lemma slot_at_next:
  assumes "0 \<le> d" and "d < 4"
  shows "nextApiBoardCheckDateForDay wall d now = Inr (slot_at (next_slots wall now) d)"
proof -
  have "[0..3] = [0, 1, 2, 3 :: int]" by (simp add: upto.simps)
  then show ?thesis using four_days [OF assms]
    by (auto simp: next_slots_def slot_at_def nextApiBoardCheckDateForDay_def ATS_ROTATION_DAYS_def Let_def)
qed

lemma move_limit_bounds:
  assumes "int k \<le> max 0 (move_limit (int n))"
  shows "k \<le> 100" and "50 * k \<le> n"
proof -
  show "k \<le> 100" using assms by (simp add: move_limit_def MAXIMUM_MOVES_def)
  have "int k \<le> \<lfloor>of_nat n * (2 / 100 :: rat)\<rfloor>"
    using assms by (simp add: move_limit_def MAXIMUM_BOARD_FRACTION_def max_def split: if_splits)
  then have "of_nat k \<le> of_nat n * (2 / 100 :: rat)" by (simp add: le_floor_iff)
  then have "of_nat (50 * k) \<le> (of_nat n :: rat)" by simp
  then show "50 * k \<le> n" by (simp only: of_nat_le_iff)
qed

text \<open>What an allowed move of a movable board is.\<close>

lemma allowed_movable:
  assumes "allowed_move (next_slots wall now) now
      (filter (\<lambda>(b, w). movable (next_slots wall now) now b (usableSample b now)) (board_costs boards now)) m"
  obtains b processed where "b \<in> set (enabled_boards boards)"
    and "movable (next_slots wall now) now b True" "m = move_of (next_slots wall now) b (mv_workerMs m) (mv_toDay m)"
    and "0 \<le> mv_toDay m" "mv_toDay m < 4" "mv_toDay m \<noteq> home_day b" "slot_allowed now b (mv_nextCheckDate m)"
    and "wb_lastProcessedAt b = Some processed"
    and "mv_workerMs m = fst (estimateAtsBoardWorkload b (buildAtsWorkloadProfiles (enabled_boards boards) now) now)"
proof -
  from assms obtain b w where bw: "(b, w) \<in> set (board_costs boards now)"
      "movable (next_slots wall now) now b (usableSample b now)" "m = move_of (next_slots wall now) b w (mv_toDay m)"
      "0 \<le> mv_toDay m" "mv_toDay m < 4" "mv_toDay m \<noteq> home_day b" "slot_allowed now b (mv_nextCheckDate m)"
    by (auto simp: allowed_move_def)
  have mw: "mv_workerMs m = w" by (subst bw(3)) (simp add: move_of_def)
  have m: "m = move_of (next_slots wall now) b (mv_workerMs m) (mv_toDay m)" unfolding mw by (rule bw(3))
  have b: "b \<in> set (enabled_boards boards)"
    and w: "w = fst (estimateAtsBoardWorkload b (buildAtsWorkloadProfiles (enabled_boards boards) now) now)"
    using bw(1) by (auto simp: board_costs_def Let_def)
  have mov: "movable (next_slots wall now) now b True" using bw(2) by (simp add: movable_def)
  then obtain processed where "wb_lastProcessedAt b = Some processed"
    by (auto simp: movable_def split: option.splits)
  from that [OF b mov m bw(4-7) this] show ?thesis using mw w by simp
qed

lemma plan_move:
  assumes "distinct (map (\<lambda>b. (bd_slug b, bd_platform b)) boards)"
    and "m \<in> set (pl_moves (planAtsRotationWorkload loc wall boards now))"
  obtains b processed where "b \<in> set (enabled_boards boards)"
    and "movable (next_slots wall now) now b True" "m = move_of (next_slots wall now) b (mv_workerMs m) (mv_toDay m)"
    and "0 \<le> mv_toDay m" "mv_toDay m < 4" "mv_toDay m \<noteq> home_day b" "slot_allowed now b (mv_nextCheckDate m)"
    and "wb_lastProcessedAt b = Some processed"
    and "mv_workerMs m = fst (estimateAtsBoardWorkload b (buildAtsWorkloadProfiles (enabled_boards boards) now) now)"
proof -
  obtain after moves where p: "planned_moves loc wall boards now = (after, moves)" by (cases "planned_moves loc wall boards now")
  have "m \<in> set moves"
    using assms(2) by (auto simp: planAtsRotationWorkload_def p Let_def split: if_splits)
  with planned_moves_effect [OF assms(1) p] have "allowed_move (next_slots wall now) now
      (filter (\<lambda>(b, w). movable (next_slots wall now) now b (usableSample b now)) (board_costs boards now)) m" by blast
  then show ?thesis by (rule allowed_movable) (rule that)
qed

section \<open>Properties\<close>

text \<open>C38. The plan is a plan for the catalogue: the days it announces are the days of the catalogue with its
  moves applied, each of its moves evens the days out further without changing the total work, and a
  plan with moves takes at least a twentieth off the variance.\<close>

theorem plan_evens_the_catalogue:
  assumes "distinct (map (\<lambda>b. (bd_slug b, bd_platform b)) boards)"
    and "plan = planAtsRotationWorkload loc wall boards now"
  shows "pl_before plan = days_of (board_costs boards now)
    \<and> pl_after plan = days_of (fold apply_move (pl_moves plan) (board_costs boards now))
    \<and> each_move_evens (pl_moves plan) (board_costs boards now)
    \<and> (pl_moves plan \<noteq> [] \<longrightarrow> variance (pl_after plan) \<le> 19 / 20 * variance (pl_before plan))"
proof -
  obtain after moves where m: "planned_moves loc wall boards now = (after, moves)" by (cases "planned_moves loc wall boards now")
  note effect = planned_moves_effect [OF assms(1) m]
  let ?before = "days_of (board_costs boards now)"
  let ?gained = "if 0 < variance ?before then (variance ?before - variance after) / variance ?before else 0"
  let ?material = "moves \<noteq> [] \<and> MINIMUM_VARIANCE_IMPROVEMENT \<le> ?gained"
  have plan: "pl_before plan = ?before" "pl_after plan = (if ?material then after else ?before)"
    "pl_moves plan = (if ?material then moves else [])"
    by (simp_all add: assms(2) planAtsRotationWorkload_def m Let_def)
  have "variance after \<le> 19 / 20 * variance ?before" if ?material
    using that by (auto simp: MINIMUM_VARIANCE_IMPROVEMENT_def field_simps split: if_splits)
  then show ?thesis using effect by (simp add: plan)
qed

text \<open>No move disturbs a board: the plan moves at most a hundred boards and a fiftieth of the catalogue,
  and each of its moves is of an idle, healthy board that is due in more than a day and was not moved
  for four weeks, to the opening of the other day of the cycle: never later than the slot it has,
  not within the next day and not within four days of its last complete collection.\<close>

theorem planned_moves_disturb_nobody:
  assumes "distinct (map (\<lambda>b. (bd_slug b, bd_platform b)) boards)"
    and "plan = planAtsRotationWorkload loc wall boards now"
  shows "length (pl_moves plan) \<le> 100 \<and> 50 * length (pl_moves plan) \<le> length boards
    \<and> (\<forall>m \<in> set (pl_moves plan). \<exists>b \<in> set boards. \<exists>processed.
        mv_slug m = bd_slug b \<and> mv_platform m = bd_platform b \<and> mv_fromDay m = bd_checkDay b
        \<and> isAtsBoardEnabledForIngestion b \<and> \<not> isDailyAtsBoard b \<and> \<not> wb_hasOpenWork b
        \<and> wb_failCount b = 0 \<and> wb_retryCount b = 0
        \<and> (\<forall>t. wb_rotationMovedAt b = Some t \<longrightarrow> t + 28 * day_ms \<le> now)
        \<and> mv_toDay m \<noteq> bd_checkDay b mod 4
        \<and> nextApiBoardCheckDateForDay wall (mv_toDay m) now = Inr (mv_nextCheckDate m)
        \<and> mv_nextCheckDate m \<le> wb_nextCheckDate b \<and> now + day_ms \<le> mv_nextCheckDate m
        \<and> wb_lastProcessedAt b = Some processed \<and> processed + 4 * day_ms \<le> mv_nextCheckDate m)"
proof -
  obtain after moves where p: "planned_moves loc wall boards now = (after, moves)" by (cases "planned_moves loc wall boards now")
  let ?slots = "next_slots wall now"
  note effect = planned_moves_effect [OF assms(1) p]
  have sub: "pl_moves plan = moves \<or> pl_moves plan = []"
    by (simp add: assms(2) planAtsRotationWorkload_def p Let_def)
  then have "length (pl_moves plan) \<le> length moves" by auto
  moreover have "length (enabled_boards boards) \<le> length boards" by (simp add: enabled_boards_def)
  ultimately have len: "length (pl_moves plan) \<le> 100" "50 * length (pl_moves plan) \<le> length boards"
    using move_limit_bounds [of "length moves" "length (enabled_boards boards)"] effect by linarith+
  have "\<exists>b \<in> set boards. \<exists>processed.
        mv_slug m = bd_slug b \<and> mv_platform m = bd_platform b \<and> mv_fromDay m = bd_checkDay b
        \<and> isAtsBoardEnabledForIngestion b \<and> \<not> isDailyAtsBoard b \<and> \<not> wb_hasOpenWork b
        \<and> wb_failCount b = 0 \<and> wb_retryCount b = 0
        \<and> (\<forall>t. wb_rotationMovedAt b = Some t \<longrightarrow> t + 28 * day_ms \<le> now)
        \<and> mv_toDay m \<noteq> bd_checkDay b mod 4
        \<and> nextApiBoardCheckDateForDay wall (mv_toDay m) now = Inr (mv_nextCheckDate m)
        \<and> mv_nextCheckDate m \<le> wb_nextCheckDate b \<and> now + day_ms \<le> mv_nextCheckDate m
        \<and> wb_lastProcessedAt b = Some processed \<and> processed + 4 * day_ms \<le> mv_nextCheckDate m"
    if "m \<in> set (pl_moves plan)" for m
  proof -
    from that obtain b processed where b: "b \<in> set (enabled_boards boards)" "movable ?slots now b True"
        "m = move_of ?slots b (mv_workerMs m) (mv_toDay m)" "0 \<le> mv_toDay m" "mv_toDay m < 4" "mv_toDay m \<noteq> home_day b"
        "slot_allowed now b (mv_nextCheckDate m)" "wb_lastProcessedAt b = Some processed"
      unfolding assms(2) by (elim plan_move [OF assms(1)])
    have m: "mv_slug m = bd_slug b" "mv_platform m = bd_platform b" "mv_fromDay m = bd_checkDay b"
      "mv_nextCheckDate m = slot_at ?slots (mv_toDay m)"
      by (subst b(3), simp add: move_of_def)+
    show ?thesis
      using b m slot_at_next [OF b(4,5), of wall now]
      by (intro bexI [of _ b] exI [of _ processed])
        (auto simp: enabled_boards_def movable_def slot_allowed_def home_day_def ATS_API_ROTATION_DAYS_def
          BOARD_MOVE_COOLDOWN_MS_def MINIMUM_NOTICE_MS_def MINIMUM_CYCLE_GAP_MS_def split: option.splits)
  qed
  with len show ?thesis by blast
qed

text \<open>A catalogue of fifty boards, two of them large and on the same day.\<close>

definition sample_large :: "string \<Rightarrow> workload_board" where
  "sample_large slug = \<lparr>bd_slug = slug, bd_platform = ''lever'', bd_checkDay = 0, wb_jobsFound = 100, wb_failCount = 0,
     wb_retryCount = 0, wb_nextCheckDate = sample_opening 18004, wb_lastProcessedAt = Some (sample_opening 17997),
     wb_rotationMovedAt = None, wb_hasOpenWork = False, wb_sampleJobs = Some 100, wb_workerMs = Some 1000000,
     wb_sampleAt = Some (sample_opening 17997)\<rparr>"

definition sample_small :: "int \<Rightarrow> workload_board" where
  "sample_small n = \<lparr>bd_slug = [CHR ''s'', char_of (48 + nat n)], bd_platform = ''lever'', bd_checkDay = n mod 4,
     wb_jobsFound = 2, wb_failCount = 0, wb_retryCount = 0, wb_nextCheckDate = 0, wb_lastProcessedAt = None,
     wb_rotationMovedAt = None, wb_hasOpenWork = False, wb_sampleJobs = None, wb_workerMs = None, wb_sampleAt = None\<rparr>"

definition sample_catalogue :: "workload_board list" where
  "sample_catalogue = sample_large ''acme'' # sample_large ''zenith'' # map sample_small [1..48]"

definition sample_now :: ms where
  "sample_now = sample_opening 18000 + hour_ms"

lemma trim_length: "length (trim s) \<le> length s"
  unfolding trim_def by (metis (no_types) length_dropWhile_le length_rev order_trans)

lemma short_slug_not_excluded: "length (bd_slug b) < 9 \<Longrightarrow> atsBoardIngestionExclusion b = None"
  using trim_length [of "bd_slug b"]
  by (auto simp: atsBoardIngestionExclusion_def ATS_INGESTION_EXCLUDED_BOARDS_def Let_def to_lower_def
      dest!: arg_cong [where f = length])

lemma sample_small_enabled:
  assumes "1 \<le> n" "n \<le> 48"
  shows "isAtsBoardEnabledForIngestion (sample_small n)"
proof -
  have c: "(of_char (char_of (48 + nat n) :: char) :: nat) = 48 + nat n" using assms by simp
  have "trim (bd_slug (sample_small n)) = bd_slug (sample_small n)"
    using assms by (simp add: sample_small_def trim_def is_space_def Let_def c)
  then have "isSchedulableBoardSlug (bd_slug (sample_small n))"
    by (simp add: isSchedulableBoardSlug_def Let_def) (simp add: sample_small_def is_alnum_def)
  moreover have "atsBoardIngestionExclusion (sample_small n) = None"
    by (rule short_slug_not_excluded) (simp add: sample_small_def)
  ultimately show ?thesis
    by (simp add: isAtsBoardEnabledForIngestion_def) (simp add: sample_small_def isBrowserAtsPlatform_def BROWSER_ATS_PLATFORMS_def)
qed

lemma sample_large_enabled: "isAtsBoardEnabledForIngestion (sample_large ''acme'')" "isAtsBoardEnabledForIngestion (sample_large ''zenith'')"
  by code_simp+

lemma sample_enabled: "enabled_boards sample_catalogue = sample_catalogue"
proof -
  have "n mod 4 < 7" for n :: int by (rule order.strict_trans [of _ 4]) simp_all
  then have "\<forall>b \<in> set sample_catalogue. isAtsBoardEnabledForIngestion b \<and> 0 \<le> bd_checkDay b \<and> bd_checkDay b < 7"
    by (auto simp: sample_catalogue_def sample_large_enabled sample_small_enabled)
      (auto simp: sample_large_def sample_small_def)
  then show ?thesis unfolding enabled_boards_def by (intro filter_True)
qed

lemma sample_profile: "buildAtsWorkloadProfiles sample_catalogue sample_now ''lever''
    = Some \<lparr>wp_msPerJob = 10000, wp_typicalJobs = 100, wp_samples = 2\<rparr>"
  by code_simp

lemma sample_slots: "next_slots sample_wall sample_now = map sample_opening [18004, 18001, 18002, 18003]"
  by code_simp

lemma sample_small_simps [simp]:
  "usableSample (sample_small n) t = False"
  "isDailyAtsBoard (sample_small n) = False"
  "home_day (sample_small n) = n mod 4"
  "bd_platform (sample_small n) = ''lever''" "wb_jobsFound (sample_small n) = 2"
  by (simp_all add: usableSample_def sample_small_def isDailyAtsBoard_def ATS_DAILY_BOARDS_def home_day_def
      ATS_API_ROTATION_DAYS_def)

lemma sample_large_simps [simp]:
  "usableSample (sample_large s) sample_now = True"
  "isDailyAtsBoard (sample_large s) = False"
  "home_day (sample_large s) = 0" "wb_workerMs (sample_large s) = Some 1000000"
  by (simp_all add: usableSample_def sample_large_def isDailyAtsBoard_def ATS_DAILY_BOARDS_def home_day_def
      ATS_API_ROTATION_DAYS_def sample_now_def sample_opening_def day_ms_def hour_ms_def SAMPLE_MAX_AGE_MS_def)

lemma sample_costs: "board_costs sample_catalogue sample_now =
    (sample_large ''acme'', 1000000) # (sample_large ''zenith'', 1000000) # map (\<lambda>n. (sample_small n, 20000)) [1..48]"
proof -
  have "estimateAtsBoardWorkload (sample_small n) (buildAtsWorkloadProfiles sample_catalogue sample_now) sample_now = (20000, False)" for n
    by (simp add: estimateAtsBoardWorkload_def estimateNewAtsBoardWorkload_def sample_profile)
  moreover have "estimateAtsBoardWorkload (sample_large s) P sample_now = (1000000, True)" for s P
    by (simp add: estimateAtsBoardWorkload_def number_of_def)
  ultimately show ?thesis
    unfolding board_costs_def Let_def sample_enabled by (simp add: sample_catalogue_def comp_def)
qed

lemma sample_share:
  assumes "d \<in> {0, 1, 2, 3}"
  shows "share snd d (board_costs sample_catalogue sample_now) = (if d = 0 then 2240000 else 240000)"
    and "share (\<lambda>e. 1) d (board_costs sample_catalogue sample_now) = (if d = 0 then 14 else 12 :: int)"
proof -
  have f: "share snd d (map (\<lambda>n. (sample_small n, 20000)) ns) = sum_list (map (\<lambda>n. if d = n mod 4 then 20000 else 0) ns)"
    "share (\<lambda>e. 1) d (map (\<lambda>n. (sample_small n, 20000)) ns) = sum_list (map (\<lambda>n. if d = n mod 4 then 1 else (0 :: int)) ns)" for ns
    by (induction ns) (simp_all add: on_day_def)
  have "\<forall>d \<in> {0, 1, 2, 3}. sum_list (map (\<lambda>n. if d = n mod 4 then 1 else 0) [1..48]) = (12 :: int)"
    by code_simp
  moreover have "\<forall>d \<in> {0, 1, 2, 3}. sum_list (map (\<lambda>n. if d = n mod 4 then 20000 else 0) [1..48 :: int]) = (240000 :: rat)"
    by code_simp
  ultimately have sums: "sum_list (map (\<lambda>n. if d = n mod 4 then 1 else 0) [1..48]) = (12 :: int)"
    "sum_list (map (\<lambda>n. if d = n mod 4 then 20000 else 0) [1..48 :: int]) = (240000 :: rat)"
    using assms by blast+
  show "share snd d (board_costs sample_catalogue sample_now) = (if d = 0 then 2240000 else 240000)"
    "share (\<lambda>e. 1) d (board_costs sample_catalogue sample_now) = (if d = 0 then 14 else 12 :: int)"
    unfolding sample_costs share_simps f sums by (simp_all add: on_day_def)
qed

definition sample_days :: "int \<Rightarrow> rat \<Rightarrow> int \<Rightarrow> rat \<Rightarrow> workload_day list" where
  "sample_days n w k v =
     [\<lparr>wd_day = 0, wd_dayName = ''Day 1'', wd_boards = n, wd_workerMs = w\<rparr>,
      \<lparr>wd_day = 1, wd_dayName = ''Day 2'', wd_boards = 12, wd_workerMs = 240000\<rparr>,
      \<lparr>wd_day = 2, wd_dayName = ''Day 3'', wd_boards = k, wd_workerMs = v\<rparr>,
      \<lparr>wd_day = 3, wd_dayName = ''Day 4'', wd_boards = 12, wd_workerMs = 240000\<rparr>]"

lemma sample_before: "days_of (board_costs sample_catalogue sample_now) = sample_days 14 2240000 12 240000"
  by (simp add: days_of_sum empty_days_eq day_sum_def load_day_def sample_share sample_days_def)

lemma sample_loop: "plan_moves 1 (map sample_opening [18004, 18001, 18002, 18003]) sample_now
    [(sample_large ''acme'', 1000000), (sample_large ''zenith'', 1000000)] (sample_days 14 2240000 12 240000) []
  = (sample_days 13 1240000 13 1240000, [move_of (map sample_opening [18004, 18001, 18002, 18003]) (sample_large ''acme'') 1000000 2])"
  by code_simp

lemma sample_candidates:
  "js_sort (candidate_cmp code_unit_cmp)
     (filter (\<lambda>(b, w). movable (map sample_opening [18004, 18001, 18002, 18003]) sample_now b (usableSample b sample_now))
       (board_costs sample_catalogue sample_now))
   = [(sample_large ''acme'', 1000000), (sample_large ''zenith'', 1000000)]"
proof -
  have "movable (map sample_opening [18004, 18001, 18002, 18003]) sample_now (sample_large s) True" for s
    by (simp add: movable_def slot_at_def)
      (simp add: sample_large_def sample_now_def sample_opening_def REVIEW_INTERVAL_MS_def MINIMUM_NOTICE_MS_def day_ms_def hour_ms_def)
  moreover have "filter (\<lambda>(b, w). movable S t b (usableSample b t)) (map (\<lambda>n. (sample_small n, 20000 :: rat)) ns) = []"
    for S t and ns :: "int list"
    by (simp add: movable_def)
  ultimately have "filter (\<lambda>(b, w). movable (map sample_opening [18004, 18001, 18002, 18003]) sample_now b (usableSample b sample_now))
      (board_costs sample_catalogue sample_now) = [(sample_large ''acme'', 1000000), (sample_large ''zenith'', 1000000)]"
    unfolding sample_costs by simp
  moreover have "js_sort (candidate_cmp code_unit_cmp) [(sample_large ''acme'', 1000000), (sample_large ''zenith'', 1000000)]
      = [(sample_large ''acme'', 1000000), (sample_large ''zenith'', 1000000)]"
    by code_simp
  ultimately show ?thesis by (simp only:)
qed

lemma sample_planned: "planned_moves code_unit_cmp sample_wall sample_catalogue sample_now
  = (sample_days 13 1240000 13 1240000, [move_of (map sample_opening [18004, 18001, 18002, 18003]) (sample_large ''acme'') 1000000 2])"
proof -
  have "TRIGGER_DEVIATION < maxDeviation (sample_days 14 2240000 12 240000)" by code_simp
  moreover have "int (length (enabled_boards sample_catalogue)) = 50"
    unfolding sample_enabled by (simp add: sample_catalogue_def)
  moreover have "move_limit 50 = 1" by code_simp
  ultimately show ?thesis
    unfolding planned_moves_def Let_def sample_slots sample_candidates sample_before
    by (simp only: sample_loop if_True)
qed

lemma sample_rotation_plan: "pl_moves (planAtsRotationWorkload code_unit_cmp sample_wall sample_catalogue sample_now)
  = [move_of (map sample_opening [18004, 18001, 18002, 18003]) (sample_large ''acme'') 1000000 2]"
proof -
  have "variance (sample_days 14 2240000 12 240000) = 3000000000000"
    "variance (sample_days 13 1240000 13 1240000) = 1000000000000"
    by code_simp+
  then show ?thesis
    unfolding planAtsRotationWorkload_def Let_def sample_planned sample_before
    by (simp add: MINIMUM_VARIANCE_IMPROVEMENT_def)
qed

lemma sample_distinct: "distinct (map (\<lambda>b. (bd_slug b, bd_platform b)) sample_catalogue)"
  by code_simp

text \<open>The plan of this catalogue takes two thirds off the variance with one move.\<close>

theorem plan_evens_the_catalogue_witness:
  "variance (pl_after (planAtsRotationWorkload code_unit_cmp sample_wall sample_catalogue sample_now)) \<le> 2850000000000"
proof -
  let ?plan = "planAtsRotationWorkload code_unit_cmp sample_wall sample_catalogue sample_now"
  have "pl_moves ?plan \<noteq> []" by (simp add: sample_rotation_plan)
  with plan_evens_the_catalogue [OF sample_distinct refl, of code_unit_cmp sample_wall sample_now]
  have "variance (pl_after ?plan) \<le> 19 / 20 * variance (pl_before ?plan)" "pl_before ?plan = sample_days 14 2240000 12 240000"
    unfolding sample_before by blast+
  moreover have "variance (sample_days 14 2240000 12 240000) = 3000000000000" by code_simp
  ultimately show ?thesis by simp
qed

theorem planned_moves_disturb_nobody_witness:
  "\<exists>processed. wb_lastProcessedAt (sample_large ''acme'') = Some processed \<and> processed + 4 * day_ms \<le> sample_opening 18002"
proof -
  let ?m = "move_of (map sample_opening [18004, 18001, 18002, 18003]) (sample_large ''acme'') 1000000 2"
  have m: "?m \<in> set (pl_moves (planAtsRotationWorkload code_unit_cmp sample_wall sample_catalogue sample_now))"
    by (simp add: sample_rotation_plan)
  have n: "mv_nextCheckDate ?m = sample_opening 18002" "mv_slug ?m = ''acme''"
    by (simp_all add: move_of_def slot_at_def sample_large_def)
  from planned_moves_disturb_nobody [OF sample_distinct refl, of code_unit_cmp sample_wall sample_now] m
  obtain b processed where b: "b \<in> set sample_catalogue" "mv_slug ?m = bd_slug b"
      "wb_lastProcessedAt b = Some processed" "processed + 4 * day_ms \<le> mv_nextCheckDate ?m"
    by blast
  then have "b = sample_large ''acme''"
    using n by (auto simp: sample_catalogue_def) (simp_all add: sample_large_def sample_small_def)
  with b n show ?thesis by auto
qed

end
