(* ===== verification/Rotation_Review.thy ===== *)
theory Rotation_Review
  imports Rotation_Workload Sql
begin

text \<open>
  The review of the rotation and the reservation of a day for a new board
  (\<open>src/lib/atsRotationBalancing.ts\<close>), over the boards of the catalogue, the saved days and the reports
  of the earlier reviews.

  The snapshot with the recorded work (a query of its own) and the open work of a board
  (\<open>open_work\<close>, the sub-query over its batches) are parameters, as are the digest of an identity, the
  ISO text of an instant and the clock of the database. A transaction that is refused leaves no trace,
  so a run is a function of the tables it read under its lock. Of a saved report the JSON holds the
  members that are read back.
\<close>

section \<open>The tables\<close>

record company = board +
  co_jobsFound :: rat
  co_status :: string
  co_failCount :: int
  co_retryCount :: int
  co_nextCheckDate :: ms
  co_lastProcessedAt :: "ms option"
  co_rotationMovedAt :: "ms option"

record balance_state =
  bs_days :: "workload_day list"
  bs_profiles :: workload_profiles
  bs_refreshedAt :: ms
  bs_lastRebalancedAt :: "ms option"

record balance_run =
  br_createdAt :: ms
  br_report :: json

record rotation_db =
  db_companies :: "company list"
  db_state :: "balance_state option"
  db_runs :: "balance_run list"

section \<open>A day for a new board\<close>

definition reserveNewAtsRotationDay ::
  "(string \<Rightarrow> nat list) \<Rightarrow> board \<Rightarrow> rat option \<Rightarrow> ms \<Rightarrow> balance_state option \<Rightarrow> int \<times> balance_state option" where
  "reserveNewAtsRotationDay sha256 b jobsFound now state =
     (let fallback = (if bd_platform b \<in> set NON_API_ATS_PLATFORMS
            then assignedRotationDay sha256 (bd_slug b) (bd_platform b)
            else assignedApiRotationDay sha256 (bd_slug b) (bd_platform b)) in
      if \<not> isAtsBoardEnabledForIngestion b then (fallback, state)
      else case state of
        None \<Rightarrow> (fallback, state)
      | Some s \<Rightarrow>
          if 36 * 60 * 60000 < now - bs_refreshedAt s then (fallback, state)
          else
            let day = lightestAtsWorkloadDay sha256 (bd_slug b) (bd_platform b) (bs_days s);
                cost = estimateNewAtsBoardWorkload (bd_platform b) jobsFound (bs_profiles s)
            in (day, Some (s\<lparr>bs_days := map (\<lambda>d. if wd_day d = day \<or> isDailyAtsBoard b then load_day 1 cost d else d) (bs_days s)\<rparr>)))"

section \<open>The reports\<close>

definition is_json_list :: "json option \<Rightarrow> (nat \<Rightarrow> bool) \<Rightarrow> bool" where
  "is_json_list v P = (case v of Some (JArr xs) \<Rightarrow> P (length xs) | _ \<Rightarrow> False)"

definition atsRotationReviewWasIncomplete :: "(ms \<Rightarrow> string) \<Rightarrow> json option \<Rightarrow> ms \<Rightarrow> bool" where
  "atsRotationReviewWasIncomplete iso_text report reviewedAt \<longleftrightarrow>
     is_json_object report
     \<and> json_field report ''mode'' = Some (JStr ''apply'') \<and> json_field report ''reviewDue'' = Some (JBool True)
     \<and> json_field report ''observedAt'' = Some (JStr (iso_text reviewedAt))
     \<and> is_json_list (json_field report ''moves'') (\<lambda>n. 0 < n)
     \<and> is_json_list (json_field report ''appliedMoves'') (\<lambda>n. n = 0)
     \<and> json_field report ''appliedVarianceImprovement'' = Some (JNum 0)
     \<and> json_field report ''writesPerformed'' = Some (JNum 2)
     \<and> (json_field report ''reviewOutcome'' = None \<or> json_field report ''reviewOutcome'' = Some (JStr ''deferred''))"

definition move_json :: "(ms \<Rightarrow> string) \<Rightarrow> rotation_move \<Rightarrow> json" where
  "move_json iso_text m =
     JObj [(''slug'', JStr (mv_slug m)), (''platform'', JStr (mv_platform m)),
       (''fromDay'', JNum (of_int (mv_fromDay m))), (''toDay'', JNum (of_int (mv_toDay m))),
       (''workerMs'', JNum (mv_workerMs m)), (''fromNextCheckDate'', JStr (iso_text (mv_fromNextCheckDate m))),
       (''nextCheckDate'', JStr (iso_text (mv_nextCheckDate m))), (''lastProcessedAt'', JStr (iso_text (mv_lastProcessedAt m)))]"

datatype review_outcome = NotDue | Deferred | Complete

fun outcome_text :: "review_outcome \<Rightarrow> string" where
  "outcome_text NotDue = ''not_due''"
| "outcome_text Deferred = ''deferred''"
| "outcome_text Complete = ''complete''"

record review_report =
  rt_observedAt :: ms
  rt_moves :: "rotation_move list"
  rt_before :: "workload_day list"
  rt_after :: "workload_day list"
  rt_reviewDue :: bool
  rt_appliedMoves :: "rotation_move list"
  rt_reviewOutcome :: review_outcome
  rt_attemptedMoves :: nat
  rt_guardedOutMoves :: nat
  rt_rolledBackMoves :: nat
  rt_priorReviewIncomplete :: bool
  rt_appliedVarianceImprovement :: rat
  rt_writesPerformed :: nat

definition report_json :: "(ms \<Rightarrow> string) \<Rightarrow> review_report \<Rightarrow> json" where
  "report_json iso_text r =
     JObj [(''mode'', JStr ''apply''), (''observedAt'', JStr (iso_text (rt_observedAt r))),
       (''moves'', JArr (map (move_json iso_text) (rt_moves r))), (''reviewDue'', JBool (rt_reviewDue r)),
       (''appliedMoves'', JArr (map (move_json iso_text) (rt_appliedMoves r))),
       (''reviewOutcome'', JStr (outcome_text (rt_reviewOutcome r))),
       (''appliedVarianceImprovement'', JNum (rt_appliedVarianceImprovement r)),
       (''writesPerformed'', JNum (of_nat (rt_writesPerformed r)))]"

section \<open>The review\<close>

definition newest_run :: "balance_run list \<Rightarrow> balance_run option" where
  "newest_run runs = (case js_sort (desc_cmp (key_cmp br_createdAt num_cmp)) runs of [] \<Rightarrow> None | r # rs \<Rightarrow> Some r)"

definition prior_review :: "(ms \<Rightarrow> string) \<Rightarrow> balance_run list \<Rightarrow> ms \<Rightarrow> balance_run option" where
  "prior_review iso_text runs reviewedAt =
     newest_run (filter (\<lambda>r. json_field (Some (br_report r)) ''observedAt'' = Some (JStr (iso_text reviewedAt))) runs)"

definition last_rebalanced :: "balance_state option \<Rightarrow> ms option" where
  "last_rebalanced prior = Option.bind prior bs_lastRebalancedAt"

definition prior_incomplete :: "(ms \<Rightarrow> string) \<Rightarrow> rotation_db \<Rightarrow> bool" where
  "prior_incomplete iso_text db =
     (case last_rebalanced (db_state db) of
        None \<Rightarrow> False
      | Some t \<Rightarrow> atsRotationReviewWasIncomplete iso_text (map_option br_report (prior_review iso_text (db_runs db) t)) t)"

definition review_due :: "(ms \<Rightarrow> string) \<Rightarrow> rotation_db \<Rightarrow> ms \<Rightarrow> bool" where
  "review_due iso_text db now \<longleftrightarrow>
     (case last_rebalanced (db_state db) of
        None \<Rightarrow> True
      | Some t \<Rightarrow> prior_incomplete iso_text db \<or> REVIEW_INTERVAL_MS \<le> now - t)"

text \<open>The boards under the lock and what they cost: the recorded or estimated work of the snapshot, or
  the estimate of a board the snapshot did not see. A weekday that is no index of the four days is
  skipped (a negative one, unless a multiple of four).\<close>

definition board_of :: "'a board_scheme \<Rightarrow> board" where
  "board_of b = \<lparr>bd_slug = bd_slug b, bd_platform = bd_platform b, bd_checkDay = bd_checkDay b\<rparr>"

definition counted :: "company \<Rightarrow> bool" where
  "counted c \<longleftrightarrow>
     co_status c = ''active'' \<and> bd_platform c \<notin> set NON_API_ATS_PLATFORMS \<and> isAtsBoardEnabledForIngestion c
     \<and> \<not> (bd_checkDay c < 0 \<and> bd_checkDay c mod ATS_API_ROTATION_DAYS \<noteq> 0)"

definition current_cost ::
  "workload_board list \<Rightarrow> workload_profiles \<Rightarrow> ms \<Rightarrow> company \<Rightarrow> rat" where
  "current_cost snapshot profiles now c =
     (case map_of_last (map (\<lambda>b. ((bd_slug b, bd_platform b), b)) snapshot) (bd_slug c, bd_platform c) of
        Some b \<Rightarrow> fst (estimateAtsBoardWorkload b profiles now)
      | None \<Rightarrow> estimateNewAtsBoardWorkload (bd_platform c) (Some (co_jobsFound c)) profiles)"

definition current_costs ::
  "workload_board list \<Rightarrow> workload_profiles \<Rightarrow> ms \<Rightarrow> company list \<Rightarrow> (board \<times> rat) list" where
  "current_costs snapshot profiles now rows =
     map (\<lambda>c. (board_of c, current_cost snapshot profiles now c)) (filter counted rows)"

text \<open>The conditional update of a move: the row must be as the plan saw it, healthy, idle and rested.\<close>

definition move_filter :: "(company \<Rightarrow> bool) \<Rightarrow> ms \<Rightarrow> rotation_move \<Rightarrow> company \<Rightarrow> tv" where
  "move_filter open_work now m c = tv_all
     [sql_eq (Some (bd_slug c)) (mv_slug m), sql_eq (Some (bd_platform c)) (mv_platform m),
      sql_eq (Some (co_status c)) ''active'', sql_eq (Some (bd_checkDay c)) (mv_fromDay m),
      sql_eq (Some (co_nextCheckDate c)) (mv_fromNextCheckDate m),
      sql_eq (co_lastProcessedAt c) (mv_lastProcessedAt m),
      sql_eq (Some (co_failCount c)) 0, sql_eq (Some (co_retryCount c)) 0,
      tv_any [sql_is_null (co_rotationMovedAt c), sql_cmp (\<lambda>t. t \<le> now - BOARD_MOVE_COOLDOWN_MS) (co_rotationMovedAt c)],
      Some (\<not> open_work c)]"

definition moved_row :: "ms \<Rightarrow> rotation_move \<Rightarrow> company \<Rightarrow> company" where
  "moved_row now m c =
     c\<lparr>bd_checkDay := mv_toDay m, co_nextCheckDate := mv_nextCheckDate m, co_rotationMovedAt := Some now\<rparr>"

record move_round =
  mr_rows :: "company list"
  mr_days :: "workload_day list"
  mr_applied :: "rotation_move list"
  mr_attempted :: nat
  mr_guardedOut :: nat

fun review_moves ::
  "(company \<Rightarrow> bool) \<Rightarrow> ms \<Rightarrow> int \<Rightarrow> rotation_move list \<Rightarrow> move_round \<Rightarrow> move_round" where
  "review_moves open_work now limit [] st = st"
| "review_moves open_work now limit (m # ms) st =
     (if limit \<le> int (length (mr_applied st)) then st
      else if load_at (mr_days st) (mv_fromDay m mod ATS_API_ROTATION_DAYS) - load_at (mr_days st) (mv_toDay m) \<le> mv_workerMs m
      then review_moves open_work now limit ms st
      else
        let hit = (\<lambda>c. selected (move_filter open_work now m c)) in
        if filter hit (mr_rows st) = []
        then review_moves open_work now limit ms
          (st\<lparr>mr_attempted := mr_attempted st + 1, mr_guardedOut := mr_guardedOut st + 1\<rparr>)
        else review_moves open_work now limit ms
          (st\<lparr>mr_rows := map (\<lambda>c. if hit c then moved_row now m c else c) (mr_rows st),
              mr_days := move_load (mv_fromDay m mod ATS_API_ROTATION_DAYS) (mv_toDay m) (mv_workerMs m) (mr_days st),
              mr_applied := mr_applied st @ [m], mr_attempted := mr_attempted st + 1\<rparr>))"

text \<open>The moves that stay: all of them, or none when together they gain less than a twentieth.\<close>

definition kept_moves ::
  "(company \<Rightarrow> bool) \<Rightarrow> ms \<Rightarrow> rotation_move list \<Rightarrow> bool \<Rightarrow> workload_day list \<Rightarrow> company list \<Rightarrow> move_round \<times> nat \<times> rat" where
  "kept_moves open_work now moves due before rows =
     (let start = \<lparr>mr_rows = rows, mr_days = before, mr_applied = [], mr_attempted = 0, mr_guardedOut = 0\<rparr>;
          boards = sum_list (map wd_boards before);
          st = (if due \<and> TRIGGER_DEVIATION < maxDeviation before
                then review_moves open_work now (move_limit boards) moves start else start);
          gained = (if 0 < variance before then (variance before - variance (mr_days st)) / variance before else 0)
      in if mr_applied st \<noteq> [] \<and> gained < MINIMUM_VARIANCE_IMPROVEMENT
         then (st\<lparr>mr_rows := rows, mr_days := before, mr_applied := []\<rparr>, length (mr_applied st), 0)
         else (st, 0, gained))"

definition next_rebalanced :: "balance_state option \<Rightarrow> bool \<Rightarrow> bool \<Rightarrow> bool \<Rightarrow> ms \<Rightarrow> ms option" where
  "next_rebalanced prior due deferred incomplete now =
     (case prior of
        None \<Rightarrow> if deferred then None else Some now
      | Some s \<Rightarrow> if due \<and> \<not> deferred then Some now else if incomplete then None else bs_lastRebalancedAt s)"

datatype review_result =
    Preview rotation_plan
  | Superseded rotation_plan
  | Reviewed review_report

definition reviewAtsRotationWorkload ::
  "string cmp \<Rightarrow> (ms \<Rightarrow> ms) \<Rightarrow> (ms \<Rightarrow> string) \<Rightarrow> (company \<Rightarrow> bool) \<Rightarrow> ms \<Rightarrow> workload_board list \<Rightarrow> bool \<Rightarrow> ms
    \<Rightarrow> rotation_db \<Rightarrow> review_result \<times> rotation_db" where
  "reviewAtsRotationWorkload loc wall iso_text open_work db_now snapshot apply_it now db =
     (let plan = planAtsRotationWorkload loc wall snapshot now in
      if \<not> apply_it then (Preview plan, db)
      else if (case newest_run (db_runs db) of None \<Rightarrow> False | Some r \<Rightarrow> now < br_createdAt r) then (Superseded plan, db)
      else
        let incomplete = prior_incomplete iso_text db;
            due = review_due iso_text db now;
            before = days_of (current_costs snapshot (pl_profiles plan) now (db_companies db));
            (st, rolledBack, gained) = kept_moves open_work now (pl_moves plan) due before (db_companies db);
            deferred = (due \<and> pl_moves plan \<noteq> [] \<and> mr_applied st = []);
            report = \<lparr>rt_observedAt = now, rt_moves = pl_moves plan, rt_before = before, rt_after = mr_days st,
              rt_reviewDue = due, rt_appliedMoves = mr_applied st,
              rt_reviewOutcome = (if \<not> due then NotDue else if deferred then Deferred else Complete),
              rt_attemptedMoves = mr_attempted st, rt_guardedOutMoves = mr_guardedOut st, rt_rolledBackMoves = rolledBack,
              rt_priorReviewIncomplete = incomplete, rt_appliedVarianceImprovement = gained,
              rt_writesPerformed = length (mr_applied st) + 2\<rparr>
        in (Reviewed report,
            db\<lparr>db_companies := mr_rows st,
               db_state := Some \<lparr>bs_days = mr_days st, bs_profiles = pl_profiles plan, bs_refreshedAt = now,
                 bs_lastRebalancedAt = next_rebalanced (db_state db) due deferred incomplete now\<rparr>,
               db_runs := db_runs db @ [\<lparr>br_createdAt = db_now, br_report = report_json iso_text report\<rparr>]\<rparr>))"

section \<open>What a review changes\<close>

lemma moved_row_simps [simp]:
  "bd_slug (moved_row now m c) = bd_slug c" "bd_platform (moved_row now m c) = bd_platform c"
  "bd_checkDay (moved_row now m c) = mv_toDay m" "co_jobsFound (moved_row now m c) = co_jobsFound c"
  "co_status (moved_row now m c) = co_status c" "co_rotationMovedAt (moved_row now m c) = Some now"
  by (simp_all add: moved_row_def)

text \<open>A row of the catalogue before and after: as it was, or taken by one of the moves.\<close>

definition row_step :: "(company \<Rightarrow> bool) \<Rightarrow> ms \<Rightarrow> rotation_move set \<Rightarrow> company \<Rightarrow> company \<Rightarrow> bool" where
  "row_step open_work now A c c' \<longleftrightarrow>
     c' = c \<or> (\<exists>m \<in> A. selected (move_filter open_work now m c) \<and> c' = moved_row now m c)"

lemma move_selected:
  "selected (move_filter open_work now m c) \<longleftrightarrow>
     bd_slug c = mv_slug m \<and> bd_platform c = mv_platform m \<and> co_status c = ''active'' \<and> bd_checkDay c = mv_fromDay m
     \<and> co_nextCheckDate c = mv_fromNextCheckDate m \<and> co_lastProcessedAt c = Some (mv_lastProcessedAt m)
     \<and> co_failCount c = 0 \<and> co_retryCount c = 0
     \<and> (\<forall>t. co_rotationMovedAt c = Some t \<longrightarrow> t \<le> now - BOARD_MOVE_COOLDOWN_MS) \<and> \<not> open_work c"
  by (cases "co_rotationMovedAt c") (auto simp: move_filter_def selected_all selected_any selected_tests selected_Some)

text \<open>A board that was moved is not moved again: its rest has begun.\<close>

lemma moved_row_rests: "\<not> selected (move_filter open_work now m (moved_row now m' c))"
  by (simp add: move_selected BOARD_MOVE_COOLDOWN_MS_def day_ms_def)

lemma row_step_move:
  assumes "row_step open_work now A c0 c"
  shows "row_step open_work now (insert m A) c0 (if selected (move_filter open_work now m c) then moved_row now m c else c)"
  using assms moved_row_rests by (auto simp: row_step_def)

lemma review_moves_rows:
  assumes "list_all2 (row_step open_work now (set (mr_applied st))) rows (mr_rows st)"
    and "mr_applied st = [] \<Longrightarrow> mr_rows st = rows"
  shows "list_all2 (row_step open_work now (set (mr_applied (review_moves open_work now limit ms st)))) rows
      (mr_rows (review_moves open_work now limit ms st))
    \<and> (mr_applied (review_moves open_work now limit ms st) = [] \<longrightarrow> mr_rows (review_moves open_work now limit ms st) = rows)
    \<and> set (mr_applied (review_moves open_work now limit ms st)) \<subseteq> set (mr_applied st) \<union> set ms"
  using assms
proof (induction ms arbitrary: st)
  case (Cons m ms)
  let ?hit = "\<lambda>c. selected (move_filter open_work now m c)"
  let ?guarded = "st\<lparr>mr_attempted := mr_attempted st + 1, mr_guardedOut := mr_guardedOut st + 1\<rparr>"
  let ?moved = "st\<lparr>mr_rows := map (\<lambda>c. if ?hit c then moved_row now m c else c) (mr_rows st),
    mr_days := move_load (mv_fromDay m mod ATS_API_ROTATION_DAYS) (mv_toDay m) (mv_workerMs m) (mr_days st),
    mr_applied := mr_applied st @ [m], mr_attempted := mr_attempted st + 1\<rparr>"
  have "list_all2 (row_step open_work now (set (mr_applied ?moved))) rows (mr_rows ?moved)"
    using Cons.prems(1) by (auto simp: list_all2_map2 elim!: list_all2_mono dest: row_step_move [where m = m])
  then have moved: "list_all2 (row_step open_work now (set (mr_applied (review_moves open_work now limit ms ?moved)))) rows
      (mr_rows (review_moves open_work now limit ms ?moved))
    \<and> (mr_applied (review_moves open_work now limit ms ?moved) = [] \<longrightarrow> mr_rows (review_moves open_work now limit ms ?moved) = rows)
    \<and> set (mr_applied (review_moves open_work now limit ms ?moved)) \<subseteq> set (mr_applied ?moved) \<union> set ms"
    by (intro Cons.IH) simp_all
  note guarded = Cons.IH [of ?guarded] and skipped = Cons.IH [of st]
  show ?case using moved guarded skipped Cons.prems by (auto simp: Let_def)
qed simp

section \<open>What a review saves\<close>

lemma ident_board_of: "map ident (map (\<lambda>c. (board_of c, f c)) rows) = map (\<lambda>c. (bd_slug c, bd_platform c)) rows"
  by (simp add: ident_def board_of_def)

lemma map_of_last_unique:
  assumes "distinct (map f xs)" and "x \<in> set xs"
  shows "map_of_last (map (\<lambda>y. (f y, y)) xs) (f x) = Some x"
  unfolding map_of_last_def rev_map [symmetric]
  by (rule map_of_is_SomeI) (use assms in \<open>auto simp: comp_def simp flip: rev_map\<close>)

text \<open>A move as the plan makes them, seen from the catalogue under the lock.\<close>

definition fits :: "workload_board list \<Rightarrow> workload_profiles \<Rightarrow> ms \<Rightarrow> rotation_move \<Rightarrow> bool" where
  "fits snapshot profiles now m \<longleftrightarrow>
     0 \<le> mv_fromDay m \<and> 0 \<le> mv_toDay m \<and> mv_toDay m < 4 \<and> mv_toDay m \<noteq> mv_fromDay m mod ATS_API_ROTATION_DAYS
     \<and> (\<forall>c. bd_slug c = mv_slug m \<and> bd_platform c = mv_platform m \<longrightarrow>
          isAtsBoardEnabledForIngestion c \<and> bd_platform c \<notin> set NON_API_ATS_PLATFORMS \<and> \<not> isDailyAtsBoard c
          \<and> current_cost snapshot profiles now c = mv_workerMs m)"

lemma current_costs_move:
  assumes ids: "distinct (map (\<lambda>c. (bd_slug c, bd_platform c)) rows)" and fit: "fits S P now m"
    and hit: "c \<in> set rows" "selected (move_filter open_work now m c)"
  shows "current_costs S P now (map (\<lambda>c. if selected (move_filter open_work now m c) then moved_row now m c else c) rows)
      = apply_move m (current_costs S P now rows)"
    and "(board_of c, mv_workerMs m) \<in> set (current_costs S P now rows)"
    and "home_day (board_of c) = mv_fromDay m mod ATS_API_ROTATION_DAYS" and "\<not> isDailyAtsBoard (board_of c)"
proof -
  let ?f = "\<lambda>c. if selected (move_filter open_work now m c) then moved_row now m c else c"
  have same: "isAtsBoardEnabledForIngestion (moved_row now m d) = isAtsBoardEnabledForIngestion d" for d
    by (simp add: isAtsBoardEnabledForIngestion_def atsBoardIngestionExclusion_def moved_row_def)
  have cost: "current_cost S P now (moved_row now m d) = current_cost S P now d" for d
    by (simp add: current_cost_def split: option.split)
  have count: "counted d \<and> counted (moved_row now m d)" if "selected (move_filter open_work now m d)" for d
    using that fit by (auto simp: counted_def same move_selected fits_def)
  have only: "selected (move_filter open_work now m d)" if "d \<in> set rows" "bd_slug d = mv_slug m" "bd_platform d = mv_platform m" for d
    using that hit ids by (metis (mono_tags, lifting) distinct_map inj_on_def move_selected)
  have "map (\<lambda>c. (board_of c, current_cost S P now c)) (filter counted (map ?f ds))
      = apply_move m (map (\<lambda>c. (board_of c, current_cost S P now c)) (filter counted ds))" if "set ds \<subseteq> set rows" for ds
    using that
  proof (induction ds)
    case (Cons d ds)
    have "ident (board_of d, current_cost S P now d) = (mv_slug m, mv_platform m) \<longleftrightarrow> selected (move_filter open_work now m d)"
      using only [of d] Cons.prems by (auto simp: ident_def board_of_def move_selected)
    moreover have "board_of (moved_row now m d) = (board_of d)\<lparr>bd_checkDay := mv_toDay m\<rparr>"
      by (simp add: board_of_def moved_row_def)
    ultimately show ?case using Cons count [of d] by (simp add: apply_move_def cost)
  qed (simp add: apply_move_def)
  then show "current_costs S P now (map ?f rows) = apply_move m (current_costs S P now rows)"
    by (simp add: current_costs_def)
  show "(board_of c, mv_workerMs m) \<in> set (current_costs S P now rows)"
    using hit count [of c] fit by (force simp: current_costs_def fits_def move_selected)
  show "home_day (board_of c) = mv_fromDay m mod ATS_API_ROTATION_DAYS"
    using hit(2) by (simp add: home_day_def board_of_def move_selected)
  show "\<not> isDailyAtsBoard (board_of c)"
    using hit(2) fit by (auto simp: fits_def move_selected isDailyAtsBoard_def board_of_def)
qed

lemma review_moves_days:
  assumes "distinct (map (\<lambda>c. (bd_slug c, bd_platform c)) (mr_rows st))" and "\<forall>m \<in> set ms. fits S P now m"
    and "mr_days st = days_of (current_costs S P now (mr_rows st))"
  shows "mr_days (review_moves open_work now limit ms st)
      = days_of (current_costs S P now (mr_rows (review_moves open_work now limit ms st)))"
  using assms
proof (induction ms arbitrary: st)
  case (Cons m ms)
  let ?hit = "\<lambda>c. selected (move_filter open_work now m c)"
  let ?moved = "st\<lparr>mr_rows := map (\<lambda>c. if ?hit c then moved_row now m c else c) (mr_rows st),
    mr_days := move_load (mv_fromDay m mod ATS_API_ROTATION_DAYS) (mv_toDay m) (mv_workerMs m) (mr_days st),
    mr_applied := mr_applied st @ [m], mr_attempted := mr_attempted st + 1\<rparr>"
  have moved: "mr_days (review_moves open_work now limit ms ?moved)
      = days_of (current_costs S P now (mr_rows (review_moves open_work now limit ms ?moved)))"
    if hits: "filter ?hit (mr_rows st) \<noteq> []"
  proof (rule Cons.IH)
    have "map (\<lambda>c. (bd_slug c, bd_platform c)) (mr_rows ?moved) = map (\<lambda>c. (bd_slug c, bd_platform c)) (mr_rows st)"
      by (simp add: moved_row_def)
    with Cons.prems(1) show "distinct (map (\<lambda>c. (bd_slug c, bd_platform c)) (mr_rows ?moved))" by (simp only:)
    from hits obtain c where c: "c \<in> set (mr_rows st)" "?hit c" by (auto simp: filter_empty_conv)
    have fit: "fits S P now m" using Cons.prems(2) by simp
    note move = current_costs_move [OF Cons.prems(1) fit c]
    have "distinct (map ident (current_costs S P now (mr_rows st)))"
      unfolding current_costs_def ident_board_of using Cons.prems(1) by (rule distinct_map_filter)
    from move_load_days_of [OF this move(2), of m] move fit c(2)
    show "mr_days ?moved = days_of (current_costs S P now (mr_rows ?moved))"
      by (simp add: Cons.prems(3) fits_def move_selected board_of_def)
  qed (use Cons.prems in simp)
  have "mr_days (review_moves open_work now limit ms (st\<lparr>mr_attempted := a, mr_guardedOut := g\<rparr>))
      = days_of (current_costs S P now (mr_rows (review_moves open_work now limit ms (st\<lparr>mr_attempted := a, mr_guardedOut := g\<rparr>))))" for a g
    using Cons by simp
  moreover have "mr_days (review_moves open_work now limit ms st)
      = days_of (current_costs S P now (mr_rows (review_moves open_work now limit ms st)))"
    using Cons by simp
  ultimately show ?case using moved Cons.prems(3) by (simp add: Let_def)
qed simp

lemma enabled_cong:
  "bd_slug b = bd_slug c \<Longrightarrow> bd_platform b = bd_platform c \<Longrightarrow> isAtsBoardEnabledForIngestion b = isAtsBoardEnabledForIngestion c"
  by (simp add: isAtsBoardEnabledForIngestion_def atsBoardIngestionExclusion_def)

lemma enabled_is_api: "isAtsBoardEnabledForIngestion b \<Longrightarrow> bd_platform b \<notin> set NON_API_ATS_PLATFORMS"
  by (auto simp: isAtsBoardEnabledForIngestion_def NON_API_ATS_PLATFORMS_def isBrowserAtsPlatform_def split: if_splits)

lemma plan_fits:
  assumes ids: "distinct (map (\<lambda>b. (bd_slug b, bd_platform b)) snapshot)"
    and m: "m \<in> set (pl_moves (planAtsRotationWorkload loc wall snapshot now))"
  shows "fits snapshot (buildAtsWorkloadProfiles (enabled_boards snapshot) now) now m"
proof -
  let ?P = "buildAtsWorkloadProfiles (enabled_boards snapshot) now"
  obtain b processed where b: "b \<in> set (enabled_boards snapshot)" "movable (next_slots wall now) now b True"
      "m = move_of (next_slots wall now) b (mv_workerMs m) (mv_toDay m)" "0 \<le> mv_toDay m" "mv_toDay m < 4"
      "mv_toDay m \<noteq> home_day b" "mv_workerMs m = fst (estimateAtsBoardWorkload b ?P now)"
    by (rule plan_move [OF ids m])
  have mv: "mv_slug m = bd_slug b" "mv_platform m = bd_platform b" "mv_fromDay m = bd_checkDay b"
    by (subst b(3), simp add: move_of_def)+
  have mem: "b \<in> set snapshot" "isAtsBoardEnabledForIngestion b" "0 \<le> bd_checkDay b" using b(1) by (auto simp: enabled_boards_def)
  have "current_cost snapshot ?P now c = mv_workerMs m" if "bd_slug c = bd_slug b" "bd_platform c = bd_platform b" for c
    using map_of_last_unique [OF ids mem(1)] b(7) by (simp add: current_cost_def that)
  moreover have "isDailyAtsBoard c = isDailyAtsBoard b" if "bd_slug c = bd_slug b" "bd_platform c = bd_platform b" for c :: company
    by (simp add: isDailyAtsBoard_def that)
  ultimately show ?thesis
    using b mem enabled_is_api [OF mem(2)] enabled_cong [of _ b]
    by (auto simp: fits_def mv home_day_def movable_def)
qed

lemma kept_moves_effect:
  assumes "distinct (map (\<lambda>c. (bd_slug c, bd_platform c)) rows)" and "\<forall>m \<in> set moves. fits S P now m"
    and "kept_moves open_work now moves due (days_of (current_costs S P now rows)) rows = (st, rolledBack, gained)"
  shows "mr_days st = days_of (current_costs S P now (mr_rows st))"
    and "list_all2 (row_step open_work now (set (mr_applied st))) rows (mr_rows st)"
    and "set (mr_applied st) \<subseteq> set moves"
    and "mr_applied st \<noteq> [] \<Longrightarrow> variance (mr_days st) \<le> 19 / 20 * variance (days_of (current_costs S P now rows))"
    and "mr_applied st = [] \<Longrightarrow> gained = 0"
    and "\<not> due \<Longrightarrow> mr_applied st = []"
proof -
  let ?before = "days_of (current_costs S P now rows)"
  let ?start = "\<lparr>mr_rows = rows, mr_days = ?before, mr_applied = [], mr_attempted = 0, mr_guardedOut = 0\<rparr>"
  define run where "run = (if due \<and> TRIGGER_DEVIATION < maxDeviation ?before
    then review_moves open_work now (move_limit (sum_list (map wd_boards ?before))) moves ?start else ?start)"
  let ?gained = "if 0 < variance ?before then (variance ?before - variance (mr_days run)) / variance ?before else 0"
  have refl: "list_all2 (row_step open_work now A) rows rows" for A
    by (rule list.rel_refl) (simp add: row_step_def)
  have days: "mr_days run = days_of (current_costs S P now (mr_rows run))"
    unfolding run_def using assms(1,2) by (auto intro!: review_moves_days)
  have steps: "list_all2 (row_step open_work now (set (mr_applied run))) rows (mr_rows run)
      \<and> (mr_applied run = [] \<longrightarrow> mr_rows run = rows) \<and> set (mr_applied run) \<subseteq> set moves"
    unfolding run_def using refl review_moves_rows [of open_work now ?start rows "move_limit (sum_list (map wd_boards ?before))" moves]
    by auto
  have r: "(st, rolledBack, gained) = (if mr_applied run \<noteq> [] \<and> ?gained < MINIMUM_VARIANCE_IMPROVEMENT
      then (run\<lparr>mr_rows := rows, mr_days := ?before, mr_applied := []\<rparr>, length (mr_applied run), 0)
      else (run, 0, ?gained))"
    using assms(3) unfolding kept_moves_def Let_def run_def by (rule sym)
  show "mr_days st = days_of (current_costs S P now (mr_rows st))" using r days by (auto split: if_splits)
  show "list_all2 (row_step open_work now (set (mr_applied st))) rows (mr_rows st)" using r steps refl by (auto split: if_splits)
  show "set (mr_applied st) \<subseteq> set moves" using r steps by (auto split: if_splits)
  show "mr_applied st \<noteq> [] \<Longrightarrow> variance (mr_days st) \<le> 19 / 20 * variance ?before"
    using r by (auto simp: MINIMUM_VARIANCE_IMPROVEMENT_def field_simps split: if_splits)
  show "mr_applied st = [] \<Longrightarrow> gained = 0" using r steps days by (auto split: if_splits)
  show "\<not> due \<Longrightarrow> mr_applied st = []" using r by (auto simp: run_def split: if_splits)
qed

text \<open>What a review that ran returned and left behind.\<close>

lemma reviewed:
  assumes "reviewAtsRotationWorkload loc wall iso_text open_work db_now snapshot apply_it now db = (Reviewed report, db')"
  obtains st rolledBack gained where
    "kept_moves open_work now (pl_moves (planAtsRotationWorkload loc wall snapshot now)) (review_due iso_text db now)
       (days_of (current_costs snapshot (buildAtsWorkloadProfiles (enabled_boards snapshot) now) now (db_companies db))) (db_companies db)
       = (st, rolledBack, gained)"
    and "rt_observedAt report = now" "rt_moves report = pl_moves (planAtsRotationWorkload loc wall snapshot now)"
    and "rt_before report = days_of (current_costs snapshot (buildAtsWorkloadProfiles (enabled_boards snapshot) now) now (db_companies db))"
    and "rt_after report = mr_days st" "rt_reviewDue report = review_due iso_text db now" "rt_appliedMoves report = mr_applied st"
    and "rt_reviewOutcome report = (if \<not> review_due iso_text db now then NotDue
       else if rt_moves report \<noteq> [] \<and> mr_applied st = [] then Deferred else Complete)"
    and "rt_appliedVarianceImprovement report = gained" "rt_writesPerformed report = length (mr_applied st) + 2"
    and "db_companies db' = mr_rows st"
    and "db_state db' = Some \<lparr>bs_days = mr_days st, bs_profiles = buildAtsWorkloadProfiles (enabled_boards snapshot) now,
       bs_refreshedAt = now, bs_lastRebalancedAt = next_rebalanced (db_state db) (review_due iso_text db now)
         (review_due iso_text db now \<and> rt_moves report \<noteq> [] \<and> mr_applied st = []) (prior_incomplete iso_text db) now\<rparr>"
    and "db_runs db' = db_runs db @ [\<lparr>br_createdAt = db_now, br_report = report_json iso_text report\<rparr>]"
proof -
  have P: "pl_profiles (planAtsRotationWorkload loc wall snapshot now) = buildAtsWorkloadProfiles (enabled_boards snapshot) now"
    by (simp add: planAtsRotationWorkload_def Let_def split: prod.split)
  obtain st rolledBack gained where k: "kept_moves open_work now (pl_moves (planAtsRotationWorkload loc wall snapshot now))
      (review_due iso_text db now)
      (days_of (current_costs snapshot (buildAtsWorkloadProfiles (enabled_boards snapshot) now) now (db_companies db)))
      (db_companies db) = (st, rolledBack, gained)"
    by (metis prod_cases3)
  note r = assms [unfolded reviewAtsRotationWorkload_def Let_def P k prod.case]
  have c: "(\<not> apply_it) = False" "(case newest_run (db_runs db) of None \<Rightarrow> False | Some r \<Rightarrow> now < br_createdAt r) = False"
    using r by (auto split: if_splits)
  note r = r [unfolded c if_False prod.inject review_result.inject]
  show ?thesis by (rule that [OF k]; unfold conjunct1 [OF r, symmetric] conjunct2 [OF r, symmetric]) simp_all
qed

lemma review_runs:
  assumes "newest_run (db_runs db) = None"
  shows "\<exists>report db'. reviewAtsRotationWorkload loc wall iso_text open_work db_now snapshot True now db = (Reviewed report, db')"
proof -
  let ?plan = "planAtsRotationWorkload loc wall snapshot now"
  obtain st rolledBack gained where "kept_moves open_work now (pl_moves ?plan) (review_due iso_text db now)
      (days_of (current_costs snapshot (pl_profiles ?plan) now (db_companies db))) (db_companies db) = (st, rolledBack, gained)"
    by (metis prod_cases3)
  then show ?thesis using assms by (simp add: reviewAtsRotationWorkload_def Let_def)
qed

section \<open>The clock of the reviews\<close>

lemma newest_run_last:
  assumes "\<forall>r \<in> set runs. br_createdAt r < br_createdAt new"
  shows "newest_run (runs @ [new]) = Some new"
proof -
  let ?cmp = "desc_cmp (key_cmp br_createdAt num_cmp) :: balance_run cmp"
  have cmp: "comparator ?cmp" by (intro comparator_desc comparator_key comparator_num)
  obtain r rs where r: "js_sort ?cmp (runs @ [new]) = r # rs"
    by (cases "js_sort ?cmp (runs @ [new])") auto
  then have "r \<in> set (runs @ [new])" by (rule js_sort_eq_Cons_in)
  moreover have "br_createdAt new \<le> br_createdAt r"
    using comparator.js_sort_hd_least [OF cmp r, of new] by (simp add: desc_cmp_def key_cmp_def num_cmp_def)
  ultimately have "r = new" using assms by force
  with r show ?thesis by (simp add: newest_run_def)
qed

text \<open>A saved report is read back as an incomplete one exactly when its review was deferred.\<close>

lemma incomplete_report:
  assumes "rt_reviewOutcome report = Deferred \<longrightarrow> rt_reviewDue report \<and> rt_moves report \<noteq> [] \<and> rt_appliedMoves report = []
      \<and> rt_appliedVarianceImprovement report = 0 \<and> rt_writesPerformed report = 2"
  shows "atsRotationReviewWasIncomplete iso_text (Some (report_json iso_text report)) (rt_observedAt report)
    \<longleftrightarrow> rt_reviewOutcome report = Deferred"
  using assms by (cases "rt_reviewOutcome report")
    (auto simp: atsRotationReviewWasIncomplete_def report_json_def is_json_list_def)

section \<open>Properties\<close>

text \<open>C39. A review changes nothing but the schedule of idle boards: every row of the catalogue is as it was or
  was taken by a move of the plan while it was active, healthy and without open work, and its new check
  is not later than the one it had, not within a day and not within four days of its last collection.\<close>

theorem review_moves_only_idle_boards:
  assumes "distinct (map (\<lambda>b. (bd_slug b, bd_platform b)) snapshot)"
    and "distinct (map (\<lambda>c. (bd_slug c, bd_platform c)) (db_companies db))"
    and "reviewAtsRotationWorkload loc wall iso_text open_work db_now snapshot apply_it now db = (Reviewed report, db')"
  shows "list_all2 (\<lambda>c c'. c' = c \<or> (\<exists>m \<in> set (rt_appliedMoves report). c' = moved_row now m c
      \<and> m \<in> set (rt_moves report) \<and> co_status c = ''active'' \<and> co_failCount c = 0 \<and> co_retryCount c = 0 \<and> \<not> open_work c
      \<and> co_nextCheckDate c' \<le> co_nextCheckDate c \<and> now + day_ms \<le> co_nextCheckDate c'
      \<and> (\<forall>t. co_lastProcessedAt c = Some t \<longrightarrow> t + 4 * day_ms \<le> co_nextCheckDate c')))
    (db_companies db) (db_companies db')"
proof -
  from assms(3) obtain st rolledBack gained where r:
    "kept_moves open_work now (pl_moves (planAtsRotationWorkload loc wall snapshot now)) (review_due iso_text db now)
       (days_of (current_costs snapshot (buildAtsWorkloadProfiles (enabled_boards snapshot) now) now (db_companies db))) (db_companies db)
       = (st, rolledBack, gained)"
    "rt_moves report = pl_moves (planAtsRotationWorkload loc wall snapshot now)" "rt_appliedMoves report = mr_applied st"
    "db_companies db' = mr_rows st"
    by (rule reviewed)
  have fit: "\<forall>m \<in> set (pl_moves (planAtsRotationWorkload loc wall snapshot now)).
      fits snapshot (buildAtsWorkloadProfiles (enabled_boards snapshot) now) now m"
    using plan_fits [OF assms(1)] by blast
  note kept = kept_moves_effect [OF assms(2) fit r(1)]
  have "mv_nextCheckDate m \<le> co_nextCheckDate c \<and> now + day_ms \<le> mv_nextCheckDate m
      \<and> (\<forall>t. co_lastProcessedAt c = Some t \<longrightarrow> t + 4 * day_ms \<le> mv_nextCheckDate m)"
    if m: "m \<in> set (mr_applied st)" and c: "selected (move_filter open_work now m c)" for m c
  proof -
    have "m \<in> set (pl_moves (planAtsRotationWorkload loc wall snapshot now))" using kept(3) m by blast
    from plan_move [OF assms(1) this] obtain b processed where b:
      "m = move_of (next_slots wall now) b (mv_workerMs m) (mv_toDay m)" "slot_allowed now b (mv_nextCheckDate m)"
      "wb_lastProcessedAt b = Some processed" by metis
    have "mv_fromNextCheckDate m = wb_nextCheckDate b" "mv_lastProcessedAt m = processed"
      by (subst b(1), simp add: move_of_def b(3))+
    then show ?thesis
      using b(2,3) c by (simp add: move_selected slot_allowed_def MINIMUM_NOTICE_MS_def MINIMUM_CYCLE_GAP_MS_def)
  qed
  then show ?thesis
    using kept(2,3) unfolding r(2-4)
    by (elim list_all2_mono) (auto simp: row_step_def move_selected moved_row_def)
qed

text \<open>C40. What a review saves is the state of the catalogue it leaves: the days it stores, from which
  discovery reserves, are the days of the boards as they are now scheduled, and when it moved anything
  their variance is at least a twentieth below what it was.\<close>

theorem review_saves_the_catalogue:
  assumes "distinct (map (\<lambda>b. (bd_slug b, bd_platform b)) snapshot)"
    and "distinct (map (\<lambda>c. (bd_slug c, bd_platform c)) (db_companies db))"
    and "reviewAtsRotationWorkload loc wall iso_text open_work db_now snapshot apply_it now db = (Reviewed report, db')"
  shows "\<exists>s. db_state db' = Some s
    \<and> bs_days s = days_of (current_costs snapshot (bs_profiles s) now (db_companies db'))
    \<and> (rt_appliedMoves report \<noteq> [] \<longrightarrow>
        variance (bs_days s) \<le> 19 / 20 * variance (days_of (current_costs snapshot (bs_profiles s) now (db_companies db))))"
proof -
  let ?P = "buildAtsWorkloadProfiles (enabled_boards snapshot) now"
  from assms(3) obtain st rolledBack gained where r:
    "kept_moves open_work now (pl_moves (planAtsRotationWorkload loc wall snapshot now)) (review_due iso_text db now)
       (days_of (current_costs snapshot ?P now (db_companies db))) (db_companies db) = (st, rolledBack, gained)"
    "rt_appliedMoves report = mr_applied st" "db_companies db' = mr_rows st"
    "db_state db' = Some \<lparr>bs_days = mr_days st, bs_profiles = ?P,
       bs_refreshedAt = now, bs_lastRebalancedAt = next_rebalanced (db_state db) (review_due iso_text db now)
         (review_due iso_text db now \<and> rt_moves report \<noteq> [] \<and> mr_applied st = []) (prior_incomplete iso_text db) now\<rparr>"
    by (rule reviewed)
  have fit: "\<forall>m \<in> set (pl_moves (planAtsRotationWorkload loc wall snapshot now)). fits snapshot ?P now m"
    using plan_fits [OF assms(1)] by blast
  from kept_moves_effect [OF assms(2) fit r(1)] show ?thesis by (simp add: r(2-4))
qed

text \<open>The clock of the reviews: a review that was due and could apply nothing is due again at every later
  time, a complete one is due again after seven days and not before, and a refresh between them leaves
  the clock alone.\<close>

theorem review_clock:
  assumes "reviewAtsRotationWorkload loc wall iso_text open_work db_now snapshot apply_it now db = (Reviewed report, db')"
    and "\<forall>r \<in> set (db_runs db). br_createdAt r < db_now"
  shows "case rt_reviewOutcome report of
      Deferred \<Rightarrow> \<forall>later \<ge> now. review_due iso_text db' later
    | Complete \<Rightarrow> \<forall>later. review_due iso_text db' later \<longleftrightarrow> 7 * day_ms \<le> later - now
    | NotDue \<Rightarrow> last_rebalanced (db_state db') = last_rebalanced (db_state db)"
proof -
  from assms(1) obtain st :: move_round where r: "rt_observedAt report = now"
    "rt_reviewOutcome report = (if \<not> review_due iso_text db now then NotDue
       else if rt_moves report \<noteq> [] \<and> mr_applied st = [] then Deferred else Complete)"
    "db_state db' = Some \<lparr>bs_days = mr_days st, bs_profiles = buildAtsWorkloadProfiles (enabled_boards snapshot) now,
       bs_refreshedAt = now, bs_lastRebalancedAt = next_rebalanced (db_state db) (review_due iso_text db now)
         (review_due iso_text db now \<and> rt_moves report \<noteq> [] \<and> mr_applied st = []) (prior_incomplete iso_text db) now\<rparr>"
    "db_runs db' = db_runs db @ [\<lparr>br_createdAt = db_now, br_report = report_json iso_text report\<rparr>]"
    by (rule reviewed)
  have last: "last_rebalanced (db_state db') = next_rebalanced (db_state db) (review_due iso_text db now)
      (review_due iso_text db now \<and> rt_moves report \<noteq> [] \<and> mr_applied st = []) (prior_incomplete iso_text db) now"
    by (simp add: r(3) last_rebalanced_def)
  show ?thesis
  proof (cases "rt_reviewOutcome report")
    case NotDue
    then have "\<not> review_due iso_text db now" using r(2) by (auto split: if_splits)
    then have "last_rebalanced (db_state db') = last_rebalanced (db_state db)"
      unfolding last by (cases "db_state db") (auto simp: review_due_def last_rebalanced_def next_rebalanced_def split: option.splits)
    then show ?thesis by (simp add: NotDue)
  next
    case Deferred
    then have due: "review_due iso_text db now" and d: "rt_moves report \<noteq> [] \<and> mr_applied st = []"
      using r(2) by (auto split: if_splits)
    have "last_rebalanced (db_state db') = None \<or>
        (\<exists>t. last_rebalanced (db_state db') = Some t \<and> REVIEW_INTERVAL_MS \<le> now - t)"
      using due d unfolding last
      by (cases "db_state db") (auto simp: review_due_def last_rebalanced_def next_rebalanced_def split: option.splits)
    then show ?thesis by (auto simp: Deferred review_due_def)
  next
    case Complete
    then have due: "review_due iso_text db now" and d: "\<not> (rt_moves report \<noteq> [] \<and> mr_applied st = [])"
      using r(2) by (auto split: if_splits)
    have now: "last_rebalanced (db_state db') = Some now"
      using due d unfolding last by (auto simp: next_rebalanced_def split: option.splits)
    have "json_field (Some (report_json iso_text report)) ''observedAt'' = Some (JStr (iso_text now))"
      by (simp add: report_json_def r(1))
    then have "prior_review iso_text (db_runs db') now = Some \<lparr>br_createdAt = db_now, br_report = report_json iso_text report\<rparr>"
      using assms(2) by (simp add: prior_review_def r(4) newest_run_last)
    moreover have "\<not> atsRotationReviewWasIncomplete iso_text (Some (report_json iso_text report)) now"
      using incomplete_report [of report iso_text] Complete by (simp add: r(1))
    ultimately have "\<not> prior_incomplete iso_text db'" by (simp add: prior_incomplete_def now)
    then show ?thesis by (simp add: Complete review_due_def now REVIEW_INTERVAL_MS_def)
  qed
qed

section \<open>The review of the sample catalogue\<close>

definition sample_company :: "workload_board \<Rightarrow> company" where
  "sample_company b = \<lparr>bd_slug = bd_slug b, bd_platform = bd_platform b, bd_checkDay = bd_checkDay b,
     co_jobsFound = wb_jobsFound b, co_status = ''active'', co_failCount = 0, co_retryCount = 0,
     co_nextCheckDate = wb_nextCheckDate b, co_lastProcessedAt = wb_lastProcessedAt b, co_rotationMovedAt = None\<rparr>"

definition sample_db :: rotation_db where
  "sample_db = \<lparr>db_companies = map sample_company sample_catalogue, db_state = None, db_runs = []\<rparr>"

definition sample_move :: rotation_move where
  "sample_move = move_of (map sample_opening [18004, 18001, 18002, 18003]) (sample_large ''acme'') 1000000 2"

lemma sample_planned_move: "pl_moves (planAtsRotationWorkload code_unit_cmp sample_wall sample_catalogue sample_now) = [sample_move]"
  unfolding sample_move_def by (rule sample_rotation_plan)

lemma sample_company_ids: "map (\<lambda>c. (bd_slug c, bd_platform c)) (map sample_company bs) = map (\<lambda>b. (bd_slug b, bd_platform b)) bs"
  by (simp add: sample_company_def)

lemma sample_counted: "filter counted (map sample_company sample_catalogue) = map sample_company sample_catalogue"
proof (intro filter_True ballI)
  fix c assume "c \<in> set (map sample_company sample_catalogue)"
  then obtain b where b: "b \<in> set (enabled_boards sample_catalogue)" "c = sample_company b" by (auto simp: sample_enabled)
  have "isAtsBoardEnabledForIngestion c"
    using b enabled_cong [of c b] by (simp add: sample_company_def enabled_boards_def)
  then show "counted c"
    using b enabled_is_api [of c] by (simp add: counted_def sample_company_def enabled_boards_def)
qed

lemma sample_current: "days_of (current_costs sample_catalogue (buildAtsWorkloadProfiles (enabled_boards sample_catalogue) sample_now)
    sample_now (db_companies sample_db)) = sample_days 14 2240000 12 240000"
proof -
  let ?P = "buildAtsWorkloadProfiles (enabled_boards sample_catalogue) sample_now"
  have "current_cost sample_catalogue ?P sample_now (sample_company b) = fst (estimateAtsBoardWorkload b ?P sample_now)"
    if "b \<in> set sample_catalogue" for b
    using map_of_last_unique [OF sample_distinct that] by (simp add: current_cost_def sample_company_def)
  moreover have "board_of (sample_company b) = board_of b" for b by (simp add: board_of_def sample_company_def)
  ultimately have "current_costs sample_catalogue ?P sample_now (db_companies sample_db)
      = map (\<lambda>e. (board_of (fst e), snd e)) (board_costs sample_catalogue sample_now)"
    by (simp add: current_costs_def sample_db_def sample_counted board_costs_def sample_enabled)
  moreover have "on_day d (board_of b) = on_day d b" for d and b :: workload_board
    by (simp add: on_day_def home_day_def isDailyAtsBoard_def board_of_def)
  then have "share (\<lambda>e. 1) d (map (\<lambda>e. (board_of (fst e), snd e)) es) = share (\<lambda>e. 1 :: int) d es"
    "share snd d (map (\<lambda>e. (board_of (fst e), snd e)) es) = share snd d es" for d and es :: "(workload_board \<times> rat) list"
    by (induction es) simp_all
  ultimately show ?thesis
    by (simp add: days_of_sum empty_days_eq day_sum_def load_day_def sample_share sample_days_def)
qed

lemma sample_kept: "\<exists>st. kept_moves (\<lambda>c. False) sample_now [sample_move] True (sample_days 14 2240000 12 240000) (db_companies sample_db)
    = (st, 0, 2 / 3) \<and> mr_applied st = [sample_move]"
proof -
  let ?hit = "\<lambda>c. selected (move_filter (\<lambda>c. False) sample_now sample_move c)"
  have "?hit (sample_company (sample_large ''acme''))"
    by (simp add: move_selected sample_move_def move_of_def sample_company_def sample_large_def)
  then have hit: "filter ?hit (db_companies sample_db) \<noteq> []"
    by (simp add: sample_db_def sample_catalogue_def)
  have facts: "TRIGGER_DEVIATION < maxDeviation (sample_days 14 2240000 12 240000)"
    "move_limit 50 = 1" "variance (sample_days 14 2240000 12 240000) = 3000000000000"
    "variance (sample_days 13 1240000 13 1240000) = 1000000000000"
    by code_simp+
  have days: "move_load 0 2 1000000 (sample_days 14 2240000 12 240000) = sample_days 13 1240000 13 1240000"
    by (simp add: move_load_def sample_days_def load_day_def)
  have m: "mv_fromDay sample_move = 0" "mv_toDay sample_move = 2" "mv_workerMs sample_move = 1000000"
    by (simp_all add: sample_move_def move_of_def sample_large_def)
  have boards: "sum_list (map wd_boards (sample_days 14 2240000 12 240000)) = 50" by (simp add: sample_days_def)
  have loads: "load_at (sample_days 14 2240000 12 240000) 0 = 2240000" "load_at (sample_days 14 2240000 12 240000) 2 = 240000"
    by (simp_all add: load_at_def sample_days_def)
  show ?thesis
    unfolding kept_moves_def Let_def boards
    by (simp add: facts hit m days loads MINIMUM_VARIANCE_IMPROVEMENT_def ATS_API_ROTATION_DAYS_def)
qed

lemma sample_review: "\<exists>report db'.
    reviewAtsRotationWorkload code_unit_cmp sample_wall (\<lambda>t. []) (\<lambda>c. False) sample_now sample_catalogue True sample_now sample_db
      = (Reviewed report, db')
    \<and> rt_appliedMoves report = [sample_move] \<and> rt_reviewOutcome report = Complete"
proof -
  obtain report db' where r: "reviewAtsRotationWorkload code_unit_cmp sample_wall (\<lambda>t. []) (\<lambda>c. False) sample_now sample_catalogue
      True sample_now sample_db = (Reviewed report, db')"
    using review_runs [of sample_db] by (force simp: sample_db_def newest_run_def)
  obtain st where k: "kept_moves (\<lambda>c. False) sample_now [sample_move] True (sample_days 14 2240000 12 240000) (db_companies sample_db)
      = (st, 0, 2 / 3)" "mr_applied st = [sample_move]" using sample_kept by blast
  have due: "review_due (\<lambda>t. []) sample_db sample_now" by (simp add: review_due_def last_rebalanced_def sample_db_def)
  from r have "rt_appliedMoves report = [sample_move] \<and> rt_reviewOutcome report = Complete"
    by (rule reviewed) (use k due in \<open>simp add: sample_planned_move sample_current\<close>)
  with r show ?thesis by blast
qed

lemma sample_db_distinct: "distinct (map (\<lambda>c. (bd_slug c, bd_platform c)) (db_companies sample_db))"
  unfolding sample_db_def rotation_db.select_convs sample_company_ids by (rule sample_distinct)

theorem review_moves_only_idle_boards_witness:
  "\<exists>report db'. reviewAtsRotationWorkload code_unit_cmp sample_wall (\<lambda>t. []) (\<lambda>c. False) sample_now sample_catalogue True
      sample_now sample_db = (Reviewed report, db')
    \<and> rt_appliedMoves report = [sample_move] \<and> co_nextCheckDate (hd (db_companies db')) \<le> sample_opening 18004"
proof -
  from sample_review obtain report db' where r: "reviewAtsRotationWorkload code_unit_cmp sample_wall (\<lambda>t. []) (\<lambda>c. False) sample_now
      sample_catalogue True sample_now sample_db = (Reviewed report, db')" "rt_appliedMoves report = [sample_move]" by blast
  have rows: "db_companies sample_db = sample_company (sample_large ''acme'') # map sample_company (tl sample_catalogue)"
    by (simp add: sample_db_def sample_catalogue_def)
  obtain c' cs where c: "db_companies db' = c' # cs"
      "co_nextCheckDate c' \<le> co_nextCheckDate (sample_company (sample_large ''acme''))"
    using review_moves_only_idle_boards [OF sample_distinct sample_db_distinct r(1), unfolded rows list_all2_Cons1] by auto
  with r show ?thesis by (simp add: sample_company_def sample_large_def)
qed

theorem review_saves_the_catalogue_witness:
  "\<exists>report db' s. reviewAtsRotationWorkload code_unit_cmp sample_wall (\<lambda>t. []) (\<lambda>c. False) sample_now sample_catalogue True
      sample_now sample_db = (Reviewed report, db')
    \<and> rt_appliedMoves report = [sample_move] \<and> db_state db' = Some s \<and> variance (bs_days s) \<le> 2850000000000"
proof -
  from sample_review obtain report db' where r: "reviewAtsRotationWorkload code_unit_cmp sample_wall (\<lambda>t. []) (\<lambda>c. False) sample_now
      sample_catalogue True sample_now sample_db = (Reviewed report, db')" "rt_appliedMoves report = [sample_move]" by blast
  from r(1) have "map_option bs_profiles (db_state db') = Some (buildAtsWorkloadProfiles (enabled_boards sample_catalogue) sample_now)"
    by (rule reviewed) simp
  moreover from review_saves_the_catalogue [OF sample_distinct sample_db_distinct r(1)] r(2) obtain s where
    "db_state db' = Some s"
    "variance (bs_days s) \<le> 19 / 20 * variance (days_of (current_costs sample_catalogue (bs_profiles s) sample_now (db_companies sample_db)))"
    by auto
  moreover have "variance (sample_days 14 2240000 12 240000) = 3000000000000" by code_simp
  ultimately show ?thesis using r by (auto simp: sample_current)
qed

theorem review_clock_witness:
  "\<exists>report db'. reviewAtsRotationWorkload code_unit_cmp sample_wall (\<lambda>t. []) (\<lambda>c. False) sample_now sample_catalogue True
      sample_now sample_db = (Reviewed report, db')
    \<and> \<not> review_due (\<lambda>t. []) db' (sample_now + 6 * day_ms) \<and> review_due (\<lambda>t. []) db' (sample_now + 7 * day_ms)"
proof -
  from sample_review obtain report db' where r: "reviewAtsRotationWorkload code_unit_cmp sample_wall (\<lambda>t. []) (\<lambda>c. False) sample_now
      sample_catalogue True sample_now sample_db = (Reviewed report, db')" "rt_reviewOutcome report = Complete" by blast
  have "\<forall>later. review_due (\<lambda>t. []) db' later \<longleftrightarrow> 7 * day_ms \<le> later - sample_now"
    using review_clock [OF r(1)] r(2) by (simp add: sample_db_def)
  with r show ?thesis by (auto simp: day_ms_def)
qed

end
