(* ===== verification/Ledger_State.thy ===== *)
theory Ledger_State
  imports Compaction Rotation_Calendar Lease
begin

text \<open>
  The rows of the acquisition ledger (\<open>src/lib/atsAcquisitionLedger.ts\<close>) and the claim under which a
  worker writes to a batch: granting, renewing and checking it, and the receipts of the requests
  sent to the board.

  \<^item> A \<open>batch_ledger\<close> is a batch with the rows of its child tables, which every query of the source
    selects by the batch. A generated row identifier is replaced by the unique key the schema gives the
    row: a page by its generation and offset, an observation by its page and ordinal, an item and a
    segment by their ordinal. Claim tokens and receipt identifiers are arguments.
  \<^item> A transaction maps the ledger to an error or to a result with the new ledger; an error rolls it
    back. The transactions are serializable, so each is one step.
  \<^item> What the host provides is the record \<open>host\<close>: the digest, the number printer, the collation, the
    environment (\<open>Number.parseInt\<close> of a variable where it is a safe integer), the local reading of
    an instant (see \<open>Rotation_Calendar\<close>) and the ISO text of an instant.
\<close>

record host =
  h_sha :: "string \<Rightarrow> string"
  h_num :: "rat \<Rightarrow> string"
  h_collate :: "string cmp"
  h_env :: "string \<Rightarrow> int option"
  h_wall :: "ms \<Rightarrow> ms"
  h_text :: "ms \<Rightarrow> string"

type_synonym job = "(string \<times> json) list"

section \<open>Constants and hashes\<close>

definition boundedEnvironmentInteger :: "int option \<Rightarrow> int \<Rightarrow> int \<Rightarrow> int \<Rightarrow> int" where
  "boundedEnvironmentInteger parsed fallback minimum maximum =
     min maximum (max minimum (case parsed of Some n \<Rightarrow> n | None \<Rightarrow> fallback))"

definition ATS_LEDGER_VERSION :: nat where "ATS_LEDGER_VERSION = 2"

definition ATS_LEDGER_OBSERVATION_CHUNK_SIZE :: "host \<Rightarrow> nat" where
  "ATS_LEDGER_OBSERVATION_CHUNK_SIZE h =
     nat (boundedEnvironmentInteger (h_env h ''ATS_LEDGER_OBSERVATION_CHUNK_SIZE'') 250 25 1000)"

definition ATS_LEDGER_MARKER_CHUNK_SIZE :: "host \<Rightarrow> nat" where
  "ATS_LEDGER_MARKER_CHUNK_SIZE h =
     nat (boundedEnvironmentInteger (h_env h ''ATS_LEDGER_MARKER_CHUNK_SIZE'') 250 25 1000)"

definition ATS_LEDGER_WORK_LEASE_MS :: "host \<Rightarrow> ms" where
  "ATS_LEDGER_WORK_LEASE_MS h =
     boundedEnvironmentInteger (h_env h ''ATS_LEDGER_WORK_LEASE_MS'') 180000 60000 600000"

definition ATS_LEDGER_SEGMENT_LEASE_MS :: "host \<Rightarrow> ms" where
  "ATS_LEDGER_SEGMENT_LEASE_MS h =
     boundedEnvironmentInteger (h_env h ''ATS_LEDGER_SEGMENT_LEASE_MS'') 1800000 60000 21600000"

definition ATS_LEDGER_QUANTUM_SOFT_MS :: "host \<Rightarrow> ms" where
  "ATS_LEDGER_QUANTUM_SOFT_MS h =
     boundedEnvironmentInteger (h_env h ''ATS_LEDGER_QUANTUM_SOFT_MS'') 45000 10000 120000"

lemma observation_chunk_pos [simp]: "0 < ATS_LEDGER_OBSERVATION_CHUNK_SIZE h"
  by (simp add: ATS_LEDGER_OBSERVATION_CHUNK_SIZE_def boundedEnvironmentInteger_def)

lemma work_lease_pos: "0 < ATS_LEDGER_WORK_LEASE_MS h"
  by (simp add: ATS_LEDGER_WORK_LEASE_MS_def boundedEnvironmentInteger_def)

text \<open>\<open>canonicalJson\<close> of the evidence hashes: the members of every object in the order of the
  collation. \<open>atsLedgerHash\<close> is the digest of its text.\<close>

fun sorted_json :: "string cmp \<Rightarrow> json \<Rightarrow> json"
  and sorted_items :: "string cmp \<Rightarrow> json list \<Rightarrow> json list"
  and sorted_members :: "string cmp \<Rightarrow> (string \<times> json) list \<Rightarrow> (string \<times> json) list" where
  "sorted_json c (JArr xs) = JArr (sorted_items c xs)"
| "sorted_json c (JObj kvs) = JObj (js_sort (key_cmp fst c) (sorted_members c kvs))"
| "sorted_json c v = v"
| "sorted_items c [] = []"
| "sorted_items c (x # xs) = sorted_json c x # sorted_items c xs"
| "sorted_members c [] = []"
| "sorted_members c ((k, v) # kvs) = (k, sorted_json c v) # sorted_members c kvs"

definition ledger_text :: "host \<Rightarrow> json \<Rightarrow> string" where
  "ledger_text h v = plain (h_num h) (sorted_json (h_collate h) v)"

definition atsLedgerHash :: "host \<Rightarrow> json \<Rightarrow> string" where
  "atsLedgerHash h v = h_sha h (ledger_text h v)"

text \<open>\<open>Buffer.byteLength(s, 'utf8')\<close> of text of the modelled code units.\<close>

definition utf8_bytes :: "string \<Rightarrow> nat" where
  "utf8_bytes s = sum_list (map (\<lambda>c. if (of_char c :: nat) < 128 then 1 else 2) s)"

definition json_object :: "json option \<Rightarrow> job" where
  "json_object v = (case v of Some (JObj kvs) \<Rightarrow> kvs | _ \<Rightarrow> [])"

section \<open>Rows\<close>

type_synonym page_key = "nat \<times> nat"
type_synonym observation_key = "page_key \<times> nat"

record batch_row =
  b_id :: string
  b_slug :: string
  b_platform :: string
  b_writerMode :: string
  b_ledgerVersion :: nat
  b_activeLedgerGeneration :: nat
  b_acquisitionPhase :: string
  b_status :: string
  b_listingGeneration :: nat
  b_listingOffset :: nat
  b_latestObservedTotal :: "int option"
  b_listingCompletedAt :: "ms option"
  b_rawObservationCount :: nat
  b_canonicalOccurrenceCount :: nat
  b_compactedOccurrenceCount :: nat
  b_terminalItemCount :: nat
  b_sealedItemCount :: nat
  b_publishedItemCount :: nat
  b_acquisitionBytes :: nat
  b_segmentSize :: nat
  b_manifestHash :: "string option"
  b_synchronizedAt :: "ms option"
  b_processedAt :: "ms option"
  b_operatorResetAt :: "ms option"
  b_claimToken :: "string option"
  b_claimOwner :: "string option"
  b_claimFence :: nat
  b_claimHeartbeatAt :: "ms option"
  b_claimExpiresAt :: "ms option"
  b_nextAcquireAt :: "ms option"
  b_lastServedAt :: "ms option"
  b_lastError :: "string option"

record page =
  p_generation :: nat
  p_requestedOffset :: nat
  p_requestedLimit :: nat
  p_providerOffset :: "int option"
  p_providerTotal :: "int option"
  p_responseItemCount :: nat
  p_responseHash :: string
  p_identityMultisetHash :: string
  p_metadata :: job
  p_rawBody :: "json option"
  p_rawBodyHash :: string
  p_rawBodyBytes :: nat
  p_materializationOffset :: nat
  p_requestedAt :: ms
  p_respondedAt :: ms
  p_httpStatus :: int
  p_completeAt :: "ms option"

record observation =
  o_page :: page_key
  o_pageOrdinal :: nat
  o_providerSourceId :: "string option"
  o_rawHash :: string
  o_rawJson :: json
  o_observedAt :: ms

text \<open>A resolution names the item an observation became, if any.\<close>

record resolution =
  r_observation :: observation_key
  r_item :: "nat option"
  r_type :: string
  r_occurrenceKey :: string
  r_detail :: json
  r_hash :: string

record item =
  i_ordinal :: nat
  i_observation :: observation_key
  i_providerSourceId :: "string option"
  i_rawHash :: string
  i_overlay :: "json option"
  i_version :: "nat option"
  i_status :: string
  i_reason :: "string option"
  i_terminalAt :: "ms option"
  i_nextDetailAt :: "ms option"
  i_retryCode :: "string option"
  i_retryScope :: "string option"
  i_detailError :: "string option"
  i_detailAttemptCount :: nat
  i_claimToken :: "string option"
  i_claimOwner :: "string option"
  i_claimFence :: nat
  i_claimExpiresAt :: "ms option"

record segment =
  s_ordinal :: nat
  s_firstOrdinal :: nat
  s_lastOrdinal :: int
  s_itemCount :: nat
  s_segmentSize :: nat
  s_manifestHash :: string
  s_status :: string
  s_sealedAt :: ms
  s_publishedAt :: "ms option"
  s_processedAt :: "ms option"
  s_processingOffset :: nat
  s_inserted :: nat
  s_duplicates :: nat
  s_filtered :: nat
  s_processingErrors :: nat
  s_holdReason :: "string option"
  s_retryCode :: "string option"
  s_retryScope :: "string option"
  s_nextProcessAt :: "ms option"
  s_leaseToken :: "string option"
  s_leaseOwner :: "string option"
  s_leaseFence :: nat
  s_heartbeatAt :: "ms option"
  s_leaseExpiresAt :: "ms option"

record work_receipt =
  w_id :: string
  w_workType :: string
  w_startGeneration :: nat
  w_startListingOffset :: nat
  w_endGeneration :: "nat option"
  w_endListingOffset :: "nat option"
  w_listingRequestCount :: nat
  w_detailRequestCount :: nat
  w_itemsInspected :: nat
  w_itemsTerminalized :: nat
  w_itemsProgressed :: nat
  w_startedAt :: ms
  w_heartbeatAt :: "ms option"
  w_finishedAt :: "ms option"
  w_leaseOwner :: string
  w_leaseToken :: string
  w_leaseFence :: nat
  w_leaseExpiresAt :: "ms option"
  w_yieldReason :: "string option"
  w_checkpointHash :: "string option"
  w_transactionPhase :: "string option"
  w_failureScope :: "string option"
  w_error :: "string option"
  w_adoptedCheckpoint :: bool
  w_ambiguousDispatch :: bool

record sweep_receipt =
  sw_id :: string
  sw_state :: string
  sw_dispatchIntentAt :: "ms option"
  sw_contactConfirmedAt :: "ms option"
  sw_respondedAt :: "ms option"
  sw_synchronizedAt :: "ms option"
  sw_processedAt :: "ms option"
  sw_outcome :: "string option"

record contact_receipt =
  dc_localDay :: int
  dc_contactKind :: string
  dc_contactConfirmedAt :: ms
  dc_sweepId :: "string option"
  dc_workReceiptId :: string

record board_row =
  co_status :: string
  co_checkDay :: int
  co_failCount :: nat
  co_retryCount :: nat
  co_jobsFound :: nat
  co_nextCheckDate :: ms
  co_lastAttemptedAt :: "ms option"
  co_lastRespondedAt :: "ms option"
  co_lastCheckedAt :: "ms option"
  co_lastSynchronizedAt :: "ms option"
  co_lastProcessedAt :: "ms option"

record batch_ledger =
  bl_row :: batch_row
  bl_pages :: "page list"
  bl_observations :: "observation list"
  bl_resolutions :: "resolution list"
  bl_items :: "item list"
  bl_segments :: "segment list"
  bl_receipts :: "work_receipt list"
  bl_sweep :: "sweep_receipt option"
  bl_contacts :: "contact_receipt list"
  bl_board :: board_row

datatype ledger_error =
    LostClaim
  | NotListing
  | DivergentPage nat nat
  | OffsetMismatch nat nat
  | LostPageFence
  | LostSavedEndFence
  | RecordMissing
  | RawPageInvalid page_key
  | CountsDoNotReconcile
  | ObservationWithoutJson
  | RawEvidenceDivergent nat
  | MarkerMissing
  | LostItemFence nat
  | SegmentIncomplete nat
  | RotationDayInvalid rotation_error
  | ManifestIncomplete nat
  | ManifestChanged nat
  | NotVersionTwo
  | CountersDoNotMatchCursor
  | TurnDidNotReconcile
  | SelectionChanged

text \<open>A failed transaction leaves the ledger as it was.\<close>

definition after :: "'s \<Rightarrow> 'e + 'r \<times> 's \<Rightarrow> 's" where
  "after L r = (case r of Inl e \<Rightarrow> L | Inr (x, L') \<Rightarrow> L')"

lemma after_simps [simp]: "after L (Inl e) = L" "after L (Inr (x, L')) = L'"
  by (simp_all add: after_def)

text \<open>\<open>updateMany\<close> on a list of rows.\<close>

definition update_where :: "('a \<Rightarrow> bool) \<Rightarrow> ('a \<Rightarrow> 'a) \<Rightarrow> 'a list \<Rightarrow> 'a list" where
  "update_where P f xs = map (\<lambda>x. if P x then f x else x) xs"

definition count_where :: "('a \<Rightarrow> bool) \<Rightarrow> 'a list \<Rightarrow> nat" where
  "count_where P xs = length (filter P xs)"

lemma update_where_Nil [simp]: "update_where P f [] = []"
  by (simp add: update_where_def)

lemma update_where_Cons [simp]: "update_where P f (x # xs) = (if P x then f x else x) # update_where P f xs"
  by (simp add: update_where_def)

lemma length_update_where [simp]: "length (update_where P f xs) = length xs"
  by (simp add: update_where_def)

lemma map_update_where: "(\<And>x. g (f x) = g x) \<Longrightarrow> map g (update_where P f xs) = map g xs"
  by (simp add: update_where_def)

lemma set_update_where: "set (update_where P f xs) = (\<lambda>x. if P x then f x else x) ` set xs"
  by (simp add: update_where_def)

lemma update_where_none: "(\<And>x. x \<in> set xs \<Longrightarrow> \<not> P x) \<Longrightarrow> update_where P f xs = xs"
  by (induction xs) auto

lemma count_where_0: "count_where P xs = 0 \<longleftrightarrow> (\<forall>x \<in> set xs. \<not> P x)"
  by (simp add: count_where_def filter_empty_conv)

text \<open>\<open>update\<close> of the receipt of the claim; the update of a missing row throws.\<close>

definition update_receipt :: "string \<Rightarrow> (work_receipt \<Rightarrow> work_receipt) \<Rightarrow> 'r \<Rightarrow> batch_ledger
    \<Rightarrow> ledger_error + 'r \<times> batch_ledger" where
  "update_receipt receiptId f result L =
     (if \<exists>w \<in> set (bl_receipts L). w_id w = receiptId
      then Inr (result, L\<lparr>bl_receipts := update_where (\<lambda>w. w_id w = receiptId) f (bl_receipts L)\<rparr>)
      else Inl RecordMissing)"

section \<open>The claim of a worker on a batch\<close>

record ledger_claim =
  cl_batchId :: string
  cl_slug :: string
  cl_platform :: string
  cl_workType :: string
  cl_claimToken :: string
  cl_claimFence :: nat
  cl_workReceiptId :: string
  cl_endpointSweepId :: "string option"
  cl_listingGeneration :: nat
  cl_listingOffset :: nat
  cl_latestObservedTotal :: "int option"
  cl_acquisitionPhase :: string
  cl_segmentSize :: nat

text \<open>\<open>assertClaimMatchesBatch\<close>: true when the claim still owns the batch.\<close>

definition assertClaimMatchesBatch :: "batch_row \<Rightarrow> ledger_claim \<Rightarrow> ms \<Rightarrow> bool" where
  "assertClaimMatchesBatch b c now \<longleftrightarrow>
     b_writerMode b = ''v2''
     \<and> ATS_LEDGER_VERSION \<le> b_ledgerVersion b
     \<and> b_activeLedgerGeneration b = cl_listingGeneration c
     \<and> b_claimToken b = Some (cl_claimToken c)
     \<and> b_claimFence b = cl_claimFence c
     \<and> (case b_claimExpiresAt b of None \<Rightarrow> False | Some t \<Rightarrow> now < t)"

definition workTypeForPhase :: "string \<Rightarrow> nat \<Rightarrow> string" where
  "workTypeForPhase phase listingOffset =
     (if phase = ''listing'' then (if listingOffset = 0 then ''coverage_listing'' else ''listing_continuation'')
      else if phase = ''compaction'' then ''compaction''
      else if phase = ''enrichment'' then ''enrichment''
      else if phase = ''sealing'' then ''seal''
      else if phase = ''publishing'' \<or> phase = ''synchronized'' then ''publish''
      else phase)"

definition due_by :: "ms \<Rightarrow> ms option \<Rightarrow> bool" where
  "due_by now t = (case t of None \<Rightarrow> False | Some x \<Rightarrow> x \<le> now)"

definition later_than :: "ms \<Rightarrow> ms option \<Rightarrow> bool" where
  "later_than now t = (case t of None \<Rightarrow> False | Some x \<Rightarrow> now < x)"

definition claimable_batch :: "ms \<Rightarrow> string \<Rightarrow> batch_row \<Rightarrow> bool" where
  "claimable_batch now phase b \<longleftrightarrow>
     b_writerMode b = ''v2''
     \<and> b_platform b \<notin> set NON_API_ATS_PLATFORMS
     \<and> b_status b \<in> {''fetching'', ''partial'', ''synchronized'', ''reset_draining''}
     \<and> b_acquisitionPhase b = phase
     \<and> (b_nextAcquireAt b = None \<or> due_by now (b_nextAcquireAt b))
     \<and> (b_claimToken b = None \<or> due_by now (b_claimExpiresAt b))"

definition granted :: "host \<Rightarrow> ms \<Rightarrow> string \<Rightarrow> string \<Rightarrow> batch_row \<Rightarrow> batch_row" where
  "granted h now owner token b = b\<lparr>b_claimToken := Some token, b_claimOwner := Some owner,
     b_claimFence := b_claimFence b + 1, b_claimHeartbeatAt := Some now,
     b_claimExpiresAt := Some (now + ATS_LEDGER_WORK_LEASE_MS h), b_lastServedAt := Some now, b_nextAcquireAt := None\<rparr>"

text \<open>The update, the reading of the row and the receipt of a claim as one step; in the source they are
  separate statements when the worker has no cap.\<close>

definition claimAtsContinuationCandidate ::
  "host \<Rightarrow> ms \<Rightarrow> string \<Rightarrow> string \<Rightarrow> string \<Rightarrow> string \<Rightarrow> batch_ledger \<Rightarrow> ledger_claim option \<times> batch_ledger" where
  "claimAtsContinuationCandidate h now owner claimToken workReceiptId phase L =
     (if \<not> claimable_batch now phase (bl_row L) then (None, L)
      else
        let b = granted h now owner claimToken (bl_row L);
            workType = workTypeForPhase (b_acquisitionPhase b) (b_listingOffset b);
            receipt = \<lparr>w_id = workReceiptId, w_workType = workType, w_startGeneration = b_listingGeneration b,
              w_startListingOffset = b_listingOffset b, w_endGeneration = None, w_endListingOffset = None,
              w_listingRequestCount = 0, w_detailRequestCount = 0, w_itemsInspected = 0, w_itemsTerminalized = 0,
              w_itemsProgressed = 0, w_startedAt = now, w_heartbeatAt = Some now, w_finishedAt = None,
              w_leaseOwner = owner, w_leaseToken = claimToken, w_leaseFence = b_claimFence b,
              w_leaseExpiresAt = Some (now + ATS_LEDGER_WORK_LEASE_MS h), w_yieldReason = None, w_checkpointHash = None,
              w_transactionPhase = None, w_failureScope = None, w_error = None, w_adoptedCheckpoint = False,
              w_ambiguousDispatch = False\<rparr>
        in (Some \<lparr>cl_batchId = b_id b, cl_slug = b_slug b, cl_platform = b_platform b, cl_workType = workType,
              cl_claimToken = claimToken, cl_claimFence = b_claimFence b, cl_workReceiptId = workReceiptId,
              cl_endpointSweepId = map_option sw_id (bl_sweep L), cl_listingGeneration = b_listingGeneration b,
              cl_listingOffset = b_listingOffset b, cl_latestObservedTotal = b_latestObservedTotal b,
              cl_acquisitionPhase = b_acquisitionPhase b, cl_segmentSize = b_segmentSize b\<rparr>,
            L\<lparr>bl_row := b, bl_receipts := bl_receipts L @ [receipt]\<rparr>))"

definition fenced_batch :: "ledger_claim \<Rightarrow> batch_row \<Rightarrow> bool" where
  "fenced_batch c b \<longleftrightarrow> b_writerMode b = ''v2'' \<and> b_claimToken b = Some (cl_claimToken c) \<and> b_claimFence b = cl_claimFence c"

definition fenced_receipt :: "ledger_claim \<Rightarrow> work_receipt \<Rightarrow> bool" where
  "fenced_receipt c w \<longleftrightarrow> w_id w = cl_workReceiptId c \<and> w_leaseToken w = cl_claimToken c
     \<and> w_leaseFence w = cl_claimFence c \<and> w_finishedAt w = None"

definition renewed :: "host \<Rightarrow> ms \<Rightarrow> ledger_claim \<Rightarrow> batch_row \<Rightarrow> batch_row" where
  "renewed h now c b = (if fenced_batch c b
     then b\<lparr>b_claimHeartbeatAt := Some now, b_claimExpiresAt := Some (now + ATS_LEDGER_WORK_LEASE_MS h)\<rparr> else b)"

definition heartbeatAtsV2Claim :: "host \<Rightarrow> ms \<Rightarrow> ledger_claim \<Rightarrow> batch_ledger \<Rightarrow> bool \<times> batch_ledger" where
  "heartbeatAtsV2Claim h now c L =
     (fenced_batch c (bl_row L) \<and> count_where (fenced_receipt c) (bl_receipts L) = 1,
      L\<lparr>bl_row := renewed h now c (bl_row L),
        bl_receipts := update_where (fenced_receipt c)
          (\<lambda>w. w\<lparr>w_heartbeatAt := Some now, w_leaseExpiresAt := Some (now + ATS_LEDGER_WORK_LEASE_MS h)\<rparr>) (bl_receipts L)\<rparr>)"

text \<open>The row part of \<open>finishAtsV2Claim\<close>: the claim is given back with the next instant of service.\<close>

definition released :: "ms \<Rightarrow> ms option \<Rightarrow> string option \<Rightarrow> ledger_claim \<Rightarrow> batch_row \<Rightarrow> batch_row" where
  "released now nextAcquireAt failure c b = (if fenced_batch c b
     then b\<lparr>b_claimToken := None, b_claimOwner := None, b_claimHeartbeatAt := Some now, b_claimExpiresAt := None,
       b_nextAcquireAt := nextAcquireAt, b_lastServedAt := Some now, b_lastError := failure\<rparr>
     else b)"

section \<open>A new batch\<close>

text \<open>The rows \<open>admitAtsV2Board\<close> creates for a board.\<close>

definition atsSegmentSizeForNewBoard :: "string \<Rightarrow> rat option \<Rightarrow> nat" where
  "atsSegmentSizeForNewBoard platform requested =
     (let fallback = (if platform = ''oracle'' \<or> platform = ''ukg'' then 1 else 25) in
      case requested of
        Some r \<Rightarrow> if 0 < r then nat (max 1 (min 1999 \<lfloor>r\<rfloor>)) else fallback
      | None \<Rightarrow> fallback)"

lemma segment_size_pos [simp]: "0 < atsSegmentSizeForNewBoard platform requested"
  by (auto simp: atsSegmentSizeForNewBoard_def Let_def split: option.split)

record admission =
  ad_batchId :: string
  ad_sweepId :: string
  ad_workReceiptId :: string
  ad_claimToken :: string
  ad_owner :: string
  ad_slug :: string
  ad_platform :: string
  ad_segmentSize :: "rat option"

definition admitted_row :: "host \<Rightarrow> ms \<Rightarrow> admission \<Rightarrow> batch_row" where
  "admitted_row h now a = \<lparr>b_id = ad_batchId a, b_slug = ad_slug a, b_platform = ad_platform a,
     b_writerMode = ''v2'', b_ledgerVersion = ATS_LEDGER_VERSION, b_activeLedgerGeneration = 1,
     b_acquisitionPhase = ''listing'', b_status = ''fetching'', b_listingGeneration = 1, b_listingOffset = 0,
     b_latestObservedTotal = None, b_listingCompletedAt = None, b_rawObservationCount = 0,
     b_canonicalOccurrenceCount = 0, b_compactedOccurrenceCount = 0, b_terminalItemCount = 0, b_sealedItemCount = 0,
     b_publishedItemCount = 0, b_acquisitionBytes = 0,
     b_segmentSize = atsSegmentSizeForNewBoard (ad_platform a) (ad_segmentSize a), b_manifestHash = None,
     b_synchronizedAt = None, b_processedAt = None, b_operatorResetAt = None, b_claimToken = Some (ad_claimToken a),
     b_claimOwner = Some (ad_owner a), b_claimFence = 1, b_claimHeartbeatAt = Some now,
     b_claimExpiresAt = Some (now + ATS_LEDGER_WORK_LEASE_MS h), b_nextAcquireAt = None, b_lastServedAt = Some now,
     b_lastError = None\<rparr>"

definition admitted_ledger :: "host \<Rightarrow> ms \<Rightarrow> admission \<Rightarrow> board_row \<Rightarrow> batch_ledger" where
  "admitted_ledger h now a board = \<lparr>bl_row = admitted_row h now a, bl_pages = [], bl_observations = [],
     bl_resolutions = [], bl_items = [], bl_segments = [],
     bl_receipts = [\<lparr>w_id = ad_workReceiptId a, w_workType = ''coverage_listing'', w_startGeneration = 1,
       w_startListingOffset = 0, w_endGeneration = None, w_endListingOffset = None, w_listingRequestCount = 0,
       w_detailRequestCount = 0, w_itemsInspected = 0, w_itemsTerminalized = 0, w_itemsProgressed = 0, w_startedAt = now,
       w_heartbeatAt = Some now, w_finishedAt = None, w_leaseOwner = ad_owner a, w_leaseToken = ad_claimToken a,
       w_leaseFence = 1, w_leaseExpiresAt = Some (now + ATS_LEDGER_WORK_LEASE_MS h), w_yieldReason = None,
       w_checkpointHash = None, w_transactionPhase = None, w_failureScope = None, w_error = None,
       w_adoptedCheckpoint = False, w_ambiguousDispatch = False\<rparr>],
     bl_sweep = Some \<lparr>sw_id = ad_sweepId a, sw_state = ''admitted'', sw_dispatchIntentAt = None,
       sw_contactConfirmedAt = None, sw_respondedAt = None, sw_synchronizedAt = None, sw_processedAt = None, sw_outcome = None\<rparr>,
     bl_contacts = [], bl_board = board\<rparr>"

definition admitted_claim :: "admission \<Rightarrow> ledger_claim" where
  "admitted_claim a = \<lparr>cl_batchId = ad_batchId a, cl_slug = ad_slug a, cl_platform = ad_platform a,
     cl_workType = ''coverage_listing'', cl_claimToken = ad_claimToken a, cl_claimFence = 1,
     cl_workReceiptId = ad_workReceiptId a, cl_endpointSweepId = Some (ad_sweepId a), cl_listingGeneration = 1,
     cl_listingOffset = 0, cl_latestObservedTotal = None, cl_acquisitionPhase = ''listing'',
     cl_segmentSize = atsSegmentSizeForNewBoard (ad_platform a) (ad_segmentSize a)\<rparr>"

section \<open>Requests to the board\<close>

definition on_sweep :: "ledger_claim \<Rightarrow> (sweep_receipt \<Rightarrow> sweep_receipt) \<Rightarrow> batch_ledger \<Rightarrow> batch_ledger" where
  "on_sweep c f L = (case cl_endpointSweepId c of None \<Rightarrow> L
     | Some k \<Rightarrow> L\<lparr>bl_sweep := map_option (\<lambda>s. if sw_id s = k then f s else s) (bl_sweep L)\<rparr>)"

definition recordAtsV2ListingDispatchIntent :: "ms \<Rightarrow> ledger_claim \<Rightarrow> batch_ledger \<Rightarrow> ledger_error + unit \<times> batch_ledger" where
  "recordAtsV2ListingDispatchIntent now c L =
     (if \<not> assertClaimMatchesBatch (bl_row L) c now then Inl LostClaim
      else
        let L1 = on_sweep c (\<lambda>s. s\<lparr>sw_state := ''dispatching'', sw_dispatchIntentAt := Some now\<rparr>) L;
            L2 = L1\<lparr>bl_board := (bl_board L1)\<lparr>co_lastAttemptedAt := Some now\<rparr>\<rparr>
        in update_receipt (cl_workReceiptId c)
             (\<lambda>w. w\<lparr>w_listingRequestCount := w_listingRequestCount w + 1, w_heartbeatAt := Some now\<rparr>) () L2)"

text \<open>\<open>chicagoLocalDay\<close> as the number of the day.\<close>

definition chicagoLocalDay :: "host \<Rightarrow> ms \<Rightarrow> int" where
  "chicagoLocalDay h t = zonedCalendarDate (h_wall h) t"

definition confirmAtsV2ListingContact ::
  "host \<Rightarrow> ms \<Rightarrow> bool \<Rightarrow> string option \<Rightarrow> ledger_claim \<Rightarrow> batch_ledger \<Rightarrow> ledger_error + unit \<times> batch_ledger" where
  "confirmAtsV2ListingContact h contactedAt responded kind c L =
     (let contactKind = (case kind of Some k \<Rightarrow> k
            | None \<Rightarrow> if cl_workType c = ''coverage_listing'' then ''new_cycle_listing'' else ''listing_continuation'') in
      if \<not> assertClaimMatchesBatch (bl_row L) c contactedAt then Inl LostClaim
      else
        let L1 = on_sweep c (\<lambda>s. s\<lparr>sw_state := (if responded then ''responded'' else ''contact_confirmed''),
                     sw_contactConfirmedAt := Some contactedAt,
                     sw_respondedAt := (if responded then Some contactedAt else sw_respondedAt s)\<rparr>) L;
            day = chicagoLocalDay h contactedAt;
            L2 = (if \<exists>d \<in> set (bl_contacts L1). dc_localDay d = day \<and> dc_contactKind d = contactKind then L1
                  else L1\<lparr>bl_contacts := bl_contacts L1 @ [\<lparr>dc_localDay = day, dc_contactKind = contactKind,
                         dc_contactConfirmedAt = contactedAt, dc_sweepId = cl_endpointSweepId c,
                         dc_workReceiptId = cl_workReceiptId c\<rparr>]\<rparr>)
        in Inr ((), if responded then L2\<lparr>bl_board := (bl_board L2)\<lparr>co_lastRespondedAt := Some contactedAt\<rparr>\<rparr> else L2))"

definition markAtsV2BoardResponded :: "ms \<Rightarrow> batch_ledger \<Rightarrow> batch_ledger" where
  "markAtsV2BoardResponded respondedAt L = L\<lparr>bl_board := (bl_board L)\<lparr>co_lastRespondedAt := Some respondedAt\<rparr>\<rparr>"

section \<open>The claim is a fenced lease\<close>

datatype claim_op =
    Grant_claim string string string
  | Renew_claim ledger_claim
  | Release_claim ledger_claim "ms option" "string option"

fun claim_actor :: "claim_op \<Rightarrow> string option" where
  "claim_actor (Grant_claim owner token phase) = Some token"
| "claim_actor (Renew_claim c) = Some (cl_claimToken c)"
| "claim_actor (Release_claim c next failure) = Some (cl_claimToken c)"

fun claim_step :: "host \<Rightarrow> ms \<Rightarrow> claim_op \<Rightarrow> batch_row \<Rightarrow> batch_row" where
  "claim_step h now (Grant_claim owner token phase) b =
     (if claimable_batch now phase b then granted h now owner token b else b)"
| "claim_step h now (Renew_claim c) b = renewed h now c b"
| "claim_step h now (Release_claim c next failure) b = released now next failure c b"

fun claim_owner_op :: "claim_op \<Rightarrow> bool" where
  "claim_owner_op (Grant_claim owner token phase) = False"
| "claim_owner_op op = True"

definition claim_live :: "ms \<Rightarrow> batch_row \<Rightarrow> bool" where
  "claim_live now b = later_than now (b_claimExpiresAt b)"

lemmas claim_defs = claimable_batch_def granted_def renewed_def released_def fenced_batch_def due_by_def later_than_def

lemma foreign_keeps_batch:
  assumes "b_claimToken b = Some t" and "claim_live now b" and "claim_actor op \<noteq> Some t"
  shows "claim_step h now op b = b"
  using assms by (cases op) (auto simp: claim_live_def claim_defs split: option.splits)

interpretation claim: fenced_owner b_claimToken claim_live claim_actor "claim_step h" claim_owner_op for h
proof
  fix op and b :: batch_row and now :: ms
  assume "claim_owner_op op" "claim_actor op \<noteq> b_claimToken b"
  then show "claim_step h now op b = b"
    by (cases op) (auto simp: claim_defs)
next
  fix now earlier :: ms and b :: batch_row
  assume "claim_live now b" "earlier \<le> now"
  then show "claim_live earlier b"
    by (auto simp: claim_live_def later_than_def split: option.splits)
qed (use foreign_keeps_batch in auto)

text \<open>The operations on the ledger are these steps on its row.\<close>

lemma claim_row: "bl_row (snd (claimAtsContinuationCandidate h now owner token receiptId phase L))
    = claim_step h now (Grant_claim owner token phase) (bl_row L)"
  by (simp add: claimAtsContinuationCandidate_def Let_def)

lemma heartbeat_row: "bl_row (snd (heartbeatAtsV2Claim h now c L)) = claim_step h now (Renew_claim c) (bl_row L)"
  by (simp add: heartbeatAtsV2Claim_def)

text \<open>The new claim owns its batch until it lapses.\<close>

lemma new_claim_matches:
  assumes "claimAtsContinuationCandidate h now owner token receiptId phase L = (Some c, L')"
    and "ATS_LEDGER_VERSION \<le> b_ledgerVersion (bl_row L)"
    and "b_activeLedgerGeneration (bl_row L) = b_listingGeneration (bl_row L)"
    and "t < now + ATS_LEDGER_WORK_LEASE_MS h"
  shows "assertClaimMatchesBatch (bl_row L') c t"
  using assms
  by (auto simp: claimAtsContinuationCandidate_def Let_def assertClaimMatchesBatch_def claimable_batch_def granted_def
      split: if_splits)

end
