(* ===== verification/Ledger_Listing.thy ===== *)
theory Ledger_Listing
  imports Ledger_State
begin

text \<open>
  The listing phase of a batch: the pages of a board's listing are committed one after the other, each
  immutable once committed, and their postings become observations, at once or in chunks
  (\<open>src/lib/atsAcquisitionLedger.ts\<close>: \<open>pageHashes\<close> to \<open>materializeAtsV2PageObservations\<close>; the loops of
  \<open>runAtsV2ListingQuantum\<close> and \<open>planAtsV2PageCompletion\<close> of \<open>src/lib/atsAcquisitionDispatcherV2.ts\<close>).

  \<open>listing_wf\<close> is what the ledger keeps: the pages tile the positions up to the listing offset without
  gap or overlap, and the observations of a page are its postings in order, each once, up to its
  materialisation offset.
\<close>

section \<open>Pages\<close>

record page_input =
  pi_requestedOffset :: nat
  pi_requestedLimit :: nat
  pi_providerOffset :: "int option"
  pi_providerTotal :: "int option"
  pi_jobs :: "job list"
  pi_metadata :: job
  pi_requestedAt :: ms
  pi_respondedAt :: ms
  pi_httpStatus :: int
  pi_listingComplete :: bool

record page_commit =
  pc_page :: page_key
  pc_adopted :: bool
  pc_responseHash :: string
  pc_observationCount :: nat
  pc_nextOffset :: nat
  pc_listingComplete :: bool

definition p_key :: "page \<Rightarrow> page_key" where
  "p_key p = (p_generation p, p_requestedOffset p)"

definition raw_body :: "job \<Rightarrow> job list \<Rightarrow> int option \<Rightarrow> json" where
  "raw_body metadata jobs providerTotal = JObj [(''metadata'', JObj metadata), (''jobs'', JArr (map JObj jobs)),
     (''total'', case providerTotal of None \<Rightarrow> JNull | Some n \<Rightarrow> JNum (of_int n))]"

record page_hashes =
  ph_responseHash :: string
  ph_identityMultisetHash :: string
  ph_rawBodyHash :: string
  ph_rawBodyBytes :: nat
  ph_rawBody :: json

definition identity_json :: "host \<Rightarrow> string \<Rightarrow> job \<Rightarrow> json" where
  "identity_json h platform job =
     JArr [case atsListingSourceId (h_num h) platform job of None \<Rightarrow> JNull | Some s \<Rightarrow> JStr s,
           JStr (atsLedgerHash h (JObj job))]"

definition pageHashes :: "host \<Rightarrow> string \<Rightarrow> page_input \<Rightarrow> page_hashes" where
  "pageHashes h platform i =
     (let rawBody = raw_body (pi_metadata i) (pi_jobs i) (pi_providerTotal i);
          serialized = ledger_text h rawBody;
          occurrenceIdentities = js_sort (key_cmp (plain (h_num h)) (h_collate h)) (map (identity_json h platform) (pi_jobs i))
      in \<lparr>ph_responseHash = h_sha h serialized,
          ph_identityMultisetHash = atsLedgerHash h (JArr occurrenceIdentities),
          ph_rawBodyHash = h_sha h serialized,
          ph_rawBodyBytes = utf8_bytes serialized,
          ph_rawBody = rawBody\<rparr>)"

definition isRepeatedAtsV2ListingEnd :: "string \<Rightarrow> nat \<Rightarrow> nat \<Rightarrow> nat \<Rightarrow> int option \<Rightarrow> bool \<Rightarrow> bool" where
  "isRepeatedAtsV2ListingEnd platform requestedOffset responseItemCount requestedLimit providerTotal repeatedIdentitySet \<longleftrightarrow>
     platform = ''workday'' \<and> 0 < requestedOffset \<and> responseItemCount = requestedLimit
     \<and> (case providerTotal of None \<Rightarrow> True | Some n \<Rightarrow> n < int (requestedOffset + responseItemCount))
     \<and> repeatedIdentitySet"

definition earlierMatchingPage :: "batch_ledger \<Rightarrow> nat \<Rightarrow> nat \<Rightarrow> string \<Rightarrow> bool" where
  "earlierMatchingPage L generation requestedOffset identityHash \<longleftrightarrow>
     (\<exists>p \<in> set (bl_pages L). p_generation p = generation \<and> p_requestedOffset p < requestedOffset
        \<and> p_identityMultisetHash p = identityHash)"

definition observation_row :: "host \<Rightarrow> string \<Rightarrow> page_key \<Rightarrow> ms \<Rightarrow> nat \<times> job \<Rightarrow> observation" where
  "observation_row h platform key respondedAt = (\<lambda>(ordinal, job).
     \<lparr>o_page = key, o_pageOrdinal = ordinal, o_providerSourceId = atsListingSourceId (h_num h) platform job,
      o_rawHash = atsLedgerHash h (JObj job), o_rawJson = JObj job, o_observedAt = respondedAt\<rparr>)"

definition page_row :: "host \<Rightarrow> ms \<Rightarrow> ledger_claim \<Rightarrow> page_input \<Rightarrow> page" where
  "page_row h now c i =
     (let hashes = pageHashes h (cl_platform c) i;
          inlineObservations = (length (pi_jobs i) \<le> ATS_LEDGER_OBSERVATION_CHUNK_SIZE h)
      in \<lparr>p_generation = cl_listingGeneration c, p_requestedOffset = pi_requestedOffset i,
          p_requestedLimit = pi_requestedLimit i, p_providerOffset = pi_providerOffset i,
          p_providerTotal = pi_providerTotal i, p_responseItemCount = length (pi_jobs i),
          p_responseHash = ph_responseHash hashes, p_identityMultisetHash = ph_identityMultisetHash hashes,
          p_metadata = pi_metadata i,
          p_rawBody = (if inlineObservations then None else Some (ph_rawBody hashes)),
          p_rawBodyHash = ph_rawBodyHash hashes, p_rawBodyBytes = ph_rawBodyBytes hashes,
          p_materializationOffset = (if inlineObservations then length (pi_jobs i) else 0),
          p_requestedAt = pi_requestedAt i, p_respondedAt = pi_respondedAt i, p_httpStatus = pi_httpStatus i,
          p_completeAt = (if inlineObservations then Some now else None)\<rparr>)"

definition commitAtsV2ListingPage ::
  "host \<Rightarrow> ms \<Rightarrow> ledger_claim \<Rightarrow> page_input \<Rightarrow> batch_ledger \<Rightarrow> ledger_error + page_commit \<times> batch_ledger" where
  "commitAtsV2ListingPage h now c i L =
     (let hashes = pageHashes h (cl_platform c) i;
          count = length (pi_jobs i);
          key = (cl_listingGeneration c, pi_requestedOffset i);
          nextOffset = pi_requestedOffset i + count;
          inlineObservations = (count \<le> ATS_LEDGER_OBSERVATION_CHUNK_SIZE h);
          b = bl_row L;
          repeatedPage = (isRepeatedAtsV2ListingEnd (cl_platform c) (pi_requestedOffset i) count (pi_requestedLimit i)
                            (pi_providerTotal i) True
            \<and> earlierMatchingPage L (cl_listingGeneration c) (pi_requestedOffset i) (ph_identityMultisetHash hashes));
          listingComplete = (pi_listingComplete i \<or> repeatedPage)
      in
      if \<not> assertClaimMatchesBatch b c now then Inl LostClaim
      else if b_acquisitionPhase b \<noteq> ''listing'' then Inl NotListing
      else (case find (\<lambda>p. p_key p = key) (bl_pages L) of
        Some existing \<Rightarrow>
          if p_responseHash existing \<noteq> ph_responseHash hashes
             \<or> p_identityMultisetHash existing \<noteq> ph_identityMultisetHash hashes
          then Inl (DivergentPage (cl_listingGeneration c) (pi_requestedOffset i))
          else update_receipt (cl_workReceiptId c) (\<lambda>w. w\<lparr>w_adoptedCheckpoint := True, w_heartbeatAt := Some now\<rparr>)
                 \<lparr>pc_page = key, pc_adopted = True, pc_responseHash = ph_responseHash hashes,
                  pc_observationCount = p_materializationOffset existing, pc_nextOffset = nextOffset,
                  pc_listingComplete = listingComplete\<rparr> L
      | None \<Rightarrow>
          if b_listingOffset b \<noteq> pi_requestedOffset i then Inl (OffsetMismatch (b_listingOffset b) (pi_requestedOffset i))
          else if \<not> (fenced_batch c b \<and> b_listingGeneration b = cl_listingGeneration c) then Inl LostPageFence
          else update_receipt (cl_workReceiptId c)
                 (\<lambda>w. w\<lparr>w_endGeneration := Some (cl_listingGeneration c), w_endListingOffset := Some nextOffset,
                    w_itemsInspected := w_itemsInspected w + count, w_itemsProgressed := w_itemsProgressed w + count,
                    w_checkpointHash := Some (ph_responseHash hashes), w_transactionPhase := Some ''page_checkpoint'',
                    w_heartbeatAt := Some now\<rparr>)
                 \<lparr>pc_page = key, pc_adopted = False, pc_responseHash = ph_responseHash hashes,
                  pc_observationCount = (if inlineObservations then count else 0), pc_nextOffset = nextOffset,
                  pc_listingComplete = listingComplete\<rparr>
                 (L\<lparr>bl_pages := bl_pages L @ [page_row h now c i],
                    bl_observations := bl_observations L @ (if inlineObservations
                      then map (observation_row h (cl_platform c) key (pi_respondedAt i)) (List.enumerate 0 (pi_jobs i)) else []),
                    bl_row := b\<lparr>b_listingOffset := nextOffset,
                      b_latestObservedTotal := (case pi_providerTotal i of None \<Rightarrow> b_latestObservedTotal b | Some n \<Rightarrow> Some n),
                      b_rawObservationCount := b_rawObservationCount b + (if inlineObservations then count else 0),
                      b_acquisitionBytes := b_acquisitionBytes b + ph_rawBodyBytes hashes,
                      b_acquisitionPhase := (if listingComplete \<and> inlineObservations then ''compaction'' else ''listing''),
                      b_listingCompletedAt := (if listingComplete \<and> inlineObservations then Some now else None),
                      b_claimHeartbeatAt := Some now, b_lastServedAt := Some now\<rparr>\<rparr>)))"

text \<open>The page with the largest offset, and the first page that is not materialised.\<close>

definition latest_page :: "nat \<Rightarrow> batch_ledger \<Rightarrow> page option" where
  "latest_page generation L =
     (case js_sort (desc_cmp (key_cmp (\<lambda>p. int (p_requestedOffset p)) num_cmp))
         (filter (\<lambda>p. p_generation p = generation) (bl_pages L)) of
        [] \<Rightarrow> None | p # ps \<Rightarrow> Some p)"

definition pending_page :: "nat \<Rightarrow> batch_ledger \<Rightarrow> page option" where
  "pending_page generation L =
     (case js_sort (key_cmp (\<lambda>p. int (p_requestedOffset p)) num_cmp)
         (filter (\<lambda>p. p_generation p = generation \<and> p_completeAt p = None) (bl_pages L)) of
        [] \<Rightarrow> None | p # ps \<Rightarrow> Some p)"

definition incomplete_pages :: "nat \<Rightarrow> batch_ledger \<Rightarrow> nat" where
  "incomplete_pages generation L =
     count_where (\<lambda>p. p_generation p = generation \<and> p_completeAt p = None) (bl_pages L)"

text \<open>\<open>readAtsV2ListingCheckpoint\<close>: the pending page and the latest page.\<close>

definition readAtsV2ListingCheckpoint :: "ledger_claim \<Rightarrow> batch_ledger \<Rightarrow> page option \<times> page option" where
  "readAtsV2ListingCheckpoint c L = (pending_page (cl_listingGeneration c) L, latest_page (cl_listingGeneration c) L)"

definition saved_end :: "ledger_claim \<Rightarrow> page \<Rightarrow> batch_ledger \<Rightarrow> bool" where
  "saved_end c latest L \<longleftrightarrow>
     p_completeAt latest \<noteq> None
     \<and> b_listingOffset (bl_row L) = p_requestedOffset latest + p_responseItemCount latest
     \<and> (if cl_platform c = ''oracle''
        then p_responseItemCount latest = 0 \<and> 200 \<le> p_httpStatus latest \<and> p_httpStatus latest < 300
        else isRepeatedAtsV2ListingEnd (cl_platform c) (p_requestedOffset latest) (p_responseItemCount latest)
               (p_requestedLimit latest) (p_providerTotal latest) True
             \<and> earlierMatchingPage L (cl_listingGeneration c) (p_requestedOffset latest) (p_identityMultisetHash latest))
     \<and> incomplete_pages (cl_listingGeneration c) L = 0"

definition completeAtsV2ListingAtSavedEnd :: "ms \<Rightarrow> ledger_claim \<Rightarrow> batch_ledger \<Rightarrow> ledger_error + bool \<times> batch_ledger" where
  "completeAtsV2ListingAtSavedEnd now c L =
     (let b = bl_row L in
      if cl_platform c \<noteq> ''workday'' \<and> cl_platform c \<noteq> ''oracle'' then Inr (False, L)
      else if \<not> assertClaimMatchesBatch b c now then Inl LostClaim
      else if b_acquisitionPhase b \<noteq> ''listing'' then Inr (False, L)
      else (case latest_page (cl_listingGeneration c) L of
        None \<Rightarrow> Inr (False, L)
      | Some latest \<Rightarrow>
          if \<not> saved_end c latest L then Inr (False, L)
          else if \<not> (fenced_batch c b \<and> b_listingGeneration b = cl_listingGeneration c) then Inl LostSavedEndFence
          else update_receipt (cl_workReceiptId c)
                 (\<lambda>w. w\<lparr>w_adoptedCheckpoint := True, w_endGeneration := Some (cl_listingGeneration c),
                    w_endListingOffset := Some (b_listingOffset b), w_checkpointHash := Some (p_responseHash latest),
                    w_transactionPhase := Some ''saved_listing_end'', w_heartbeatAt := Some now\<rparr>)
                 True
                 (L\<lparr>bl_row := b\<lparr>b_acquisitionPhase := ''compaction'', b_listingCompletedAt := Some now,
                     b_claimHeartbeatAt := Some now\<rparr>\<rparr>)))"

text \<open>The postings of a stored body: the entries of \<open>jobs\<close> that are objects.\<close>

definition body_jobs :: "json option \<Rightarrow> job list" where
  "body_jobs body = (case map_of (json_object body) ''jobs'' of
     Some (JArr xs) \<Rightarrow> List.map_filter (\<lambda>x. case x of JObj kvs \<Rightarrow> Some kvs | _ \<Rightarrow> None) xs
   | _ \<Rightarrow> [])"

definition chunk_size :: "nat \<Rightarrow> int option \<Rightarrow> nat" where
  "chunk_size limit requested =
     nat (max 1 (min (int limit) (case requested of Some n \<Rightarrow> if n = 0 then int limit else n | None \<Rightarrow> int limit)))"

definition advanced :: "nat \<Rightarrow> ms option \<Rightarrow> page \<Rightarrow> page" where
  "advanced next completeAt p = p\<lparr>p_materializationOffset := next, p_completeAt := completeAt\<rparr>"

definition materializeAtsV2PageObservations ::
  "host \<Rightarrow> ms \<Rightarrow> ledger_claim \<Rightarrow> page_key \<Rightarrow> bool \<Rightarrow> int option \<Rightarrow> batch_ledger
    \<Rightarrow> ledger_error + (nat \<times> bool) \<times> batch_ledger" where
  "materializeAtsV2PageObservations h now c key listingComplete requested L =
     (if \<not> assertClaimMatchesBatch (bl_row L) c now then Inl LostClaim
      else (case find (\<lambda>p. p_key p = key \<and> p_generation p = cl_listingGeneration c) (bl_pages L) of
        None \<Rightarrow> Inl RecordMissing
      | Some p \<Rightarrow>
          if p_completeAt p \<noteq> None then Inr ((0, True), L)
          else
            let jobs = body_jobs (p_rawBody p);
                start = p_materializationOffset p;
                chunk = take (chunk_size (ATS_LEDGER_OBSERVATION_CHUNK_SIZE h) requested) (drop start jobs);
                next = start + length chunk;
                complete = (next = length jobs);
                L1 = L\<lparr>bl_observations := bl_observations L @
                         map (observation_row h (cl_platform c) key (p_respondedAt p)) (List.enumerate start chunk),
                       bl_pages := update_where (\<lambda>q. p_key q = key)
                         (advanced next (if complete then Some now else None)) (bl_pages L)\<rparr>;
                finished = (complete \<and> listingComplete \<and> incomplete_pages (cl_listingGeneration c) L1 = 0)
            in
            if length jobs \<noteq> p_responseItemCount p
               \<or> atsLedgerHash h (JObj (json_object (p_rawBody p))) \<noteq> p_rawBodyHash p
            then Inl (RawPageInvalid key)
            else Inr ((length chunk, complete),
                   L1\<lparr>bl_row := (bl_row L)\<lparr>b_rawObservationCount := b_rawObservationCount (bl_row L) + length chunk,
                        b_acquisitionPhase := (if finished then ''compaction'' else ''listing''),
                        b_listingCompletedAt := (if finished then Some now else b_listingCompletedAt (bl_row L)),
                        b_claimHeartbeatAt := Some now\<rparr>\<rparr>)))"

section \<open>When a listing ends\<close>

definition TENANT_ATS_PLATFORMS :: "string list" where
  "TENANT_ATS_PLATFORMS = [''gem'', ''jobscore'', ''jazzhr'', ''manatal'', ''clearcompany'', ''hirehive'', ''kula'']"

definition PUBLIC_ATS_PLATFORMS :: "string list" where
  "PUBLIC_ATS_PLATFORMS = [''symphony'', ''dayforce'', ''oracle'', ''ukg'', ''comeet'', ''successfactors'', ''zohorecruit'']
     @ TENANT_ATS_PLATFORMS"

definition tenantAtsPageSize :: "string \<Rightarrow> nat option" where
  "tenantAtsPageSize platform = (if platform \<in> {''manatal'', ''clearcompany'', ''hirehive''} then Some 20 else None)"

definition publicAtsPageSize :: "string \<Rightarrow> nat option" where
  "publicAtsPageSize platform =
     (if platform = ''symphony'' then Some 20 else if platform = ''oracle'' then Some 25
      else if platform = ''ukg'' then Some 20 else tenantAtsPageSize platform)"

definition atsListingPageSize :: "string \<Rightarrow> nat option" where
  "atsListingPageSize platform =
     (if platform = ''teamtailor'' then Some 100
      else if platform \<in> set PUBLIC_ATS_PLATFORMS then publicAtsPageSize platform
      else if platform = ''eightfold'' then Some 10
      else if platform = ''workday'' then Some 20
      else if platform = ''smartrecruiters'' then Some 100
      else None)"

datatype page_anomaly = IncompletePageWithContinuation | ShortPageBeforeTotal

definition planAtsV2PageCompletion ::
  "string \<Rightarrow> nat \<Rightarrow> nat \<Rightarrow> int option \<Rightarrow> json option \<Rightarrow> bool \<times> page_anomaly option" where
  "planAtsV2PageCompletion platform requestedOffset responseCount providerTotal listingHasMore =
     (case atsListingPageSize platform of
        None \<Rightarrow> (True, None)
      | Some pageSize \<Rightarrow>
          (case listingHasMore of
             Some (JBool hasMore) \<Rightarrow>
               (\<not> hasMore, if hasMore \<and> responseCount \<noteq> pageSize then Some IncompletePageWithContinuation else None)
           | _ \<Rightarrow>
               if platform = ''oracle''
               then (responseCount = 0 \<or> providerTotal = Some (int (requestedOffset + responseCount)), None)
               else
                 let nextOffset = int (requestedOffset + responseCount) in
                 if (case providerTotal of None \<Rightarrow> False | Some n \<Rightarrow> nextOffset < n) \<and> responseCount < pageSize
                 then (False, Some ShortPageBeforeTotal)
                 else (responseCount < pageSize \<or> providerTotal = Some nextOffset, None)))"

definition page_completion :: "string \<Rightarrow> page \<Rightarrow> bool \<times> page_anomaly option" where
  "page_completion platform p = planAtsV2PageCompletion platform (p_requestedOffset p) (p_responseItemCount p)
     (p_providerTotal p) (map_of (p_metadata p) ''listingHasMore'')"

section \<open>The loops that resume a listing\<close>

text \<open>Readings of the clock and of the abort signal, by the number of transactions so far: the instant
  of a transaction, the clock the loop reads after it, and whether the turn was aborted before it.\<close>

record turn_env =
  te_now :: "nat \<Rightarrow> ms"
  te_clock :: "nat \<Rightarrow> ms"
  te_aborted :: "nat \<Rightarrow> bool"

datatype turn_result =
    Interrupted
  | Failed ledger_error
  | Budget_spent
  | Listing_complete
  | Done

definition budget_spent :: "host \<Rightarrow> turn_env \<Rightarrow> ms \<Rightarrow> nat \<Rightarrow> bool" where
  "budget_spent h env startedAt n \<longleftrightarrow> ATS_LEDGER_QUANTUM_SOFT_MS h \<le> te_clock env n - startedAt"

text \<open>\<open>materialize\<close>: chunks of one page until it is complete.\<close>

partial_function (option) materialize_page ::
  "host \<Rightarrow> turn_env \<Rightarrow> ms \<Rightarrow> ledger_claim \<Rightarrow> page_key \<Rightarrow> bool \<Rightarrow> nat \<Rightarrow> batch_ledger
    \<Rightarrow> (turn_result \<times> nat \<times> batch_ledger) option" where
  "materialize_page h env startedAt c key completeListing n L =
     (if te_aborted env n then Some (Interrupted, n, L)
      else (case materializeAtsV2PageObservations h (te_now env n) c key completeListing None L of
        Inl e \<Rightarrow> Some (Failed e, n, L)
      | Inr ((materialized, finished), L') \<Rightarrow>
          if finished then Some (Done, n + 1, L')
          else if budget_spent h env startedAt n then Some (Budget_spent, n + 1, L')
          else materialize_page h env startedAt c key completeListing (n + 1) L'))"

text \<open>The loop at the head of a listing turn: the pending pages first, then the saved end; \<open>Done\<close> means
  that the turn goes on to ask the provider.\<close>

partial_function (option) resume_listing ::
  "host \<Rightarrow> turn_env \<Rightarrow> ms \<Rightarrow> ledger_claim \<Rightarrow> nat \<Rightarrow> batch_ledger \<Rightarrow> (turn_result \<times> nat \<times> batch_ledger) option" where
  "resume_listing h env startedAt c n L =
     (if te_aborted env n then Some (Interrupted, n, L)
      else
        let (pendingPage, latestPage) = readAtsV2ListingCheckpoint c L;
            listingComplete = (case latestPage of None \<Rightarrow> False | Some p \<Rightarrow> fst (page_completion (cl_platform c) p))
        in (case pendingPage of
          None \<Rightarrow>
            (case (if latestPage = None then Inr (False, L) else completeAtsV2ListingAtSavedEnd (te_now env n) c L) of
               Inl e \<Rightarrow> Some (Failed e, n, L)
             | Inr (ended, L') \<Rightarrow>
                 if ended then Some (Listing_complete, n + 1, L')
                 else if listingComplete then Some (Listing_complete, n + 1, L')
                 else Some (Done, n + 1, L'))
        | Some p \<Rightarrow>
            (case materialize_page h env startedAt c (p_key p) listingComplete n L of
               None \<Rightarrow> None
             | Some (r, m, L') \<Rightarrow>
                 if r \<noteq> Done then Some (r, m, L')
                 else if budget_spent h env startedAt m then Some (Budget_spent, m, L')
                 else resume_listing h env startedAt c m L')))"


section \<open>What the listing keeps\<close>

text \<open>Ranges that follow each other without gap or overlap.\<close>

fun tiled :: "nat \<Rightarrow> (nat \<times> nat) list \<Rightarrow> nat \<Rightarrow> bool" where
  "tiled lo [] hi \<longleftrightarrow> lo = hi"
| "tiled lo ((start, n) # ranges) hi \<longleftrightarrow> start = lo \<and> tiled (lo + n) ranges hi"

lemma tiled_snoc: "tiled lo (rs @ [(start, n)]) hi \<longleftrightarrow> tiled lo rs start \<and> hi = start + n"
  by (induction lo rs hi rule: tiled.induct) auto

lemma tiled_sum: "tiled lo rs hi \<Longrightarrow> hi = lo + sum_list (map snd rs)"
  by (induction lo rs hi rule: tiled.induct) auto

definition page_range :: "page \<Rightarrow> nat \<times> nat" where
  "page_range p = (p_requestedOffset p, p_responseItemCount p)"

definition page_observations :: "observation list \<Rightarrow> page_key \<Rightarrow> observation list" where
  "page_observations obs key = filter (\<lambda>ob. o_page ob = key) obs"

text \<open>A page and its observations: the postings it was committed with, in order, as far as they are
  materialised; the body is kept as long as postings are missing.\<close>

definition page_exact :: "host \<Rightarrow> string \<Rightarrow> observation list \<Rightarrow> page \<Rightarrow> bool" where
  "page_exact h platform obs p \<longleftrightarrow>
     (\<exists>jobs. let body = raw_body (p_metadata p) jobs (p_providerTotal p) in
        length jobs = p_responseItemCount p
        \<and> p_rawBodyHash p = atsLedgerHash h body
        \<and> p_materializationOffset p \<le> length jobs
        \<and> page_observations obs (p_key p) = map (observation_row h platform (p_key p) (p_respondedAt p))
            (List.enumerate 0 (take (p_materializationOffset p) jobs))
        \<and> (p_completeAt p \<noteq> None \<longleftrightarrow> p_materializationOffset p = length jobs)
        \<and> (p_completeAt p = None \<longrightarrow> p_rawBody p = Some body))"

definition pages_exact :: "host \<Rightarrow> string \<Rightarrow> nat \<Rightarrow> page list \<Rightarrow> observation list \<Rightarrow> bool" where
  "pages_exact h platform generation ps obs \<longleftrightarrow>
     (\<forall>p \<in> set ps. p_generation p = generation \<and> page_exact h platform obs p)
     \<and> distinct (map p_requestedOffset ps)
     \<and> (\<forall>ob \<in> set obs. o_page ob \<in> p_key ` set ps)"

definition listing_wf :: "host \<Rightarrow> batch_ledger \<Rightarrow> bool" where
  "listing_wf h L \<longleftrightarrow> (let b = bl_row L in
     b_listingGeneration b = b_activeLedgerGeneration b
     \<and> pages_exact h (b_platform b) (b_activeLedgerGeneration b) (bl_pages L) (bl_observations L)
     \<and> tiled 0 (map page_range (bl_pages L)) (b_listingOffset b)
     \<and> b_rawObservationCount b = length (bl_observations L))"

lemma evidence_hash_raw: "h_sha h (ledger_text h v) = atsLedgerHash h v"
  by (simp add: atsLedgerHash_def)

lemma body_jobs_raw [simp]: "body_jobs (Some (raw_body metadata jobs n)) = jobs"
proof -
  have "List.map_filter (\<lambda>x. case x of JObj kvs \<Rightarrow> Some kvs | _ \<Rightarrow> None) (map JObj jobs) = jobs"
    by (induction jobs) (auto simp: List.map_filter_def)
  then show ?thesis by (simp add: body_jobs_def json_object_def raw_body_def)
qed

lemma json_object_raw [simp]: "JObj (json_object (Some (raw_body metadata jobs n))) = raw_body metadata jobs n"
  by (simp add: json_object_def raw_body_def)

lemma chunk_size_pos: "0 < chunk_size limit requested"
  by (simp add: chunk_size_def)

lemma page_observations_append [simp]:
  "page_observations (xs @ ys) k = page_observations xs k @ page_observations ys k"
  by (simp add: page_observations_def)

lemma observation_row_page [simp]: "o_page (observation_row h platform k t x) = k"
  by (cases x) (simp add: observation_row_def)

lemma page_observations_rows [simp]:
  "page_observations (map (observation_row h platform k t) xs) k' =
     (if k' = k then map (observation_row h platform k t) xs else [])"
  by (auto simp: page_observations_def filter_empty_conv)

lemma page_exact_other:
  assumes "page_exact h platform obs p" and "\<And>ob. ob \<in> set new \<Longrightarrow> o_page ob \<noteq> p_key p"
  shows "page_exact h platform (obs @ new) p"
proof -
  have "page_observations new (p_key p) = []"
    using assms(2) by (auto simp: page_observations_def filter_empty_conv)
  then show ?thesis using assms(1) by (simp add: page_exact_def)
qed

text \<open>The keys of the pages are distinct, so the page a key names is unique.\<close>

lemma pages_exact_keys:
  assumes "pages_exact h platform g ps obs" and "p \<in> set ps" and "q \<in> set ps" and "p_key p = p_key q"
  shows "p = q"
proof -
  have "p_requestedOffset p = p_requestedOffset q" using assms(4) by (simp add: p_key_def)
  with assms(1-3) show ?thesis unfolding pages_exact_def by (metis distinct_map inj_on_def)
qed

lemma pages_exact_snoc:
  assumes "pages_exact h platform g ps obs" and "p_generation p = g" and "p_key p \<notin> p_key ` set ps"
    and "\<And>ob. ob \<in> set new \<Longrightarrow> o_page ob = p_key p" and "page_exact h platform new p"
  shows "pages_exact h platform g (ps @ [p]) (obs @ new)"
proof -
  have *: "page_exact h platform (obs @ new) q" if "q \<in> set ps" for q
    using assms that by (intro page_exact_other) (auto simp: pages_exact_def)
  have "page_observations obs (p_key p) = []"
    using assms(1,3) unfolding pages_exact_def page_observations_def filter_empty_conv by metis
  then have "page_exact h platform (obs @ new) p"
    using assms(5) by (simp add: page_exact_def)
  moreover have "p_requestedOffset p \<notin> p_requestedOffset ` set ps"
  proof
    assume "p_requestedOffset p \<in> p_requestedOffset ` set ps"
    then obtain q where "q \<in> set ps" "p_requestedOffset p = p_requestedOffset q" by auto
    with assms(1,2) have "p_key p = p_key q" by (simp add: p_key_def pages_exact_def)
    with \<open>q \<in> set ps\<close> assms(3) show False by auto
  qed
  ultimately show ?thesis
    using assms(1,2,4) * by (auto simp: pages_exact_def)
qed

lemma page_row_exact:
  "page_exact h (cl_platform c)
     (if length (pi_jobs i) \<le> ATS_LEDGER_OBSERVATION_CHUNK_SIZE h
      then map (observation_row h (cl_platform c) (p_key (page_row h now c i)) (pi_respondedAt i)) (List.enumerate 0 (pi_jobs i))
      else [])
     (page_row h now c i)"
  unfolding page_exact_def Let_def
  by (intro exI [of _ "pi_jobs i"])
     (use observation_chunk_pos [of h] in \<open>auto simp: page_row_def pageHashes_def Let_def evidence_hash_raw page_observations_def\<close>)

lemma find_key_None: "find (\<lambda>p. p_key p = k) ps = None \<longleftrightarrow> k \<notin> p_key ` set ps"
  by (auto simp: find_None_iff)

text \<open>What the operations change of the row, the pages and the observations.\<close>

lemma update_receipt_Inr:
  assumes "update_receipt k f r L = Inr (x, L')"
  shows "x = r \<and> L' = L\<lparr>bl_receipts := update_where (\<lambda>w. w_id w = k) f (bl_receipts L)\<rparr>"
  using assms by (auto simp: update_receipt_def split: if_splits)

lemma listing_wf_receipts [simp]: "listing_wf h (L\<lparr>bl_receipts := ws\<rparr>) = listing_wf h L"
  by (simp add: listing_wf_def)

lemma update_receipt_wf:
  assumes "update_receipt k f r L = Inr (x, L')" and "listing_wf h L"
  shows "listing_wf h L'"
  using update_receipt_Inr [OF assms(1)] assms(2) by simp

lemma commit_wf:
  assumes "commitAtsV2ListingPage h now c i L = Inr (r, L')" and "listing_wf h L" and "cl_platform c = b_platform (bl_row L)"
  shows "listing_wf h L'"
proof -
  let ?p = "page_row h now c i" and ?g = "b_activeLedgerGeneration (bl_row L)"
  show ?thesis
  proof (cases "find (\<lambda>p. p_key p = (cl_listingGeneration c, pi_requestedOffset i)) (bl_pages L)")
    case (Some existing)
    with assms show ?thesis
      by (auto simp: commitAtsV2ListingPage_def Let_def split: if_splits dest!: update_receipt_wf)
  next
    case None
    have key: "p_key ?p = (cl_listingGeneration c, pi_requestedOffset i)" "p_generation ?p = cl_listingGeneration c"
      "page_range ?p = (pi_requestedOffset i, length (pi_jobs i))"
      by (simp_all add: page_row_def p_key_def page_range_def Let_def)
    have claim: "assertClaimMatchesBatch (bl_row L) c now" "b_listingOffset (bl_row L) = pi_requestedOffset i"
      using assms(1) None by (auto simp: commitAtsV2ListingPage_def Let_def split: if_splits)
    then have gen: "cl_listingGeneration c = ?g" by (simp add: assertClaimMatchesBatch_def)
    let ?new = "if length (pi_jobs i) \<le> ATS_LEDGER_OBSERVATION_CHUNK_SIZE h
      then map (observation_row h (cl_platform c) (p_key ?p) (pi_respondedAt i)) (List.enumerate 0 (pi_jobs i)) else []"
    have "pages_exact h (b_platform (bl_row L)) ?g (bl_pages L @ [?p]) (bl_observations L @ ?new)"
      using assms(2,3) None key gen page_row_exact [where h = h and c = c and now = now and i = i]
      by (intro pages_exact_snoc) (auto simp: listing_wf_def Let_def find_key_None split: if_splits)
    moreover have "tiled 0 (map page_range (bl_pages L @ [?p])) (pi_requestedOffset i + length (pi_jobs i))"
      using assms(2) claim(2) key(3) by (simp add: listing_wf_def Let_def tiled_snoc)
    ultimately show ?thesis
      using assms(1,2) None claim key(1)
      by (auto simp: commitAtsV2ListingPage_def Let_def listing_wf_def split: if_splits dest!: update_receipt_Inr)
  qed
qed

lemma saved_end_wf:
  assumes "completeAtsV2ListingAtSavedEnd now c L = Inr (r, L')" and "listing_wf h L"
  shows "listing_wf h L'"
  using assms
  by (auto simp: completeAtsV2ListingAtSavedEnd_def Let_def listing_wf_def split: if_splits option.splits
      dest!: update_receipt_Inr)

lemma advanced_sel [simp]:
  "p_key (advanced n d p) = p_key p" "p_requestedOffset (advanced n d p) = p_requestedOffset p"
  "p_generation (advanced n d p) = p_generation p" "p_responseItemCount (advanced n d p) = p_responseItemCount p"
  "p_materializationOffset (advanced n d p) = n" "p_completeAt (advanced n d p) = d"
  "page_range (advanced n d p) = page_range p"
  by (simp_all add: advanced_def p_key_def page_range_def)

lemma page_exact_advance:
  assumes "page_exact h platform obs p" and "p_completeAt p = None"
    and "chunk = take k (drop (p_materializationOffset p) (body_jobs (p_rawBody p)))"
    and "next = p_materializationOffset p + length chunk"
    and "done = (if next = length (body_jobs (p_rawBody p)) then Some now else None)"
  shows "page_exact h platform
    (obs @ map (observation_row h platform (p_key p) (p_respondedAt p)) (List.enumerate (p_materializationOffset p) chunk))
    (advanced next done p)"
proof -
  let ?body = "\<lambda>jobs. raw_body (p_metadata p) jobs (p_providerTotal p)"
  obtain jobs where j: "length jobs = p_responseItemCount p" "p_rawBodyHash p = atsLedgerHash h (?body jobs)"
    "p_materializationOffset p \<le> length jobs"
    "page_observations obs (p_key p) = map (observation_row h platform (p_key p) (p_respondedAt p))
       (List.enumerate 0 (take (p_materializationOffset p) jobs))"
    "p_rawBody p = Some (?body jobs)"
    using assms(1,2) by (auto simp: page_exact_def Let_def)
  have chunk: "chunk = take k (drop (p_materializationOffset p) jobs)" using assms(3) j(5) by simp
  then have "next \<le> length jobs" using assms(4) j(3) by simp
  moreover have "take next jobs = take (p_materializationOffset p) jobs @ chunk"
    using assms(4) j(3) by (simp add: chunk take_add min_def)
  ultimately show ?thesis
    unfolding page_exact_def Let_def
    using j assms(5) by (intro exI [of _ jobs]) (auto simp: advanced_def p_key_def enumerate_append_eq min_def)
qed

lemma pages_exact_advance:
  assumes "pages_exact h platform g ps obs" and "p \<in> set ps" and "page_exact h platform (obs @ new) (advanced n d p)"
    and "\<And>ob. ob \<in> set new \<Longrightarrow> o_page ob = p_key p"
  shows "pages_exact h platform g (update_where (\<lambda>q. p_key q = p_key p) (advanced n d) ps) (obs @ new)"
proof -
  have exact: "page_exact h platform (obs @ new) (if p_key q = p_key p then advanced n d q else q)" if "q \<in> set ps" for q
  proof (cases "p_key q = p_key p")
    case True
    with assms(1,2) that have "q = p" by (intro pages_exact_keys)
    with assms(3) show ?thesis by simp
  next
    case False
    with assms(1,4) that show ?thesis by (auto simp: pages_exact_def intro!: page_exact_other)
  qed
  have "p_key ` set (update_where (\<lambda>q. p_key q = p_key p) (advanced n d) ps) = p_key ` set ps"
    by (metis (no_types, lifting) map_update_where advanced_sel(1) list.set_map)
  moreover have "p_generation q = g \<and> page_exact h platform (obs @ new) q"
    if "q \<in> set (update_where (\<lambda>q. p_key q = p_key p) (advanced n d) ps)" for q
  proof -
    from that obtain r where "r \<in> set ps" "q = (if p_key r = p_key p then advanced n d r else r)"
      by (auto simp: set_update_where)
    with exact [of r] assms(1) show ?thesis by (auto simp: pages_exact_def)
  qed
  moreover have "map p_requestedOffset (update_where (\<lambda>q. p_key q = p_key p) (advanced n d) ps) = map p_requestedOffset ps"
    by (simp add: map_update_where)
  ultimately show ?thesis
    using assms(1,2,4) unfolding pages_exact_def by auto
qed

text \<open>The successful step of a materialisation: nothing to do, or one more chunk of the page.\<close>

definition next_chunk :: "host \<Rightarrow> int option \<Rightarrow> page \<Rightarrow> job list" where
  "next_chunk h requested p = take (chunk_size (ATS_LEDGER_OBSERVATION_CHUNK_SIZE h) requested)
     (drop (p_materializationOffset p) (body_jobs (p_rawBody p)))"

definition next_offset :: "host \<Rightarrow> int option \<Rightarrow> page \<Rightarrow> nat" where
  "next_offset h requested p = p_materializationOffset p + length (next_chunk h requested p)"

definition next_complete :: "host \<Rightarrow> ms \<Rightarrow> int option \<Rightarrow> page \<Rightarrow> ms option" where
  "next_complete h now requested p =
     (if next_offset h requested p = length (body_jobs (p_rawBody p)) then Some now else None)"

definition chunk_step :: "host \<Rightarrow> ms \<Rightarrow> int option \<Rightarrow> ledger_claim \<Rightarrow> page \<Rightarrow> batch_ledger \<Rightarrow> batch_ledger \<Rightarrow> bool" where
  "chunk_step h now requested c p L L' \<longleftrightarrow>
     length (body_jobs (p_rawBody p)) = p_responseItemCount p
     \<and> bl_pages L' = update_where (\<lambda>q. p_key q = p_key p)
         (advanced (next_offset h requested p) (next_complete h now requested p)) (bl_pages L)
     \<and> bl_observations L' = bl_observations L @ map (observation_row h (cl_platform c) (p_key p) (p_respondedAt p))
         (List.enumerate (p_materializationOffset p) (next_chunk h requested p))
     \<and> b_rawObservationCount (bl_row L') = b_rawObservationCount (bl_row L) + length (next_chunk h requested p)
     \<and> b_platform (bl_row L') = b_platform (bl_row L)
     \<and> b_listingOffset (bl_row L') = b_listingOffset (bl_row L)
     \<and> b_listingGeneration (bl_row L') = b_listingGeneration (bl_row L)
     \<and> b_activeLedgerGeneration (bl_row L') = b_activeLedgerGeneration (bl_row L)"

lemma find_page:
  assumes "find (\<lambda>p. p_key p = key \<and> p_generation p = g) ps = Some p"
  shows "p \<in> set ps" and "p_key p = key" and "p_generation p = g"
  using find_SomeD [OF assms] by auto

lemma map_ranges_advance [simp]:
  "map page_range (update_where P (advanced n d) ps) = map page_range ps"
  by (simp add: map_update_where)

lemma materialize_cases:
  assumes "materializeAtsV2PageObservations h now c key listingComplete requested L = Inr ((n, finished), L')"
  obtains p where "find (\<lambda>p. p_key p = key \<and> p_generation p = cl_listingGeneration c) (bl_pages L) = Some p"
    and "p \<in> set (bl_pages L)" and "p_key p = key" and "p_generation p = cl_listingGeneration c"
    and "p_completeAt p \<noteq> None \<and> finished \<and> L' = L
      \<or> p_completeAt p = None \<and> (finished \<longleftrightarrow> next_offset h requested p = p_responseItemCount p)
        \<and> chunk_step h now requested c p L L'"
proof -
  obtain p where p: "find (\<lambda>p. p_key p = key \<and> p_generation p = cl_listingGeneration c) (bl_pages L) = Some p"
    using assms by (auto simp: materializeAtsV2PageObservations_def split: if_splits option.splits)
  show thesis
    by (rule that [OF p find_page [OF p]], insert assms p find_page(2) [OF p])
       (auto simp: materializeAtsV2PageObservations_def chunk_step_def next_chunk_def next_offset_def next_complete_def
          Let_def split: if_splits)
qed

lemma materialize_wf:
  assumes "materializeAtsV2PageObservations h now c key listingComplete requested L = Inr ((n, finished), L')"
    and "listing_wf h L" and "cl_platform c = b_platform (bl_row L)"
  shows "listing_wf h L'"
  using assms(1)
proof (cases rule: materialize_cases)
  case p: (1 p)
  show ?thesis
  proof (cases "p_completeAt p = None")
    case True
    have wf: "pages_exact h (cl_platform c) (b_activeLedgerGeneration (bl_row L)) (bl_pages L) (bl_observations L)"
      using assms(2,3) by (simp add: listing_wf_def Let_def)
    have "page_exact h (cl_platform c) (bl_observations L) p"
      using wf p(2) by (simp add: pages_exact_def)
    then have "page_exact h (cl_platform c)
        (bl_observations L @ map (observation_row h (cl_platform c) (p_key p) (p_respondedAt p))
          (List.enumerate (p_materializationOffset p) (next_chunk h requested p)))
        (advanced (next_offset h requested p) (next_complete h now requested p) p)"
      using True by (rule page_exact_advance) (simp_all add: next_chunk_def next_offset_def next_complete_def)
    then have "pages_exact h (cl_platform c) (b_activeLedgerGeneration (bl_row L))
        (update_where (\<lambda>q. p_key q = p_key p)
          (advanced (next_offset h requested p) (next_complete h now requested p)) (bl_pages L))
        (bl_observations L @ map (observation_row h (cl_platform c) (p_key p) (p_respondedAt p))
          (List.enumerate (p_materializationOffset p) (next_chunk h requested p)))"
      by (rule pages_exact_advance [OF wf p(2)]) auto
    with True p(5) assms(2,3) show ?thesis
      by (auto simp: listing_wf_def Let_def chunk_step_def)
  qed (use p(5) assms(2) in auto)
qed

section \<open>The loops return\<close>

text \<open>The postings that are committed but not materialised: every chunk takes some.\<close>

definition missing_in :: "page \<Rightarrow> nat" where
  "missing_in p = p_responseItemCount p - p_materializationOffset p"

definition missing :: "batch_ledger \<Rightarrow> nat" where
  "missing L = sum_list (map missing_in (bl_pages L))"

lemma update_where_append: "update_where P f (xs @ ys) = update_where P f xs @ update_where P f ys"
  by (simp add: update_where_def)

lemma sum_list_update_where:
  fixes f :: "'a \<Rightarrow> nat"
  assumes "\<And>y. y \<in> set xs \<Longrightarrow> P y \<Longrightarrow> f (g y) < f y" and "x \<in> set xs" and "P x"
  shows "sum_list (map f (update_where P g xs)) < sum_list (map f xs)"
proof -
  have le: "sum_list (map f (update_where P g ys)) \<le> sum_list (map f ys)"
    if "\<And>y. y \<in> set ys \<Longrightarrow> P y \<Longrightarrow> f (g y) < f y" for ys
    unfolding update_where_def map_map using that by (intro sum_list_mono) (auto intro: less_imp_le)
  obtain ys zs where xs: "xs = ys @ x # zs" using assms(2) by (auto dest: split_list)
  have "sum_list (map f (update_where P g ys)) \<le> sum_list (map f ys)"
    "sum_list (map f (update_where P g zs)) \<le> sum_list (map f zs)" "f (g x) < f x"
    using assms by (auto simp: xs intro!: le)
  then show ?thesis
    using assms(3) by (simp add: xs update_where_append)
qed

lemma incomplete_page:
  assumes "listing_wf h L" and "p \<in> set (bl_pages L)"
  shows "p_completeAt p = None \<longleftrightarrow> 0 < missing_in p"
    and "p_materializationOffset p \<le> p_responseItemCount p"
  using assms by (auto simp: listing_wf_def pages_exact_def page_exact_def missing_in_def Let_def)

lemma chunk_progress:
  assumes "listing_wf h L" and "p \<in> set (bl_pages L)" and "p_completeAt p = None" and "chunk_step h now requested c p L L'"
  shows "missing L' < missing L" and "next_offset h requested p \<le> p_responseItemCount p"
proof -
  have inside: "p_materializationOffset p < length (body_jobs (p_rawBody p))"
    using incomplete_page [OF assms(1,2)] assms(3,4) by (simp add: missing_in_def chunk_step_def)
  then have more: "p_materializationOffset p < next_offset h requested p"
    by (simp add: next_offset_def next_chunk_def chunk_size_pos)
  have unique: "q = p" if "q \<in> set (bl_pages L)" "p_key q = p_key p" for q
    using assms(1,2) that by (auto simp: listing_wf_def Let_def intro: pages_exact_keys)
  have smaller: "missing_in (advanced (next_offset h requested p) d q) < missing_in q"
    if "q \<in> set (bl_pages L)" "p_key q = p_key p" for q d
    unfolding unique [OF that] using more incomplete_page(1) [OF assms(1,2)] assms(3) by (simp add: missing_in_def)
  have pages: "bl_pages L' = update_where (\<lambda>q. p_key q = p_key p)
      (advanced (next_offset h requested p) (next_complete h now requested p)) (bl_pages L)"
    using assms(4) by (simp add: chunk_step_def)
  show "missing L' < missing L"
    unfolding missing_def pages
  proof (rule sum_list_update_where)
    show "p \<in> set (bl_pages L)" by (rule assms(2))
  qed (use smaller in auto)
  show "next_offset h requested p \<le> p_responseItemCount p"
    using assms(4) inside by (simp add: next_offset_def next_chunk_def chunk_step_def)
qed

definition claim_for :: "ledger_claim \<Rightarrow> batch_ledger \<Rightarrow> bool" where
  "claim_for c L \<longleftrightarrow> cl_platform c = b_platform (bl_row L) \<and> cl_listingGeneration c = b_activeLedgerGeneration (bl_row L)"

lemma materialize_claim:
  assumes "materializeAtsV2PageObservations h now c key listingComplete requested L = Inr ((n, finished), L')"
    and "claim_for c L"
  shows "claim_for c L'"
  using assms(1) by (cases rule: materialize_cases) (use assms(2) in \<open>auto simp: chunk_step_def claim_for_def\<close>)

definition page_open :: "page_key \<Rightarrow> batch_ledger \<Rightarrow> bool" where
  "page_open key L \<longleftrightarrow> (\<exists>p \<in> set (bl_pages L). p_key p = key \<and> p_completeAt p = None)"

lemma materialize_progress:
  assumes "materializeAtsV2PageObservations h now c key listingComplete requested L = Inr ((n, finished), L')"
    and "listing_wf h L" and "page_open key L \<or> \<not> finished"
  shows "missing L' < missing L \<and> (finished \<or> page_open key L')"
  using assms(1)
proof (cases rule: materialize_cases)
  case p: (1 p)
  have "q = p" if "q \<in> set (bl_pages L)" "p_key q = key" for q
    using assms(2) p(2,3) that by (auto simp: listing_wf_def Let_def intro: pages_exact_keys)
  then have inc: "p_completeAt p = None" using assms(3) p(5) by (auto simp: page_open_def)
  then have step: "chunk_step h now requested c p L L'" "finished \<longleftrightarrow> next_offset h requested p = p_responseItemCount p"
    using p(5) by auto
  have "page_open key L'" if "\<not> finished"
  proof -
    have "next_complete h now requested p = None"
      using that step by (simp add: next_complete_def chunk_step_def)
    moreover have "advanced (next_offset h requested p) (next_complete h now requested p) p \<in> set (bl_pages L')"
      using step(1) p(2) by (auto simp: chunk_step_def set_update_where)
    ultimately show ?thesis using p(3) unfolding page_open_def by (metis advanced_sel(1,6))
  qed
  with chunk_progress(1) [OF assms(2) p(2) inc step(1)] show ?thesis by blast
qed

lemma materialize_page_returns:
  assumes "listing_wf h L" and "claim_for c L" and "page_open key L"
  shows "\<exists>r m L'. materialize_page h env startedAt c key completeListing n L = Some (r, m, L')
    \<and> listing_wf h L' \<and> claim_for c L'
    \<and> m + missing L' \<le> n + missing L \<and> (r = Done \<longrightarrow> missing L' < missing L)"
  using assms
proof (induction "missing L" arbitrary: L n rule: less_induct)
  case less
  show ?case
  proof (cases "te_aborted env n")
    case True
    with less.prems show ?thesis by (simp add: materialize_page.simps)
  next
    case run: False
    show ?thesis
    proof (cases "materializeAtsV2PageObservations h (te_now env n) c key completeListing None L")
      case (Inl e)
      with run less.prems show ?thesis by (simp add: materialize_page.simps)
    next
      case (Inr x)
      obtain k finished L1 where x: "x = ((k, finished), L1)" by (metis surj_pair)
      note step = Inr [unfolded x]
      have L1: "listing_wf h L1" "claim_for c L1" "missing L1 < missing L"
        "finished \<or> page_open key L1"
        using materialize_wf [OF step less.prems(1)] materialize_claim [OF step less.prems(2)] less.prems(2,3)
          materialize_progress [OF step less.prems(1)] by (auto simp: claim_for_def)
      show ?thesis
      proof (cases "finished \<or> budget_spent h env startedAt n")
        case True
        with run step L1 show ?thesis by (auto simp: materialize_page.simps)
      next
        case False
        with less.hyps [OF L1(3,1,2), of "n + 1"] L1(4)
        obtain r m L' where "materialize_page h env startedAt c key completeListing (n + 1) L1 = Some (r, m, L')"
          "listing_wf h L'" "claim_for c L'" "m + missing L' \<le> n + 1 + missing L1"
          "r = Done \<longrightarrow> missing L' < missing L1"
          by auto
        moreover from run step False
        have "materialize_page h env startedAt c key completeListing n L = materialize_page h env startedAt c key completeListing (n + 1) L1"
          by (subst materialize_page.simps) simp
        ultimately show ?thesis using L1(3) by auto
      qed
    qed
  qed
qed

lemma pending_page_Some:
  assumes "pending_page g L = Some p"
  shows "p \<in> set (bl_pages L)" and "p_generation p = g" and "p_completeAt p = None"
  using assms by (auto simp: pending_page_def split: list.splits dest!: js_sort_eq_Cons_in)

lemma pending_page_None: "pending_page g L = None \<longleftrightarrow> incomplete_pages g L = 0"
  by (auto simp: pending_page_def incomplete_pages_def count_where_def split: list.splits)

lemma saved_end_keeps:
  assumes "completeAtsV2ListingAtSavedEnd now c L = Inr (r, L')"
  shows "bl_pages L' = bl_pages L" and "bl_observations L' = bl_observations L"
    and "claim_for c L \<Longrightarrow> claim_for c L'"
  using assms
  by (auto simp: completeAtsV2ListingAtSavedEnd_def claim_for_def Let_def split: if_splits option.splits
      dest!: update_receipt_Inr)

text \<open>The end of the resuming loop, when no page is pending.\<close>

lemma resume_ends:
  assumes "listing_wf h L" and "claim_for c L" and "pending_page (cl_listingGeneration c) L = None"
  shows "\<exists>r m L'. resume_listing h env startedAt c n L = Some (r, m, L') \<and> listing_wf h L' \<and> claim_for c L'
    \<and> m + missing L' \<le> n + missing L + 1 \<and> (r = Done \<longrightarrow> incomplete_pages (cl_listingGeneration c) L' = 0)"
proof (cases "te_aborted env n")
  case True
  with assms show ?thesis by (simp add: resume_listing.simps)
next
  case run: False
  let ?ending = "if latest_page (cl_listingGeneration c) L = None then Inr (False, L)
    else completeAtsV2ListingAtSavedEnd (te_now env n) c L"
  show ?thesis
  proof (cases ?ending)
    case (Inl e)
    with run assms show ?thesis
      by (simp add: resume_listing.simps readAtsV2ListingCheckpoint_def Let_def)
  next
    case (Inr x)
    obtain ended L1 where x: "x = (ended, L1)" by (cases x)
    have L1: "listing_wf h L1" "bl_pages L1 = bl_pages L" "claim_for c L1"
      using Inr x assms(1,2) by (auto split: if_splits dest: saved_end_wf saved_end_keeps)
    then have "missing L1 = missing L" "incomplete_pages (cl_listingGeneration c) L1 = 0"
      using assms(3) by (simp_all add: missing_def incomplete_pages_def pending_page_None)
    with run Inr x assms(3) L1(1,3) show ?thesis
      by (subst resume_listing.simps) (auto simp: readAtsV2ListingCheckpoint_def Let_def split: if_splits)
  qed
qed

lemma resume_listing_returns:
  assumes "listing_wf h L" and "claim_for c L"
  shows "\<exists>r m L'. resume_listing h env startedAt c n L = Some (r, m, L') \<and> listing_wf h L' \<and> claim_for c L'
    \<and> m + missing L' \<le> n + missing L + 1 \<and> (r = Done \<longrightarrow> incomplete_pages (cl_listingGeneration c) L' = 0)"
  using assms
proof (induction "missing L" arbitrary: L n rule: less_induct)
  case less
  let ?g = "cl_listingGeneration c"
  show ?case
  proof (cases "pending_page ?g L")
    case None
    with less.prems show ?thesis by (rule resume_ends)
  next
    case (Some p)
    show ?thesis
    proof (cases "te_aborted env n")
      case True
      with less.prems show ?thesis by (simp add: resume_listing.simps)
    next
      case run: False
      let ?complete = "case latest_page ?g L of None \<Rightarrow> False | Some p \<Rightarrow> fst (page_completion (cl_platform c) p)"
      have "page_open (p_key p) L" using pending_page_Some [OF Some] by (auto simp: page_open_def)
      from materialize_page_returns [OF less.prems this, of env startedAt ?complete n]
      obtain r m L1 where mat: "materialize_page h env startedAt c (p_key p) ?complete n L = Some (r, m, L1)"
        and L1: "listing_wf h L1" "claim_for c L1" "m + missing L1 \<le> n + missing L"
          "r = Done \<longrightarrow> missing L1 < missing L"
        by blast
      have unfold: "resume_listing h env startedAt c n L =
          (if r \<noteq> Done then Some (r, m, L1) else if budget_spent h env startedAt m then Some (Budget_spent, m, L1)
           else resume_listing h env startedAt c m L1)"
        using run Some mat by (subst resume_listing.simps) (simp add: readAtsV2ListingCheckpoint_def Let_def)
      show ?thesis
      proof (cases "r = Done \<and> \<not> budget_spent h env startedAt m")
        case True
        with less.hyps [of L1 m] L1
        obtain r' m' L' where "resume_listing h env startedAt c m L1 = Some (r', m', L')" "listing_wf h L'" "claim_for c L'"
          "m' + missing L' \<le> m + missing L1 + 1" "r' = Done \<longrightarrow> incomplete_pages ?g L' = 0"
          by blast
        with True unfold L1(3) show ?thesis by auto
      next
        case False
        with unfold L1 show ?thesis by auto
      qed
    qed
  qed
qed

section \<open>Nothing is lost between pages and observations\<close>

lemma sum_indicator: "distinct ks \<Longrightarrow> a \<in> set ks \<Longrightarrow> (\<Sum>k\<leftarrow>ks. if a = k then (1::nat) else 0) = 1"
proof (induction ks)
  case (Cons k ks)
  have "(\<Sum>k\<leftarrow>ks. if a = k then (1::nat) else 0) = 0" if "a \<notin> set ks"
    using that by (induction ks) auto
  with Cons show ?case by auto
qed simp

lemma length_by_key:
  assumes "distinct ks" and "\<And>x. x \<in> set xs \<Longrightarrow> f x \<in> set ks"
  shows "(\<Sum>k\<leftarrow>ks. length (filter (\<lambda>x. f x = k) xs)) = length xs"
  using assms(2)
proof (induction xs)
  case (Cons x xs)
  have "(\<Sum>k\<leftarrow>ks. length (filter (\<lambda>x. f x = k) (x # xs)))
      = (\<Sum>k\<leftarrow>ks. (if f x = k then 1 else 0) + length (filter (\<lambda>x. f x = k) xs))"
    by (intro arg_cong [where f = sum_list] map_cong) auto
  also have "\<dots> = 1 + length xs"
    using Cons sum_indicator [OF assms(1), of "f x"] by (simp add: sum_list_addf)
  finally show ?case by simp
qed simp

lemma pages_distinct_keys:
  assumes "listing_wf h L"
  shows "distinct (map p_key (bl_pages L))"
proof -
  have "map p_requestedOffset (bl_pages L) = map snd (map p_key (bl_pages L))"
    by (simp add: p_key_def comp_def)
  with assms show ?thesis
    unfolding listing_wf_def Let_def pages_exact_def by (metis distinct_map)
qed

text \<open>The postings of all committed pages are the observations and the missing ones.\<close>

lemma listing_total:
  assumes "listing_wf h L"
  shows "b_listingOffset (bl_row L) = b_rawObservationCount (bl_row L) + missing L"
proof -
  have exact: "page_exact h (b_platform (bl_row L)) (bl_observations L) p" if "p \<in> set (bl_pages L)" for p
    using assms that by (simp add: listing_wf_def Let_def pages_exact_def)
  have page: "length (filter (\<lambda>ob. o_page ob = p_key p) (bl_observations L)) = p_materializationOffset p"
    if "p \<in> set (bl_pages L)" for p
    using exact [OF that] by (auto simp: page_exact_def Let_def page_observations_def)
  have "length (bl_observations L) = (\<Sum>k\<leftarrow>map p_key (bl_pages L). length (filter (\<lambda>ob. o_page ob = k) (bl_observations L)))"
    using pages_distinct_keys [OF assms] assms
    by (subst length_by_key [where f = o_page]) (auto simp: listing_wf_def Let_def pages_exact_def)
  also have "\<dots> = (\<Sum>p\<leftarrow>bl_pages L. p_materializationOffset p)"
    by (auto simp: comp_def page intro!: arg_cong [where f = sum_list])
  finally have "length (bl_observations L) + missing L
      = (\<Sum>p\<leftarrow>bl_pages L. p_materializationOffset p + missing_in p)"
    by (simp add: missing_def sum_list_addf)
  also have "\<dots> = (\<Sum>p\<leftarrow>bl_pages L. p_responseItemCount p)"
    using incomplete_page(2) [OF assms] by (intro arg_cong [where f = sum_list] map_cong) (auto simp: missing_in_def)
  also have "\<dots> = b_listingOffset (bl_row L)"
    using assms tiled_sum [of 0 "map page_range (bl_pages L)" "b_listingOffset (bl_row L)"]
    by (simp add: listing_wf_def Let_def comp_def page_range_def)
  finally show ?thesis
    using assms by (simp add: listing_wf_def Let_def)
qed

lemma complete_missing:
  assumes "listing_wf h L"
  shows "incomplete_pages (b_activeLedgerGeneration (bl_row L)) L = 0 \<longleftrightarrow> missing L = 0"
  using assms incomplete_page(1) [OF assms]
  by (auto simp: incomplete_pages_def count_where_0 missing_def listing_wf_def Let_def pages_exact_def)

lemma listing_wf_admitted [simp]: "listing_wf h (admitted_ledger h now a board)"
  by (simp add: listing_wf_def admitted_ledger_def admitted_row_def pages_exact_def)

section \<open>Properties\<close>

text \<open>C22. Resuming a listing ends. However many postings of earlier answers are still to be turned into
  observations, whatever the clock and the abort signal do and whoever owns the batch meanwhile, the
  turn is over after at most one transaction per missing posting and one more; and it goes on to ask
  the provider only when every posting it was ever given is recorded: the observations are as many
  as the listing offset.\<close>

theorem resume_listing_terminates:
  assumes "listing_wf h L" and "claim_for c L"
  shows "\<exists>r m L'. resume_listing h env startedAt c n L = Some (r, m, L') \<and> m \<le> n + missing L + 1
    \<and> (r = Done \<longrightarrow> b_rawObservationCount (bl_row L') = b_listingOffset (bl_row L'))"
proof -
  obtain r m L' where "resume_listing h env startedAt c n L = Some (r, m, L')" "listing_wf h L'" "claim_for c L'"
    "m + missing L' \<le> n + missing L + 1" "r = Done \<longrightarrow> incomplete_pages (cl_listingGeneration c) L' = 0"
    using resume_listing_returns [OF assms] by blast
  moreover have "r = Done \<longrightarrow> b_rawObservationCount (bl_row L') = b_listingOffset (bl_row L')"
    using calculation complete_missing [of h L'] listing_total [of h L'] by (simp add: claim_for_def)
  ultimately show ?thesis by fastforce
qed

definition sample_host :: host where
  "sample_host = \<lparr>h_sha = (\<lambda>s. s), h_num = (\<lambda>n. ''0''), h_collate = code_unit_cmp, h_env = (\<lambda>v. None),
     h_wall = (\<lambda>t. t), h_text = (\<lambda>t. ''t'')\<rparr>"

definition sample_admission :: admission where
  "sample_admission = \<lparr>ad_batchId = ''b'', ad_sweepId = ''s'', ad_workReceiptId = ''w'', ad_claimToken = ''t'',
     ad_owner = ''o'', ad_slug = ''acme'', ad_platform = ''lever'', ad_segmentSize = None\<rparr>"

definition sample_company :: board_row where
  "sample_company = \<lparr>co_status = ''active'', co_checkDay = 0, co_failCount = 0, co_retryCount = 0, co_jobsFound = 0,
     co_nextCheckDate = 0, co_lastAttemptedAt = None, co_lastRespondedAt = None, co_lastCheckedAt = None,
     co_lastSynchronizedAt = None, co_lastProcessedAt = None\<rparr>"

text \<open>A batch whose only page, of one posting, waits to be materialised.\<close>

definition sample_page :: page where
  "sample_page = \<lparr>p_generation = 1, p_requestedOffset = 0, p_requestedLimit = 1, p_providerOffset = None,
     p_providerTotal = None, p_responseItemCount = 1, p_responseHash = [], p_identityMultisetHash = [], p_metadata = [],
     p_rawBody = Some (raw_body [] [[(''id'', JStr ''7'')]] None),
     p_rawBodyHash = atsLedgerHash sample_host (raw_body [] [[(''id'', JStr ''7'')]] None), p_rawBodyBytes = 0,
     p_materializationOffset = 0, p_requestedAt = 0, p_respondedAt = 0, p_httpStatus = 200, p_completeAt = None\<rparr>"

definition sample_pending :: batch_ledger where
  "sample_pending = (let L = admitted_ledger sample_host 0 sample_admission sample_company in
     L\<lparr>bl_pages := [sample_page], bl_row := (bl_row L)\<lparr>b_listingOffset := 1\<rparr>\<rparr>)"

lemma sample_pending_wf: "listing_wf sample_host sample_pending"
proof -
  have "page_exact sample_host platform [] sample_page" for platform
    unfolding page_exact_def Let_def
    by (intro exI [of _ "[[(''id'', JStr ''7'')]]"]) (simp add: sample_page_def page_observations_def)
  then show ?thesis
    by (simp add: listing_wf_def sample_pending_def admitted_ledger_def admitted_row_def pages_exact_def Let_def)
       (simp add: page_range_def sample_page_def)
qed

theorem resume_listing_terminates_witness:
  "missing sample_pending = 1 \<and>
   (\<exists>r m L'. resume_listing sample_host \<lparr>te_now = (\<lambda>n. 5), te_clock = (\<lambda>n. 5), te_aborted = (\<lambda>n. False)\<rparr> 0
      (admitted_claim sample_admission) 0 sample_pending = Some (r, m, L') \<and> m \<le> 0 + 1 + 1)"
proof -
  have "claim_for (admitted_claim sample_admission) sample_pending"
    by (simp add: claim_for_def admitted_claim_def sample_pending_def admitted_ledger_def admitted_row_def
        sample_admission_def Let_def)
  from resume_listing_terminates [OF sample_pending_wf this] have "\<exists>r m L'.
      resume_listing sample_host \<lparr>te_now = (\<lambda>n. 5), te_clock = (\<lambda>n. 5), te_aborted = (\<lambda>n. False)\<rparr> 0
        (admitted_claim sample_admission) 0 sample_pending = Some (r, m, L') \<and> m \<le> 0 + missing sample_pending + 1"
    by blast
  moreover have "missing sample_pending = 1"
    by (simp add: missing_def missing_in_def sample_pending_def sample_page_def Let_def)
  ultimately show ?thesis by metis
qed

end
