(* ===== verification/Ledger_Items.thy ===== *)
theory Ledger_Items
  imports Ledger_Listing
begin

text \<open>
  From observations to sealed segments: every observation is resolved once, into an item or as an exact
  duplicate of a job that is already final; the items become terminal, without the network where the
  listing says enough and by one detail request each otherwise; runs of terminal items are sealed
  into segments with an immutable manifest (\<open>src/lib/atsAcquisitionLedger.ts\<close>:
  \<open>emptyAtsListingResponseOverlay\<close> to \<open>sealReadyAtsV2Segments\<close>; \<open>src/lib/atsRawEvidence.ts\<close>).

  The enrichment of a listed job (\<open>src/lib/atsJobEnrichment.ts\<close>) is a parameter: the marker it attaches to
  the job, with its overlay. The rows of \<open>JobSourceObservation\<close> joined with their jobs are an
  argument, and so is the board slug of a job address.
\<close>

definition ATS_JOB_ENRICHMENT_KEY :: string where
  "ATS_JOB_ENRICHMENT_KEY = ''__careerDashboardAtsEnrichment''"

definition ATS_JOB_ENRICHMENT_VERSION :: nat where "ATS_JOB_ENRICHMENT_VERSION = 1"

definition ATS_INVALID_PROVIDER_RESPONSE_REASON :: string where
  "ATS_INVALID_PROVIDER_RESPONSE_REASON = ''invalid_provider_response''"

section \<open>Resolving observations\<close>

record source_row =
  sr_source :: string
  sr_sourceId :: string
  sr_jobId :: string
  sr_jobStatus :: "string option"
  sr_jobUpdatedAt :: ms
  sr_url :: "string option"

definition OBSERVED_SOURCE_LOOKUP_CHUNK_SIZE :: nat where "OBSERVED_SOURCE_LOOKUP_CHUNK_SIZE = 500"

fun chunks :: "nat \<Rightarrow> nat \<Rightarrow> 'a list \<Rightarrow> 'a list list" where
  "chunks 0 n xs = []"
| "chunks (Suc fuel) n xs = (if xs = [] then [] else take n xs # chunks fuel n (drop n xs))"

text \<open>The lookups go over the distinct source identifiers in chunks; as many chunks as identifiers are
  always enough.\<close>

definition observedAtsSourceStates ::
  "host \<Rightarrow> (string option \<Rightarrow> string \<Rightarrow> string option) \<Rightarrow> source_row list \<Rightarrow> string \<Rightarrow> job list \<Rightarrow> observed_state list" where
  "observedAtsSourceStates h boardSlugFromJobUrl table platform jobs =
     (let sourceIds = js_sort code_unit_cmp (dedup (List.map_filter (atsListingSourceId (h_num h) platform) jobs));
          lookup = (\<lambda>chunk. js_sort (then_cmp (key_cmp sr_sourceId (h_collate h)) (key_cmp sr_jobId (h_collate h)))
            (filter (\<lambda>r. sr_source r = ''ATS-'' @ platform \<and> sr_sourceId r \<in> set chunk) table))
      in map (\<lambda>r. \<lparr>os_sourceId = sr_sourceId r, os_jobId = sr_jobId r, os_jobStatus = sr_jobStatus r,
                os_jobUpdatedAt = h_text h (sr_jobUpdatedAt r), os_boardSlug = boardSlugFromJobUrl (sr_url r) platform\<rparr>)
           (concat (map lookup (chunks (length sourceIds) OBSERVED_SOURCE_LOOKUP_CHUNK_SIZE sourceIds))))"

definition o_key :: "observation \<Rightarrow> observation_key" where
  "o_key ob = (o_page ob, o_pageOrdinal ob)"

definition emptyAtsListingResponseOverlay :: "host \<Rightarrow> observation \<Rightarrow> string \<Rightarrow> ms \<Rightarrow> json option" where
  "emptyAtsListingResponseOverlay h ob platform now =
     (if o_rawJson ob \<noteq> JObj [] \<or> o_providerSourceId ob \<noteq> None \<or> o_rawHash ob \<noteq> atsLedgerHash h (JObj []) then None
      else Some (JObj [(ATS_JOB_ENRICHMENT_KEY, JObj [(''version'', JNum (of_nat ATS_JOB_ENRICHMENT_VERSION)),
        (''status'', JStr ''not_needed''), (''platform'', JStr platform),
        (''detailSource'', JStr (''ATS-'' @ platform @ '' Details'')), (''attempted'', JBool False),
        (''completedAt'', JStr (h_text h now)), (''description'', JNull), (''company'', JNull), (''location'', JNull),
        (''compensation'', JNull), (''reason'', JStr ATS_INVALID_PROVIDER_RESPONSE_REASON),
        (''error'', JStr ''Provider returned an empty listing object with no job identity or content.'')])]))"

text \<open>One observation: the item it becomes, unless it is left out as compacted, and its resolution. \<open>ordinal\<close> is
  the next free ordinal.\<close>

definition new_item :: "nat \<Rightarrow> observation \<Rightarrow> json option \<Rightarrow> ms \<Rightarrow> item" where
  "new_item ordinal ob overlay now = \<lparr>i_ordinal = ordinal, i_observation = o_key ob,
     i_providerSourceId = o_providerSourceId ob, i_rawHash = o_rawHash ob, i_overlay = overlay,
     i_version = (if overlay = None then None else Some ATS_JOB_ENRICHMENT_VERSION),
     i_status = (if overlay = None then ''pending'' else ''terminal''),
     i_reason = (if overlay = None then None else Some ATS_INVALID_PROVIDER_RESPONSE_REASON),
     i_terminalAt = (if overlay = None then None else Some now), i_nextDetailAt = None, i_retryCode = None,
     i_retryScope = None, i_detailError = None, i_detailAttemptCount = 0, i_claimToken = None, i_claimOwner = None,
     i_claimFence = 0, i_claimExpiresAt = None\<rparr>"

definition resolution_row :: "host \<Rightarrow> observation \<Rightarrow> nat option \<Rightarrow> json option \<Rightarrow> json \<Rightarrow> resolution" where
  "resolution_row h ob itemOrdinal overlay detail =
     (let type = (if overlay \<noteq> None then ATS_INVALID_PROVIDER_RESPONSE_REASON
                  else if itemOrdinal = None then ''compacted_exact_terminal'' else ''canonical_item'')
      in \<lparr>r_observation = o_key ob, r_item = itemOrdinal, r_type = type,
          r_occurrenceKey = str_or (o_providerSourceId ob) (o_rawHash ob), r_detail = detail,
          r_hash = atsLedgerHash h (JObj [(''observationId'', JArr [JNum (of_nat (fst (o_page ob))),
              JNum (of_nat (snd (o_page ob))), JNum (of_nat (o_pageOrdinal ob))]),
            (''rawHash'', JStr (o_rawHash ob)),
            (''itemId'', case itemOrdinal of None \<Rightarrow> JNull | Some n \<Rightarrow> JNum (of_nat n)),
            (''type'', JStr type), (''detail'', detail)])\<rparr>)"

definition compacted_detail :: "compacted_receipt list \<Rightarrow> nat \<Rightarrow> json" where
  "compacted_detail items index = (case find (\<lambda>r. cr_originalItemIndex r = index) items of
     None \<Rightarrow> JObj [] | Some r \<Rightarrow> receipt_json r)"

definition canonical_detail :: "nat \<Rightarrow> json option \<Rightarrow> json" where
  "canonical_detail ordinal overlay = JObj ((''canonicalOrdinal'', JNum (of_nat ordinal)) #
     (if overlay \<noteq> None then [(''reason'', JStr ATS_INVALID_PROVIDER_RESPONSE_REASON)] else []))"

text \<open>The loop over the observations with their overlays. An observation is compacted when it has no
  overlay and its index is among the compacted ones.\<close>

primrec resolve_rows ::
  "host \<Rightarrow> ms \<Rightarrow> compacted_receipt list \<Rightarrow> nat set \<Rightarrow> nat \<Rightarrow> (nat \<times> observation \<times> json option) list
    \<Rightarrow> item list \<times> resolution list" where
  "resolve_rows h now receipts compactedIndexes ordinal [] = ([], [])"
| "resolve_rows h now receipts compactedIndexes ordinal (x # xs) =
     (let (index, ob, overlay) = x in
      if overlay = None \<and> index \<in> compactedIndexes
      then let (items, resolutions) = resolve_rows h now receipts compactedIndexes ordinal xs
           in (items, resolution_row h ob None None (compacted_detail receipts index) # resolutions)
      else let (items, resolutions) = resolve_rows h now receipts compactedIndexes (ordinal + 1) xs
           in (new_item ordinal ob overlay now # items,
               resolution_row h ob (Some ordinal) overlay (canonical_detail ordinal overlay) # resolutions))"

definition unresolved :: "batch_ledger \<Rightarrow> observation list" where
  "unresolved L = js_sort (then_cmp (key_cmp (\<lambda>ob. int (snd (o_page ob))) num_cmp) (key_cmp (\<lambda>ob. int (o_pageOrdinal ob)) num_cmp))
     (filter (\<lambda>ob. fst (o_page ob) = b_activeLedgerGeneration (bl_row L)
        \<and> o_key ob \<notin> r_observation ` set (bl_resolutions L)) (bl_observations L))"

record resolve_result =
  rr_resolved :: nat
  rr_retained :: nat
  rr_compacted :: nat
  rr_complete :: bool

definition no_resolution :: "bool \<Rightarrow> resolve_result" where
  "no_resolution finished = \<lparr>rr_resolved = 0, rr_retained = 0, rr_compacted = 0, rr_complete = finished\<rparr>"

definition resolution_manifest :: "host \<Rightarrow> nat \<Rightarrow> nat \<Rightarrow> nat \<Rightarrow> nat \<Rightarrow> string" where
  "resolution_manifest h generation rawCount canonicalCount compactedCount = atsLedgerHash h (JObj [
     (''generation'', JNum (of_nat generation)), (''raw'', JNum (of_nat rawCount)),
     (''canonical'', JNum (of_nat canonicalCount)), (''compacted'', JNum (of_nat compactedCount))])"

text \<open>What a resolved chunk writes: the rows and the counters of the batch.\<close>

definition write_resolution ::
  "host \<Rightarrow> ms \<Rightarrow> bool \<Rightarrow> item list \<Rightarrow> resolution list \<Rightarrow> nat \<Rightarrow> nat \<Rightarrow> batch_ledger \<Rightarrow> bool \<times> batch_ledger" where
  "write_resolution h now isPrefix items resolutions compactedCount invalidResponses L =
     (let b = bl_row L;
          nextCanonical = b_canonicalOccurrenceCount b + length items;
          nextCompacted = b_compactedOccurrenceCount b + compactedCount;
          complete = (nextCanonical + nextCompacted = b_rawObservationCount b)
      in (complete \<and> \<not> isPrefix,
          L\<lparr>bl_items := bl_items L @ items, bl_resolutions := bl_resolutions L @ resolutions,
            bl_row := b\<lparr>b_canonicalOccurrenceCount := nextCanonical, b_compactedOccurrenceCount := nextCompacted,
              b_terminalItemCount := b_terminalItemCount b + invalidResponses,
              b_acquisitionPhase := (if isPrefix then ''listing'' else if complete then ''enrichment'' else ''compaction''),
              b_manifestHash := (if complete \<and> \<not> isPrefix
                then Some (resolution_manifest h (b_activeLedgerGeneration b) (b_rawObservationCount b) nextCanonical nextCompacted)
                else b_manifestHash b),
              b_claimHeartbeatAt := Some now\<rparr>\<rparr>))"

definition resolve_chunk ::
  "host \<Rightarrow> ms \<Rightarrow> (string option \<Rightarrow> string \<Rightarrow> string option) \<Rightarrow> source_row list \<Rightarrow> ledger_claim \<Rightarrow> bool \<Rightarrow> observation list
    \<Rightarrow> batch_ledger \<Rightarrow> ledger_error + resolve_result \<times> batch_ledger" where
  "resolve_chunk h now slug_of table c isPrefix obs L =
     (let b = bl_row L;
          jobs = map (\<lambda>ob. json_object (Some (o_rawJson ob))) obs;
          overlays = map (\<lambda>ob. emptyAtsListingResponseOverlay h ob (b_platform b) now) obs;
          (retained, marker) = planAtsPrequeueCompaction (h_sha h) (h_num h) (b_platform b) (b_slug b) jobs
            (observedAtsSourceStates h slug_of table (b_platform b) jobs);
          compactedIndexes = set (map cr_originalItemIndex
            (filter (\<lambda>r. overlays ! cr_originalItemIndex r = None) (cm_compactedItems marker)));
          (items, resolutions) = resolve_rows h now (cm_compactedItems marker) compactedIndexes
            (b_canonicalOccurrenceCount b) (zip [0..<length obs] (zip obs overlays));
          invalidResponses = count_where (\<lambda>v. v \<noteq> None) overlays;
          (complete, L1) = write_resolution h now isPrefix items resolutions (card compactedIndexes) invalidResponses L;
          result = \<lparr>rr_resolved = length obs, rr_retained = length items, rr_compacted = card compactedIndexes,
            rr_complete = complete\<rparr>
      in if \<exists>(job, overlay) \<in> set (zip jobs overlays). job = [] \<and> overlay = None then Inl ObservationWithoutJson
         else if 0 < invalidResponses
         then update_receipt (cl_workReceiptId c)
                (\<lambda>w. w\<lparr>w_itemsTerminalized := w_itemsTerminalized w + invalidResponses,
                   w_itemsProgressed := w_itemsProgressed w + invalidResponses, w_heartbeatAt := Some now\<rparr>) result L1
         else Inr (result, L1))"

definition resolveNextAtsV2ObservationChunk ::
  "host \<Rightarrow> ms \<Rightarrow> (string option \<Rightarrow> string \<Rightarrow> string option) \<Rightarrow> source_row list \<Rightarrow> ledger_claim \<Rightarrow> int option \<Rightarrow> bool
    \<Rightarrow> batch_ledger \<Rightarrow> ledger_error + resolve_result \<times> batch_ledger" where
  "resolveNextAtsV2ObservationChunk h now slug_of table c requested allowListingPrefix L =
     (let b = bl_row L;
          isPrefix = (allowListingPrefix \<and> b_acquisitionPhase b = ''listing'');
          obs = take (chunk_size (ATS_LEDGER_OBSERVATION_CHUNK_SIZE h) requested) (unresolved L)
      in
      if \<not> assertClaimMatchesBatch b c now then Inl LostClaim
      else if isPrefix \<and> 0 < incomplete_pages (b_activeLedgerGeneration b) L then Inr (no_resolution False, L)
      else if b_acquisitionPhase b \<noteq> ''compaction'' \<and> \<not> isPrefix
      then Inr (no_resolution (b_acquisitionPhase b \<noteq> ''listing''), L)
      else if obs = []
      then (if b_canonicalOccurrenceCount b + b_compactedOccurrenceCount b \<noteq> b_rawObservationCount b
            then Inl CountsDoNotReconcile
            else if isPrefix then Inr (no_resolution False, L)
            else Inr (no_resolution True, L\<lparr>bl_row := b\<lparr>b_acquisitionPhase := ''enrichment'',
              b_manifestHash := Some (resolution_manifest h (b_activeLedgerGeneration b) (b_rawObservationCount b)
                (b_canonicalOccurrenceCount b) (b_compactedOccurrenceCount b)),
              b_claimHeartbeatAt := Some now\<rparr>\<rparr>))
      else resolve_chunk h now slug_of table c isPrefix obs L)"

section \<open>Making items terminal\<close>

text \<open>The marker the enrichment attaches to a job, with the overlay it is stored as.\<close>

record enrichment_marker =
  em_status :: string
  em_platform :: string
  em_attempted :: bool
  em_reason :: "string option"
  em_error :: "string option"
  em_overlay :: json

text \<open>\<open>resolveAtsItemRaw\<close>: the job of an item, read through its observation and checked against the hash
  the item was created with.\<close>

definition resolveAtsItemRaw :: "host \<Rightarrow> observation list \<Rightarrow> item \<Rightarrow> ledger_error + job" where
  "resolveAtsItemRaw h obs it =
     (case find (\<lambda>ob. o_key ob = i_observation it) obs of
        None \<Rightarrow> Inl (RawEvidenceDivergent (i_ordinal it))
      | Some ob \<Rightarrow>
          if o_rawHash ob \<noteq> i_rawHash it \<or> \<not> is_json_object (Some (o_rawJson ob))
             \<or> atsLedgerHash h (o_rawJson ob) \<noteq> i_rawHash it
          then Inl (RawEvidenceDivergent (i_ordinal it))
          else Inr (json_object (Some (o_rawJson ob))))"

definition detail_due :: "ms \<Rightarrow> item \<Rightarrow> bool" where
  "detail_due now it \<longleftrightarrow> i_nextDetailAt it = None \<or> due_by now (i_nextDetailAt it)"

definition by_ordinal :: "item list \<Rightarrow> item list" where
  "by_ordinal = js_sort (key_cmp (\<lambda>it. int (i_ordinal it)) num_cmp)"

definition made_terminal :: "ms \<Rightarrow> enrichment_marker \<Rightarrow> item \<Rightarrow> item" where
  "made_terminal now m it = it\<lparr>i_overlay := Some (em_overlay m), i_version := Some ATS_JOB_ENRICHMENT_VERSION,
     i_status := ''terminal'', i_reason := Some (str_or (em_reason m) (em_status m)), i_terminalAt := Some now,
     i_nextDetailAt := None, i_retryCode := None, i_retryScope := None\<rparr>"

definition no_network_candidates :: "ms \<Rightarrow> item list \<Rightarrow> item list" where
  "no_network_candidates now items = by_ordinal (filter (\<lambda>it. i_status it = ''pending'' \<and> i_reason it = None
     \<and> detail_due now it \<and> i_claimToken it = None) items)"

text \<open>What the loop does to one of the chosen items.\<close>

definition marked_item :: "ms \<Rightarrow> enrichment_marker option \<Rightarrow> item \<Rightarrow> item" where
  "marked_item now marker it = (case marker of
     None \<Rightarrow> it\<lparr>i_reason := Some ''network_required''\<rparr>
   | Some m \<Rightarrow> if em_attempted m then it\<lparr>i_reason := Some ''network_required''\<rparr> else made_terminal now m it)"

definition mark_items :: "ms \<Rightarrow> (nat \<Rightarrow> enrichment_marker option option) \<Rightarrow> item list \<Rightarrow> item list" where
  "mark_items now marker_at = map (\<lambda>it. case marker_at (i_ordinal it) of None \<Rightarrow> it | Some m \<Rightarrow> marked_item now m it)"

definition enrichment_phase :: "bool \<Rightarrow> batch_row \<Rightarrow> bool" where
  "enrichment_phase allowListingPrefix b \<longleftrightarrow> b_acquisitionPhase b = ''enrichment''
     \<or> allowListingPrefix \<and> b_acquisitionPhase b = ''listing''"

primrec raw_jobs :: "host \<Rightarrow> observation list \<Rightarrow> item list \<Rightarrow> ledger_error + job list" where
  "raw_jobs h obs [] = Inr []"
| "raw_jobs h obs (it # rest) =
     (case resolveAtsItemRaw h obs it of
        Inl e \<Rightarrow> Inl e
      | Inr job \<Rightarrow> (case raw_jobs h obs rest of Inl e \<Rightarrow> Inl e | Inr js \<Rightarrow> Inr (job # js)))"

definition terminalizeAtsV2NoNetworkItems ::
  "host \<Rightarrow> ms \<Rightarrow> (string \<Rightarrow> string \<Rightarrow> job \<Rightarrow> enrichment_marker option) \<Rightarrow> ledger_claim \<Rightarrow> int option \<Rightarrow> bool
    \<Rightarrow> batch_ledger \<Rightarrow> ledger_error + (nat \<times> nat) \<times> batch_ledger" where
  "terminalizeAtsV2NoNetworkItems h now marker_of c requested allowListingPrefix L =
     (let b = bl_row L;
          chosen = take (chunk_size (ATS_LEDGER_MARKER_CHUNK_SIZE h) requested) (no_network_candidates now (bl_items L))
      in
      if \<not> assertClaimMatchesBatch b c now then Inl LostClaim
      else if \<not> enrichment_phase allowListingPrefix b then Inr ((0, 0), L)
      else (case raw_jobs h (bl_observations L) chosen of
        Inl e \<Rightarrow> Inl e
      | Inr jobs \<Rightarrow>
          let markers = map (marker_of (b_platform b) (b_slug b)) jobs;
              settled = filter (\<lambda>m. case m of None \<Rightarrow> False | Some x \<Rightarrow> \<not> em_attempted x) markers;
              terminalized = length settled;
              marker_at = map_of (zip (map i_ordinal chosen) markers)
          in
          if \<exists>m \<in> set settled. em_platform (the m) \<noteq> b_platform b then Inl MarkerMissing
          else update_receipt (cl_workReceiptId c)
                 (\<lambda>w. w\<lparr>w_itemsInspected := w_itemsInspected w + length chosen,
                    w_itemsTerminalized := w_itemsTerminalized w + terminalized,
                    w_itemsProgressed := w_itemsProgressed w + terminalized,
                    w_transactionPhase := Some ''item_checkpoint'', w_heartbeatAt := Some now\<rparr>)
                 (length chosen, terminalized)
                 (L\<lparr>bl_items := mark_items now marker_at (bl_items L),
                    bl_row := (if 0 < terminalized
                      then b\<lparr>b_terminalItemCount := b_terminalItemCount b + terminalized, b_claimHeartbeatAt := Some now\<rparr>
                      else b)\<rparr>)))"

section \<open>One detail request\<close>

text \<open>\<open>enrichNextAtsV2DetailItem\<close> is a claim, the request outside of any transaction, and then either the
  settlement with the marker of the enriched job or the deferral of the item.\<close>

definition detail_candidates :: "ms \<Rightarrow> item list \<Rightarrow> item list" where
  "detail_candidates now items = by_ordinal (filter (\<lambda>it. i_status it = ''pending''
     \<and> i_reason it = Some ''network_required'' \<and> detail_due now it \<and> i_claimToken it = None) items)"

definition claimed_item :: "host \<Rightarrow> ms \<Rightarrow> ledger_claim \<Rightarrow> string \<Rightarrow> item \<Rightarrow> item" where
  "claimed_item h now c itemClaimToken it = it\<lparr>i_claimToken := Some itemClaimToken, i_claimOwner := Some (cl_claimToken c),
     i_claimFence := i_claimFence it + 1, i_claimExpiresAt := Some (now + ATS_LEDGER_WORK_LEASE_MS h),
     i_detailAttemptCount := i_detailAttemptCount it + 1\<rparr>"

definition claimDetailItem ::
  "host \<Rightarrow> ms \<Rightarrow> ledger_claim \<Rightarrow> string \<Rightarrow> bool \<Rightarrow> batch_ledger \<Rightarrow> ledger_error + item option \<times> batch_ledger" where
  "claimDetailItem h now c itemClaimToken allowListingPrefix L =
     (if \<not> assertClaimMatchesBatch (bl_row L) c now then Inl LostClaim
      else if \<not> enrichment_phase allowListingPrefix (bl_row L) then Inr (None, L)
      else (case detail_candidates now (bl_items L) of
        [] \<Rightarrow> Inr (None, L)
      | candidate # rest \<Rightarrow>
          Inr (Some (claimed_item h now c itemClaimToken candidate),
            L\<lparr>bl_items := update_where (\<lambda>it. i_ordinal it = i_ordinal candidate) (claimed_item h now c itemClaimToken) (bl_items L)\<rparr>)))"

definition fenced_item :: "item \<Rightarrow> item \<Rightarrow> bool" where
  "fenced_item claimed it \<longleftrightarrow> i_ordinal it = i_ordinal claimed \<and> i_claimToken it = i_claimToken claimed
     \<and> i_claimToken claimed \<noteq> None \<and> i_claimFence it = i_claimFence claimed"

definition free_item :: "item \<Rightarrow> item" where
  "free_item it = it\<lparr>i_claimToken := None, i_claimOwner := None, i_claimExpiresAt := None\<rparr>"

definition settled_item :: "ms \<Rightarrow> enrichment_marker \<Rightarrow> item \<Rightarrow> item" where
  "settled_item terminalAt m it = (free_item (made_terminal terminalAt m it))\<lparr>i_detailError := em_error m\<rparr>"

definition settleDetailItem ::
  "ms \<Rightarrow> ledger_claim \<Rightarrow> item \<Rightarrow> enrichment_marker \<Rightarrow> batch_ledger \<Rightarrow> ledger_error + unit \<times> batch_ledger" where
  "settleDetailItem terminalAt c claimed m L =
     (let settles = (\<lambda>it. fenced_item claimed it \<and> i_status it = ''pending'') in
      if em_platform m \<noteq> cl_platform c then Inl MarkerMissing
      else if count_where settles (bl_items L) \<noteq> 1 then Inl (LostItemFence (i_ordinal claimed))
      else update_receipt (cl_workReceiptId c)
             (\<lambda>w. w\<lparr>w_itemsInspected := w_itemsInspected w + 1, w_itemsTerminalized := w_itemsTerminalized w + 1,
                w_itemsProgressed := w_itemsProgressed w + 1, w_heartbeatAt := Some terminalAt\<rparr>)
             ()
             (L\<lparr>bl_items := update_where settles (settled_item terminalAt m) (bl_items L),
                bl_row := (bl_row L)\<lparr>b_terminalItemCount := b_terminalItemCount (bl_row L) + 1,
                  b_claimHeartbeatAt := Some terminalAt\<rparr>\<rparr>))"

definition DETAIL_RETRY_MS :: ms where "DETAIL_RETRY_MS = 15 * 60000"

definition deferDetailItem ::
  "ms \<Rightarrow> ms option \<Rightarrow> (string \<times> string) option \<Rightarrow> string \<Rightarrow> item \<Rightarrow> batch_ledger \<Rightarrow> batch_ledger" where
  "deferDetailItem now retryAt retryReason message claimed L =
     (let (code, scope) = (case retryReason of Some r \<Rightarrow> r | None \<Rightarrow> (''internal_error'', ''posting'')) in
      L\<lparr>bl_items := update_where (fenced_item claimed)
          (\<lambda>it. free_item it\<lparr>i_status := ''pending'', i_detailError := Some (take 500 message),
             i_nextDetailAt := Some (case retryAt of Some t \<Rightarrow> t | None \<Rightarrow> now + DETAIL_RETRY_MS),
             i_retryCode := Some code, i_retryScope := Some scope\<rparr>) (bl_items L)\<rparr>)"

section \<open>Sealing\<close>

definition manifest_entry :: "host \<Rightarrow> item \<Rightarrow> json" where
  "manifest_entry h it = JObj [(''ordinal'', JNum (of_nat (i_ordinal it))), (''rawHash'', JStr (i_rawHash it)),
     (''overlayHash'', JStr (atsLedgerHash h (case i_overlay it of None \<Rightarrow> JNull | Some v \<Rightarrow> v))),
     (''enrichmentVersion'', case i_version it of None \<Rightarrow> JNull | Some n \<Rightarrow> JNum (of_nat n)),
     (''terminalAt'', case i_terminalAt it of None \<Rightarrow> JNull | Some t \<Rightarrow> JStr (h_text h t))]"

definition segment_manifest :: "host \<Rightarrow> item list \<Rightarrow> string" where
  "segment_manifest h items = atsLedgerHash h (JArr (map (manifest_entry h) items))"

definition items_between :: "nat \<Rightarrow> nat \<Rightarrow> item list \<Rightarrow> item list" where
  "items_between first n items = by_ordinal (filter (\<lambda>it. first \<le> i_ordinal it \<and> i_ordinal it < first + n) items)"

definition ATS_LEDGER_SEAL_SEGMENTS_PER_PASS :: nat where "ATS_LEDGER_SEAL_SEGMENTS_PER_PASS = 10"

definition seal_limit :: "nat \<Rightarrow> nat" where
  "seal_limit segmentSize =
     (if segmentSize = 1 then ATS_LEDGER_SEAL_SEGMENTS_PER_PASS * 25 else ATS_LEDGER_SEAL_SEGMENTS_PER_PASS)"

text \<open>The ordinals of the segments whose items are all terminal and that have no manifest yet.\<close>

definition ready_segments :: "nat \<Rightarrow> nat \<Rightarrow> batch_ledger \<Rightarrow> nat list" where
  "ready_segments segmentSize sealableCount L =
     (let candidates = map (\<lambda>it. i_ordinal it div segmentSize)
            (filter (\<lambda>it. i_ordinal it < sealableCount \<and> i_status it = ''terminal''
               \<and> i_ordinal it div segmentSize \<notin> s_ordinal ` set (bl_segments L)) (bl_items L));
          full = filter (\<lambda>k. k \<in> set candidates
            \<and> count_list candidates k = min segmentSize (sealableCount - k * segmentSize)) [0..<sealableCount]
      in take (seal_limit segmentSize) full)"

definition segment_row :: "host \<Rightarrow> ms \<Rightarrow> nat \<Rightarrow> nat \<Rightarrow> item list \<Rightarrow> nat \<Rightarrow> segment" where
  "segment_row h now segmentSize canonical items k =
     (let firstOrdinal = k * segmentSize; itemCount = min segmentSize (canonical - firstOrdinal) in
      \<lparr>s_ordinal = k, s_firstOrdinal = firstOrdinal, s_lastOrdinal = int (firstOrdinal + itemCount) - 1,
       s_itemCount = itemCount, s_segmentSize = segmentSize,
       s_manifestHash = segment_manifest h (items_between firstOrdinal itemCount items), s_status = ''sealed'',
       s_sealedAt = now, s_publishedAt = None, s_processedAt = None, s_processingOffset = 0, s_inserted = 0,
       s_duplicates = 0, s_filtered = 0, s_processingErrors = 0, s_holdReason = None, s_retryCode = None,
       s_retryScope = None, s_nextProcessAt = None, s_leaseToken = None, s_leaseOwner = None, s_leaseFence = 0,
       s_heartbeatAt = None, s_leaseExpiresAt = None\<rparr>)"

text \<open>The payload read must agree with the candidate query.\<close>

definition range_complete :: "item list \<Rightarrow> segment \<Rightarrow> bool" where
  "range_complete items s \<longleftrightarrow>
     (let xs = items_between (s_firstOrdinal s) (s_itemCount s) items in
      length xs = s_itemCount s \<and> list_all (\<lambda>it. i_status it = ''terminal'') xs
      \<and> map i_ordinal xs = [s_firstOrdinal s..<s_firstOrdinal s + s_itemCount s])"

definition ledger_board :: "batch_ledger \<Rightarrow> board" where
  "ledger_board L = \<lparr>bd_slug = b_slug (bl_row L), bd_platform = b_platform (bl_row L), bd_checkDay = co_checkDay (bl_board L)\<rparr>"

text \<open>The segments of one pass. While the listing goes on, only full ones: a tail may still grow, and a
  manifest is never extended.\<close>

definition new_segments :: "host \<Rightarrow> ms \<Rightarrow> batch_ledger \<Rightarrow> segment list" where
  "new_segments h now L =
     (let b = bl_row L;
          canonical = b_canonicalOccurrenceCount b;
          sealableCount = (if b_acquisitionPhase b = ''listing'' then canonical div b_segmentSize b * b_segmentSize b else canonical)
      in map (segment_row h now (b_segmentSize b) canonical (bl_items L)) (ready_segments (b_segmentSize b) sealableCount L))"

definition all_items_terminal :: "batch_row \<Rightarrow> bool" where
  "all_items_terminal b \<longleftrightarrow> b_terminalItemCount b = b_canonicalOccurrenceCount b"

definition completes_batch :: "nat \<Rightarrow> batch_row \<Rightarrow> bool" where
  "completes_batch sealedItems b \<longleftrightarrow> b_acquisitionPhase b \<noteq> ''listing''
     \<and> b_sealedItemCount b + sealedItems = b_canonicalOccurrenceCount b \<and> all_items_terminal b"

definition sealed_row :: "ms \<Rightarrow> nat \<Rightarrow> batch_row \<Rightarrow> batch_row" where
  "sealed_row now sealedItems b =
     (let isPrefix = (b_acquisitionPhase b = ''listing'');
          complete = completes_batch sealedItems b;
          resetDrain = (b_operatorResetAt b \<noteq> None)
      in b\<lparr>b_sealedItemCount := b_sealedItemCount b + sealedItems,
           b_acquisitionPhase := (if isPrefix then ''listing'' else if complete then ''synchronized''
             else if all_items_terminal b then ''sealing'' else ''enrichment''),
           b_status := (if isPrefix then b_status b
             else if complete then (if resetDrain then ''reset_synchronized'' else ''synchronized'')
             else (if resetDrain then ''reset_draining'' else ''partial'')),
           b_synchronizedAt := (if complete then Some now else b_synchronizedAt b),
           b_claimHeartbeatAt := Some now\<rparr>)"

definition sealReadyAtsV2Segments ::
  "host \<Rightarrow> ms \<Rightarrow> ledger_claim \<Rightarrow> bool \<Rightarrow> batch_ledger \<Rightarrow> ledger_error + (nat \<times> nat \<times> bool) \<times> batch_ledger" where
  "sealReadyAtsV2Segments h now c allowListingPrefix L =
     (let b = bl_row L;
          manifests = new_segments h now L;
          sealedItems = sum_list (map s_itemCount manifests);
          complete = completes_batch sealedItems b;
          result = (length manifests, sealedItems, complete);
          L1 = L\<lparr>bl_segments := bl_segments L @ manifests, bl_row := sealed_row now sealedItems b\<rparr>;
          L2 = (if complete then on_sweep c (\<lambda>s. s\<lparr>sw_synchronizedAt := Some now, sw_outcome := Some ''synchronized''\<rparr>) L1 else L1)
      in
      if \<not> assertClaimMatchesBatch b c now then Inl LostClaim
      else if b_acquisitionPhase b = ''listing'' \<and> \<not> allowListingPrefix then Inr ((0, 0, False), L)
      else (case find (\<lambda>s. \<not> range_complete (bl_items L) s) manifests of
        Some s \<Rightarrow> Inl (SegmentIncomplete (s_ordinal s))
      | None \<Rightarrow>
          if complete \<and> b_operatorResetAt b = None
          then (case nextAtsBoardCheckDateForBoard (h_wall h) (ledger_board L) now of
                  Inl e \<Rightarrow> Inl (RotationDayInvalid e)
                | Inr date \<Rightarrow> Inr (result,
                    L2\<lparr>bl_board := (bl_board L2)\<lparr>co_failCount := 0, co_retryCount := 0, co_status := ''active'',
                      co_nextCheckDate := date, co_lastCheckedAt := Some now, co_lastSynchronizedAt := Some now,
                      co_jobsFound := b_canonicalOccurrenceCount b\<rparr>\<rparr>))
          else Inr (result, L2)))"

section \<open>What the items keep\<close>

text \<open>Every observation is resolved at most once, and the items are the resolutions that name one, in
  order.\<close>

definition resolved_exact :: "observation list \<Rightarrow> resolution list \<Rightarrow> item list \<Rightarrow> bool" where
  "resolved_exact obs resolutions items \<longleftrightarrow>
     distinct (map r_observation resolutions)
     \<and> r_observation ` set resolutions \<subseteq> o_key ` set obs
     \<and> List.map_filter r_item resolutions = [0..<length items]
     \<and> map i_ordinal items = [0..<length items]
     \<and> map r_observation (filter (\<lambda>r. r_item r \<noteq> None) resolutions) = map i_observation items"

definition item_ok :: "item \<Rightarrow> bool" where
  "item_ok it \<longleftrightarrow> i_status it \<in> {''pending'', ''terminal''} \<and> (i_claimToken it \<noteq> None \<longrightarrow> i_status it = ''pending'')"

definition is_terminal :: "item \<Rightarrow> bool" where
  "is_terminal it \<longleftrightarrow> i_status it = ''terminal''"

text \<open>A segment covers a range of terminal items and its manifest is the one of those items.\<close>

definition segment_exact :: "host \<Rightarrow> nat \<Rightarrow> item list \<Rightarrow> segment \<Rightarrow> bool" where
  "segment_exact h width items s \<longleftrightarrow>
     s_segmentSize s = width \<and> s_firstOrdinal s = s_ordinal s * width
     \<and> 0 < s_itemCount s \<and> s_itemCount s \<le> width
     \<and> s_lastOrdinal s = int (s_firstOrdinal s + s_itemCount s) - 1
     \<and> s_firstOrdinal s + s_itemCount s \<le> length items
     \<and> (let covered = take (s_itemCount s) (drop (s_firstOrdinal s) items)
        in list_all is_terminal covered \<and> s_manifestHash s = segment_manifest h covered)"

definition segments_exact :: "host \<Rightarrow> nat \<Rightarrow> item list \<Rightarrow> segment list \<Rightarrow> bool" where
  "segments_exact h width items ss \<longleftrightarrow>
     0 < width \<and> distinct (map s_ordinal ss) \<and> (\<forall>s \<in> set ss. segment_exact h width items s)"

definition items_wf :: "host \<Rightarrow> batch_ledger \<Rightarrow> bool" where
  "items_wf h L \<longleftrightarrow> (let b = bl_row L in
     resolved_exact (bl_observations L) (bl_resolutions L) (bl_items L)
     \<and> (\<forall>it \<in> set (bl_items L). item_ok it)
     \<and> segments_exact h (b_segmentSize b) (bl_items L) (bl_segments L)
     \<and> b_canonicalOccurrenceCount b = length (bl_items L)
     \<and> b_compactedOccurrenceCount b = count_where (\<lambda>r. r_item r = None) (bl_resolutions L)
     \<and> b_terminalItemCount b = count_where is_terminal (bl_items L)
     \<and> b_sealedItemCount b = sum_list (map s_itemCount (bl_segments L)))"

lemma count_where_append [simp]: "count_where P (xs @ ys) = count_where P xs + count_where P ys"
  by (simp add: count_where_def)

lemma count_where_Cons [simp]: "count_where P (x # xs) = (if P x then 1 else 0) + count_where P xs"
  by (simp add: count_where_def)

lemma count_where_Nil [simp]: "count_where P [] = 0"
  by (simp add: count_where_def)

lemma map_filter_Cons [simp]:
  "List.map_filter f (x # xs) = (case f x of None \<Rightarrow> List.map_filter f xs | Some y \<Rightarrow> y # List.map_filter f xs)"
  by (simp add: List.map_filter_def split: option.split)

lemma map_filter_Nil [simp]: "List.map_filter f [] = []"
  by (simp add: List.map_filter_def)

lemma map_filter_append [simp]: "List.map_filter f (xs @ ys) = List.map_filter f xs @ List.map_filter f ys"
  by (simp add: List.map_filter_def)

subsection \<open>Resolving\<close>

lemma new_item_sel [simp]:
  "i_ordinal (new_item k ob v now) = k" "i_observation (new_item k ob v now) = o_key ob"
  "item_ok (new_item k ob v now)" "is_terminal (new_item k ob v now) \<longleftrightarrow> v \<noteq> None"
  by (auto simp: new_item_def item_ok_def is_terminal_def)

lemma resolution_row_sel [simp]:
  "r_observation (resolution_row h ob n v d) = o_key ob" "r_item (resolution_row h ob n v d) = n"
  by (simp_all add: resolution_row_def Let_def)

definition compacts :: "nat set \<Rightarrow> nat \<times> observation \<times> json option \<Rightarrow> bool" where
  "compacts idx = (\<lambda>(index, ob, overlay). overlay = None \<and> index \<in> idx)"

lemma resolve_rows_exact:
  assumes "resolve_rows h now receipts idx k xs = (items, resolutions)"
  shows "map i_ordinal items = [k..<k + length items]
    \<and> List.map_filter r_item resolutions = [k..<k + length items]
    \<and> map r_observation resolutions = map (\<lambda>x. o_key (fst (snd x))) xs
    \<and> map r_observation (filter (\<lambda>r. r_item r \<noteq> None) resolutions) = map i_observation items
    \<and> count_where (\<lambda>r. r_item r = None) resolutions = count_where (compacts idx) xs
    \<and> (\<forall>it \<in> set items. item_ok it)
    \<and> count_where is_terminal items = count_where (\<lambda>x. snd (snd x) \<noteq> None) xs"
  using assms
proof (induction xs arbitrary: k items resolutions)
  case (Cons x xs)
  obtain index ob overlay where x: "x = (index, ob, overlay)" by (metis surj_pair)
  show ?case
  proof (cases "overlay = None \<and> index \<in> idx")
    case True
    obtain its rs where rest: "resolve_rows h now receipts idx k xs = (its, rs)" by fastforce
    from Cons.IH [OF rest] Cons.prems True rest x show ?thesis by (auto simp: compacts_def)
  next
    case False
    obtain its rs where rest: "resolve_rows h now receipts idx (k + 1) xs = (its, rs)" by fastforce
    have "items = new_item k ob overlay now # its"
      "resolutions = resolution_row h ob (Some k) overlay (canonical_detail k overlay) # rs"
      using Cons.prems False rest x by auto
    moreover have "k # [Suc k..<Suc k + length its] = [k..<Suc k + length its]"
      by (rule upt_conv_Cons [symmetric]) simp
    ultimately show ?thesis
      using Cons.IH [OF rest] False x by (auto simp: compacts_def simp del: upt_Suc)
  qed
qed simp

lemma unresolved_keys:
  assumes "distinct (map o_key (bl_observations L))"
  shows "distinct (map o_key (unresolved L))"
    and "set (map o_key (unresolved L)) \<inter> r_observation ` set (bl_resolutions L) = {}"
    and "set (unresolved L) \<subseteq> set (bl_observations L)"
proof -
  have "inj_on o_key (set (bl_observations L))" "distinct (bl_observations L)"
    using assms by (simp_all add: distinct_map)
  then show "distinct (map o_key (unresolved L))"
    by (auto simp: unresolved_def distinct_map intro: inj_on_subset)
  show "set (map o_key (unresolved L)) \<inter> r_observation ` set (bl_resolutions L) = {}"
  proof (rule equals0I)
    fix k
    assume k: "k \<in> set (map o_key (unresolved L)) \<inter> r_observation ` set (bl_resolutions L)"
    then obtain ob where "ob \<in> set (unresolved L)" "k = o_key ob" by (metis IntD1 imageE list.set_map)
    with k show False by (simp add: unresolved_def)
  qed
qed (auto simp: unresolved_def)

lemma count_zip:
  fixes obs :: "'a list" and vs :: "'b option list"
  assumes "length obs = n" and "length vs = n"
  shows "count_where (\<lambda>x. snd (snd x) \<noteq> None) (zip [0..<n] (zip obs vs)) = count_where (\<lambda>v. v \<noteq> None) vs"
proof -
  have vals: "map (snd \<circ> snd) (zip [0..<n] (zip obs vs)) = vs"
    using assms by (intro nth_equalityI) auto
  have count: "count_where (\<lambda>x. snd (snd x) \<noteq> None) ys = count_where (\<lambda>v. v \<noteq> None) (map (snd \<circ> snd) ys)"
    for ys :: "(nat \<times> 'a \<times> 'b option) list"
    by (induction ys) auto
  show ?thesis by (rule trans [OF count]) (simp only: vals)
qed

lemma count_compacts:
  assumes "length obs = n" and "length vs = n" and "idx \<subseteq> {..<n}" and "\<And>i. i \<in> idx \<Longrightarrow> vs ! i = None"
  shows "count_where (compacts idx) (zip [0..<n] (zip obs vs)) = card idx"
proof -
  let ?xs = "zip [0..<n] (zip obs vs)"
  have "i < length ?xs \<and> compacts idx (?xs ! i) \<longleftrightarrow> i \<in> idx" for i
    using assms by (cases "i < n") (auto simp: compacts_def)
  then have "{i. i < length ?xs \<and> compacts idx (?xs ! i)} = idx" by blast
  then show ?thesis by (simp add: count_where_def length_filter_conv_card)
qed

lemma distinct_pairs:
  assumes "\<And>x. x \<in> set xs \<Longrightarrow> distinct (map g (filter (\<lambda>y. f y = f x) xs))"
  shows "distinct (map (\<lambda>x. (f x, g x)) xs)"
  using assms
proof (induction xs)
  case (Cons x xs)
  have "distinct (map g (filter (\<lambda>z. f z = f y) xs))" if "y \<in> set xs" for y
    using Cons.prems [of y] that by (auto split: if_splits)
  moreover have "(f x, g x) \<notin> (\<lambda>x. (f x, g x)) ` set xs"
    using Cons.prems [of x] by auto
  ultimately show ?case using Cons.IH by simp
qed simp

lemma ordinals_distinct: "distinct (map o_pageOrdinal (map (observation_row h platform k t) (List.enumerate n xs)))"
proof -
  have "o_pageOrdinal \<circ> observation_row h platform k t = fst"
    by (auto simp: observation_row_def fun_eq_iff)
  then show ?thesis by simp
qed

lemma observation_keys_distinct:
  assumes "listing_wf h L"
  shows "distinct (map o_key (bl_observations L))"
proof -
  have "distinct (map o_pageOrdinal (filter (\<lambda>y. o_page y = o_page ob) (bl_observations L)))"
    if "ob \<in> set (bl_observations L)" for ob
  proof -
    have "o_page ob \<in> p_key ` set (bl_pages L)"
      using assms that by (simp add: listing_wf_def Let_def pages_exact_def)
    then obtain p where p: "p \<in> set (bl_pages L)" "o_page ob = p_key p" by blast
    with assms have "page_exact h (b_platform (bl_row L)) (bl_observations L) p"
      by (simp add: listing_wf_def Let_def pages_exact_def)
    then obtain jobs where "page_observations (bl_observations L) (p_key p)
        = map (observation_row h (b_platform (bl_row L)) (p_key p) (p_respondedAt p)) (List.enumerate 0 jobs)"
      by (auto simp: page_exact_def Let_def)
    with p(2) show ?thesis by (simp add: page_observations_def ordinals_distinct del: map_map)
  qed
  then show ?thesis unfolding o_key_def by (rule distinct_pairs)
qed

text \<open>Items that are appended change no sealed range.\<close>

lemma segments_exact_append:
  assumes "segments_exact h width items ss"
  shows "segments_exact h width (items @ new) ss"
  using assms by (auto simp: segments_exact_def segment_exact_def Let_def)

lemma plan_items:
  assumes "planAtsPrequeueCompaction sha num platform slug jobs rows = (retained, marker)"
  shows "distinct (map cr_originalItemIndex (cm_compactedItems marker))"
    and "\<forall>r \<in> set (cm_compactedItems marker). cr_originalItemIndex r < length jobs"
  using assms compacted_inv [of num slug rows jobs platform]
  by (auto simp: planAtsPrequeueCompaction_def Let_def compaction_inv_def)

lemma write_resolution_sel:
  assumes "write_resolution h now isPrefix items resolutions n m L = (done, L')"
  shows "bl_items L' = bl_items L @ items" and "bl_resolutions L' = bl_resolutions L @ resolutions"
    and "bl_observations L' = bl_observations L" and "bl_segments L' = bl_segments L"
    and "b_segmentSize (bl_row L') = b_segmentSize (bl_row L)"
    and "b_canonicalOccurrenceCount (bl_row L') = b_canonicalOccurrenceCount (bl_row L) + length items"
    and "b_compactedOccurrenceCount (bl_row L') = b_compactedOccurrenceCount (bl_row L) + n"
    and "b_terminalItemCount (bl_row L') = b_terminalItemCount (bl_row L) + m"
    and "b_sealedItemCount (bl_row L') = b_sealedItemCount (bl_row L)"
  using assms by (auto simp: write_resolution_def Let_def)

lemma items_wf_receipts [simp]: "items_wf h (L\<lparr>bl_receipts := ws\<rparr>) = items_wf h L"
  by (simp add: items_wf_def)

lemma resolve_chunk_cases:
  assumes "resolve_chunk h now slug_of table c isPrefix obs L = Inr (r, L')"
  obtains marker :: compaction_marker and idx overlays items resolutions finished L1 ws where
    "idx = set (map cr_originalItemIndex (filter (\<lambda>r. overlays ! cr_originalItemIndex r = None) (cm_compactedItems marker)))"
    and "\<forall>r \<in> set (cm_compactedItems marker). cr_originalItemIndex r < length obs"
    and "length overlays = length obs"
    and "resolve_rows h now (cm_compactedItems marker) idx (b_canonicalOccurrenceCount (bl_row L))
      (zip [0..<length obs] (zip obs overlays)) = (items, resolutions)"
    and "write_resolution h now isPrefix items resolutions (card idx) (count_where (\<lambda>v. v \<noteq> None) overlays) L = (finished, L1)"
    and "L' = L1\<lparr>bl_receipts := ws\<rparr>"
proof -
  let ?b = "bl_row L"
  let ?jobs = "map (\<lambda>ob. json_object (Some (o_rawJson ob))) obs"
  let ?overlays = "map (\<lambda>ob. emptyAtsListingResponseOverlay h ob (b_platform ?b) now) obs"
  obtain retained marker where plan: "planAtsPrequeueCompaction (h_sha h) (h_num h) (b_platform ?b) (b_slug ?b) ?jobs
      (observedAtsSourceStates h slug_of table (b_platform ?b) ?jobs) = (retained, marker)"
    by fastforce
  let ?idx = "set (map cr_originalItemIndex (filter (\<lambda>r. ?overlays ! cr_originalItemIndex r = None) (cm_compactedItems marker)))"
  obtain items resolutions where rows: "resolve_rows h now (cm_compactedItems marker) ?idx (b_canonicalOccurrenceCount ?b)
      (zip [0..<length obs] (zip obs ?overlays)) = (items, resolutions)"
    by fastforce
  obtain finished L1 where written: "write_resolution h now isPrefix items resolutions (card ?idx)
      (count_where (\<lambda>v. v \<noteq> None) ?overlays) L = (finished, L1)"
    by fastforce
  have "\<exists>ws. L' = L1\<lparr>bl_receipts := ws\<rparr>"
    using assms unfolding resolve_chunk_def Let_def plan prod.case rows written
    by (auto split: if_splits dest!: update_receipt_Inr intro: exI [of _ "bl_receipts L1"])
  then obtain ws where "L' = L1\<lparr>bl_receipts := ws\<rparr>" by blast
  with plan_items(2) [OF plan] show thesis by (intro that [OF refl _ _ rows written]) simp_all
qed

lemma resolve_chunk_wf:
  assumes "resolve_chunk h now slug_of table c isPrefix obs L = Inr (r, L')" and "items_wf h L"
    and "distinct (map o_key obs)" and "set (map o_key obs) \<inter> r_observation ` set (bl_resolutions L) = {}"
    and "set obs \<subseteq> set (bl_observations L)"
  shows "items_wf h L'"
  using assms(1)
proof (cases rule: resolve_chunk_cases)
  case step: (1 marker idx overlays items resolutions finished L1 ws)
  let ?n = "length obs"
  have idx: "count_where (compacts idx) (zip [0..<?n] (zip obs overlays)) = card idx"
    using step(1-3) by (intro count_compacts) auto
  have keys: "map (\<lambda>x. o_key (fst (snd x))) (zip [0..<?n] (zip obs overlays)) = map o_key obs"
    using step(3) by (intro nth_equalityI) auto
  note exact = resolve_rows_exact [OF step(4), unfolded idx keys count_zip [OF refl step(3)]]
  note sel = write_resolution_sel [OF step(5)]
  have "r_observation ` set resolutions = o_key ` set obs"
    using exact by (metis list.set_map)
  moreover have "r_observation r \<in> o_key ` set (bl_observations L)" if "r \<in> set resolutions" for r
    using that calculation assms(5) by blast
  moreover have "b_canonicalOccurrenceCount (bl_row L) = length (bl_items L)"
    using assms(2) by (simp add: items_wf_def Let_def)
  ultimately have "resolved_exact (bl_observations L1) (bl_resolutions L1) (bl_items L1)"
    using exact assms(2-5) unfolding sel resolved_exact_def items_wf_def Let_def
    by (auto simp: upt_add_eq_append [of 0])
  with exact assms(2) show ?thesis
    unfolding step(6) by (auto simp: items_wf_def sel Let_def segments_exact_append)
qed

lemma resolve_wf:
  assumes "resolveNextAtsV2ObservationChunk h now slug_of table c requested allowListingPrefix L = Inr (r, L')"
    and "items_wf h L" and "listing_wf h L"
  shows "items_wf h L'"
proof -
  let ?obs = "take (chunk_size (ATS_LEDGER_OBSERVATION_CHUNK_SIZE h) requested) (unresolved L)"
  note keys = unresolved_keys [OF observation_keys_distinct [OF assms(3)]]
  have "distinct (map o_key ?obs)" using keys(1) by (simp add: take_map [symmetric])
  moreover have "set ?obs \<subseteq> set (unresolved L)" by (rule set_take_subset)
  ultimately have "items_wf h L'" if "resolve_chunk h now slug_of table c isPrefix ?obs L = Inr (r, L')" for isPrefix
    using keys(2,3) that assms(2) by (intro resolve_chunk_wf [OF that]) auto
  then show ?thesis
    using assms(1,2) by (auto simp: resolveNextAtsV2ObservationChunk_def Let_def items_wf_def split: if_splits)
qed

subsection \<open>Items in progress\<close>

text \<open>What an operation may do to an item: its identity stays, and a terminal item is final.\<close>

definition item_step :: "item \<Rightarrow> item \<Rightarrow> bool" where
  "item_step it it' \<longleftrightarrow> i_ordinal it' = i_ordinal it \<and> i_observation it' = i_observation it \<and> i_rawHash it' = i_rawHash it
     \<and> (is_terminal it \<longrightarrow> it' = it) \<and> item_ok it'"

lemma item_step_refl: "item_ok it \<Longrightarrow> item_step it it"
  by (simp add: item_step_def)

lemma steps_sel:
  assumes "list_all2 item_step items items'"
  shows "length items' = length items" and "map i_ordinal items' = map i_ordinal items"
    and "map i_observation items' = map i_observation items" and "\<forall>it \<in> set items'. item_ok it"
proof -
  from assms have "length items' = length items \<and> map i_ordinal items' = map i_ordinal items
    \<and> map i_observation items' = map i_observation items \<and> (\<forall>it \<in> set items'. item_ok it)"
    by (induction rule: list_all2_induct) (auto simp: item_step_def)
  then show "length items' = length items" "map i_ordinal items' = map i_ordinal items"
    "map i_observation items' = map i_observation items" "\<forall>it \<in> set items'. item_ok it"
    by auto
qed

lemma terminal_steps_eq:
  assumes "list_all2 item_step xs ys" and "list_all is_terminal xs"
  shows "ys = xs"
  using assms by (induction rule: list_all2_induct) (auto simp: item_step_def)

lemma segments_exact_steps:
  assumes "segments_exact h width items ss" and "list_all2 item_step items items'"
  shows "segments_exact h width items' ss"
proof -
  have "take n (drop k items') = take n (drop k items)" if "list_all is_terminal (take n (drop k items))" for n k
    using that assms(2) by (intro terminal_steps_eq) (auto intro: list_all2_takeI list_all2_dropI)
  with assms(1) steps_sel(1) [OF assms(2)] show ?thesis
    by (auto simp: segments_exact_def segment_exact_def Let_def)
qed

lemma items_step_wf:
  assumes "items_wf h L" and "list_all2 item_step (bl_items L) (bl_items L')"
    and "bl_observations L' = bl_observations L" and "bl_resolutions L' = bl_resolutions L"
    and "bl_segments L' = bl_segments L" and "b_segmentSize (bl_row L') = b_segmentSize (bl_row L)"
    and "b_canonicalOccurrenceCount (bl_row L') = b_canonicalOccurrenceCount (bl_row L)"
    and "b_compactedOccurrenceCount (bl_row L') = b_compactedOccurrenceCount (bl_row L)"
    and "b_sealedItemCount (bl_row L') = b_sealedItemCount (bl_row L)"
    and "b_terminalItemCount (bl_row L') = count_where is_terminal (bl_items L')"
  shows "items_wf h L'"
  using assms segments_exact_steps [OF _ assms(2)] steps_sel [OF assms(2)]
  by (simp add: items_wf_def resolved_exact_def Let_def)

lemma steps_refl: "\<forall>it \<in> set items. item_ok it \<Longrightarrow> list_all2 item_step items items"
  by (induction items) (auto intro: item_step_refl)

lemma steps_map: "(\<And>it. it \<in> set items \<Longrightarrow> item_step it (f it)) \<Longrightarrow> list_all2 item_step items (map f items)"
  by (induction items) auto

lemma steps_update_where:
  assumes "\<And>it. it \<in> set items \<Longrightarrow> P it \<Longrightarrow> item_step it (f it)" and "\<forall>it \<in> set items. item_ok it"
  shows "list_all2 item_step items (update_where P f items)"
  unfolding update_where_def using assms by (intro steps_map) (auto intro: item_step_refl)

lemma terminal_update_where:
  assumes "\<And>it. it \<in> set items \<Longrightarrow> P it \<Longrightarrow> \<not> is_terminal it \<and> is_terminal (f it) = v"
  shows "count_where is_terminal (update_where P f items)
    = count_where is_terminal items + (if v then count_where P items else 0)"
  using assms by (induction items) auto

text \<open>The ordinals are the positions, so an ordinal names one item.\<close>

lemma ordinals_unique:
  assumes "items_wf h L" and "it \<in> set (bl_items L)" and "it' \<in> set (bl_items L)" and "i_ordinal it = i_ordinal it'"
  shows "it = it'"
proof -
  have "distinct (map i_ordinal (bl_items L))"
    using assms(1) by (simp add: items_wf_def resolved_exact_def Let_def)
  with assms(2-4) show ?thesis by (metis distinct_map inj_on_def)
qed

lemma items_wf_sel:
  assumes "items_wf h L"
  shows "\<forall>it \<in> set (bl_items L). item_ok it" and "distinct (map i_ordinal (bl_items L))"
    and "b_terminalItemCount (bl_row L) = count_where is_terminal (bl_items L)"
  using assms by (auto simp: items_wf_def resolved_exact_def Let_def)

lemma by_ordinal_set [simp]: "set (by_ordinal items) = set items"
  by (simp add: by_ordinal_def)

lemma claimed_item_step:
  assumes "item_ok it" and "\<not> is_terminal it"
  shows "item_step it (claimed_item h now c token it)"
proof -
  have "i_status it = ''pending''" using assms by (simp add: item_ok_def is_terminal_def)
  then show ?thesis by (simp add: item_step_def claimed_item_def item_ok_def is_terminal_def)
qed

lemma claim_detail_wf:
  assumes "claimDetailItem h now c token allowListingPrefix L = Inr (r, L')" and "items_wf h L"
  shows "items_wf h L' \<and> list_all2 item_step (bl_items L) (bl_items L')"
proof (cases "detail_candidates now (bl_items L)")
  case (Cons candidate rest)
  let ?P = "\<lambda>it. i_ordinal it = i_ordinal candidate"
  note wf = items_wf_sel [OF assms(2)]
  have "candidate \<in> set (detail_candidates now (bl_items L))" using Cons by simp
  then have cand: "candidate \<in> set (bl_items L)" "i_status candidate = ''pending''"
    by (auto simp: detail_candidates_def)
  then have pending: "\<not> is_terminal it" if "it \<in> set (bl_items L)" "?P it" for it
    using ordinals_unique [OF assms(2) that(1) cand(1) that(2)] by (simp add: is_terminal_def)
  have step: "list_all2 item_step (bl_items L) (update_where ?P (claimed_item h now c token) (bl_items L))"
  proof (rule steps_update_where)
    fix it
    assume it: "it \<in> set (bl_items L)" "?P it"
    with wf(1) have "item_ok it" by blast
    then show "item_step it (claimed_item h now c token it)" using pending [OF it] by (rule claimed_item_step)
  qed (rule wf(1))
  have "count_where is_terminal (update_where ?P (claimed_item h now c token) (bl_items L))
      = count_where is_terminal (bl_items L)"
    using pending by (subst terminal_update_where [where v = False]) (auto simp: claimed_item_def is_terminal_def)
  moreover have "L' = L \<or> L' = L\<lparr>bl_items := update_where ?P (claimed_item h now c token) (bl_items L)\<rparr>"
    using assms(1) Cons by (auto simp: claimDetailItem_def split: if_splits)
  ultimately show ?thesis
    using assms(2) step wf(3) steps_refl [OF wf(1)]
    by (elim disjE) (simp, intro conjI items_step_wf [OF assms(2)], simp_all)
next
  case Nil
  then have "L' = L" using assms(1) by (auto simp: claimDetailItem_def split: if_splits)
  then show ?thesis using assms(2) steps_refl [OF items_wf_sel(1) [OF assms(2)]] by simp
qed

lemma settled_item_terminal: "is_terminal (settled_item t m it)" "item_ok (settled_item t m it)"
  and settled_item_step: "\<not> is_terminal it \<Longrightarrow> item_step it (settled_item t m it)"
  by (simp_all add: settled_item_def made_terminal_def free_item_def is_terminal_def item_ok_def item_step_def)

lemma settle_detail_wf:
  assumes "settleDetailItem terminalAt c claimed m L = Inr (r, L')" and "items_wf h L"
  shows "items_wf h L' \<and> list_all2 item_step (bl_items L) (bl_items L')"
proof -
  let ?P = "\<lambda>it. fenced_item claimed it \<and> i_status it = ''pending''"
  note wf = items_wf_sel [OF assms(2)]
  have pending: "\<not> is_terminal it" if "?P it" for it using that by (simp add: is_terminal_def)
  have step: "list_all2 item_step (bl_items L) (update_where ?P (settled_item terminalAt m) (bl_items L))"
    using wf(1) pending settled_item_step by (intro steps_update_where) blast+
  have one: "count_where ?P (bl_items L) = 1"
    using assms(1) by (simp add: settleDetailItem_def Let_def split: if_splits)
  have L': "bl_items L' = update_where ?P (settled_item terminalAt m) (bl_items L)
      \<and> bl_observations L' = bl_observations L \<and> bl_resolutions L' = bl_resolutions L
      \<and> bl_segments L' = bl_segments L
      \<and> bl_row L' = (bl_row L)\<lparr>b_terminalItemCount := b_terminalItemCount (bl_row L) + 1, b_claimHeartbeatAt := Some terminalAt\<rparr>"
    using assms(1) by (auto simp: settleDetailItem_def Let_def split: if_splits dest!: update_receipt_Inr)
  have "count_where is_terminal (update_where ?P (settled_item terminalAt m) (bl_items L)) = count_where is_terminal (bl_items L) + 1"
    using pending settled_item_terminal one by (subst terminal_update_where [where v = True]) simp_all
  with step wf(3) L' show ?thesis by (intro conjI items_step_wf [OF assms(2)]) simp_all
qed

lemma defer_detail_wf:
  assumes "items_wf h L"
  shows "items_wf h (deferDetailItem now retryAt reason message claimed L)
    \<and> list_all2 item_step (bl_items L) (bl_items (deferDetailItem now retryAt reason message claimed L))"
proof -
  note wf = items_wf_sel [OF assms]
  obtain code scope where r: "(case reason of Some r \<Rightarrow> r | None \<Rightarrow> (''internal_error'', ''posting'')) = (code, scope)"
    by fastforce
  let ?f = "\<lambda>it. free_item it\<lparr>i_status := ''pending'', i_detailError := Some (take 500 message),
    i_nextDetailAt := Some (case retryAt of Some t \<Rightarrow> t | None \<Rightarrow> now + DETAIL_RETRY_MS),
    i_retryCode := Some code, i_retryScope := Some scope\<rparr>"
  have pending: "\<not> is_terminal it" if "it \<in> set (bl_items L)" "fenced_item claimed it" for it
    using wf(1) that by (auto simp: fenced_item_def item_ok_def is_terminal_def)
  have f: "\<not> is_terminal (?f it)" "item_ok (?f it)" for it
    by (simp_all add: free_item_def is_terminal_def item_ok_def)
  have step: "list_all2 item_step (bl_items L) (update_where (fenced_item claimed) ?f (bl_items L))"
    using wf(1) f pending by (intro steps_update_where) (auto simp: item_step_def free_item_def)
  have "count_where is_terminal (update_where (fenced_item claimed) ?f (bl_items L)) = count_where is_terminal (bl_items L)"
    using f pending by (subst terminal_update_where [where v = False]) auto
  with step wf(3) show ?thesis
    unfolding deferDetailItem_def r prod.case by (intro conjI items_step_wf [OF assms]) simp_all
qed

subsection \<open>Markers\<close>

lemma count_disjoint:
  assumes "\<And>x. x \<in> set xs \<Longrightarrow> \<not> (P x \<and> Q x)"
  shows "count_where (\<lambda>x. P x \<or> Q x) xs = count_where P xs + count_where Q xs"
  using assms by (induction xs) auto

lemma count_named:
  assumes "distinct (map f xs)" and "a \<in> f ` set xs"
  shows "count_where (\<lambda>x. f x = a \<and> v) xs = (if v then 1 else 0)"
proof -
  have "count_where (\<lambda>x. f x = a) xs = 1"
    using assms
  proof (induction xs)
    case (Cons x xs)
    show ?case
    proof (cases "f x = a")
      case True
      have "f y \<noteq> a" if "y \<in> set xs" for y
        using Cons.prems(1) True that by (metis distinct.simps(2) image_eqI list.map(2) list.set_map)
      then have "count_where (\<lambda>x. f x = a) xs = 0" by (simp add: count_where_0)
      with True show ?thesis by simp
    qed (use Cons in auto)
  qed simp
  then show ?thesis by (simp add: count_where_def)
qed

text \<open>Values given to distinct names, counted on the rows that carry the names.\<close>

lemma count_assigned:
  assumes "length ks = length vs" and "distinct (map f xs)" and "distinct ks" and "set ks \<subseteq> f ` set xs"
  shows "count_where (\<lambda>x. case map_of (zip ks vs) (f x) of None \<Rightarrow> False | Some v \<Rightarrow> Q v) xs = length (filter Q vs)"
  using assms
proof (induction ks vs rule: list_induct2)
  case Nil
  show ?case by (simp add: count_where_def)
next
  case (Cons k ks v vs)
  let ?rest = "\<lambda>x. case map_of (zip ks vs) (f x) of None \<Rightarrow> False | Some v \<Rightarrow> Q v"
  have none: "map_of (zip ks vs) k = None" using Cons.prems(2) Cons.hyps by (simp add: map_of_zip_is_None)
  have "(\<lambda>x. case map_of (zip (k # ks) (v # vs)) (f x) of None \<Rightarrow> False | Some v \<Rightarrow> Q v) = (\<lambda>x. f x = k \<and> Q v \<or> ?rest x)"
    using none by (auto simp: fun_eq_iff)
  then have "count_where (\<lambda>x. case map_of (zip (k # ks) (v # vs)) (f x) of None \<Rightarrow> False | Some v \<Rightarrow> Q v) xs
      = count_where (\<lambda>x. f x = k \<and> Q v) xs + count_where ?rest xs"
    using none by (simp add: count_disjoint)
  also have "\<dots> = length (filter Q (v # vs))"
    using Cons.prems Cons.IH count_named [of f xs k "Q v"] by auto
  finally show ?case .
qed

lemma raw_jobs_length: "raw_jobs h obs items = Inr jobs \<Longrightarrow> length jobs = length items"
  by (induction items arbitrary: jobs) (auto split: sum.splits)

lemma marked_item_step:
  assumes "item_ok it" and "i_status it = ''pending''" and "i_claimToken it = None"
  shows "item_step it (marked_item now v it)"
    and "is_terminal (marked_item now v it) \<longleftrightarrow> (case v of None \<Rightarrow> False | Some x \<Rightarrow> \<not> em_attempted x)"
  using assms by (auto simp: marked_item_def item_step_def made_terminal_def is_terminal_def item_ok_def split: option.split)

lemma mark_items_wf:
  assumes "\<forall>it \<in> set items. item_ok it" and "distinct (map i_ordinal items)" and "set chosen \<subseteq> set items"
    and "distinct (map i_ordinal chosen)" and "length markers = length chosen"
    and "\<And>it. it \<in> set chosen \<Longrightarrow> i_status it = ''pending'' \<and> i_claimToken it = None"
  defines "marker_at \<equiv> map_of (zip (map i_ordinal chosen) markers)"
  shows "list_all2 item_step items (mark_items now marker_at items)"
    and "count_where is_terminal (mark_items now marker_at items) = count_where is_terminal items
      + length (filter (\<lambda>m. case m of None \<Rightarrow> False | Some x \<Rightarrow> \<not> em_attempted x) markers)"
proof -
  let ?Q = "\<lambda>m. case m of None \<Rightarrow> False | Some x \<Rightarrow> \<not> em_attempted x"
  have chosen: "i_status it = ''pending'' \<and> i_claimToken it = None"
    if "it \<in> set items" "marker_at (i_ordinal it) = Some m" for it m
  proof -
    have "i_ordinal it \<in> i_ordinal ` set chosen"
      using that(2) assms(5) unfolding marker_at_def by (auto dest!: map_of_SomeD set_zip_leftD)
    then obtain x where "x \<in> set chosen" "i_ordinal x = i_ordinal it" by auto
    with assms(2,3) that(1) have "x = it" by (metis distinct_map inj_on_def subsetD)
    with \<open>x \<in> set chosen\<close> assms(6) show ?thesis by blast
  qed
  show "list_all2 item_step items (mark_items now marker_at items)"
    unfolding mark_items_def
  proof (rule steps_map)
    fix it
    assume it: "it \<in> set items"
    with assms(1) have "item_ok it" by blast
    with chosen [OF it] show "item_step it (case marker_at (i_ordinal it) of None \<Rightarrow> it | Some m \<Rightarrow> marked_item now m it)"
      by (auto split: option.split intro: item_step_refl marked_item_step)
  qed
  have "count_where is_terminal (mark_items now marker_at xs) = count_where is_terminal xs
      + count_where (\<lambda>it. case marker_at (i_ordinal it) of None \<Rightarrow> False | Some m \<Rightarrow> ?Q m) xs"
    if "set xs \<subseteq> set items" for xs
    using that
  proof (induction xs)
    case (Cons it xs)
    then have it: "it \<in> set items" by simp
    with assms(1) have ok: "item_ok it" by blast
    show ?case
    proof (cases "marker_at (i_ordinal it)")
      case None
      with Cons show ?thesis by (simp add: mark_items_def)
    next
      case (Some m)
      from chosen [OF it Some] have "\<not> is_terminal it" by (simp add: is_terminal_def)
      with Some Cons marked_item_step(2) [OF ok] chosen [OF it Some] show ?thesis by (simp add: mark_items_def)
    qed
  qed (simp add: mark_items_def)
  moreover have "set (map i_ordinal chosen) \<subseteq> i_ordinal ` set items" using assms(3) by auto
  then have "count_where (\<lambda>it. case marker_at (i_ordinal it) of None \<Rightarrow> False | Some m \<Rightarrow> ?Q m) items = length (filter ?Q markers)"
    unfolding marker_at_def using assms(2,4,5) by (intro count_assigned) simp_all
  ultimately show "count_where is_terminal (mark_items now marker_at items)
      = count_where is_terminal items + length (filter ?Q markers)"
    by simp
qed

lemma terminalize_wf:
  assumes "terminalizeAtsV2NoNetworkItems h now marker_of c requested allowListingPrefix L = Inr (r, L')" and "items_wf h L"
  shows "items_wf h L' \<and> list_all2 item_step (bl_items L) (bl_items L')"
proof -
  let ?chosen = "take (chunk_size (ATS_LEDGER_MARKER_CHUNK_SIZE h) requested) (no_network_candidates now (bl_items L))"
  note wf = items_wf_sel [OF assms(2)]
  have chosen: "set ?chosen \<subseteq> set (no_network_candidates now (bl_items L))" by (rule set_take_subset)
  have "distinct (map i_ordinal (filter P (bl_items L)))" for P
    using wf(2) by (simp add: distinct_map inj_on_def)
  then have "distinct (map i_ordinal (no_network_candidates now (bl_items L)))"
    by (simp add: no_network_candidates_def by_ordinal_def distinct_map)
  then have distinct: "distinct (map i_ordinal ?chosen)" by (simp add: take_map [symmetric])
  have sub: "set ?chosen \<subseteq> set (bl_items L)" using chosen by (auto simp: no_network_candidates_def)
  have pending: "i_status it = ''pending'' \<and> i_claimToken it = None" if "it \<in> set ?chosen" for it
    using chosen that by (auto simp: no_network_candidates_def)
  show ?thesis
  proof (cases "L' = L")
    case False
    then obtain jobs where jobs: "raw_jobs h (bl_observations L) ?chosen = Inr jobs"
      using assms(1) by (auto simp: terminalizeAtsV2NoNetworkItems_def Let_def split: if_splits sum.splits)
    let ?markers = "map (marker_of (b_platform (bl_row L)) (b_slug (bl_row L))) jobs"
    let ?at = "map_of (zip (map i_ordinal ?chosen) ?markers)"
    let ?n = "length (filter (\<lambda>m. case m of None \<Rightarrow> False | Some x \<Rightarrow> \<not> em_attempted x) ?markers)"
    have L': "bl_items L' = mark_items now ?at (bl_items L)
        \<and> bl_observations L' = bl_observations L \<and> bl_resolutions L' = bl_resolutions L
        \<and> bl_segments L' = bl_segments L \<and> b_segmentSize (bl_row L') = b_segmentSize (bl_row L)
        \<and> b_canonicalOccurrenceCount (bl_row L') = b_canonicalOccurrenceCount (bl_row L)
        \<and> b_compactedOccurrenceCount (bl_row L') = b_compactedOccurrenceCount (bl_row L)
        \<and> b_sealedItemCount (bl_row L') = b_sealedItemCount (bl_row L)
        \<and> b_terminalItemCount (bl_row L') = b_terminalItemCount (bl_row L) + ?n"
      using assms(1) False jobs
      by (auto simp: terminalizeAtsV2NoNetworkItems_def Let_def split: if_splits dest!: update_receipt_Inr)
    have "length ?markers = length ?chosen" using raw_jobs_length [OF jobs] by simp
    note marked = mark_items_wf [OF wf(1,2) sub distinct this pending, where now = now]
    show ?thesis
      using L' marked wf(3) by (intro conjI items_step_wf [OF assms(2)]) simp_all
  qed (use assms(2) steps_refl [OF wf(1)] in simp)
qed

subsection \<open>Sealing\<close>

lemma filter_positions:
  assumes "map f items = [0..<length items]" and "k + n \<le> length items"
  shows "filter (\<lambda>it. k \<le> f it \<and> f it < k + n) items = take n (drop k items)"
proof -
  have at: "f (items ! i) = i" if "i < length items" for i
  proof -
    have "f (items ! i) = map f items ! i" using that by simp
    then show ?thesis using that by (simp add: assms(1))
  qed
  have split: "items = take k items @ take n (drop k items) @ drop (k + n) items"
    by (metis append_take_drop_id drop_drop add.commute)
  have "filter (\<lambda>it. k \<le> f it \<and> f it < k + n) (take k items) = []"
    using at assms(2) by (auto simp: filter_empty_conv in_set_conv_nth)
  moreover have "filter (\<lambda>it. k \<le> f it \<and> f it < k + n) (drop (k + n) items) = []"
    using at by (auto simp: filter_empty_conv in_set_conv_nth)
  moreover have "filter (\<lambda>it. k \<le> f it \<and> f it < k + n) (take n (drop k items)) = take n (drop k items)"
    using at assms(2) by (intro filter_True) (auto simp: in_set_conv_nth)
  ultimately show ?thesis by (subst split) (simp only: filter_append append_Nil append_Nil2)
qed

lemma items_between_positions:
  assumes "map i_ordinal items = [0..<length items]" and "k + n \<le> length items"
  shows "items_between k n items = take n (drop k items)"
proof -
  have "map i_ordinal (take n (drop k items)) = take n (drop k [0..<length items])"
    by (simp add: take_map [symmetric] drop_map [symmetric] assms(1))
  then have "sorted (map i_ordinal (take n (drop k items)))"
    by (simp add: sorted_wrt_take sorted_wrt_drop)
  then have "sorted_wrt (\<lambda>a b. key_cmp (\<lambda>it. int (i_ordinal it)) num_cmp a b \<le> 0) (take n (drop k items))"
    by (simp add: sorted_map key_cmp_def num_cmp_def)
  then show ?thesis
    unfolding items_between_def by_ordinal_def filter_positions [OF assms]
    by (intro comparator.js_sort_sorted_id comparator_key comparator_num)
qed

lemma ready_segment:
  assumes "k \<in> set (ready_segments width n L)"
  shows "k \<notin> s_ordinal ` set (bl_segments L)" and "\<exists>it \<in> set (bl_items L). i_ordinal it < n \<and> i_ordinal it div width = k"
proof -
  have "k \<in> (\<lambda>it. i_ordinal it div width) ` set (filter (\<lambda>it. i_ordinal it < n \<and> i_status it = ''terminal''
      \<and> i_ordinal it div width \<notin> s_ordinal ` set (bl_segments L)) (bl_items L))"
    using assms unfolding ready_segments_def Let_def by (auto dest!: in_set_takeD)
  then show "k \<notin> s_ordinal ` set (bl_segments L)" "\<exists>it \<in> set (bl_items L). i_ordinal it < n \<and> i_ordinal it div width = k"
    by auto
qed

lemma ready_distinct: "distinct (ready_segments width n L)"
  by (simp add: ready_segments_def Let_def)

lemma segment_row_sel [simp]:
  "s_ordinal (segment_row h now width n items k) = k"
  "s_itemCount (segment_row h now width n items k) = min width (n - k * width)"
  "s_firstOrdinal (segment_row h now width n items k) = k * width"
  by (simp_all add: segment_row_def Let_def)

text \<open>A manifest that passes the check of its range covers terminal items.\<close>

lemma segment_row_exact:
  assumes "map i_ordinal items = [0..<length items]" and "0 < width" and "k * width < length items"
    and "range_complete items (segment_row h now width (length items) items k)"
  shows "segment_exact h width items (segment_row h now width (length items) items k)"
proof -
  have "k * width + min width (length items - k * width) \<le> length items" using assms(3) by simp
  note between = items_between_positions [OF assms(1) this]
  have "list_all is_terminal (take (min width (length items - k * width)) (drop (k * width) items))"
    using assms(4) between by (simp add: range_complete_def Let_def is_terminal_def list_all_iff)
  with assms(2,3) between show ?thesis
    by (simp add: segment_exact_def Let_def) (simp add: segment_row_def Let_def)
qed

lemma on_sweep_sel [simp]:
  "bl_row (on_sweep c f L) = bl_row L" "bl_pages (on_sweep c f L) = bl_pages L"
  "bl_observations (on_sweep c f L) = bl_observations L" "bl_resolutions (on_sweep c f L) = bl_resolutions L"
  "bl_items (on_sweep c f L) = bl_items L" "bl_segments (on_sweep c f L) = bl_segments L"
  "bl_board (on_sweep c f L) = bl_board L" "bl_receipts (on_sweep c f L) = bl_receipts L"
  by (simp_all add: on_sweep_def split: option.split)

lemma seal_cases:
  assumes "sealReadyAtsV2Segments h now c allowListingPrefix L = Inr (r, L')"
  shows "L' = L \<or>
    (\<forall>s \<in> set (new_segments h now L). range_complete (bl_items L) s)
    \<and> bl_segments L' = bl_segments L @ new_segments h now L
    \<and> bl_items L' = bl_items L \<and> bl_resolutions L' = bl_resolutions L \<and> bl_observations L' = bl_observations L
    \<and> bl_pages L' = bl_pages L
    \<and> bl_row L' = sealed_row now (sum_list (map s_itemCount (new_segments h now L))) (bl_row L)"
  using assms
  by (auto simp: sealReadyAtsV2Segments_def Let_def find_None_iff split: if_splits option.splits sum.splits)

lemma sealed_row_sel [simp]:
  "b_segmentSize (sealed_row now n b) = b_segmentSize b"
  "b_canonicalOccurrenceCount (sealed_row now n b) = b_canonicalOccurrenceCount b"
  "b_compactedOccurrenceCount (sealed_row now n b) = b_compactedOccurrenceCount b"
  "b_terminalItemCount (sealed_row now n b) = b_terminalItemCount b"
  "b_sealedItemCount (sealed_row now n b) = b_sealedItemCount b + n"
  "b_rawObservationCount (sealed_row now n b) = b_rawObservationCount b"
  "b_listingOffset (sealed_row now n b) = b_listingOffset b"
  "b_listingGeneration (sealed_row now n b) = b_listingGeneration b"
  "b_activeLedgerGeneration (sealed_row now n b) = b_activeLedgerGeneration b"
  "b_platform (sealed_row now n b) = b_platform b"
  "b_publishedItemCount (sealed_row now n b) = b_publishedItemCount b"
  by (simp_all add: sealed_row_def Let_def)

lemma new_segments_exact:
  assumes "items_wf h L" and "\<forall>s \<in> set (new_segments h now L). range_complete (bl_items L) s"
  shows "segments_exact h (b_segmentSize (bl_row L)) (bl_items L) (bl_segments L @ new_segments h now L)"
proof -
  let ?w = "b_segmentSize (bl_row L)" and ?n = "length (bl_items L)"
  have wf: "map i_ordinal (bl_items L) = [0..<?n]" "0 < ?w" "b_canonicalOccurrenceCount (bl_row L) = ?n"
    "segments_exact h ?w (bl_items L) (bl_segments L)"
    using assms(1) by (auto simp: items_wf_def resolved_exact_def segments_exact_def Let_def)
  let ?m = "if b_acquisitionPhase (bl_row L) = ''listing'' then ?n div ?w * ?w else ?n"
  have new: "new_segments h now L = map (segment_row h now ?w ?n (bl_items L)) (ready_segments ?w ?m L)"
    by (simp add: new_segments_def Let_def wf(3))
  have "segment_exact h ?w (bl_items L) (segment_row h now ?w ?n (bl_items L) k)" if k: "k \<in> set (ready_segments ?w ?m L)" for k
  proof (rule segment_row_exact [OF wf(1,2)])
    obtain it :: item where "i_ordinal it < ?m" "i_ordinal it div ?w = k" using ready_segment(2) [OF k] by blast
    then have "k * ?w \<le> i_ordinal it" by auto
    also have "\<dots> < ?m" by fact
    also have "?m \<le> ?n" by simp
    finally show "k * ?w < ?n" .
    show "range_complete (bl_items L) (segment_row h now ?w ?n (bl_items L) k)"
      using assms(2) k unfolding new by simp
  qed
  moreover have "map s_ordinal (new_segments h now L) = ready_segments ?w ?m L"
    by (simp add: new comp_def)
  moreover have "set (ready_segments ?w ?m L) \<inter> s_ordinal ` set (bl_segments L) = {}"
    using ready_segment(1) by blast
  ultimately show ?thesis
    using wf(4) ready_distinct [of ?w ?m L] unfolding segments_exact_def new by (auto simp: comp_def)
qed

lemma seal_wf:
  assumes "sealReadyAtsV2Segments h now c allowListingPrefix L = Inr (r, L')" and "items_wf h L"
  shows "items_wf h L'"
  using seal_cases [OF assms(1)] assms(2) new_segments_exact [OF assms(2), of now]
  by (auto simp: items_wf_def Let_def)

end
