(* ===== verification/Ledger_Segments.thy ===== *)
theory Ledger_Segments
  imports Ledger_Items
begin

text \<open>
  From sealed segments to a processed batch: publication under a high and a low watermark, the claim of
  a published segment with the check of its manifest, and the account of a processing turn (\<open>src/lib/atsAcquisitionLedger.ts\<close> from
  \<open>atsV2PersistenceCapacityBacklog\<close> on; \<open>src/lib/atsPersistenceAllocation.ts\<close>,
  \<open>src/lib/atsProcessingSchedule.ts\<close>, \<open>src/lib/atsEmployerRetry.ts\<close>, \<open>src/lib/atsAdmissionCapacity.ts\<close>).

  The ledger of all boards is the list of their batches. Counters are natural numbers, so the tests of
  the source that they are safe non-negative integers have no counterpart.
\<close>

section \<open>Holds and the backlog\<close>

definition ATS_EMPLOYER_VERIFICATION_HOLD_REASONS :: "string list" where
  "ATS_EMPLOYER_VERIFICATION_HOLD_REASONS = [
     ''oracle downloaded work awaits a verified employer'',
     ''ukg downloaded work awaits a verified employer'',
     ''zohorecruit downloaded work awaits a verified employer'',
     ''successfactors downloaded work awaits a verified employer'',
     ''successfactors downloaded work awaits a verified posting location'']"

definition ATS_EMPLOYER_RETRY_CODES :: "string list" where
  "ATS_EMPLOYER_RETRY_CODES = [''employer_unverified'', ''location_unverified'']"

definition isAtsEmployerVerificationHold :: "string option \<Rightarrow> string option \<Rightarrow> bool" where
  "isAtsEmployerVerificationHold reason retryCode =
     (case retryCode of
        Some code \<Rightarrow> code \<in> set ATS_EMPLOYER_RETRY_CODES
      | None \<Rightarrow> (case reason of None \<Rightarrow> False | Some r \<Rightarrow> r \<in> set ATS_EMPLOYER_VERIFICATION_HOLD_REASONS))"

definition segment_hold :: "segment \<Rightarrow> bool" where
  "segment_hold s = isAtsEmployerVerificationHold (s_holdReason s) (s_retryCode s)"

text \<open>The two filters of the database, recovery and ordinary work.\<close>

definition atsEmployerVerificationHoldWhere :: "bool \<Rightarrow> segment \<Rightarrow> bool" where
  "atsEmployerVerificationHoldWhere recovery s \<longleftrightarrow>
     (if recovery
      then (case s_retryCode s of None \<Rightarrow> False | Some code \<Rightarrow> code \<in> set ATS_EMPLOYER_RETRY_CODES)
        \<or> s_retryCode s = None
          \<and> (case s_holdReason s of None \<Rightarrow> False | Some r \<Rightarrow> r \<in> set ATS_EMPLOYER_VERIFICATION_HOLD_REASONS)
      else (case s_retryCode s of None \<Rightarrow> False | Some code \<Rightarrow> code \<notin> set ATS_EMPLOYER_RETRY_CODES)
        \<or> s_retryCode s = None
          \<and> (s_holdReason s = None
             \<or> (case s_holdReason s of None \<Rightarrow> False | Some r \<Rightarrow> r \<notin> set ATS_EMPLOYER_VERIFICATION_HOLD_REASONS)))"

lemma hold_filters: "atsEmployerVerificationHoldWhere recovery s \<longleftrightarrow> (segment_hold s = recovery)"
  by (auto simp: atsEmployerVerificationHoldWhere_def segment_hold_def isAtsEmployerVerificationHold_def
      split: option.splits)

definition atsEmployerRetryCapacityJobs :: "int \<Rightarrow> int \<Rightarrow> int" where
  "atsEmployerRetryCapacityJobs lowWatermark highWatermark =
     max 0 (min 100 (min lowWatermark (highWatermark - 1) div 4))"

type_synonym ledger_db = "batch_ledger list"

definition all_segments :: "ledger_db \<Rightarrow> segment list" where
  "all_segments db = concat (map bl_segments db)"

definition atsRunnableSegment :: "ms \<Rightarrow> segment \<Rightarrow> bool" where
  "atsRunnableSegment now s \<longleftrightarrow> s_status s = ''processing''
     \<or> s_status s = ''published'' \<and> (s_nextProcessAt s = None \<or> due_by now (s_nextProcessAt s))"

definition remaining_jobs :: "segment \<Rightarrow> int" where
  "remaining_jobs s = max (int (s_itemCount s) - int (s_processingOffset s)) 0"

definition in_recovery :: "segment \<Rightarrow> bool" where
  "in_recovery s \<longleftrightarrow> s_status s = ''published'' \<and> segment_hold s"

text \<open>\<open>atsSegmentPersistenceCapacitySql\<close>, as read by \<open>atsV2PersistenceCapacityBacklog\<close>.\<close>

definition atsV2PersistenceCapacityBacklog :: "int \<Rightarrow> ms \<Rightarrow> ledger_db \<Rightarrow> int" where
  "atsV2PersistenceCapacityBacklog recoveryCapacity now db =
     (let runnable = filter (atsRunnableSegment now) (all_segments db) in
      sum_list (map remaining_jobs (filter (\<lambda>s. \<not> in_recovery s) runnable))
      + min (sum_list (map remaining_jobs (filter in_recovery runnable))) recoveryCapacity)"

section \<open>Publication\<close>

definition ATS_PUBLIC_TURN_JOBS :: int where "ATS_PUBLIC_TURN_JOBS = 50"
definition ATS_PUBLIC_CAPACITY_RESERVE :: int where "ATS_PUBLIC_CAPACITY_RESERVE = ATS_PUBLIC_TURN_JOBS * 2"

record persistence_allocation =
  pa_ceiling :: int
  pa_publicReserve :: int
  pa_publicationHigh :: int
  pa_publicationLow :: int

definition atsPersistenceAllocation :: "int \<Rightarrow> int \<Rightarrow> persistence_allocation" where
  "atsPersistenceAllocation lowWatermark highWatermark =
     (let ceiling = max 100 highWatermark;
          publicReserve = min ATS_PUBLIC_CAPACITY_RESERVE (ceiling div 2);
          publicationHigh = ceiling - publicReserve
      in \<lparr>pa_ceiling = ceiling, pa_publicReserve = publicReserve, pa_publicationHigh = publicationHigh,
          pa_publicationLow = max 0 (min lowWatermark (publicationHigh - 1))\<rparr>)"

record publication_gate =
  pg_paused :: bool
  pg_pausedAt :: "ms option"
  pg_backlogJobs :: int

record gate_plan =
  gp_publishAllowed :: bool
  gp_gate :: publication_gate
  gp_changed :: bool

definition planAtsV2PublicationGate ::
  "publication_gate \<Rightarrow> int \<Rightarrow> int \<Rightarrow> int \<Rightarrow> int \<Rightarrow> ms \<Rightarrow> gate_plan" where
  "planAtsV2PublicationGate previous initialBacklogJobs finalBacklogJobs highWatermark lowWatermark now =
     (let pausedBeforePublishing = (if pg_paused previous then lowWatermark < initialBacklogJobs
            else highWatermark \<le> initialBacklogJobs);
          publicationPaused = (pausedBeforePublishing \<or> highWatermark \<le> finalBacklogJobs);
          publicationPausedAt = (if publicationPaused
            then (if pg_paused previous \<and> pausedBeforePublishing
                  then Some (case pg_pausedAt previous of None \<Rightarrow> now | Some t \<Rightarrow> t) else Some now)
            else None)
      in \<lparr>gp_publishAllowed = (\<not> pausedBeforePublishing),
          gp_gate = \<lparr>pg_paused = publicationPaused, pg_pausedAt = publicationPausedAt, pg_backlogJobs = finalBacklogJobs\<rparr>,
          gp_changed = (pg_paused previous \<noteq> publicationPaused \<or> pg_pausedAt previous \<noteq> publicationPausedAt
            \<or> pg_backlogJobs previous \<noteq> finalBacklogJobs)\<rparr>)"

type_synonym segment_entry = "string \<times> segment"

text \<open>The loop of \<open>selectAtsPublicationSegments\<close>: it stops at the first segment that does not fit.\<close>

fun select_segments :: "int \<Rightarrow> string list \<Rightarrow> int \<Rightarrow> int \<Rightarrow> segment_entry list \<Rightarrow> segment_entry list" where
  "select_segments maximum batches units availableJobs [] = []"
| "select_segments maximum batches units availableJobs ((batchId, s) # entries) =
     (let cost = (if s_segmentSize s = 1 then 1 else 25) in
      if maximum * 25 < units + cost \<or> availableJobs < int (s_itemCount s)
         \<or> batchId \<notin> set batches \<and> maximum \<le> int (length batches)
      then []
      else (batchId, s) # select_segments maximum (if batchId \<in> set batches then batches else batches @ [batchId])
             (units + cost) (availableJobs - int (s_itemCount s)) entries)"

definition selectAtsPublicationSegments :: "segment_entry list \<Rightarrow> int \<Rightarrow> int \<Rightarrow> segment_entry list" where
  "selectAtsPublicationSegments entries maximum availableJobs = select_segments maximum [] 0 availableJobs entries"

definition batch_entries :: "batch_ledger \<Rightarrow> segment_entry list" where
  "batch_entries L = map (Pair (b_id (bl_row L))) (bl_segments L)"

definition sealed_entries :: "host \<Rightarrow> string option \<Rightarrow> ledger_db \<Rightarrow> segment_entry list" where
  "sealed_entries h batchId db =
     js_sort (then_cmp (key_cmp (\<lambda>e. s_sealedAt (snd e)) num_cmp)
        (then_cmp (key_cmp fst (h_collate h)) (key_cmp (\<lambda>e. int (s_ordinal (snd e))) num_cmp)))
       (filter (\<lambda>e. s_status (snd e) = ''sealed'' \<and> (case batchId of None \<Rightarrow> True | Some k \<Rightarrow> fst e = k))
         (concat (map batch_entries db)))"

definition entry_key :: "segment_entry \<Rightarrow> string \<times> nat" where
  "entry_key e = (fst e, s_ordinal (snd e))"

definition publishable :: "(string \<times> nat) set \<Rightarrow> string \<Rightarrow> segment \<Rightarrow> bool" where
  "publishable keys batchId s \<longleftrightarrow> (batchId, s_ordinal s) \<in> keys \<and> s_status s = ''sealed'' \<and> s_publishedAt s = None"

definition published_segment :: "ms \<Rightarrow> segment \<Rightarrow> segment" where
  "published_segment now s = s\<lparr>s_status := ''published'', s_publishedAt := Some now, s_nextProcessAt := Some now\<rparr>"

definition publish_batch :: "ms \<Rightarrow> segment_entry list \<Rightarrow> batch_ledger \<Rightarrow> batch_ledger" where
  "publish_batch now chosen L =
     (let k = b_id (bl_row L);
          items = sum_list (map (\<lambda>e. s_itemCount (snd e)) (filter (\<lambda>e. fst e = k) chosen))
      in L\<lparr>bl_segments := update_where (publishable (entry_key ` set chosen) k) (published_segment now) (bl_segments L),
           bl_row := (bl_row L)\<lparr>b_publishedItemCount := b_publishedItemCount (bl_row L) + items\<rparr>\<rparr>)"

record publication_result =
  pr_publishedSegments :: nat
  pr_publishedItems :: int
  pr_remainingJobs :: int

definition publishReadyAtsV2Segments ::
  "host \<Rightarrow> ms \<Rightarrow> bool \<Rightarrow> int \<Rightarrow> string option \<Rightarrow> int \<Rightarrow> int \<Rightarrow> int option \<Rightarrow> publication_gate \<times> ledger_db
    \<Rightarrow> ledger_error + publication_result \<times> publication_gate \<times> ledger_db" where
  "publishReadyAtsV2Segments h now storageAllowed recoveryCapacity batchId highWatermark lowWatermark maxSegments st =
     (let (gate, db) = st;
          allocation = atsPersistenceAllocation lowWatermark highWatermark;
          maximum = max 1 (min 10 (case maxSegments of None \<Rightarrow> 10 | Some n \<Rightarrow> if n = 0 then 10 else n));
          initial = atsV2PersistenceCapacityBacklog recoveryCapacity now db;
          plan = (\<lambda>final. planAtsV2PublicationGate gate initial final (pa_publicationHigh allocation)
            (pa_publicationLow allocation) now);
          stored = (\<lambda>p. if gp_changed p then gp_gate p else gate)
      in
      if \<not> storageAllowed then Inr (\<lparr>pr_publishedSegments = 0, pr_publishedItems = 0, pr_remainingJobs = 0\<rparr>, gate, db)
      else if \<not> gp_publishAllowed (plan initial)
      then Inr (\<lparr>pr_publishedSegments = 0, pr_publishedItems = 0, pr_remainingJobs = initial\<rparr>, stored (plan initial), db)
      else
        let entries = take (nat maximum * 25) (sealed_entries h batchId db);
            chosen = selectAtsPublicationSegments entries maximum (pa_publicationHigh allocation - initial);
            published = count_where (\<lambda>e. publishable (entry_key ` set chosen) (fst e) (snd e)) (concat (map batch_entries db));
            items = int (sum_list (map (\<lambda>e. s_itemCount (snd e)) chosen))
        in if published \<noteq> length chosen then Inl SelectionChanged
           else Inr (\<lparr>pr_publishedSegments = published, pr_publishedItems = items, pr_remainingJobs = initial + items\<rparr>,
                  stored (plan (initial + items)), map (publish_batch now chosen) db))"

section \<open>Claiming a segment\<close>

definition eligible_segment :: "ms \<Rightarrow> segment \<Rightarrow> bool" where
  "eligible_segment now s \<longleftrightarrow>
     s_status s = ''published'' \<and> (s_nextProcessAt s = None \<or> due_by now (s_nextProcessAt s))
     \<or> s_status s = ''processing'' \<and> due_by now (s_leaseExpiresAt s)"

datatype retry_mode = Prefer | Fallback | Exclude

definition retry_groups :: "retry_mode \<Rightarrow> bool list" where
  "retry_groups mode = (case mode of Prefer \<Rightarrow> [True, False] | Exclude \<Rightarrow> [False] | Fallback \<Rightarrow> [False, True])"

definition nulls_first_cmp :: "ms option cmp" where
  "nulls_first_cmp a b = (case (a, b) of (None, None) \<Rightarrow> 0 | (None, Some y) \<Rightarrow> - 1 | (Some x, None) \<Rightarrow> 1 | (Some x, Some y) \<Rightarrow> x - y)"

definition nulls_last_cmp :: "ms option cmp" where
  "nulls_last_cmp a b = (case (a, b) of (None, None) \<Rightarrow> 0 | (None, Some y) \<Rightarrow> 1 | (Some x, None) \<Rightarrow> - 1 | (Some x, Some y) \<Rightarrow> x - y)"

text \<open>A segment is created when it is sealed, so \<open>createdAt\<close> is read as \<open>sealedAt\<close>.\<close>

definition claim_order :: "segment_entry cmp" where
  "claim_order = then_cmp (key_cmp (\<lambda>e. s_nextProcessAt (snd e)) nulls_first_cmp)
     (then_cmp (key_cmp (\<lambda>e. s_publishedAt (snd e)) nulls_last_cmp) (key_cmp (\<lambda>e. s_sealedAt (snd e)) num_cmp))"

fun first_candidate :: "ms \<Rightarrow> bool list \<Rightarrow> ledger_db \<Rightarrow> segment_entry option" where
  "first_candidate now [] db = None"
| "first_candidate now (recovery # groups) db =
     (case js_sort claim_order (filter (\<lambda>e. eligible_segment now (snd e) \<and> atsEmployerVerificationHoldWhere recovery (snd e))
         (concat (map batch_entries db))) of
        [] \<Rightarrow> first_candidate now groups db
      | e # es \<Rightarrow> Some e)"

definition leased_segment :: "host \<Rightarrow> ms \<Rightarrow> string \<Rightarrow> string \<Rightarrow> segment \<Rightarrow> segment" where
  "leased_segment h now owner leaseToken s = s\<lparr>s_status := ''processing'', s_leaseToken := Some leaseToken,
     s_leaseOwner := Some owner, s_leaseFence := s_leaseFence s + 1, s_heartbeatAt := Some now,
     s_leaseExpiresAt := Some (now + ATS_LEDGER_SEGMENT_LEASE_MS h), s_nextProcessAt := None\<rparr>"

text \<open>\<open>{ ...a, ...b }\<close>.\<close>

definition spread :: "job \<Rightarrow> job \<Rightarrow> job" where
  "spread a b = map (\<lambda>(k, v). (k, case map_of b k of Some w \<Rightarrow> w | None \<Rightarrow> v)) a
     @ filter (\<lambda>(k, v). k \<notin> fst ` set a) b"

definition mergeAtsLedgerItem :: "job \<Rightarrow> json option \<Rightarrow> job" where
  "mergeAtsLedgerItem rawJson overlay = spread rawJson (json_object overlay)"

record prefetched_segment =
  ps_employerVerificationRetry :: bool
  ps_sourceBatchId :: string
  ps_segmentOrdinal :: nat
  ps_slug :: string
  ps_platform :: string
  ps_jobs :: "job list"
  ps_metadata :: job
  ps_processingOffset :: nat
  ps_totalJobCount :: nat
  ps_synchronizedAt :: "ms option"
  ps_leaseToken :: string
  ps_ledgerGeneration :: nat
  ps_canonicalOrdinals :: "nat list"
  ps_manifestHash :: string

primrec merged_jobs :: "host \<Rightarrow> observation list \<Rightarrow> item list \<Rightarrow> ledger_error + job list" where
  "merged_jobs h obs [] = Inr []"
| "merged_jobs h obs (it # items) =
     (case resolveAtsItemRaw h obs it of
        Inl e \<Rightarrow> Inl e
      | Inr job \<Rightarrow> (case merged_jobs h obs items of
            Inl e \<Rightarrow> Inl e
          | Inr js \<Rightarrow> Inr (mergeAtsLedgerItem job (i_overlay it) # js)))"

definition listing_metadata :: "page list \<Rightarrow> job" where
  "listing_metadata pages = foldl (\<lambda>merged p. spread merged (p_metadata p)) []
     (js_sort (key_cmp (\<lambda>p. int (p_requestedOffset p)) num_cmp) pages)"

text \<open>What the claim reads of a segment once it is leased: its items, checked against the manifest, and
  the postings from the processing offset on.\<close>

definition read_segment :: "host \<Rightarrow> batch_ledger \<Rightarrow> string \<Rightarrow> segment \<Rightarrow> ledger_error + prefetched_segment" where
  "read_segment h L leaseToken s =
     (let b = bl_row L;
          items = by_ordinal (filter (\<lambda>it. s_firstOrdinal s \<le> i_ordinal it \<and> int (i_ordinal it) \<le> s_lastOrdinal s
            \<and> i_status it = ''terminal'') (bl_items L));
          manifestHash = segment_manifest h items;
          remainingItems = drop (s_processingOffset s) items
      in
      if b_writerMode b \<noteq> ''v2'' then Inl NotVersionTwo
      else if length items \<noteq> s_itemCount s
         \<or> map i_ordinal items \<noteq> [s_firstOrdinal s..<s_firstOrdinal s + s_itemCount s]
      then Inl (ManifestIncomplete (s_ordinal s))
      else if manifestHash \<noteq> s_manifestHash s then Inl (ManifestChanged (s_ordinal s))
      else (case merged_jobs h (bl_observations L) remainingItems of
        Inl e \<Rightarrow> Inl e
      | Inr jobs \<Rightarrow> Inr \<lparr>ps_employerVerificationRetry = segment_hold s, ps_sourceBatchId = b_id b,
            ps_segmentOrdinal = s_ordinal s, ps_slug = b_slug b, ps_platform = b_platform b, ps_jobs = jobs,
            ps_metadata = listing_metadata (filter (\<lambda>p. p_generation p = b_activeLedgerGeneration b) (bl_pages L)),
            ps_processingOffset = s_processingOffset s, ps_totalJobCount = s_itemCount s,
            ps_synchronizedAt = b_synchronizedAt b, ps_leaseToken = leaseToken,
            ps_ledgerGeneration = b_activeLedgerGeneration b,
            ps_canonicalOrdinals = map i_ordinal remainingItems, ps_manifestHash = manifestHash\<rparr>))"

definition lease_in_batch :: "host \<Rightarrow> ms \<Rightarrow> string \<Rightarrow> string \<Rightarrow> nat \<Rightarrow> batch_ledger \<Rightarrow> batch_ledger" where
  "lease_in_batch h now owner leaseToken ordinal L =
     L\<lparr>bl_segments := update_where (\<lambda>s. s_ordinal s = ordinal \<and> eligible_segment now s)
         (leased_segment h now owner leaseToken) (bl_segments L)\<rparr>"

text \<open>The statements of the claim are not one transaction: when the reading fails the lease stays. They are one
  step here: the cursor is the lease holder's alone and the items of a published segment are terminal.\<close>

definition claimNextAtsV2Segment ::
  "host \<Rightarrow> ms \<Rightarrow> bool \<Rightarrow> retry_mode \<Rightarrow> string \<Rightarrow> string \<Rightarrow> ledger_db
    \<Rightarrow> (ledger_error + prefetched_segment option) \<times> ledger_db" where
  "claimNextAtsV2Segment h now storageAllowed mode owner leaseToken db =
     (if \<not> storageAllowed then (Inr None, db)
      else (case first_candidate now (retry_groups mode) db of
        None \<Rightarrow> (Inr None, db)
      | Some (batchId, candidate) \<Rightarrow>
          let db' = map (\<lambda>L. if b_id (bl_row L) = batchId
                then lease_in_batch h now owner leaseToken (s_ordinal candidate) L else L) db
          in (case find (\<lambda>L. b_id (bl_row L) = batchId) db' of
                None \<Rightarrow> (Inl RecordMissing, db')
              | Some L \<Rightarrow> (case find (\<lambda>s. s_ordinal s = s_ordinal candidate) (bl_segments L) of
                    None \<Rightarrow> (Inl RecordMissing, db')
                  | Some s \<Rightarrow> (map_sum id Some (read_segment h L leaseToken s), db')))))"

section \<open>The account of a turn\<close>

definition held_by :: "nat \<Rightarrow> string \<Rightarrow> segment \<Rightarrow> bool" where
  "held_by ordinal leaseToken s \<longleftrightarrow> s_ordinal s = ordinal \<and> s_leaseToken s = Some leaseToken \<and> s_status s = ''processing''"

definition heartbeatAtsV2Segment :: "host \<Rightarrow> ms \<Rightarrow> nat \<Rightarrow> string \<Rightarrow> batch_ledger \<Rightarrow> bool \<times> batch_ledger" where
  "heartbeatAtsV2Segment h now ordinal leaseToken L =
     (let live = (\<lambda>s. held_by ordinal leaseToken s \<and> later_than now (s_leaseExpiresAt s)) in
      (count_where live (bl_segments L) = 1,
       L\<lparr>bl_segments := update_where live (\<lambda>s. s\<lparr>s_heartbeatAt := Some now,
           s_leaseExpiresAt := Some (now + ATS_LEDGER_SEGMENT_LEASE_MS h)\<rparr>) (bl_segments L)\<rparr>))"

record turn_counters =
  tc_inserted :: nat
  tc_duplicates :: nat
  tc_filtered :: nat
  tc_processingErrors :: nat

definition countersSeen :: "turn_counters \<Rightarrow> nat" where
  "countersSeen k = tc_inserted k + tc_duplicates k + tc_filtered k + tc_processingErrors k"

definition segment_seen :: "segment \<Rightarrow> nat" where
  "segment_seen s = s_inserted s + s_duplicates s + s_filtered s + s_processingErrors s"

definition ATS_ZERO_PROGRESS_PROCESSING_BACKOFF_MS :: ms where "ATS_ZERO_PROGRESS_PROCESSING_BACKOFF_MS = 60000"

definition nextAtsProcessingContinuationAt :: "ms \<Rightarrow> bool \<Rightarrow> bool \<Rightarrow> ms option \<Rightarrow> ms" where
  "nextAtsProcessingContinuationAt now interrupted cursorAdvanced retryAt =
     (let ordinaryRetry = now + (if interrupted \<and> \<not> cursorAdvanced then ATS_ZERO_PROGRESS_PROCESSING_BACKOFF_MS else 0);
          deferredRetry = (if interrupted then retryAt else None)
      in max ordinaryRetry (case deferredRetry of Some t \<Rightarrow> t | None \<Rightarrow> 0))"

definition SEGMENT_RETRY_DELAYS_MS :: "ms list" where "SEGMENT_RETRY_DELAYS_MS = [5 * 60000, 30 * 60000]"

definition unleased :: "ms \<Rightarrow> segment \<Rightarrow> segment" where
  "unleased now s = s\<lparr>s_leaseToken := None, s_leaseOwner := None, s_heartbeatAt := Some now, s_leaseExpiresAt := None\<rparr>"

record turn_report =
  tr_counters :: turn_counters
  tr_interrupted :: bool
  tr_retryAt :: "ms option"
  tr_retryReason :: "(string \<times> string) option"
  tr_fatalError :: "string option"
  tr_error :: "string option"

text \<open>A turn with processing errors is retried as a whole, twice; the third time it counts.\<close>

definition retried_segment :: "ms \<Rightarrow> turn_report \<Rightarrow> segment \<Rightarrow> segment" where
  "retried_segment now t s = (unleased now s)\<lparr>s_status := ''published'',
     s_holdReason := Some (str_or (tr_error t) ''Normalization or persistence failed; retrying this segment.''),
     s_retryCode := Some ''internal_error'', s_retryScope := Some ''posting'',
     s_nextProcessAt := Some (now + SEGMENT_RETRY_DELAYS_MS
       ! (min (s_leaseFence s - 1) (length SEGMENT_RETRY_DELAYS_MS - 1)))\<rparr>"

definition turn_retry :: "turn_report \<Rightarrow> (string \<times> string) option" where
  "turn_retry t = (case tr_retryReason t of Some r \<Rightarrow> Some r
     | None \<Rightarrow> if tr_interrupted t then Some (''operation_interrupted'', ''posting'') else None)"

definition turn_hold :: "turn_report \<Rightarrow> string option" where
  "turn_hold t = (if truthy (tr_error t) then tr_error t
     else if tr_interrupted t then Some ''Processing interrupted; remaining items retained for retry.'' else None)"

definition advanced_segment :: "ms \<Rightarrow> turn_report \<Rightarrow> segment \<Rightarrow> segment" where
  "advanced_segment now t s =
     (let nextOffset = s_processingOffset s + countersSeen (tr_counters t);
          complete = (nextOffset = s_itemCount s)
      in (unleased now s)\<lparr>s_status := (if complete then ''processed'' else ''published''),
        s_holdReason := (if complete then None else turn_hold t),
        s_retryCode := (if complete then None else map_option fst (turn_retry t)),
        s_retryScope := (if complete then None else map_option snd (turn_retry t)),
        s_processingOffset := nextOffset,
        s_inserted := s_inserted s + tc_inserted (tr_counters t),
        s_duplicates := s_duplicates s + tc_duplicates (tr_counters t),
        s_filtered := s_filtered s + tc_filtered (tr_counters t),
        s_processingErrors := s_processingErrors s + tc_processingErrors (tr_counters t),
        s_processedAt := (if complete then Some now else None),
        s_nextProcessAt := (if complete then None else Some (nextAtsProcessingContinuationAt now (tr_interrupted t)
          (s_processingOffset s < nextOffset) (tr_retryAt t)))\<rparr>)"

end
