(* ===== verification/Ledger_Finish.thy ===== *)
theory Ledger_Finish
  imports Ledger_Segments
begin

text \<open>
  The end of the work on a batch (\<open>src/lib/atsAcquisitionLedger.ts\<close>, \<open>atsV2BatchFinalizationReady\<close> to
  \<open>reconcileExpiredAtsV2Work\<close>): the report of a processing turn on a segment, the release of a failed
  segment, the end of a claim, the reconciliation of expired leases, and the finalisation of the batch
  once all of its evidence is accounted for.
\<close>

section \<open>Finalisation\<close>

record finalization_snapshot =
  fs_writerMode :: string
  fs_status :: string
  fs_processedAt :: "ms option"
  fs_listingCompletedAt :: "ms option"
  fs_synchronizedAt :: "ms option"
  fs_acquisitionPhase :: string
  fs_rawObservationCount :: nat
  fs_observationCount :: nat
  fs_resolutionCount :: nat
  fs_canonicalOccurrenceCount :: nat
  fs_canonicalItemCount :: nat
  fs_compactedOccurrenceCount :: nat
  fs_terminalItemCount :: nat
  fs_terminalItemRowCount :: nat
  fs_sealedItemCount :: nat
  fs_publishedItemCount :: nat
  fs_segmentSize :: nat
  fs_incompletePageCount :: nat
  fs_liveAcquisitionLeaseCount :: nat
  fs_liveWorkReceiptLeaseCount :: nat
  fs_liveEnrichmentLeaseCount :: nat
  fs_liveSegmentLeaseCount :: nat
  fs_segments :: "segment list"

text \<open>The condition of \<open>segments.every\<close> for the segment at an index. The source tests \<open>lastOrdinal\<close> to be a
  non-negative integer with the other counts.\<close>

definition segment_accounted :: "nat \<Rightarrow> nat \<Rightarrow> nat \<Rightarrow> segment \<Rightarrow> bool" where
  "segment_accounted segmentSize canonical index s \<longleftrightarrow>
     (let firstOrdinal = index * segmentSize;
          itemCount = min (int segmentSize) (int canonical - int firstOrdinal)
      in s_ordinal s = index \<and> 0 \<le> s_lastOrdinal s \<and> s_firstOrdinal s = firstOrdinal
         \<and> s_lastOrdinal s = int firstOrdinal + itemCount - 1
         \<and> int (s_itemCount s) = itemCount
         \<and> s_status s = ''processed''
         \<and> int (s_processingOffset s) = itemCount
         \<and> segment_seen s = s_processingOffset s)"

definition atsV2BatchFinalizationReady :: "finalization_snapshot \<Rightarrow> bool" where
  "atsV2BatchFinalizationReady f \<longleftrightarrow>
     fs_writerMode f = ''v2''
     \<and> fs_status f \<in> {''synchronized'', ''reset_synchronized''}
     \<and> fs_processedAt f = None
     \<and> fs_listingCompletedAt f \<noteq> None
     \<and> fs_synchronizedAt f \<noteq> None
     \<and> fs_acquisitionPhase f = ''synchronized''
     \<and> 0 < fs_segmentSize f
     \<and> fs_incompletePageCount f = 0
     \<and> fs_rawObservationCount f = fs_observationCount f
     \<and> fs_rawObservationCount f = fs_resolutionCount f
     \<and> fs_rawObservationCount f = fs_canonicalOccurrenceCount f + fs_compactedOccurrenceCount f
     \<and> fs_canonicalOccurrenceCount f = fs_canonicalItemCount f
     \<and> fs_canonicalOccurrenceCount f = fs_terminalItemCount f
     \<and> fs_canonicalOccurrenceCount f = fs_terminalItemRowCount f
     \<and> fs_canonicalOccurrenceCount f = fs_sealedItemCount f
     \<and> fs_canonicalOccurrenceCount f = fs_publishedItemCount f
     \<and> fs_liveAcquisitionLeaseCount f = 0
     \<and> fs_liveWorkReceiptLeaseCount f = 0
     \<and> fs_liveEnrichmentLeaseCount f = 0
     \<and> fs_liveSegmentLeaseCount f = 0
     \<and> length (fs_segments f) = (fs_canonicalOccurrenceCount f + fs_segmentSize f - 1) div fs_segmentSize f
     \<and> list_all (\<lambda>(index, s). segment_accounted (fs_segmentSize f) (fs_canonicalOccurrenceCount f) index s)
         (List.enumerate 0 (js_sort (key_cmp (\<lambda>s. int (s_ordinal s)) num_cmp) (fs_segments f)))"

text \<open>A batch whose acquisition is finished and that is not processed yet.\<close>

definition awaits_processing :: "batch_row \<Rightarrow> bool" where
  "awaits_processing b \<longleftrightarrow> b_writerMode b = ''v2'' \<and> b_status b \<in> {''synchronized'', ''reset_synchronized''}
     \<and> b_acquisitionPhase b = ''synchronized'' \<and> b_processedAt b = None"

definition live_lease :: "ms \<Rightarrow> string option \<Rightarrow> ms option \<Rightarrow> bool" where
  "live_lease now token expires \<longleftrightarrow> token \<noteq> None \<and> later_than now expires"

definition finalization_counts :: "ms \<Rightarrow> batch_ledger \<Rightarrow> finalization_snapshot" where
  "finalization_counts now L =
     (let b = bl_row L; generation = b_activeLedgerGeneration b in
      \<lparr>fs_writerMode = b_writerMode b, fs_status = b_status b, fs_processedAt = b_processedAt b,
       fs_listingCompletedAt = b_listingCompletedAt b, fs_synchronizedAt = b_synchronizedAt b,
       fs_acquisitionPhase = b_acquisitionPhase b, fs_rawObservationCount = b_rawObservationCount b,
       fs_observationCount = count_where (\<lambda>ob. fst (o_page ob) = generation) (bl_observations L),
       fs_resolutionCount = length (bl_resolutions L),
       fs_canonicalOccurrenceCount = b_canonicalOccurrenceCount b,
       fs_canonicalItemCount = length (bl_items L),
       fs_compactedOccurrenceCount = b_compactedOccurrenceCount b,
       fs_terminalItemCount = b_terminalItemCount b,
       fs_terminalItemRowCount = count_where (\<lambda>it. i_status it = ''terminal'') (bl_items L),
       fs_sealedItemCount = b_sealedItemCount b, fs_publishedItemCount = b_publishedItemCount b,
       fs_segmentSize = b_segmentSize b,
       fs_incompletePageCount = incomplete_pages generation L,
       fs_liveAcquisitionLeaseCount = (if live_lease now (b_claimToken b) (b_claimExpiresAt b) then 1 else 0),
       fs_liveWorkReceiptLeaseCount = count_where (\<lambda>w. w_finishedAt w = None \<and> later_than now (w_leaseExpiresAt w)) (bl_receipts L),
       fs_liveEnrichmentLeaseCount = count_where (\<lambda>it. live_lease now (i_claimToken it) (i_claimExpiresAt it)) (bl_items L),
       fs_liveSegmentLeaseCount = count_where (\<lambda>s. live_lease now (s_leaseToken s) (s_leaseExpiresAt s)) (bl_segments L),
       fs_segments = bl_segments L\<rparr>)"

definition finalized_row :: "ms \<Rightarrow> bool \<Rightarrow> batch_row \<Rightarrow> batch_row" where
  "finalized_row now completedWithErrors b = b\<lparr>
     b_status := (if b_operatorResetAt b \<noteq> None
       then (if completedWithErrors then ''reset_failed'' else ''reset_processed'')
       else (if completedWithErrors then ''failed'' else ''processed'')),
     b_processedAt := Some now,
     b_lastError := (if completedWithErrors
       then Some ''One or more immutable ATS segments completed with quarantined processing errors.'' else None)\<rparr>"

definition swept :: "ms \<Rightarrow> bool \<Rightarrow> sweep_receipt \<Rightarrow> sweep_receipt" where
  "swept now isEmpty s = (if sw_processedAt s \<noteq> None then s
     else s\<lparr>sw_processedAt := Some now, sw_outcome := (if isEmpty then Some ''processed_empty'' else sw_outcome s)\<rparr>)"

text \<open>The final update repeats the guards on the row, which the same transaction has just read.\<close>

definition finalizeAtsV2BatchIfReady :: "ms \<Rightarrow> batch_ledger \<Rightarrow> bool \<times> batch_ledger" where
  "finalizeAtsV2BatchIfReady now L =
     (let b = bl_row L;
          completedWithErrors = (\<exists>s \<in> set (bl_segments L). 0 < s_processingErrors s)
      in
      if \<not> awaits_processing b \<or> b_listingCompletedAt b = None \<or> b_synchronizedAt b = None then (False, L)
      else if \<exists>s \<in> set (bl_segments L). s_status s \<noteq> ''processed'' then (False, L)
      else if \<not> atsV2BatchFinalizationReady (finalization_counts now L) then (False, L)
      else (True, L\<lparr>bl_row := finalized_row now completedWithErrors b,
             bl_sweep := map_option (swept now (b_canonicalOccurrenceCount b = 0)) (bl_sweep L),
             bl_board := (bl_board L)\<lparr>co_lastProcessedAt := Some now\<rparr>\<rparr>))"

section \<open>The report of a turn\<close>

definition completeAtsV2SegmentProcessing ::
  "ms \<Rightarrow> nat \<Rightarrow> string \<Rightarrow> turn_report \<Rightarrow> batch_ledger \<Rightarrow> ledger_error + bool \<times> batch_ledger" where
  "completeAtsV2SegmentProcessing now ordinal leaseToken t L =
     (case find (\<lambda>s. held_by ordinal leaseToken s \<and> later_than now (s_leaseExpiresAt s)) (bl_segments L) of
        None \<Rightarrow> Inr (False, L)
      | Some s \<Rightarrow>
          let turnSeen = int (countersSeen (tr_counters t));
              remaining = int (s_itemCount s) - int (s_processingOffset s);
              same = (\<lambda>x. held_by ordinal leaseToken x \<and> s_processingOffset x = s_processingOffset s);
              released = L\<lparr>bl_segments := update_where same (retried_segment now t) (bl_segments L)\<rparr>;
              updated = L\<lparr>bl_segments := update_where same (advanced_segment now t) (bl_segments L)\<rparr>
          in
          if segment_seen s \<noteq> s_processingOffset s then Inl CountersDoNotMatchCursor
          else if truthy (tr_fatalError t) \<or> remaining < turnSeen \<or> \<not> tr_interrupted t \<and> turnSeen \<noteq> remaining
          then Inl TurnDidNotReconcile
          else if 0 < tc_processingErrors (tr_counters t) \<and> s_leaseFence s < 3
          then Inr (count_where same (bl_segments L) = 1, released)
          else if count_where same (bl_segments L) \<noteq> 1 then Inr (False, updated)
          else if s_processingOffset s + countersSeen (tr_counters t) = s_itemCount s
          then Inr (True, snd (finalizeAtsV2BatchIfReady now updated))
          else Inr (True, updated))"

text \<open>\<open>message\<close> is the text of the error and \<open>reason\<close> the retry reason it carries.\<close>

definition failed_segment :: "ms \<Rightarrow> string \<Rightarrow> (string \<times> string) option \<Rightarrow> segment \<Rightarrow> segment" where
  "failed_segment now message reason s =
     (let (code, scope) = (case reason of Some r \<Rightarrow> r | None \<Rightarrow> (''internal_error'', ''posting'')) in
      (unleased now s)\<lparr>s_status := ''published'', s_holdReason := Some message, s_retryCode := Some code,
        s_retryScope := Some scope,
        s_nextProcessAt := Some (now + SEGMENT_RETRY_DELAYS_MS
          ! (min (s_leaseFence s - 1) (length SEGMENT_RETRY_DELAYS_MS - 1)))\<rparr>)"

definition failAtsV2SegmentProcessing ::
  "ms \<Rightarrow> nat \<Rightarrow> string \<Rightarrow> string \<Rightarrow> (string \<times> string) option \<Rightarrow> batch_ledger \<Rightarrow> bool \<times> batch_ledger" where
  "failAtsV2SegmentProcessing now ordinal leaseToken message reason L =
     (count_where (held_by ordinal leaseToken) (bl_segments L) = 1,
      L\<lparr>bl_segments := update_where (held_by ordinal leaseToken) (failed_segment now message reason) (bl_segments L)\<rparr>)"

section \<open>The end of a claim\<close>

definition nonempty_text :: "nat \<Rightarrow> string option \<Rightarrow> string option" where
  "nonempty_text n t = (case t of None \<Rightarrow> None | Some s \<Rightarrow> if take n s = [] then None else Some (take n s))"

text \<open>\<open>nextAcquireAt\<close> left out means now; \<open>Some None\<close> clears it.\<close>

definition finishAtsV2Claim ::
  "ms \<Rightarrow> ledger_claim \<Rightarrow> string \<Rightarrow> string option \<Rightarrow> string option \<Rightarrow> ms option option \<Rightarrow> batch_ledger
    \<Rightarrow> bool \<times> batch_ledger" where
  "finishAtsV2Claim now c yieldReason failure failureScope nextAcquireAt L =
     (let message = nonempty_text 1000 failure;
          L1 = L\<lparr>bl_receipts := update_where (fenced_receipt c)
            (\<lambda>w. w\<lparr>w_finishedAt := Some now, w_heartbeatAt := Some now, w_leaseExpiresAt := None,
               w_yieldReason := Some yieldReason,
               w_failureScope := (if truthy failureScope then failureScope else None), w_error := message\<rparr>)
            (bl_receipts L)\<rparr>;
          L2 = L1\<lparr>bl_row := released now (case nextAcquireAt of None \<Rightarrow> Some now | Some t \<Rightarrow> t) message c (bl_row L1)\<rparr>
      in if count_where (fenced_receipt c) (bl_receipts L) \<noteq> 1 then (False, L1)
         else if \<not> fenced_batch c (bl_row L1) then (False, L2)
         else (True, snd (finalizeAtsV2BatchIfReady now L2)))"

section \<open>Expired work\<close>

definition expired_receipt :: "ms \<Rightarrow> work_receipt \<Rightarrow> work_receipt" where
  "expired_receipt now w = w\<lparr>w_finishedAt := Some now, w_heartbeatAt := Some now, w_leaseExpiresAt := None,
     w_yieldReason := Some ''expired'', w_ambiguousDispatch := True,
     w_error := Some ''ATS v2 work lease expired; only its durable checkpoint may be adopted.''\<rparr>"

definition expired_claim :: "ms \<Rightarrow> batch_row \<Rightarrow> bool" where
  "expired_claim now b \<longleftrightarrow> b_writerMode b = ''v2'' \<and> due_by now (b_claimExpiresAt b)"

definition reclaimed_row :: "ms \<Rightarrow> batch_row \<Rightarrow> batch_row" where
  "reclaimed_row now b = (if expired_claim now b
     then b\<lparr>b_claimToken := None, b_claimOwner := None, b_claimHeartbeatAt := Some now, b_claimExpiresAt := None,
       b_nextAcquireAt := Some now\<rparr> else b)"

definition expired_item :: "ms \<Rightarrow> item \<Rightarrow> bool" where
  "expired_item now it \<longleftrightarrow> due_by now (i_claimExpiresAt it) \<and> i_status it = ''pending''"

definition expired_segment :: "ms \<Rightarrow> segment \<Rightarrow> bool" where
  "expired_segment now s \<longleftrightarrow> due_by now (s_leaseExpiresAt s) \<and> s_status s = ''processing''"

definition reclaimed_segment :: "ms \<Rightarrow> segment \<Rightarrow> segment" where
  "reclaimed_segment now s = (unleased now s)\<lparr>s_status := ''published'', s_nextProcessAt := Some now\<rparr>"

text \<open>What the expiry does to one batch. A batch whose acquisition claim has just expired is finalised when
  nothing else holds it.\<close>

definition released_work :: "ms \<Rightarrow> batch_ledger \<Rightarrow> batch_ledger" where
  "released_work now L =
     L\<lparr>bl_receipts := update_where (\<lambda>w. w_finishedAt w = None \<and> due_by now (w_leaseExpiresAt w)) (expired_receipt now) (bl_receipts L),
       bl_row := reclaimed_row now (bl_row L),
       bl_items := update_where (expired_item now)
         (\<lambda>it. free_item it\<lparr>i_nextDetailAt := Some now\<rparr>) (bl_items L),
       bl_segments := update_where (expired_segment now) (reclaimed_segment now) (bl_segments L)\<rparr>"

definition finalization_candidate :: "ms \<Rightarrow> batch_row \<Rightarrow> bool" where
  "finalization_candidate now b \<longleftrightarrow> awaits_processing b \<and> due_by now (b_claimExpiresAt b)"

definition reconcile_batch :: "ms \<Rightarrow> batch_ledger \<Rightarrow> bool \<times> batch_ledger" where
  "reconcile_batch now L =
     (if finalization_candidate now (bl_row L) then finalizeAtsV2BatchIfReady now (released_work now L)
      else (False, released_work now L))"

record expiry_report =
  er_batchClaims :: nat
  er_itemClaims :: nat
  er_segmentClaims :: nat
  er_workReceipts :: nat
  er_finalizedBatches :: nat

definition reconcileExpiredAtsV2Work :: "ms \<Rightarrow> ledger_db \<Rightarrow> expiry_report \<times> ledger_db" where
  "reconcileExpiredAtsV2Work now db =
     (\<lparr>er_batchClaims = count_where (\<lambda>L. expired_claim now (bl_row L)) db,
       er_itemClaims = sum_list (map (\<lambda>L. count_where (expired_item now) (bl_items L)) db),
       er_segmentClaims = count_where (expired_segment now) (all_segments db),
       er_workReceipts = sum_list (map (\<lambda>L. count_where (\<lambda>w. w_finishedAt w = None \<and> due_by now (w_leaseExpiresAt w))
         (bl_receipts L)) db),
       er_finalizedBatches = count_where (\<lambda>L. fst (reconcile_batch now L)) db\<rparr>,
      map (snd \<circ> reconcile_batch now) db)"

end
