(* ===== verification/Ledger_Invariant.thy ===== *)
theory Ledger_Invariant
  imports Ledger_Finish
begin

text \<open>
  What a batch keeps under every operation of the ledger: the listing and item invariants together, the
  evidence of the items, what each acquisition phase promises, and the books of the segments.
\<close>

section \<open>The invariant of a batch\<close>

text \<open>An item carries the hash of the observation it was made from.\<close>

definition evidence :: "item \<Rightarrow> observation_key \<times> string" where
  "evidence it = (i_observation it, i_rawHash it)"

definition evidence_wf :: "batch_ledger \<Rightarrow> bool" where
  "evidence_wf L \<longleftrightarrow> evidence ` set (bl_items L) \<subseteq> (\<lambda>ob. (o_key ob, o_rawHash ob)) ` set (bl_observations L)"

text \<open>The promise of each phase. Once the listing is over no posting is missing; once the compaction is
  over every observation is resolved; a sealing batch has only terminal items; a synchronized one has
  them all sealed.\<close>

definition resolved_phase :: "string \<Rightarrow> bool" where
  "resolved_phase phase \<longleftrightarrow> phase \<in> {''enrichment'', ''sealing'', ''synchronized''}"

definition phase_wf :: "batch_ledger \<Rightarrow> bool" where
  "phase_wf L \<longleftrightarrow> (let b = bl_row L; phase = b_acquisitionPhase b in
     b_writerMode b = ''v2''
     \<and> (phase \<in> {''listing'', ''compaction''} \<or> resolved_phase phase)
     \<and> (phase \<noteq> ''listing'' \<longrightarrow> missing L = 0)
     \<and> (resolved_phase phase \<longrightarrow> b_canonicalOccurrenceCount b + b_compactedOccurrenceCount b = b_rawObservationCount b)
     \<and> (phase \<in> {''sealing'', ''synchronized''} \<longrightarrow> b_terminalItemCount b = b_canonicalOccurrenceCount b)
     \<and> (phase = ''synchronized'' \<longrightarrow> b_sealedItemCount b = b_canonicalOccurrenceCount b))"

lemma phase_wfD:
  assumes "phase_wf L"
  shows "b_writerMode (bl_row L) = ''v2''"
    and "b_acquisitionPhase (bl_row L) \<noteq> ''listing'' \<Longrightarrow> missing L = 0"
    and "resolved_phase (b_acquisitionPhase (bl_row L)) \<Longrightarrow>
      b_canonicalOccurrenceCount (bl_row L) + b_compactedOccurrenceCount (bl_row L) = b_rawObservationCount (bl_row L)"
  using assms unfolding phase_wf_def Let_def by blast+

lemma phase_wf_early:
  assumes "b_writerMode (bl_row L) = ''v2''"
    and "b_acquisitionPhase (bl_row L) = ''listing'' \<or> b_acquisitionPhase (bl_row L) = ''compaction'' \<and> missing L = 0"
  shows "phase_wf L"
  using assms(2)
proof
  assume "b_acquisitionPhase (bl_row L) = ''listing''"
  with assms(1) show ?thesis by (simp add: phase_wf_def resolved_phase_def Let_def)
next
  assume "b_acquisitionPhase (bl_row L) = ''compaction'' \<and> missing L = 0"
  with assms(1) show ?thesis by (simp add: phase_wf_def resolved_phase_def Let_def)
qed

lemma phase_wf_enrichment:
  assumes "b_writerMode (bl_row L) = ''v2''" and "b_acquisitionPhase (bl_row L) = ''enrichment''" and "missing L = 0"
    and "b_canonicalOccurrenceCount (bl_row L) + b_compactedOccurrenceCount (bl_row L) = b_rawObservationCount (bl_row L)"
  shows "phase_wf L"
  using assms by (simp add: phase_wf_def resolved_phase_def Let_def)

text \<open>The books of a segment: what was counted is what the cursor has passed. A sealed segment is fresh, a
  leased one is in processing and its fence counts the leases.\<close>

definition segment_fresh :: "segment \<Rightarrow> bool" where
  "segment_fresh s \<longleftrightarrow> s_processingOffset s = 0 \<and> s_holdReason s = None \<and> s_retryCode s = None \<and> s_leaseToken s = None"

definition segment_ok :: "segment \<Rightarrow> bool" where
  "segment_ok s \<longleftrightarrow>
     s_status s \<in> {''sealed'', ''published'', ''processing'', ''processed''}
     \<and> segment_seen s = s_processingOffset s \<and> s_processingOffset s \<le> s_itemCount s
     \<and> (s_status s = ''sealed'' \<longrightarrow> segment_fresh s) \<and> (s_publishedAt s = None \<longleftrightarrow> s_status s = ''sealed'')
     \<and> (s_status s = ''processed'' \<longleftrightarrow> s_processingOffset s = s_itemCount s)
     \<and> (s_leaseToken s \<noteq> None \<longleftrightarrow> s_status s = ''processing'')
     \<and> (s_status s = ''processing'' \<longrightarrow> 0 < s_leaseFence s)"

definition published :: "segment \<Rightarrow> bool" where
  "published s \<longleftrightarrow> s_publishedAt s \<noteq> None"

definition segments_wf :: "batch_ledger \<Rightarrow> bool" where
  "segments_wf L \<longleftrightarrow> (\<forall>s \<in> set (bl_segments L). segment_ok s)
     \<and> b_publishedItemCount (bl_row L) = sum_list (map s_itemCount (filter published (bl_segments L)))"

definition batch_wf :: "host \<Rightarrow> batch_ledger \<Rightarrow> bool" where
  "batch_wf h L \<longleftrightarrow> listing_wf h L \<and> items_wf h L \<and> evidence_wf L \<and> phase_wf L \<and> segments_wf L"

lemma batch_wfD:
  assumes "batch_wf h L"
  shows "listing_wf h L" and "items_wf h L" and "evidence_wf L" and "phase_wf L" and "segments_wf L"
  using assms by (simp_all add: batch_wf_def)

section \<open>Frames\<close>

text \<open>The columns the invariant reads, but for the count of terminal items.\<close>

definition books :: "batch_row \<Rightarrow> (string \<times> string \<times> string \<times> nat \<times> nat) \<times> nat list" where
  "books b = ((b_id b, b_writerMode b, b_platform b, b_activeLedgerGeneration b, b_listingGeneration b),
     [b_listingOffset b, b_rawObservationCount b, b_canonicalOccurrenceCount b, b_compactedOccurrenceCount b,
      b_sealedItemCount b, b_publishedItemCount b, b_segmentSize b])"

lemma books_sel:
  assumes "books b' = books b"
  shows "b_id b' = b_id b" and "b_writerMode b' = b_writerMode b" and "b_platform b' = b_platform b"
    and "b_activeLedgerGeneration b' = b_activeLedgerGeneration b" and "b_listingGeneration b' = b_listingGeneration b"
    and "b_listingOffset b' = b_listingOffset b" and "b_rawObservationCount b' = b_rawObservationCount b"
    and "b_canonicalOccurrenceCount b' = b_canonicalOccurrenceCount b"
    and "b_compactedOccurrenceCount b' = b_compactedOccurrenceCount b"
    and "b_sealedItemCount b' = b_sealedItemCount b" and "b_publishedItemCount b' = b_publishedItemCount b"
    and "b_segmentSize b' = b_segmentSize b"
  using assms by (simp_all add: books_def)

text \<open>A step on the items alone.\<close>

definition item_frame :: "batch_ledger \<Rightarrow> batch_ledger \<Rightarrow> bool" where
  "item_frame L L' \<longleftrightarrow> bl_pages L' = bl_pages L \<and> bl_observations L' = bl_observations L
     \<and> bl_resolutions L' = bl_resolutions L \<and> bl_segments L' = bl_segments L
     \<and> map evidence (bl_items L') = map evidence (bl_items L)
     \<and> books (bl_row L') = books (bl_row L) \<and> b_acquisitionPhase (bl_row L') = b_acquisitionPhase (bl_row L)
     \<and> b_terminalItemCount (bl_row L) \<le> b_terminalItemCount (bl_row L')"

lemma listing_wf_frame:
  assumes "listing_wf h L" and "bl_pages L' = bl_pages L" and "bl_observations L' = bl_observations L"
    and "b_listingGeneration (bl_row L') = b_listingGeneration (bl_row L)"
    and "b_activeLedgerGeneration (bl_row L') = b_activeLedgerGeneration (bl_row L)"
    and "b_platform (bl_row L') = b_platform (bl_row L)" and "b_listingOffset (bl_row L') = b_listingOffset (bl_row L)"
    and "b_rawObservationCount (bl_row L') = b_rawObservationCount (bl_row L)"
  shows "listing_wf h L'"
  using assms by (simp add: listing_wf_def Let_def)

lemma items_bound: "items_wf h L \<Longrightarrow> b_terminalItemCount (bl_row L) \<le> b_canonicalOccurrenceCount (bl_row L)"
  by (simp add: items_wf_def Let_def count_where_def)

lemma evidence_image: "map evidence xs = map evidence ys \<Longrightarrow> evidence ` set xs = evidence ` set ys"
  by (metis list.set_map)

lemma item_frame_wf:
  assumes "item_frame L L'" and "items_wf h L'" and "batch_wf h L"
  shows "batch_wf h L'"
proof -
  note wf = batch_wfD [OF assms(3)]
  have frame: "bl_pages L' = bl_pages L" "bl_observations L' = bl_observations L" "bl_segments L' = bl_segments L"
    "books (bl_row L') = books (bl_row L)" "b_acquisitionPhase (bl_row L') = b_acquisitionPhase (bl_row L)"
    "b_terminalItemCount (bl_row L) \<le> b_terminalItemCount (bl_row L')" "map evidence (bl_items L') = map evidence (bl_items L)"
    using assms(1) by (simp_all add: item_frame_def)
  note keep = books_sel [OF frame(4)]
  have "listing_wf h L'" by (rule listing_wf_frame [OF wf(1)]) (use frame keep in simp_all)
  moreover have "phase_wf L'"
    using wf(4) frame(1,5,6) keep items_bound [OF assms(2)] by (auto simp: phase_wf_def Let_def missing_def)
  moreover have "segments_wf L'" using wf(5) frame(3) keep by (simp add: segments_wf_def)
  moreover have "evidence_wf L'"
    using wf(3) frame(2) evidence_image [OF frame(7)] by (simp add: evidence_wf_def)
  ultimately show ?thesis using assms(2) by (simp add: batch_wf_def)
qed

lemma map_evidence_update: "(\<And>it. evidence (f it) = evidence it) \<Longrightarrow> map evidence (update_where P f items) = map evidence items"
  by (rule map_update_where)

lemma evidence_simps [simp]:
  "evidence (claimed_item h now c token it) = evidence it"
  "evidence (settled_item now m it) = evidence it"
  "evidence (marked_item now v it) = evidence it"
  "evidence (free_item it) = evidence it"
  by (simp_all add: evidence_def claimed_item_def settled_item_def free_item_def made_terminal_def marked_item_def
      split: option.split)

section \<open>Steps on the items\<close>

lemma claim_detail_frame:
  assumes "claimDetailItem h now c token allowListingPrefix L = Inr (r, L')"
  shows "item_frame L L'"
  using assms
  by (auto simp: claimDetailItem_def item_frame_def map_evidence_update split: if_splits list.splits)

lemma settle_detail_frame:
  assumes "settleDetailItem terminalAt c claimed m L = Inr (r, L')"
  shows "item_frame L L'"
  using assms
  by (auto simp: settleDetailItem_def Let_def item_frame_def map_evidence_update books_def split: if_splits
      dest!: update_receipt_Inr)

lemma defer_detail_frame: "item_frame L (deferDetailItem now retryAt reason message claimed L)"
  by (auto simp: deferDetailItem_def item_frame_def evidence_def free_item_def split: prod.split intro!: map_update_where)

lemma terminalize_frame:
  assumes "terminalizeAtsV2NoNetworkItems h now marker_of c requested allowListingPrefix L = Inr (r, L')"
  shows "item_frame L L'"
proof -
  have "map evidence (mark_items now chosen items) = map evidence items" for chosen items
    by (simp add: mark_items_def split: option.split)
  then show ?thesis
    using assms
    by (auto simp: terminalizeAtsV2NoNetworkItems_def Let_def item_frame_def books_def split: if_splits sum.splits
        dest!: update_receipt_Inr)
qed

section \<open>Steps on the listing\<close>

text \<open>Observations are only added; nothing but the listing, its counters and the phase changes.\<close>

definition listing_frame :: "batch_ledger \<Rightarrow> batch_ledger \<Rightarrow> bool" where
  "listing_frame L L' \<longleftrightarrow> (\<exists>new. bl_observations L' = bl_observations L @ new)
     \<and> bl_resolutions L' = bl_resolutions L \<and> bl_items L' = bl_items L \<and> bl_segments L' = bl_segments L
     \<and> b_id (bl_row L') = b_id (bl_row L)
     \<and> b_writerMode (bl_row L') = b_writerMode (bl_row L) \<and> b_segmentSize (bl_row L') = b_segmentSize (bl_row L)
     \<and> b_canonicalOccurrenceCount (bl_row L') = b_canonicalOccurrenceCount (bl_row L)
     \<and> b_compactedOccurrenceCount (bl_row L') = b_compactedOccurrenceCount (bl_row L)
     \<and> b_terminalItemCount (bl_row L') = b_terminalItemCount (bl_row L)
     \<and> b_sealedItemCount (bl_row L') = b_sealedItemCount (bl_row L)
     \<and> b_publishedItemCount (bl_row L') = b_publishedItemCount (bl_row L)"

lemma listing_frame_wf:
  assumes "listing_frame L L'" and "batch_wf h L" and "listing_wf h L'"
    and "b_acquisitionPhase (bl_row L') = ''listing''
      \<or> b_acquisitionPhase (bl_row L') = ''compaction'' \<and> missing L' = 0"
  shows "batch_wf h L'"
proof -
  note wf = batch_wfD [OF assms(2)]
  obtain new where obs: "bl_observations L' = bl_observations L @ new"
    using assms(1) by (auto simp: listing_frame_def)
  note frame = assms(1) [unfolded listing_frame_def]
  have "resolved_exact (bl_observations L') (bl_resolutions L) (bl_items L)"
    using wf(2) unfolding obs items_wf_def resolved_exact_def Let_def by fastforce
  then have "items_wf h L'" using wf(2) frame by (simp add: items_wf_def Let_def)
  moreover have "evidence_wf L'"
    using wf(3) frame unfolding evidence_wf_def obs by fastforce
  moreover have "phase_wf L'"
    using phase_wfD(1) [OF wf(4)] frame assms(4) by (intro phase_wf_early) simp_all
  moreover have "segments_wf L'" using wf(5) frame by (simp add: segments_wf_def)
  ultimately show ?thesis using assms(3) by (simp add: batch_wf_def)
qed

lemma listing_frame_refl: "listing_frame L L"
  by (simp add: listing_frame_def)

lemma commit_frame:
  assumes "commitAtsV2ListingPage h now c i L = Inr (r, L')"
  shows "listing_frame L L'"
  using assms
  by (auto simp: commitAtsV2ListingPage_def Let_def listing_frame_def split: if_splits option.splits dest!: update_receipt_Inr)

text \<open>A page is only asked for when no earlier one is pending.\<close>

lemma commit_phase:
  assumes "commitAtsV2ListingPage h now c i L = Inr (r, L')" and "listing_wf h L"
    and "pending_page (b_activeLedgerGeneration (bl_row L)) L = None"
  shows "b_acquisitionPhase (bl_row L') = ''listing''
    \<or> b_acquisitionPhase (bl_row L') = ''compaction'' \<and> missing L' = 0"
proof -
  have "missing L = 0" using assms(2,3) by (simp add: pending_page_None complete_missing)
  then show ?thesis
    using assms(1)
    by (auto simp: commitAtsV2ListingPage_def Let_def missing_def missing_in_def page_row_def
        split: if_splits option.splits dest!: update_receipt_Inr)
qed

lemma commit_batch_wf:
  assumes "commitAtsV2ListingPage h now c i L = Inr (r, L')" and "batch_wf h L" and "claim_for c L"
    and "pending_page (b_activeLedgerGeneration (bl_row L)) L = None"
  shows "batch_wf h L'"
proof -
  note wf = batch_wfD(1) [OF assms(2)]
  have "cl_platform c = b_platform (bl_row L)" using assms(3) by (simp add: claim_for_def)
  from commit_wf [OF assms(1) wf this] commit_phase [OF assms(1) wf assms(4)] show ?thesis
    by (intro listing_frame_wf [OF commit_frame [OF assms(1)] assms(2)])
qed

lemma saved_end_cases:
  assumes "completeAtsV2ListingAtSavedEnd now c L = Inr (r, L')"
  shows "L' = L \<or> listing_frame L L' \<and> b_acquisitionPhase (bl_row L') = ''compaction''
    \<and> incomplete_pages (cl_listingGeneration c) L = 0"
proof (cases "L' = L")
  case False
  obtain latest where latest: "latest_page (cl_listingGeneration c) L = Some latest" "saved_end c latest L"
    using assms False by (auto simp: completeAtsV2ListingAtSavedEnd_def Let_def split: if_splits option.splits)
  then have "\<exists>ws. L' = L\<lparr>bl_row := (bl_row L)\<lparr>b_acquisitionPhase := ''compaction'', b_listingCompletedAt := Some now,
      b_claimHeartbeatAt := Some now\<rparr>, bl_receipts := ws\<rparr>"
    using assms False unfolding completeAtsV2ListingAtSavedEnd_def Let_def
    by (simp split: if_splits) (blast dest: update_receipt_Inr)
  then have "listing_frame L L'" "b_acquisitionPhase (bl_row L') = ''compaction''"
    by (auto simp: listing_frame_def)
  with latest(2) show ?thesis by (simp add: saved_end_def)
qed simp

lemma saved_end_frame: "completeAtsV2ListingAtSavedEnd now c L = Inr (r, L') \<Longrightarrow> listing_frame L L'"
  using saved_end_cases listing_frame_refl by blast

lemma saved_end_batch_wf:
  assumes "completeAtsV2ListingAtSavedEnd now c L = Inr (r, L')" and "batch_wf h L" and "claim_for c L"
  shows "batch_wf h L'"
proof (cases "L' = L")
  case False
  note wf = batch_wfD(1) [OF assms(2)]
  note step = saved_end_cases [OF assms(1)]
  have "missing L' = 0"
    using step False complete_missing [OF wf] assms(3) saved_end_keeps(1) [OF assms(1)]
    by (simp add: claim_for_def missing_def)
  then show ?thesis
    using step False by (intro listing_frame_wf [OF _ assms(2) saved_end_wf [OF assms(1) wf]]) simp_all
qed (use assms in simp)

lemma materialize_frame:
  assumes "materializeAtsV2PageObservations h now c key listingComplete requested L = Inr (r, L')"
  shows "listing_frame L L' \<and> (L' = L \<or> b_acquisitionPhase (bl_row L') = ''listing''
    \<or> b_acquisitionPhase (bl_row L') = ''compaction'' \<and> incomplete_pages (cl_listingGeneration c) L' = 0)"
  using assms
  by (auto simp: materializeAtsV2PageObservations_def Let_def listing_frame_def incomplete_pages_def
      split: if_splits option.splits)

lemma materialize_batch_wf:
  assumes "materializeAtsV2PageObservations h now c key listingComplete requested L = Inr (r, L')"
    and "batch_wf h L" and "claim_for c L"
  shows "batch_wf h L'"
proof (cases "L' = L")
  case False
  obtain n finished where r: "r = (n, finished)" by (cases r)
  have "cl_platform c = b_platform (bl_row L)" using assms(3) by (simp add: claim_for_def)
  note wf = materialize_wf [OF assms(1) [unfolded r] batch_wfD(1) [OF assms(2)] this]
  have "cl_listingGeneration c = b_activeLedgerGeneration (bl_row L')"
    using materialize_claim [OF assms(1) [unfolded r] assms(3)] by (simp add: claim_for_def)
  then have "b_acquisitionPhase (bl_row L') = ''listing''
      \<or> b_acquisitionPhase (bl_row L') = ''compaction'' \<and> missing L' = 0"
    using materialize_frame [OF assms(1)] False complete_missing [OF wf] by auto
  then show ?thesis
    by (intro listing_frame_wf [OF _ assms(2) wf]) (use materialize_frame [OF assms(1)] in simp_all)
qed (use assms in simp)

section \<open>Resolving\<close>

lemma resolve_rows_evidence:
  assumes "resolve_rows h now receipts idx k xs = (items, resolutions)"
  shows "evidence ` set items \<subseteq> (\<lambda>ob. (o_key ob, o_rawHash ob)) ` (fst \<circ> snd) ` set xs"
  using assms
proof (induction xs arbitrary: k items resolutions)
  case (Cons x xs)
  obtain index ob overlay where x: "x = (index, ob, overlay)" by (metis surj_pair)
  have new: "evidence (new_item k ob v now) = (o_key ob, o_rawHash ob)" for v
    by (simp add: evidence_def new_item_def)
  show ?case
    using Cons.prems Cons.IH unfolding x
    by (auto simp: Let_def new split: if_splits prod.splits) blast+
qed simp

lemma resolve_chunk_evidence:
  assumes "resolve_chunk h now slug_of table c isPrefix obs L = Inr (r, L')" and "evidence_wf L"
    and "set obs \<subseteq> set (bl_observations L)"
  shows "evidence_wf L'"
  using assms(1)
proof (cases rule: resolve_chunk_cases)
  case step: (1 marker idx overlays items resolutions finished L1 ws)
  have "(fst \<circ> snd) ` set (zip [0..<length obs] (zip obs overlays)) \<subseteq> set obs"
    by clarsimp (metis set_zip_leftD set_zip_rightD)
  with resolve_rows_evidence [OF step(4)] assms(3)
  have "evidence ` set items \<subseteq> (\<lambda>ob. (o_key ob, o_rawHash ob)) ` set (bl_observations L)" by blast
  with write_resolution_sel [OF step(5)] step(6) assms(2) show ?thesis by (auto simp: evidence_wf_def)
qed

text \<open>What a resolving transaction does to the row.\<close>

lemma write_resolution_row:
  assumes "write_resolution h now isPrefix items resolutions n m L = (finished, L')"
  shows "bl_pages L' = bl_pages L" and "b_id (bl_row L') = b_id (bl_row L)"
    and "b_writerMode (bl_row L') = b_writerMode (bl_row L)" and "b_platform (bl_row L') = b_platform (bl_row L)"
    and "b_activeLedgerGeneration (bl_row L') = b_activeLedgerGeneration (bl_row L)"
    and "b_listingGeneration (bl_row L') = b_listingGeneration (bl_row L)"
    and "b_listingOffset (bl_row L') = b_listingOffset (bl_row L)"
    and "b_rawObservationCount (bl_row L') = b_rawObservationCount (bl_row L)"
    and "b_publishedItemCount (bl_row L') = b_publishedItemCount (bl_row L)"
  using assms by (auto simp: write_resolution_def Let_def)

lemma write_resolution_phase:
  assumes "write_resolution h now isPrefix items resolutions n m L = (finished, L')"
  shows "b_acquisitionPhase (bl_row L') = (if isPrefix then ''listing''
      else if b_canonicalOccurrenceCount (bl_row L') + b_compactedOccurrenceCount (bl_row L') = b_rawObservationCount (bl_row L)
      then ''enrichment'' else ''compaction'')"
  using assms by (clarsimp simp: write_resolution_def Let_def)

lemma resolve_phase:
  assumes "resolveNextAtsV2ObservationChunk h now slug_of table c requested allowListingPrefix L = Inr (r, L')"
  shows "L' = L \<or>
    (bl_pages L' = bl_pages L \<and> bl_observations L' = bl_observations L \<and> bl_segments L' = bl_segments L
     \<and> b_id (bl_row L') = b_id (bl_row L)
     \<and> b_writerMode (bl_row L') = b_writerMode (bl_row L) \<and> b_platform (bl_row L') = b_platform (bl_row L)
     \<and> b_activeLedgerGeneration (bl_row L') = b_activeLedgerGeneration (bl_row L)
     \<and> b_listingGeneration (bl_row L') = b_listingGeneration (bl_row L)
     \<and> b_listingOffset (bl_row L') = b_listingOffset (bl_row L)
     \<and> b_rawObservationCount (bl_row L') = b_rawObservationCount (bl_row L)
     \<and> b_publishedItemCount (bl_row L') = b_publishedItemCount (bl_row L)
     \<and> (b_acquisitionPhase (bl_row L) \<in> {''listing'', ''compaction''})
     \<and> (b_acquisitionPhase (bl_row L') = b_acquisitionPhase (bl_row L)
        \<or> b_acquisitionPhase (bl_row L) = ''compaction'' \<and> b_acquisitionPhase (bl_row L') = ''enrichment''
          \<and> b_canonicalOccurrenceCount (bl_row L') + b_compactedOccurrenceCount (bl_row L') = b_rawObservationCount (bl_row L')))"
proof -
  let ?b = "bl_row L"
  let ?obs = "take (chunk_size (ATS_LEDGER_OBSERVATION_CHUNK_SIZE h) requested) (unresolved L)"
  let ?prefix = "allowListingPrefix \<and> b_acquisitionPhase ?b = ''listing''"
  consider (same) "L' = L"
    | (closed) "b_acquisitionPhase ?b = ''compaction''"
        "b_canonicalOccurrenceCount ?b + b_compactedOccurrenceCount ?b = b_rawObservationCount ?b"
        "\<exists>m. L' = L\<lparr>bl_row := ?b\<lparr>b_acquisitionPhase := ''enrichment'', b_manifestHash := m, b_claimHeartbeatAt := Some now\<rparr>\<rparr>"
    | (chunk) "b_acquisitionPhase ?b = ''compaction'' \<or> ?prefix" "resolve_chunk h now slug_of table c ?prefix ?obs L = Inr (r, L')"
    using assms unfolding resolveNextAtsV2ObservationChunk_def Let_def by (auto split: if_splits)
  then show ?thesis
  proof cases
    case chunk
    from chunk(2) show ?thesis
    proof (cases rule: resolve_chunk_cases)
      case step: (1 marker idx overlays items resolutions finished L1 ws)
      have start: "b_acquisitionPhase ?b \<in> {''listing'', ''compaction''}" using chunk(1) by blast
      have "b_acquisitionPhase (bl_row L1) = b_acquisitionPhase ?b
        \<or> b_acquisitionPhase ?b = ''compaction'' \<and> b_acquisitionPhase (bl_row L1) = ''enrichment''
          \<and> b_canonicalOccurrenceCount (bl_row L1) + b_compactedOccurrenceCount (bl_row L1) = b_rawObservationCount (bl_row L1)"
        using chunk(1) write_resolution_row(8) [OF step(5)] write_resolution_phase [OF step(5)] by presburger
      then show ?thesis
        unfolding step(6) using write_resolution_row [OF step(5)] write_resolution_sel(3,4) [OF step(5)] start by simp
    qed
  qed auto
qed

lemma evidence_wf_row [simp]: "evidence_wf (L\<lparr>bl_row := b\<rparr>) = evidence_wf L"
  by (simp add: evidence_wf_def)

lemma resolve_evidence:
  assumes "resolveNextAtsV2ObservationChunk h now slug_of table c requested allowListingPrefix L = Inr (r, L')"
    and "evidence_wf L"
  shows "evidence_wf L'"
proof -
  let ?obs = "take (chunk_size (ATS_LEDGER_OBSERVATION_CHUNK_SIZE h) requested) (unresolved L)"
  have "set ?obs \<subseteq> set (bl_observations L)"
    by (auto simp: unresolved_def dest!: in_set_takeD)
  then have "evidence_wf L'" if "resolve_chunk h now slug_of table c isPrefix ?obs L = Inr (r, L')" for isPrefix
    using that assms(2) by (intro resolve_chunk_evidence [OF that])
  then show ?thesis
    using assms
    by (auto simp: resolveNextAtsV2ObservationChunk_def Let_def split: if_splits)
qed

lemma resolve_batch_wf:
  assumes "resolveNextAtsV2ObservationChunk h now slug_of table c requested allowListingPrefix L = Inr (r, L')"
    and "batch_wf h L"
  shows "batch_wf h L'"
proof (cases "L' = L")
  case False
  note wf = batch_wfD [OF assms(2)]
  note moved = iffD1 [OF disj_imp resolve_phase [OF assms(1)], THEN mp, OF False]
  have frame: "bl_pages L' = bl_pages L" "bl_observations L' = bl_observations L" "bl_segments L' = bl_segments L"
    "b_writerMode (bl_row L') = b_writerMode (bl_row L)" "b_platform (bl_row L') = b_platform (bl_row L)"
    "b_activeLedgerGeneration (bl_row L') = b_activeLedgerGeneration (bl_row L)"
    "b_listingGeneration (bl_row L') = b_listingGeneration (bl_row L)"
    "b_listingOffset (bl_row L') = b_listingOffset (bl_row L)"
    "b_rawObservationCount (bl_row L') = b_rawObservationCount (bl_row L)"
    "b_publishedItemCount (bl_row L') = b_publishedItemCount (bl_row L)"
    and start: "b_acquisitionPhase (bl_row L) \<in> {''listing'', ''compaction''}"
    and phase: "b_acquisitionPhase (bl_row L') = b_acquisitionPhase (bl_row L)
      \<or> b_acquisitionPhase (bl_row L) = ''compaction'' \<and> b_acquisitionPhase (bl_row L') = ''enrichment''
        \<and> b_canonicalOccurrenceCount (bl_row L') + b_compactedOccurrenceCount (bl_row L') = b_rawObservationCount (bl_row L')"
    using moved by - ((elim conjE, assumption)+)
  have "listing_wf h L'" by (rule listing_wf_frame [OF wf(1)]) (use frame in simp_all)
  moreover have "items_wf h L'" by (rule resolve_wf [OF assms(1) wf(2,1)])
  moreover have "evidence_wf L'" by (rule resolve_evidence [OF assms(1) wf(3)])
  moreover have "segments_wf L'" using wf(5) frame by (simp add: segments_wf_def)
  moreover have "phase_wf L'"
  proof -
    have gone: "missing L' = missing L" using frame(1) by (simp add: missing_def)
    note mode = phase_wfD(1) [OF wf(4)]
    show ?thesis
      using phase
    proof
      assume same: "b_acquisitionPhase (bl_row L') = b_acquisitionPhase (bl_row L)"
      have "b_acquisitionPhase (bl_row L) = ''listing'' \<or> b_acquisitionPhase (bl_row L) = ''compaction'' \<and> missing L = 0"
        using start phase_wfD(2) [OF wf(4)] by auto
      then show ?thesis using mode frame(4) gone same by (intro phase_wf_early) simp_all
    next
      assume moved: "b_acquisitionPhase (bl_row L) = ''compaction'' \<and> b_acquisitionPhase (bl_row L') = ''enrichment''
        \<and> b_canonicalOccurrenceCount (bl_row L') + b_compactedOccurrenceCount (bl_row L') = b_rawObservationCount (bl_row L')"
      then have "missing L = 0" using phase_wfD(2) [OF wf(4)] by simp
      with moved show ?thesis using mode frame(4) gone by (intro phase_wf_enrichment) simp_all
    qed
  qed
  ultimately show ?thesis by (simp add: batch_wf_def)
qed (use assms in simp)

section \<open>Sealing\<close>

text \<open>The dispatcher seals in the phases that follow the compaction, or full segments of a listing.\<close>

definition sealing_time :: "batch_row \<Rightarrow> bool" where
  "sealing_time b \<longleftrightarrow> b_acquisitionPhase b \<in> {''listing'', ''enrichment'', ''sealing''}"

lemma segment_row_ok: "0 < s_itemCount (segment_row h now width n items k) \<Longrightarrow>
    segment_ok (segment_row h now width n items k) \<and> \<not> published (segment_row h now width n items k)"
  by (simp add: segment_row_def segment_ok_def segment_fresh_def segment_seen_def published_def Let_def)

lemma new_segments_ok:
  assumes "segments_exact h width items (ss @ new_segments h now L)" and "s \<in> set (new_segments h now L)"
  shows "segment_ok s" and "\<not> published s"
proof -
  have "0 < s_itemCount s" using assms by (auto simp: segments_exact_def segment_exact_def)
  with assms(2) show "segment_ok s" "\<not> published s"
    by (auto simp: new_segments_def Let_def dest: segment_row_ok)
qed

lemma sealed_row_phase:
  "b_acquisitionPhase (sealed_row now n b) = (if b_acquisitionPhase b = ''listing'' then ''listing''
     else if completes_batch n b then ''synchronized'' else if all_items_terminal b then ''sealing'' else ''enrichment'')"
  by (simp add: sealed_row_def Let_def)

lemma sealed_row_books [simp]:
  "b_writerMode (sealed_row now n b) = b_writerMode b" "b_id (sealed_row now n b) = b_id b"
  by (simp_all add: sealed_row_def Let_def)

lemma seal_batch_wf:
  assumes "sealReadyAtsV2Segments h now c allowListingPrefix L = Inr (r, L')" and "batch_wf h L"
    and "sealing_time (bl_row L)"
  shows "batch_wf h L'"
proof (cases "L' = L")
  case False
  note wf = batch_wfD [OF assms(2)]
  have frame: "\<forall>s \<in> set (new_segments h now L). range_complete (bl_items L) s"
    "bl_segments L' = bl_segments L @ new_segments h now L" "bl_items L' = bl_items L"
    "bl_observations L' = bl_observations L" "bl_pages L' = bl_pages L"
    "bl_row L' = sealed_row now (sum_list (map s_itemCount (new_segments h now L))) (bl_row L)"
    using seal_cases [OF assms(1)] False by simp_all
  note new = new_segments_ok [OF new_segments_exact [OF wf(2) frame(1)]]
  have "listing_wf h L'" by (rule listing_wf_frame [OF wf(1)]) (use frame in simp_all)
  moreover have "items_wf h L'" by (rule seal_wf [OF assms(1) wf(2)])
  moreover have "evidence_wf L'" using wf(3) frame(3,4) by (simp add: evidence_wf_def)
  moreover have "segments_wf L'"
  proof -
    have "filter published (new_segments h now L) = []" using new(2) by (simp add: filter_empty_conv)
    with wf(5) new(1) show ?thesis unfolding segments_wf_def frame(2,6) by auto
  qed
  moreover have "phase_wf L'"
  proof (cases "b_acquisitionPhase (bl_row L) = ''listing''")
    case True
    then show ?thesis
      using wf(4) by (simp add: phase_wf_def frame(5,6) missing_def sealed_row_phase resolved_phase_def Let_def)
  next
    case False
    then have "resolved_phase (b_acquisitionPhase (bl_row L))"
      using assms(3) by (auto simp: sealing_time_def resolved_phase_def)
    note kept = phase_wfD(1,2) [OF wf(4)] phase_wfD(3) [OF wf(4) this]
    show ?thesis
      using kept False
      by (simp add: phase_wf_def frame(5,6) missing_def sealed_row_phase resolved_phase_def completes_batch_def
          all_items_terminal_def Let_def)
  qed
  ultimately show ?thesis by (simp add: batch_wf_def)
qed (use assms in simp)


section \<open>Steps on the row\<close>

text \<open>Granting, renewing, giving back and expiring a claim, the bookkeeping of requests and the end of a batch
  leave everything the invariant reads.\<close>

definition row_frame :: "batch_ledger \<Rightarrow> batch_ledger \<Rightarrow> bool" where
  "row_frame L L' \<longleftrightarrow> bl_pages L' = bl_pages L \<and> bl_observations L' = bl_observations L
     \<and> bl_resolutions L' = bl_resolutions L \<and> bl_items L' = bl_items L \<and> bl_segments L' = bl_segments L
     \<and> books (bl_row L') = books (bl_row L) \<and> b_acquisitionPhase (bl_row L') = b_acquisitionPhase (bl_row L)
     \<and> b_terminalItemCount (bl_row L') = b_terminalItemCount (bl_row L)"

lemma row_frame_wf:
  assumes "row_frame L L'" and "batch_wf h L"
  shows "batch_wf h L'"
proof (rule item_frame_wf)
  show "item_frame L L'" using assms(1) by (simp add: row_frame_def item_frame_def)
  show "items_wf h L'"
    using assms(1) books_sel [of "bl_row L'" "bl_row L"] batch_wfD(2) [OF assms(2)]
    by (simp add: row_frame_def items_wf_def Let_def)
qed (rule assms(2))

lemma row_books [simp]:
  "books (granted h now owner token b) = books b" "books (renewed h now c b) = books b"
  "books (released now later failure c b) = books b" "books (reclaimed_row now b) = books b"
  "books (finalized_row now broken b) = books b"
  by (simp_all add: books_def granted_def renewed_def released_def reclaimed_row_def finalized_row_def)

lemma row_phase [simp]:
  "b_acquisitionPhase (granted h now owner token b) = b_acquisitionPhase b"
  "b_acquisitionPhase (renewed h now c b) = b_acquisitionPhase b"
  "b_acquisitionPhase (released now later failure c b) = b_acquisitionPhase b"
  "b_acquisitionPhase (reclaimed_row now b) = b_acquisitionPhase b"
  "b_acquisitionPhase (finalized_row now broken b) = b_acquisitionPhase b"
  "b_terminalItemCount (granted h now owner token b) = b_terminalItemCount b"
  "b_terminalItemCount (renewed h now c b) = b_terminalItemCount b"
  "b_terminalItemCount (released now later failure c b) = b_terminalItemCount b"
  "b_terminalItemCount (reclaimed_row now b) = b_terminalItemCount b"
  "b_terminalItemCount (finalized_row now broken b) = b_terminalItemCount b"
  by (simp_all add: granted_def renewed_def released_def reclaimed_row_def finalized_row_def)

lemma claim_frame: "row_frame L (snd (claimAtsContinuationCandidate h now owner token receiptId phase L))"
  by (simp add: claimAtsContinuationCandidate_def row_frame_def Let_def)

lemma heartbeat_frame: "row_frame L (snd (heartbeatAtsV2Claim h now c L))"
  by (simp add: heartbeatAtsV2Claim_def row_frame_def)

lemma intent_frame:
  assumes "recordAtsV2ListingDispatchIntent now c L = Inr (r, L')"
  shows "row_frame L L'"
  using assms
  by (auto simp: recordAtsV2ListingDispatchIntent_def Let_def row_frame_def split: if_splits dest!: update_receipt_Inr)

lemma contact_frame:
  assumes "confirmAtsV2ListingContact h now responded kind c L = Inr (r, L')"
  shows "row_frame L L'"
  using assms
  by (auto simp: confirmAtsV2ListingContact_def Let_def row_frame_def split: if_splits)

lemma responded_frame: "row_frame L (markAtsV2BoardResponded now L)"
  by (simp add: markAtsV2BoardResponded_def row_frame_def)

lemma finalize_frame: "row_frame L (snd (finalizeAtsV2BatchIfReady now L))"
  by (simp add: finalizeAtsV2BatchIfReady_def Let_def row_frame_def)

lemma finish_frame: "row_frame L (snd (finishAtsV2Claim now c reason failure scope later L))"
  by (simp add: finishAtsV2Claim_def finalizeAtsV2BatchIfReady_def Let_def row_frame_def)

section \<open>Steps on the segments\<close>

text \<open>What never changes in a segment once it is sealed.\<close>

definition manifest_of :: "segment \<Rightarrow> (nat \<times> nat \<times> int \<times> nat \<times> nat \<times> string \<times> ms)" where
  "manifest_of s = (s_ordinal s, s_firstOrdinal s, s_lastOrdinal s, s_itemCount s, s_segmentSize s, s_manifestHash s, s_sealedAt s)"

definition segment_step :: "segment \<Rightarrow> segment \<Rightarrow> bool" where
  "segment_step s s' \<longleftrightarrow> manifest_of s' = manifest_of s \<and> s_publishedAt s' = s_publishedAt s \<and> segment_ok s'"

lemma manifest_sel:
  assumes "manifest_of s' = manifest_of s"
  shows "s_ordinal s' = s_ordinal s" and "s_firstOrdinal s' = s_firstOrdinal s" and "s_lastOrdinal s' = s_lastOrdinal s"
    and "s_itemCount s' = s_itemCount s" and "s_segmentSize s' = s_segmentSize s" and "s_manifestHash s' = s_manifestHash s"
    and "s_sealedAt s' = s_sealedAt s"
  using assms by (simp_all add: manifest_of_def)

text \<open>The manifests alone decide what the items require of the segments.\<close>

lemma segments_exact_manifests:
  assumes "map manifest_of ss' = map manifest_of ss" and "segments_exact h width items ss"
  shows "segments_exact h width items ss'" and "map s_itemCount ss' = map s_itemCount ss"
    and "map s_ordinal ss' = map s_ordinal ss"
proof -
  have pick: "map (g \<circ> manifest_of) ss' = map (g \<circ> manifest_of) ss" for g :: "_ \<Rightarrow> 'a"
    using assms(1) by (metis map_map)
  have parts: "s_ordinal = (\<lambda>m. fst m) \<circ> manifest_of" "s_itemCount = (\<lambda>m. fst (snd (snd (snd m)))) \<circ> manifest_of"
    by (simp_all add: fun_eq_iff manifest_of_def)
  show ord: "map s_ordinal ss' = map s_ordinal ss" and "map s_itemCount ss' = map s_itemCount ss"
    unfolding parts by (rule pick)+
  have "segment_exact h width items s'" if "s' \<in> set ss'" for s'
  proof -
    have "manifest_of s' \<in> manifest_of ` set ss" using that assms(1) by (metis image_eqI list.set_map)
    then obtain s where s: "s \<in> set ss" "manifest_of s' = manifest_of s" by blast
    with assms(2) have "segment_exact h width items s" by (simp add: segments_exact_def)
    then show ?thesis unfolding segment_exact_def manifest_sel [OF s(2)] .
  qed
  with assms(2) ord show "segments_exact h width items ss'" by (simp add: segments_exact_def)
qed

definition segment_frame :: "batch_ledger \<Rightarrow> batch_ledger \<Rightarrow> bool" where
  "segment_frame L L' \<longleftrightarrow> bl_pages L' = bl_pages L \<and> bl_observations L' = bl_observations L
     \<and> bl_resolutions L' = bl_resolutions L \<and> bl_items L' = bl_items L \<and> bl_row L' = bl_row L
     \<and> list_all2 segment_step (bl_segments L) (bl_segments L')"

lemma segment_steps_sel:
  assumes "list_all2 segment_step ss ss'"
  shows "map manifest_of ss' = map manifest_of ss"
    and "map s_itemCount (filter published ss') = map s_itemCount (filter published ss)"
    and "\<forall>s \<in> set ss'. segment_ok s"
proof -
  from assms have "map manifest_of ss' = map manifest_of ss
    \<and> map s_itemCount (filter published ss') = map s_itemCount (filter published ss) \<and> (\<forall>s \<in> set ss'. segment_ok s)"
    by (induction rule: list_all2_induct) (auto simp: segment_step_def published_def dest: manifest_sel)
  then show "map manifest_of ss' = map manifest_of ss"
    "map s_itemCount (filter published ss') = map s_itemCount (filter published ss)" "\<forall>s \<in> set ss'. segment_ok s"
    by auto
qed

lemma segment_frame_wf:
  assumes "segment_frame L L'" and "batch_wf h L"
  shows "batch_wf h L'"
proof -
  note wf = batch_wfD [OF assms(2)]
  have frame: "bl_pages L' = bl_pages L" "bl_observations L' = bl_observations L" "bl_resolutions L' = bl_resolutions L"
    "bl_items L' = bl_items L" "bl_row L' = bl_row L" and steps: "list_all2 segment_step (bl_segments L) (bl_segments L')"
    using assms(1) by (simp_all add: segment_frame_def)
  note sel = segment_steps_sel [OF steps]
  have "segments_exact h (b_segmentSize (bl_row L)) (bl_items L) (bl_segments L)"
    using wf(2) by (simp add: items_wf_def Let_def)
  note exact = segments_exact_manifests [OF sel(1) this]
  have "listing_wf h L'" by (rule listing_wf_frame [OF wf(1)]) (use frame in simp_all)
  moreover have "items_wf h L'" using wf(2) frame exact(1,2) by (simp add: items_wf_def Let_def)
  moreover have "evidence_wf L'" using wf(3) frame by (simp add: evidence_wf_def)
  moreover have "phase_wf L'" using wf(4) frame by (simp add: phase_wf_def missing_def)
  moreover have "segments_wf L'" using wf(5) sel(2,3) frame by (simp add: segments_wf_def)
  ultimately show ?thesis by (simp add: batch_wf_def)
qed

lemma segment_frame_update:
  assumes "segments_wf L" and "\<And>s. s \<in> set (bl_segments L) \<Longrightarrow> P s \<Longrightarrow> segment_ok s \<Longrightarrow> segment_step s (f s)"
  shows "segment_frame L (L\<lparr>bl_segments := update_where P f (bl_segments L)\<rparr>)"
proof -
  have "list_all2 segment_step ss (update_where P f ss)"
    if "\<And>s. s \<in> set ss \<Longrightarrow> segment_ok s \<and> (P s \<longrightarrow> segment_step s (f s))" for ss
    using that by (induction ss) (auto simp: segment_step_def)
  with assms show ?thesis by (simp add: segment_frame_def segments_wf_def)
qed

text \<open>A segment that is not processed yet still has postings before it.\<close>

lemma unfinished:
  assumes "segment_ok s" and "s_status s \<noteq> ''processed''"
  shows "s_processingOffset s < s_itemCount s"
  using assms by (auto simp: segment_ok_def)

lemma back_to_published:
  assumes "segment_ok s" and "s_status s = ''processing''"
  shows "segment_step s ((unleased now s)\<lparr>s_status := ''published'', s_holdReason := reason, s_retryCode := code,
      s_retryScope := scope, s_nextProcessAt := later\<rparr>)"
    and "segment_step s ((unleased now s)\<lparr>s_status := ''published'', s_nextProcessAt := later\<rparr>)"
  using assms unfinished [OF assms(1)]
  by (auto simp: segment_step_def segment_ok_def unleased_def manifest_of_def segment_seen_def)

lemma leased_step:
  assumes "segment_ok s" and "eligible_segment now s"
  shows "segment_step s (leased_segment h now owner token s)"
  using assms unfinished [OF assms(1)]
  by (auto simp: segment_step_def segment_ok_def leased_segment_def eligible_segment_def manifest_of_def segment_seen_def)


text \<open>The report of a turn: what it adds to the counters is what it adds to the cursor.\<close>

lemma advanced_step:
  assumes "segment_ok s" and "s_status s = ''processing''"
    and "s_processingOffset s + countersSeen (tr_counters t) \<le> s_itemCount s"
  shows "segment_step s (advanced_segment now t s)"
proof -
  have "s_publishedAt s \<noteq> None" using assms(1,2) by (simp add: segment_ok_def)
  with assms show ?thesis
    by (simp add: segment_step_def segment_ok_def advanced_segment_def unleased_def manifest_of_def segment_seen_def
        countersSeen_def Let_def)
qed

lemma retried_step: "segment_ok s \<Longrightarrow> s_status s = ''processing'' \<Longrightarrow> segment_step s (retried_segment now t s)"
  unfolding retried_segment_def by (rule back_to_published(1))

lemma failed_step: "segment_ok s \<Longrightarrow> s_status s = ''processing'' \<Longrightarrow> segment_step s (failed_segment now message reason s)"
  unfolding failed_segment_def by (cases reason) (auto simp: back_to_published(1) split: prod.split)

lemma reclaimed_step: "segment_ok s \<Longrightarrow> s_status s = ''processing'' \<Longrightarrow> segment_step s (reclaimed_segment now s)"
  unfolding reclaimed_segment_def by (rule back_to_published(2))

lemma segment_named:
  assumes "items_wf h L" and "s \<in> set (bl_segments L)" and "x \<in> set (bl_segments L)" and "s_ordinal x = s_ordinal s"
  shows "x = s"
proof -
  have "distinct (map s_ordinal (bl_segments L))"
    using assms(1) by (simp add: items_wf_def segments_exact_def Let_def)
  with assms(2-4) show ?thesis by (metis distinct_map inj_on_def)
qed

lemma lease_frame: "segments_wf L \<Longrightarrow> segment_frame L (lease_in_batch h now owner token ordinal L)"
  unfolding lease_in_batch_def by (rule segment_frame_update) (auto simp: leased_step)

lemma fail_frame: "segments_wf L \<Longrightarrow> segment_frame L (snd (failAtsV2SegmentProcessing now ordinal token message reason L))"
  unfolding failAtsV2SegmentProcessing_def snd_conv by (rule segment_frame_update) (auto simp: failed_step held_by_def)

lemma segment_heartbeat_frame: "segments_wf L \<Longrightarrow> segment_frame L (snd (heartbeatAtsV2Segment h now ordinal token L))"
  unfolding heartbeatAtsV2Segment_def Let_def snd_conv
  by (rule segment_frame_update)
     (auto simp: segment_step_def segment_ok_def segment_seen_def manifest_of_def segment_fresh_def held_by_def)

lemmas segment_ops_wf =
  segment_frame_wf [OF lease_frame [OF batch_wfD(5)]]
  segment_frame_wf [OF fail_frame [OF batch_wfD(5)]]
  segment_frame_wf [OF segment_heartbeat_frame [OF batch_wfD(5)]]

lemma complete_cases:
  assumes "completeAtsV2SegmentProcessing now ordinal token t L = Inr (r, L')"
  obtains (lost) "r = False" and "L' = L"
  | (live) s same where "s \<in> set (bl_segments L)" and "held_by ordinal token s" and "later_than now (s_leaseExpiresAt s)"
      and "same = (\<lambda>x. held_by ordinal token x \<and> s_processingOffset x = s_processingOffset s)"
      and "s_processingOffset s + countersSeen (tr_counters t) \<le> s_itemCount s \<or> s_itemCount s < s_processingOffset s"
      and "\<not> truthy (tr_fatalError t)"
      and "tr_interrupted t \<or> s_processingOffset s + countersSeen (tr_counters t) = s_itemCount s"
      and "(0 < tc_processingErrors (tr_counters t) \<and> s_leaseFence s < 3
            \<and> L' = L\<lparr>bl_segments := update_where same (retried_segment now t) (bl_segments L)\<rparr>)
        \<or> (\<not> (0 < tc_processingErrors (tr_counters t) \<and> s_leaseFence s < 3)
          \<and> (let L1 = L\<lparr>bl_segments := update_where same (advanced_segment now t) (bl_segments L)\<rparr> in
             L' = L1 \<or> r \<and> s_processingOffset s + countersSeen (tr_counters t) = s_itemCount s
               \<and> L' = snd (finalizeAtsV2BatchIfReady now L1)))"
proof (cases "find (\<lambda>s. held_by ordinal token s \<and> later_than now (s_leaseExpiresAt s)) (bl_segments L)")
  case None
  with assms have "r = False" "L' = L" by (simp_all add: completeAtsV2SegmentProcessing_def)
  then show thesis by (rule lost)
next
  case (Some s)
  from find_SomeD [OF this] have s: "s \<in> set (bl_segments L)" "held_by ordinal token s" "later_than now (s_leaseExpiresAt s)"
    by auto
  show thesis
    by (rule live [OF s refl], insert assms Some)
       (auto simp: completeAtsV2SegmentProcessing_def Let_def split: if_splits)
qed

text \<open>A report either changes one segment, or does so and closes the batch.\<close>

lemma report_frames:
  assumes "batch_wf h L" and "s \<in> set (bl_segments L)" and "held_by ordinal token s"
    and "same = (\<lambda>x. held_by ordinal token x \<and> s_processingOffset x = s_processingOffset s)"
    and "s_processingOffset s + countersSeen (tr_counters t) \<le> s_itemCount s \<or> s_itemCount s < s_processingOffset s"
  shows "segment_frame L (L\<lparr>bl_segments := update_where same (retried_segment now t) (bl_segments L)\<rparr>)"
    and "segment_frame L (L\<lparr>bl_segments := update_where same (advanced_segment now t) (bl_segments L)\<rparr>)"
proof -
  note wf = batch_wfD(2,5) [OF assms(1)]
  have ok: "segment_ok s" using wf(2) assms(2) by (simp add: segments_wf_def)
  have named: "x = s" if "x \<in> set (bl_segments L)" "same x" for x
    using segment_named [OF wf(1) assms(2) that(1)] that(2) assms(3) by (simp add: assms(4) held_by_def)
  have status: "s_status s = ''processing''" using assms(3) by (simp add: held_by_def)
  have room: "s_processingOffset s + countersSeen (tr_counters t) \<le> s_itemCount s"
    using assms(5) ok by (auto simp: segment_ok_def)
  have "segment_step x (retried_segment now t x)" "segment_step x (advanced_segment now t x)"
    if "x \<in> set (bl_segments L)" "same x" for x
    using named [OF that] retried_step [OF ok status] advanced_step [OF ok status room] by simp_all
  then show "segment_frame L (L\<lparr>bl_segments := update_where same (retried_segment now t) (bl_segments L)\<rparr>)"
    "segment_frame L (L\<lparr>bl_segments := update_where same (advanced_segment now t) (bl_segments L)\<rparr>)"
    by (auto intro: segment_frame_update [OF wf(2)])
qed

lemma complete_frame:
  assumes "completeAtsV2SegmentProcessing now ordinal token t L = Inr (r, L')" and "batch_wf h L"
  shows "\<exists>L1. segment_frame L L1 \<and> (L' = L1 \<or> row_frame L1 L')"
  using assms(1)
proof (cases rule: complete_cases)
  case lost
  have "segment_frame L (L\<lparr>bl_segments := update_where (\<lambda>s. False) id (bl_segments L)\<rparr>)"
    using batch_wfD(5) [OF assms(2)] by (rule segment_frame_update) simp
  with lost show ?thesis by (auto simp: update_where_def)
next
  case (live s same)
  note frames = report_frames [OF assms(2) live(1,2,4,5)]
  then show ?thesis using live(8) finalize_frame unfolding Let_def by blast
qed

lemma complete_batch_wf:
  assumes "completeAtsV2SegmentProcessing now ordinal token t L = Inr (r, L')" and "batch_wf h L"
  shows "batch_wf h L'"
  using complete_frame [OF assms] segment_frame_wf row_frame_wf assms(2) by blast

text \<open>The reconciliation of expired work.\<close>

lemma expired_items_step:
  assumes "items_wf h L"
  shows "list_all2 item_step (bl_items L)
    (update_where (expired_item now) (\<lambda>it. free_item it\<lparr>i_nextDetailAt := Some now\<rparr>) (bl_items L))"
  using items_wf_sel(1) [OF assms]
  by (intro steps_update_where) (auto simp: item_step_def free_item_def expired_item_def item_ok_def is_terminal_def)

lemma expired_items_wf:
  assumes "batch_wf h L"
  shows "batch_wf h (L\<lparr>bl_items := update_where (expired_item now) (\<lambda>it. free_item it\<lparr>i_nextDetailAt := Some now\<rparr>) (bl_items L)\<rparr>)"
    (is "batch_wf h ?L")
proof (rule item_frame_wf)
  note wf = items_wf_sel [OF batch_wfD(2) [OF assms]]
  let ?f = "\<lambda>it. free_item it\<lparr>i_nextDetailAt := Some now\<rparr>"
  show "item_frame L ?L"
    by (simp add: item_frame_def) (rule map_update_where, simp add: evidence_def free_item_def)
  have pending: "\<not> is_terminal it" "\<not> is_terminal (?f it)" if "expired_item now it" for it
    using that by (simp_all add: expired_item_def is_terminal_def free_item_def)
  have "count_where is_terminal (update_where (expired_item now) ?f (bl_items L)) = count_where is_terminal (bl_items L)"
    using pending by (subst terminal_update_where [where v = False]) auto
  then show "items_wf h ?L"
    using expired_items_step [OF batch_wfD(2) [OF assms]] wf(3)
    by (intro items_step_wf [OF batch_wfD(2) [OF assms]]) simp_all
qed (rule assms)

lemma expired_segments_wf:
  assumes "batch_wf h L"
  shows "batch_wf h (L\<lparr>bl_segments := update_where (expired_segment now) (reclaimed_segment now) (bl_segments L)\<rparr>)"
  using batch_wfD(5) [OF assms]
  by (intro segment_frame_wf [OF segment_frame_update assms]) (auto simp: reclaimed_step expired_segment_def)

lemma released_work_wf:
  assumes "batch_wf h L"
  shows "batch_wf h (released_work now L)"
proof -
  let ?A = "\<lambda>M. M\<lparr>bl_receipts := update_where (\<lambda>w. w_finishedAt w = None \<and> due_by now (w_leaseExpiresAt w)) (expired_receipt now) (bl_receipts M),
    bl_row := reclaimed_row now (bl_row M)\<rparr>"
  let ?B = "\<lambda>M. M\<lparr>bl_items := update_where (expired_item now) (\<lambda>it. free_item it\<lparr>i_nextDetailAt := Some now\<rparr>) (bl_items M)\<rparr>"
  let ?C = "\<lambda>M. M\<lparr>bl_segments := update_where (expired_segment now) (reclaimed_segment now) (bl_segments M)\<rparr>"
  have "row_frame L (?A L)" by (simp add: row_frame_def)
  then have "batch_wf h (?C (?B (?A L)))"
    by (intro expired_segments_wf expired_items_wf) (rule row_frame_wf [OF _ assms])
  then show ?thesis by (simp add: released_work_def)
qed

lemma reconcile_batch_wf: "batch_wf h L \<Longrightarrow> batch_wf h (snd (reconcile_batch now L))"
  by (simp add: reconcile_batch_def released_work_wf row_frame_wf [OF finalize_frame released_work_wf])

end
