(* ===== verification/Ledger_Run.thy ===== *)
theory Ledger_Run
  imports Ledger_Invariant
begin

text \<open>
  The ledger as a system of transactions: the steps any worker can make on a batch, the steps on all
  batches, and the ledgers that can be reached from the empty one. Every worker follows the dispatcher:
  a claim is used on the batch it was taken on, a new page is only asked for when no earlier one
  is pending (\<open>runAtsV2ListingQuantum\<close>), and segments are sealed in the phases after the compaction, or
  as a prefix of a listing (\<open>runAtsV2ContinuationQuantum\<close>, \<open>drainAtsV2ListingPrefix\<close>). Beyond
  that, the steps come in any order, at any time and from any worker.
\<close>

section \<open>Steps\<close>

inductive batch_step :: "host \<Rightarrow> batch_ledger \<Rightarrow> batch_ledger \<Rightarrow> bool" for h where
  Claim: "batch_step h L (snd (claimAtsContinuationCandidate h now owner token receiptId phase L))"
| Heartbeat: "batch_step h L (snd (heartbeatAtsV2Claim h now c L))"
| Intent: "recordAtsV2ListingDispatchIntent now c L = Inr (r, L') \<Longrightarrow> batch_step h L L'"
| Contact: "confirmAtsV2ListingContact h now responded kind c L = Inr (r, L') \<Longrightarrow> batch_step h L L'"
| Responded: "batch_step h L (markAtsV2BoardResponded now L)"
| Commit: "claim_for c L \<Longrightarrow> pending_page (b_activeLedgerGeneration (bl_row L)) L = None
    \<Longrightarrow> commitAtsV2ListingPage h now c i L = Inr (commit, L') \<Longrightarrow> batch_step h L L'"
| Saved_end: "claim_for c L \<Longrightarrow> completeAtsV2ListingAtSavedEnd now c L = Inr (ended, L') \<Longrightarrow> batch_step h L L'"
| Materialize: "claim_for c L \<Longrightarrow> materializeAtsV2PageObservations h now c key listingComplete requested L = Inr (m, L')
    \<Longrightarrow> batch_step h L L'"
| Resolve: "resolveNextAtsV2ObservationChunk h now slug_of table c requested allowListingPrefix L = Inr (resolved, L')
    \<Longrightarrow> batch_step h L L'"
| Terminalize: "terminalizeAtsV2NoNetworkItems h now marker_of c requested allowListingPrefix L = Inr (t, L')
    \<Longrightarrow> batch_step h L L'"
| Claim_detail: "claimDetailItem h now c token allowListingPrefix L = Inr (candidate, L') \<Longrightarrow> batch_step h L L'"
| Settle_detail: "settleDetailItem now c claimed marker L = Inr (u, L') \<Longrightarrow> batch_step h L L'"
| Defer_detail: "batch_step h L (deferDetailItem now retryAt reason message claimed L)"
| Seal: "sealing_time (bl_row L) \<Longrightarrow> sealReadyAtsV2Segments h now c allowListingPrefix L = Inr (s, L')
    \<Longrightarrow> batch_step h L L'"
| Segment_heartbeat: "batch_step h L (snd (heartbeatAtsV2Segment h now ordinal token L))"
| Complete: "completeAtsV2SegmentProcessing now ordinal token report L = Inr (b, L') \<Longrightarrow> batch_step h L L'"
| Fail: "batch_step h L (snd (failAtsV2SegmentProcessing now ordinal token message reason L))"
| Finish: "batch_step h L (snd (finishAtsV2Claim now c reason failure scope later L))"

definition batch_id :: "batch_ledger \<Rightarrow> string" where
  "batch_id L = b_id (bl_row L)"

text \<open>When the retention worker may dispose of the raw evidence of a batch (\<open>dispose_ats_crawls.ts\<close>, whose
  query asks for a completed crawl of a day ago): it is processed without a reset, nobody holds it, all of
  its segments are processed to their end, and a later crawl of the board, further down the ledger, was
  processed too. The worker also verifies the archive of the batch and its error counters, which are not
  columns here, so the step below may happen more often than it does.\<close>

definition disposable :: "ms \<Rightarrow> batch_ledger \<Rightarrow> batch_ledger list \<Rightarrow> bool" where
  "disposable now L later \<longleftrightarrow>
     (let b = bl_row L in
      b_writerMode b = ''v2'' \<and> b_status b = ''processed'' \<and> b_acquisitionPhase b = ''synchronized''
      \<and> b_operatorResetAt b = None
      \<and> (case b_processedAt b of None \<Rightarrow> False | Some t \<Rightarrow> t < now - 86400000)
      \<and> (b_claimToken b = None \<or> (case b_claimExpiresAt b of None \<Rightarrow> False | Some t \<Rightarrow> t \<le> now))
      \<and> (\<exists>M \<in> set later. b_slug (bl_row M) = b_slug b \<and> b_platform (bl_row M) = b_platform b
           \<and> b_status (bl_row M) = ''processed'' \<and> b_writerMode (bl_row M) = ''v2''
           \<and> b_operatorResetAt (bl_row M) = None \<and> b_acquisitionPhase (bl_row M) = ''synchronized'')
      \<and> (\<forall>s \<in> set (bl_segments L). s_status s = ''processed'' \<and> s_processingOffset s = s_itemCount s
           \<and> (s_leaseToken s = None \<or> (case s_leaseExpiresAt s of None \<Rightarrow> False | Some t \<Rightarrow> t \<le> now))))"

text \<open>The steps on all batches. A disposed batch leaves the ledger: its pages, observations, items and
  resolutions are deleted, and its summary row and processed segments are in no state any operation here
  looks for.\<close>

inductive ledger_step :: "host \<Rightarrow> ledger_db \<Rightarrow> ledger_db \<Rightarrow> bool" for h where
  Admit: "ad_batchId a \<notin> batch_id ` set db \<Longrightarrow> ledger_step h db (db @ [admitted_ledger h now a board])"
| On_batch: "batch_step h L L' \<Longrightarrow> ledger_step h (xs @ L # ys) (xs @ L' # ys)"
| Publish: "publishReadyAtsV2Segments h now storage recoveryCapacity batchId high low maxSegments (gate, db) = Inr (r, gate', db')
    \<Longrightarrow> ledger_step h db db'"
| Claim_segment: "ledger_step h db (snd (claimNextAtsV2Segment h now storage mode owner token db))"
| Expire: "ledger_step h db (snd (reconcileExpiredAtsV2Work now db))"
| Dispose: "disposable now L ys \<Longrightarrow> ledger_step h (xs @ L # ys) (xs @ ys)"

inductive ledger_run :: "host \<Rightarrow> ledger_db \<Rightarrow> ledger_db \<Rightarrow> bool" for h where
  Stay: "ledger_run h db db"
| Go: "ledger_run h db db' \<Longrightarrow> ledger_step h db' db'' \<Longrightarrow> ledger_run h db db''"

definition reachable :: "host \<Rightarrow> ledger_db \<Rightarrow> bool" where
  "reachable h db \<longleftrightarrow> ledger_run h [] db"

section \<open>What a step leaves in place\<close>

text \<open>The evidence only grows: observations and resolutions are added at the end, a terminal item and the
  manifest of a segment stay as they are.\<close>

definition preserves :: "batch_ledger \<Rightarrow> batch_ledger \<Rightarrow> bool" where
  "preserves L L' \<longleftrightarrow> batch_id L' = batch_id L
     \<and> prefix (bl_observations L) (bl_observations L') \<and> prefix (bl_resolutions L) (bl_resolutions L')
     \<and> prefix (map manifest_of (bl_segments L)) (map manifest_of (bl_segments L'))
     \<and> set (filter is_terminal (bl_items L)) \<subseteq> set (bl_items L')"

lemma preserves_refl [simp]: "preserves L L"
  by (auto simp: preserves_def)

lemma preserves_trans:
  assumes "preserves L L'" and "preserves L' L''"
  shows "preserves L L''"
  using assms by (auto simp: preserves_def intro: prefix_order.trans)

lemma row_preserves: "row_frame L L' \<Longrightarrow> preserves L L'"
  by (auto simp: row_frame_def preserves_def batch_id_def dest: books_sel(1))

lemma listing_preserves: "listing_frame L L' \<Longrightarrow> preserves L L'"
  by (auto simp: listing_frame_def preserves_def batch_id_def)

lemma item_preserves:
  assumes "item_frame L L'" and "list_all2 item_step (bl_items L) (bl_items L')"
  shows "preserves L L'"
proof -
  have "it \<in> set ys" if "list_all2 item_step xs ys" "it \<in> set xs" "is_terminal it" for it xs ys
    using that by (induction rule: list_all2_induct) (auto simp: item_step_def)
  with assms show ?thesis by (auto simp: item_frame_def preserves_def batch_id_def dest: books_sel(1))
qed

lemma segment_preserves: "segment_frame L L' \<Longrightarrow> preserves L L'"
  by (auto simp: segment_frame_def preserves_def batch_id_def dest: segment_steps_sel(1))

lemma seal_preserves:
  assumes "sealReadyAtsV2Segments h now c allowListingPrefix L = Inr (r, L')"
  shows "preserves L L'"
proof (cases "L' = L")
  case False
  have "bl_segments L' = bl_segments L @ new_segments h now L" "bl_items L' = bl_items L"
    "bl_observations L' = bl_observations L" "bl_resolutions L' = bl_resolutions L"
    "bl_row L' = sealed_row now (sum_list (map s_itemCount (new_segments h now L))) (bl_row L)"
    using seal_cases [OF assms] False by simp_all
  then show ?thesis by (auto simp: preserves_def batch_id_def)
qed simp

lemma resolve_preserves:
  assumes "resolveNextAtsV2ObservationChunk h now slug_of table c requested allowListingPrefix L = Inr (r, L')"
  shows "preserves L L'"
proof (cases "L' = L")
  case False
  note moved = iffD1 [OF disj_imp resolve_phase [OF assms], THEN mp, OF False]
  have frame: "bl_observations L' = bl_observations L" "bl_segments L' = bl_segments L" "b_id (bl_row L') = b_id (bl_row L)"
    using moved by - ((elim conjE, assumption)+)
  have chunk: "prefix (bl_items L) (bl_items L') \<and> prefix (bl_resolutions L) (bl_resolutions L')"
    if "resolve_chunk h now slug_of table c isPrefix obs L = Inr (r, L')" for isPrefix obs
    using that
  proof (cases rule: resolve_chunk_cases)
    case step: (1 marker idx overlays items resolutions finished L1 ws)
    show ?thesis using write_resolution_sel(1,2) [OF step(5)] step(6) by simp
  qed
  have "prefix (bl_items L) (bl_items L') \<and> prefix (bl_resolutions L) (bl_resolutions L')"
    using assms chunk unfolding resolveNextAtsV2ObservationChunk_def Let_def by (auto split: if_splits)
  with frame show ?thesis by (auto simp: preserves_def batch_id_def dest: set_mono_prefix)
qed simp

lemma complete_preserves:
  assumes "completeAtsV2SegmentProcessing now ordinal token t L = Inr (r, L')" and "batch_wf h L"
  shows "preserves L L'"
  using complete_frame [OF assms] segment_preserves row_preserves preserves_trans by metis

section \<open>Every step keeps the invariant\<close>

lemma batch_step_wf:
  assumes "batch_step h L L'" and "batch_wf h L"
  shows "batch_wf h L' \<and> preserves L L'"
  using assms(1)
proof cases
  case (Claim now owner token receiptId phase)
  then show ?thesis using row_frame_wf [OF claim_frame assms(2)] row_preserves [OF claim_frame] by simp
next
  case (Heartbeat now c)
  then show ?thesis using row_frame_wf [OF heartbeat_frame assms(2)] row_preserves [OF heartbeat_frame] by simp
next
  case (Intent now c r)
  show ?thesis using row_frame_wf [OF intent_frame [OF Intent] assms(2)] row_preserves [OF intent_frame [OF Intent]] by simp
next
  case (Contact now responded kind c r)
  show ?thesis using row_frame_wf [OF contact_frame [OF Contact] assms(2)] row_preserves [OF contact_frame [OF Contact]] by simp
next
  case (Responded now)
  then show ?thesis using row_frame_wf [OF responded_frame assms(2)] row_preserves [OF responded_frame] by simp
next
  case (Commit c now i commit)
  show ?thesis using commit_batch_wf [OF Commit(3) assms(2) Commit(1,2)] listing_preserves [OF commit_frame [OF Commit(3)]] by simp
next
  case (Saved_end c now ended)
  have "preserves L L'"
    using saved_end_frame [OF Saved_end(2)] listing_preserves by blast
  then show ?thesis using saved_end_batch_wf [OF Saved_end(2) assms(2) Saved_end(1)] by simp
next
  case (Materialize c now key listingComplete requested m)
  then show ?thesis
    using materialize_batch_wf [OF Materialize(2) assms(2)] listing_preserves materialize_frame [OF Materialize(2)] by simp
next
  case (Resolve now slug_of table c requested allowListingPrefix resolved)
  show ?thesis using resolve_batch_wf [OF Resolve assms(2)] resolve_preserves [OF Resolve] by simp
next
  case (Terminalize now marker_of c requested allowListingPrefix t)
  note items = terminalize_wf [OF Terminalize batch_wfD(2) [OF assms(2)]]
  show ?thesis using item_frame_wf [OF terminalize_frame [OF Terminalize] items [THEN conjunct1] assms(2)]
      item_preserves [OF terminalize_frame [OF Terminalize]] items by simp
next
  case (Claim_detail now c token allowListingPrefix candidate)
  note items = claim_detail_wf [OF Claim_detail batch_wfD(2) [OF assms(2)]]
  show ?thesis using item_frame_wf [OF claim_detail_frame [OF Claim_detail] items [THEN conjunct1] assms(2)]
      item_preserves [OF claim_detail_frame [OF Claim_detail]] items by simp
next
  case (Settle_detail now c claimed marker u)
  note items = settle_detail_wf [OF Settle_detail batch_wfD(2) [OF assms(2)]]
  show ?thesis using item_frame_wf [OF settle_detail_frame [OF Settle_detail] items [THEN conjunct1] assms(2)]
      item_preserves [OF settle_detail_frame [OF Settle_detail]] items by simp
next
  case (Defer_detail now retryAt reason message claimed)
  note items = defer_detail_wf [OF batch_wfD(2) [OF assms(2)]]
  show ?thesis unfolding Defer_detail using item_frame_wf [OF defer_detail_frame items [THEN conjunct1] assms(2)]
      item_preserves [OF defer_detail_frame] items by simp
next
  case (Seal now c allowListingPrefix s)
  show ?thesis using seal_batch_wf [OF Seal(2) assms(2) Seal(1)] seal_preserves [OF Seal(2)] by simp
next
  case (Segment_heartbeat now ordinal token)
  then show ?thesis
    using segment_ops_wf(3) [OF assms(2) assms(2)] segment_preserves [OF segment_heartbeat_frame] batch_wfD(5) [OF assms(2)] by simp
next
  case (Complete now ordinal token report b)
  show ?thesis using complete_batch_wf [OF Complete assms(2)] complete_preserves [OF Complete assms(2)] by simp
next
  case (Fail now ordinal token message reason)
  then show ?thesis
    using segment_ops_wf(2) [OF assms(2) assms(2)] segment_preserves [OF fail_frame] batch_wfD(5) [OF assms(2)] by simp
next
  case (Finish now c reason failure scope later)
  then show ?thesis using row_frame_wf [OF finish_frame assms(2)] row_preserves [OF finish_frame] by simp
qed


section \<open>All batches\<close>

definition db_wf :: "host \<Rightarrow> ledger_db \<Rightarrow> bool" where
  "db_wf h db \<longleftrightarrow> distinct (map batch_id db) \<and> (\<forall>L \<in> set db. batch_wf h L)"

definition db_preserves :: "ledger_db \<Rightarrow> ledger_db \<Rightarrow> bool" where
  "db_preserves db db' \<longleftrightarrow> (\<forall>L \<in> set db. \<exists>L' \<in> set db'. preserves L L')"

definition db_disposes :: "ledger_db \<Rightarrow> ledger_db \<Rightarrow> bool" where
  "db_disposes db db' \<longleftrightarrow> (\<exists>now xs L ys. db = xs @ L # ys \<and> db' = xs @ ys \<and> disposable now L ys)"

lemma db_preserves_refl: "db_preserves db db"
  unfolding db_preserves_def using preserves_refl by blast

lemma db_preserves_trans: "db_preserves db db' \<Longrightarrow> db_preserves db' db'' \<Longrightarrow> db_preserves db db''"
  unfolding db_preserves_def using preserves_trans by meson

lemma preserves_id: "preserves L L' \<Longrightarrow> batch_id L' = batch_id L"
  by (simp add: preserves_def)

lemma db_map:
  assumes "db_wf h db" and "\<And>L. L \<in> set db \<Longrightarrow> batch_wf h (f L) \<and> preserves L (f L)"
  shows "db_wf h (map f db) \<and> db_preserves db (map f db)"
proof -
  have "map batch_id (map f db) = map batch_id db" using assms(2) preserves_id by auto
  then have "db_wf h (map f db)" using assms unfolding db_wf_def by (metis (no_types, lifting) image_iff list.set_map)
  moreover have "db_preserves db (map f db)" using assms(2) by (auto simp: db_preserves_def)
  ultimately show ?thesis by blast
qed

lemma admitted_wf: "batch_wf h (admitted_ledger h now a board)"
proof -
  have size: "0 < atsSegmentSizeForNewBoard platform n" for platform n
    by (auto simp: atsSegmentSizeForNewBoard_def less_max_iff_disj split: option.split)
  show ?thesis
    by (simp add: batch_wf_def) (simp add: items_wf_def evidence_wf_def phase_wf_def segments_wf_def segments_exact_def
        resolved_exact_def resolved_phase_def admitted_ledger_def admitted_row_def size Let_def)
qed

subsection \<open>Publication\<close>

lemma select_prefix: "prefix (select_segments maximum batches units available entries) entries"
  by (induction maximum batches units available entries rule: select_segments.induct) (auto simp: Let_def)

lemma entries_of: "e \<in> set (concat (map batch_entries db)) \<longleftrightarrow> (\<exists>L \<in> set db. fst e = batch_id L \<and> snd e \<in> set (bl_segments L))"
  by (cases e) (auto simp: batch_entries_def batch_id_def)

lemma entries_distinct:
  assumes "db_wf h db"
  shows "distinct (map entry_key (concat (map batch_entries db)))"
  using assms
proof (induction db)
  case (Cons L db)
  then have IH: "distinct (map entry_key (concat (map batch_entries db)))" by (simp add: db_wf_def)
  have "distinct (map s_ordinal (bl_segments L))"
    using Cons.prems by (simp add: db_wf_def batch_wf_def items_wf_def segments_exact_def Let_def)
  then have "distinct (map entry_key (batch_entries L))"
    by (simp add: batch_entries_def entry_key_def distinct_map inj_on_def)
  moreover have "entry_key ` set (batch_entries L) \<inter> entry_key ` set (concat (map batch_entries db)) = {}"
    using Cons.prems by (auto simp: db_wf_def batch_entries_def batch_id_def entry_key_def)
  ultimately show ?case using IH by simp
qed simp

text \<open>What is chosen for publication is a set of sealed segments.\<close>

lemma chosen_sealed:
  assumes "db_wf h db"
    and chosen: "chosen = selectAtsPublicationSegments (take n (sealed_entries h batchId db)) maximum available"
  shows "distinct (map entry_key chosen)"
    and "\<And>e. e \<in> set chosen \<Longrightarrow> s_status (snd e) = ''sealed'' \<and> (\<exists>L \<in> set db. fst e = batch_id L \<and> snd e \<in> set (bl_segments L))"
proof -
  have pre: "prefix chosen (take n (sealed_entries h batchId db))"
    unfolding chosen selectAtsPublicationSegments_def by (rule select_prefix)
  have inj: "inj_on entry_key (set (concat (map batch_entries db)))" "distinct (concat (map batch_entries db))"
    using entries_distinct [OF assms(1)] by (simp_all only: distinct_map)
  have sub: "set (sealed_entries h batchId db) \<subseteq> set (concat (map batch_entries db))"
    by (auto simp: sealed_entries_def)
  then have "distinct (map entry_key (sealed_entries h batchId db))"
    using inj inj_on_subset [OF inj(1) sub] unfolding distinct_map by (simp add: sealed_entries_def)
  then have "distinct (map entry_key (take n (sealed_entries h batchId db)))" by (simp add: take_map [symmetric])
  then show "distinct (map entry_key chosen)"
    using pre by (auto simp: prefix_def)
  fix e
  assume "e \<in> set chosen"
  then have e: "e \<in> set (sealed_entries h batchId db)" using set_mono_prefix [OF pre] by (meson in_set_takeD subsetD)
  then have "s_status (snd e) = ''sealed''" by (auto simp: sealed_entries_def)
  moreover have "e \<in> set (concat (map batch_entries db))" using e sub by blast
  ultimately show "s_status (snd e) = ''sealed'' \<and> (\<exists>L \<in> set db. fst e = batch_id L \<and> snd e \<in> set (bl_segments L))"
    unfolding entries_of by blast
qed

text \<open>The segments of a batch that the update touches are the chosen ones.\<close>

lemma touched_segments:
  assumes "db_wf h db" and "L \<in> set db" and "distinct (map entry_key chosen)"
    and "\<And>e. e \<in> set chosen \<Longrightarrow> s_status (snd e) = ''sealed'' \<and> (\<exists>L \<in> set db. fst e = batch_id L \<and> snd e \<in> set (bl_segments L))"
  shows "mset (filter (publishable (entry_key ` set chosen) (batch_id L)) (bl_segments L))
    = mset (map snd (filter (\<lambda>e. fst e = batch_id L) chosen))"
proof -
  have wf: "batch_wf h L" using assms(1,2) by (simp add: db_wf_def)
  have own: "L' = L" if "L' \<in> set db" "batch_id L' = batch_id L" for L'
    using assms(1,2) that by (auto simp: db_wf_def distinct_map inj_on_def)
  have ord: "distinct (map s_ordinal (bl_segments L))"
    using wf by (simp add: batch_wf_def items_wf_def segments_exact_def Let_def)
  have same: "x = s" if "s \<in> set (bl_segments L)" "x \<in> set (bl_segments L)" "s_ordinal x = s_ordinal s" for s x
    using segment_named [OF batch_wfD(2) [OF wf] that] .
  have mem: "snd e \<in> set (bl_segments L)" if "e \<in> set chosen" "fst e = batch_id L" for e
    using assms(4) [OF that(1)] that(2) own by auto
  have open_: "s_publishedAt s = None" if "s \<in> set (bl_segments L)" "s_status s = ''sealed''" for s
    using wf that by (simp add: batch_wf_def segments_wf_def segment_ok_def)
  have "set (filter (publishable (entry_key ` set chosen) (batch_id L)) (bl_segments L))
      = set (map snd (filter (\<lambda>e. fst e = batch_id L) chosen))" (is "?A = ?B")
  proof
    show "?A \<subseteq> ?B"
    proof
      fix s
      assume "s \<in> ?A"
      then obtain e where "s \<in> set (bl_segments L)" "e \<in> set chosen" "(batch_id L, s_ordinal s) = entry_key e"
        by (auto simp: publishable_def)
      then show "s \<in> ?B" using same [of s "snd e"] mem [of e] by (force simp: entry_key_def)
    qed
    show "?B \<subseteq> ?A"
    proof
      fix s
      assume "s \<in> ?B"
      then obtain e where e: "e \<in> set chosen" "fst e = batch_id L" "s = snd e" by auto
      then have "(batch_id L, s_ordinal s) \<in> entry_key ` set chosen" by (metis entry_key_def image_eqI)
      with e mem [of e] assms(4) [of e] open_ show "s \<in> ?A" by (simp add: publishable_def)
    qed
  qed
  moreover have "distinct (filter P (bl_segments L))" for P using ord by (simp add: distinct_map)
  moreover have "distinct (map snd (filter (\<lambda>e. fst e = batch_id L) chosen))"
    using assms(3) by (auto simp: distinct_map inj_on_def entry_key_def)
  ultimately show ?thesis by (intro iffD1 [OF set_eq_iff_mset_eq_distinct])
qed

lemma published_step:
  assumes "segment_ok s" and "s_status s = ''sealed''"
  shows "segment_ok (published_segment now s)" and "published (published_segment now s)" and "\<not> published s"
    and "manifest_of (published_segment now s) = manifest_of s" and "s_itemCount (published_segment now s) = s_itemCount s"
  using assms by (simp_all add: segment_ok_def published_segment_def published_def manifest_of_def segment_seen_def segment_fresh_def)

lemma publish_sum:
  assumes "\<forall>s \<in> set ss. segment_ok s \<and> (P s \<longrightarrow> s_status s = ''sealed'')"
  shows "sum_list (map s_itemCount (filter published (update_where P (published_segment now) ss)))
    = sum_list (map s_itemCount (filter published ss)) + sum_list (map s_itemCount (filter P ss))"
  using assms by (induction ss) (auto simp: published_step)

lemma publish_batch_wf:
  assumes "db_wf h db" and "L \<in> set db" and "distinct (map entry_key chosen)"
    and "\<And>e. e \<in> set chosen \<Longrightarrow> s_status (snd e) = ''sealed'' \<and> (\<exists>L \<in> set db. fst e = batch_id L \<and> snd e \<in> set (bl_segments L))"
  shows "batch_wf h (publish_batch now chosen L) \<and> preserves L (publish_batch now chosen L)"
proof -
  let ?P = "publishable (entry_key ` set chosen) (batch_id L)"
  let ?L = "publish_batch now chosen L"
  have wf: "batch_wf h L" using assms(1,2) by (simp add: db_wf_def)
  note parts = batch_wfD [OF wf]
  have row: "bl_row ?L = (bl_row L)\<lparr>b_publishedItemCount := b_publishedItemCount (bl_row L)
      + sum_list (map (\<lambda>e. s_itemCount (snd e)) (filter (\<lambda>e. fst e = batch_id L) chosen))\<rparr>"
    and segs: "bl_segments ?L = update_where ?P (published_segment now) (bl_segments L)"
    and rest: "bl_pages ?L = bl_pages L" "bl_observations ?L = bl_observations L" "bl_resolutions ?L = bl_resolutions L"
      "bl_items ?L = bl_items L"
    by (simp_all add: publish_batch_def batch_id_def Let_def)
  have sealed: "\<forall>s \<in> set (bl_segments L). segment_ok s \<and> (?P s \<longrightarrow> s_status s = ''sealed'')"
    using parts(5) by (auto simp: segments_wf_def publishable_def)
  have man: "map manifest_of (bl_segments ?L) = map manifest_of (bl_segments L)"
    unfolding segs by (rule map_update_where) (simp add: manifest_of_def published_segment_def)
  have "segments_exact h (b_segmentSize (bl_row L)) (bl_items L) (bl_segments L)"
    using parts(2) by (simp add: items_wf_def Let_def)
  note exact = segments_exact_manifests [OF man this]
  have "sum_list (map s_itemCount (filter ?P (bl_segments L)))
      = sum_list (map (\<lambda>e. s_itemCount (snd e)) (filter (\<lambda>e. fst e = batch_id L) chosen))"
    using touched_segments [OF assms] by (metis (no_types, lifting) map_map mset_map sum_mset_sum_list comp_def map_eq_conv)
  with publish_sum [OF sealed, of now] parts(5)
  have "b_publishedItemCount (bl_row ?L) = sum_list (map s_itemCount (filter published (bl_segments ?L)))"
    by (simp add: segments_wf_def row segs)
  moreover have "\<forall>s \<in> set (bl_segments ?L). segment_ok s"
    unfolding segs set_update_where using sealed published_step(1) by auto
  ultimately have "segments_wf ?L" by (simp add: segments_wf_def)
  moreover have "listing_wf h ?L" by (rule listing_wf_frame [OF parts(1)]) (simp_all add: row rest)
  moreover have "items_wf h ?L" using parts(2) exact(1,2) by (simp add: items_wf_def row rest Let_def)
  moreover have "evidence_wf ?L" using parts(3) by (simp add: evidence_wf_def rest)
  moreover have "phase_wf ?L" using parts(4) by (simp add: phase_wf_def row rest missing_def Let_def)
  ultimately show ?thesis using man rest by (auto simp: batch_wf_def preserves_def batch_id_def row)
qed

definition chosen_segments :: "host \<Rightarrow> ms \<Rightarrow> int \<Rightarrow> string option \<Rightarrow> int \<Rightarrow> int \<Rightarrow> int option \<Rightarrow> ledger_db \<Rightarrow> segment_entry list" where
  "chosen_segments h now recoveryCapacity batchId high low maxSegments db =
     (let maximum = max 1 (min 10 (case maxSegments of None \<Rightarrow> 10 | Some n \<Rightarrow> if n = 0 then 10 else n)) in
      selectAtsPublicationSegments (take (nat maximum * 25) (sealed_entries h batchId db)) maximum
        (pa_publicationHigh (atsPersistenceAllocation low high) - atsV2PersistenceCapacityBacklog recoveryCapacity now db))"

lemma publish_cases:
  assumes "publishReadyAtsV2Segments h now storage recoveryCapacity batchId high low maxSegments (gate, db) = Inr (r, gate', db')"
  obtains (idle) "db' = db" and "pr_remainingJobs r = (if storage then atsV2PersistenceCapacityBacklog recoveryCapacity now db else 0)"
  | (published) "db' = map (publish_batch now (chosen_segments h now recoveryCapacity batchId high low maxSegments db)) db"
    and "storage"
    and "pr_remainingJobs r = atsV2PersistenceCapacityBacklog recoveryCapacity now db
      + int (sum_list (map (\<lambda>e. s_itemCount (snd e)) (chosen_segments h now recoveryCapacity batchId high low maxSegments db)))"
proof -
  let ?chosen = "chosen_segments h now recoveryCapacity batchId high low maxSegments db"
  let ?backlog = "atsV2PersistenceCapacityBacklog recoveryCapacity now db"
  have "(db' = db \<and> pr_remainingJobs r = (if storage then ?backlog else 0)) \<or>
    (db' = map (publish_batch now ?chosen) db \<and> storage
      \<and> pr_remainingJobs r = ?backlog + int (sum_list (map (\<lambda>e. s_itemCount (snd e)) ?chosen)))"
    using assms unfolding publishReadyAtsV2Segments_def Let_def prod.case chosen_segments_def
    by (simp only: sum.inject sum.distinct prod.inject simp_thms publication_result.simps HOL.eq_commute [of _ r] HOL.eq_commute [of _ db'] split: if_split_asm)
       (elim conjE; simp)+
  with idle published show thesis by blast
qed

section \<open>Reachable ledgers\<close>

lemma reconcile_preserves:
  assumes "batch_wf h L"
  shows "preserves L (snd (reconcile_batch now L))"
proof -
  have "list_all2 item_step (bl_items L) (bl_items (released_work now L))"
    using expired_items_step [OF batch_wfD(2) [OF assms]] by (simp add: released_work_def)
  then have kept: "it \<in> set (bl_items (released_work now L))" if "it \<in> set (bl_items L)" "is_terminal it" for it
    using that by (auto simp: list_all2_conv_all_nth in_set_conv_nth item_step_def)
  have man: "map manifest_of (bl_segments (released_work now L)) = map manifest_of (bl_segments L)"
    unfolding released_work_def
    by simp (rule map_update_where, simp add: manifest_of_def reclaimed_segment_def unleased_def)
  have "preserves L (released_work now L)"
    using kept man by (auto simp: preserves_def batch_id_def released_work_def reclaimed_row_def)
  then show ?thesis
    using preserves_trans row_preserves [OF finalize_frame] by (auto simp: reconcile_batch_def)
qed

lemma claim_segment_db:
  "\<exists>batchId ordinal. snd (claimNextAtsV2Segment h now storage mode owner token db)
    \<in> {db, map (\<lambda>L. if b_id (bl_row L) = batchId then lease_in_batch h now owner token ordinal L else L) db}"
  unfolding claimNextAtsV2Segment_def Let_def by (auto split: option.split)

lemma ledger_step_wf:
  assumes "ledger_step h db db'" and "db_wf h db"
  shows "db_wf h db' \<and> (db_preserves db db' \<or> db_disposes db db')"
  using assms(1)
proof cases
  case (Admit a now board)
  have "batch_id (admitted_ledger h now a board) = ad_batchId a"
    by (simp add: batch_id_def admitted_ledger_def admitted_row_def)
  with Admit assms(2) show ?thesis
    using admitted_wf preserves_refl by (fastforce simp: db_wf_def db_preserves_def)
next
  case (On_batch L L' xs ys)
  have wf: "batch_wf h L" using assms(2) On_batch by (simp add: db_wf_def)
  note step = batch_step_wf [OF On_batch(3) wf]
  have "map batch_id db' = map batch_id db" using On_batch(1,2) preserves_id [of L L'] step by simp
  then have "db_wf h db'" using assms(2) step On_batch(1,2) by (auto simp: db_wf_def)
  moreover have "db_preserves db db'"
  proof -
    have "\<exists>M' \<in> set (xs @ L' # ys). preserves M M'" if "M \<in> set (xs @ L # ys)" for M
    proof (cases "M = L")
      case False
      with that have "M \<in> set (xs @ L' # ys)" by simp
      then show ?thesis using preserves_refl by blast
    qed (use step in simp)
    then show ?thesis by (simp add: db_preserves_def On_batch(1,2))
  qed
  ultimately show ?thesis by blast
next
  case (Publish now storage recoveryCapacity batchId high low maxSegments gate r gate')
  from Publish show ?thesis
  proof (cases rule: publish_cases)
    case published
    have "db_wf h db' \<and> db_preserves db db'"
      unfolding published(1) using chosen_sealed [OF assms(2) chosen_segments_def [unfolded Let_def]]
      by (intro db_map [OF assms(2)] publish_batch_wf [OF assms(2)]) blast+
    then show ?thesis by blast
  qed (use assms(2) db_preserves_refl in simp)
next
  case (Claim_segment now storage mode owner token)
  obtain batchId ordinal where db': "db' = db \<or> db' = map (\<lambda>L. if b_id (bl_row L) = batchId
      then lease_in_batch h now owner token ordinal L else L) db" (is "_ \<or> db' = map ?f db")
    using claim_segment_db [of h now storage mode owner token db] Claim_segment by auto
  have "batch_wf h (?f L) \<and> preserves L (?f L)" if "L \<in> set db" for L
  proof -
    have wf: "batch_wf h L" using assms(2) that by (simp add: db_wf_def)
    show ?thesis
      using wf segment_ops_wf(1) [OF wf wf] segment_preserves [OF lease_frame [OF batch_wfD(5) [OF wf]]] by simp
  qed
  with db_map [OF assms(2), of ?f] db' assms(2) db_preserves_refl show ?thesis by blast
next
  case (Expire now)
  have "db' = map (snd \<circ> reconcile_batch now) db" using Expire by (simp add: reconcileExpiredAtsV2Work_def)
  moreover have "batch_wf h ((snd \<circ> reconcile_batch now) L) \<and> preserves L ((snd \<circ> reconcile_batch now) L)" if "L \<in> set db" for L
  proof -
    have wf: "batch_wf h L" using assms(2) that by (simp add: db_wf_def)
    show ?thesis using reconcile_batch_wf [OF wf] reconcile_preserves [OF wf] by simp
  qed
  ultimately show ?thesis using db_map [OF assms(2), of "snd \<circ> reconcile_batch now"] by simp
next
  case (Dispose now L ys xs)
  then have "db_wf h db'" using assms(2) by (auto simp: db_wf_def)
  moreover have "db_disposes db db'" unfolding db_disposes_def using Dispose by blast
  ultimately show ?thesis by blast
qed

text \<open>Along a run a batch is kept with its evidence until it is disposed of.\<close>

definition disposed_on_the_way :: "host \<Rightarrow> ledger_db \<Rightarrow> batch_ledger \<Rightarrow> ledger_db \<Rightarrow> bool" where
  "disposed_on_the_way h db L db' \<longleftrightarrow> (\<exists>now xs M ys. ledger_run h db (xs @ M # ys) \<and> preserves L M
     \<and> disposable now M ys \<and> ledger_run h (xs @ ys) db')"

lemma disposed_further:
  "disposed_on_the_way h db L db' \<Longrightarrow> ledger_step h db' db'' \<Longrightarrow> disposed_on_the_way h db L db''"
  unfolding disposed_on_the_way_def using ledger_run.Go by meson

lemma step_keeps:
  assumes "ledger_run h db db'" and "db_preserves db' db'' \<or> db_disposes db' db''"
    and "M \<in> set db'" and "preserves L M"
  shows "(\<exists>L' \<in> set db''. preserves L L') \<or> disposed_on_the_way h db L db''"
proof (cases "db_preserves db' db''")
  case True
  then obtain N where "N \<in> set db''" "preserves M N" using assms(3) unfolding db_preserves_def by blast
  then show ?thesis using preserves_trans [OF assms(4)] by blast
next
  case False
  then obtain now xs K ys where d: "db' = xs @ K # ys" "db'' = xs @ ys" "disposable now K ys"
    using assms(2) by (auto simp: db_disposes_def)
  show ?thesis
  proof (cases "M = K")
    case True
    then have "disposed_on_the_way h db L db''"
      unfolding disposed_on_the_way_def using assms(1,4) d ledger_run.Stay by blast
    then show ?thesis ..
  next
    case False
    then have "M \<in> set db''" using assms(3) d by auto
    then show ?thesis using assms(4) by blast
  qed
qed

lemma ledger_run_wf:
  assumes "ledger_run h db db'" and "db_wf h db"
  shows "db_wf h db' \<and> (\<forall>L \<in> set db. (\<exists>L' \<in> set db'. preserves L L') \<or> disposed_on_the_way h db L db')"
  using assms
proof (induction rule: ledger_run.induct)
  case (Go db db' db'')
  then have wf: "db_wf h db'"
    and kept: "\<forall>L \<in> set db. (\<exists>L' \<in> set db'. preserves L L') \<or> disposed_on_the_way h db L db'" by blast+
  note step = ledger_step_wf [OF Go.hyps(2) wf]
  have "(\<exists>L' \<in> set db''. preserves L L') \<or> disposed_on_the_way h db L db''" if "L \<in> set db" for L
    using kept that step_keeps [OF Go.hyps(1) step [THEN conjunct2]] disposed_further [OF _ Go.hyps(2)] by blast
  with step show ?case by blast
qed (use preserves_refl in blast)

lemma reachable_wf: "reachable h db \<Longrightarrow> db_wf h db"
  unfolding reachable_def using ledger_run_wf [of h "[]" db] by (simp add: db_wf_def)

lemma reachable_batch: "reachable h db \<Longrightarrow> L \<in> set db \<Longrightarrow> batch_wf h L"
  using reachable_wf by (auto simp: db_wf_def)

end
