(* ===== verification/Ledger_Evidence.thy ===== *)
theory Ledger_Evidence
  imports Ledger_Run
begin

text \<open>
  What holds of every ledger that can be reached: each posting a board listed is accounted for once, the
  evidence is immutable, a claimed segment is what was sealed, publication keeps to its watermarks, and a
  batch is only closed when its books balance.
\<close>

section \<open>Every posting once\<close>

lemma count_split: "length xs = count_where P xs + count_where (\<lambda>x. \<not> P x) xs"
  by (simp add: count_where_def sum_length_filter_compl)

lemma length_map_filter: "length (List.map_filter f xs) = count_where (\<lambda>x. f x \<noteq> None) xs"
  by (simp add: List.map_filter_def count_where_def)

text \<open>The resolutions are the items and the compacted postings.\<close>

lemma resolutions_total:
  assumes "items_wf h L"
  shows "length (bl_resolutions L) = b_canonicalOccurrenceCount (bl_row L) + b_compactedOccurrenceCount (bl_row L)"
proof -
  have "List.map_filter r_item (bl_resolutions L) = [0..<length (bl_items L)]"
    using assms by (simp add: items_wf_def resolved_exact_def Let_def)
  then have "count_where (\<lambda>r. r_item r \<noteq> None) (bl_resolutions L) = length (bl_items L)"
    by (metis length_map_filter length_upt minus_nat.diff_0)
  moreover have "b_canonicalOccurrenceCount (bl_row L) = length (bl_items L)"
    "b_compactedOccurrenceCount (bl_row L) = count_where (\<lambda>r. \<not> r_item r \<noteq> None) (bl_resolutions L)"
    using assms by (simp_all add: items_wf_def Let_def)
  ultimately show ?thesis
    using count_split [of "bl_resolutions L" "\<lambda>r. r_item r \<noteq> None"] by simp
qed

lemma all_resolved:
  assumes "batch_wf h L" and "b_canonicalOccurrenceCount (bl_row L) + b_compactedOccurrenceCount (bl_row L) = b_rawObservationCount (bl_row L)"
  shows "mset (map r_observation (bl_resolutions L)) = mset (map o_key (bl_observations L))"
proof -
  note wf = batch_wfD(1,2) [OF assms(1)]
  have res: "distinct (map r_observation (bl_resolutions L))"
    and sub: "set (map r_observation (bl_resolutions L)) \<subseteq> set (map o_key (bl_observations L))"
    using wf(2) by (simp_all add: items_wf_def resolved_exact_def Let_def)
  note obs = observation_keys_distinct [OF wf(1)]
  have "length (bl_resolutions L) = length (bl_observations L)"
    using resolutions_total [OF wf(2)] assms(2) wf(1) by (simp add: listing_wf_def Let_def)
  then have "card (set (map r_observation (bl_resolutions L))) = card (set (map o_key (bl_observations L)))"
    using distinct_card [OF res] distinct_card [OF obs] by simp
  then have "set (map r_observation (bl_resolutions L)) = set (map o_key (bl_observations L))"
    using sub by (intro card_subset_eq) simp_all
  then show ?thesis using res obs by (intro iffD1 [OF set_eq_iff_mset_eq_distinct])
qed

section \<open>A sealed segment reads back\<close>

lemma observation_raw:
  assumes "listing_wf h L" and "ob \<in> set (bl_observations L)"
  shows "is_json_object (Some (o_rawJson ob)) \<and> atsLedgerHash h (o_rawJson ob) = o_rawHash ob"
proof -
  have "o_page ob \<in> p_key ` set (bl_pages L)"
    using assms by (simp add: listing_wf_def Let_def pages_exact_def)
  then obtain p where p: "p \<in> set (bl_pages L)" "o_page ob = p_key p" by blast
  with assms(1) have "page_exact h (b_platform (bl_row L)) (bl_observations L) p"
    by (simp add: listing_wf_def Let_def pages_exact_def)
  then obtain jobs where jobs: "page_observations (bl_observations L) (p_key p)
      = map (observation_row h (b_platform (bl_row L)) (p_key p) (p_respondedAt p)) (List.enumerate 0 jobs)"
    by (auto simp: page_exact_def Let_def)
  have "ob \<in> set (page_observations (bl_observations L) (p_key p))"
    using assms(2) p(2) by (simp add: page_observations_def)
  then show ?thesis unfolding jobs by (auto simp: observation_row_def)
qed

lemma item_raw_reads:
  assumes "batch_wf h L" and "it \<in> set (bl_items L)"
  shows "\<exists>job. resolveAtsItemRaw h (bl_observations L) it = Inr job"
proof -
  note wf = batch_wfD(1,3) [OF assms(1)]
  obtain ob where ob: "ob \<in> set (bl_observations L)" "o_key ob = i_observation it" "o_rawHash ob = i_rawHash it"
    using wf(2) assms(2) by (force simp: evidence_wf_def evidence_def)
  have only: "x = ob" if "x \<in> set (bl_observations L)" "o_key x = i_observation it" for x
    using observation_keys_distinct [OF wf(1)] that ob by (auto simp: distinct_map inj_on_def)
  have "find (\<lambda>x. o_key x = i_observation it) (bl_observations L) = Some ob"
  proof (cases "find (\<lambda>x. o_key x = i_observation it) (bl_observations L)")
    case None
    then show ?thesis using ob by (auto simp: find_None_iff)
  next
    case (Some x)
    from find_SomeD [OF this] only show ?thesis using Some by simp
  qed
  with ob observation_raw [OF wf(1) ob(1)] show ?thesis by (simp add: resolveAtsItemRaw_def)
qed

lemma merged_jobs_reads:
  assumes "batch_wf h L" and "set items \<subseteq> set (bl_items L)"
  shows "\<exists>jobs. merged_jobs h (bl_observations L) items = Inr jobs \<and> length jobs = length items"
  using assms(2)
proof (induction items)
  case (Cons it items)
  then obtain jobs job where "merged_jobs h (bl_observations L) items = Inr jobs" "length jobs = length items"
    "resolveAtsItemRaw h (bl_observations L) it = Inr job"
    using item_raw_reads [OF assms(1), of it] by auto
  then show ?case by simp
qed simp

lemma read_segment_reads:
  assumes "batch_wf h L" and "s \<in> set (bl_segments L)"
  shows "\<exists>ps. read_segment h L token s = Inr ps
    \<and> ps_canonicalOrdinals ps = drop (s_processingOffset s) [s_firstOrdinal s..<s_firstOrdinal s + s_itemCount s]
    \<and> length (ps_jobs ps) = s_itemCount s - s_processingOffset s \<and> ps_manifestHash ps = s_manifestHash s
    \<and> ps_totalJobCount ps = s_itemCount s \<and> ps_processingOffset ps = s_processingOffset s
    \<and> ps_sourceBatchId ps = batch_id L"
proof -
  note wf = batch_wfD [OF assms(1)]
  let ?items = "bl_items L" and ?k = "s_firstOrdinal s" and ?n = "s_itemCount s"
  have pos: "map i_ordinal ?items = [0..<length ?items]" and ex: "segment_exact h (b_segmentSize (bl_row L)) ?items s"
    using wf(2) assms(2) by (auto simp: items_wf_def resolved_exact_def segments_exact_def Let_def)
  have in_range: "?k + ?n \<le> length ?items" "s_lastOrdinal s = int (?k + ?n) - 1"
    and ends: "list_all is_terminal (take ?n (drop ?k ?items))"
    and man: "s_manifestHash s = segment_manifest h (take ?n (drop ?k ?items))"
    using ex unfolding segment_exact_def Let_def by - ((elim conjE, assumption)+)
  have covered: "items_between ?k ?n ?items = take ?n (drop ?k ?items)"
    by (rule items_between_positions [OF pos in_range(1)])
  have range: "(?k \<le> i_ordinal it \<and> int (i_ordinal it) \<le> s_lastOrdinal s) = (?k \<le> i_ordinal it \<and> i_ordinal it < ?k + ?n)" for it
    by (auto simp: in_range(2))
  have "filter (\<lambda>it. ?k \<le> i_ordinal it \<and> int (i_ordinal it) \<le> s_lastOrdinal s \<and> i_status it = ''terminal'') ?items
      = filter (\<lambda>it. i_status it = ''terminal'') (filter (\<lambda>it. ?k \<le> i_ordinal it \<and> i_ordinal it < ?k + ?n) ?items)"
    unfolding filter_filter by (rule filter_cong) (auto simp: in_range(2))
  also have "\<dots> = filter (\<lambda>it. ?k \<le> i_ordinal it \<and> i_ordinal it < ?k + ?n) ?items"
    using ends unfolding filter_positions [OF pos in_range(1)] by (auto simp: filter_id_conv list_all_iff is_terminal_def)
  finally have items: "by_ordinal (filter (\<lambda>it. ?k \<le> i_ordinal it \<and> int (i_ordinal it) \<le> s_lastOrdinal s
      \<and> i_status it = ''terminal'') ?items) = take ?n (drop ?k ?items)"
    using covered by (simp add: items_between_def)
  have len: "length (take ?n (drop ?k ?items)) = ?n" using in_range(1) by simp
  have ords: "map i_ordinal (take ?n (drop ?k ?items)) = [?k..<?k + ?n]"
    using in_range(1) by (simp add: take_map [symmetric] drop_map [symmetric] pos)
  have "set (drop (s_processingOffset s) (take ?n (drop ?k ?items))) \<subseteq> set ?items"
    by (meson set_drop_subset set_take_subset subset_trans)
  then obtain jobs where jobs: "merged_jobs h (bl_observations L) (drop (s_processingOffset s) (take ?n (drop ?k ?items))) = Inr jobs"
    "length jobs = length (drop (s_processingOffset s) (take ?n (drop ?k ?items)))"
    using merged_jobs_reads [OF assms(1)] by blast
  have v2: "b_writerMode (bl_row L) = ''v2''" by (rule phase_wfD(1) [OF wf(4)])
  show ?thesis
    unfolding read_segment_def Let_def items
    using len ords man v2 jobs drop_map [of "s_processingOffset s" i_ordinal "take ?n (drop ?k ?items)"]
    by (simp add: batch_id_def)
qed

lemma first_candidate_in:
  assumes "first_candidate now groups db = Some e"
  shows "e \<in> set (concat (map batch_entries db)) \<and> eligible_segment now (snd e)"
  using assms
proof (induction groups)
  case (Cons g groups)
  let ?xs = "filter (\<lambda>e. eligible_segment now (snd e) \<and> atsEmployerVerificationHoldWhere g (snd e)) (concat (map batch_entries db))"
  show ?case
  proof (cases "js_sort claim_order ?xs")
    case (Cons x xs)
    then have "x \<in> set ?xs" by (rule js_sort_eq_Cons_in)
    with Cons Cons.prems show ?thesis by auto
  qed (use Cons in simp)
qed simp


text \<open>The segment the claim leases, as it is then read.\<close>

lemma leased_reads:
  assumes "db_wf h db" and "L \<in> set db" and "s \<in> set (bl_segments L)" and "eligible_segment now s"
    and f: "f = (\<lambda>M. if b_id (bl_row M) = batch_id L then lease_in_batch h now owner token (s_ordinal s) M else M)"
  shows "find (\<lambda>M. b_id (bl_row M) = batch_id L) (map f db) = Some (f L)"
    and "find (\<lambda>x. s_ordinal x = s_ordinal s) (bl_segments (f L)) = Some (leased_segment h now owner token s)"
    and "batch_wf h (f L)" and "leased_segment h now owner token s \<in> set (bl_segments (f L))"
    and "batch_id (f L) = batch_id L"
proof -
  have wf: "batch_wf h L" using assms(1,2) by (simp add: db_wf_def)
  have ids: "b_id (bl_row (f M)) = b_id (bl_row M)" for M by (simp add: f lease_in_batch_def)
  show "batch_id (f L) = batch_id L" by (simp add: batch_id_def ids)
  have own: "M = L" if "M \<in> set db" "b_id (bl_row M) = batch_id L" for M
    using assms(1,2) that by (auto simp: db_wf_def distinct_map inj_on_def batch_id_def)
  have fL: "f L = lease_in_batch h now owner token (s_ordinal s) L" by (simp add: f batch_id_def)
  show "find (\<lambda>M. b_id (bl_row M) = batch_id L) (map f db) = Some (f L)"
  proof (cases "find (\<lambda>M. b_id (bl_row M) = batch_id L) (map f db)")
    case None
    then show ?thesis using assms(2) ids by (auto simp: find_None_iff batch_id_def)
  next
    case (Some M)
    from find_SomeD [OF this] obtain N where "N \<in> set db" "M = f N" "b_id (bl_row N) = batch_id L" by (auto simp: ids)
    with own [of N] Some show ?thesis by simp
  qed
  let ?P = "\<lambda>x. s_ordinal x = s_ordinal s \<and> eligible_segment now x"
  have segs: "bl_segments (f L) = update_where ?P (leased_segment h now owner token) (bl_segments L)"
    by (simp add: fL lease_in_batch_def)
  show mem: "leased_segment h now owner token s \<in> set (bl_segments (f L))"
    unfolding segs set_update_where using assms(3,4) by (auto intro!: image_eqI [of _ _ s])
  show wf': "batch_wf h (f L)" unfolding fL by (rule segment_ops_wf(1) [OF wf wf])
  have ord: "s_ordinal (leased_segment h now owner token s) = s_ordinal s" by (simp add: leased_segment_def)
  show "find (\<lambda>x. s_ordinal x = s_ordinal s) (bl_segments (f L)) = Some (leased_segment h now owner token s)"
  proof (cases "find (\<lambda>x. s_ordinal x = s_ordinal s) (bl_segments (f L))")
    case None
    then show ?thesis using mem ord by (auto simp: find_None_iff)
  next
    case (Some x)
    from find_SomeD [OF this] have "x \<in> set (bl_segments (f L))" "s_ordinal x = s_ordinal s" by auto
    with Some show ?thesis using segment_named [OF batch_wfD(2) [OF wf'] mem] ord by auto
  qed
qed

lemma claim_reads:
  assumes "db_wf h db"
  shows "\<exists>p. fst (claimNextAtsV2Segment h now storage mode owner token db) = Inr p
    \<and> (\<forall>ps. p = Some ps \<longrightarrow> ps_processingOffset ps < ps_totalJobCount ps
        \<and> length (ps_jobs ps) = ps_totalJobCount ps - ps_processingOffset ps
        \<and> (\<exists>L \<in> set db. \<exists>s \<in> set (bl_segments L). ps_sourceBatchId ps = batch_id L \<and> ps_manifestHash ps = s_manifestHash s
            \<and> ps_canonicalOrdinals ps
              = [s_firstOrdinal s + s_processingOffset s..<s_firstOrdinal s + s_itemCount s]))"
proof (cases "storage \<and> first_candidate now (retry_groups mode) db \<noteq> None")
  case True
  then obtain e where e: "first_candidate now (retry_groups mode) db = Some e" by blast
  obtain batchId s where es: "e = (batchId, s)" by (cases e)
  obtain L where L: "L \<in> set db" "batchId = batch_id L" "s \<in> set (bl_segments L)" "eligible_segment now s"
    using first_candidate_in [OF e] unfolding entries_of es by auto
  note leased = leased_reads [OF assms L(1,3,4) refl, where owner = owner and token = token, folded L(2)]
  let ?s = "leased_segment h now owner token s"
  have same: "s_processingOffset ?s = s_processingOffset s" "s_firstOrdinal ?s = s_firstOrdinal s"
    "s_itemCount ?s = s_itemCount s" "s_manifestHash ?s = s_manifestHash s"
    by (simp_all add: leased_segment_def)
  have "segment_ok s" using assms L(1,3) by (auto simp: db_wf_def batch_wf_def segments_wf_def)
  moreover have "s_status s \<noteq> ''processed''" using L(4) by (auto simp: eligible_segment_def)
  ultimately have room: "s_processingOffset s < s_itemCount s" by (rule unfinished)
  obtain ps where ps: "read_segment h
      (if b_id (bl_row L) = batchId then lease_in_batch h now owner token (s_ordinal s) L else L) token ?s = Inr ps"
    "ps_canonicalOrdinals ps = drop (s_processingOffset s) [s_firstOrdinal s..<s_firstOrdinal s + s_itemCount s]"
    "length (ps_jobs ps) = s_itemCount s - s_processingOffset s" "ps_manifestHash ps = s_manifestHash s"
    "ps_totalJobCount ps = s_itemCount s" "ps_processingOffset ps = s_processingOffset s" "ps_sourceBatchId ps = batchId"
    by (insert read_segment_reads [OF leased(3,4), of token], unfold same leased(5), elim exE conjE) (rule that)
  have "fst (claimNextAtsV2Segment h now storage mode owner token db) = Inr (Some ps)"
    unfolding claimNextAtsV2Segment_def e es Let_def option.case prod.case leased(1) leased(2) ps(1) using True by simp
  then show ?thesis using ps L(1-3) room by (intro exI [of _ "Some ps"]) auto
next
  case False
  then have "fst (claimNextAtsV2Segment h now storage mode owner token db) = Inr None"
    by (cases storage) (simp_all add: claimNextAtsV2Segment_def del: not_None_eq)
  then show ?thesis by simp
qed

section \<open>Publication keeps to its watermarks\<close>

lemma sum_by_owner:
  assumes "distinct ids" and "\<And>e. e \<in> set es \<Longrightarrow> fst e \<in> set ids"
  shows "(\<Sum>k\<leftarrow>ids. \<Sum>e\<leftarrow>filter (\<lambda>e. fst e = k) es. f e) = (\<Sum>e\<leftarrow>es. (f e :: nat))"
  using assms(2)
proof (induction es)
  case (Cons e es)
  have one: "(\<Sum>k\<leftarrow>ids. if fst e = k then f e else 0) = f e"
  proof -
    have "(\<Sum>k\<leftarrow>ids. if fst e = k then f e else 0) = (\<Sum>k\<leftarrow>ids. f e * (if fst e = k then 1 else 0))"
      by (intro arg_cong [where f = sum_list] map_cong) auto
    also have "\<dots> = f e * (\<Sum>k\<leftarrow>ids. if fst e = k then 1 else 0)" by (simp add: sum_list_const_mult)
    finally show ?thesis using sum_indicator [OF assms(1), of "fst e"] Cons.prems [of e] by simp
  qed
  have "(\<Sum>k\<leftarrow>ids. \<Sum>e'\<leftarrow>filter (\<lambda>e. fst e = k) (e # es). f e')
      = (\<Sum>k\<leftarrow>ids. (if fst e = k then f e else 0) + (\<Sum>e\<leftarrow>filter (\<lambda>e. fst e = k) es. f e))"
    by (intro arg_cong [where f = sum_list] map_cong) auto
  then show ?case using Cons one by (simp add: sum_list_addf)
qed simp

text \<open>The two parts of the backlog, summed segment by segment.\<close>

definition ordinary_jobs :: "ms \<Rightarrow> segment \<Rightarrow> int" where
  "ordinary_jobs now s = (if atsRunnableSegment now s \<and> \<not> in_recovery s then remaining_jobs s else 0)"

definition recovery_jobs :: "ms \<Rightarrow> segment \<Rightarrow> int" where
  "recovery_jobs now s = (if atsRunnableSegment now s \<and> in_recovery s then remaining_jobs s else 0)"

lemma backlog_sums: "atsV2PersistenceCapacityBacklog recoveryCapacity now db =
    sum_list (map (ordinary_jobs now) (all_segments db)) + min (sum_list (map (recovery_jobs now) (all_segments db))) recoveryCapacity"
proof -
  have "sum_list (map remaining_jobs (filter (\<lambda>s. \<not> in_recovery s) (filter (atsRunnableSegment now) ss))) = sum_list (map (ordinary_jobs now) ss)"
    "sum_list (map remaining_jobs (filter in_recovery (filter (atsRunnableSegment now) ss))) = sum_list (map (recovery_jobs now) ss)" for ss
    by (induction ss) (simp_all add: ordinary_jobs_def recovery_jobs_def)
  then show ?thesis unfolding atsV2PersistenceCapacityBacklog_def Let_def by presburger
qed

lemma published_jobs:
  assumes "segment_ok s" and "s_status s = ''sealed''"
  shows "ordinary_jobs now (published_segment now s) = int (s_itemCount s)" and "ordinary_jobs now s = 0"
    and "recovery_jobs now (published_segment now s) = 0" and "recovery_jobs now s = 0"
  using assms
  by (simp_all add: ordinary_jobs_def recovery_jobs_def atsRunnableSegment_def in_recovery_def published_segment_def
      segment_ok_def segment_fresh_def segment_hold_def isAtsEmployerVerificationHold_def remaining_jobs_def due_by_def)

lemma published_backlog:
  assumes "\<forall>s \<in> set ss. segment_ok s \<and> (P s \<longrightarrow> s_status s = ''sealed'')"
  shows "sum_list (map (ordinary_jobs now) (update_where P (published_segment now) ss))
      = sum_list (map (ordinary_jobs now) ss) + int (sum_list (map s_itemCount (filter P ss)))"
    and "sum_list (map (recovery_jobs now) (update_where P (published_segment now) ss)) = sum_list (map (recovery_jobs now) ss)"
  using assms by (induction ss) (auto simp: published_jobs)

lemma select_fits: "int (sum_list (map (\<lambda>e. s_itemCount (snd e)) (select_segments maximum batches units available entries)))
    \<le> max 0 available"
  by (induction maximum batches units available entries rule: select_segments.induct) (auto simp: Let_def)

lemma publish_backlog:
  assumes "db_wf h db"
    and chosen: "chosen = chosen_segments h now recoveryCapacity batchId high low maxSegments db"
  shows "atsV2PersistenceCapacityBacklog recoveryCapacity now (map (publish_batch now chosen) db)
    = atsV2PersistenceCapacityBacklog recoveryCapacity now db + int (sum_list (map (\<lambda>e. s_itemCount (snd e)) chosen))"
proof -
  note sealed = chosen_sealed [OF assms(1) chosen [unfolded chosen_segments_def Let_def]]
  let ?P = "\<lambda>L. publishable (entry_key ` set chosen) (batch_id L)"
  let ?new = "\<lambda>L. bl_segments (publish_batch now chosen L)"
  have part: "sum_list (map (ordinary_jobs now) (?new L)) = sum_list (map (ordinary_jobs now) (bl_segments L))
        + int (\<Sum>e\<leftarrow>filter (\<lambda>e. fst e = batch_id L) chosen. s_itemCount (snd e))"
    "sum_list (map (recovery_jobs now) (?new L)) = sum_list (map (recovery_jobs now) (bl_segments L))"
    if "L \<in> set db" for L
  proof -
    have new: "?new L = update_where (?P L) (published_segment now) (bl_segments L)"
      by (simp add: publish_batch_def batch_id_def Let_def)
    have ok: "\<forall>s \<in> set (bl_segments L). segment_ok s \<and> (?P L s \<longrightarrow> s_status s = ''sealed'')"
      using assms(1) that by (auto simp: db_wf_def batch_wf_def segments_wf_def publishable_def)
    have sum: "(\<Sum>x\<in>#mset xs. s_itemCount x) = sum_list (map s_itemCount xs)" for xs
      by (metis mset_map sum_mset_sum_list)
    have "sum_list (map s_itemCount (filter (?P L) (bl_segments L)))
        = sum_list (map s_itemCount (map snd (filter (\<lambda>e. fst e = batch_id L) chosen)))"
      unfolding sum [symmetric]
      by (rule arg_cong [OF touched_segments [OF assms(1) that sealed], where f = "\<lambda>M. \<Sum>x\<in>#M. s_itemCount x"])
    then have "sum_list (map s_itemCount (filter (?P L) (bl_segments L)))
        = (\<Sum>e\<leftarrow>filter (\<lambda>e. fst e = batch_id L) chosen. s_itemCount (snd e))"
      by (simp only: map_map comp_def)
    with published_backlog [OF ok, of now]
    show "sum_list (map (ordinary_jobs now) (?new L)) = sum_list (map (ordinary_jobs now) (bl_segments L))
        + int (\<Sum>e\<leftarrow>filter (\<lambda>e. fst e = batch_id L) chosen. s_itemCount (snd e))"
      "sum_list (map (recovery_jobs now) (?new L)) = sum_list (map (recovery_jobs now) (bl_segments L))"
      unfolding new by simp_all
  qed
  have total: "sum_list (map f (all_segments db')) = (\<Sum>L\<leftarrow>db'. sum_list (map f (bl_segments L)))"
    for f :: "segment \<Rightarrow> int" and db'
    by (induction db') (simp_all add: all_segments_def)
  have split: "(\<Sum>L\<leftarrow>db. int (g L)) = int (\<Sum>L\<leftarrow>db. g L)" for g :: "batch_ledger \<Rightarrow> nat"
    by (induction db) simp_all
  have "(\<Sum>L\<leftarrow>db. \<Sum>e\<leftarrow>filter (\<lambda>e. fst e = batch_id L) chosen. s_itemCount (snd e)) = (\<Sum>e\<leftarrow>chosen. s_itemCount (snd e))"
  proof -
    have "fst e \<in> set (map batch_id db)" if "e \<in> set chosen" for e using sealed(2) [OF that] by auto
    then show ?thesis
      using sum_by_owner [of "map batch_id db" chosen "\<lambda>e. s_itemCount (snd e)"] assms(1) by (simp add: db_wf_def comp_def)
  qed
  moreover have "(\<Sum>L\<leftarrow>db. sum_list (map (ordinary_jobs now) (?new L)))
      = (\<Sum>L\<leftarrow>db. sum_list (map (ordinary_jobs now) (bl_segments L))
          + int (\<Sum>e\<leftarrow>filter (\<lambda>e. fst e = batch_id L) chosen. s_itemCount (snd e)))"
    "(\<Sum>L\<leftarrow>db. sum_list (map (recovery_jobs now) (?new L))) = (\<Sum>L\<leftarrow>db. sum_list (map (recovery_jobs now) (bl_segments L)))"
    by (intro arg_cong [where f = sum_list] map_cong refl part; assumption)+
  ultimately show ?thesis
    unfolding backlog_sums total map_map comp_def by (simp add: sum_list_addf split)
qed

lemma publish_refused:
  assumes "publishReadyAtsV2Segments h now storage recoveryCapacity batchId high low maxSegments (gate, db) = Inr (r, gate', db')"
    and "\<not> gp_publishAllowed (planAtsV2PublicationGate gate (atsV2PersistenceCapacityBacklog recoveryCapacity now db)
      (atsV2PersistenceCapacityBacklog recoveryCapacity now db) (pa_publicationHigh (atsPersistenceAllocation low high))
      (pa_publicationLow (atsPersistenceAllocation low high)) now)"
  shows "db' = db"
  using assms by (simp add: publishReadyAtsV2Segments_def Let_def split: if_split_asm)


section \<open>The end of a batch\<close>

lemma segments_seen:
  assumes "list_all (\<lambda>(i, s). segment_accounted width n i s) (List.enumerate k ss)"
  shows "sum_list (map segment_seen ss) = sum_list (map s_itemCount ss)"
  using assms by (induction ss arbitrary: k) (auto simp: segment_accounted_def Let_def)

lemma sum_list_js_sort: "sum_list (map f (js_sort c xs)) = sum_list (map (f :: _ \<Rightarrow> nat) xs)"
  by (metis mset_js_sort mset_map sum_mset_sum_list)

lemma finalized_books:
  assumes "batch_wf h L" and "finalizeAtsV2BatchIfReady now L = (True, L')"
  shows "sum_list (map p_responseItemCount (bl_pages L))
    = b_compactedOccurrenceCount (bl_row L) + sum_list (map segment_seen (bl_segments L))"
proof -
  let ?b = "bl_row L"
  note wf = batch_wfD(1,2) [OF assms(1)]
  have ready: "atsV2BatchFinalizationReady (finalization_counts now L)"
    using assms(2) by (auto simp: finalizeAtsV2BatchIfReady_def Let_def split: if_splits)
  have counts: "b_rawObservationCount ?b = b_canonicalOccurrenceCount ?b + b_compactedOccurrenceCount ?b"
    "b_canonicalOccurrenceCount ?b = b_sealedItemCount ?b" "incomplete_pages (b_activeLedgerGeneration ?b) L = 0"
    and segs: "list_all (\<lambda>(i, s). segment_accounted (b_segmentSize ?b) (b_canonicalOccurrenceCount ?b) i s)
      (List.enumerate 0 (js_sort (key_cmp (\<lambda>s. int (s_ordinal s)) num_cmp) (bl_segments L)))"
    using ready unfolding atsV2BatchFinalizationReady_def finalization_counts_def Let_def finalization_snapshot.simps
    by - ((elim conjE, assumption)+)
  have "sum_list (map segment_seen (bl_segments L)) = sum_list (map s_itemCount (bl_segments L))"
    using segments_seen [OF segs] by (simp add: sum_list_js_sort)
  also have "\<dots> = b_sealedItemCount ?b" using wf(2) by (simp add: items_wf_def Let_def)
  finally have "b_compactedOccurrenceCount ?b + sum_list (map segment_seen (bl_segments L)) = b_rawObservationCount ?b"
    using counts by simp
  also have "\<dots> = b_listingOffset ?b"
    using listing_total [OF wf(1)] complete_missing [OF wf(1)] counts(3) by simp
  also have "\<dots> = sum_list (map p_responseItemCount (bl_pages L))"
    using wf(1) tiled_sum [of 0 "map page_range (bl_pages L)" "b_listingOffset ?b"]
    by (simp add: listing_wf_def Let_def comp_def page_range_def)
  finally show ?thesis by simp
qed


lemma finalize_closes:
  assumes "batch_wf h L" and "b_processedAt (bl_row L) = None"
    and "b_processedAt (bl_row (snd (finalizeAtsV2BatchIfReady now L))) \<noteq> None"
  shows "sum_list (map p_responseItemCount (bl_pages (snd (finalizeAtsV2BatchIfReady now L))))
    = b_compactedOccurrenceCount (bl_row (snd (finalizeAtsV2BatchIfReady now L)))
      + sum_list (map segment_seen (bl_segments (snd (finalizeAtsV2BatchIfReady now L))))"
proof -
  obtain closed L' where run: "finalizeAtsV2BatchIfReady now L = (closed, L')" by fastforce
  then have "closed" using assms(2,3) by (auto simp: finalizeAtsV2BatchIfReady_def Let_def split: if_splits)
  with run have "finalizeAtsV2BatchIfReady now L = (True, L')" by simp
  note books = finalized_books [OF assms(1) this]
  have frame: "row_frame L L'" using finalize_frame [of L now] run by simp
  then have "books (bl_row L') = books (bl_row L)" by (simp add: row_frame_def)
  note kept = books_sel(9) [OF this]
  from frame books kept show ?thesis unfolding run snd_conv by (simp add: row_frame_def)
qed

lemma finish_closes:
  assumes "L' = snd (finishAtsV2Claim now c reason failure scope later L)" and "batch_wf h L"
    and "b_processedAt (bl_row L) = None" and "b_processedAt (bl_row L') \<noteq> None"
  shows "\<exists>L1. batch_wf h L1 \<and> b_processedAt (bl_row L1) = None \<and> L' = snd (finalizeAtsV2BatchIfReady now L1)"
proof -
  let ?message = "nonempty_text 1000 failure"
  let ?L1 = "L\<lparr>bl_receipts := update_where (fenced_receipt c)
      (\<lambda>w. w\<lparr>w_finishedAt := Some now, w_heartbeatAt := Some now, w_leaseExpiresAt := None, w_yieldReason := Some reason,
         w_failureScope := (if truthy scope then scope else None), w_error := ?message\<rparr>) (bl_receipts L)\<rparr>"
  let ?L2 = "?L1\<lparr>bl_row := released now (case later of None \<Rightarrow> Some now | Some t \<Rightarrow> t) ?message c (bl_row ?L1)\<rparr>"
  have run: "snd (finishAtsV2Claim now c reason failure scope later L) = (if count_where (fenced_receipt c) (bl_receipts L) \<noteq> 1
      then ?L1 else if \<not> fenced_batch c (bl_row ?L1) then ?L2 else snd (finalizeAtsV2BatchIfReady now ?L2))"
    unfolding finishAtsV2Claim_def Let_def by simp
  have rows: "b_processedAt (bl_row ?L1) = None" "b_processedAt (bl_row ?L2) = None"
    using assms(3) by (simp_all add: released_def)
  then have "L' = snd (finalizeAtsV2BatchIfReady now ?L2)"
    using assms(4) unfolding assms(1) run by (auto split: if_split_asm)
  moreover have "batch_wf h ?L2" by (rule row_frame_wf [OF _ assms(2)]) (simp add: row_frame_def)
  ultimately show ?thesis using rows(2) by blast
qed

text \<open>The three operations that can close a batch.\<close>

lemma closing_books:
  assumes "batch_wf h L"
    and "completeAtsV2SegmentProcessing now ordinal token t L = Inr (r, L')
      \<or> L' = snd (finishAtsV2Claim now c reason failure scope later L) \<or> L' = snd (reconcile_batch now L)"
    and "b_processedAt (bl_row L) = None" and "b_processedAt (bl_row L') \<noteq> None"
  shows "sum_list (map p_responseItemCount (bl_pages L')) = b_compactedOccurrenceCount (bl_row L') + sum_list (map segment_seen (bl_segments L'))"
proof -
  have "\<exists>L1. batch_wf h L1 \<and> b_processedAt (bl_row L1) = None \<and> L' = snd (finalizeAtsV2BatchIfReady now L1)"
    using assms(2)
  proof (elim disjE)
    assume run: "completeAtsV2SegmentProcessing now ordinal token t L = Inr (r, L')"
    then show ?thesis
    proof (cases rule: complete_cases)
      case lost
      with assms(3,4) show ?thesis by simp
    next
      case (live s same)
      let ?L1 = "L\<lparr>bl_segments := update_where same (advanced_segment now t) (bl_segments L)\<rparr>"
      have "L' \<noteq> L\<lparr>bl_segments := ss\<rparr>" for ss using assms(3,4) by auto
      then have "L' = snd (finalizeAtsV2BatchIfReady now ?L1)" using live(8) unfolding Let_def by blast
      moreover have "batch_wf h ?L1" by (rule segment_frame_wf [OF report_frames(2) [OF assms(1) live(1,2,4,5)] assms(1)])
      moreover have "b_processedAt (bl_row ?L1) = None" using assms(3) by simp
      ultimately show ?thesis by blast
    qed
  next
    assume "L' = snd (finishAtsV2Claim now c reason failure scope later L)"
    then show ?thesis using assms(1,3,4) by (rule finish_closes)
  next
    assume L': "L' = snd (reconcile_batch now L)"
    have "b_processedAt (bl_row (released_work now L)) = None"
      using assms(3) by (simp add: released_work_def reclaimed_row_def)
    then show ?thesis using L' assms(4) released_work_wf [OF assms(1)] by (auto simp: reconcile_batch_def split: if_splits)
  qed
  then show ?thesis using finalize_closes assms(4) by blast
qed

end
