(* ===== verification/Ledger_Properties.thy ===== *)
theory Ledger_Properties
  imports Ledger_Evidence
begin

text \<open>
  The properties of the acquisition ledger, over every ledger that any interleaving of workers can reach,
  each with a witness on one concrete run: a board with one posting, from its admission to the end of
  its batch.
\<close>

section \<open>A run\<close>

definition run_host :: host where
  "run_host = \<lparr>h_sha = (\<lambda>s. ''d''), h_num = (\<lambda>n. ''0''), h_collate = code_unit_cmp, h_env = (\<lambda>v. None),
     h_wall = (\<lambda>t. t), h_text = (\<lambda>t. ''t'')\<rparr>"

definition sample_input :: page_input where
  "sample_input = \<lparr>pi_requestedOffset = 0, pi_requestedLimit = 100, pi_providerOffset = None, pi_providerTotal = Some 1,
     pi_jobs = [[(''id'', JStr ''7'')]], pi_metadata = [], pi_requestedAt = 1, pi_respondedAt = 2, pi_httpStatus = 200,
     pi_listingComplete = True\<rparr>"

definition sample_marker :: enrichment_marker where
  "sample_marker = \<lparr>em_status = ''not_needed'', em_platform = ''lever'', em_attempted = False, em_reason = None,
     em_error = None, em_overlay = JObj []\<rparr>"

definition sample_report :: turn_report where
  "sample_report = \<lparr>tr_counters = \<lparr>tc_inserted = 1, tc_duplicates = 0, tc_filtered = 0, tc_processingErrors = 0\<rparr>,
     tr_interrupted = False, tr_retryAt = None, tr_retryReason = None, tr_fatalError = None, tr_error = None\<rparr>"

definition sample_gate :: publication_gate where
  "sample_gate = \<lparr>pg_paused = False, pg_pausedAt = None, pg_backlogJobs = 0\<rparr>"

definition perform :: "('s \<Rightarrow> 'e + 'r \<times> 's) \<Rightarrow> 's \<Rightarrow> 's" where
  "perform f L = after L (f L)"

definition sample_admitted :: batch_ledger where
  "sample_admitted = admitted_ledger run_host 0 sample_admission sample_company"

definition sample_listed :: batch_ledger where
  "sample_listed = perform (commitAtsV2ListingPage run_host 5 (admitted_claim sample_admission) sample_input) sample_admitted"

definition sample_resolved :: batch_ledger where
  "sample_resolved = perform (resolveNextAtsV2ObservationChunk run_host 6 (\<lambda>u p. None) []
     (admitted_claim sample_admission) None False) sample_listed"

definition sample_terminal :: batch_ledger where
  "sample_terminal = perform (terminalizeAtsV2NoNetworkItems run_host 7 (\<lambda>p s j. Some sample_marker)
     (admitted_claim sample_admission) None False) sample_resolved"

definition sample_sealed :: batch_ledger where
  "sample_sealed = perform (sealReadyAtsV2Segments run_host 8 (admitted_claim sample_admission) False) sample_terminal"

definition sample_free :: batch_ledger where
  "sample_free = snd (finishAtsV2Claim 9 (admitted_claim sample_admission) ''segments_sealed'' None None None sample_sealed)"

definition sample_publication :: "ledger_error + publication_result \<times> publication_gate \<times> ledger_db" where
  "sample_publication = publishReadyAtsV2Segments run_host 10 True 100 None 2000 1000 None (sample_gate, [sample_free])"

definition sample_published :: ledger_db where
  "sample_published = (case sample_publication of Inl e \<Rightarrow> [] | Inr (r, gate, db) \<Rightarrow> db)"

definition sample_leased :: ledger_db where
  "sample_leased = snd (claimNextAtsV2Segment run_host 11 True Prefer ''o'' ''lease'' sample_published)"

definition sample_closed :: batch_ledger where
  "sample_closed = perform (completeAtsV2SegmentProcessing 12 0 ''lease'' sample_report) (hd sample_leased)"


lemma performed: "M = perform f L \<Longrightarrow> \<not> isl (f L) \<Longrightarrow> \<exists>r. f L = Inr (r, M)"
  by (cases "f L") (auto simp: perform_def)

lemma reachable_step: "reachable h db \<Longrightarrow> ledger_step h db db' \<Longrightarrow> reachable h db'"
  unfolding reachable_def by (rule ledger_run.Go)

lemma reachable_batch_step: "reachable h [L] \<Longrightarrow> batch_step h L L' \<Longrightarrow> reachable h [L']"
  using reachable_step On_batch [of h L L' "[]" "[]"] by simp

lemma reachable_run: "ledger_run h db db' \<Longrightarrow> reachable h db \<Longrightarrow> reachable h db'"
  by (induction rule: ledger_run.induct) (auto intro: reachable_step)

lemma admitted_reachable: "reachable run_host [sample_admitted]"
  using Admit [of sample_admission "[]" run_host 0 sample_company] reachable_step [of run_host "[]"] ledger_run.Stay
  by (auto simp: reachable_def sample_admitted_def)

lemma listed_reachable: "reachable run_host [sample_listed]"
proof (rule reachable_batch_step [OF admitted_reachable])
  have claim: "claim_for (admitted_claim sample_admission) sample_admitted" by code_simp
  have free: "pending_page (b_activeLedgerGeneration (bl_row sample_admitted)) sample_admitted = None" by code_simp
  have "\<not> isl (commitAtsV2ListingPage run_host 5 (admitted_claim sample_admission) sample_input sample_admitted)" by code_simp
  from performed [OF sample_listed_def this] show "batch_step run_host sample_admitted sample_listed"
    using Commit [OF claim free] by blast
qed

lemma resolved_reachable: "reachable run_host [sample_resolved]"
proof (rule reachable_batch_step [OF listed_reachable])
  have "\<not> isl (resolveNextAtsV2ObservationChunk run_host 6 (\<lambda>u p. None) [] (admitted_claim sample_admission) None False sample_listed)"
    by code_simp
  from performed [OF sample_resolved_def this] show "batch_step run_host sample_listed sample_resolved"
    using Resolve by blast
qed

lemma resolved_to_sealed: "ledger_run run_host [sample_resolved] [sample_sealed]"
proof -
  have "\<not> isl (terminalizeAtsV2NoNetworkItems run_host 7 (\<lambda>p s j. Some sample_marker) (admitted_claim sample_admission)
    None False sample_resolved)" by code_simp
  from performed [OF sample_terminal_def this] have "batch_step run_host sample_resolved sample_terminal"
    using Terminalize by blast
  then have one: "ledger_step run_host [sample_resolved] [sample_terminal]"
    using On_batch [of run_host _ _ "[]" "[]"] by simp
  have time: "sealing_time (bl_row sample_terminal)" by code_simp
  have "\<not> isl (sealReadyAtsV2Segments run_host 8 (admitted_claim sample_admission) False sample_terminal)" by code_simp
  from performed [OF sample_sealed_def this] have "batch_step run_host sample_terminal sample_sealed"
    using Seal [OF time] by blast
  then have "ledger_step run_host [sample_terminal] [sample_sealed]"
    using On_batch [of run_host _ _ "[]" "[]"] by simp
  with one show ?thesis by (meson ledger_run.intros)
qed

lemma free_reachable: "reachable run_host [sample_free]"
  unfolding sample_free_def
  by (rule reachable_batch_step [OF reachable_run [OF resolved_to_sealed resolved_reachable] Finish])

lemma sample_publication_result: "\<exists>r gate. sample_publication = Inr (r, gate, sample_published)"
proof -
  have "\<not> isl sample_publication" by code_simp
  then obtain x where x: "sample_publication = Inr x" by (metis sum.collapse(2))
  obtain r gate db where r: "x = (r, gate, db)" by (metis surj_pair)
  have "sample_published = db" unfolding sample_published_def x r by simp
  then show ?thesis unfolding x r by blast
qed

lemma published_reachable: "reachable run_host sample_published"
proof -
  obtain r gate where "sample_publication = Inr (r, gate, sample_published)" using sample_publication_result by blast
  then show ?thesis
    using reachable_step [OF free_reachable Publish] unfolding sample_publication_def by blast
qed

lemma leased_reachable: "reachable run_host sample_leased"
  unfolding sample_leased_def by (rule reachable_step [OF published_reachable Claim_segment])

section \<open>Properties\<close>

text \<open>C2. Every posting a board listed is accounted for exactly once. Once the compaction of a batch is
  over, whatever chunks, pages, retries and workers it took, the resolutions and the observations are
  the same postings without repetition, and the postings of all answers of the board are its items and the
  exact duplicates that were left out.\<close>

theorem every_posting_resolved_once:
  assumes "reachable h db" and "L \<in> set db" and "resolved_phase (b_acquisitionPhase (bl_row L))"
  shows "distinct (map o_key (bl_observations L))
    \<and> mset (map r_observation (bl_resolutions L)) = mset (map o_key (bl_observations L))
    \<and> b_listingOffset (bl_row L) = length (bl_items L) + count_where (\<lambda>r. r_item r = None) (bl_resolutions L)"
proof -
  have wf: "batch_wf h L" by (rule reachable_batch [OF assms(1,2)])
  note parts = batch_wfD [OF wf]
  note sums = phase_wfD(3) [OF parts(4) assms(3)]
  have "b_acquisitionPhase (bl_row L) \<noteq> ''listing''" using assms(3) by (auto simp: resolved_phase_def)
  then have "missing L = 0" by (rule phase_wfD(2) [OF parts(4)])
  then have "b_listingOffset (bl_row L) = length (bl_items L) + count_where (\<lambda>r. r_item r = None) (bl_resolutions L)"
    using listing_total [OF parts(1)] sums parts(2) by (simp add: items_wf_def Let_def)
  with observation_keys_distinct [OF parts(1)] all_resolved [OF wf sums] show ?thesis by blast
qed

theorem every_posting_resolved_once_witness:
  "length (bl_observations sample_resolved) = 1
    \<and> mset (map r_observation (bl_resolutions sample_resolved)) = mset (map o_key (bl_observations sample_resolved))"
proof -
  have "resolved_phase (b_acquisitionPhase (bl_row sample_resolved))" by code_simp
  moreover have "length (bl_observations sample_resolved) = 1" by code_simp
  ultimately show ?thesis using every_posting_resolved_once [OF resolved_reachable, of sample_resolved] by simp
qed

text \<open>C5. The evidence is immutable until it is disposed of. From any reachable ledger, whatever the workers do
  next, a batch is still there with its observations and resolutions in their order, new ones only
  added at the end; an item that was terminal is unchanged, and so are the range, the size and the manifest
  of every sealed segment. The only exception is the retention worker: it takes a batch away that had
  kept all of this until then, a day after it was processed, when nobody holds it, its segments are
  processed to their end and a later crawl of its board was processed.\<close>

theorem evidence_is_immutable:
  assumes "reachable h db" and "ledger_run h db db'" and "L \<in> set db"
  shows "(\<exists>L' \<in> set db'. batch_id L' = batch_id L
      \<and> prefix (bl_observations L) (bl_observations L') \<and> prefix (bl_resolutions L) (bl_resolutions L')
      \<and> set (filter is_terminal (bl_items L)) \<subseteq> set (bl_items L')
      \<and> prefix (map manifest_of (bl_segments L)) (map manifest_of (bl_segments L')))
    \<or> (\<exists>now xs M ys. ledger_run h db (xs @ M # ys) \<and> batch_id M = batch_id L
      \<and> prefix (bl_observations L) (bl_observations M) \<and> prefix (bl_resolutions L) (bl_resolutions M)
      \<and> set (filter is_terminal (bl_items L)) \<subseteq> set (bl_items M)
      \<and> prefix (map manifest_of (bl_segments L)) (map manifest_of (bl_segments M))
      \<and> disposable now M ys \<and> ledger_run h (xs @ ys) db')"
  using ledger_run_wf [OF assms(2) reachable_wf [OF assms(1)]] assms(3)
  unfolding disposed_on_the_way_def preserves_def by (auto 4 3)

theorem evidence_is_immutable_witness:
  "length (bl_observations sample_resolved) = 1
    \<and> (prefix (bl_observations sample_resolved) (bl_observations sample_sealed)
        \<and> prefix (bl_resolutions sample_resolved) (bl_resolutions sample_sealed)
      \<or> (\<exists>now xs M ys. ledger_run run_host [sample_resolved] (xs @ M # ys) \<and> disposable now M ys))"
proof -
  have "length (bl_observations sample_resolved) = 1" by code_simp
  moreover note evidence_is_immutable [OF resolved_reachable resolved_to_sealed, of sample_resolved]
  ultimately show ?thesis by (simp only: list.set insert_iff simp_thms empty_iff bex_simps) blast
qed

text \<open>C4. A published segment never fails its check. In every reachable ledger a claim returns, without
  the manifest or raw-evidence errors the code guards against: either no segment is due, or one with
  postings left, whose postings are exactly the sealed ordinals after the cursor and whose manifest is the
  one it was sealed with.\<close>

theorem claimed_segment_verifies:
  assumes "reachable h db"
  shows "\<exists>p. fst (claimNextAtsV2Segment h now storage mode owner token db) = Inr p
    \<and> (\<forall>ps. p = Some ps \<longrightarrow> ps_processingOffset ps < ps_totalJobCount ps
        \<and> length (ps_jobs ps) = ps_totalJobCount ps - ps_processingOffset ps
        \<and> (\<exists>L \<in> set db. \<exists>s \<in> set (bl_segments L). ps_sourceBatchId ps = batch_id L \<and> ps_manifestHash ps = s_manifestHash s
            \<and> ps_canonicalOrdinals ps = [s_firstOrdinal s + s_processingOffset s..<s_firstOrdinal s + s_itemCount s]))"
  by (rule claim_reads [OF reachable_wf [OF assms]])

theorem claimed_segment_verifies_witness:
  "\<exists>ps. fst (claimNextAtsV2Segment run_host 11 True Prefer ''o'' ''lease'' sample_published) = Inr (Some ps)
    \<and> length (ps_jobs ps) = ps_totalJobCount ps - ps_processingOffset ps"
proof -
  have "(case fst (claimNextAtsV2Segment run_host 11 True Prefer ''o'' ''lease'' sample_published) of
      Inr (Some ps) \<Rightarrow> True | _ \<Rightarrow> False)" by code_simp
  with claimed_segment_verifies [OF published_reachable, of 11 True Prefer "''o''" "''lease''"] show ?thesis
    by (auto split: sum.splits option.splits)
qed

text \<open>C6. Publication keeps to its watermarks and its books. In every reachable ledger the backlog the
  publisher reports is the one the next reader computes; it is never above both its old value and the
  high watermark of the allocation; and a gate that was paused stays shut until the backlog is down to
  the low watermark.\<close>

theorem publication_keeps_watermarks:
  assumes "reachable h db"
    and "publishReadyAtsV2Segments h now True recoveryCapacity batchId high low maxSegments (gate, db) = Inr (r, gate', db')"
  shows "atsV2PersistenceCapacityBacklog recoveryCapacity now db' = pr_remainingJobs r
    \<and> pr_remainingJobs r \<le> max (atsV2PersistenceCapacityBacklog recoveryCapacity now db)
        (pa_publicationHigh (atsPersistenceAllocation low high))
    \<and> (pg_paused gate \<and> pa_publicationLow (atsPersistenceAllocation low high)
          < atsV2PersistenceCapacityBacklog recoveryCapacity now db \<longrightarrow> db' = db)"
proof -
  have shut: "db' = db" if "pg_paused gate"
    "pa_publicationLow (atsPersistenceAllocation low high) < atsV2PersistenceCapacityBacklog recoveryCapacity now db"
    using publish_refused [OF assms(2)] that by (simp add: planAtsV2PublicationGate_def Let_def)
  from assms(2) show ?thesis
  proof (cases rule: publish_cases)
    case idle
    then show ?thesis using shut by simp
  next
    case published
    let ?chosen = "chosen_segments h now recoveryCapacity batchId high low maxSegments db"
    have "int (sum_list (map (\<lambda>e. s_itemCount (snd e)) ?chosen)) \<le> max 0 (pa_publicationHigh (atsPersistenceAllocation low high)
        - atsV2PersistenceCapacityBacklog recoveryCapacity now db)"
      unfolding chosen_segments_def Let_def selectAtsPublicationSegments_def by (rule select_fits)
    moreover have "atsV2PersistenceCapacityBacklog recoveryCapacity now db' = pr_remainingJobs r"
      using publish_backlog [OF reachable_wf [OF assms(1)] refl] published by simp
    ultimately show ?thesis using published(3) shut by auto
  qed
qed

theorem publication_keeps_watermarks_witness:
  "atsV2PersistenceCapacityBacklog 100 10 sample_published = 1 \<and> atsV2PersistenceCapacityBacklog 100 10 [sample_free] = 0
    \<and> (case sample_publication of Inl e \<Rightarrow> False | Inr (r, gate, db) \<Rightarrow> atsV2PersistenceCapacityBacklog 100 10 db = pr_remainingJobs r)"
proof -
  obtain r gate where "sample_publication = Inr (r, gate, sample_published)" using sample_publication_result by blast
  then have "case sample_publication of Inl e \<Rightarrow> False | Inr (r, gate, db) \<Rightarrow> atsV2PersistenceCapacityBacklog 100 10 db = pr_remainingJobs r"
    using publication_keeps_watermarks [OF free_reachable, of 10 100 None 2000 1000 None sample_gate]
    unfolding sample_publication_def by simp
  moreover have "atsV2PersistenceCapacityBacklog 100 10 sample_published = 1" by code_simp
  moreover have "atsV2PersistenceCapacityBacklog 100 10 [sample_free] = 0" by code_simp
  ultimately show ?thesis by blast
qed

text \<open>C7. The books of the segments balance. In every reachable ledger the four outcome counters of a segment
  add up to its cursor, the cursor is within the segment, the segment is processed exactly when the cursor
  is at its end, it is leased exactly while it is processing, and the batch has counted the postings of
  exactly the segments it published.\<close>

theorem segment_books_balance:
  assumes "reachable h db" and "L \<in> set db"
  shows "(\<forall>s \<in> set (bl_segments L). s_inserted s + s_duplicates s + s_filtered s + s_processingErrors s = s_processingOffset s
      \<and> s_processingOffset s \<le> s_itemCount s \<and> (s_status s = ''processed'' \<longleftrightarrow> s_processingOffset s = s_itemCount s)
      \<and> (s_leaseToken s \<noteq> None \<longleftrightarrow> s_status s = ''processing''))
    \<and> b_publishedItemCount (bl_row L) = sum_list (map s_itemCount (filter published (bl_segments L)))"
  using batch_wfD(5) [OF reachable_batch [OF assms]]
  unfolding segments_wf_def segment_ok_def segment_seen_def by blast

theorem segment_books_balance_witness:
  "b_publishedItemCount (bl_row (hd sample_leased)) = sum_list (map s_itemCount (filter published (bl_segments (hd sample_leased))))
    \<and> b_publishedItemCount (bl_row (hd sample_leased)) = 1"
proof -
  have "sample_leased \<noteq> []" by code_simp
  then have "hd sample_leased \<in> set sample_leased" by simp
  moreover have "b_publishedItemCount (bl_row (hd sample_leased)) = 1" by code_simp
  ultimately show ?thesis using segment_books_balance [OF leased_reachable, of "hd sample_leased"] by blast
qed

text \<open>C3. A batch is only closed when nothing is lost. The three operations that can close a batch of a
  reachable ledger are the report of a turn, the end of a claim and the reconciliation of expired
  work; when one of them does, the postings of all answers of its board are the compacted duplicates
  together with the postings its segments inserted, found to be duplicates, filtered or failed.\<close>

theorem closed_batch_lost_nothing:
  assumes "reachable h db" and "L \<in> set db"
    and "completeAtsV2SegmentProcessing now ordinal token t L = Inr (r, L')
      \<or> L' = snd (finishAtsV2Claim now c reason failure scope later L) \<or> L' = snd (reconcile_batch now L)"
    and "b_processedAt (bl_row L) = None" and "b_processedAt (bl_row L') \<noteq> None"
  shows "sum_list (map p_responseItemCount (bl_pages L')) = b_compactedOccurrenceCount (bl_row L')
    + sum_list (map (\<lambda>s. s_inserted s + s_duplicates s + s_filtered s + s_processingErrors s) (bl_segments L'))"
  using closing_books [OF reachable_batch [OF assms(1,2)] assms(3-5)] by (simp add: segment_seen_def [abs_def])

theorem closed_batch_lost_nothing_witness:
  "sum_list (map p_responseItemCount (bl_pages sample_closed)) = 1 \<and> b_status (bl_row sample_closed) = ''processed''
    \<and> sum_list (map p_responseItemCount (bl_pages sample_closed)) = b_compactedOccurrenceCount (bl_row sample_closed)
      + sum_list (map (\<lambda>s. s_inserted s + s_duplicates s + s_filtered s + s_processingErrors s) (bl_segments sample_closed))"
proof -
  have "\<not> isl (completeAtsV2SegmentProcessing 12 0 ''lease'' sample_report (hd sample_leased))" by code_simp
  from performed [OF sample_closed_def this] obtain r where
    step: "completeAtsV2SegmentProcessing 12 0 ''lease'' sample_report (hd sample_leased) = Inr (r, sample_closed)"
    by blast
  have "sample_leased \<noteq> []" "b_processedAt (bl_row (hd sample_leased)) = None" "b_processedAt (bl_row sample_closed) = Some 12"
    by code_simp+
  with closed_batch_lost_nothing [OF leased_reachable _ disjI1 [OF step]]
  have "sum_list (map p_responseItemCount (bl_pages sample_closed)) = b_compactedOccurrenceCount (bl_row sample_closed)
      + sum_list (map (\<lambda>s. s_inserted s + s_duplicates s + s_filtered s + s_processingErrors s) (bl_segments sample_closed))"
    by simp
  moreover have "sum_list (map p_responseItemCount (bl_pages sample_closed)) = 1" "b_status (bl_row sample_closed) = ''processed''"
    by code_simp+
  ultimately show ?thesis by blast
qed

end
