(* ===== verification/Ledger_Queue.thy ===== *)
theory Ledger_Queue
  imports Ledger_Properties
begin

text \<open>
  What work a worker takes next: the pressure of staged postings (\<open>src/lib/atsAcquisitionPressure.ts\<close>,
  \<open>atsV2StagingSnapshot\<close>), the cap on listing producers (\<open>src/lib/atsContinuationCapacity.ts\<close>,
  \<open>src/lib/atsAdmissionCapacity.ts\<close>), the choice of a batch to continue (\<open>claimNextAtsV2Continuation\<close> of
  \<open>src/lib/atsAcquisitionLedger.ts\<close>, \<open>src/lib/atsRotationCohort.ts\<close>) and the allowance of recovery work
  among the segment claims (\<open>createAtsEmployerRetryClaimer\<close> of \<open>src/lib/atsEmployerRetry.ts\<close>).

  Batches are listed in the order of their creation, and the sort is stable, so the last key
  \<open>createdAt\<close> of an order is the position. A worker chooses a batch and claims it in two statements: the
  argument \<open>others\<close> is what the other workers do to the ledger in between, for the first and the second
  attempt. \<open>fresh\<close> gives the token and the receipt identifier of an attempt.
\<close>

section \<open>Staging pressure\<close>

definition ATS_LEDGER_STAGING_ITEM_HIGH_WATERMARK :: "host \<Rightarrow> int" where
  "ATS_LEDGER_STAGING_ITEM_HIGH_WATERMARK h =
     boundedEnvironmentInteger (h_env h ''ATS_LEDGER_STAGING_ITEM_HIGH_WATERMARK'') 100000 1000 10000000"

definition ATS_LEDGER_STAGING_BYTE_HIGH_WATERMARK :: "host \<Rightarrow> int" where
  "ATS_LEDGER_STAGING_BYTE_HIGH_WATERMARK h =
     boundedEnvironmentInteger (h_env h ''ATS_LEDGER_STAGING_BYTE_HIGH_WATERMARK'') 1500000000 10000000 20000000000"

definition ATS_V2_MAX_UNFINISHED_LISTINGS :: "host \<Rightarrow> int" where
  "ATS_V2_MAX_UNFINISHED_LISTINGS h = boundedEnvironmentInteger (h_env h ''ATS_V2_MAX_UNFINISHED_LISTINGS'') 32 8 256"

record staging_counts =
  sc_items :: int
  sc_bytes :: int
  sc_unfinishedListings :: int
  sc_cohortUnfinishedListings :: "int option"

record pressure =
  ap_counts :: staging_counts
  ap_cohortUnfinishedListings :: int
  ap_cohortAdmissionAllowed :: bool
  ap_blocked :: bool
  ap_admissionBlocked :: bool
  ap_admissionReason :: string
  ap_itemAdmissionLimit :: int
  ap_byteAdmissionLimit :: int
  ap_unfinishedListingLimit :: int

definition evaluateAtsAcquisitionPressure :: "host \<Rightarrow> staging_counts \<Rightarrow> pressure" where
  "evaluateAtsAcquisitionPressure h k =
     (let itemAdmissionLimit = ATS_LEDGER_STAGING_ITEM_HIGH_WATERMARK h div 2;
          byteAdmissionLimit = ATS_LEDGER_STAGING_BYTE_HIGH_WATERMARK h div 2;
          blocked = (ATS_LEDGER_STAGING_ITEM_HIGH_WATERMARK h \<le> sc_items k
            \<or> ATS_LEDGER_STAGING_BYTE_HIGH_WATERMARK h \<le> sc_bytes k);
          admissionReason = (if blocked then ''capacity''
            else if itemAdmissionLimit \<le> sc_items k \<or> byteAdmissionLimit \<le> sc_bytes k then ''staging''
            else if ATS_V2_MAX_UNFINISHED_LISTINGS h \<le> sc_unfinishedListings k then ''unfinished_listings''
            else ''open'');
          cohort = (case sc_cohortUnfinishedListings k of Some n \<Rightarrow> n | None \<Rightarrow> sc_unfinishedListings k)
      in \<lparr>ap_counts = k, ap_cohortUnfinishedListings = cohort,
          ap_cohortAdmissionAllowed = (\<not> blocked \<and> sc_items k < itemAdmissionLimit \<and> sc_bytes k < byteAdmissionLimit
            \<and> cohort < ATS_V2_MAX_UNFINISHED_LISTINGS h),
          ap_blocked = blocked, ap_admissionBlocked = (admissionReason \<noteq> ''open''), ap_admissionReason = admissionReason,
          ap_itemAdmissionLimit = itemAdmissionLimit, ap_byteAdmissionLimit = byteAdmissionLimit,
          ap_unfinishedListingLimit = ATS_V2_MAX_UNFINISHED_LISTINGS h\<rparr>)"

text \<open>A listing reserves a slot of the allowance while it is served, and between its turns while it is due
  and has not failed.\<close>

definition atsListingAdmissionReservation :: "ms \<Rightarrow> batch_row \<Rightarrow> bool" where
  "atsListingAdmissionReservation now b \<longleftrightarrow> b_acquisitionPhase b = ''listing''
     \<and> (0 < b_rawObservationCount b \<and> b_lastError b = None \<and> (b_nextAcquireAt b = None \<or> due_by now (b_nextAcquireAt b))
        \<or> b_claimToken b \<noteq> None \<and> later_than now (b_claimExpiresAt b))"

text \<open>The cohort of a rotation day as a filter of the database and as SQL.\<close>

definition atsRotationCohortWhere :: "int \<Rightarrow> 'a board_scheme \<Rightarrow> bool" where
  "atsRotationCohortWhere day b \<longleftrightarrow>
     (case apiRotationCheckDays day of Inl e \<Rightarrow> False | Inr days \<Rightarrow> bd_checkDay b \<in> set days) \<or> isDailyAtsBoard b"

definition atsRotationCohortSql :: "int \<Rightarrow> 'a board_scheme \<Rightarrow> bool" where
  "atsRotationCohortSql day b \<longleftrightarrow> bd_checkDay b mod ATS_API_ROTATION_DAYS = day \<or> isDailyAtsBoard b"

definition staged_batch :: "batch_row \<Rightarrow> bool" where
  "staged_batch b \<longleftrightarrow> b_writerMode b = ''v2'' \<and> b_platform b \<notin> set NON_API_ATS_PLATFORMS
     \<and> b_status b \<in> {''fetching'', ''partial'', ''synchronized''}"

definition today_cohort :: "host \<Rightarrow> ms \<Rightarrow> batch_ledger \<Rightarrow> bool" where
  "today_cohort h now L \<longleftrightarrow> co_status (bl_board L) = ''active''
     \<and> atsRotationCohortSql (apiRotationDayFor (h_wall h) now) (ledger_board L)"

definition staging_counts_of :: "host \<Rightarrow> ms \<Rightarrow> ledger_db \<Rightarrow> staging_counts" where
  "staging_counts_of h now db =
     (let staged = filter (\<lambda>L. staged_batch (bl_row L)) db;
          reserved = filter (\<lambda>L. atsListingAdmissionReservation now (bl_row L)) staged
      in \<lparr>sc_items = sum_list (map (\<lambda>L. max 0 (int (b_rawObservationCount (bl_row L))
              - int (b_compactedOccurrenceCount (bl_row L)) - int (b_publishedItemCount (bl_row L)))) staged),
          sc_bytes = sum_list (map (\<lambda>L. int (b_acquisitionBytes (bl_row L))) staged),
          sc_unfinishedListings = int (length reserved),
          sc_cohortUnfinishedListings = Some (int (length (filter (today_cohort h now) reserved)))\<rparr>)"

definition atsV2StagingSnapshot :: "host \<Rightarrow> ms \<Rightarrow> ledger_db \<Rightarrow> pressure" where
  "atsV2StagingSnapshot h now db = evaluateAtsAcquisitionPressure h (staging_counts_of h now db)"

section \<open>The cap on listing producers\<close>

definition ATS_V2_DRAIN_PHASES :: "string list" where
  "ATS_V2_DRAIN_PHASES = [''compaction'', ''enrichment'', ''sealing'']"

definition ATS_V2_ACQUISITION_PHASES :: "string list" where
  "ATS_V2_ACQUISITION_PHASES = ''listing'' # ATS_V2_DRAIN_PHASES"

definition ATS_PRESSURE_LISTING_CONCURRENCY :: int where "ATS_PRESSURE_LISTING_CONCURRENCY = 1"
definition ATS_COHORT_PRESSURE_LISTING_CONCURRENCY :: int where "ATS_COHORT_PRESSURE_LISTING_CONCURRENCY = 2"

definition in_acquisition :: "batch_row \<Rightarrow> bool" where
  "in_acquisition b \<longleftrightarrow> b_writerMode b = ''v2'' \<and> b_platform b \<notin> set NON_API_ATS_PLATFORMS
     \<and> b_status b \<in> {''fetching'', ''partial'', ''synchronized'', ''reset_draining''}"

definition drain_work :: "batch_row \<Rightarrow> bool" where
  "drain_work b \<longleftrightarrow> in_acquisition b \<and> b_acquisitionPhase b \<in> set ATS_V2_DRAIN_PHASES"

definition live_listing :: "ms \<Rightarrow> batch_row \<Rightarrow> bool" where
  "live_listing now b \<longleftrightarrow> in_acquisition b \<and> b_acquisitionPhase b = ''listing'' \<and> b_claimToken b \<noteq> None
     \<and> later_than now (b_claimExpiresAt b)"

text \<open>The claim runs in the transaction that counts; \<open>view\<close> is the ledger in its state.\<close>

definition withAtsListingCapacity ::
  "('s \<Rightarrow> ledger_db) \<Rightarrow> ms \<Rightarrow> int \<Rightarrow> ('s \<Rightarrow> 'c option \<times> 's) \<Rightarrow> 's \<Rightarrow> 'c option \<times> 's" where
  "withAtsListingCapacity view now maximumListingClaims claim st =
     (if \<not> (\<exists>L \<in> set (view st). drain_work (bl_row L)) then claim st
      else if max 1 maximumListingClaims \<le> int (count_where (\<lambda>L. live_listing now (bl_row L)) (view st)) then (None, st)
      else claim st)"

section \<open>The choice of a batch to continue\<close>

definition ATS_V2_LISTING_STARVATION_MS :: "host \<Rightarrow> ms" where
  "ATS_V2_LISTING_STARVATION_MS h =
     boundedEnvironmentInteger (h_env h ''ATS_V2_LISTING_STARVATION_MS'') (10 * 60000) 60000 (60 * 60000)"

definition ATS_V2_LISTING_STARVATION_SERVE_MS :: "host \<Rightarrow> ms" where
  "ATS_V2_LISTING_STARVATION_SERVE_MS h = max 30000 (ATS_V2_LISTING_STARVATION_MS h div 10)"

definition eligible_batch :: "ms \<Rightarrow> batch_row \<Rightarrow> bool" where
  "eligible_batch now b \<longleftrightarrow> in_acquisition b \<and> b_acquisitionPhase b \<in> set ATS_V2_ACQUISITION_PHASES
     \<and> (b_nextAcquireAt b = None \<or> due_by now (b_nextAcquireAt b))
     \<and> (b_claimToken b = None \<or> due_by now (b_claimExpiresAt b))"

definition continuation_order :: "batch_ledger cmp" where
  "continuation_order = then_cmp (key_cmp (\<lambda>L. b_lastServedAt (bl_row L)) nulls_first_cmp)
     (key_cmp (\<lambda>L. b_nextAcquireAt (bl_row L)) nulls_first_cmp)"

definition findFirst :: "batch_ledger cmp \<Rightarrow> (batch_ledger \<Rightarrow> bool) \<Rightarrow> ledger_db \<Rightarrow> batch_ledger option" where
  "findFirst order P db = (case js_sort order (filter P db) of [] \<Rightarrow> None | L # rest \<Rightarrow> Some L)"

definition or_then :: "'c option \<Rightarrow> 'c option \<Rightarrow> 'c option" where
  "or_then a b = (case a of None \<Rightarrow> b | Some x \<Rightarrow> Some x)"

text \<open>Under pressure the listing that is nearest to its end comes first, among 64 candidates whose total
  is known.\<close>

definition left_to_list :: "batch_ledger \<Rightarrow> int" where
  "left_to_list L = (case b_latestObservedTotal (bl_row L) of None \<Rightarrow> 0 | Some n \<Rightarrow> n) - int (b_listingOffset (bl_row L))"

definition nearest_to_end :: "(batch_ledger \<Rightarrow> bool) \<Rightarrow> ledger_db \<Rightarrow> batch_ledger option" where
  "nearest_to_end P db =
     (let candidates = take 64 (js_sort continuation_order (filter (\<lambda>L. P L \<and> 0 < b_listingOffset (bl_row L)
            \<and> (case b_latestObservedTotal (bl_row L) of None \<Rightarrow> False | Some n \<Rightarrow> 0 < n) \<and> b_lastError (bl_row L) = None) db));
          ordered = js_sort (then_cmp (key_cmp left_to_list num_cmp)
              (key_cmp (\<lambda>L. case b_lastServedAt (bl_row L) of None \<Rightarrow> 0 | Some t \<Rightarrow> t) num_cmp))
            (filter (\<lambda>L. 0 \<le> left_to_list L) candidates)
      in case ordered of [] \<Rightarrow> None | L # rest \<Rightarrow> Some L)"

definition recently_continued :: "ms \<Rightarrow> batch_row \<Rightarrow> bool" where
  "recently_continued now b \<longleftrightarrow> 0 < b_listingOffset b \<and> b_lastError b = None
     \<and> (case b_lastServedAt b of None \<Rightarrow> False | Some t \<Rightarrow> now - 5 * 60000 \<le> t)"

definition findAtsContinuationCandidate ::
  "host \<Rightarrow> ms \<Rightarrow> bool \<Rightarrow> bool \<Rightarrow> (batch_ledger \<Rightarrow> bool) \<Rightarrow> ledger_db \<Rightarrow> batch_ledger option" where
  "findAtsContinuationCandidate h now pressured listingOnly P db =
     (let active = (\<lambda>L. co_status (bl_board L) = ''active'');
          day = apiRotationDayFor (h_wall h) now
      in or_then (if pressured \<and> listingOnly then nearest_to_end P db else None)
        (or_then (findFirst continuation_order (\<lambda>L. P L \<and> active L \<and> atsRotationCohortWhere day (ledger_board L)) db)
        (or_then (if listingOnly then findFirst (key_cmp (\<lambda>L. b_lastServedAt (bl_row L)) (desc_cmp nulls_first_cmp))
             (\<lambda>L. P L \<and> recently_continued now (bl_row L)) db else None)
        (or_then (findFirst continuation_order (\<lambda>L. P L \<and> active L) db)
          (findFirst continuation_order P db)))))"

definition served_recently :: "host \<Rightarrow> ms \<Rightarrow> ledger_db \<Rightarrow> bool" where
  "served_recently h now db \<longleftrightarrow> (\<exists>L \<in> set db. b_writerMode (bl_row L) = ''v2''
     \<and> b_platform (bl_row L) \<notin> set NON_API_ATS_PLATFORMS \<and> b_acquisitionPhase (bl_row L) = ''listing''
     \<and> later_than (now - ATS_V2_LISTING_STARVATION_SERVE_MS h) (b_lastServedAt (bl_row L)))"

definition starved_batch :: "host \<Rightarrow> ms \<Rightarrow> batch_row \<Rightarrow> bool" where
  "starved_batch h now b \<longleftrightarrow> b_lastServedAt b = None \<or> due_by (now - ATS_V2_LISTING_STARVATION_MS h) (b_lastServedAt b)"

definition continuation_candidate :: "host \<Rightarrow> ms \<Rightarrow> int option \<Rightarrow> bool \<Rightarrow> ledger_db \<Rightarrow> batch_ledger option" where
  "continuation_candidate h now limit drainOnly db =
     (let eligible = (\<lambda>L. eligible_batch now (bl_row L));
          listing = (\<lambda>L. b_acquisitionPhase (bl_row L) = ''listing'');
          draining = (\<lambda>L. b_acquisitionPhase (bl_row L) \<in> set ATS_V2_DRAIN_PHASES);
          servedRecently = (if limit \<noteq> None \<or> drainOnly then False else served_recently h now db);
          find = findAtsContinuationCandidate h now (limit \<noteq> None)
      in or_then (if servedRecently \<and> limit = None \<or> drainOnly then None
             else find True (\<lambda>L. eligible L \<and> listing L \<and> (limit \<noteq> None \<or> starved_batch h now (bl_row L))) db)
        (or_then (find False (\<lambda>L. eligible L \<and> draining L) db)
          (if drainOnly then None else find False eligible db)))"

text \<open>The claim of a chosen batch, by its identifier and the phase it was chosen in.\<close>

definition claim_batch ::
  "host \<Rightarrow> ms \<Rightarrow> string \<Rightarrow> string \<times> string \<Rightarrow> string \<Rightarrow> string \<Rightarrow> ledger_db \<Rightarrow> ledger_claim option \<times> ledger_db" where
  "claim_batch h now owner ids batchId phase db =
     (case find (\<lambda>L. batch_id L = batchId) db of
        None \<Rightarrow> (None, db)
      | Some L \<Rightarrow> (let (c, L') = claimAtsContinuationCandidate h now owner (fst ids) (snd ids) phase L
          in (c, map (\<lambda>M. if batch_id M = batchId then L' else M) db)))"

definition drain_turn ::
  "host \<Rightarrow> ms \<Rightarrow> string \<Rightarrow> string \<times> string \<Rightarrow> (ledger_db \<Rightarrow> ledger_db) \<Rightarrow> int option \<Rightarrow> ledger_db \<Rightarrow> ledger_claim option \<times> ledger_db" where
  "drain_turn h now owner ids others limit db =
     (case continuation_candidate h now limit True db of
        None \<Rightarrow> (None, db)
      | Some L \<Rightarrow> claim_batch h now owner ids (batch_id L) (b_acquisitionPhase (bl_row L)) (others db))"

definition claimNextAtsV2Continuation ::
  "host \<Rightarrow> ms \<Rightarrow> bool \<Rightarrow> string \<Rightarrow> (nat \<Rightarrow> string \<times> string) \<Rightarrow> (nat \<Rightarrow> ledger_db \<Rightarrow> ledger_db) \<Rightarrow> int option \<Rightarrow> bool \<Rightarrow> ledger_db
    \<Rightarrow> ledger_claim option \<times> ledger_db" where
  "claimNextAtsV2Continuation h now storageAllowed owner fresh others limit drainOnly db =
     (if \<not> storageAllowed then (None, db)
      else (case continuation_candidate h now limit drainOnly db of
        None \<Rightarrow> (None, db)
      | Some L \<Rightarrow>
          let phase = b_acquisitionPhase (bl_row L);
              claim = claim_batch h now owner (fresh 0) (batch_id L) phase
          in (case (if phase = ''listing'' then limit else None) of
                None \<Rightarrow> claim (others 0 db)
              | Some n \<Rightarrow> (let (c, db1) = withAtsListingCapacity (\<lambda>db. db) now n claim (others 0 db)
                  in if c \<noteq> None then (c, db1) else drain_turn h now owner (fresh 1) (others 1) limit db1))))"

section \<open>The allowance of recovery claims\<close>

definition ATS_EMPLOYER_RETRY_INTERVAL_MS :: ms where "ATS_EMPLOYER_RETRY_INTERVAL_MS = 60000"
definition ATS_EMPLOYER_RETRY_ORDINARY_TURNS :: nat where "ATS_EMPLOYER_RETRY_ORDINARY_TURNS = 4"

record retry_claimer =
  rc_nextRetryAt :: ms
  rc_ordinaryClaims :: nat

definition createAtsEmployerRetryClaimer :: retry_claimer where
  "createAtsEmployerRetryClaimer = \<lparr>rc_nextRetryAt = 0, rc_ordinaryClaims = ATS_EMPLOYER_RETRY_ORDINARY_TURNS\<rparr>"

definition claimer_mode :: "ms \<Rightarrow> retry_claimer \<Rightarrow> retry_mode" where
  "claimer_mode now r = (if now < rc_nextRetryAt r then Exclude
     else if ATS_EMPLOYER_RETRY_ORDINARY_TURNS \<le> rc_ordinaryClaims r then Prefer else Fallback)"

text \<open>One call: \<open>claim\<close> answers the mode with a claim, marked when it is recovery work, or with nothing;
  \<open>later\<close> is the clock when it returns.\<close>

definition claimer_turn :: "ms \<Rightarrow> ms \<Rightarrow> bool option \<Rightarrow> retry_claimer \<Rightarrow> retry_claimer" where
  "claimer_turn now later result r =
     (case result of
        Some True \<Rightarrow> \<lparr>rc_nextRetryAt = later + ATS_EMPLOYER_RETRY_INTERVAL_MS, rc_ordinaryClaims = 0\<rparr>
      | Some False \<Rightarrow> r\<lparr>rc_ordinaryClaims := min ATS_EMPLOYER_RETRY_ORDINARY_TURNS (rc_ordinaryClaims r + 1)\<rparr>
      | None \<Rightarrow> r)"


definition ordinary_waiting :: "ms \<Rightarrow> ledger_db \<Rightarrow> bool" where
  "ordinary_waiting now db \<longleftrightarrow> (\<exists>s \<in> set (all_segments db). eligible_segment now s \<and> \<not> segment_hold s)"

record claim_turn =
  ct_now :: ms
  ct_later :: ms
  ct_db :: ledger_db
  ct_owner :: string
  ct_token :: string

definition turn_claim :: "host \<Rightarrow> retry_claimer \<Rightarrow> claim_turn \<Rightarrow> bool option" where
  "turn_claim h r t = (case fst (claimNextAtsV2Segment h (ct_now t) True (claimer_mode (ct_now t) r) (ct_owner t) (ct_token t) (ct_db t)) of
     Inr (Some p) \<Rightarrow> Some (ps_employerVerificationRetry p) | _ \<Rightarrow> None)"

text \<open>The claims of a sequence of calls, each on the ledger it finds. A claim that fails to read its segment
  throws and leaves the allowance as it was.\<close>

fun claimer_run :: "host \<Rightarrow> retry_claimer \<Rightarrow> claim_turn list \<Rightarrow> bool option list" where
  "claimer_run h r [] = []"
| "claimer_run h r (t # ts) = turn_claim h r t # claimer_run h (claimer_turn (ct_now t) (ct_later t) (turn_claim h r t) r) ts"

section \<open>What is chosen\<close>

lemma or_then_simps [simp]: "or_then None b = b" "or_then (Some x) b = Some x"
  by (simp_all add: or_then_def)

lemma or_then_None: "or_then a b = None \<longleftrightarrow> a = None \<and> b = None"
  by (cases a) simp_all

lemma or_then_Some: "or_then a b = Some x \<longleftrightarrow> a = Some x \<or> a = None \<and> b = Some x"
  by (cases a) simp_all

lemma findFirst_Some: "findFirst order P db = Some L \<Longrightarrow> L \<in> set db \<and> P L"
  by (auto simp: findFirst_def split: list.splits dest: js_sort_eq_Cons_in)

lemma findFirst_None: "findFirst order P db = None \<longleftrightarrow> \<not> (\<exists>L \<in> set db. P L)"
proof (cases "js_sort order (filter P db)")
  case Nil
  then show ?thesis by (simp add: findFirst_def filter_empty_conv)
next
  case (Cons L rest)
  then have "L \<in> set db \<and> P L" by (auto dest: js_sort_eq_Cons_in)
  with Cons show ?thesis by (auto simp: findFirst_def)
qed

lemma nearest_Some:
  assumes "nearest_to_end P db = Some L"
  shows "L \<in> set db \<and> P L"
proof -
  have "L \<in> set (take 64 (js_sort continuation_order (filter (\<lambda>L. P L \<and> 0 < b_listingOffset (bl_row L)
            \<and> (case b_latestObservedTotal (bl_row L) of None \<Rightarrow> False | Some n \<Rightarrow> 0 < n) \<and> b_lastError (bl_row L) = None) db)))"
    using assms by (auto simp: nearest_to_end_def Let_def split: list.splits dest!: js_sort_eq_Cons_in)
  then show ?thesis by (auto dest!: in_set_takeD)
qed

lemma candidate_Some:
  assumes "findAtsContinuationCandidate h now pressured listingOnly P db = Some L"
  shows "L \<in> set db \<and> P L"
  using assms by (auto simp: findAtsContinuationCandidate_def Let_def or_then_Some or_then_None
      dest: findFirst_Some nearest_Some split: if_splits)

lemma candidate_None:
  "findAtsContinuationCandidate h now pressured listingOnly P db = None \<longleftrightarrow> \<not> (\<exists>L \<in> set db. P L)"
proof
  assume "findAtsContinuationCandidate h now pressured listingOnly P db = None"
  then show "\<not> (\<exists>L \<in> set db. P L)" by (simp add: findAtsContinuationCandidate_def Let_def or_then_None findFirst_None)
next
  assume "\<not> (\<exists>L \<in> set db. P L)"
  then show "findAtsContinuationCandidate h now pressured listingOnly P db = None"
    using candidate_Some [of h now pressured listingOnly P db]
    by (cases "findAtsContinuationCandidate h now pressured listingOnly P db") auto
qed


lemma continuation_Some:
  assumes "continuation_candidate h now limit drainOnly db = Some L"
  shows "L \<in> set db \<and> eligible_batch now (bl_row L)
    \<and> (drainOnly \<longrightarrow> b_acquisitionPhase (bl_row L) \<in> set ATS_V2_DRAIN_PHASES)"
  using assms unfolding continuation_candidate_def Let_def or_then_Some or_then_None
  by (auto split: if_splits dest: candidate_Some)

lemma continuation_None:
  "continuation_candidate h now limit drainOnly db = None \<longleftrightarrow>
     \<not> (\<exists>L \<in> set db. eligible_batch now (bl_row L) \<and> (drainOnly \<longrightarrow> b_acquisitionPhase (bl_row L) \<in> set ATS_V2_DRAIN_PHASES))"
proof
  assume "continuation_candidate h now limit drainOnly db = None"
  then show "\<not> (\<exists>L \<in> set db. eligible_batch now (bl_row L) \<and> (drainOnly \<longrightarrow> b_acquisitionPhase (bl_row L) \<in> set ATS_V2_DRAIN_PHASES))"
    unfolding continuation_candidate_def Let_def or_then_None
    by (cases drainOnly) (auto simp: candidate_None)
next
  assume "\<not> (\<exists>L \<in> set db. eligible_batch now (bl_row L) \<and> (drainOnly \<longrightarrow> b_acquisitionPhase (bl_row L) \<in> set ATS_V2_DRAIN_PHASES))"
  then show "continuation_candidate h now limit drainOnly db = None"
    using continuation_Some [of h now limit drainOnly db] by (cases "continuation_candidate h now limit drainOnly db") auto
qed

lemma drain_not_listing: "p \<in> set ATS_V2_DRAIN_PHASES \<Longrightarrow> p \<noteq> ''listing''"
  by (auto simp: ATS_V2_DRAIN_PHASES_def)

lemma eligible_phase:
  "eligible_batch now b \<Longrightarrow> b_acquisitionPhase b = ''listing'' \<or> b_acquisitionPhase b \<in> set ATS_V2_DRAIN_PHASES"
  by (auto simp: eligible_batch_def ATS_V2_ACQUISITION_PHASES_def)

text \<open>Without a cap, listing comes first only for a starved listing while none was served recently.\<close>

definition listing_floor :: "host \<Rightarrow> ms \<Rightarrow> ledger_db \<Rightarrow> bool" where
  "listing_floor h now db \<longleftrightarrow> \<not> served_recently h now db
     \<and> (\<exists>L \<in> set db. eligible_batch now (bl_row L) \<and> b_acquisitionPhase (bl_row L) = ''listing'' \<and> starved_batch h now (bl_row L))"

definition drain_eligible :: "ms \<Rightarrow> ledger_db \<Rightarrow> bool" where
  "drain_eligible now db \<longleftrightarrow> (\<exists>L \<in> set db. eligible_batch now (bl_row L) \<and> b_acquisitionPhase (bl_row L) \<in> set ATS_V2_DRAIN_PHASES)"

lemma continuation_phase:
  assumes "continuation_candidate h now None False db = Some L"
  shows "b_acquisitionPhase (bl_row L) = ''listing'' \<longleftrightarrow> listing_floor h now db \<or> \<not> drain_eligible now db"
proof -
  let ?first = "if served_recently h now db then None else findAtsContinuationCandidate h now False True
      (\<lambda>L. eligible_batch now (bl_row L) \<and> b_acquisitionPhase (bl_row L) = ''listing'' \<and> starved_batch h now (bl_row L)) db"
  let ?second = "findAtsContinuationCandidate h now False False
      (\<lambda>L. eligible_batch now (bl_row L) \<and> b_acquisitionPhase (bl_row L) \<in> set ATS_V2_DRAIN_PHASES) db"
  let ?third = "findAtsContinuationCandidate h now False False (\<lambda>L. eligible_batch now (bl_row L)) db"
  have choice: "or_then ?first (or_then ?second ?third) = Some L"
    using assms by (simp add: continuation_candidate_def Let_def cong: if_cong)
  have floor: "?first = None \<longleftrightarrow> \<not> listing_floor h now db"
    by (auto simp: candidate_None listing_floor_def)
  have drains: "?second = None \<longleftrightarrow> \<not> drain_eligible now db"
    by (auto simp: candidate_None drain_eligible_def)
  consider "?first = Some L" | "?first = None" "?second = Some L" | "?first = None" "?second = None" "?third = Some L"
    using choice by (auto simp: or_then_Some)
  then show ?thesis
  proof cases
    case 1
    then have "b_acquisitionPhase (bl_row L) = ''listing''" by (auto split: if_splits dest: candidate_Some)
    with 1 floor show ?thesis by auto
  next
    case 2
    then have "b_acquisitionPhase (bl_row L) \<noteq> ''listing''" by (auto dest: candidate_Some drain_not_listing)
    with 2 floor drains show ?thesis by auto
  next
    case 3
    then have "L \<in> set db \<and> eligible_batch now (bl_row L)" by (auto dest: candidate_Some)
    with 3 drains have "b_acquisitionPhase (bl_row L) = ''listing''"
      using eligible_phase [of now "bl_row L"] by (auto simp: drain_eligible_def)
    with 3 drains show ?thesis by auto
  qed
qed

lemma eligible_claimable: "eligible_batch now b \<Longrightarrow> claimable_batch now (b_acquisitionPhase b) b"
  by (simp add: eligible_batch_def in_acquisition_def claimable_batch_def)

lemma claimed_batch:
  assumes "claimable_batch now phase (bl_row L)"
  obtains k L' where "claimAtsContinuationCandidate h now owner token receiptId phase L = (Some k, L')"
    and "cl_batchId k = batch_id L" and "cl_acquisitionPhase k = phase"
    and "bl_row L' = granted h now owner token (bl_row L)"
  using assms that
  by (simp add: claimAtsContinuationCandidate_def Let_def batch_id_def granted_def claimable_batch_def)

lemma find_batch:
  assumes "distinct (map batch_id db)" and "L \<in> set db"
  shows "find (\<lambda>M. batch_id M = batch_id L) db = Some L"
  using assms by (induction db) (auto simp: image_iff)

lemma granted_claim:
  assumes "distinct (map batch_id db)" and "L \<in> set db" and "eligible_batch now (bl_row L)"
  obtains k L' where "claim_batch h now owner ids (batch_id L) (b_acquisitionPhase (bl_row L)) db
      = (Some k, map (\<lambda>M. if batch_id M = batch_id L then L' else M) db)"
    and "cl_batchId k = batch_id L" and "cl_acquisitionPhase k = b_acquisitionPhase (bl_row L)"
    and "bl_row L' = granted h now owner (fst ids) (bl_row L)"
proof -
  obtain k L' where k: "claimAtsContinuationCandidate h now owner (fst ids) (snd ids) (b_acquisitionPhase (bl_row L)) L = (Some k, L')"
    "cl_batchId k = batch_id L" "cl_acquisitionPhase k = b_acquisitionPhase (bl_row L)"
    "bl_row L' = granted h now owner (fst ids) (bl_row L)"
    by (rule claimed_batch [OF eligible_claimable [OF assms(3)]])
  show thesis
    by (rule that [of k L']) (simp_all add: k claim_batch_def find_batch [OF assms(1,2)])
qed

text \<open>A claim by any worker at any time: it is of a batch of that phase that nobody holds, and the phases and
  the identifiers of the batches stay.\<close>

lemma claim_batch_cases:
  assumes "claim_batch h now owner ids batchId phase db = (c, db')" and "distinct (map batch_id db)"
  obtains "c = None" and "db' = db"
  | k L L' where "c = Some k" and "L \<in> set db" and "batch_id L = batchId" and "claimable_batch now phase (bl_row L)"
    and "cl_batchId k = batchId" and "cl_acquisitionPhase k = phase"
    and "bl_row L' = granted h now owner (fst ids) (bl_row L)"
    and "db' = map (\<lambda>M. if batch_id M = batchId then L' else M) db"
proof (cases "find (\<lambda>L. batch_id L = batchId) db")
  case None
  with assms that(1) show ?thesis by (simp add: claim_batch_def)
next
  case (Some L)
  then have L: "L \<in> set db" "batch_id L = batchId" by (auto dest: find_SomeD)
  show ?thesis
  proof (cases "claimable_batch now phase (bl_row L)")
    case True
    obtain k L' where k: "claimAtsContinuationCandidate h now owner (fst ids) (snd ids) phase L = (Some k, L')"
      "cl_batchId k = batch_id L" "cl_acquisitionPhase k = phase" "bl_row L' = granted h now owner (fst ids) (bl_row L)"
      by (rule claimed_batch [OF True])
    show ?thesis
      by (rule that(2) [of k L L']) (use assms Some k L True in \<open>simp_all add: claim_batch_def\<close>)
  next
    case False
    then have "claim_batch h now owner ids batchId phase db = (None, map (\<lambda>M. if batch_id M = batchId then L else M) db)"
      using Some by (simp add: claim_batch_def claimAtsContinuationCandidate_def)
    moreover have "map (\<lambda>M. if batch_id M = batchId then L else M) db = db"
      by (rule map_idI) (use assms(2) L in \<open>auto simp: distinct_map dest: inj_onD\<close>)
    ultimately show ?thesis using assms that(1) by simp
  qed
qed


lemma next_claim_cases:
  assumes "claimNextAtsV2Continuation h now True owner fresh (\<lambda>n db. db) limit False db = (c, db')"
    and "distinct (map batch_id db)"
  obtains "c = None" and "\<not> (\<exists>L \<in> set db. eligible_batch now (bl_row L))"
  | "c = None" and "limit \<noteq> None" and "\<not> drain_eligible now db"
  | k L where "c = Some k" and "L \<in> set db" and "eligible_batch now (bl_row L)" and "cl_batchId k = batch_id L"
    and "cl_acquisitionPhase k = b_acquisitionPhase (bl_row L)"
    and "limit = None \<Longrightarrow> continuation_candidate h now limit False db = Some L"
proof (cases "continuation_candidate h now limit False db")
  case None
  with assms that(1) show ?thesis by (simp add: claimNextAtsV2Continuation_def continuation_None)
next
  case (Some L)
  then have L: "L \<in> set db" "eligible_batch now (bl_row L)" by (auto dest: continuation_Some)
  obtain k L' where k: "claim_batch h now owner (fresh 0) (batch_id L) (b_acquisitionPhase (bl_row L)) db
      = (Some k, map (\<lambda>M. if batch_id M = batch_id L then L' else M) db)"
    "cl_batchId k = batch_id L" "cl_acquisitionPhase k = b_acquisitionPhase (bl_row L)"
    by (rule granted_claim [OF assms(2) L])
  show ?thesis
  proof (cases "if b_acquisitionPhase (bl_row L) = ''listing'' then limit else None")
    case None
    with assms(1) Some k have "c = Some k" by (auto simp: claimNextAtsV2Continuation_def Let_def)
    then show ?thesis using that(3) L k Some by blast
  next
    case limited: (Some n)
    let ?gated = "withAtsListingCapacity (\<lambda>db. db) now n (claim_batch h now owner (fresh 0) (batch_id L) (b_acquisitionPhase (bl_row L))) db"
    have "?gated = (None, db) \<or> ?gated = claim_batch h now owner (fresh 0) (batch_id L) (b_acquisitionPhase (bl_row L)) db"
      by (simp add: withAtsListingCapacity_def)
    then consider "fst ?gated = Some k" | "?gated = (None, db)" by (auto simp: k)
    then show ?thesis
    proof cases
      case 1
      with assms(1) Some limited have "c = Some k"
        by (auto simp: claimNextAtsV2Continuation_def Let_def split: prod.splits if_splits)
      with limited show ?thesis using that(3) L k by (auto split: if_splits)
    next
      case 2
      with assms(1) Some limited have turn: "drain_turn h now owner (fresh 1) (\<lambda>db. db) limit db = (c, db')"
        by (auto simp: claimNextAtsV2Continuation_def Let_def split: if_splits)
      have bound: "limit \<noteq> None" using limited by (auto split: if_splits)
      show ?thesis
      proof (cases "continuation_candidate h now limit True db")
        case None
        with turn that(2) bound show ?thesis
          by (auto simp: drain_turn_def continuation_None drain_eligible_def)
      next
        case (Some M)
        then have M: "M \<in> set db" "eligible_batch now (bl_row M)" by (auto dest: continuation_Some)
        obtain k' M' where "claim_batch h now owner (fresh 1) (batch_id M) (b_acquisitionPhase (bl_row M)) db
            = (Some k', map (\<lambda>N. if batch_id N = batch_id M then M' else N) db)"
          "cl_batchId k' = batch_id M" "cl_acquisitionPhase k' = b_acquisitionPhase (bl_row M)"
          by (rule granted_claim [OF assms(2) M])
        with turn Some M bound show ?thesis using that(3) by (auto simp: drain_turn_def)
      qed
    qed
  qed
qed

lemma count_replaced:
  assumes "distinct (map f xs)"
  shows "count_where P (map (\<lambda>x. if f x = a then y else x) xs) \<le> count_where P xs + 1"
proof (cases "a \<in> f ` set xs")
  case True
  then obtain x where x: "x \<in> set xs" "f x = a" by auto
  then obtain us vs where xs: "xs = us @ x # vs" by (auto dest: split_list)
  have apart: "f z \<noteq> a" if "z \<in> set us \<union> set vs" for z
    using that assms x(2) unfolding xs by (auto simp: image_iff)
  have "map (\<lambda>x. if f x = a then y else x) us = us"
    by (rule map_idI) (use apart in auto)
  moreover have "map (\<lambda>x. if f x = a then y else x) vs = vs"
    by (rule map_idI) (use apart in auto)
  ultimately show ?thesis using x xs by (simp add: count_where_def)
next
  case False
  then have "map (\<lambda>x. if f x = a then y else x) xs = xs" by (intro map_idI) auto
  then show ?thesis by simp
qed

lemma granted_phase [simp]: "b_acquisitionPhase (granted h now owner token b) = b_acquisitionPhase b"
  by (simp add: granted_def)

lemma capped_claim:
  assumes "withAtsListingCapacity (\<lambda>db. db) now n (claim_batch h now owner ids batchId ''listing'') db = (Some k, db')"
    and "distinct (map batch_id db)" and "\<exists>L \<in> set db'. drain_work (bl_row L)"
  shows "int (count_where (\<lambda>L. live_listing now (bl_row L)) db') \<le> max 1 n"
proof -
  have claim: "claim_batch h now owner ids batchId ''listing'' db = (Some k, db')"
    using assms(1) by (auto simp: withAtsListingCapacity_def split: if_splits)
  obtain L L' where L: "L \<in> set db" "claimable_batch now ''listing'' (bl_row L)" "bl_row L' = granted h now owner (fst ids) (bl_row L)"
    and db': "db' = map (\<lambda>M. if batch_id M = batchId then L' else M) db"
    using claim assms(2) by (cases rule: claim_batch_cases) auto
  have "\<not> drain_work (bl_row L')"
    using L by (simp add: drain_work_def claimable_batch_def ATS_V2_DRAIN_PHASES_def)
  with assms(3) db' have "\<exists>L \<in> set db. drain_work (bl_row L)" by (auto split: if_splits)
  with assms(1) have "int (count_where (\<lambda>L. live_listing now (bl_row L)) db) < max 1 n"
    by (auto simp: withAtsListingCapacity_def split: if_splits)
  moreover have "count_where (\<lambda>L. live_listing now (bl_row L)) db' \<le> count_where (\<lambda>L. live_listing now (bl_row L)) db + 1"
    unfolding db' by (rule count_replaced [OF assms(2)])
  ultimately show ?thesis by linarith
qed


lemma claim_phase:
  assumes "claim_batch h now owner ids batchId phase db = (Some k, db')"
  shows "cl_acquisitionPhase k = phase"
  using assms by (auto simp: claim_batch_def claimAtsContinuationCandidate_def Let_def granted_def claimable_batch_def
      split: option.splits if_splits)

lemma drain_claim_phase:
  assumes "drain_turn h now owner ids f limit db = (Some k, db')"
  shows "cl_acquisitionPhase k \<noteq> ''listing''"
proof (cases "continuation_candidate h now limit True db")
  case None
  with assms show ?thesis by (simp add: drain_turn_def)
next
  case (Some L)
  then have "b_acquisitionPhase (bl_row L) \<noteq> ''listing''" by (auto dest: continuation_Some drain_not_listing)
  with assms Some show ?thesis by (auto simp: drain_turn_def dest: claim_phase)
qed

lemma capped_continuation:
  assumes "claimNextAtsV2Continuation h now storage owner fresh others (Some n) False db = (Some k, db')"
    and "cl_acquisitionPhase k = ''listing''" and "distinct (map batch_id (others 0 db))"
    and "\<exists>L \<in> set db'. drain_work (bl_row L)"
  shows "int (count_where (\<lambda>L. live_listing now (bl_row L)) db') \<le> max 1 n"
proof -
  obtain L where storage: "storage" and L: "continuation_candidate h now (Some n) False db = Some L"
    using assms(1) by (auto simp: claimNextAtsV2Continuation_def split: if_splits option.splits)
  have phase: "b_acquisitionPhase (bl_row L) = ''listing''"
    using assms(1,2) storage L by (auto simp: claimNextAtsV2Continuation_def Let_def dest: claim_phase split: if_splits)
  let ?gated = "withAtsListingCapacity (\<lambda>db. db) now n (claim_batch h now owner (fresh 0) (batch_id L) ''listing'') (others 0 db)"
  have "?gated = (Some k, db')"
  proof (cases "fst ?gated")
    case None
    then have "drain_turn h now owner (fresh 1) (others 1) (Some n) (snd ?gated) = (Some k, db')"
      using assms(1) storage L phase by (simp add: claimNextAtsV2Continuation_def Let_def case_prod_beta)
    then show ?thesis using assms(2) by (auto dest: drain_claim_phase)
  next
    case (Some x)
    then show ?thesis
      using assms(1) storage L phase by (simp add: claimNextAtsV2Continuation_def Let_def case_prod_beta prod_eq_iff)
  qed
  then show ?thesis by (rule capped_claim [OF _ assms(3,4)])
qed

section \<open>The recovery allowance\<close>

lemma ordinary_waiting_entries:
  "ordinary_waiting now db \<longleftrightarrow> (\<exists>e \<in> set (concat (map batch_entries db)). eligible_segment now (snd e) \<and> \<not> segment_hold (snd e))"
  by (auto simp: ordinary_waiting_def all_segments_def batch_entries_def)

lemma first_candidate_mode:
  assumes "first_candidate now (retry_groups mode) db = Some e" and "segment_hold (snd e)"
  shows "mode = Prefer \<or> mode = Fallback \<and> \<not> ordinary_waiting now db"
proof -
  let ?xs = "\<lambda>g. filter (\<lambda>e. eligible_segment now (snd e) \<and> atsEmployerVerificationHoldWhere g (snd e)) (concat (map batch_entries db))"
  have ordinary: "\<not> segment_hold (snd x)" if "js_sort claim_order (?xs False) = x # xs" for x xs
    using js_sort_eq_Cons_in [OF that] by (auto simp: hold_filters)
  show ?thesis
  proof (cases mode)
    case Fallback
    with assms ordinary have "?xs False = []"
      by (cases "js_sort claim_order (?xs False)") (auto simp: retry_groups_def)
    with Fallback show ?thesis by (auto simp: ordinary_waiting_entries filter_empty_conv hold_filters)
  next
    case Exclude
    with assms ordinary show ?thesis
      by (cases "js_sort claim_order (?xs False)") (auto simp: retry_groups_def)
  qed simp
qed

lemma read_segment_retry: "read_segment h L token s = Inr ps \<Longrightarrow> ps_employerVerificationRetry ps = segment_hold s"
  by (auto simp: read_segment_def Let_def split: if_splits sum.splits)

lemma recovery_turn:
  assumes "db_wf h (ct_db t)" and "turn_claim h r t = Some True"
  shows "rc_nextRetryAt r \<le> ct_now t"
    and "ordinary_waiting (ct_now t) (ct_db t) \<Longrightarrow> ATS_EMPLOYER_RETRY_ORDINARY_TURNS \<le> rc_ordinaryClaims r"
proof -
  let ?mode = "claimer_mode (ct_now t) r" and ?db = "ct_db t" and ?now = "ct_now t"
  obtain e where e: "first_candidate ?now (retry_groups ?mode) ?db = Some e"
    using assms(2) by (cases "first_candidate ?now (retry_groups ?mode) ?db") (auto simp: turn_claim_def claimNextAtsV2Segment_def)
  obtain batchId s where es: "e = (batchId, s)" by (cases e)
  obtain L where L: "L \<in> set ?db" "batchId = batch_id L" "s \<in> set (bl_segments L)" "eligible_segment ?now s"
    using first_candidate_in [OF e] unfolding entries_of es by auto
  note leased = leased_reads [OF assms(1) L(1,3,4) refl, where owner = "ct_owner t" and token = "ct_token t", folded L(2)]
  let ?M = "if b_id (bl_row L) = batchId then lease_in_batch h ?now (ct_owner t) (ct_token t) (s_ordinal s) L else L"
  let ?read = "read_segment h ?M (ct_token t) (leased_segment h ?now (ct_owner t) (ct_token t) s)"
  have "fst (claimNextAtsV2Segment h ?now True ?mode (ct_owner t) (ct_token t) ?db) = map_sum id Some ?read"
    unfolding claimNextAtsV2Segment_def e es Let_def option.case prod.case leased(1) leased(2) by simp
  with assms(2) obtain ps where "?read = Inr ps" "ps_employerVerificationRetry ps"
    by (cases ?read) (auto simp: turn_claim_def)
  with read_segment_retry [OF this(1)] have "segment_hold (leased_segment h ?now (ct_owner t) (ct_token t) s)"
    by simp
  then have "segment_hold s" by (simp add: segment_hold_def leased_segment_def)
  from first_candidate_mode [OF e] this have mode: "?mode = Prefer \<or> ?mode = Fallback \<and> \<not> ordinary_waiting ?now ?db"
    by (simp add: es)
  then show "rc_nextRetryAt r \<le> ?now" by (auto simp: claimer_mode_def split: if_splits)
  show "ATS_EMPLOYER_RETRY_ORDINARY_TURNS \<le> rc_ordinaryClaims r" if "ordinary_waiting ?now ?db"
    using mode that by (auto simp: claimer_mode_def split: if_splits)
qed

lemma length_claimer_run [simp]: "length (claimer_run h r ts) = length ts"
  by (induction ts arbitrary: r) auto

text \<open>From any state of the allowance, the next recovery claim that is found at \<open>j\<close>.\<close>

lemma recovery_gap:
  assumes "\<forall>t \<in> set ts. db_wf h (ct_db t) \<and> ct_now t \<le> ct_later t" and "j < length ts"
    and "claimer_run h r ts ! j = Some True"
  shows "rc_nextRetryAt r \<le> ct_now (ts ! j)
    \<and> (ordinary_waiting (ct_now (ts ! j)) (ct_db (ts ! j)) \<longrightarrow>
        ATS_EMPLOYER_RETRY_ORDINARY_TURNS \<le> rc_ordinaryClaims r + count_list (take j (claimer_run h r ts)) (Some False))"
  using assms
proof (induction ts arbitrary: r j)
  case (Cons t ts)
  show ?case
  proof (cases j)
    case 0
    with Cons.prems recovery_turn [of h t r] show ?thesis by simp
  next
    case (Suc k)
    let ?r = "claimer_turn (ct_now t) (ct_later t) (turn_claim h r t) r"
    have IH: "rc_nextRetryAt ?r \<le> ct_now (ts ! k)"
      "ordinary_waiting (ct_now (ts ! k)) (ct_db (ts ! k)) \<Longrightarrow>
        ATS_EMPLOYER_RETRY_ORDINARY_TURNS \<le> rc_ordinaryClaims ?r + count_list (take k (claimer_run h ?r ts)) (Some False)"
      using Cons.IH [of k ?r] Cons.prems Suc by auto
    have step: "rc_nextRetryAt r \<le> rc_nextRetryAt ?r"
      using Cons.prems(1) recovery_turn(1) [of h t r]
      by (auto simp: claimer_turn_def ATS_EMPLOYER_RETRY_INTERVAL_MS_def split: option.splits bool.splits)
    have turns: "rc_ordinaryClaims ?r \<le> rc_ordinaryClaims r + (if turn_claim h r t = Some False then 1 else 0)"
      by (auto simp: claimer_turn_def split: option.splits bool.splits)
    show ?thesis using Suc IH step turns by auto
  qed
qed simp

text \<open>C21. Recovery work never crowds out ordinary work. Between two claims of segments that wait for a
  verified employer at least a minute passes, and when ordinary work is waiting at the second one, at least
  four ordinary segments were claimed in between, whatever the ledgers the claims are made on.\<close>

theorem recovery_takes_turns:
  assumes "\<forall>t \<in> set turns. reachable h (ct_db t) \<and> ct_now t \<le> ct_later t"
    and "i < j" and "j < length turns"
    and "claimer_run h r turns ! i = Some True" and "claimer_run h r turns ! j = Some True"
  shows "ct_later (turns ! i) + 60000 \<le> ct_now (turns ! j)
    \<and> (ordinary_waiting (ct_now (turns ! j)) (ct_db (turns ! j)) \<longrightarrow>
        4 \<le> count_list (take (j - Suc i) (drop (Suc i) (claimer_run h r turns))) (Some False))"
  using assms
proof (induction turns arbitrary: r i j)
  case (Cons t ts)
  let ?r = "claimer_turn (ct_now t) (ct_later t) (turn_claim h r t) r"
  obtain k where j: "j = Suc k" using Cons.prems(2) by (cases j) auto
  have wf: "\<forall>t \<in> set ts. db_wf h (ct_db t) \<and> ct_now t \<le> ct_later t"
    using Cons.prems(1) by (auto intro: reachable_wf)
  show ?case
  proof (cases i)
    case 0
    then have "?r = \<lparr>rc_nextRetryAt = ct_later t + ATS_EMPLOYER_RETRY_INTERVAL_MS, rc_ordinaryClaims = 0\<rparr>"
      using Cons.prems(4) by (simp add: claimer_turn_def)
    with recovery_gap [OF wf, of k ?r] Cons.prems(3,5) j 0 show ?thesis
      by (simp add: ATS_EMPLOYER_RETRY_INTERVAL_MS_def ATS_EMPLOYER_RETRY_ORDINARY_TURNS_def)
  next
    case (Suc i')
    with Cons.IH [of i' k ?r] Cons.prems j show ?thesis by simp
  qed
qed simp

definition held_report :: turn_report where
  "held_report = \<lparr>tr_counters = \<lparr>tc_inserted = 0, tc_duplicates = 0, tc_filtered = 0, tc_processingErrors = 0\<rparr>,
     tr_interrupted = True, tr_retryAt = None, tr_retryReason = Some (''employer_unverified'', ''posting''),
     tr_fatalError = None, tr_error = None\<rparr>"

definition sample_held :: batch_ledger where
  "sample_held = perform (completeAtsV2SegmentProcessing 12 0 ''lease'' held_report) (hd sample_leased)"

definition sample_turns :: "claim_turn list" where
  "sample_turns = [\<lparr>ct_now = 100000, ct_later = 100001, ct_db = [sample_held], ct_owner = ''o'', ct_token = ''t''\<rparr>,
     \<lparr>ct_now = 200000, ct_later = 200001, ct_db = [sample_held], ct_owner = ''o'', ct_token = ''t''\<rparr>]"

lemma held_reachable: "reachable run_host [sample_held]"
proof (rule reachable_batch_step)
  have "length sample_leased = 1" by code_simp
  then have "sample_leased = [hd sample_leased]" by (metis length_0_conv length_Suc_conv list.sel(1) One_nat_def)
  then show "reachable run_host [hd sample_leased]" using leased_reachable by simp
  have "\<not> isl (completeAtsV2SegmentProcessing 12 0 ''lease'' held_report (hd sample_leased))" by code_simp
  from performed [OF sample_held_def this] show "batch_step run_host (hd sample_leased) sample_held"
    using Complete by blast
qed

theorem recovery_takes_turns_witness:
  "claimer_run run_host createAtsEmployerRetryClaimer sample_turns = [Some True, Some True]
    \<and> ct_later (sample_turns ! 0) + 60000 \<le> ct_now (sample_turns ! 1)"
proof -
  have run: "claimer_run run_host createAtsEmployerRetryClaimer sample_turns = [Some True, Some True]" by code_simp
  have "\<forall>t \<in> set sample_turns. reachable run_host (ct_db t) \<and> ct_now t \<le> ct_later t"
    by (simp add: sample_turns_def held_reachable)
  from recovery_takes_turns [OF this, of 0 1 createAtsEmployerRetryClaimer] run show ?thesis
    by (simp add: sample_turns_def del: claimer_run.simps)
qed

text \<open>C18. A worker that asks for work gets it. While no other worker changes the ledger between the choice and the
  claim, and the worker asks for any work (storage allows it, and the turn is not for draining only), a worker
  without a cap goes away empty only when no batch may be served, and a capped one only when no drain work may be; what it gets
  may be served, and without a cap it is a listing exactly when a listing is starved and none was served
  lately, or when there is nothing to drain.\<close>

theorem asking_worker_is_served:
  assumes "distinct (map batch_id db)"
    and "claimNextAtsV2Continuation h now True owner fresh (\<lambda>n db. db) limit False db = (c, db')"
  shows "(c = None \<longrightarrow> \<not> drain_eligible now db \<and> (limit = None \<longrightarrow> \<not> (\<exists>L \<in> set db. eligible_batch now (bl_row L))))
    \<and> (\<forall>k. c = Some k \<longrightarrow> (\<exists>L \<in> set db. batch_id L = cl_batchId k \<and> eligible_batch now (bl_row L)
          \<and> b_acquisitionPhase (bl_row L) = cl_acquisitionPhase k)
        \<and> (limit = None \<longrightarrow> (cl_acquisitionPhase k = ''listing'' \<longleftrightarrow> listing_floor h now db \<or> \<not> drain_eligible now db)))"
  using assms(2,1)
proof (cases rule: next_claim_cases)
  case 1
  then show ?thesis by (auto simp: drain_eligible_def)
next
  case 2
  then show ?thesis by auto
next
  case (3 k L)
  then show ?thesis using continuation_phase [of h now db L] by auto
qed

definition sample_waiting :: batch_ledger where
  "sample_waiting = snd (finishAtsV2Claim 3 (admitted_claim sample_admission) ''page_saved'' None None None sample_admitted)"

theorem asking_worker_is_served_witness:
  "(case fst (claimNextAtsV2Continuation run_host 4 True ''o'' (\<lambda>n. (''t'', ''w'')) (\<lambda>n db. db) None False [sample_waiting]) of
     None \<Rightarrow> False | Some k \<Rightarrow> cl_acquisitionPhase k = ''listing'')"
proof -
  have "eligible_batch 4 (bl_row sample_waiting)" "\<not> drain_eligible 4 [sample_waiting]" by code_simp+
  with asking_worker_is_served [of "[sample_waiting]" run_host 4 "''o''" "\<lambda>n. (''t'', ''w'')" None
      "fst (claimNextAtsV2Continuation run_host 4 True ''o'' (\<lambda>n. (''t'', ''w'')) (\<lambda>n db. db) None False [sample_waiting])"
      "snd (claimNextAtsV2Continuation run_host 4 True ''o'' (\<lambda>n. (''t'', ''w'')) (\<lambda>n db. db) None False [sample_waiting])"]
  show ?thesis by (auto split: option.split)
qed

end
