(* ===== verification/Ledger_Admission.thy ===== *)
theory Ledger_Admission
  imports Ledger_Queue
begin

text \<open>
  The admission of a board to a new cycle (\<open>admitAtsV2Board\<close> of \<open>src/lib/atsAcquisitionLedger.ts\<close>), with the
  writer gate (\<open>src/lib/atsAcquisitionCompatibility.ts\<close>) and the controlled first collections of newly
  discovered providers (\<open>src/lib/atsFirstCollectionAdmission.ts\<close>, \<open>src/lib/atsFirstCollectionRetry.ts\<close>,
  the pure parts of \<open>src/lib/atsFirstCollectionController.ts\<close>).

  The state is what the admission transaction reads: the ledger of the v2 batches, the catalogue of
  boards, the policy of first collections, the runtime gate and the batches of the legacy writer. The
  column \<open>processingErrorCount\<close> of a batch is only ever written by the legacy writer, so it is left out of
  the v2 rows. \<open>limit_env\<close> reads a variable that is all digits.
\<close>

section \<open>The state of an admission\<close>

definition ATS_ACQUISITION_WRITER_VERSION :: int where "ATS_ACQUISITION_WRITER_VERSION = 3"

record runtime_gate =
  rg_admissionState :: string
  rg_minimumWriterVersion :: int
  rg_compatibilityWriterVersion :: int
  rg_v2AuthorityActivatedAt :: "ms option"
  rg_activatedLedgerVersion :: "int option"

datatype writer_refusal = Gate_missing | Writer_too_old int int | Compatibility_writer_required int

definition validateAtsAcquisitionWriterCompatibility :: "runtime_gate option \<Rightarrow> int \<Rightarrow> writer_refusal option" where
  "validateAtsAcquisitionWriterCompatibility gate writerVersion =
     (case gate of
        None \<Rightarrow> Some Gate_missing
      | Some g \<Rightarrow>
          if writerVersion < rg_minimumWriterVersion g then Some (Writer_too_old writerVersion (rg_minimumWriterVersion g))
          else if rg_v2AuthorityActivatedAt g \<noteq> None \<and> writerVersion < rg_compatibilityWriterVersion g
          then Some (Compatibility_writer_required (rg_compatibilityWriterVersion g))
          else None)"

record listed_board =
  lb_slug :: string
  lb_platform :: string
  lb_acquisitionEngine :: string
  lb_row :: board_row
  lb_collectionState :: string
  lb_collectionBatchId :: "string option"
  lb_collectionAdmittedAt :: "ms option"
  lb_collectionCompletedAt :: "ms option"
  lb_collectionHoldReason :: "string option"

record legacy_batch =
  lg_slug :: string
  lg_platform :: string
  lg_status :: string
  lg_jobCount :: nat
  lg_processingOffset :: nat
  lg_nextProcessAt :: "ms option"

record collection_policy =
  cp_mode :: string
  cp_dailyBoardLimit :: int
  cp_maxUnfinished :: int
  cp_maxCatalogueJobs :: int
  cp_maxResponseBytes :: int
  cp_pilotBoards :: "string list option"
  cp_healthySince :: "ms option"
  cp_healthObservedAt :: "ms option"
  cp_lastStagedItems :: "int option"
  cp_lastPersistenceJobs :: "int option"

record admission_state =
  as_db :: ledger_db
  as_boards :: "listed_board list"
  as_policy :: "collection_policy option"
  as_gate :: "runtime_gate option"
  as_legacy :: "legacy_batch list"

definition named_board :: "string \<Rightarrow> string \<Rightarrow> listed_board \<Rightarrow> bool" where
  "named_board slug platform b \<longleftrightarrow> lb_slug b = slug \<and> lb_platform b = platform"

definition rotation_board :: "listed_board \<Rightarrow> board" where
  "rotation_board b = \<lparr>bd_slug = lb_slug b, bd_platform = lb_platform b, bd_checkDay = co_checkDay (lb_row b)\<rparr>"

section \<open>First collections\<close>

definition FIRST_COLLECTION_PLATFORMS :: "string list" where
  "FIRST_COLLECTION_PLATFORMS = [''symphony'', ''zohorecruit''] @ TENANT_ATS_PLATFORMS"

definition isFirstCollectionPlatform :: "string \<Rightarrow> bool" where
  "isFirstCollectionPlatform platform \<longleftrightarrow> platform \<in> set FIRST_COLLECTION_PLATFORMS"

definition FIRST_COLLECTION_HEALTH_WINDOW_MS :: ms where "FIRST_COLLECTION_HEALTH_WINDOW_MS = 15 * 60000"

text \<open>\<open>reconcileFirstCollectionCompletion\<close>: a board whose first batch is processed without errors joins the
  normal rotation.\<close>

definition collected_at :: "ledger_db \<Rightarrow> listed_board \<Rightarrow> ms option" where
  "collected_at db b =
     (case find (\<lambda>L. lb_collectionBatchId b = Some (batch_id L) \<and> b_status (bl_row L) = ''processed''
         \<and> b_processedAt (bl_row L) \<noteq> None) db of
        None \<Rightarrow> None | Some L \<Rightarrow> b_processedAt (bl_row L))"

definition completed_board :: "ledger_db \<Rightarrow> listed_board \<Rightarrow> listed_board" where
  "completed_board db b = (if lb_collectionState b = ''admitted'' \<and> collected_at db b \<noteq> None
     then b\<lparr>lb_collectionState := ''established'', lb_collectionCompletedAt := collected_at db b, lb_collectionHoldReason := None\<rparr>
     else b)"

definition reconcileFirstCollectionCompletion :: "admission_state \<Rightarrow> admission_state" where
  "reconcileFirstCollectionCompletion st = st\<lparr>as_boards := map (completed_board (as_db st)) (as_boards st)\<rparr>"

record collection_counts =
  cc_unfinished :: int
  cc_startedInWindow :: int

definition firstCollectionAllowance :: "collection_policy \<Rightarrow> collection_counts \<Rightarrow> ms \<Rightarrow> bool" where
  "firstCollectionAllowance p k now =
     (if cp_mode p \<notin> {''pilot'', ''ramp'', ''capacity''} \<or> cp_maxUnfinished p \<le> cc_unfinished k
         \<or> (case cp_healthObservedAt p of None \<Rightarrow> True | Some t \<Rightarrow> t < now - 10 * 60000)
      then False
      else if cp_mode p = ''capacity'' then True
      else cc_startedInWindow k < cp_dailyBoardLimit p
        \<and> (case cp_healthySince p of None \<Rightarrow> False | Some t \<Rightarrow> t \<le> now - FIRST_COLLECTION_HEALTH_WINDOW_MS))"

text \<open>An admitted board takes a slot of the capacity while its batch is missing, served, due, or has postings
  that are not published or that may be processed now.\<close>

definition takes_slot :: "ms \<Rightarrow> ledger_db \<Rightarrow> listed_board \<Rightarrow> bool" where
  "takes_slot now db b \<longleftrightarrow>
     (case find (\<lambda>L. lb_collectionBatchId b = Some (batch_id L)) db of
        None \<Rightarrow> True
      | Some L \<Rightarrow> let r = bl_row L in
          b_claimToken r \<noteq> None \<and> later_than now (b_claimExpiresAt r)
          \<or> b_status r \<in> {''fetching'', ''partial''} \<and> lb_collectionHoldReason b = None
            \<and> (b_nextAcquireAt r = None \<or> due_by now (b_nextAcquireAt r))
          \<or> b_status r = ''synchronized'' \<and> b_publishedItemCount r < b_terminalItemCount r
          \<or> (\<exists>s \<in> set (bl_segments L). s_status s = ''sealed'' \<or> atsRunnableSegment now s))"

definition admitted_collection :: "listed_board \<Rightarrow> bool" where
  "admitted_collection b \<longleftrightarrow> isFirstCollectionPlatform (lb_platform b) \<and> lb_collectionState b = ''admitted''"

definition firstCollectionCounts :: "ms \<Rightarrow> bool \<Rightarrow> admission_state \<Rightarrow> collection_counts" where
  "firstCollectionCounts now capacity st =
     (if capacity
      then \<lparr>cc_unfinished = int (count_where (\<lambda>b. admitted_collection b \<and> takes_slot now (as_db st) b) (as_boards st)),
            cc_startedInWindow = 0\<rparr>
      else \<lparr>cc_unfinished = int (count_where admitted_collection (as_boards st)),
            cc_startedInWindow = int (count_where (\<lambda>b. isFirstCollectionPlatform (lb_platform b)
              \<and> later_than (now - 86400000) (lb_collectionAdmittedAt b)) (as_boards st))\<rparr>)"

text \<open>The boards a selection may offer: the established ones, and the ready ones while the allowance lasts.\<close>

definition pilot_name :: "listed_board \<Rightarrow> string" where
  "pilot_name b = lb_platform b @ ''::'' @ lb_slug b"

definition is_pilot :: "collection_policy \<Rightarrow> listed_board \<Rightarrow> bool" where
  "is_pilot p b \<longleftrightarrow> (case cp_pilotBoards p of None \<Rightarrow> False | Some names \<Rightarrow> pilot_name b \<in> set names)"

record collection_health =
  ch_healthy :: bool
  ch_items :: int
  ch_persistence :: int

definition staged_items :: "batch_row \<Rightarrow> int" where
  "staged_items b = max 0 (int (b_rawObservationCount b) - int (b_compactedOccurrenceCount b) - int (b_publishedItemCount b))"

definition runnable_legacy :: "ms \<Rightarrow> legacy_batch \<Rightarrow> bool" where
  "runnable_legacy now b \<longleftrightarrow> lg_status b = ''processing''
     \<or> lg_status b = ''queued'' \<and> (lg_nextProcessAt b = None \<or> due_by now (lg_nextProcessAt b))"

definition env_limit :: "(string \<Rightarrow> int option) \<Rightarrow> string \<Rightarrow> int \<Rightarrow> int" where
  "env_limit limit_env name fallback = (case limit_env name of Some n \<Rightarrow> if 0 < n then n else fallback | None \<Rightarrow> fallback)"

definition firstCollectionHealth ::
  "(string \<Rightarrow> int option) \<Rightarrow> bool \<Rightarrow> int \<Rightarrow> int \<Rightarrow> int \<Rightarrow> ms \<Rightarrow> admission_state \<Rightarrow> collection_health" where
  "firstCollectionHealth limit_env storageAllowed recoveryCapacity reserveJobs reserveBytes now st =
     (let staged = filter (\<lambda>b. b_writerMode b = ''v2'' \<and> b_status b \<in> {''fetching'', ''partial'', ''synchronized''})
            (map bl_row (as_db st));
          items = sum_list (map staged_items staged);
          bytes = sum_list (map (\<lambda>b. int (b_acquisitionBytes b)) staged);
          persistence = atsV2PersistenceCapacityBacklog recoveryCapacity now (as_db st)
            + sum_list (map (\<lambda>b. max 0 (int (lg_jobCount b) - int (lg_processingOffset b)))
                (filter (runnable_legacy now) (as_legacy st)));
          itemLimit = min (env_limit limit_env ''ATS_LEDGER_STAGING_ITEM_LOW_WATERMARK'' 50000)
            (env_limit limit_env ''ATS_LEDGER_STAGING_ITEM_HIGH_WATERMARK'' 100000);
          byteLimit = min (env_limit limit_env ''ATS_LEDGER_STAGING_BYTE_LOW_WATERMARK'' 750000000)
            (env_limit limit_env ''ATS_LEDGER_STAGING_BYTE_HIGH_WATERMARK'' 1500000000);
          persistenceLimit = env_limit limit_env ''ATS_ACQUISITION_JOB_LOW_WATERMARK'' 1000;
          catalogueByteReserve = reserveBytes * max 1 \<lceil>of_int reserveJobs / 20 :: rat\<rceil>
      in \<lparr>ch_healthy = (storageAllowed \<and> (case as_gate st of None \<Rightarrow> False | Some g \<Rightarrow> rg_admissionState g = ''open'')
            \<and> items + reserveJobs < itemLimit \<and> bytes + catalogueByteReserve < byteLimit
            \<and> persistence + reserveJobs < persistenceLimit),
          ch_items = items, ch_persistence = persistence\<rparr>)"

definition observed_policy :: "ms \<Rightarrow> ms option \<Rightarrow> collection_health \<Rightarrow> collection_policy \<Rightarrow> collection_policy" where
  "observed_policy now healthySince health p = p\<lparr>cp_healthySince := (if ch_healthy health then healthySince else None),
     cp_healthObservedAt := Some now, cp_lastStagedItems := Some (ch_items health),
     cp_lastPersistenceJobs := Some (ch_persistence health)\<rparr>"

definition later_or :: "ms \<Rightarrow> ms option \<Rightarrow> ms" where
  "later_or now t = (case t of None \<Rightarrow> now | Some x \<Rightarrow> x)"

definition grew :: "int option \<Rightarrow> int \<Rightarrow> bool" where
  "grew before n \<longleftrightarrow> (case before of None \<Rightarrow> False | Some m \<Rightarrow> m < n)"

definition reserved_board :: "string \<Rightarrow> string \<Rightarrow> string \<Rightarrow> ms \<Rightarrow> listed_board \<Rightarrow> listed_board" where
  "reserved_board slug platform batchId now b =
     (if named_board slug platform b \<and> lb_collectionState b = ''ready''
      then b\<lparr>lb_collectionState := ''admitted'', lb_collectionBatchId := Some batchId, lb_collectionAdmittedAt := Some now\<rparr>
      else b)"

text \<open>A refusal keeps what it has observed of the health.\<close>

definition reserveFirstCollection ::
  "(string \<Rightarrow> int option) \<Rightarrow> bool \<Rightarrow> int \<Rightarrow> ms \<Rightarrow> string \<Rightarrow> string \<Rightarrow> string \<Rightarrow> admission_state \<Rightarrow> bool \<times> admission_state" where
  "reserveFirstCollection limit_env storageAllowed recoveryCapacity now slug platform batchId st0 =
     (if \<not> isFirstCollectionPlatform platform then (True, st0)
      else
        let st = reconcileFirstCollectionCompletion st0 in
        (case find (named_board slug platform) (as_boards st) of
           None \<Rightarrow> (False, st)
         | Some current \<Rightarrow>
             if lb_collectionState current = ''established'' then (True, st)
             else if lb_collectionState current \<noteq> ''ready'' then (False, st)
             else (case as_policy st of
                None \<Rightarrow> (False, st)
              | Some p \<Rightarrow>
                  let health = firstCollectionHealth limit_env storageAllowed recoveryCapacity (cp_maxCatalogueJobs p)
                        (cp_maxResponseBytes p) now st;
                      capacity = (cp_mode p = ''capacity'');
                      st1 = (if capacity
                        then st\<lparr>as_policy := Some (observed_policy now (Some (later_or now (cp_healthySince p))) health p)\<rparr>
                        else st);
                      allowed = firstCollectionAllowance
                        (if capacity then p\<lparr>cp_healthObservedAt := Some now\<rparr> else p) (firstCollectionCounts now capacity st) now;
                      growing = (grew (cp_lastStagedItems p) (ch_items health)
                        \<or> grew (cp_lastPersistenceJobs p) (ch_persistence health));
                      reserved = map (reserved_board slug platform batchId now) (as_boards st1)
                  in
                  if capacity \<and> \<not> ch_healthy health then (False, st1)
                  else if \<not> allowed then (False, st1)
                  else if cp_mode p = ''pilot'' \<and> \<not> is_pilot p current then (False, st1)
                  else if cp_maxCatalogueJobs p < int (co_jobsFound (lb_row current)) then (False, st1)
                  else if \<not> ch_healthy health \<or> \<not> capacity \<and> growing
                  then (False, st\<lparr>as_policy := Some (observed_policy now (Some now) health p)\<rparr>)
                  else (count_where (\<lambda>b. named_board slug platform b \<and> lb_collectionState b = ''ready'') (as_boards st1) = 1,
                        st1\<lparr>as_boards := reserved\<rparr>))))"

section \<open>Validation turns\<close>

text \<open>How the health of the backlog carries over between turns of the validator.\<close>

definition nextFirstCollectionHealthySince :: "collection_health \<Rightarrow> collection_policy \<Rightarrow> ms \<Rightarrow> ms option" where
  "nextFirstCollectionHealthySince health p now =
     (if \<not> ch_healthy health then None
      else
        let growing = (grew (cp_lastStagedItems p) (ch_items health) \<or> grew (cp_lastPersistenceJobs p) (ch_persistence health));
            stale = (case cp_healthObservedAt p of None \<Rightarrow> True | Some t \<Rightarrow> 10 * 60000 < now - t)
        in if growing \<or> stale then Some now else Some (later_or now (cp_healthySince p)))"

definition FIRST_COLLECTION_DAY :: ms where "FIRST_COLLECTION_DAY = 86400000"

definition missingCareerResponse :: "string option \<Rightarrow> string option" where
  "missingCareerResponse reason =
     (if reason \<in> {Some ''Career page HTTP 404'', Some ''Feed HTTP 404''} then Some ''404''
      else if reason \<in> {Some ''Career page HTTP 410'', Some ''Feed HTTP 410''} then Some ''410''
      else None)"

definition firstCollectionRetryAt :: "string option \<Rightarrow> string option \<Rightarrow> ms \<Rightarrow> ms" where
  "firstCollectionRetryAt reason previousReason finishedAt =
     (let missing = missingCareerResponse reason;
          longerHold = (reason = Some ''Vendor service address, not an employer career board'' \<or> missing = Some ''410''
            \<or> missing \<noteq> None \<and> missingCareerResponse previousReason \<noteq> None);
          days = (if longerHold then 30 else if missing \<noteq> None then 7 else 1)
      in finishedAt + days * FIRST_COLLECTION_DAY)"

definition legacyMissingCareerRetryAt :: "string option \<Rightarrow> ms option \<Rightarrow> ms \<Rightarrow> ms option" where
  "legacyMissingCareerRetryAt lastError lastValidationStartedAt nextValidationAt =
     (case lastValidationStartedAt of
        None \<Rightarrow> None
      | Some startedAt \<Rightarrow>
          let elapsed = nextValidationAt - startedAt in
          if missingCareerResponse lastError = None \<or> elapsed < FIRST_COLLECTION_DAY
             \<or> FIRST_COLLECTION_DAY + 3 * 60000 < elapsed
          then None
          else Some (firstCollectionRetryAt lastError None (nextValidationAt - FIRST_COLLECTION_DAY)))"

text \<open>A hold is only ever made longer.\<close>

lemma legacy_retry_never_shorter:
  assumes "legacyMissingCareerRetryAt e started next_at = Some t"
  shows "next_at < t"
  using assms by (auto simp: legacyMissingCareerRetryAt_def firstCollectionRetryAt_def FIRST_COLLECTION_DAY_def Let_def
      split: option.splits if_splits)

text \<open>\<open>refillFirstCollections\<close>: the outcomes of the turns; \<open>tick n\<close> is the outcome of turn \<open>n\<close> and \<open>clock n\<close> the
  time before it.\<close>

primrec refill_turns :: "(nat \<Rightarrow> string) \<Rightarrow> (nat \<Rightarrow> ms) \<Rightarrow> ms \<Rightarrow> ms \<Rightarrow> nat \<Rightarrow> nat \<Rightarrow> string list" where
  "refill_turns tick clock startedAt maximumDurationMs 0 attempts = []"
| "refill_turns tick clock startedAt maximumDurationMs (Suc left) attempts =
     (if maximumDurationMs \<le> clock attempts - startedAt then []
      else tick attempts #
        (if tick attempts \<in> {''waiting_for_admission_conditions'', ''expired_validation_lease'', ''policy_changed_during_validation''}
         then [] else refill_turns tick clock startedAt maximumDurationMs left (attempts + 1)))"

definition refillFirstCollections :: "(nat \<Rightarrow> string) \<Rightarrow> (nat \<Rightarrow> ms) \<Rightarrow> ms \<Rightarrow> nat \<Rightarrow> ms \<Rightarrow> nat \<times> (string \<Rightarrow> nat)" where
  "refillFirstCollections tick clock startedAt maximumAttempts maximumDurationMs =
     (let outcomes = refill_turns tick clock startedAt maximumDurationMs maximumAttempts 0
      in (length outcomes, count_list outcomes))"

lemma refill_bounded: "length (refill_turns tick clock startedAt d n k) \<le> n"
  by (induction n arbitrary: k) auto

section \<open>The admission of a board\<close>

datatype admission_error = Authority_gate_required

definition open_batch :: "string \<Rightarrow> string \<Rightarrow> admission_state \<Rightarrow> bool" where
  "open_batch slug platform st \<longleftrightarrow>
     (\<exists>L \<in> set (as_db st). b_slug (bl_row L) = slug \<and> b_platform (bl_row L) = platform
        \<and> b_status (bl_row L) \<in> {''fetching'', ''partial'', ''synchronized''})
     \<or> (\<exists>b \<in> set (as_legacy st). lg_slug b = slug \<and> lg_platform b = platform
        \<and> lg_status b \<in> {''fetching'', ''partial'', ''synchronized''})"

definition authority_active :: "runtime_gate \<Rightarrow> bool" where
  "authority_active g \<longleftrightarrow> rg_v2AuthorityActivatedAt g \<noteq> None
     \<and> int ATS_LEDGER_VERSION \<le> (case rg_activatedLedgerVersion g of None \<Rightarrow> 0 | Some n \<Rightarrow> n)
     \<and> ATS_ACQUISITION_WRITER_VERSION \<le> rg_minimumWriterVersion g
     \<and> ATS_ACQUISITION_WRITER_VERSION \<le> rg_compatibilityWriterVersion g"

definition create_batch ::
  "host \<Rightarrow> (string \<Rightarrow> int option) \<Rightarrow> int \<Rightarrow> ms \<Rightarrow> admission \<Rightarrow> board_row \<Rightarrow> admission_state \<Rightarrow> ledger_claim option \<times> admission_state" where
  "create_batch h limit_env recoveryCapacity now a board st =
     (let (reserved, st1) = reserveFirstCollection limit_env True recoveryCapacity now (ad_slug a) (ad_platform a) (ad_batchId a) st
      in if \<not> reserved then (None, st1)
         else (Some (admitted_claim a), st1\<lparr>as_db := as_db st1 @ [admitted_ledger h now a board]\<rparr>))"

definition todays_board :: "host \<Rightarrow> ms \<Rightarrow> listed_board \<Rightarrow> bool" where
  "todays_board h now b \<longleftrightarrow> co_status (lb_row b) = ''active''
     \<and> isAtsBoardInRotationCohort (rotation_board b) (apiRotationDayFor (h_wall h) now)"

definition admitAtsV2Board ::
  "host \<Rightarrow> (string \<Rightarrow> int option) \<Rightarrow> int \<Rightarrow> ms \<Rightarrow> bool \<Rightarrow> admission \<Rightarrow> admission_state
    \<Rightarrow> admission_error + ledger_claim option \<times> admission_state" where
  "admitAtsV2Board h limit_env recoveryCapacity now storageAllowed a st =
     (let pressure = atsV2StagingSnapshot h now (as_db st) in
      if \<not> storageAllowed \<or> ad_platform a \<in> set NON_API_ATS_PLATFORMS then Inr (None, st)
      else (case find (named_board (ad_slug a) (ad_platform a)) (as_boards st) of
        None \<Rightarrow> Inr (None, st)
      | Some b \<Rightarrow>
          if lb_acquisitionEngine b \<noteq> ''v2'' \<or> now < co_nextCheckDate (lb_row b) then Inr (None, st)
          else if ap_admissionBlocked pressure \<and> \<not> (ap_cohortAdmissionAllowed pressure \<and> todays_board h now b)
          then Inr (None, st)
          else (case as_gate st of
            None \<Rightarrow> Inl Authority_gate_required
          | Some g \<Rightarrow>
              if rg_admissionState g \<noteq> ''open'' then Inr (None, st)
              else if \<not> authority_active g then Inl Authority_gate_required
              else if open_batch (ad_slug a) (ad_platform a) st then Inr (None, st)
              else
                let claim = create_batch h limit_env recoveryCapacity now a (lb_row b) in
                Inr (if ap_admissionBlocked pressure
                     then withAtsListingCapacity as_db now ATS_COHORT_PRESSURE_LISTING_CONCURRENCY claim st
                     else claim st))))"

section \<open>What an admission keeps\<close>

lemma reserve_keeps_db: "as_db (snd (reserveFirstCollection limit_env storage rc now slug platform batchId st)) = as_db st"
  "as_legacy (snd (reserveFirstCollection limit_env storage rc now slug platform batchId st)) = as_legacy st"
  by (auto simp: reserveFirstCollection_def reconcileFirstCollectionCompletion_def Let_def split: option.split)

lemma created:
  assumes "create_batch h limit_env rc now a board st = (Some k, st')"
  shows "k = admitted_claim a \<and> as_db st' = as_db st @ [admitted_ledger h now a board] \<and> as_legacy st' = as_legacy st"
proof -
  obtain r st1 where st1: "reserveFirstCollection limit_env True rc now (ad_slug a) (ad_platform a) (ad_batchId a) st = (r, st1)"
    by (cases "reserveFirstCollection limit_env True rc now (ad_slug a) (ad_platform a) (ad_batchId a) st") auto
  with reserve_keeps_db [of limit_env True rc now "ad_slug a" "ad_platform a" "ad_batchId a" st]
  have "as_db st1 = as_db st" "as_legacy st1 = as_legacy st" by simp_all
  with assms st1 show ?thesis by (auto simp: create_batch_def split: if_splits)
qed

lemma admission_cases:
  assumes "admitAtsV2Board h limit_env rc now storage a st = Inr (Some k, st')"
  obtains b g where "find (named_board (ad_slug a) (ad_platform a)) (as_boards st) = Some b" and "as_gate st = Some g"
    and "ad_platform a \<notin> set NON_API_ATS_PLATFORMS" and "lb_acquisitionEngine b = ''v2''" and "co_nextCheckDate (lb_row b) \<le> now"
    and "ap_admissionBlocked (atsV2StagingSnapshot h now (as_db st)) \<Longrightarrow>
      ap_cohortAdmissionAllowed (atsV2StagingSnapshot h now (as_db st)) \<and> todays_board h now b"
    and "rg_admissionState g = ''open''" and "authority_active g" and "\<not> open_batch (ad_slug a) (ad_platform a) st"
    and "(if ap_admissionBlocked (atsV2StagingSnapshot h now (as_db st))
      then withAtsListingCapacity as_db now 2 (create_batch h limit_env rc now a (lb_row b)) st
      else create_batch h limit_env rc now a (lb_row b) st) = (Some k, st')"
  using assms unfolding admitAtsV2Board_def Let_def
  by (auto simp: ATS_COHORT_PRESSURE_LISTING_CONCURRENCY_def split: if_splits option.splits)

lemma admitted_db:
  assumes "admitAtsV2Board h limit_env rc now storage a st = Inr (Some k, st')"
  obtains b where "named_board (ad_slug a) (ad_platform a) b" and "b \<in> set (as_boards st)"
    and "k = admitted_claim a" and "as_db st' = as_db st @ [admitted_ledger h now a (lb_row b)]"
  using assms
proof (cases rule: admission_cases)
  case (1 b g)
  then have "create_batch h limit_env rc now a (lb_row b) st = (Some k, st')"
    by (auto simp: withAtsListingCapacity_def split: if_splits)
  with 1 that [of b] show thesis by (auto dest: created find_SomeD)
qed

text \<open>An admission is a step of the ledger.\<close>

lemma admission_step:
  assumes "admitAtsV2Board h limit_env rc now storage a st = Inr (Some k, st')"
    and "ad_batchId a \<notin> batch_id ` set (as_db st)"
  shows "ledger_step h (as_db st) (as_db st')"
  using assms(1)
proof (cases rule: admitted_db)
  case (1 b)
  then show ?thesis using Admit [OF assms(2)] by simp
qed

lemma count_where_snoc [simp]: "count_where P (xs @ [x]) = count_where P xs + (if P x then 1 else 0)"
  by (simp add: count_where_def)

lemma admission_drain [simp]: "\<not> drain_work (admitted_row h now a)"
  by (simp add: drain_work_def admitted_row_def ATS_V2_DRAIN_PHASES_def)

text \<open>C20. Under pressure the listing producers are capped. When a worker with a cap continues a listing, or a
  board is admitted while the staging pressure blocks ordinary admissions, and there is drain work to
  do, then afterwards no more listings are being served than the cap, or two for an admission. The other
  workers may do anything before the claim.\<close>

theorem listing_producers_capped:
  assumes "distinct (map batch_id (others 0 db))"
    and "claimNextAtsV2Continuation h now storage owner fresh others (Some n) False db = (Some k, db')
        \<and> cl_acquisitionPhase k = ''listing''
      \<or> admitAtsV2Board h limit_env rc now storage a st = Inr (Some k, st')
        \<and> ap_admissionBlocked (atsV2StagingSnapshot h now (as_db st)) \<and> db' = as_db st' \<and> n = 2"
    and "\<exists>L \<in> set db'. drain_work (bl_row L)"
  shows "int (count_where (\<lambda>L. live_listing now (bl_row L)) db') \<le> max 1 n"
  using assms(2)
proof (elim disjE conjE)
  assume claim: "claimNextAtsV2Continuation h now storage owner fresh others (Some n) False db = (Some k, db')"
    and listing: "cl_acquisitionPhase k = ''listing''"
  show ?thesis by (rule capped_continuation [OF claim listing assms(1,3)])
next
  assume admit: "admitAtsV2Board h limit_env rc now storage a st = Inr (Some k, st')"
    and blocked: "ap_admissionBlocked (atsV2StagingSnapshot h now (as_db st))" and eq: "db' = as_db st'" "n = 2"
  obtain b :: listed_board where capped: "withAtsListingCapacity as_db now 2 (create_batch h limit_env rc now a (lb_row b)) st = (Some k, st')"
  proof (use admit in \<open>cases rule: admission_cases\<close>)
    case (1 b g)
    show thesis by (rule that [of b]) (use 1(10) blocked in simp)
  qed
  obtain b' :: listed_board where db': "as_db st' = as_db st @ [admitted_ledger h now a (lb_row b')]"
    using admit by (cases rule: admitted_db)
  have "\<exists>L \<in> set (as_db st). drain_work (bl_row L)"
    using assms(3) unfolding eq db' by (auto simp: admitted_ledger_def)
  with capped have "int (count_where (\<lambda>L. live_listing now (bl_row L)) (as_db st)) < 2"
    by (auto simp: withAtsListingCapacity_def split: if_splits)
  then show ?thesis unfolding eq db' by simp
qed

lemma cohort_agrees:
  assumes "lb_platform b \<notin> set NON_API_ATS_PLATFORMS" and "named_board (ad_slug a) (ad_platform a) b"
  shows "today_cohort h now (admitted_ledger h now a (lb_row b)) \<longleftrightarrow> todays_board h now b"
  using assms
  by (auto simp: today_cohort_def todays_board_def atsRotationCohortSql_def isAtsBoardInRotationCohort_def ledger_board_def
      rotation_board_def admitted_ledger_def admitted_row_def named_board_def isDailyAtsBoard_def)

lemma counts_after_admission:
  assumes "ad_platform a \<notin> set NON_API_ATS_PLATFORMS"
  shows "staging_counts_of h now (db @ [admitted_ledger h now a r]) =
    (let k = staging_counts_of h now db in k\<lparr>sc_unfinishedListings := sc_unfinishedListings k + 1,
       sc_cohortUnfinishedListings := Some (the (sc_cohortUnfinishedListings k)
         + (if today_cohort h now (admitted_ledger h now a r) then 1 else 0))\<rparr>)"
  using assms work_lease_pos [of h]
  by (auto simp: staging_counts_of_def Let_def admitted_ledger_def admitted_row_def staged_batch_def
      atsListingAdmissionReservation_def later_than_def)

lemma cohort_counted: "\<exists>n. sc_cohortUnfinishedListings (staging_counts_of h now db) = Some n"
  by (simp add: staging_counts_of_def Let_def)

lemma open_pressure:
  assumes "\<not> ap_admissionBlocked (evaluateAtsAcquisitionPressure h k)"
  shows "sc_items k < ATS_LEDGER_STAGING_ITEM_HIGH_WATERMARK h div 2 \<and> sc_bytes k < ATS_LEDGER_STAGING_BYTE_HIGH_WATERMARK h div 2
    \<and> sc_unfinishedListings k < ATS_V2_MAX_UNFINISHED_LISTINGS h"
  using assms by (simp add: evaluateAtsAcquisitionPressure_def Let_def split: if_splits)

lemma cohort_pressure:
  assumes "ap_cohortAdmissionAllowed (evaluateAtsAcquisitionPressure h k)" and "sc_cohortUnfinishedListings k = Some n"
  shows "sc_items k < ATS_LEDGER_STAGING_ITEM_HIGH_WATERMARK h div 2 \<and> sc_bytes k < ATS_LEDGER_STAGING_BYTE_HIGH_WATERMARK h div 2
    \<and> n < ATS_V2_MAX_UNFINISHED_LISTINGS h"
  using assms by (simp add: evaluateAtsAcquisitionPressure_def Let_def)

text \<open>C19. An admission never lifts the staging above its allowance. After a board is admitted the staged
  postings and bytes are below half of their watermarks, and the listings that hold a slot are within the
  allowance, those of all boards or, for a board of today's cohort, those of the cohort; the new
  batch is the only open one of its board, among the batches of this ledger and of the previous one, and
  the board was due under an open gate of the current writer.\<close>

theorem admission_respects_pressure:
  assumes "admitAtsV2Board h limit_env rc now storage a st = Inr (Some k, st')"
  shows "(let after = staging_counts_of h now (as_db st') in
      sc_items after < ATS_LEDGER_STAGING_ITEM_HIGH_WATERMARK h div 2
      \<and> sc_bytes after < ATS_LEDGER_STAGING_BYTE_HIGH_WATERMARK h div 2
      \<and> (sc_unfinishedListings after \<le> ATS_V2_MAX_UNFINISHED_LISTINGS h
        \<or> (\<exists>n b. sc_cohortUnfinishedListings after = Some n \<and> n \<le> ATS_V2_MAX_UNFINISHED_LISTINGS h
            \<and> b \<in> set (as_boards st) \<and> named_board (ad_slug a) (ad_platform a) b \<and> todays_board h now b)))
    \<and> filter (\<lambda>L. b_slug (bl_row L) = ad_slug a \<and> b_platform (bl_row L) = ad_platform a
          \<and> b_status (bl_row L) \<in> {''fetching'', ''partial'', ''synchronized''}) (as_db st') = [last (as_db st')]
    \<and> filter (\<lambda>b. lg_slug b = ad_slug a \<and> lg_platform b = ad_platform a
          \<and> lg_status b \<in> {''fetching'', ''partial'', ''synchronized''}) (as_legacy st') = []
    \<and> b_id (bl_row (last (as_db st'))) = ad_batchId a \<and> b_slug (bl_row (last (as_db st'))) = ad_slug a
    \<and> (\<exists>g. as_gate st = Some g \<and> rg_admissionState g = ''open'' \<and> authority_active g)
    \<and> (\<exists>b \<in> set (as_boards st). named_board (ad_slug a) (ad_platform a) b \<and> co_nextCheckDate (lb_row b) \<le> now)"
  using assms
proof (cases rule: admission_cases)
  case (1 b g)
  have b: "b \<in> set (as_boards st)" "named_board (ad_slug a) (ad_platform a) b" using 1(1) by (auto dest: find_SomeD)
  have "create_batch h limit_env rc now a (lb_row b) st = (Some k, st')"
    using 1(10) by (auto simp: withAtsListingCapacity_def split: if_splits)
  then have db': "as_db st' = as_db st @ [admitted_ledger h now a (lb_row b)]" and kept: "as_legacy st' = as_legacy st"
    by (auto dest: created)
  let ?k = "staging_counts_of h now (as_db st)" and ?k' = "staging_counts_of h now (as_db st')"
  have k': "sc_items ?k' = sc_items ?k" "sc_bytes ?k' = sc_bytes ?k" "sc_unfinishedListings ?k' = sc_unfinishedListings ?k + 1"
    "sc_cohortUnfinishedListings ?k' = Some (the (sc_cohortUnfinishedListings ?k)
       + (if today_cohort h now (admitted_ledger h now a (lb_row b)) then 1 else 0))"
    unfolding db' counts_after_admission [OF 1(3)] by (simp_all add: Let_def)
  obtain n where n: "sc_cohortUnfinishedListings ?k = Some n" using cohort_counted by blast
  have room: "sc_items ?k < ATS_LEDGER_STAGING_ITEM_HIGH_WATERMARK h div 2 \<and> sc_bytes ?k < ATS_LEDGER_STAGING_BYTE_HIGH_WATERMARK h div 2
    \<and> (sc_unfinishedListings ?k < ATS_V2_MAX_UNFINISHED_LISTINGS h \<or> n < ATS_V2_MAX_UNFINISHED_LISTINGS h \<and> todays_board h now b)"
    using 1(6) open_pressure [of h ?k] cohort_pressure [OF _ n, of h] unfolding atsV2StagingSnapshot_def by blast
  have "filter (\<lambda>L. b_slug (bl_row L) = ad_slug a \<and> b_platform (bl_row L) = ad_platform a
      \<and> b_status (bl_row L) \<in> {''fetching'', ''partial'', ''synchronized''}) (as_db st) = []"
    using 1(9) by (auto simp: open_batch_def filter_empty_conv)
  then have "filter (\<lambda>L. b_slug (bl_row L) = ad_slug a \<and> b_platform (bl_row L) = ad_platform a
      \<and> b_status (bl_row L) \<in> {''fetching'', ''partial'', ''synchronized''}) (as_db st') = [last (as_db st')]"
    unfolding db' by (simp add: admitted_ledger_def admitted_row_def)
  moreover have "filter (\<lambda>b. lg_slug b = ad_slug a \<and> lg_platform b = ad_platform a
      \<and> lg_status b \<in> {''fetching'', ''partial'', ''synchronized''}) (as_legacy st') = []"
    using 1(9) unfolding kept by (auto simp: open_batch_def filter_empty_conv)
  moreover have "b_id (bl_row (last (as_db st'))) = ad_batchId a \<and> b_slug (bl_row (last (as_db st'))) = ad_slug a"
    unfolding db' by (simp add: admitted_ledger_def admitted_row_def)
  ultimately show ?thesis using room k' n b 1 by (auto simp: Let_def)
qed

section \<open>First collections stay bounded\<close>

lemma count_where_mono: "(\<And>x. x \<in> set xs \<Longrightarrow> P (f x) \<Longrightarrow> Q x) \<Longrightarrow> count_where P (map f xs) \<le> count_where Q xs"
  by (induction xs) (auto simp: count_where_def)

lemma count_where_le_add:
  "(\<And>x. x \<in> set xs \<Longrightarrow> P (f x) \<Longrightarrow> Q x \<or> R x) \<Longrightarrow> count_where P (map f xs) \<le> count_where Q xs + count_where R xs"
  by (induction xs) (auto simp: count_where_def)

lemma reconcile_counts: "count_where admitted_collection (as_boards (reconcileFirstCollectionCompletion st))
    \<le> count_where admitted_collection (as_boards st)"
  unfolding reconcileFirstCollectionCompletion_def
  by simp (rule count_where_mono, auto simp: completed_board_def admitted_collection_def split: if_splits)

lemma reserve_counts:
  "count_where admitted_collection (map (reserved_board slug platform batchId now) bs)
    \<le> count_where admitted_collection bs + count_where (\<lambda>b. named_board slug platform b \<and> lb_collectionState b = ''ready'') bs"
  by (rule count_where_le_add) (auto simp: reserved_board_def admitted_collection_def split: if_splits)

definition board_key :: "listed_board \<Rightarrow> string \<times> string" where
  "board_key b = (lb_slug b, lb_platform b)"

lemma one_named:
  assumes "distinct (map board_key bs)" and "b \<in> set bs" and "named_board slug platform b" and "P b"
  shows "count_where (\<lambda>x. named_board slug platform x \<and> P x) bs = 1"
proof -
  obtain us vs where bs: "bs = us @ b # vs" using assms(2) by (auto dest: split_list)
  have "board_key x \<noteq> board_key b" if "x \<in> set us \<union> set vs" for x
    using that assms(1) unfolding bs by (auto simp: image_iff)
  then have "\<not> named_board slug platform x" if "x \<in> set us \<union> set vs" for x
    using that assms(3) by (auto simp: named_board_def board_key_def)
  then have "filter (\<lambda>x. named_board slug platform x \<and> P x) us = []" "filter (\<lambda>x. named_board slug platform x \<and> P x) vs = []"
    by (auto simp: filter_empty_conv)
  with assms(3,4) show ?thesis by (simp add: count_where_def bs)
qed

lemma reconcile_keys: "map board_key (as_boards (reconcileFirstCollectionCompletion st)) = map board_key (as_boards st)"
  by (simp add: reconcileFirstCollectionCompletion_def completed_board_def board_key_def)

text \<open>Outside of the capacity mode the first collections stay within the policy. A reservation never
  raises the number of admitted first collections above both what it was and the policy's maximum, and it
  admits none while the policy is held; a refused one admits none.\<close>

theorem first_collections_stay_bounded:
  assumes "reserveFirstCollection limit_env storage rc now slug platform batchId st = (r, st')"
    and "as_policy st = Some p" and "cp_mode p \<noteq> ''capacity''"
    and "distinct (map board_key (as_boards st))"
  shows "int (count_where admitted_collection (as_boards st'))
      \<le> max (int (count_where admitted_collection (as_boards st))) (cp_maxUnfinished p)
    \<and> (\<not> r \<or> cp_mode p = ''held'' \<longrightarrow> count_where admitted_collection (as_boards st') \<le> count_where admitted_collection (as_boards st))"
proof -
  let ?st = "reconcileFirstCollectionCompletion st"
  let ?n = "count_where admitted_collection (as_boards ?st)"
  have base: "?n \<le> count_where admitted_collection (as_boards st)" by (rule reconcile_counts)
  have policy: "as_policy ?st = Some p" using assms(2) by (simp add: reconcileFirstCollectionCompletion_def)
  consider "as_boards st' = as_boards st" | "as_boards st' = as_boards ?st"
    | "r" "as_boards st' = map (reserved_board slug platform batchId now) (as_boards ?st)"
      "count_where (\<lambda>b. named_board slug platform b \<and> lb_collectionState b = ''ready'') (as_boards ?st) = 1"
      "firstCollectionAllowance p (firstCollectionCounts now False ?st) now"
    | current where "count_where (\<lambda>b. named_board slug platform b \<and> lb_collectionState b = ''ready'') (as_boards ?st) \<noteq> 1"
      "find (named_board slug platform) (as_boards ?st) = Some current" "lb_collectionState current = ''ready''"
    using assms(1,3) policy unfolding reserveFirstCollection_def Let_def
    by (auto split: if_splits option.splits)
  then show ?thesis
  proof cases
    case 3
    then have "cp_mode p \<noteq> ''held''" "int ?n < cp_maxUnfinished p"
      by (auto simp: firstCollectionAllowance_def firstCollectionCounts_def split: if_splits)
    moreover have "count_where admitted_collection (as_boards st') \<le> ?n + 1"
      using reserve_counts [of slug platform batchId now "as_boards ?st"] 3 by simp
    ultimately show ?thesis using 3(1) base by auto
  next
    case 4
    with one_named [of "as_boards ?st" current slug platform "\<lambda>b. lb_collectionState b = ''ready''"] assms(4)
    show ?thesis by (auto simp: reconcile_keys dest: find_SomeD)
  qed (use base in \<open>auto\<close>)
qed

section \<open>Samples\<close>

definition draining_batch :: batch_ledger where
  "draining_batch = sample_waiting\<lparr>bl_row := (bl_row sample_waiting)\<lparr>b_id := ''drain'', b_acquisitionPhase := ''compaction''\<rparr>\<rparr>"

definition sample_pressured :: "ledger_claim option \<times> ledger_db" where
  "sample_pressured = claimNextAtsV2Continuation run_host 4 True ''o'' (\<lambda>n. (''t'', ''w'')) (\<lambda>n db. db) (Some 1) False
     [draining_batch, sample_waiting]"

theorem listing_producers_capped_witness:
  "map_option cl_acquisitionPhase (fst sample_pressured) = Some ''listing''
    \<and> int (count_where (\<lambda>L. live_listing 4 (bl_row L)) (snd sample_pressured)) \<le> max 1 1"
proof -
  have got: "map_option cl_acquisitionPhase (fst sample_pressured) = Some ''listing''" by code_simp
  then obtain k where k: "fst sample_pressured = Some k" "cl_acquisitionPhase k = ''listing''" by auto
  have "distinct (map batch_id [draining_batch, sample_waiting])" by code_simp
  moreover have "\<exists>L \<in> set (snd sample_pressured). drain_work (bl_row L)" by code_simp
  moreover have "claimNextAtsV2Continuation run_host 4 True ''o'' (\<lambda>n. (''t'', ''w'')) (\<lambda>n db. db) (Some 1) False
     [draining_batch, sample_waiting] = (Some k, snd sample_pressured)"
    using k(1) unfolding sample_pressured_def by (metis prod.collapse)
  ultimately show ?thesis
    using listing_producers_capped [of "\<lambda>n db. db" "[draining_batch, sample_waiting]" run_host 4 True "''o''" "\<lambda>n. (''t'', ''w'')" 1 k
        "snd sample_pressured"] k got by auto
qed

definition sample_board :: "string \<Rightarrow> string \<Rightarrow> listed_board" where
  "sample_board platform state = \<lparr>lb_slug = ad_slug sample_admission, lb_platform = platform, lb_acquisitionEngine = ''v2'',
     lb_row = sample_company, lb_collectionState = state, lb_collectionBatchId = None, lb_collectionAdmittedAt = None,
     lb_collectionCompletedAt = None, lb_collectionHoldReason = None\<rparr>"

definition sample_policy :: collection_policy where
  "sample_policy = \<lparr>cp_mode = ''ramp'', cp_dailyBoardLimit = 5, cp_maxUnfinished = 1, cp_maxCatalogueJobs = 250,
     cp_maxResponseBytes = 5242880, cp_pilotBoards = Some [], cp_healthySince = Some 0, cp_healthObservedAt = Some 1000000,
     cp_lastStagedItems = None, cp_lastPersistenceJobs = None\<rparr>"

definition sample_state :: admission_state where
  "sample_state = \<lparr>as_db = [], as_boards = [sample_board (ad_platform sample_admission) ''established'', sample_board ''gem'' ''ready''],
     as_policy = Some sample_policy,
     as_gate = Some \<lparr>rg_admissionState = ''open'', rg_minimumWriterVersion = 3, rg_compatibilityWriterVersion = 3,
       rg_v2AuthorityActivatedAt = Some 0, rg_activatedLedgerVersion = Some 2\<rparr>,
     as_legacy = []\<rparr>"

definition sample_admit :: "admission_error + ledger_claim option \<times> admission_state" where
  "sample_admit = admitAtsV2Board run_host (\<lambda>v. None) 100 1000000 True sample_admission sample_state"

definition sample_admitted_state :: admission_state where
  "sample_admitted_state = (case sample_admit of Inl e \<Rightarrow> sample_state | Inr (k, st) \<Rightarrow> st)"

theorem admission_respects_pressure_witness:
  "length (as_db sample_admitted_state) = 1
    \<and> sc_items (staging_counts_of run_host 1000000 (as_db sample_admitted_state))
      < ATS_LEDGER_STAGING_ITEM_HIGH_WATERMARK run_host div 2"
proof -
  have "(case sample_admit of Inl e \<Rightarrow> False | Inr (k, st) \<Rightarrow> k \<noteq> None)" by code_simp
  then obtain k st where st: "sample_admit = Inr (Some k, st)" by (auto split: sum.splits)
  then have "st = sample_admitted_state" unfolding sample_admitted_state_def st by simp
  with st have "admitAtsV2Board run_host (\<lambda>v. None) 100 1000000 True sample_admission sample_state = Inr (Some k, sample_admitted_state)"
    by (simp add: sample_admit_def)
  from admission_respects_pressure [OF this] have "sc_items (staging_counts_of run_host 1000000 (as_db sample_admitted_state))
      < ATS_LEDGER_STAGING_ITEM_HIGH_WATERMARK run_host div 2" by (simp add: Let_def)
  moreover have "length (as_db sample_admitted_state) = 1" by code_simp
  ultimately show ?thesis by blast
qed

theorem first_collections_stay_bounded_witness:
  "fst (reserveFirstCollection (\<lambda>v. None) True 100 1000000 (ad_slug sample_admission) ''gem'' ''b9'' sample_state)
    \<and> int (count_where admitted_collection (as_boards
        (snd (reserveFirstCollection (\<lambda>v. None) True 100 1000000 (ad_slug sample_admission) ''gem'' ''b9'' sample_state)))) \<le> 1"
proof -
  have "fst (reserveFirstCollection (\<lambda>v. None) True 100 1000000 (ad_slug sample_admission) ''gem'' ''b9'' sample_state)"
    "int (count_where admitted_collection (as_boards sample_state)) = 0" "distinct (map board_key (as_boards sample_state))"
    by code_simp+
  with first_collections_stay_bounded [OF prod.collapse [symmetric], where limit_env = "\<lambda>v. None" and storage = True and rc = 100 and now = 1000000
      and slug = "ad_slug sample_admission" and platform = "''gem''" and batchId = "''b9''" and st = sample_state and p = sample_policy]
  show ?thesis by (simp add: sample_state_def sample_policy_def)
qed

end
