(* ===== verification/Spec2Isabelle.thy ===== *)
theory Spec2Isabelle
  imports Reconciliation Pipeline Request_Pool Task_Lease Safe_Fetch Company_Cooldown Compaction
    Lenient_Json
    Worker_Slots Async_Control Same_Job Experience_Score
    Rotation_Review Ledger_Admission
begin

text \<open>
  The decision logic of the career dashboard: a web application that collects job postings from
  company boards and paid searches, scores them against one candidate, and files them in queues the
  user works through. The theories model the TypeScript modules under \<open>src/lib\<close> that decide, with
  what three maintenance scripts write; what talks to the network, the browser, the model providers or the screen is outside.

  \<^bold>\<open>How the program fits together.\<close> Ingestion tasks are claimed under leases and paced by provider
  budgets; company boards are swept by a rotation, through a bounded request pool and guarded
  fetches; the acquisition ledger records every page and posting a board lists, resolves and enriches the
  postings, seals them into segments and publishes these under watermarks to the workers that insert
  jobs; new jobs are admitted to the Inbox unless an
  active application or a repeat forbids it; scoring runs in two stages, Aim and Experience, and its
  results are events on the job; the queues are filters over the job table; the user's decisions
  outrank every automated step, which the lifecycle invariant checks in each transaction and the
  reconciliation repairs. One row coordinates the pipeline over the hosts, another table the slots
  of their workers.

  \<^bold>\<open>Theories and sources.\<close>

    \<^item> \<open>Prelude\<close>, \<open>Sql\<close>, \<open>Text_Pattern\<close>, \<open>Calendar\<close>, \<open>Lease\<close>: the JavaScript values and routines, the
      three-valued filters of the database, literal patterns, the UTC calendar, and the contract of a
      row that several hosts compete for (locales \<open>fenced_owner\<close> and \<open>comparator\<close>, interpreted on the
      models that provide them).
    \<^item> \<open>Lifecycle_Intent\<close> (\<open>userLifecycleAuthority.ts\<close>, \<open>failureQueueRetentionPolicy.ts\<close>,
      \<open>scoringLifecyclePolicy.ts\<close>), \<open>Score_Authority\<close> (\<open>scoreAuthority.ts\<close>, \<open>scoringFreshness.ts\<close>): what the user
      last decided and which score is in force, as functions of the event list of a job.
    \<^item> \<open>Operational_Queue\<close> (\<open>operationalQueue.ts\<close>, \<open>manualScoringEligibility.ts\<close>, \<open>localScoringPolicy.ts\<close>),
      \<open>Manual_Import\<close> (\<open>manualImportPolicy.ts\<close>): the filters on a row, \<open>NULL\<close> included.
    \<^item> \<open>Lifecycle_Invariant\<close> (\<open>jobLifecycleInvariant.ts\<close>), \<open>Reconciliation\<close>
      (\<open>lifecycleContradictionReconciliation.ts\<close>, \<open>scripts/reconcile_lifecycle_contradictions.ts\<close>): the
      check of a transaction and the repair of what it finds.
    \<^item> \<open>Canonical_Json\<close> (\<open>scoringCanonicalJson.ts\<close>), \<open>Lenient_Json\<close> (\<open>lenientJson.ts\<close>): the text under
      every content hash, and the recovery of provider JSON.
    \<^item> \<open>Pipeline\<close> (\<open>pipelineState.ts\<close>), \<open>Worker_Slots\<close> (\<open>atsAcquisitionCoordination.ts\<close>), \<open>Async_Control\<close>
      (\<open>latestOnlyAsyncWriter.ts\<close>, \<open>storagePressure.ts\<close>, \<open>pipelineLoopSupervisor.ts\<close>), \<open>Request_Pool\<close>
      (\<open>atsRequestConcurrency.ts\<close>): locks, leases, writers and pools. An operation is a function on the
      row or on the variables of the closure; the other hosts are arbitrary sequences of their
      operations, so a theorem about a holder quantifies over every interleaving.
    \<^item> \<open>Provider_Circuit\<close> (\<open>ingestionControl.ts\<close>, \<open>atsRequestPacing.ts\<close>, \<open>prismaTransactionErrors.ts\<close>, and the
      repair of \<open>scripts/ats_pipeline_watchdog.ts\<close> that reopens circuits),
      \<open>Task_Catalog\<close>, \<open>Task_Order\<close>, \<open>Task_Lease\<close> (\<open>ingestionControl.ts\<close>, \<open>jobSearchQueries.ts\<close>, \<open>jsearch.ts\<close>,
      \<open>linkedinSearch.ts\<close>): budgets and circuits of providers; identity, catalogue, order, windows, claims
      and completions of tasks.
    \<^item> \<open>Safe_Fetch\<close> (\<open>safeExternalFetch.ts\<close>), \<open>Compaction\<close> (\<open>atsPrequeueCompaction.ts\<close>), \<open>Rotation_Calendar\<close>,
      \<open>Rotation_Workload\<close>, \<open>Rotation_Review\<close> (\<open>atsRotation.ts\<close>, \<open>atsRotationWorkload.ts\<close>,
      \<open>atsRotationBalancing.ts\<close>): reaching, storing and scheduling the boards.
    \<^item> \<open>Ledger_State\<close>, \<open>Ledger_Listing\<close>, \<open>Ledger_Items\<close>, \<open>Ledger_Segments\<close>, \<open>Ledger_Finish\<close>
      (\<open>atsAcquisitionLedger.ts\<close>, \<open>atsRawEvidence.ts\<close>, \<open>atsEvidenceHash.ts\<close>, \<open>atsPersistenceAllocation.ts\<close>,
      \<open>atsProcessingSchedule.ts\<close>; the listing loops of \<open>atsAcquisitionDispatcherV2.ts\<close>): the life of a batch in
      the order of its phases. The rows of a batch and of its child tables are one record
      (\<open>batch_ledger\<close>), every exported transaction is a function that returns an error or the new record,
      and the claim, or the lease, under which a worker writes is checked as in the source.
    \<^item> \<open>Ledger_Invariant\<close>, \<open>Ledger_Run\<close>, \<open>Ledger_Evidence\<close>, \<open>Ledger_Properties\<close>: the invariant of a batch; the
      transactions as the step relations \<open>batch_step\<close> and \<open>ledger_step\<close>; the ledgers that can be reached by
      any interleaving of any number of workers; and what holds of all of them.
    \<^item> \<open>Ledger_Queue\<close> (\<open>atsAcquisitionPressure.ts\<close>, \<open>atsContinuationCapacity.ts\<close>, \<open>atsAdmissionCapacity.ts\<close>,
      \<open>atsEmployerRetry.ts\<close>, \<open>atsRotationCohort.ts\<close>) and \<open>Ledger_Admission\<close> (\<open>admitAtsV2Board\<close>,
      \<open>atsAcquisitionCompatibility.ts\<close>, \<open>atsFirstCollectionAdmission.ts\<close>, \<open>atsFirstCollectionRetry.ts\<close>, parts of
      \<open>atsFirstCollectionController.ts\<close>): which work a worker takes next, and which boards may start a cycle.
    \<^item> \<open>Company_Cooldown\<close> (\<open>companyCooldown.ts\<close>), \<open>Applied_Repeat\<close> (\<open>appliedRepeatMatch.ts\<close>,
      \<open>appliedDuplicateStore.ts\<close>, parts of \<open>appliedDuplicatePolicy.ts\<close> and \<open>workdayLocation.ts\<close>),
      \<open>Same_Job\<close> (\<open>sameJobMatch.ts\<close>, the plan of \<open>sameJobConsolidation.ts\<close>),
      \<open>Experience_Score\<close> (\<open>experienceScoringPolicy.ts\<close>, \<open>experienceFit.ts\<close>): admission to the Inbox, repeats of an
      application, the cards of one job from several sources, and the Experience score.

  \<^bold>\<open>What the theorems show.\<close> Exclusion and survival of leases and locks under any interleaving; budgets
  never overspent and protections that only a repair on evidence about one board revokes early; the queues partition the waiting jobs; a check,
  an admission or a plan agrees with what it stands for (the admission with the later
  repair, the plan with the catalogue it yields, a ready repair with its evidence); round trips of markers and texts;
  convergence of the reconciliations; the folds of copies of a job, which spare the user's cards and
  exceptions; the guards of external fetches; the fair order of tasks; the
  choice of boards to move.

  Of the ledger: every posting of every answer is resolved exactly once and, when the batch is closed,
  accounted for by its segments; what is recorded, resolved, terminal or sealed never changes until the retention worker disposes of
  a processed batch; a claimed
  segment is what was sealed; the counters of segment and batch agree with their rows; a publication
  keeps to its watermarks; a resumed listing ends; a worker that asks for work gets it; recovery and
  ordinary segments take turns; admissions stay below the pressure limits and the cap on listings.
  These hold for every ledger in \<open>reachable\<close>. Its steps are the transactions as they are, in any order,
  with three premises that the callers establish: a page commit, a saved end and a materialisation run
  under a claim on the batch they write (\<open>claim_for\<close>), a new page is requested only when no page is pending,
  and segments are sealed after the compaction or as the prefix of a listing (\<open>sealing_time\<close>). The disposal
  (\<open>scripts/dispose_ats_crawls.ts\<close>) takes a batch out of the ledger: its pages, observations, items and
  resolutions are deleted, and its summary row and processed segments are in no state a step selects. The
  batches that the conversion of the previous writer creates are not in \<open>reachable\<close>.

  Two claims are one step where the source issues several statements: \<open>claimNextAtsV2Segment\<close> (the lease, then the
  reading of the segment, its items and its batch; the cursor of the segment is the lease holder's alone, and its
  items are terminal) and, for a worker
  without a cap, \<open>claimAtsContinuationCandidate\<close> (the update, the reading and the receipt). The re-check of the
  writer gate at the head of \<open>complete\<close>, \<open>finish\<close>, \<open>seal\<close> and \<open>reconcile\<close> (\<open>authorizeAtsV2LifecycleWrite\<close>) is left
  out; it can only refuse, and a refused operation changes nothing.

  \<^bold>\<open>Conventions.\<close> An instant is a number of milliseconds, an \<open>int\<close>; counters and scores are
  mathematical integers (their values stay far below $2^{53}$); ratios are rationals, where the source has
  doubles, except where a rounding matters and is a parameter (\<open>float_ops\<close>). A string is a list of
  characters, one per UTF-16 unit below 256. A throw is the \<open>Inl\<close> of a sum, a missing value \<open>None\<close>.
  A database transaction is one function on the rows; a conditional update changes the rows its filter
  selects and counts them. Concurrency is the sequence of such updates. Loops are structural recursion
  on what they consume; \<open>claim_loop\<close> and the redirect loop carry the bound the source gives them as fuel
  (four attempts per slot, the redirect limit), so they end by definition. Of a table that is only
  ordered by creation, the position in the list is \<open>createdAt\<close>; where a worker chooses a row and claims it
  in two statements, \<open>others\<close> is what the other workers do to the table in between.

  \<^bold>\<open>Parameters.\<close> Digests (\<open>sha\<close>, \<open>stable_hash\<close>), random tokens, the collation of \<open>localeCompare\<close>, the parser
  of dates and URLs, the time zone database, number printing, name service and network, and those text
  normalisations that are large regular expressions (titles, places and employers in \<open>Applied_Repeat\<close>,
  cues in \<open>Experience_Score\<close>). In the ledger also the marker that the enrichment of a posting attaches
  (\<open>marker_of\<close>) and the board slug of a job address. Where a theorem needs something of one, it is a named hypothesis
  (\<open>comparator\<close>, injectivity of a printer, \<open>opens_daily\<close>), and its witness instantiates it.

  \<^bold>\<open>Not modelled.\<close> The pages, route handlers and components (\<open>src/app\<close>, \<open>src/components\<close>): presentation and
  request plumbing over the functions above. The readers of job boards and of postings (\<open>atsApi.ts\<close>,
  \<open>browserAts*.ts\<close>, \<open>*Posting.ts\<close>, \<open>*Board.ts\<close>, the listing readers of \<open>atsAcquisition.ts\<close>, the enrichment
  \<open>atsJobEnrichment.ts\<close>), the scrapers and the browser automation: parsers of foreign pages. The bulk of
  ingestion (\<open>jobIngestion.ts\<close>) and of the exchange with the scoring models (\<open>scoringImport.ts\<close>,
  \<open>scoringExport.ts\<close>, \<open>jobScoring.ts\<close>, \<open>nativeScoringBatch.ts\<close>, the \<open>aim*.ts\<close> modules): mostly SQL text,
  prompts and calls of services. Of the acquisition: the worker loop of the dispatcher, the conversion
  of legacy batches (\<open>atsLegacyConversion.ts\<close>), the verification of an archive before disposal, the turn of the first-collection controller and the telemetry columns. Of the
  copies of a job: the transaction that folds a card and the separation of two. The identity of employers,
  statistics and the other maintenance scripts.
\<close>

end
